(* ===== verification/Prelude.thy ===== *)
theory Prelude
  imports Main "HOL-Library.Word"
begin

text \<open>
  What every theory of the development shares: the machine types of the 32-bit MIPS target
  (ILP32: \<open>int\<close>, \<open>unsigned\<close>, \<open>long\<close>, \<open>size_t\<close> and every pointer are 32 bits wide), the byte-addressed
  memory, the result type of operations that can fault, the collections that the component
  proofs are carried by, and generic lemmas on words, lists and memories.
\<close>

unbundle bit_operations_syntax

section \<open>Machine types\<close>

type_synonym u8 = "8 word"
type_synonym u16 = "16 word"
type_synonym u32 = "32 word"

text \<open>The address space: one byte per 32-bit address; address arithmetic wraps around.\<close>

type_synonym memory = "u32 \<Rightarrow> u8"

section \<open>Collections\<close>

named_theorems cdefs \<open>definitions of the C operations that proofs unfold freely\<close>
named_theorems unat_simps \<open>reading word operations as natural numbers\<close>

section \<open>Faults\<close>

text \<open>
  What the C standard leaves undefined, and the halts of the code itself, are values: an
  operation that can fault returns \<open>Inl f\<close> with the reason, or \<open>Inr\<close> its result.
\<close>

datatype fault =
    Out_of_bounds       \<comment> \<open>an access outside the array it is made through\<close>
  | Null_pointer        \<comment> \<open>an access through \<open>NULL\<close>\<close>
  | Not_on_queue        \<comment> \<open>a list removal of an element that is not on that list\<close>
  | Divide_by_zero
  | Bad_shift           \<comment> \<open>a shift by a negative amount or by the width or more\<close>
  | Missing_argument    \<comment> \<open>\<open>va_arg\<close> past the arguments passed\<close>
  | Panicked string     \<comment> \<open>the code called \<open>panic\<close>\<close>

type_synonym 'a result = "fault + 'a"

fun rbind :: "'a result \<Rightarrow> ('a \<Rightarrow> 'b result) \<Rightarrow> 'b result" where
  "rbind (Inl e) f = Inl e"
| "rbind (Inr x) f = f x"

lemma rbind_Inr_iff: "rbind r f = Inr y \<longleftrightarrow> (\<exists>x. r = Inr x \<and> f x = Inr y)"
  by (cases r) auto

lemma rbind_Inl_iff: "rbind r f = Inl e \<longleftrightarrow> r = Inl e \<or> (\<exists>x. r = Inr x \<and> f x = Inl e)"
  by (cases r) auto

lemma rbind_assoc: "rbind (rbind r f) g = rbind r (\<lambda>x. rbind (f x) g)"
  by (cases r) auto

lemma rbind_cong [fundef_cong]:
  "r = r' \<Longrightarrow> (\<And>x. r' = Inr x \<Longrightarrow> f x = g x) \<Longrightarrow> rbind r f = rbind r' g"
  by (cases r') auto

text \<open>Loops that may not end and may fault: \<open>None\<close>, or a result.\<close>

definition obind :: "'a result option \<Rightarrow> ('a \<Rightarrow> 'b result option) \<Rightarrow> 'b result option" where
  "obind x f = Option.bind x (\<lambda>r. case r of Inl e \<Rightarrow> Some (Inl e) | Inr v \<Rightarrow> f v)"

lemma obind_simps [simp]:
  "obind None f = None" "obind (Some (Inl e)) f = Some (Inl e)" "obind (Some (Inr v)) f = f v"
  by (simp_all add: obind_def)

lemma obind_mono [partial_function_mono]:
  assumes "monotone (fun_ord option_ord) option_ord B"
    "\<And>y. monotone (fun_ord option_ord) option_ord (\<lambda>f. C y f)"
  shows "monotone (fun_ord option_ord) option_ord (\<lambda>f. obind (B f) (\<lambda>y. C y f))"
  unfolding obind_def
proof (rule bind_mono [OF assms(1)])
  fix r show "monotone (fun_ord option_ord) option_ord (\<lambda>f. case r of Inl e \<Rightarrow> Some (Inl e) | Inr v \<Rightarrow> C v f)"
    using assms(2) by (cases r) (simp_all add: monotone_def flat_ord_def)
qed

section \<open>Words as numbers\<close>

lemma unat_of_nat_small [unat_simps]: "n < 2 ^ LENGTH('a) \<Longrightarrow> unat (of_nat n :: 'a::len word) = n"
  by (simp add: unat_of_nat take_bit_nat_eq_self)

lemma unat_add_small [unat_simps]:
  "unat a + unat b < 2 ^ LENGTH('a) \<Longrightarrow> unat (a + b :: 'a::len word) = unat a + unat b"
  by (simp add: unat_word_ariths)

lemma unat_mult_small [unat_simps]:
  "unat a * unat b < 2 ^ LENGTH('a) \<Longrightarrow> unat (a * b :: 'a::len word) = unat a * unat b"
  by (simp add: unat_word_ariths)

lemma unat_sub_small [unat_simps]: "b \<le> a \<Longrightarrow> unat (a - b :: 'a::len word) = unat a - unat b"
  by (rule unat_sub)

lemma unat_pred: "n \<noteq> 0 \<Longrightarrow> unat (n - 1 :: 'a::len word) = unat n - 1"
  by (simp add: unat_minus_one)

lemma word_eq_iff_unat: "a = b \<longleftrightarrow> unat a = unat (b :: 'a::len word)"
  by (auto intro: word_unat_eq_iff [THEN iffD2])

section \<open>The first element, if any\<close>

definition head_opt :: "'e list \<Rightarrow> 'e option" where
  "head_opt xs = (case xs of [] \<Rightarrow> None | x # _ \<Rightarrow> Some x)"

lemma head_opt_simps [simp]: "head_opt [] = None" "head_opt (x # xs) = Some x"
  by (simp_all add: head_opt_def)

lemma head_opt_None [simp]: "head_opt xs = None \<longleftrightarrow> xs = []"
  by (cases xs) auto

end
