(* ===== verification/Vhdl.thy ===== *)
theory Vhdl
  imports Prelude
begin

text \<open>
  What the processor's VHDL is written in: the nine-valued logic of its control signals, the types and
  constants of \<open>arch_defs.vhdl\<close>, the functions of \<open>utils.vhdl\<close> and the operators of \<open>overloads.vhdl\<close>.
  Control signals keep the nine values, since the decoder drives some of them with \<open>'X'\<close>. Data words,
  addresses and register numbers are machine words: they hold the values 0 and 1 once the processor was reset.
\<close>

section \<open>Logic\<close>

datatype std_logic = SU | SX | S0 | S1 | SZ | SW | SL | SH | SD

type_synonym ctrl = std_logic

text \<open>The tables of \<open>std_logic_1164\<close>: a forced or weak 0 decides \<open>and\<close>, a 1 decides \<open>or\<close>.\<close>

definition is_zero :: "std_logic \<Rightarrow> bool" where "is_zero a \<longleftrightarrow> a = S0 \<or> a = SL"
definition is_one :: "std_logic \<Rightarrow> bool" where "is_one a \<longleftrightarrow> a = S1 \<or> a = SH"

definition std_and :: "std_logic \<Rightarrow> std_logic \<Rightarrow> std_logic" where
  "std_and a b = (if is_zero a \<or> is_zero b then S0 else if is_one a \<and> is_one b then S1
     else if a = SU \<or> b = SU then SU else SX)"

definition std_or :: "std_logic \<Rightarrow> std_logic \<Rightarrow> std_logic" where
  "std_or a b = (if is_one a \<or> is_one b then S1 else if is_zero a \<and> is_zero b then S0
     else if a = SU \<or> b = SU then SU else SX)"

definition std_not :: "std_logic \<Rightarrow> std_logic" where
  "std_not a = (if is_zero a then S1 else if is_one a then S0 else if a = SU then SU else SX)"

text \<open>A string literal such as \<open>"0XX1XX0XX00X"\<close>; the leftmost character has the highest index.\<close>

definition std_of_char :: "char \<Rightarrow> std_logic" where
  "std_of_char c = (if c = CHR ''0'' then S0 else if c = CHR ''1'' then S1 else if c = CHR ''X'' then SX
     else if c = CHR ''-'' then SD else SU)"

definition vec :: "string \<Rightarrow> std_logic list" where
  "vec s = map std_of_char s"

definition vbit :: "std_logic list \<Rightarrow> nat \<Rightarrow> std_logic" where
  "vbit v i = v ! (length v - 1 - i)"

definition vset :: "nat \<Rightarrow> std_logic \<Rightarrow> std_logic list \<Rightarrow> std_logic list" where
  "vset i x v = v[length v - 1 - i := x]"

section \<open>Types and constants of \<open>arch_defs.vhdl\<close>\<close>

type_synonym width = "2 word"
type_synonym reg = "5 word"

definition WIDTH_NONE :: width where "WIDTH_NONE = 0b00"
definition WIDTH_BYTE :: width where "WIDTH_BYTE = 0b01"
definition WIDTH_HALF :: width where "WIDTH_HALF = 0b10"
definition WIDTH_WORD :: width where "WIDTH_WORD = 0b11"

lemmas width_defs = WIDTH_NONE_def WIDTH_BYTE_def WIDTH_HALF_def WIDTH_WORD_def

datatype alu_op_t =
    ALU_ADD | ALU_ADDU | ALU_SUB | ALU_SUBU
  | ALU_AND | ALU_OR | ALU_NOR | ALU_XOR | ALU_LU
  | ALU_SLL | ALU_SRL | ALU_SRA
  | ALU_MULT | ALU_MULTU | ALU_DIV | ALU_DIVU
  | ALU_MFHI | ALU_MFLO | ALU_MTHI | ALU_MTLO
  | ALU_SLT | ALU_SLTU
  | ALU_EQ | ALU_NE | ALU_LEZ | ALU_LTZ | ALU_GTZ | ALU_GEZ

definition half :: "u32 \<Rightarrow> u16" where "half w = ucast w"

text \<open>The fields of an instruction, aliases of its slices in the decoder.\<close>

definition f_op :: "u32 \<Rightarrow> 6 word" where "f_op instr = ucast (drop_bit 26 instr)"
definition f_rs :: "u32 \<Rightarrow> reg" where "f_rs instr = ucast (drop_bit 21 instr)"
definition f_rt :: "u32 \<Rightarrow> reg" where "f_rt instr = ucast (drop_bit 16 instr)"
definition f_rd :: "u32 \<Rightarrow> reg" where "f_rd instr = ucast (drop_bit 11 instr)"
definition f_shamt :: "u32 \<Rightarrow> 5 word" where "f_shamt instr = ucast (drop_bit 6 instr)"
definition f_func :: "u32 \<Rightarrow> 6 word" where "f_func instr = ucast instr"
definition f_imm :: "u32 \<Rightarrow> u16" where "f_imm instr = ucast instr"
definition f_jump :: "u32 \<Rightarrow> 26 word" where "f_jump instr = ucast instr"

section \<open>Functions of \<open>utils.vhdl\<close>\<close>

definition high_if :: "bool \<Rightarrow> std_logic" where "high_if c = (if c then S1 else S0)"
definition low_if :: "bool \<Rightarrow> std_logic" where "low_if c = (if c then S0 else S1)"

definition vtoi :: "'a::len word \<Rightarrow> int" where "vtoi v = sint v"
definition vtou :: "'a::len word \<Rightarrow> nat" where "vtou v = unat v"
definition itow :: "int \<Rightarrow> u32" where "itow i = word_of_int i"
definition vec_increment :: "'a::len word \<Rightarrow> 'a word" where "vec_increment v = v + 1"

text \<open>\<open>(31 downto 1 => '0') & b\<close>\<close>

definition flag_word :: "std_logic \<Rightarrow> u32" where "flag_word b = (if b = S1 then 1 else 0)"

lemma high_if_simps [simp]: "high_if True = S1" "high_if False = S0" "high_if c = S1 \<longleftrightarrow> c" "high_if c = S0 \<longleftrightarrow> \<not> c"
  by (simp_all add: high_if_def)

lemma flag_simps [simp]: "flag_word (high_if c) = (if c then 1 else 0)" "flag_word (low_if c) = (if c then 0 else 1)"
  by (simp_all add: flag_word_def low_if_def)

section \<open>Operators of \<open>overloads.vhdl\<close>\<close>

text \<open>
  The shifts build their result from a slice of the operand; a shift by the width or more leaves the
  initial value, zeros or copies of the sign.
\<close>

definition slv_sll :: "u32 \<Rightarrow> nat \<Rightarrow> u32" where "slv_sll l r = push_bit r l"
definition slv_srl :: "u32 \<Rightarrow> nat \<Rightarrow> u32" where "slv_srl l r = drop_bit r l"
definition slv_sra :: "u32 \<Rightarrow> nat \<Rightarrow> u32" where "slv_sra l r = signed_drop_bit r l"

end
