(* ===== verification/Cpu_Parts.thy ===== *)
theory Cpu_Parts
  imports Vhdl
begin

text \<open>
  The parts of the processor, \<open>vhdl/arch\<close>: the multiplexers and adders as functions, and each process as
  the function that gives its new outputs. A process that leaves an output unassigned keeps its old value
  (the main decoder and the result of the arithmetic unit): the old outputs are an argument. Debug
  output is left out.
\<close>

section \<open>Multiplexers and adders\<close>

definition ALUSrcMux :: "ctrl \<Rightarrow> u32 \<Rightarrow> u32 \<Rightarrow> u32" where
  "ALUSrcMux ALUSrc reg2data immediate = (if ALUSrc = S1 then immediate else reg2data)"

definition shiftMux :: "ctrl \<Rightarrow> u32 \<Rightarrow> u32 \<Rightarrow> u32" where
  "shiftMux Shift reg1data shamt = (if Shift = S1 then shamt else reg1data)"

definition BranchMux :: "ctrl \<Rightarrow> u32 \<Rightarrow> u32 \<Rightarrow> u32" where
  "BranchMux BranchANDZero AddrALUresult addr = (if BranchANDZero = S1 then AddrALUresult else addr)"

definition JumpDirMux :: "ctrl \<Rightarrow> u32 \<Rightarrow> u32 \<Rightarrow> u32" where
  "JumpDirMux JumpDir jumpAddr branchMux = (if JumpDir = S1 then jumpAddr else branchMux)"

definition JumpRegMux :: "ctrl \<Rightarrow> u32 \<Rightarrow> u32 \<Rightarrow> u32" where
  "JumpRegMux JumpReg reg1data jumpDirMux = (if JumpReg = S1 then reg1data else jumpDirMux)"

definition linkMux :: "ctrl \<Rightarrow> u32 \<Rightarrow> u32 \<Rightarrow> u32" where
  "linkMux Link pc memToRegMux = (if Link = S1 then pc else memToRegMux)"

definition memToRegMux :: "ctrl \<Rightarrow> u32 \<Rightarrow> u32 \<Rightarrow> u32" where
  "memToRegMux MemtoReg aluResult memReadData = (if MemtoReg = S1 then memReadData else aluResult)"

definition regDstMux :: "ctrl \<Rightarrow> reg \<Rightarrow> reg \<Rightarrow> reg" where
  "regDstMux RegDst rt rd = (if RegDst = S1 then rd else rt)"

definition returnAddrMux :: "ctrl \<Rightarrow> reg \<Rightarrow> reg \<Rightarrow> reg" where
  "returnAddrMux returnAddrControl returnAddrReg regDst = (if returnAddrControl = S1 then returnAddrReg else regDst)"

definition MUX :: "ctrl \<Rightarrow> 'a::len word \<Rightarrow> 'a word \<Rightarrow> 'a word" where
  "MUX sel input0 input1 = (if sel = S0 then input0 else input1)"

definition MUX1bit :: "ctrl \<Rightarrow> std_logic \<Rightarrow> std_logic \<Rightarrow> std_logic" where
  "MUX1bit sel input0 input1 = (if sel = S0 then input0 else input1)"

definition Adder :: "u32 \<Rightarrow> u32 \<Rightarrow> u32" where
  "Adder src1 src2 = src1 + src2"

definition shiftLeftImm :: "u32 \<Rightarrow> u32" where
  "shiftLeftImm imm = push_bit 2 imm"

section \<open>The arithmetic unit\<close>

text \<open>The process keeps its variable \<open>result\<close> and the signals \<open>HI\<close> and \<open>LO\<close>.\<close>

record alu_state =
  result :: u32
  HI :: u32
  LO :: u32

definition immediately_correct :: "u32 \<Rightarrow> ctrl \<Rightarrow> u32" where
  "immediately_correct Src2 immediate =
    (if immediate = S0 then Src2 else word_cat (0x0000 :: u16) (half Src2))"

definition alu_shamt :: "u32 \<Rightarrow> 6 word" where
  "alu_shamt Src2 = ucast Src2"

fun alu :: "u32 \<Rightarrow> u32 \<Rightarrow> alu_op_t \<Rightarrow> ctrl \<Rightarrow> alu_state \<Rightarrow> alu_state" where
  "alu Src1 Src2 ALU_ADD imm s = s\<lparr>result := Src1 + Src2\<rparr>"
| "alu Src1 Src2 ALU_ADDU imm s = s\<lparr>result := Src1 + Src2\<rparr>"
| "alu Src1 Src2 ALU_SUB imm s = s\<lparr>result := Src1 - Src2\<rparr>"
| "alu Src1 Src2 ALU_SUBU imm s = s\<lparr>result := Src1 - Src2\<rparr>"
| "alu Src1 Src2 ALU_AND imm s = s\<lparr>result := Src1 AND immediately_correct Src2 imm\<rparr>"
| "alu Src1 Src2 ALU_OR imm s = s\<lparr>result := Src1 OR immediately_correct Src2 imm\<rparr>"
| "alu Src1 Src2 ALU_NOR imm s = s\<lparr>result := NOT (Src1 OR immediately_correct Src2 imm)\<rparr>"
| "alu Src1 Src2 ALU_XOR imm s = s\<lparr>result := Src1 XOR immediately_correct Src2 imm\<rparr>"
| "alu Src1 Src2 ALU_LU imm s = s\<lparr>result := word_cat (half Src2) (0x0000 :: u16)\<rparr>"
| "alu Src1 Src2 ALU_SLL imm s = s\<lparr>result := slv_sll Src1 (vtou (alu_shamt Src2))\<rparr>"
| "alu Src1 Src2 ALU_SRL imm s = s\<lparr>result := slv_srl Src1 (vtou (alu_shamt Src2))\<rparr>"
| "alu Src1 Src2 ALU_SRA imm s = s\<lparr>result := slv_sra Src1 (vtou (alu_shamt Src2))\<rparr>"
| "alu Src1 Src2 ALU_MULT imm s = s"
| "alu Src1 Src2 ALU_MULTU imm s = s"
| "alu Src1 Src2 ALU_DIV imm s = s"
| "alu Src1 Src2 ALU_DIVU imm s = s"
| "alu Src1 Src2 ALU_MFHI imm s = s\<lparr>result := HI s\<rparr>"
| "alu Src1 Src2 ALU_MFLO imm s = s\<lparr>result := LO s\<rparr>"
| "alu Src1 Src2 ALU_MTHI imm s = s\<lparr>HI := Src1\<rparr>"
| "alu Src1 Src2 ALU_MTLO imm s = s\<lparr>LO := Src2\<rparr>"
| "alu Src1 Src2 ALU_SLT imm s = s\<lparr>result := flag_word (high_if (vtoi Src1 < vtoi Src2))\<rparr>"
| "alu Src1 Src2 ALU_SLTU imm s = s\<lparr>result := flag_word (high_if (Src1 < Src2))\<rparr>"
| "alu Src1 Src2 ALU_EQ imm s = s\<lparr>result := flag_word (low_if (Src1 = Src2))\<rparr>"
| "alu Src1 Src2 ALU_NE imm s = s\<lparr>result := flag_word (low_if (Src1 \<noteq> Src2))\<rparr>"
| "alu Src1 Src2 ALU_LEZ imm s = s\<lparr>result := flag_word (low_if (vtoi Src1 \<le> 0))\<rparr>"
| "alu Src1 Src2 ALU_LTZ imm s = s\<lparr>result := flag_word (low_if (vtoi Src1 < 0))\<rparr>"
| "alu Src1 Src2 ALU_GTZ imm s = s\<lparr>result := flag_word (low_if (vtoi Src1 > 0))\<rparr>"
| "alu Src1 Src2 ALU_GEZ imm s = s\<lparr>result := flag_word (low_if (vtoi Src1 \<ge> 0))\<rparr>"

definition isZero :: "alu_state \<Rightarrow> ctrl" where
  "isZero s = (if result s = 0 then S1 else S0)"

section \<open>The main decoder\<close>

record dec_out =
  d_ctrl :: "std_logic list"
  d_aluop :: alu_op_t
  d_memwidth :: width

definition i_regwrite :: nat where "i_regwrite = 11"
definition i_regdst :: nat where "i_regdst = 10"
definition i_link :: nat where "i_link = 9"
definition i_jumpreg :: nat where "i_jumpreg = 8"
definition i_jumpdirect :: nat where "i_jumpdirect = 7"
definition i_branch :: nat where "i_branch = 6"
definition i_memread :: nat where "i_memread = 5"
definition i_memtoreg :: nat where "i_memtoreg = 4"
definition i_memsex :: nat where "i_memsex = 3"
definition i_memwrite :: nat where "i_memwrite = 2"
definition i_shift :: nat where "i_shift = 1"
definition i_alusrc :: nat where "i_alusrc = 0"

lemmas ctrl_index_defs = i_regwrite_def i_regdst_def i_link_def i_jumpreg_def i_jumpdirect_def i_branch_def
  i_memread_def i_memtoreg_def i_memsex_def i_memwrite_def i_shift_def i_alusrc_def

text \<open>The assignments \<open>ctrl <= v; aluop <= a; memwidth <= w;\<close>\<close>

definition set_ctrl :: "string \<Rightarrow> dec_out \<Rightarrow> dec_out" where "set_ctrl v d = d\<lparr>d_ctrl := vec v\<rparr>"
definition set_op :: "alu_op_t \<Rightarrow> dec_out \<Rightarrow> dec_out" where "set_op a d = d\<lparr>d_aluop := a\<rparr>"
definition set_width :: "width \<Rightarrow> dec_out \<Rightarrow> dec_out" where "set_width w d = d\<lparr>d_memwidth := w\<rparr>"
definition set_shift :: "dec_out \<Rightarrow> dec_out" where "set_shift d = d\<lparr>d_ctrl := vset i_shift S1 (d_ctrl d)\<rparr>"

definition dec_func :: "6 word \<Rightarrow> dec_out \<Rightarrow> dec_out" where
  "dec_func func d =
    (if func = 0b100000 then set_op ALU_ADD d
     else if func = 0b100001 then set_op ALU_ADDU d
     else if func = 0b100100 then set_op ALU_AND d
     else if func = 0b100111 then set_op ALU_NOR d
     else if func = 0b100101 then set_op ALU_OR d
     else if func = 0b101010 then set_op ALU_SLT d
     else if func = 0b101011 then set_op ALU_SLTU d
     else if func = 0b100010 then set_op ALU_SUB d
     else if func = 0b100011 then set_op ALU_SUBU d
     else if func = 0b100110 then set_op ALU_XOR d
     else if func = 0b000000 then set_shift (set_op ALU_SLL d)
     else if func = 0b000100 then set_op ALU_SLL d
     else if func = 0b000011 then set_shift (set_op ALU_SRA d)
     else if func = 0b000111 then set_op ALU_SRA d
     else if func = 0b000010 then set_shift (set_op ALU_SRL d)
     else if func = 0b000110 then set_op ALU_SRL d
     else if func = 0b011010 then set_op ALU_DIV d
     else if func = 0b011011 then set_op ALU_DIVU d
     else if func = 0b010000 then set_op ALU_MFHI d
     else if func = 0b010010 then set_op ALU_MFLO d
     else if func = 0b010001 then set_op ALU_MTHI (set_ctrl ''0X000000000X'' d)
     else if func = 0b010011 then set_op ALU_MTLO (set_ctrl ''0X000000000X'' d)
     else if func = 0b011000 then set_op ALU_MULT d
     else if func = 0b011001 then set_op ALU_MULTU d
     else if func = 0b001000 then set_ctrl ''0XX1XX0XX00X'' d
     else if func = 0b001001 then set_ctrl ''1111000XX00X'' d
     else d)"

definition dec_zero_branch :: "5 word \<Rightarrow> dec_out \<Rightarrow> dec_out" where
  "dec_zero_branch rt d =
    (if rt = 0b00000 then set_op ALU_LTZ (set_ctrl ''000001000000'' d)
     else if rt = 0b10000 then set_op ALU_LTZ (set_ctrl ''011001000000'' d)
     else if rt = 0b00001 then set_op ALU_GEZ (set_ctrl ''000001000000'' d)
     else if rt = 0b10001 then set_op ALU_GEZ (set_ctrl ''011001000000'' d)
     else d)"

definition dec_immediate :: "6 word \<Rightarrow> dec_out \<Rightarrow> dec_out" where
  "dec_immediate op d =
    (if op = 0b001000 then set_op ALU_ADD d
     else if op = 0b001001 then set_op ALU_ADDU d
     else if op = 0b001100 then set_op ALU_AND d
     else if op = 0b001111 then set_op ALU_LU d
     else if op = 0b001101 then set_op ALU_OR d
     else if op = 0b001010 then set_op ALU_SLT d
     else if op = 0b001011 then set_op ALU_SLTU d
     else if op = 0b001110 then set_op ALU_XOR d
     else set_ctrl ''------------'' d)"

definition maindec :: "u32 \<Rightarrow> dec_out \<Rightarrow> dec_out" where
  "maindec instr d = (let op = f_op instr in
     if op = 0b000000 then dec_func (f_func instr) (set_ctrl ''110000000000'' d)
     else if op = 0b000010 then set_ctrl ''0XX01X00X00X'' d
     else if op = 0b000011 then set_ctrl ''1X101X00X00X'' d
     else if op = 0b100000 then set_width WIDTH_BYTE (set_op ALU_ADD (set_ctrl ''100000111001'' d))
     else if op = 0b100100 then set_width WIDTH_BYTE (set_op ALU_ADD (set_ctrl ''100000110001'' d))
     else if op = 0b100001 then set_width WIDTH_HALF (set_op ALU_ADD (set_ctrl ''100000111001'' d))
     else if op = 0b100101 then set_width WIDTH_HALF (set_op ALU_ADD (set_ctrl ''100000110001'' d))
     else if op = 0b100011 then set_width WIDTH_WORD (set_op ALU_ADD (set_ctrl ''00000011X001'' d))
     else if op = 0b101000 then set_width WIDTH_BYTE (set_op ALU_ADD (set_ctrl ''00000000X101'' d))
     else if op = 0b101001 then set_width WIDTH_HALF (set_op ALU_ADD (set_ctrl ''00000000X101'' d))
     else if op = 0b101011 then set_width WIDTH_WORD (set_op ALU_ADD (set_ctrl ''00000000X101'' d))
     else if op = 0b000100 then set_op ALU_EQ (set_ctrl ''0X0001000000'' d)
     else if op = 0b000101 then set_op ALU_NE (set_ctrl ''0X0001000000'' d)
     else if op = 0b000001 then dec_zero_branch (f_rt instr) d
     else if op = 0b000111 then set_op ALU_GTZ (set_ctrl ''000001000000'' d)
     else if op = 0b000110 then set_op ALU_LEZ (set_ctrl ''000001000000'' d)
     else dec_immediate op (set_ctrl ''100000000001'' d))"

definition dec_memread :: "dec_out \<Rightarrow> width" where
  "dec_memread d = (if vbit (d_ctrl d) i_memread = S1 then d_memwidth d else WIDTH_NONE)"

definition dec_memwrite :: "dec_out \<Rightarrow> width" where
  "dec_memwrite d = (if vbit (d_ctrl d) i_memwrite = S1 then d_memwidth d else WIDTH_NONE)"

section \<open>The stages\<close>

text \<open>What the register after the decode stage holds; \<open>id_regwrite\<close> is \<open>regwrite_no_wb\<close>.\<close>

record id_regs =
  jump_addr :: u32
  id_regwrite :: ctrl
  Link :: ctrl
  JumpReg :: ctrl
  JumpDir :: ctrl
  Branch :: ctrl
  MemRead :: width
  MemToReg :: ctrl
  MemSex :: ctrl
  MemWrite :: width
  Shift :: ctrl
  ALUSrc :: ctrl
  aluop :: alu_op_t
  readreg1 :: reg
  readreg2 :: reg
  writereg :: reg
  zeroxed :: u32
  sexed :: u32

definition sign_extend :: "u16 \<Rightarrow> u32" where
  "sign_extend imm = (if \<not> bit imm 15 then word_cat (0 :: u16) imm else word_cat (0xFFFF :: u16) imm)"

definition jump_target :: "u32 \<Rightarrow> u32 \<Rightarrow> u32" where
  "jump_target pc_plus_4 instr =
    word_cat (ucast (drop_bit 28 pc_plus_4) :: 4 word) (word_cat (f_jump instr) (0b00 :: 2 word) :: 28 word)"

definition InstructionDecode :: "u32 \<Rightarrow> u32 \<Rightarrow> dec_out \<Rightarrow> id_regs" where
  "InstructionDecode instr pc_plus_4 d =
    (let c = vbit (d_ctrl d);
         returnAddrControl = std_and (std_or (c i_branch) (c i_jumpdirect)) (c i_link);
         regDstMuxOut = regDstMux (c i_regdst) (f_rt instr) (f_rd instr)
     in \<lparr>jump_addr = jump_target pc_plus_4 instr,
         id_regwrite = c i_regwrite, Link = c i_link, JumpReg = c i_jumpreg, JumpDir = c i_jumpdirect,
         Branch = c i_branch, MemRead = dec_memread d, MemToReg = c i_memtoreg, MemSex = c i_memsex,
         MemWrite = dec_memwrite d, Shift = c i_shift, ALUSrc = c i_alusrc, aluop = d_aluop d,
         readreg1 = f_rs instr, readreg2 = f_rt instr,
         writereg = returnAddrMux returnAddrControl 0b11111 regDstMuxOut,
         zeroxed = ucast (f_shamt instr), sexed = sign_extend (f_imm instr)\<rparr>)"

definition Execute_alu :: "id_regs \<Rightarrow> u32 \<Rightarrow> u32 \<Rightarrow> alu_state \<Rightarrow> alu_state" where
  "Execute_alu r regReadData1 regReadData2 s =
    alu (shiftMux (Shift r) regReadData1 (zeroxed r)) (ALUSrcMux (ALUSrc r) regReadData2 (sexed r)) (aluop r) (ALUSrc r) s"

definition branch_addr :: "u32 \<Rightarrow> id_regs \<Rightarrow> u32" where
  "branch_addr pc_plus_4 r = Adder pc_plus_4 (shiftLeftImm (sexed r))"

definition RegCaster :: "u32 \<Rightarrow> ctrl \<Rightarrow> width \<Rightarrow> u32" where
  "RegCaster input SignExtend sz =
    (if sz = WIDTH_BYTE \<and> SignExtend = S1 \<and> bit input 7 then word_cat (0xFFFFFF :: 24 word) (ucast input :: u8)
     else if sz = WIDTH_BYTE then word_cat (0x000000 :: 24 word) (ucast input :: u8)
     else if sz = WIDTH_HALF \<and> SignExtend = S1 \<and> bit input 15 then word_cat (0xFFFF :: u16) (ucast input :: u16)
     else if sz = WIDTH_HALF then word_cat (0x0000 :: u16) (ucast input :: u16)
     else input)"

text \<open>What the processor drives on the bus.\<close>

record bus_out =
  top_addr :: u32
  top_din :: u32
  top_size :: width
  top_wr :: ctrl

definition MemoryAccess :: "id_regs \<Rightarrow> u32 \<Rightarrow> u32 \<Rightarrow> bus_out" where
  "MemoryAccess r Address_in WriteData_in =
    \<lparr>top_addr = Address_in, top_din = WriteData_in, top_size = MemRead r OR MemWrite r,
     top_wr = high_if (MemWrite r \<noteq> WIDTH_NONE)\<rparr>"

definition ReadData_in :: "id_regs \<Rightarrow> u32 \<Rightarrow> u32" where
  "ReadData_in r top_dout = RegCaster top_dout (MemSex r) (MemRead r OR MemWrite r)"

definition wb_data :: "id_regs \<Rightarrow> u32 \<Rightarrow> u32 \<Rightarrow> u32 \<Rightarrow> u32" where
  "wb_data r pc_plus_4 aluResult memReadData =
    linkMux (Link r) pc_plus_4 (memToRegMux (MemToReg r) aluResult memReadData)"

definition wb_new_pc :: "id_regs \<Rightarrow> ctrl \<Rightarrow> u32 \<Rightarrow> u32 \<Rightarrow> u32" where
  "wb_new_pc r TakeBranch pc_plus_4 regReadData1 =
    JumpRegMux (JumpReg r) regReadData1
      (JumpDirMux (JumpDir r) (jump_addr r) (BranchMux TakeBranch (branch_addr pc_plus_4 r) pc_plus_4))"

text \<open>The register file at a rising edge.\<close>

definition regFile_edge :: "ctrl \<Rightarrow> reg \<Rightarrow> u32 \<Rightarrow> (reg \<Rightarrow> u32) \<Rightarrow> (reg \<Rightarrow> u32)" where
  "regFile_edge regWrite wreg writedata rf =
    (if regWrite = S1 \<and> wreg \<noteq> 0 then rf(wreg := writedata) else rf)"

section \<open>The pipeliner\<close>

record pipeline =
  ticks :: nat
  IF_en :: ctrl
  ID_en :: ctrl
  EX_en :: ctrl
  MEM_en :: ctrl
  MEM_read :: ctrl
  WB_en :: ctrl
  Instruction_done :: ctrl

definition Pipeliner_edge :: "pipeline \<Rightarrow> pipeline" where
  "Pipeliner_edge p =
    (let p0 = \<lparr>ticks = ticks p, IF_en = S0, ID_en = S0, EX_en = S0, MEM_en = S0, MEM_read = S0, WB_en = S0,
               Instruction_done = S0\<rparr>;
         p1 = (if ticks p = 2 then p0\<lparr>IF_en := S1\<rparr>
               else if ticks p = 3 then p0\<lparr>ID_en := S1\<rparr>
               else if ticks p = 4 then p0\<lparr>EX_en := S1\<rparr>
               else if ticks p = 5 then p0\<lparr>MEM_en := S1\<rparr>
               else if ticks p = 9 then p0\<lparr>MEM_read := S1\<rparr>
               else if ticks p = 10 then p0\<lparr>WB_en := S1\<rparr>
               else if ticks p = 11 then p0\<lparr>Instruction_done := S1, ticks := 0\<rparr>
               else p0)
     in p1\<lparr>ticks := ticks p1 + 1\<rparr>)"

end
