(* ===== verification/Cpu.thy ===== *)
theory Cpu
  imports Cpu_Parts
begin

text \<open>
  The processor \<open>cpu.vhdl\<close> with its register file, as a state and what a rising edge of the clock does to
  it. All clocked processes see the values from before the edge; \<open>settle\<close> then brings the two processes
  that keep old values up to date, the main decoder and the arithmetic unit. Everything else is a
  function of the registers. \<open>sas\<close> is the generic \<open>SINGLE_ADDRESS_SPACE\<close>: with it instructions come
  over the bus, without it from the constant array \<open>example_code\<close>, in whose place the model takes any
  list of words, \<open>code\<close>. \<open>dout\<close> is the word on the input \<open>top_dout\<close>.
\<close>

section \<open>State\<close>

text \<open>\<open>im_din\<close> is an output that nothing drives.\<close>

record fetch_state =
  read_addr :: u32
  im_instr :: u32
  im_addr :: u32
  im_din :: u32
  im_size :: width
  im_wr :: ctrl

record if_regs =
  pc_plus_4 :: u32
  instr :: u32

record cpu =
  pipe :: pipeline
  fetch :: fetch_state
  new_pc :: u32
  ifr :: if_regs
  dec :: dec_out
  idr :: id_regs
  alus :: alu_state
  takeBranch :: ctrl
  aluResult :: u32
  selMEM :: ctrl
  memReadData :: u32
  regWriteData :: u32
  rf :: "reg \<Rightarrow> u32"

definition BOOT_ADDR :: u32 where "BOOT_ADDR = 0x00000000"
definition PC_ADD :: int where "PC_ADD = 4"

definition regReadData1 :: "cpu \<Rightarrow> u32" where "regReadData1 s = rf s (readreg1 (idr s))"
definition regReadData2 :: "cpu \<Rightarrow> u32" where "regReadData2 s = rf s (readreg2 (idr s))"

definition settle :: "cpu \<Rightarrow> cpu" where
  "settle s = (let s1 = s\<lparr>dec := maindec (instr (ifr s)) (dec s)\<rparr>
     in s1\<lparr>alus := Execute_alu (idr s1) (regReadData1 s1) (regReadData2 s1) (alus s1)\<rparr>)"

text \<open>What the processor drives on the bus: the fetch unit until the operands are executed, then the memory unit.\<close>

definition cpu_bus :: "cpu \<Rightarrow> bus_out" where
  "cpu_bus s = (let m = MemoryAccess (idr s) (aluResult s) (regReadData2 s); f = fetch s; sel = selMEM s
     in \<lparr>top_addr = MUX sel (im_addr f) (top_addr m), top_din = MUX sel (im_din f) (top_din m),
         top_size = MUX sel (im_size f) (top_size m), top_wr = MUX1bit sel (im_wr f) (top_wr m)\<rparr>)"

section \<open>Registers\<close>

text \<open>\<open>PipeReg\<close>, \<open>CtrlReg\<close> and \<open>AluOpReg\<close> at a rising edge; \<open>zero\<close> is what \<open>clr\<close> makes of the output.\<close>

definition PipeReg :: "ctrl \<Rightarrow> ctrl \<Rightarrow> 'a \<Rightarrow> 'a \<Rightarrow> 'a \<Rightarrow> 'a" where
  "PipeReg clr enable zero data old = (if clr = S1 then zero else if enable = S1 then data else old)"

lemma PipeReg_simps [simp]:
  "PipeReg S1 e z x y = z" "PipeReg S0 S1 z x y = x" "PipeReg S0 S0 z x y = y" "PipeReg S0 (high_if c) z x y = (if c then x else y)"
  by (simp_all add: PipeReg_def high_if_def)

definition if_zero :: if_regs where
  "if_zero = \<lparr>pc_plus_4 = 0, instr = 0\<rparr>"

definition id_zero :: id_regs where
  "id_zero = \<lparr>jump_addr = 0, id_regwrite = S0, Link = S0, JumpReg = S0, JumpDir = S0, Branch = S0, MemRead = 0,
     MemToReg = S0, MemSex = S0, MemWrite = 0, Shift = S0, ALUSrc = S0, aluop = ALU_AND, readreg1 = 0, readreg2 = 0,
     writereg = 0, zeroxed = 0, sexed = 0\<rparr>"

section \<open>A rising edge\<close>

definition InstructionMem_edge :: "bool \<Rightarrow> u32 list \<Rightarrow> u32 \<Rightarrow> fetch_state \<Rightarrow> fetch_state result" where
  "InstructionMem_edge sas code dout f =
    (if sas then Inr (f\<lparr>im_instr := dout, im_addr := read_addr f, im_size := WIDTH_WORD, im_wr := S0\<rparr>)
     else let instrnum = drop_bit 2 (read_addr f) in
       if vtou instrnum < length code then Inr (f\<lparr>im_instr := code ! vtou instrnum, im_wr := S0\<rparr>)
       else Inl Out_of_bounds)"

definition cpu_edge :: "bool \<Rightarrow> u32 list \<Rightarrow> ctrl \<Rightarrow> u32 \<Rightarrow> cpu \<Rightarrow> cpu result" where
  "cpu_edge sas code rst dout s =
    (let p = pipe s; r = idr s; pc4 = pc_plus_4 (ifr s)
     in rbind (InstructionMem_edge sas code dout (fetch s)) (\<lambda>f.
       Inr (settle (s\<lparr>
         pipe := (if rst = S1 then p\<lparr>ticks := 1\<rparr> else Pipeliner_edge p),
         fetch := f\<lparr>read_addr := (if rst = S1 then BOOT_ADDR else new_pc s)\<rparr>,
         new_pc := PipeReg rst (WB_en p) 0 (wb_new_pc r (takeBranch s) pc4 (regReadData1 s)) (new_pc s),
         ifr := PipeReg rst (IF_en p) if_zero
           \<lparr>pc_plus_4 = Adder (read_addr (fetch s)) (itow PC_ADD), instr = im_instr (fetch s)\<rparr> (ifr s),
         idr := PipeReg rst (ID_en p) id_zero (InstructionDecode (instr (ifr s)) pc4 (dec s)) r,
         takeBranch := PipeReg rst (EX_en p) S0 (std_and (Branch r) (isZero (alus s))) (takeBranch s),
         aluResult := PipeReg rst (EX_en p) 0 (result (alus s)) (aluResult s),
         selMEM := (if EX_en p = S1 \<or> WB_en p = S1 then std_not (selMEM s) else selMEM s),
         memReadData := PipeReg rst (MEM_en p) 0 (ReadData_in r dout) (memReadData s),
         regWriteData := PipeReg rst S1 0 (wb_data r pc4 (aluResult s) (memReadData s)) (regWriteData s),
         rf := (if rst = S1 then (\<lambda>_. 0)
           else regFile_edge (std_and (WB_en p) (id_regwrite r)) (writereg r) (regWriteData s) (rf s))\<rparr>))))"

text \<open>Asserting \<open>rst\<close> between two edges.\<close>

definition cpu_reset :: "cpu \<Rightarrow> cpu" where
  "cpu_reset s = settle (s\<lparr>pipe := (pipe s)\<lparr>ticks := 1\<rparr>, fetch := (fetch s)\<lparr>read_addr := BOOT_ADDR\<rparr>,
     new_pc := 0, ifr := if_zero, idr := id_zero, takeBranch := S0, aluResult := 0, memReadData := 0,
     regWriteData := 0, rf := (\<lambda>_. 0)\<rparr>)"

text \<open>\<open>n\<close> edges; \<open>dout t\<close> is on the input at edge \<open>t\<close>.\<close>

fun cpu_run :: "bool \<Rightarrow> u32 list \<Rightarrow> (nat \<Rightarrow> u32) \<Rightarrow> nat \<Rightarrow> cpu \<Rightarrow> cpu result" where
  "cpu_run sas code dout 0 s = Inr s"
| "cpu_run sas code dout (Suc n) s = rbind (cpu_run sas code dout n s) (cpu_edge sas code S0 (dout n))"

lemma cpu_run_add:
  "cpu_run sas code dout (m + n) s = rbind (cpu_run sas code dout m s) (cpu_run sas code (\<lambda>t. dout (m + t)) n)"
proof (induction n)
  case 0
  then show ?case by (cases "cpu_run sas code dout m s") simp_all
next
  case (Suc n)
  then show ?case by (simp add: rbind_assoc)
qed

section \<open>Processes that keep values are settled\<close>

lemma alu_idem: "alu x y f i (alu x y f i s) = alu x y f i s"
  by (cases f) simp_all

lemma Execute_alu_idem: "Execute_alu r x y (Execute_alu r x y s) = Execute_alu r x y s"
  by (simp add: Execute_alu_def alu_idem)

text \<open>The decoder sets some of its outputs to constants and keeps the others.\<close>

definition steady :: "(dec_out \<Rightarrow> dec_out) \<Rightarrow> bool" where
  "steady f \<longleftrightarrow> (\<exists>c a k. \<forall>d. f d = \<lparr>d_ctrl = case_option (d_ctrl d) id c, d_aluop = case_option (d_aluop d) id a,
     d_memwidth = case_option (d_memwidth d) id k\<rparr>)"

lemma steadyI:
  "(\<And>d. f d = \<lparr>d_ctrl = case_option (d_ctrl d) id c, d_aluop = case_option (d_aluop d) id a,
     d_memwidth = case_option (d_memwidth d) id k\<rparr>) \<Longrightarrow> steady f"
  unfolding steady_def by blast

lemma steady_id: "steady (\<lambda>d. d)"
  by (rule steadyI [where c = None and a = None and k = None]) simp

lemma steady_sets:
  assumes "steady f"
  shows "steady (\<lambda>d. set_ctrl v (f d))" "steady (\<lambda>d. set_op b (f d))" "steady (\<lambda>d. set_width l (f d))"
    "steady (\<lambda>d. set_shift (set_op b (set_ctrl v (f d))))"
proof -
  obtain c a k where f: "\<And>d. f d = \<lparr>d_ctrl = case_option (d_ctrl d) id c, d_aluop = case_option (d_aluop d) id a,
     d_memwidth = case_option (d_memwidth d) id k\<rparr>" using assms unfolding steady_def by blast
  show "steady (\<lambda>d. set_ctrl v (f d))"
    by (rule steadyI [where c = "Some (vec v)" and a = a and k = k]) (simp add: f set_ctrl_def)
  show "steady (\<lambda>d. set_op b (f d))"
    by (rule steadyI [where c = c and a = "Some b" and k = k]) (simp add: f set_op_def)
  show "steady (\<lambda>d. set_width l (f d))"
    by (rule steadyI [where c = c and a = a and k = "Some l"]) (simp add: f set_width_def)
  show "steady (\<lambda>d. set_shift (set_op b (set_ctrl v (f d))))"
    by (rule steadyI [where c = "Some (vset i_shift S1 (vec v))" and a = "Some b" and k = k])
      (simp add: f set_op_def set_ctrl_def set_shift_def)
qed

lemma steady_if: "steady f \<Longrightarrow> steady g \<Longrightarrow> steady (\<lambda>d. if P then f d else g d)"
  by (cases P) simp_all

lemma steady_idem:
  assumes "steady f"
  shows "f (f d) = f d"
proof -
  obtain c a k where "\<And>d. f d = \<lparr>d_ctrl = case_option (d_ctrl d) id c, d_aluop = case_option (d_aluop d) id a,
     d_memwidth = case_option (d_memwidth d) id k\<rparr>" using assms unfolding steady_def by blast
  then show ?thesis by (cases c; cases a; cases k) simp_all
qed

lemma steady_maindec: "steady (maindec w)"
  unfolding maindec_def Let_def dec_func_def dec_immediate_def dec_zero_branch_def
  by (intro steady_if steady_sets steady_id)

lemma maindec_idem: "maindec w (maindec w d) = maindec w d"
  by (rule steady_idem [OF steady_maindec])

end
