(* ===== verification/Cpu_Exec.thy ===== *)
theory Cpu_Exec
  imports Cpu
begin

text \<open>
  The eleven edges of an instruction. The first three fetch it; \<open>executing k\<close> describes the state before
  edge \<open>k\<close> of the others; after the last one the processor is ready for the next instruction.
\<close>

section \<open>The pipeliner\<close>

definition pipe_at :: "nat \<Rightarrow> pipeline" where
  "pipe_at k = \<lparr>ticks = k, IF_en = high_if (k = 3), ID_en = high_if (k = 4), EX_en = high_if (k = 5),
     MEM_en = high_if (k = 6), MEM_read = high_if (k = 10), WB_en = high_if (k = 11), Instruction_done = S0\<rparr>"

definition pipe_ready :: "pipeline \<Rightarrow> bool" where
  "pipe_ready p \<longleftrightarrow> ticks p = 1 \<and> IF_en p = S0 \<and> ID_en p = S0 \<and> EX_en p = S0 \<and> MEM_en p = S0 \<and> WB_en p = S0"

lemma pipe_at_simps [simp]:
  "ticks (pipe_at k) = k" "IF_en (pipe_at k) = high_if (k = 3)" "ID_en (pipe_at k) = high_if (k = 4)"
  "EX_en (pipe_at k) = high_if (k = 5)" "MEM_en (pipe_at k) = high_if (k = 6)" "WB_en (pipe_at k) = high_if (k = 11)"
  by (simp_all add: pipe_at_def)

lemma Pipeliner_first: "ticks p = 1 \<Longrightarrow> Pipeliner_edge p = pipe_at 2"
  by (simp add: Pipeliner_edge_def pipe_at_def)

lemma Pipeliner_next: "2 \<le> k \<Longrightarrow> k \<le> 10 \<Longrightarrow> Pipeliner_edge (pipe_at k) = pipe_at (Suc k)"
proof -
  assume "2 \<le> k" "k \<le> 10"
  then have "k \<in> {2, 3, 4, 5, 6, 7, 8, 9, 10}" by auto
  then show ?thesis by (auto simp: Pipeliner_edge_def pipe_at_def)
qed

lemma Pipeliner_last: "pipe_ready (Pipeliner_edge (pipe_at 11))"
  by (simp add: Pipeliner_edge_def pipe_at_def pipe_ready_def)

section \<open>One edge\<close>

text \<open>Fetching at \<open>a\<close> does not leave the constant array.\<close>

definition fetch_ok :: "bool \<Rightarrow> u32 list \<Rightarrow> u32 \<Rightarrow> bool" where
  "fetch_ok sas code a \<longleftrightarrow> sas \<or> vtou (drop_bit 2 a) < length code"

definition fetch_word :: "bool \<Rightarrow> u32 list \<Rightarrow> u32 \<Rightarrow> u32 \<Rightarrow> u32" where
  "fetch_word sas code a d = (if sas then d else code ! vtou (drop_bit 2 a))"

text \<open>The arithmetic unit shows what its inputs give.\<close>

definition alu_settled :: "cpu \<Rightarrow> bool" where
  "alu_settled s \<longleftrightarrow> Execute_alu (idr s) (regReadData1 s) (regReadData2 s) (alus s) = alus s"

lemma settle_simps [simp]:
  "pipe (settle s) = pipe s" "fetch (settle s) = fetch s" "new_pc (settle s) = new_pc s" "ifr (settle s) = ifr s"
  "idr (settle s) = idr s" "takeBranch (settle s) = takeBranch s" "aluResult (settle s) = aluResult s"
  "selMEM (settle s) = selMEM s" "memReadData (settle s) = memReadData s" "regWriteData (settle s) = regWriteData s"
  "rf (settle s) = rf s" "dec (settle s) = maindec (instr (ifr s)) (dec s)"
  "alus (settle s) = Execute_alu (idr s) (regReadData1 s) (regReadData2 s) (alus s)"
  "regReadData1 (settle s) = regReadData1 s" "regReadData2 (settle s) = regReadData2 s" "alu_settled (settle s)"
  by (simp_all add: settle_def Let_def regReadData1_def regReadData2_def alu_settled_def Execute_alu_idem)

lemma cpu_edge_ok:
  assumes "fetch_ok sas code (read_addr (fetch s))"
  obtains s' where "cpu_edge sas code S0 d s = Inr s'" "alu_settled s'"
    "pipe s' = Pipeliner_edge (pipe s)"
    "read_addr (fetch s') = new_pc s"
    "im_instr (fetch s') = fetch_word sas code (read_addr (fetch s)) d"
    "sas \<Longrightarrow> im_addr (fetch s') = read_addr (fetch s) \<and> im_size (fetch s') = WIDTH_WORD" "im_wr (fetch s') = S0"
    "\<not> sas \<Longrightarrow> im_addr (fetch s') = im_addr (fetch s) \<and> im_size (fetch s') = im_size (fetch s)"
    "im_din (fetch s') = im_din (fetch s)"
    "new_pc s' = PipeReg S0 (WB_en (pipe s)) 0 (wb_new_pc (idr s) (takeBranch s) (pc_plus_4 (ifr s)) (regReadData1 s)) (new_pc s)"
    "ifr s' = PipeReg S0 (IF_en (pipe s)) if_zero \<lparr>pc_plus_4 = read_addr (fetch s) + 4, instr = im_instr (fetch s)\<rparr> (ifr s)"
    "dec s' = maindec (instr (ifr s')) (dec s)"
    "idr s' = PipeReg S0 (ID_en (pipe s)) id_zero (InstructionDecode (instr (ifr s)) (pc_plus_4 (ifr s)) (dec s)) (idr s)"
    "alus s' = Execute_alu (idr s') (regReadData1 s') (regReadData2 s') (alus s)"
    "takeBranch s' = PipeReg S0 (EX_en (pipe s)) S0 (std_and (Branch (idr s)) (isZero (alus s))) (takeBranch s)"
    "aluResult s' = PipeReg S0 (EX_en (pipe s)) 0 (result (alus s)) (aluResult s)"
    "selMEM s' = (if EX_en (pipe s) = S1 \<or> WB_en (pipe s) = S1 then std_not (selMEM s) else selMEM s)"
    "memReadData s' = PipeReg S0 (MEM_en (pipe s)) 0 (ReadData_in (idr s) d) (memReadData s)"
    "regWriteData s' = wb_data (idr s) (pc_plus_4 (ifr s)) (aluResult s) (memReadData s)"
    "rf s' = regFile_edge (std_and (WB_en (pipe s)) (id_regwrite (idr s))) (writereg (idr s)) (regWriteData s) (rf s)"
proof -
  obtain f where f: "InstructionMem_edge sas code d (fetch s) = Inr f"
    "im_instr f = fetch_word sas code (read_addr (fetch s)) d" "im_wr f = S0" "im_din f = im_din (fetch s)"
    "sas \<Longrightarrow> im_addr f = read_addr (fetch s) \<and> im_size f = WIDTH_WORD"
    "\<not> sas \<Longrightarrow> im_addr f = im_addr (fetch s) \<and> im_size f = im_size (fetch s)"
    using assms by (cases sas) (simp_all add: InstructionMem_edge_def fetch_ok_def fetch_word_def)
  obtain s' where e: "cpu_edge sas code S0 d s = Inr s'" using f(1) by (simp add: cpu_edge_def Let_def)
  show thesis
    by (rule that [OF e]; (insert e f(1), simp add: cpu_edge_def Let_def)?; hypsubst?;
      (insert f)?; simp add: Adder_def PC_ADD_def itow_def)
qed

section \<open>The edges after the fetch\<close>

definition decoded :: "u32 \<Rightarrow> u32 \<Rightarrow> dec_out \<Rightarrow> id_regs" where
  "decoded w p d0 = InstructionDecode w (p + 4) (maindec w d0)"

definition computed :: "id_regs \<Rightarrow> (reg \<Rightarrow> u32) \<Rightarrow> alu_state \<Rightarrow> alu_state" where
  "computed r g a0 = Execute_alu r (g (readreg1 r)) (g (readreg2 r)) a0"

definition written :: "id_regs \<Rightarrow> u32 \<Rightarrow> alu_state \<Rightarrow> u32 \<Rightarrow> u32" where
  "written r p a ld = wb_data r (p + 4) (result a) (ReadData_in r ld)"

text \<open>
  Before edge \<open>k\<close>: the word \<open>w\<close> is executed at \<open>p\<close> with the registers \<open>g\<close>; \<open>a0\<close> and \<open>d0\<close> are what the
  arithmetic unit and the decoder held before, \<open>ld\<close> is what the data lines carry at edge 6.
\<close>

definition executing :: "nat \<Rightarrow> u32 \<Rightarrow> u32 \<Rightarrow> (reg \<Rightarrow> u32) \<Rightarrow> alu_state \<Rightarrow> dec_out \<Rightarrow> u32 \<Rightarrow> cpu \<Rightarrow> bool" where
  "executing k w p g a0 d0 ld s \<longleftrightarrow> (let r = decoded w p d0; a = computed r g a0 in
     pipe s = pipe_at k \<and> new_pc s = p \<and> read_addr (fetch s) = p \<and> rf s = g \<and> alu_settled s \<and>
     selMEM s = high_if (5 < k) \<and> im_wr (fetch s) = S0 \<and>
     (if k = 3 then im_instr (fetch s) = w \<and> dec s = d0
      else ifr s = \<lparr>pc_plus_4 = p + 4, instr = w\<rparr> \<and> dec s = maindec w d0) \<and>
     (if k \<le> 4 then alus s = a0 else idr s = r \<and> alus s = a) \<and>
     (5 < k \<longrightarrow> takeBranch s = std_and (Branch r) (isZero a) \<and> aluResult s = result a) \<and>
     (6 < k \<longrightarrow> memReadData s = ReadData_in r ld) \<and>
     (7 < k \<longrightarrow> regWriteData s = written r p a ld))"

lemma std_and_simps [simp]: "std_and S0 x = S0" "std_and x S0 = S0" "std_and S1 S1 = S1" "std_not S0 = S1" "std_not S1 = S0"
  by (simp_all add: std_and_def std_not_def is_zero_def is_one_def)

lemma regFile_idle [simp]: "regFile_edge S0 wr v g = g"
  by (simp add: regFile_edge_def)

lemma executing_step:
  assumes ex: "executing k w p g a0 d0 ld s" and k: "3 \<le> k" "k \<le> 10" and f: "fetch_ok sas code p" and d: "k = 6 \<Longrightarrow> d = ld"
  shows "\<exists>s'. cpu_edge sas code S0 d s = Inr s' \<and> executing (Suc k) w p g a0 d0 ld s'"
proof -
  have p: "pipe s = pipe_at k" "new_pc s = p" "read_addr (fetch s) = p" "rf s = g" "alu_settled s"
    using ex by (simp_all add: executing_def Let_def)
  from f p(3) have "fetch_ok sas code (read_addr (fetch s))" by simp
  then show ?thesis
  proof (rule cpu_edge_ok [where d = d])
    fix s'
    assume e: "cpu_edge sas code S0 d s = Inr s'" "alu_settled s'"
      "pipe s' = Pipeliner_edge (pipe s)"
      "read_addr (fetch s') = new_pc s" "im_wr (fetch s') = S0"
      "new_pc s' = PipeReg S0 (WB_en (pipe s)) 0 (wb_new_pc (idr s) (takeBranch s) (pc_plus_4 (ifr s)) (regReadData1 s)) (new_pc s)"
      "ifr s' = PipeReg S0 (IF_en (pipe s)) if_zero \<lparr>pc_plus_4 = read_addr (fetch s) + 4, instr = im_instr (fetch s)\<rparr> (ifr s)"
      "dec s' = maindec (instr (ifr s')) (dec s)"
      "idr s' = PipeReg S0 (ID_en (pipe s)) id_zero (InstructionDecode (instr (ifr s)) (pc_plus_4 (ifr s)) (dec s)) (idr s)"
      "alus s' = Execute_alu (idr s') (regReadData1 s') (regReadData2 s') (alus s)"
      "takeBranch s' = PipeReg S0 (EX_en (pipe s)) S0 (std_and (Branch (idr s)) (isZero (alus s))) (takeBranch s)"
      "aluResult s' = PipeReg S0 (EX_en (pipe s)) 0 (result (alus s)) (aluResult s)"
      "selMEM s' = (if EX_en (pipe s) = S1 \<or> WB_en (pipe s) = S1 then std_not (selMEM s) else selMEM s)"
      "memReadData s' = PipeReg S0 (MEM_en (pipe s)) 0 (ReadData_in (idr s) d) (memReadData s)"
      "regWriteData s' = wb_data (idr s) (pc_plus_4 (ifr s)) (aluResult s) (memReadData s)"
      "rf s' = regFile_edge (std_and (WB_en (pipe s)) (id_regwrite (idr s))) (writereg (idr s)) (regWriteData s) (rf s)"
    have pipe: "pipe s' = pipe_at (Suc k)" using e(3) p(1) k Pipeliner_next [of k] by simp
    have wb: "WB_en (pipe s) = S0" using p(1) k(2) by simp
    have fixed: "new_pc s' = p" "read_addr (fetch s') = p" "rf s' = g" using e p wb by simp_all
    have alu: "idr s' = idr s \<Longrightarrow> alus s' = alus s"
      using e(10) p(4,5) fixed(3) by (simp add: alu_settled_def regReadData1_def regReadData2_def)
    note rest = e(5,7-9,11-15) pipe fixed e(2) p(1,4)
    consider "k = 3" | "k = 4" | "k = 5" | "k = 6" | "7 \<le> k" using k(1) by linarith
    then have "executing (Suc k) w p g a0 d0 ld s'"
    proof cases
      case 1
      then show ?thesis using ex rest alu by (simp add: executing_def Let_def)
    next
      case 2
      then show ?thesis using ex rest e(10)
        by (simp add: executing_def Let_def maindec_idem decoded_def computed_def regReadData1_def regReadData2_def)
    next
      case 3
      then show ?thesis using ex rest alu by (simp add: executing_def Let_def maindec_idem)
    next
      case 4
      then show ?thesis using ex rest alu d by (simp add: executing_def Let_def maindec_idem)
    next
      case 5
      then show ?thesis using ex rest alu k(2) by (simp add: executing_def Let_def maindec_idem written_def)
    qed
    then show ?thesis using e(1) by blast
  qed
qed

text \<open>Without a fetch over the bus, the address the fetch unit drives does not change.\<close>

lemma im_addr_run: "cpu_run False code dout n s = Inr s' \<Longrightarrow> im_addr (fetch s') = im_addr (fetch s)"
  by (induction n arbitrary: s')
    (auto simp: rbind_Inr_iff cpu_edge_def Let_def InstructionMem_edge_def split: if_split_asm)

section \<open>A whole instruction\<close>

text \<open>Between two instructions.\<close>

definition ready :: "cpu \<Rightarrow> bool" where
  "ready s \<longleftrightarrow> pipe_ready (pipe s) \<and> selMEM s = S0 \<and> alu_settled s \<and> im_wr (fetch s) = S0"

text \<open>What the word \<open>w\<close>, executed at \<open>p\<close>, makes of the registers and the program counter.\<close>

definition after_rf :: "id_regs \<Rightarrow> u32 \<Rightarrow> alu_state \<Rightarrow> u32 \<Rightarrow> (reg \<Rightarrow> u32) \<Rightarrow> (reg \<Rightarrow> u32)" where
  "after_rf r p a ld g = regFile_edge (std_and S1 (id_regwrite r)) (writereg r) (written r p a ld) g"

definition after_pc :: "id_regs \<Rightarrow> u32 \<Rightarrow> alu_state \<Rightarrow> (reg \<Rightarrow> u32) \<Rightarrow> u32" where
  "after_pc r p a g = wb_new_pc r (std_and (Branch r) (isZero a)) (p + 4) (g (readreg1 r))"

lemma last_edge:
  assumes ex: "executing 11 w p g a0 d0 ld s" and f: "fetch_ok sas code p"
  shows "\<exists>s'. cpu_edge sas code S0 d s = Inr s' \<and> ready s' \<and> read_addr (fetch s') = p \<and>
    new_pc s' = after_pc (decoded w p d0) p (computed (decoded w p d0) g a0) g \<and>
    rf s' = after_rf (decoded w p d0) p (computed (decoded w p d0) g a0) ld g \<and>
    dec s' = maindec w d0 \<and> idr s' = decoded w p d0"
proof -
  from ex f have "fetch_ok sas code (read_addr (fetch s))" by (simp add: executing_def Let_def)
  then show ?thesis
    by (rule cpu_edge_ok [where d = d])
      (use ex Pipeliner_last in \<open>auto simp: executing_def Let_def ready_def after_rf_def after_pc_def regReadData1_def maindec_idem\<close>)
qed

lemma executing_run:
  assumes ex: "executing 3 w p g a0 d0 (dout 3) s" and f: "fetch_ok sas code p" and n: "n \<le> 8"
  shows "\<exists>s'. cpu_run sas code dout n s = Inr s' \<and> executing (3 + n) w p g a0 d0 (dout 3) s'"
  using n
proof (induction n)
  case 0
  then show ?case using ex by simp
next
  case (Suc n)
  then obtain t where "cpu_run sas code dout n s = Inr t" "executing (3 + n) w p g a0 d0 (dout 3) t" by auto
  then show ?case using executing_step [of "3 + n" w p g a0 d0 "dout 3" t sas code "dout n"] Suc.prems f by auto
qed

text \<open>The bus while an instruction is executed.\<close>

lemma executing_bus:
  assumes "executing k w p g a0 d0 ld s" "5 < k"
  shows "cpu_bus s = MemoryAccess (decoded w p d0) (result (computed (decoded w p d0) g a0)) (g (readreg2 (decoded w p d0)))"
  using assms
  by (simp add: executing_def Let_def cpu_bus_def MUX_def MUX1bit_def MemoryAccess_def regReadData2_def high_if_def)

lemma executing_idle:
  assumes "selMEM s = S0" "im_wr (fetch s) = S0"
  shows "top_wr (cpu_bus s) = S0"
  using assms by (simp add: cpu_bus_def Let_def MUX1bit_def)

lemma fetching:
  assumes r: "ready s" and f: "fetch_ok sas code (read_addr (fetch s))" "fetch_ok sas code (new_pc s)"
  shows "\<exists>s1 s2. cpu_edge sas code S0 (dout 0) s = Inr s1 \<and> cpu_edge sas code S0 (dout 1) s1 = Inr s2 \<and>
    executing 3 (fetch_word sas code (new_pc s) (dout 1)) (new_pc s) (rf s) (alus s) (maindec (instr (ifr s)) (dec s)) ld s2 \<and>
    selMEM s1 = S0 \<and> im_wr (fetch s1) = S0 \<and>
    (sas \<longrightarrow> im_addr (fetch s1) = read_addr (fetch s) \<and> im_size (fetch s1) = WIDTH_WORD)"
proof -
  have p: "ticks (pipe s) = 1" "IF_en (pipe s) = S0" "ID_en (pipe s) = S0" "EX_en (pipe s) = S0" "MEM_en (pipe s) = S0"
    "WB_en (pipe s) = S0" "selMEM s = S0" "alu_settled s" using r by (simp_all add: ready_def pipe_ready_def)
  obtain s1 where 1: "cpu_edge sas code S0 (dout 0) s = Inr s1" "alu_settled s1" "pipe s1 = pipe_at 2"
    "read_addr (fetch s1) = new_pc s" "im_wr (fetch s1) = S0" "new_pc s1 = new_pc s" "ifr s1 = ifr s"
    "dec s1 = maindec (instr (ifr s)) (dec s)" "idr s1 = idr s" "alus s1 = alus s" "selMEM s1 = S0" "rf s1 = rf s"
    "sas \<longrightarrow> im_addr (fetch s1) = read_addr (fetch s) \<and> im_size (fetch s1) = WIDTH_WORD"
    by (rule cpu_edge_ok [OF f(1), where d = "dout 0"])
      (use p Pipeliner_first [OF p(1)] in \<open>auto simp: alu_settled_def regReadData1_def regReadData2_def\<close>)
  have "fetch_ok sas code (read_addr (fetch s1))" using f(2) 1(4) by simp
  then obtain s2 where 2: "cpu_edge sas code S0 (dout 1) s1 = Inr s2" "alu_settled s2" "pipe s2 = pipe_at 3"
    "read_addr (fetch s2) = new_pc s" "im_instr (fetch s2) = fetch_word sas code (new_pc s) (dout 1)"
    "im_wr (fetch s2) = S0" "new_pc s2 = new_pc s" "dec s2 = maindec (instr (ifr s)) (dec s)" "alus s2 = alus s"
    "selMEM s2 = S0" "rf s2 = rf s"
    by (rule cpu_edge_ok [where d = "dout 1"])
      (use 1 Pipeliner_next [of 2] in \<open>auto simp: alu_settled_def regReadData1_def regReadData2_def maindec_idem\<close>)
  have "executing 3 (fetch_word sas code (new_pc s) (dout 1)) (new_pc s) (rf s) (alus s) (maindec (instr (ifr s)) (dec s)) ld s2"
    using 2 by (simp add: executing_def Let_def)
  then show ?thesis using 1 2 by blast
qed

text \<open>The registers after the decode stage and the result, for the instruction that begins in \<open>s\<close>.\<close>

definition word_of :: "bool \<Rightarrow> u32 list \<Rightarrow> (nat \<Rightarrow> u32) \<Rightarrow> cpu \<Rightarrow> u32" where
  "word_of sas code dout s = fetch_word sas code (new_pc s) (dout 1)"

definition id_of :: "u32 \<Rightarrow> cpu \<Rightarrow> id_regs" where
  "id_of w s = decoded w (new_pc s) (maindec (instr (ifr s)) (dec s))"

definition alu_of :: "u32 \<Rightarrow> cpu \<Rightarrow> alu_state" where
  "alu_of w s = computed (id_of w s) (rf s) (alus s)"

lemma instruction:
  assumes r: "ready s" and f: "fetch_ok sas code (read_addr (fetch s))" "fetch_ok sas code (new_pc s)"
    and w: "w = word_of sas code dout s"
  shows "\<exists>s'. cpu_run sas code dout 11 s = Inr s' \<and> ready s' \<and> read_addr (fetch s') = new_pc s \<and>
    new_pc s' = after_pc (id_of w s) (new_pc s) (alu_of w s) (rf s) \<and>
    rf s' = after_rf (id_of w s) (new_pc s) (alu_of w s) (dout 5) (rf s) \<and>
    (\<forall>k < 11. \<exists>t. cpu_run sas code dout k s = Inr t \<and>
      (k < 5 \<longrightarrow> selMEM t = S0 \<and> top_wr (cpu_bus t) = S0) \<and>
      (5 \<le> k \<longrightarrow> cpu_bus t = MemoryAccess (id_of w s) (result (alu_of w s)) (rf s (readreg2 (id_of w s)))) \<and>
      (k = 1 \<longrightarrow> sas \<longrightarrow> top_addr (cpu_bus t) = read_addr (fetch s) \<and> top_size (cpu_bus t) = WIDTH_WORD))"
proof -
  let ?d = "maindec (instr (ifr s)) (dec s)" and ?p = "new_pc s" and ?dout = "\<lambda>t. dout (2 + t)"
  obtain s1 s2 where 1: "cpu_edge sas code S0 (dout 0) s = Inr s1" "cpu_edge sas code S0 (dout 1) s1 = Inr s2"
    "executing 3 w ?p (rf s) (alus s) ?d (?dout 3) s2" "selMEM s1 = S0" "im_wr (fetch s1) = S0"
    "sas \<longrightarrow> im_addr (fetch s1) = read_addr (fetch s) \<and> im_size (fetch s1) = WIDTH_WORD"
    using fetching [OF r f, of dout "dout 5"] w by (auto simp: word_of_def)
  have run2: "cpu_run sas code dout 2 s = Inr s2" using 1(1,2) by (simp add: numeral_2_eq_2)
  have more: "cpu_run sas code dout (2 + n) s = cpu_run sas code ?dout n s2" for n
    using run2 by (subst cpu_run_add) simp
  have later: "\<exists>t. cpu_run sas code dout (2 + n) s = Inr t \<and> executing (3 + n) w ?p (rf s) (alus s) ?d (?dout 3) t"
    if "n \<le> 8" for n using executing_run [where dout = ?dout, OF 1(3) f(2) that] more by simp
  obtain t where t: "cpu_run sas code dout 10 s = Inr t" "executing 11 w ?p (rf s) (alus s) ?d (dout 5) t"
    using later [of 8] by auto
  obtain s' where s': "cpu_edge sas code S0 (dout 10) t = Inr s'" "ready s'" "read_addr (fetch s') = ?p"
    "new_pc s' = after_pc (id_of w s) ?p (alu_of w s) (rf s)" "rf s' = after_rf (id_of w s) ?p (alu_of w s) (dout 5) (rf s)"
    using last_edge [OF t(2) f(2), of "dout 10"] by (auto simp: id_of_def alu_of_def)
  have run: "cpu_run sas code dout 11 s = Inr s'"
    using t(1) s'(1) cpu_run.simps(2) [of sas code dout 10 s] by simp
  have "\<exists>t. cpu_run sas code dout k s = Inr t \<and> (k < 5 \<longrightarrow> selMEM t = S0 \<and> top_wr (cpu_bus t) = S0) \<and>
      (5 \<le> k \<longrightarrow> cpu_bus t = MemoryAccess (id_of w s) (result (alu_of w s)) (rf s (readreg2 (id_of w s)))) \<and>
      (k = 1 \<longrightarrow> sas \<longrightarrow> top_addr (cpu_bus t) = read_addr (fetch s) \<and> top_size (cpu_bus t) = WIDTH_WORD)" if k: "k < 11" for k
  proof -
    consider "k = 0" | "k = 1" | "2 \<le> k" by linarith
    then show ?thesis
    proof cases
      case 1
      then show ?thesis using r executing_idle [of s] by (simp add: ready_def)
    next
      case 2
      have "cpu_run sas code dout 1 s = Inr s1" using 1(1) by simp
      then show ?thesis using 2 1(4-6) executing_idle [of s1] by (auto simp: cpu_bus_def Let_def MUX_def)
    next
      case 3
      then obtain n where n: "k = 2 + n" using le_Suc_ex by blast
      then obtain t where t: "cpu_run sas code dout k s = Inr t" "executing (k + 1) w ?p (rf s) (alus s) ?d (?dout 3) t"
        using later [of n] k by (auto simp: numeral_3_eq_3 simp del: cpu_run.simps)
      have "k < 5 \<Longrightarrow> selMEM t = S0 \<and> im_wr (fetch t) = S0"
        using t(2) by (simp add: executing_def Let_def)
      then have "k < 5 \<Longrightarrow> selMEM t = S0 \<and> top_wr (cpu_bus t) = S0" using executing_idle by blast
      moreover have "5 \<le> k \<Longrightarrow> cpu_bus t = MemoryAccess (id_of w s) (result (alu_of w s)) (rf s (readreg2 (id_of w s)))"
        using executing_bus [OF t(2)] by (simp add: id_of_def alu_of_def)
      ultimately show ?thesis using t(1) 3 by auto
    qed
  qed
  then show ?thesis using run s' by blast
qed

end
