(* ===== verification/Isa.thy ===== *)
theory Isa
  imports Vhdl
begin

text \<open>
  A reference for what the processor's instructions mean: the integer instructions of MIPS I by their
  opcodes in the manual, without those that use \<open>HI\<close> and \<open>LO\<close>, and their effect on the registers,
  the program counter and memory. There are no delay slots: the program counter after a branch is its
  target. An instruction that traps, by an overflow or an unaligned address, has no effect \<open>None\<close>.
\<close>

section \<open>Instructions\<close>

datatype rop = R_ADD | R_ADDU | R_SUB | R_SUBU | R_AND | R_OR | R_XOR | R_NOR | R_SLT | R_SLTU
datatype iop = I_ADDI | I_ADDIU | I_SLTI | I_SLTIU | I_ANDI | I_ORI | I_XORI
datatype shop = SH_SLL | SH_SRL | SH_SRA
datatype zcond = Z_LTZ | Z_GEZ | Z_LEZ | Z_GTZ
datatype lop = L_LB | L_LBU | L_LH | L_LHU | L_LW
datatype sop = S_SB | S_SH | S_SW

text \<open>The operands are in the order of the assembler; a \<open>Bz\<close> with \<open>True\<close> also links.\<close>

datatype minstr =
    Rtype rop reg reg reg
  | Itype iop reg reg u16
  | Lui reg u16
  | Sh shop reg reg "5 word"
  | Shv shop reg reg reg
  | Load lop reg reg u16
  | Store sop reg reg u16
  | Beq reg reg u16
  | Bne reg reg u16
  | Bz zcond bool reg u16
  | Jump "26 word"
  | Jal "26 word"
  | Jr reg
  | Jalr reg reg

definition decode :: "u32 \<Rightarrow> minstr option" where
  "decode w = (let op = f_op w; rs = f_rs w; rt = f_rt w; rd = f_rd w; sa = f_shamt w; fn = f_func w; imm = f_imm w in
     if op = 0x00 then
       (if fn = 0x20 then Some (Rtype R_ADD rd rs rt) else if fn = 0x21 then Some (Rtype R_ADDU rd rs rt)
        else if fn = 0x22 then Some (Rtype R_SUB rd rs rt) else if fn = 0x23 then Some (Rtype R_SUBU rd rs rt)
        else if fn = 0x24 then Some (Rtype R_AND rd rs rt) else if fn = 0x25 then Some (Rtype R_OR rd rs rt)
        else if fn = 0x26 then Some (Rtype R_XOR rd rs rt) else if fn = 0x27 then Some (Rtype R_NOR rd rs rt)
        else if fn = 0x2A then Some (Rtype R_SLT rd rs rt) else if fn = 0x2B then Some (Rtype R_SLTU rd rs rt)
        else if fn = 0x00 then Some (Sh SH_SLL rd rt sa) else if fn = 0x02 then Some (Sh SH_SRL rd rt sa)
        else if fn = 0x03 then Some (Sh SH_SRA rd rt sa) else if fn = 0x04 then Some (Shv SH_SLL rd rt rs)
        else if fn = 0x06 then Some (Shv SH_SRL rd rt rs) else if fn = 0x07 then Some (Shv SH_SRA rd rt rs)
        else if fn = 0x08 then Some (Jr rs) else if fn = 0x09 then Some (Jalr rd rs) else None)
     else if op = 0x01 then
       (if rt = 0x00 then Some (Bz Z_LTZ False rs imm) else if rt = 0x01 then Some (Bz Z_GEZ False rs imm)
        else if rt = 0x10 then Some (Bz Z_LTZ True rs imm) else if rt = 0x11 then Some (Bz Z_GEZ True rs imm) else None)
     else if op = 0x02 then Some (Jump (f_jump w)) else if op = 0x03 then Some (Jal (f_jump w))
     else if op = 0x04 then Some (Beq rs rt imm) else if op = 0x05 then Some (Bne rs rt imm)
     else if op = 0x06 then (if rt = 0 then Some (Bz Z_LEZ False rs imm) else None)
     else if op = 0x07 then (if rt = 0 then Some (Bz Z_GTZ False rs imm) else None)
     else if op = 0x08 then Some (Itype I_ADDI rt rs imm) else if op = 0x09 then Some (Itype I_ADDIU rt rs imm)
     else if op = 0x0A then Some (Itype I_SLTI rt rs imm) else if op = 0x0B then Some (Itype I_SLTIU rt rs imm)
     else if op = 0x0C then Some (Itype I_ANDI rt rs imm) else if op = 0x0D then Some (Itype I_ORI rt rs imm)
     else if op = 0x0E then Some (Itype I_XORI rt rs imm) else if op = 0x0F then Some (Lui rt imm)
     else if op = 0x20 then Some (Load L_LB rt rs imm) else if op = 0x21 then Some (Load L_LH rt rs imm)
     else if op = 0x23 then Some (Load L_LW rt rs imm) else if op = 0x24 then Some (Load L_LBU rt rs imm)
     else if op = 0x25 then Some (Load L_LHU rt rs imm) else if op = 0x28 then Some (Store S_SB rt rs imm)
     else if op = 0x29 then Some (Store S_SH rt rs imm) else if op = 0x2B then Some (Store S_SW rt rs imm)
     else None)"

section \<open>Effect\<close>

record isa =
  gpr :: "reg \<Rightarrow> u32"
  ipc :: u32

definition set_gpr :: "reg \<Rightarrow> u32 \<Rightarrow> (reg \<Rightarrow> u32) \<Rightarrow> (reg \<Rightarrow> u32)" where
  "set_gpr r v g = (if r = 0 then g else g(r := v))"

definition overflows :: "int \<Rightarrow> bool" where
  "overflows x \<longleftrightarrow> x < - (2 ^ 31) \<or> 2 ^ 31 \<le> x"

fun rop_val :: "rop \<Rightarrow> u32 \<Rightarrow> u32 \<Rightarrow> u32 option" where
  "rop_val R_ADD a b = (if overflows (sint a + sint b) then None else Some (a + b))"
| "rop_val R_ADDU a b = Some (a + b)"
| "rop_val R_SUB a b = (if overflows (sint a - sint b) then None else Some (a - b))"
| "rop_val R_SUBU a b = Some (a - b)"
| "rop_val R_AND a b = Some (a AND b)"
| "rop_val R_OR a b = Some (a OR b)"
| "rop_val R_XOR a b = Some (a XOR b)"
| "rop_val R_NOR a b = Some (NOT (a OR b))"
| "rop_val R_SLT a b = Some (if sint a < sint b then 1 else 0)"
| "rop_val R_SLTU a b = Some (if a < b then 1 else 0)"

fun iop_val :: "iop \<Rightarrow> u32 \<Rightarrow> u16 \<Rightarrow> u32 option" where
  "iop_val I_ADDI a c = (if overflows (sint a + sint c) then None else Some (a + scast c))"
| "iop_val I_ADDIU a c = Some (a + scast c)"
| "iop_val I_SLTI a c = Some (if sint a < sint c then 1 else 0)"
| "iop_val I_SLTIU a c = Some (if a < scast c then 1 else 0)"
| "iop_val I_ANDI a c = Some (a AND ucast c)"
| "iop_val I_ORI a c = Some (a OR ucast c)"
| "iop_val I_XORI a c = Some (a XOR ucast c)"

fun sh_val :: "shop \<Rightarrow> u32 \<Rightarrow> nat \<Rightarrow> u32" where
  "sh_val SH_SLL v n = push_bit n v"
| "sh_val SH_SRL v n = drop_bit n v"
| "sh_val SH_SRA v n = signed_drop_bit n v"

fun zcond_val :: "zcond \<Rightarrow> u32 \<Rightarrow> bool" where
  "zcond_val Z_LTZ a \<longleftrightarrow> sint a < 0"
| "zcond_val Z_GEZ a \<longleftrightarrow> 0 \<le> sint a"
| "zcond_val Z_LEZ a \<longleftrightarrow> sint a \<le> 0"
| "zcond_val Z_GTZ a \<longleftrightarrow> 0 < sint a"

text \<open>What a load makes of the word \<open>d\<close> on the data lines: the addressed part is in the low bits.\<close>

fun load_val :: "lop \<Rightarrow> u32 \<Rightarrow> u32" where
  "load_val L_LB d = scast (ucast d :: u8)"
| "load_val L_LBU d = ucast (ucast d :: u8)"
| "load_val L_LH d = scast (ucast d :: u16)"
| "load_val L_LHU d = ucast (ucast d :: u16)"
| "load_val L_LW d = d"

fun load_width :: "lop \<Rightarrow> nat" where
  "load_width L_LB = 1" | "load_width L_LBU = 1" | "load_width L_LH = 2" | "load_width L_LHU = 2" | "load_width L_LW = 4"

fun store_width :: "sop \<Rightarrow> nat" where
  "store_width S_SB = 1" | "store_width S_SH = 2" | "store_width S_SW = 4"

definition ea :: "reg \<Rightarrow> u16 \<Rightarrow> isa \<Rightarrow> u32" where
  "ea rs off st = gpr st rs + scast off"

definition rel_target :: "u32 \<Rightarrow> u16 \<Rightarrow> u32" where
  "rel_target pc off = pc + 4 + 4 * scast off"

definition abs_target :: "u32 \<Rightarrow> 26 word \<Rightarrow> u32" where
  "abs_target pc i = ((pc + 4) AND 0xF0000000) OR (4 * ucast i)"

text \<open>The effect of an instruction; \<open>d\<close> is what a load finds on the data lines.\<close>

fun isa_step :: "u32 \<Rightarrow> minstr \<Rightarrow> isa \<Rightarrow> isa option" where
  "isa_step d (Rtype f rd rs rt) st =
    map_option (\<lambda>v. \<lparr>gpr = set_gpr rd v (gpr st), ipc = ipc st + 4\<rparr>) (rop_val f (gpr st rs) (gpr st rt))"
| "isa_step d (Itype f rt rs imm) st =
    map_option (\<lambda>v. \<lparr>gpr = set_gpr rt v (gpr st), ipc = ipc st + 4\<rparr>) (iop_val f (gpr st rs) imm)"
| "isa_step d (Lui rt imm) st = Some \<lparr>gpr = set_gpr rt (push_bit 16 (ucast imm)) (gpr st), ipc = ipc st + 4\<rparr>"
| "isa_step d (Sh f rd rt sa) st =
    Some \<lparr>gpr = set_gpr rd (sh_val f (gpr st rt) (unat sa)) (gpr st), ipc = ipc st + 4\<rparr>"
| "isa_step d (Shv f rd rt rs) st =
    Some \<lparr>gpr = set_gpr rd (sh_val f (gpr st rt) (unat (gpr st rs AND 31))) (gpr st), ipc = ipc st + 4\<rparr>"
| "isa_step d (Load f rt rs off) st = (if load_width f dvd unat (ea rs off st)
    then Some \<lparr>gpr = set_gpr rt (load_val f d) (gpr st), ipc = ipc st + 4\<rparr> else None)"
| "isa_step d (Store f rt rs off) st = (if store_width f dvd unat (ea rs off st)
    then Some (st\<lparr>ipc := ipc st + 4\<rparr>) else None)"
| "isa_step d (Beq rs rt off) st =
    Some (st\<lparr>ipc := (if gpr st rs = gpr st rt then rel_target (ipc st) off else ipc st + 4)\<rparr>)"
| "isa_step d (Bne rs rt off) st =
    Some (st\<lparr>ipc := (if gpr st rs \<noteq> gpr st rt then rel_target (ipc st) off else ipc st + 4)\<rparr>)"
| "isa_step d (Bz c link rs off) st =
    Some \<lparr>gpr = (if link then set_gpr 31 (ipc st + 4) (gpr st) else gpr st),
      ipc = (if zcond_val c (gpr st rs) then rel_target (ipc st) off else ipc st + 4)\<rparr>"
| "isa_step d (Jump i) st = Some (st\<lparr>ipc := abs_target (ipc st) i\<rparr>)"
| "isa_step d (Jal i) st = Some \<lparr>gpr = set_gpr 31 (ipc st + 4) (gpr st), ipc = abs_target (ipc st) i\<rparr>"
| "isa_step d (Jr rs) st = Some (st\<lparr>ipc := gpr st rs\<rparr>)"
| "isa_step d (Jalr rd rs) st = Some \<lparr>gpr = set_gpr rd (ipc st + 4) (gpr st), ipc = gpr st rs\<rparr>"

text \<open>The access to memory an instruction makes: the address, the number of bytes, and the word it stores.\<close>

datatype access = Fetches u32 nat | Stores u32 nat u32

fun isa_access :: "minstr \<Rightarrow> isa \<Rightarrow> access option" where
  "isa_access (Load f rt rs off) st = Some (Fetches (ea rs off st) (load_width f))"
| "isa_access (Store f rt rs off) st = Some (Stores (ea rs off st) (store_width f) (gpr st rt))"
| "isa_access _ st = None"

section \<open>What the processor implements\<close>

text \<open>
  Shifts exchange their operands, \<open>lw\<close> does not write its register, and \<open>bltzal\<close> and \<open>bgezal\<close> do not link:
  these count only where they have nothing to write.
\<close>

fun implemented :: "minstr \<Rightarrow> bool" where
  "implemented (Sh f rd rt sa) \<longleftrightarrow> rd = 0"
| "implemented (Shv f rd rt rs) \<longleftrightarrow> rd = 0"
| "implemented (Load f rt rs off) \<longleftrightarrow> f \<noteq> L_LW \<or> rt = 0"
| "implemented (Bz c link rs off) \<longleftrightarrow> \<not> link"
| "implemented _ \<longleftrightarrow> True"

text \<open>\<open>n\<close> instructions of the program \<open>code\<close>; \<open>d k\<close> is what instruction \<open>k\<close> finds on the data lines.\<close>

definition fetched :: "u32 list \<Rightarrow> u32 \<Rightarrow> u32 option" where
  "fetched code a = (if 4 dvd unat a \<and> unat (drop_bit 2 a) < length code then Some (code ! unat (drop_bit 2 a)) else None)"

definition isa_next :: "u32 list \<Rightarrow> u32 \<Rightarrow> isa \<Rightarrow> isa option" where
  "isa_next code d st = Option.bind (Option.bind (fetched code (ipc st)) decode)
     (\<lambda>i. if implemented i then isa_step d i st else None)"

fun isa_run :: "u32 list \<Rightarrow> (nat \<Rightarrow> u32) \<Rightarrow> nat \<Rightarrow> isa \<Rightarrow> isa option" where
  "isa_run code d 0 st = Some st"
| "isa_run code d (Suc n) st = Option.bind (isa_run code d n st) (isa_next code (d n))"

end
