(* ===== verification/Cpu_Correct.thy ===== *)
theory Cpu_Correct
  imports Cpu_Exec Isa
begin

text \<open>
  The processor does what the reference says: the decoder's control signals for every instruction, what
  the stages make of them, and programs run from the constant array, eleven clocks for each instruction.
\<close>

section \<open>Words\<close>

lemma bit_scast_16: "bit (scast (i :: u16) :: u32) n \<longleftrightarrow> n < 32 \<and> bit i (if n < 16 then n else 15)"
  by (cases "n = 15") (auto simp: bit_simps min_def dest: bit_imp_le_length)

lemma bit_scast_8: "bit (scast (i :: u8) :: u32) n \<longleftrightarrow> n < 32 \<and> bit i (if n < 8 then n else 7)"
  by (cases "n = 7") (auto simp: bit_simps min_def dest: bit_imp_le_length)

lemma ones: "(0xFFFFFF :: 24 word) = mask 24" "(0xFFFF :: u16) = mask 16" "(0xF0000000 :: u32) = push_bit 28 (mask 4)"
  by (simp_all add: mask_eq_exp_minus_1 push_bit_eq_mult)

lemma sign_extend_scast: "sign_extend imm = scast imm"
proof (rule bit_word_eqI)
  fix n assume "n < LENGTH(32)"
  then show "bit (sign_extend imm) n = bit (scast imm :: u32) n"
    unfolding sign_extend_def bit_scast_16 ones by (auto simp: bit_word_cat_iff bit_mask_iff bit_ucast_iff dest: bit_imp_le_length)
qed

lemma zero_extend_ucast: "word_cat (0 :: u16) (h :: u16) = (ucast h :: u32)"
  by (rule bit_word_eqI) (auto simp: bit_simps dest: bit_imp_le_length)

lemma upper_half: "word_cat (h :: u16) (0 :: u16) = (push_bit 16 (ucast h) :: u32)"
  by (rule bit_word_eqI) (auto simp: bit_simps dest: bit_imp_le_length)

lemma half_scast: "half (scast (imm :: u16)) = imm"
  by (rule bit_word_eqI) (simp add: half_def bit_ucast_iff bit_scast_16)

lemma sint_scast: "sint (scast (imm :: u16) :: u32) = sint imm"
  using sint_greater_eq [of imm] sint_less [of imm]
  by (simp add: signed_scast_eq signed_take_bit_int_eq_self)

lemma shift_left_imm: "shiftLeftImm x = 4 * x"
  by (simp add: shiftLeftImm_def push_bit_eq_mult)

lemma jump_target_eq: "jump_target (p + 4) w = abs_target p (f_jump w)"
proof -
  have m: "4 * ucast (f_jump w) = push_bit 2 (ucast (f_jump w) :: u32)" by (simp add: push_bit_eq_mult)
  have "\<not> n < 28 \<Longrightarrow> \<not> bit (f_jump w) (n - 2)" for n using bit_imp_le_length [of "f_jump w" "n - 2"] by auto
  then show ?thesis unfolding jump_target_def abs_target_def m ones
    by (intro bit_word_eqI) (auto simp: bit_simps)
qed

lemma caster:
  "RegCaster d S1 WIDTH_BYTE = scast (ucast d :: u8)" "RegCaster d S0 WIDTH_BYTE = ucast (ucast d :: u8)"
  "RegCaster d S1 WIDTH_HALF = scast (ucast d :: u16)" "RegCaster d S0 WIDTH_HALF = ucast (ucast d :: u16)"
  by (rule bit_word_eqI, auto simp: RegCaster_def width_defs bit_word_cat_iff bit_scast_8 bit_scast_16 bit_ucast_iff ones bit_mask_iff)+

section \<open>Control signals\<close>

lemma vec_simps [simp]:
  "vec ''110000000000'' = [S1, S1, S0, S0, S0, S0, S0, S0, S0, S0, S0, S0]"
  "vec ''0X000000000X'' = [S0, SX, S0, S0, S0, S0, S0, S0, S0, S0, S0, SX]"
  "vec ''0XX1XX0XX00X'' = [S0, SX, SX, S1, SX, SX, S0, SX, SX, S0, S0, SX]"
  "vec ''1111000XX00X'' = [S1, S1, S1, S1, S0, S0, S0, SX, SX, S0, S0, SX]"
  "vec ''0XX01X00X00X'' = [S0, SX, SX, S0, S1, SX, S0, S0, SX, S0, S0, SX]"
  "vec ''1X101X00X00X'' = [S1, SX, S1, S0, S1, SX, S0, S0, SX, S0, S0, SX]"
  "vec ''100000111001'' = [S1, S0, S0, S0, S0, S0, S1, S1, S1, S0, S0, S1]"
  "vec ''100000110001'' = [S1, S0, S0, S0, S0, S0, S1, S1, S0, S0, S0, S1]"
  "vec ''00000011X001'' = [S0, S0, S0, S0, S0, S0, S1, S1, SX, S0, S0, S1]"
  "vec ''00000000X101'' = [S0, S0, S0, S0, S0, S0, S0, S0, SX, S1, S0, S1]"
  "vec ''0X0001000000'' = [S0, SX, S0, S0, S0, S1, S0, S0, S0, S0, S0, S0]"
  "vec ''000001000000'' = [S0, S0, S0, S0, S0, S1, S0, S0, S0, S0, S0, S0]"
  "vec ''011001000000'' = [S0, S1, S1, S0, S0, S1, S0, S0, S0, S0, S0, S0]"
  "vec ''100000000001'' = [S1, S0, S0, S0, S0, S0, S0, S0, S0, S0, S0, S1]"
  by (simp_all add: vec_def std_of_char_def)

text \<open>The registers after the decode stage, from the control vector, the operation and the width.\<close>

lemmas decoding = decoded_def InstructionDecode_def maindec_def Let_def set_ctrl_def set_op_def set_width_def set_shift_def
  dec_func_def dec_zero_branch_def dec_immediate_def dec_memread_def dec_memwrite_def vbit_def vset_def ctrl_index_defs
  regDstMux_def returnAddrMux_def std_and_def std_or_def is_zero_def is_one_def

lemmas stages = computed_def Execute_alu_def shiftMux_def ALUSrcMux_def immediately_correct_def after_rf_def after_pc_def
  regFile_edge_def written_def wb_data_def linkMux_def memToRegMux_def wb_new_pc_def JumpRegMux_def JumpDirMux_def BranchMux_def
  branch_addr_def Adder_def isZero_def

section \<open>Opcodes\<close>

fun rop_func :: "rop \<Rightarrow> 6 word" where
  "rop_func R_ADD = 0x20" | "rop_func R_ADDU = 0x21" | "rop_func R_SUB = 0x22" | "rop_func R_SUBU = 0x23"
| "rop_func R_AND = 0x24" | "rop_func R_OR = 0x25" | "rop_func R_XOR = 0x26" | "rop_func R_NOR = 0x27"
| "rop_func R_SLT = 0x2A" | "rop_func R_SLTU = 0x2B"

fun iop_op :: "iop \<Rightarrow> 6 word" where
  "iop_op I_ADDI = 0x08" | "iop_op I_ADDIU = 0x09" | "iop_op I_SLTI = 0x0A" | "iop_op I_SLTIU = 0x0B"
| "iop_op I_ANDI = 0x0C" | "iop_op I_ORI = 0x0D" | "iop_op I_XORI = 0x0E"

fun lop_op :: "lop \<Rightarrow> 6 word" where
  "lop_op L_LB = 0x20" | "lop_op L_LBU = 0x24" | "lop_op L_LH = 0x21" | "lop_op L_LHU = 0x25" | "lop_op L_LW = 0x23"

fun sop_op :: "sop \<Rightarrow> 6 word" where
  "sop_op S_SB = 0x28" | "sop_op S_SH = 0x29" | "sop_op S_SW = 0x2B"

fun zcond_op :: "zcond \<Rightarrow> bool \<Rightarrow> 6 word \<times> 5 word" where
  "zcond_op Z_LTZ l = (1, if l then 16 else 0)" | "zcond_op Z_GEZ l = (1, if l then 17 else 1)"
| "zcond_op Z_LEZ l = (6, 0)" | "zcond_op Z_GTZ l = (7, 0)"

fun sh_func :: "shop \<Rightarrow> 6 word" where
  "sh_func SH_SLL = 0x00" | "sh_func SH_SRL = 0x02" | "sh_func SH_SRA = 0x03"

fun shv_func :: "shop \<Rightarrow> 6 word" where
  "shv_func SH_SLL = 0x04" | "shv_func SH_SRL = 0x06" | "shv_func SH_SRA = 0x07"

text \<open>What \<open>decode\<close> says of the word.\<close>

fun encodes :: "minstr \<Rightarrow> u32 \<Rightarrow> bool" where
  "encodes (Rtype f rd rs rt) w \<longleftrightarrow> f_op w = 0 \<and> f_func w = rop_func f \<and> f_rd w = rd \<and> f_rs w = rs \<and> f_rt w = rt"
| "encodes (Itype f rt rs imm) w \<longleftrightarrow> f_op w = iop_op f \<and> f_rs w = rs \<and> f_rt w = rt \<and> f_imm w = imm"
| "encodes (Lui rt imm) w \<longleftrightarrow> f_op w = 0x0F \<and> f_rt w = rt \<and> f_imm w = imm"
| "encodes (Sh f rd rt sa) w \<longleftrightarrow> f_op w = 0 \<and> f_func w = sh_func f \<and> f_rd w = rd \<and> f_rt w = rt \<and> f_shamt w = sa"
| "encodes (Shv f rd rt rs) w \<longleftrightarrow> f_op w = 0 \<and> f_func w = shv_func f \<and> f_rd w = rd \<and> f_rt w = rt \<and> f_rs w = rs"
| "encodes (Load f rt rs imm) w \<longleftrightarrow> f_op w = lop_op f \<and> f_rs w = rs \<and> f_rt w = rt \<and> f_imm w = imm"
| "encodes (Store f rt rs imm) w \<longleftrightarrow> f_op w = sop_op f \<and> f_rs w = rs \<and> f_rt w = rt \<and> f_imm w = imm"
| "encodes (Beq rs rt imm) w \<longleftrightarrow> f_op w = 4 \<and> f_rs w = rs \<and> f_rt w = rt \<and> f_imm w = imm"
| "encodes (Bne rs rt imm) w \<longleftrightarrow> f_op w = 5 \<and> f_rs w = rs \<and> f_rt w = rt \<and> f_imm w = imm"
| "encodes (Bz c l rs imm) w \<longleftrightarrow> (f_op w, f_rt w) = zcond_op c l \<and> f_rs w = rs \<and> f_imm w = imm"
| "encodes (Jump i) w \<longleftrightarrow> f_op w = 2 \<and> f_jump w = i"
| "encodes (Jal i) w \<longleftrightarrow> f_op w = 3 \<and> f_jump w = i"
| "encodes (Jr rs) w \<longleftrightarrow> f_op w = 0 \<and> f_func w = 8 \<and> f_rs w = rs"
| "encodes (Jalr rd rs) w \<longleftrightarrow> f_op w = 0 \<and> f_func w = 9 \<and> f_rd w = rd \<and> f_rs w = rs"

lemma decode_encodes: "decode w = Some i \<Longrightarrow> encodes i w"
  unfolding decode_def Let_def by (simp split: if_split_asm) (auto simp: encodes.simps)

section \<open>Every instruction\<close>

text \<open>The access of an instruction as it shows on the bus.\<close>

definition width_of :: "nat \<Rightarrow> width" where
  "width_of n = (if n = 1 then WIDTH_BYTE else if n = 2 then WIDTH_HALF else WIDTH_WORD)"

fun bus_shows :: "access option \<Rightarrow> bus_out \<Rightarrow> bool" where
  "bus_shows None b \<longleftrightarrow> top_size b = WIDTH_NONE \<and> top_wr b = S0"
| "bus_shows (Some (Fetches a n)) b \<longleftrightarrow> top_addr b = a \<and> top_size b = width_of n \<and> top_wr b = S0"
| "bus_shows (Some (Stores a n v)) b \<longleftrightarrow> top_addr b = a \<and> top_size b = width_of n \<and> top_wr b = S1 \<and> top_din b = v"

definition does :: "u32 \<Rightarrow> u32 \<Rightarrow> (reg \<Rightarrow> u32) \<Rightarrow> alu_state \<Rightarrow> dec_out \<Rightarrow> u32 \<Rightarrow> minstr \<Rightarrow> isa \<Rightarrow> bool" where
  "does w p g a0 d0 ld i st \<longleftrightarrow> (let r = decoded w p d0; a = computed r g a0 in
     after_rf r p a ld g = gpr st \<and> after_pc r p a g = ipc st \<and>
     bus_shows (isa_access i \<lparr>gpr = g, ipc = p\<rparr>) (MemoryAccess r (result a) (g (readreg2 r))))"

lemmas facts = sign_extend_scast zero_extend_ucast upper_half half_scast shift_left_imm jump_target_eq caster [unfolded width_defs] sint_scast
  does_def set_gpr_def MemoryAccess_def ReadData_in_def width_defs width_of_def rel_target_def ea_def vtoi_def

lemma does_rtype:
  assumes "encodes (Rtype f rd rs rt) w" "isa_step ld (Rtype f rd rs rt) \<lparr>gpr = g, ipc = p\<rparr> = Some st"
  shows "does w p g a0 d0 ld (Rtype f rd rs rt) st"
  using assms by (cases f) (auto simp: decoding stages facts split: if_split_asm)

lemma does_itype:
  assumes "encodes (Itype f rt rs imm) w" "isa_step ld (Itype f rt rs imm) \<lparr>gpr = g, ipc = p\<rparr> = Some st"
  shows "does w p g a0 d0 ld (Itype f rt rs imm) st"
  using assms by (cases f) (auto simp: decoding stages facts split: if_split_asm)

lemma does_lui:
  assumes "encodes (Lui rt imm) w" "isa_step ld (Lui rt imm) \<lparr>gpr = g, ipc = p\<rparr> = Some st"
  shows "does w p g a0 d0 ld (Lui rt imm) st"
  using assms by (auto simp: decoding stages facts)

lemma does_nothing:
  assumes "encodes (Sh f 0 rt sa) w" "isa_step ld (Sh f 0 rt sa) \<lparr>gpr = g, ipc = p\<rparr> = Some st"
  shows "does w p g a0 d0 ld (Sh f 0 rt sa) st"
  using assms by (cases f) (auto simp: decoding stages facts)

lemma does_nothing_v:
  assumes "encodes (Shv f 0 rt rs) w" "isa_step ld (Shv f 0 rt rs) \<lparr>gpr = g, ipc = p\<rparr> = Some st"
  shows "does w p g a0 d0 ld (Shv f 0 rt rs) st"
  using assms by (cases f) (auto simp: decoding stages facts)

lemma does_load:
  assumes "encodes (Load f rt rs imm) w" "isa_step ld (Load f rt rs imm) \<lparr>gpr = g, ipc = p\<rparr> = Some st" "f \<noteq> L_LW \<or> rt = 0"
  shows "does w p g a0 d0 ld (Load f rt rs imm) st"
  using assms by (cases f) (auto simp: decoding stages facts split: if_split_asm)

lemma does_store:
  assumes "encodes (Store f rt rs imm) w" "isa_step ld (Store f rt rs imm) \<lparr>gpr = g, ipc = p\<rparr> = Some st"
  shows "does w p g a0 d0 ld (Store f rt rs imm) st"
  using assms by (cases f) (auto simp: decoding stages facts split: if_split_asm)

lemma does_beq:
  assumes "encodes (Beq rs rt imm) w" "isa_step ld (Beq rs rt imm) \<lparr>gpr = g, ipc = p\<rparr> = Some st"
  shows "does w p g a0 d0 ld (Beq rs rt imm) st"
  using assms by (auto simp: decoding stages facts)

lemma does_bne:
  assumes "encodes (Bne rs rt imm) w" "isa_step ld (Bne rs rt imm) \<lparr>gpr = g, ipc = p\<rparr> = Some st"
  shows "does w p g a0 d0 ld (Bne rs rt imm) st"
  using assms by (auto simp: decoding stages facts)

lemma does_bz:
  assumes "encodes (Bz c False rs imm) w" "isa_step ld (Bz c False rs imm) \<lparr>gpr = g, ipc = p\<rparr> = Some st"
  shows "does w p g a0 d0 ld (Bz c False rs imm) st"
  using assms by (cases c) (auto simp: decoding stages facts)

lemma does_jump:
  assumes "encodes (Jump i) w" "isa_step ld (Jump i) \<lparr>gpr = g, ipc = p\<rparr> = Some st"
  shows "does w p g a0 d0 ld (Jump i) st"
  using assms by (auto simp: decoding stages facts)

lemma does_jal:
  assumes "encodes (Jal i) w" "isa_step ld (Jal i) \<lparr>gpr = g, ipc = p\<rparr> = Some st"
  shows "does w p g a0 d0 ld (Jal i) st"
  using assms by (auto simp: decoding stages facts)

lemma does_jr:
  assumes "encodes (Jr rs) w" "isa_step ld (Jr rs) \<lparr>gpr = g, ipc = p\<rparr> = Some st"
  shows "does w p g a0 d0 ld (Jr rs) st"
  using assms by (auto simp: decoding stages facts)

lemma does_jalr:
  assumes "encodes (Jalr rd rs) w" "isa_step ld (Jalr rd rs) \<lparr>gpr = g, ipc = p\<rparr> = Some st"
  shows "does w p g a0 d0 ld (Jalr rd rs) st"
  using assms by (auto simp: decoding stages facts)

lemma does_instruction:
  assumes "decode w = Some i" "implemented i" "isa_step ld i \<lparr>gpr = g, ipc = p\<rparr> = Some st"
  shows "does w p g a0 d0 ld i st"
proof -
  have "encodes i w" by (rule decode_encodes [OF assms(1)])
  then show ?thesis using assms(2,3)
    by (cases i) (auto simp del: encodes.simps isa_step.simps
      intro: does_rtype does_itype does_lui does_nothing does_nothing_v does_load does_store does_beq does_bne does_bz
        does_jump does_jal does_jr does_jalr)
qed

section \<open>Programs\<close>

definition represents :: "cpu \<Rightarrow> isa \<Rightarrow> bool" where
  "represents s st \<longleftrightarrow> ready s \<and> new_pc s = ipc st \<and> rf s = gpr st"

text \<open>The bus while the instruction \<open>i\<close> is executed in \<open>st\<close>, seen before each of its eleven edges.\<close>

definition instruction_bus :: "(nat \<Rightarrow> cpu result) \<Rightarrow> minstr \<Rightarrow> isa \<Rightarrow> bool" where
  "instruction_bus run i st \<longleftrightarrow> (\<forall>k < 11. \<exists>t. run k = Inr t \<and> (k < 5 \<longrightarrow> top_wr (cpu_bus t) = S0) \<and>
     (5 \<le> k \<longrightarrow> bus_shows (isa_access i st) (cpu_bus t)))"

lemma word_does:
  assumes rep: "represents s st" and f: "fetch_ok sas code (read_addr (fetch s))" "fetch_ok sas code (ipc st)"
    and d: "\<And>a0 d0. does (fetch_word sas code (ipc st) (dout 1)) (ipc st) (gpr st) a0 d0 (dout 5) i st'"
  shows "\<exists>s'. cpu_run sas code dout 11 s = Inr s' \<and> represents s' st' \<and> read_addr (fetch s') = ipc st \<and>
    instruction_bus (\<lambda>k. cpu_run sas code dout k s) i st"
proof -
  let ?w = "fetch_word sas code (ipc st) (dout 1)"
  have w: "?w = word_of sas code dout s" using rep by (simp add: word_of_def represents_def)
  have st: "gpr st = rf s" "ipc st = new_pc s" "\<lparr>gpr = rf s, ipc = new_pc s\<rparr> = st" using rep by (simp_all add: represents_def)
  have f2: "fetch_ok sas code (new_pc s)" "ready s" using f(2) rep by (simp_all add: represents_def)
  show ?thesis
    using instruction [OF f2(2) f(1) f2(1) w] d [of "alus s" "maindec (instr (ifr s)) (dec s)"] rep st
    by (fastforce simp: does_def Let_def represents_def instruction_bus_def id_of_def alu_of_def)
qed

lemma word_executed:
  assumes "represents s st" "fetch_ok sas code (read_addr (fetch s))" "fetch_ok sas code (ipc st)"
    and i: "decode (fetch_word sas code (ipc st) (dout 1)) = Some i" "implemented i" "isa_step (dout 5) i st = Some st'"
  shows "\<exists>s'. cpu_run sas code dout 11 s = Inr s' \<and> represents s' st' \<and> read_addr (fetch s') = ipc st \<and>
    instruction_bus (\<lambda>k. cpu_run sas code dout k s) i st"
proof (rule word_does [OF assms(1-3)])
  have "\<lparr>gpr = gpr st, ipc = ipc st\<rparr> = st" by simp
  then show "does (fetch_word sas code (ipc st) (dout 1)) (ipc st) (gpr st) a0 d0 (dout 5) i st'" for a0 d0
    using does_instruction [OF i(1,2)] i(3) by metis
qed

text \<open>The instruction that comes next.\<close>

definition next_instr :: "u32 list \<Rightarrow> isa \<Rightarrow> minstr option" where
  "next_instr code st = Option.bind (fetched code (ipc st)) decode"

lemma isa_next_instr: "isa_next code d st = Some st' \<Longrightarrow> \<exists>i. next_instr code st = Some i \<and> implemented i \<and> isa_step d i st = Some st'"
  by (auto simp: isa_next_def next_instr_def bind_eq_Some_conv split: if_split_asm)

lemma program_step:
  assumes rep: "represents s st" and f: "fetch_ok False code (read_addr (fetch s))" and n: "isa_next code (dout 5) st = Some st'"
  shows "\<exists>s'. cpu_run False code dout 11 s = Inr s' \<and> represents s' st' \<and> fetch_ok False code (read_addr (fetch s')) \<and>
    (\<exists>i. next_instr code st = Some i \<and> instruction_bus (\<lambda>k. cpu_run False code dout k s) i st)"
proof -
  obtain i where i: "next_instr code st = Some i" "implemented i" "isa_step (dout 5) i st = Some st'"
    using isa_next_instr [OF n] by blast
  have f': "fetch_ok False code (ipc st)" "decode (fetch_word False code (ipc st) (dout 1)) = Some i"
    using i(1) by (auto simp: next_instr_def fetched_def fetch_ok_def fetch_word_def vtou_def bind_eq_Some_conv split: if_split_asm)
  show ?thesis using word_executed [OF rep f f'(1,2) i(2,3)] i(1) f'(1) by auto
qed

lemma program_run:
  assumes "represents s st" "fetch_ok False code (read_addr (fetch s))" "isa_run code (\<lambda>k. dout (11 * k + 5)) n st = Some st'"
  shows "\<exists>s'. cpu_run False code dout (11 * n) s = Inr s' \<and> represents s' st' \<and> fetch_ok False code (read_addr (fetch s')) \<and>
    (\<forall>m < n. \<exists>stm i. isa_run code (\<lambda>k. dout (11 * k + 5)) m st = Some stm \<and> next_instr code stm = Some i \<and>
      instruction_bus (\<lambda>k. cpu_run False code dout (11 * m + k) s) i stm)"
  using assms(3)
proof (induction n arbitrary: st')
  case 0
  then show ?case using assms(1,2) by simp
next
  case (Suc n)
  obtain stn where n: "isa_run code (\<lambda>k. dout (11 * k + 5)) n st = Some stn" "isa_next code (dout (11 * n + 5)) stn = Some st'"
    using Suc.prems by (auto simp: bind_eq_Some_conv)
  from Suc.IH [OF n(1)] obtain sn where
    IH: "cpu_run False code dout (11 * n) s = Inr sn" "represents sn stn" "fetch_ok False code (read_addr (fetch sn))"
    "\<forall>m < n. \<exists>stm i. isa_run code (\<lambda>k. dout (11 * k + 5)) m st = Some stm \<and> next_instr code stm = Some i \<and>
      instruction_bus (\<lambda>k. cpu_run False code dout (11 * m + k) s) i stm" by blast
  have add: "cpu_run False code dout (11 * n + k) s = cpu_run False code (\<lambda>t. dout (11 * n + t)) k sn" for k
    using IH(1) by (subst cpu_run_add) simp
  obtain s' i where step: "cpu_run False code (\<lambda>t. dout (11 * n + t)) 11 sn = Inr s'" "represents s' st'"
    "fetch_ok False code (read_addr (fetch s'))" "next_instr code stn = Some i"
    "instruction_bus (\<lambda>k. cpu_run False code (\<lambda>t. dout (11 * n + t)) k sn) i stn"
    using program_step [OF IH(2,3), of "\<lambda>t. dout (11 * n + t)" st'] n(2) by auto
  have "cpu_run False code dout (11 * Suc n) s = Inr s'" using step(1) add [of 11] by (simp add: add.commute)
  moreover have "\<exists>stm i. isa_run code (\<lambda>k. dout (11 * k + 5)) m st = Some stm \<and> next_instr code stm = Some i \<and>
      instruction_bus (\<lambda>k. cpu_run False code dout (11 * m + k) s) i stm" if "m < Suc n" for m
  proof (cases "m = n")
    case True
    then show ?thesis using n(1) step(4,5) add by auto
  qed (use IH(4) that in auto)
  ultimately show ?case using step(2,3) by blast
qed

section \<open>Starting\<close>

text \<open>
  When the power comes on, the enables and \<open>selMEM\<close> have the values of their declarations; nothing else has
  a value. Then \<open>rst\<close> is asserted and held over an edge.
\<close>

definition power_on :: "cpu \<Rightarrow> bool" where
  "power_on s \<longleftrightarrow> IF_en (pipe s) = S0 \<and> ID_en (pipe s) = S0 \<and> EX_en (pipe s) = S0 \<and> MEM_en (pipe s) = S0 \<and>
     MEM_read (pipe s) = S0 \<and> WB_en (pipe s) = S0 \<and> Instruction_done (pipe s) = S0 \<and> selMEM s = S0"

definition boot_state :: isa where
  "boot_state = \<lparr>gpr = (\<lambda>_. 0), ipc = BOOT_ADDR\<rparr>"

lemma boot:
  assumes "power_on s0" "fetch_ok sas code BOOT_ADDR"
  shows "\<exists>s. cpu_edge sas code S1 d (cpu_reset s0) = Inr s \<and> represents s boot_state \<and> read_addr (fetch s) = BOOT_ADDR"
  using assms
  by (auto simp: cpu_edge_def Let_def cpu_reset_def InstructionMem_edge_def fetch_ok_def power_on_def represents_def
    ready_def pipe_ready_def boot_state_def BOOT_ADDR_def)

text \<open>A processor that was switched on, for examples.\<close>

definition cold_cpu :: cpu where
  "cold_cpu = \<lparr>pipe = \<lparr>ticks = 1, IF_en = S0, ID_en = S0, EX_en = S0, MEM_en = S0, MEM_read = S0, WB_en = S0,
       Instruction_done = S0\<rparr>,
     fetch = \<lparr>read_addr = 0, im_instr = 0, im_addr = 0, im_din = 0, im_size = 0, im_wr = SU\<rparr>, new_pc = 0, ifr = if_zero,
     dec = \<lparr>d_ctrl = vec ''------------'', d_aluop = ALU_ADD, d_memwidth = WIDTH_NONE\<rparr>, idr = id_zero,
     alus = \<lparr>result = 0x8BADF00D, HI = 0, LO = 0\<rparr>, takeBranch = SU, aluResult = 0, selMEM = S0, memReadData = 0,
     regWriteData = 0, rf = (\<lambda>_. 0)\<rparr>"

lemma cold_cpu_on: "power_on cold_cpu"
  by (simp add: power_on_def cold_cpu_def)

end
