(* ===== verification/Cpu_Demo.thy ===== *)
theory Cpu_Demo
  imports Cpu_Correct
begin

text \<open>
  The program \<open>example_code\<close> of \<open>InstructionMem.vhdl\<close>: it writes five bytes to the video memory, then copies
  the push buttons to the LEDs and starts again.
\<close>

definition example_code :: "u32 list" where
  "example_code = [
     0x00000000, 0x3c1c1000, 0x2402001f, 0xa3820000, 0x24020003, 0xa3820013, 0x240200ff, 0xa3820096,
     0x2402001c, 0xa3820118, 0x240200e0, 0xa382012b, 0x00000000,
     0x3c011400, 0x3c1a1400, 0x375a0002, 0x83420000, 0xa0220000,
     0x08000000, 0x00000000]"

definition example_instrs :: "minstr list" where
  "example_instrs = [
     Sh SH_SLL 0 0 0, Lui 28 0x1000, Itype I_ADDIU 2 0 31, Store S_SB 2 28 0, Itype I_ADDIU 2 0 3, Store S_SB 2 28 19,
     Itype I_ADDIU 2 0 255, Store S_SB 2 28 150, Itype I_ADDIU 2 0 28, Store S_SB 2 28 280, Itype I_ADDIU 2 0 224,
     Store S_SB 2 28 299, Sh SH_SLL 0 0 0, Lui 1 0x1400, Lui 26 0x1400, Itype I_ORI 26 26 2, Load L_LB 2 26 0,
     Store S_SB 2 1 0, Jump 0, Sh SH_SLL 0 0 0]"

lemma example_decoded: "map decode example_code = map Some example_instrs"
  by code_simp

lemma example_next:
  assumes "n < 20" "pc = of_nat (4 * n)" "i = example_instrs ! n"
  shows "next_instr example_code \<lparr>gpr = g, ipc = pc\<rparr> = Some i"
    "implemented i \<Longrightarrow> isa_next example_code d \<lparr>gpr = g, ipc = pc\<rparr> = isa_step d i \<lparr>gpr = g, ipc = pc\<rparr>"
proof -
  have u: "unat pc = 4 * n" using assms(1,2) unat_of_nat_small [where ?'a = 32, of "4 * n"] by simp
  have "take_bit 32 (4 * n) = 4 * n" using assms(1) by (simp add: take_bit_nat_eq_self)
  then have "unat (drop_bit 2 pc) = n" using u by (simp add: unsigned_drop_bit_eq drop_bit_nat_def)
  moreover have len: "length example_code = 20" "length example_instrs = 20"
    by (simp_all add: example_code_def example_instrs_def)
  moreover have "decode (example_code ! n) = Some i"
  proof -
    have "map decode example_code ! n = map Some example_instrs ! n" by (simp only: example_decoded)
    then show ?thesis using assms(1,3) len by simp
  qed
  ultimately show 1: "next_instr example_code \<lparr>gpr = g, ipc = pc\<rparr> = Some i"
    using u assms(1) by (simp add: next_instr_def fetched_def)
  then show "implemented i \<Longrightarrow> isa_next example_code d \<lparr>gpr = g, ipc = pc\<rparr> = isa_step d i \<lparr>gpr = g, ipc = pc\<rparr>"
    by (simp add: isa_next_def next_instr_def)
qed

lemma example_steps:
  "isa_next example_code d \<lparr>gpr = g, ipc = 0\<rparr> = Some \<lparr>gpr = g, ipc = 4\<rparr>"
  "isa_next example_code d \<lparr>gpr = g, ipc = 4\<rparr> = Some \<lparr>gpr = g(28 := 0x10000000), ipc = 8\<rparr>"
  "isa_next example_code d \<lparr>gpr = g, ipc = 8\<rparr> = Some \<lparr>gpr = g(2 := g 0 + 31), ipc = 12\<rparr>"
  "isa_next example_code d \<lparr>gpr = g, ipc = 12\<rparr> = Some \<lparr>gpr = g, ipc = 16\<rparr>"
  "isa_next example_code d \<lparr>gpr = g, ipc = 16\<rparr> = Some \<lparr>gpr = g(2 := g 0 + 3), ipc = 20\<rparr>"
  "isa_next example_code d \<lparr>gpr = g, ipc = 20\<rparr> = Some \<lparr>gpr = g, ipc = 24\<rparr>"
  "isa_next example_code d \<lparr>gpr = g, ipc = 24\<rparr> = Some \<lparr>gpr = g(2 := g 0 + 255), ipc = 28\<rparr>"
  "isa_next example_code d \<lparr>gpr = g, ipc = 28\<rparr> = Some \<lparr>gpr = g, ipc = 32\<rparr>"
  "isa_next example_code d \<lparr>gpr = g, ipc = 32\<rparr> = Some \<lparr>gpr = g(2 := g 0 + 28), ipc = 36\<rparr>"
  "isa_next example_code d \<lparr>gpr = g, ipc = 36\<rparr> = Some \<lparr>gpr = g, ipc = 40\<rparr>"
  "isa_next example_code d \<lparr>gpr = g, ipc = 40\<rparr> = Some \<lparr>gpr = g(2 := g 0 + 224), ipc = 44\<rparr>"
  "isa_next example_code d \<lparr>gpr = g, ipc = 44\<rparr> = Some \<lparr>gpr = g, ipc = 48\<rparr>"
  "isa_next example_code d \<lparr>gpr = g, ipc = 48\<rparr> = Some \<lparr>gpr = g, ipc = 52\<rparr>"
  "isa_next example_code d \<lparr>gpr = g, ipc = 52\<rparr> = Some \<lparr>gpr = g(1 := 0x14000000), ipc = 56\<rparr>"
  "isa_next example_code d \<lparr>gpr = g, ipc = 56\<rparr> = Some \<lparr>gpr = g(26 := 0x14000000), ipc = 60\<rparr>"
  "isa_next example_code d \<lparr>gpr = g, ipc = 60\<rparr> = Some \<lparr>gpr = g(26 := g 26 OR 2), ipc = 64\<rparr>"
  "isa_next example_code d \<lparr>gpr = g, ipc = 64\<rparr> = Some \<lparr>gpr = g(2 := scast (ucast d :: u8)), ipc = 68\<rparr>"
  "isa_next example_code d \<lparr>gpr = g, ipc = 68\<rparr> = Some \<lparr>gpr = g, ipc = 72\<rparr>"
  "isa_next example_code d \<lparr>gpr = g, ipc = 72\<rparr> = Some \<lparr>gpr = g, ipc = 0\<rparr>"
  by (simp_all add: example_next(2) [of 0] example_next(2) [of 1] example_next(2) [of 2] example_next(2) [of 3]
    example_next(2) [of 4] example_next(2) [of 5] example_next(2) [of 6] example_next(2) [of 7] example_next(2) [of 8]
    example_next(2) [of 9] example_next(2) [of 10] example_next(2) [of 11] example_next(2) [of 12] example_next(2) [of 13]
    example_next(2) [of 14] example_next(2) [of 15] example_next(2) [of 16] example_next(2) [of 17] example_next(2) [of 18]
    example_instrs_def set_gpr_def push_bit_eq_mult abs_target_def)

section \<open>A round\<close>

text \<open>The access of each of the nineteen instructions; \<open>v\<close> is the byte read from the buttons, extended.\<close>

definition round_accesses :: "u32 \<Rightarrow> access option list" where
  "round_accesses v = [None, None, None, Some (Stores 0x10000000 1 31), None, Some (Stores 0x10000013 1 3), None,
     Some (Stores 0x10000096 1 255), None, Some (Stores 0x10000118 1 28), None, Some (Stores 0x1000012B 1 224), None,
     None, None, None, Some (Fetches 0x14000002 1), Some (Stores 0x14000000 1 v), None]"

definition instr_access :: "u32 list \<Rightarrow> isa \<Rightarrow> access option" where
  "instr_access code st = Option.bind (next_instr code st) (\<lambda>i. isa_access i st)"

lemmas example_nexts = example_next(1) [of 0] example_next(1) [of 1] example_next(1) [of 2] example_next(1) [of 3]
  example_next(1) [of 4] example_next(1) [of 5] example_next(1) [of 6] example_next(1) [of 7] example_next(1) [of 8]
  example_next(1) [of 9] example_next(1) [of 10] example_next(1) [of 11] example_next(1) [of 12] example_next(1) [of 13]
  example_next(1) [of 14] example_next(1) [of 15] example_next(1) [of 16] example_next(1) [of 17] example_next(1) [of 18]

lemma isa_run_numeral:
  "isa_run code d (numeral k) st = Option.bind (isa_run code d (pred_numeral k) st) (isa_next code (d (pred_numeral k)))"
  by (simp add: numeral_eq_Suc)

lemma example_round:
  assumes "g 0 = 0"
  shows "\<exists>g'. isa_run example_code d 19 \<lparr>gpr = g, ipc = 0\<rparr> = Some \<lparr>gpr = g', ipc = 0\<rparr> \<and> g' 0 = 0"
  using assms by (simp add: isa_run_numeral example_steps)

lemma example_instr:
  assumes "g 0 = 0" "j < 19"
  shows "\<exists>st. isa_run example_code d j \<lparr>gpr = g, ipc = 0\<rparr> = Some st \<and>
    instr_access example_code st = round_accesses (scast (ucast (d 16) :: u8)) ! j"
proof -
  have "j \<in> set [0..<19]" using assms(2) by simp
  also have "[0..<19] = [0, 1, 2, 3, 4, 5, 6, 7, 8, 9, 10, 11, 12, 13, 14, 15, 16, 17, 18]" by (simp add: upt_rec)
  finally show ?thesis using assms(1)
    by (auto simp: isa_run_numeral example_steps instr_access_def example_nexts example_instrs_def round_accesses_def ea_def)
qed

section \<open>The rounds on the processor\<close>

lemma isa_run_add: "isa_run code d (m + n) st = Option.bind (isa_run code d m st) (isa_run code (\<lambda>k. d (m + k)) n)"
  by (induction n) (simp_all add: bind_assoc)

lemma example_rounds:
  "\<exists>g. isa_run example_code d (19 * n) boot_state = Some \<lparr>gpr = g, ipc = 0\<rparr> \<and> g 0 = 0"
proof (induction n)
  case 0
  then show ?case by (simp add: boot_state_def BOOT_ADDR_def)
next
  case (Suc n)
  then obtain g where g: "isa_run example_code d (19 * n) boot_state = Some \<lparr>gpr = g, ipc = 0\<rparr>" "g 0 = 0" by blast
  have "19 * Suc n = 19 * n + 19" by simp
  then show ?case using g example_round [of g "\<lambda>k. d (19 * n + k)"] by (simp only: isa_run_add) simp
qed

text \<open>The byte read in round \<open>n\<close>.\<close>

definition round_byte :: "(nat \<Rightarrow> u32) \<Rightarrow> nat \<Rightarrow> u32" where
  "round_byte dout n = scast (ucast (dout (209 * n + 181)) :: u8)"

lemma example_on_cpu:
  assumes "power_on s0"
  shows "\<exists>s. cpu_edge False example_code S1 d (cpu_reset s0) = Inr s \<and>
    (\<forall>n. \<forall>j < 19. \<forall>k < 11. \<exists>t. cpu_run False example_code dout (209 * n + 11 * j + k) s = Inr t \<and>
      (k < 5 \<longrightarrow> top_wr (cpu_bus t) = S0) \<and>
      (5 \<le> k \<longrightarrow> bus_shows (round_accesses (round_byte dout n) ! j) (cpu_bus t)))"
proof -
  let ?d = "\<lambda>k. dout (11 * k + 5)"
  have f: "fetch_ok False example_code BOOT_ADDR" by (simp add: fetch_ok_def BOOT_ADDR_def vtou_def example_code_def)
  obtain s where s: "cpu_edge False example_code S1 d (cpu_reset s0) = Inr s" "represents s boot_state"
    "read_addr (fetch s) = BOOT_ADDR" using boot [OF assms f] by blast
  have "\<exists>t. cpu_run False example_code dout (209 * n + 11 * j + k) s = Inr t \<and> (k < 5 \<longrightarrow> top_wr (cpu_bus t) = S0) \<and>
      (5 \<le> k \<longrightarrow> bus_shows (round_accesses (round_byte dout n) ! j) (cpu_bus t))" if jk: "j < 19" "k < 11" for n j k
  proof -
    obtain g where g: "isa_run example_code ?d (19 * n) boot_state = Some \<lparr>gpr = g, ipc = 0\<rparr>" "g 0 = 0"
      using example_rounds by blast
    obtain g' where "isa_run example_code ?d (19 * Suc n) boot_state = Some \<lparr>gpr = g', ipc = 0\<rparr>"
      using example_rounds by blast
    from program_run [OF s(2) _ this] s(3) f obtain st i where
      i: "isa_run example_code ?d (19 * n + j) boot_state = Some st" "next_instr example_code st = Some i"
      "instruction_bus (\<lambda>k. cpu_run False example_code dout (11 * (19 * n + j) + k) s) i st"
      using jk(1) by (auto dest!: spec [of _ "19 * n + j"])
    have "isa_run example_code (\<lambda>k. ?d (19 * n + k)) j \<lparr>gpr = g, ipc = 0\<rparr> = Some st"
      using i(1) g(1) by (simp add: isa_run_add)
    moreover have "scast (ucast (?d (19 * n + 16)) :: u8) = round_byte dout n" by (simp add: round_byte_def algebra_simps)
    ultimately have "isa_access i st = round_accesses (round_byte dout n) ! j"
      using example_instr [of g j "\<lambda>k. ?d (19 * n + k)"] g(2) jk(1) i(2) by (auto simp: instr_access_def)
    moreover have "11 * (19 * n + j) + k = 209 * n + 11 * j + k" by (simp add: algebra_simps)
    ultimately show ?thesis using i(3) jk(2) unfolding instruction_bus_def by metis
  qed
  then show ?thesis using s(1) by blast
qed

end
