(* ===== verification/Sysbus.thy ===== *)
theory Sysbus
  imports Vhdl
begin

text \<open>
  The memory bus of the processor, \<open>vhdl/memory_map.vhdl\<close> and \<open>vhdl/io\<close>: the memory map, the address
  decoder, and the devices on the bus that are a register: LEDs, push buttons, switches, timestamp counter;
  and the asynchronous memory. A device drives the data lines while it is selected and not written: its
  output is the word it holds, or \<open>None\<close> for high impedance.
\<close>

section \<open>The memory map\<close>

record mblock =
  mb_base :: u32
  mb_size :: nat
  mb_chip :: "12 word"

definition mB :: nat where "mB = 1"
definition mK :: nat where "mK = 1024 * mB"
definition mM :: nat where "mM = mK * mK"

definition mmap :: "mblock list" where
  "mmap = [
     \<lparr>mb_base = 0xA0000000, mb_size = 128 * mM, mb_chip = 0x001\<rparr>,
     \<lparr>mb_base = 0x00000000, mb_size = 128 * mK, mb_chip = 0x002\<rparr>,
     \<lparr>mb_base = 0x14000000, mb_size = 1 * mB, mb_chip = 0x004\<rparr>,
     \<lparr>mb_base = 0x14000001, mb_size = 1 * mB, mb_chip = 0x008\<rparr>,
     \<lparr>mb_base = 0x14000002, mb_size = 1 * mB, mb_chip = 0x010\<rparr>,
     \<lparr>mb_base = 0x14000004, mb_size = 4 * mB, mb_chip = 0x020\<rparr>,
     \<lparr>mb_base = 0x140003f8, mb_size = 7 * mB, mb_chip = 0x040\<rparr>,
     \<lparr>mb_base = 0x10000000, mb_size = 16 * mM, mb_chip = 0x080\<rparr>,
     \<lparr>mb_base = 0x14000010, mb_size = 16 * mB, mb_chip = 0x100\<rparr>]"

definition mmap_led :: nat where "mmap_led = 2"

definition inside :: "u32 \<Rightarrow> u32 \<Rightarrow> nat \<Rightarrow> bool" where
  "inside addr base len \<longleftrightarrow> base \<le> addr \<and> addr < base + of_nat len"

definition in_block :: "nat \<Rightarrow> u32 \<Rightarrow> bool" where
  "in_block i A \<longleftrightarrow> inside A (mb_base (mmap ! i)) (mb_size (mmap ! i))"

text \<open>The decoder has no last \<open>else\<close>: an address outside of the blocks leaves the selection \<open>old\<close>.\<close>

definition addrdec :: "u32 \<Rightarrow> 12 word \<Rightarrow> 12 word" where
  "addrdec A old =
    (if in_block 0 A then mb_chip (mmap ! 0)
     else if in_block 1 A then mb_chip (mmap ! 1)
     else if in_block 2 A then mb_chip (mmap ! 2)
     else if in_block 3 A then mb_chip (mmap ! 3)
     else if in_block 4 A then mb_chip (mmap ! 4)
     else if in_block 5 A then mb_chip (mmap ! 5)
     else if in_block 6 A then mb_chip (mmap ! 6)
     else if in_block 7 A then mb_chip (mmap ! 7)
     else old)"

section \<open>Registers on the bus\<close>

record led_bank =
  led_out :: u8
  led_data :: u32

definition mmio_leds_edge :: "bool \<Rightarrow> width \<Rightarrow> ctrl \<Rightarrow> u32 \<Rightarrow> led_bank \<Rightarrow> led_bank" where
  "mmio_leds_edge en sz wr din s =
    (if en \<and> sz \<noteq> 0 then
       if wr = S0 then s\<lparr>led_data := - 1\<rparr>
       else if wr = S1 then s\<lparr>led_out := ucast din\<rparr>
       else s
     else s)"

text \<open>The push buttons, the switches and the counter latch what they show at an edge.\<close>

definition mmio_input_edge :: "bool \<Rightarrow> width \<Rightarrow> ctrl \<Rightarrow> 'a::len word \<Rightarrow> u32 \<Rightarrow> u32" where
  "mmio_input_edge en sz wr pins data = (if en \<and> sz \<noteq> 0 \<and> wr = S0 then ucast pins else data)"

definition mmio_buttons_edge :: "bool \<Rightarrow> width \<Rightarrow> ctrl \<Rightarrow> 4 word \<Rightarrow> u32 \<Rightarrow> u32" where
  "mmio_buttons_edge = mmio_input_edge"

definition mmio_dipswitch_edge :: "bool \<Rightarrow> width \<Rightarrow> ctrl \<Rightarrow> u8 \<Rightarrow> u32 \<Rightarrow> u32" where
  "mmio_dipswitch_edge = mmio_input_edge"

record tsc =
  tstamp :: u32
  tsc_data :: u32

definition mmio_tsc_edge :: "bool \<Rightarrow> width \<Rightarrow> ctrl \<Rightarrow> tsc \<Rightarrow> tsc" where
  "mmio_tsc_edge en sz wr s =
    \<lparr>tstamp = vec_increment (tstamp s),
     tsc_data = (if sz \<noteq> 0 \<and> en then if wr = S0 then tstamp s else tsc_data s else tsc_data s)\<rparr>"

definition device_out :: "bool \<Rightarrow> ctrl \<Rightarrow> u32 \<Rightarrow> u32 option" where
  "device_out en wr data = (if en \<and> wr = S0 then Some data else None)"

section \<open>The asynchronous memory\<close>

definition ram_index :: "u32 \<Rightarrow> nat" where
  "ram_index address = vtou (address AND NOT (mb_base (mmap ! 0)))"

definition byte_of :: "nat \<Rightarrow> u32 \<Rightarrow> u8" where
  "byte_of k w = ucast (drop_bit (8 * k) w)"

definition ram_store :: "nat \<Rightarrow> u8 list \<Rightarrow> u8 list \<Rightarrow> u8 list result" where
  "ram_store i vs mem = (if i + length vs \<le> length mem then Inr (take i mem @ vs @ drop (i + length vs) mem) else Inl Out_of_bounds)"

text \<open>The process runs whenever the address, the data or the selection changes, with no clock.\<close>

definition ram_write :: "bool \<Rightarrow> ctrl \<Rightarrow> u32 \<Rightarrow> u32 \<Rightarrow> width \<Rightarrow> u8 list \<Rightarrow> u8 list result" where
  "ram_write en wr address din sz mem =
    (let index = ram_index address in
     if \<not> (en \<and> wr = S1) then Inr mem
     else if sz = WIDTH_BYTE then ram_store index [byte_of 0 din] mem
     else if sz = WIDTH_HALF then ram_store index [byte_of 1 din, byte_of 0 din] mem
     else if sz = WIDTH_WORD then ram_store index [byte_of 3 din, byte_of 2 din, byte_of 1 din, byte_of 0 din] mem
     else Inr mem)"

text \<open>
  Reading computes the index and does not use it. The bytes above the width are \<open>'-'\<close>, here those of \<open>nocare\<close>;
  when it is not read, or without a width, \<open>data_out\<close> stays \<open>old\<close>.
\<close>

definition ram_read :: "bool \<Rightarrow> ctrl \<Rightarrow> u32 \<Rightarrow> width \<Rightarrow> u8 list \<Rightarrow> u32 \<Rightarrow> u32 \<Rightarrow> u32" where
  "ram_read en wr address sz mem nocare old =
    (let index = ram_index address in
     if \<not> (en \<and> wr = S0) then old
     else if sz = WIDTH_BYTE then word_cat (ucast (drop_bit 8 nocare) :: 24 word) (mem ! 0)
     else if sz = WIDTH_HALF then word_cat (ucast (drop_bit 16 nocare) :: u16) (word_cat (mem ! 0) (mem ! 1) :: u16)
     else if sz = WIDTH_WORD then word_cat (word_cat (mem ! 0) (mem ! 1) :: u16) (word_cat (mem ! 2) (mem ! 3) :: u16)
     else old)"

section \<open>The decoder\<close>

text \<open>The blocks as intervals.\<close>

definition block_range :: "nat \<Rightarrow> nat \<times> nat" where
  "block_range i = [(0xA0000000, 0xA8000000), (0, 0x20000), (0x14000000, 0x14000001), (0x14000001, 0x14000002),
     (0x14000002, 0x14000003), (0x14000004, 0x14000008), (0x140003f8, 0x140003ff), (0x10000000, 0x11000000),
     (0x14000010, 0x14000020)] ! i"

lemma below_9: "i < 9 \<longleftrightarrow> i \<in> {0, 1, 2, 3, 4, 5, 6, 7, 8 :: nat}"
  by auto

lemma in_block_range: "i < 9 \<Longrightarrow> in_block i A \<longleftrightarrow> fst (block_range i) \<le> unat A \<and> unat A < snd (block_range i)"
  unfolding below_9
  by (auto simp: in_block_def inside_def mmap_def block_range_def mM_def mK_def mB_def word_le_nat_alt word_less_nat_alt)

lemma blocks_disjoint: "i < 9 \<Longrightarrow> j < 9 \<Longrightarrow> in_block i A \<Longrightarrow> in_block j A \<Longrightarrow> i = j"
  unfolding below_9
  by (elim insertE emptyE) (simp_all add: in_block_range block_range_def)

lemma addrdec_in: "i < 8 \<Longrightarrow> in_block i A \<Longrightarrow> addrdec A old = 2 ^ i"
proof -
  assume i: "i < 8" "in_block i A"
  then have "j < 9 \<Longrightarrow> j \<noteq> i \<Longrightarrow> \<not> in_block j A" for j using blocks_disjoint [of i j A] by auto
  moreover have "i \<in> {0, 1, 2, 3, 4, 5, 6, 7}" using i(1) by auto
  ultimately show ?thesis using i(2) by (elim insertE emptyE) (simp_all add: addrdec_def mmap_def)
qed

lemma addrdec_out: "\<forall>i < 8. \<not> in_block i A \<Longrightarrow> addrdec A old = old"
  by (simp add: addrdec_def)

section \<open>The memory\<close>

text \<open>A word written at the start of the memory is read back; a word written elsewhere is not.\<close>

lemma word_of_bytes: "word_cat (word_cat (byte_of 3 w) (byte_of 2 w) :: u16) (word_cat (byte_of 1 w) (byte_of 0 w) :: u16) = w"
  by (rule bit_word_eqI) (auto simp: byte_of_def bit_simps)

lemma ram_index_base: "ram_index (0xA0000000 + of_nat i) = i" if "i < 0x8000000"
proof -
  have "(0xA0000000 :: u32) = push_bit 29 5" by (simp add: push_bit_eq_mult)
  then have base: "bit (0xA0000000 :: u32) n \<Longrightarrow> 29 \<le> n" for n by (simp only: bit_push_bit_iff)
  have high: "\<not> bit (of_nat i :: u32) n" if "29 \<le> n" for n
  proof -
    have "i < 2 ^ n" using \<open>i < 0x8000000\<close> power_increasing [of 29 n "2 :: nat"] that by simp
    then have "\<not> bit i n" by (simp add: bit_iff_odd)
    then show ?thesis by (simp add: bit_simps)
  qed
  have "0xA0000000 + of_nat i = (0xA0000000 :: u32) OR of_nat i"
    using base high by (intro disjunctive_add) blast
  moreover have "((0xA0000000 :: u32) OR of_nat i) AND NOT 0xA0000000 = of_nat i"
    using base high by (intro bit_word_eqI) (auto simp only: bit_and_iff bit_or_iff bit_not_iff possible_bit_word)
  ultimately show ?thesis using that by (simp add: ram_index_def vtou_def mmap_def unat_of_nat_small)
qed

lemma ram_first_word:
  assumes "4 \<le> length mem"
  shows "\<exists>mem'. ram_write True S1 0xA0000000 w WIDTH_WORD mem = Inr mem' \<and> ram_read True S0 a WIDTH_WORD mem' nocare old = w"
  using ram_index_base [of 0] assms
  by (simp add: ram_write_def ram_store_def ram_read_def width_defs word_of_bytes [simplified])

lemma ram_other_word:
  assumes "4 \<le> i" "i + 4 \<le> length mem" "length mem \<le> 0x8000000"
  shows "\<exists>mem'. ram_write True S1 (0xA0000000 + of_nat i) w WIDTH_WORD mem = Inr mem' \<and>
    ram_read True S0 (0xA0000000 + of_nat i) WIDTH_WORD mem' nocare old = ram_read True S0 a WIDTH_WORD mem nocare old"
  using ram_index_base [of i] assms
  by (simp add: ram_write_def ram_store_def ram_read_def width_defs nth_append)

end
