(* ===== verification/Cpu_Leds.thy ===== *)
theory Cpu_Leds
  imports Cpu_Demo Sysbus
begin

text \<open>
  The demonstration program on the processor, with the address decoder and the LEDs on its bus: the LEDs
  show the byte the processor last found on the data lines when it read the push buttons.
\<close>

definition bus_at :: "u32 list \<Rightarrow> (nat \<Rightarrow> u32) \<Rightarrow> cpu \<Rightarrow> nat \<Rightarrow> bus_out" where
  "bus_at code dout s t = cpu_bus (projr (cpu_run False code dout t s))"

text \<open>The selection before edge \<open>t\<close>, and the LEDs before edge \<open>t\<close>.\<close>

fun cs_at :: "(nat \<Rightarrow> bus_out) \<Rightarrow> 12 word \<Rightarrow> nat \<Rightarrow> 12 word" where
  "cs_at bus cs 0 = addrdec (top_addr (bus 0)) cs"
| "cs_at bus cs (Suc t) = addrdec (top_addr (bus (Suc t))) (cs_at bus cs t)"

fun leds_at :: "(nat \<Rightarrow> bus_out) \<Rightarrow> 12 word \<Rightarrow> led_bank \<Rightarrow> nat \<Rightarrow> led_bank" where
  "leds_at bus cs l 0 = l"
| "leds_at bus cs l (Suc t) =
    mmio_leds_edge (bit (cs_at bus cs t) mmap_led) (top_size (bus t)) (top_wr (bus t)) (top_din (bus t)) (leds_at bus cs l t)"

lemma cs_selected: "i < 8 \<Longrightarrow> in_block i (top_addr (bus t)) \<Longrightarrow> cs_at bus cs t = 2 ^ i"
  by (cases t) (simp_all add: addrdec_in)

lemma led_cell: "in_block 2 A \<longleftrightarrow> A = 0x14000000"
  by (simp add: in_block_range block_range_def word_eq_iff_unat) arith

lemma leds_idle: "top_wr (bus t) = S0 \<Longrightarrow> led_out (leds_at bus cs l (Suc t)) = led_out (leds_at bus cs l t)"
  by (simp add: mmio_leds_edge_def)

lemma leds_store:
  assumes "bus_shows (Some (Stores a 1 v)) (bus t)" "i < 8" "in_block i a"
  shows "led_out (leds_at bus cs l (Suc t)) = (if i = 2 then ucast v else led_out (leds_at bus cs l t))"
proof -
  have "cs_at bus cs t = 2 ^ i" by (rule cs_selected) (use assms in auto)
  then show ?thesis using assms(1,2) by (auto simp: mmio_leds_edge_def mmap_led_def width_of_def width_defs bit_simps bit_exp_iff)
qed

lemma leds_round:
  assumes b: "bus_shows (round_accesses (scast (c :: u8)) ! j) (bus t)" and j: "j < 19"
  shows "led_out (leds_at bus cs l (Suc t)) = (if j = 17 then c else led_out (leds_at bus cs l t))"
proof -
  have vram: "in_block 7 0x10000000" "in_block 7 0x10000013" "in_block 7 0x10000096" "in_block 7 0x10000118" "in_block 7 0x1000012B"
    "in_block 2 0x14000000" by (simp_all add: in_block_range block_range_def)
  have c: "ucast (scast c :: u32) = c" by (rule bit_word_eqI) (simp add: bit_ucast_iff bit_scast_8)
  have "j \<in> set [0..<19]" using j by simp
  also have "[0..<19] = [0, 1, 2, 3, 4, 5, 6, 7, 8, 9, 10, 11, 12, 13, 14, 15, 16, 17, 18]" by (simp add: upt_rec)
  finally show ?thesis using b leds_idle [of bus t cs l] c
      leds_store [of _ _ bus t 7 cs l, OF _ _ vram(1)] leds_store [of _ _ bus t 7 cs l, OF _ _ vram(2)]
      leds_store [of _ _ bus t 7 cs l, OF _ _ vram(3)] leds_store [of _ _ bus t 7 cs l, OF _ _ vram(4)]
      leds_store [of _ _ bus t 7 cs l, OF _ _ vram(5)] leds_store [of _ _ bus t 2 cs l, OF _ _ vram(6)]
    by (auto simp: round_accesses_def simp del: leds_at.simps)
qed

lemma demo_step:
  assumes run: "\<forall>n. \<forall>j < 19. \<forall>k < 11. \<exists>u. cpu_run False example_code dout (209 * n + 11 * j + k) s = Inr u \<and>
      (k < 5 \<longrightarrow> top_wr (cpu_bus u) = S0) \<and> (5 \<le> k \<longrightarrow> bus_shows (round_accesses (round_byte dout n) ! j) (cpu_bus u))"
    and jk: "j < 19" "k < 11"
  shows "led_out (leds_at (bus_at example_code dout s) cs l (Suc (209 * n + 11 * j + k))) =
    (if j = 17 \<and> 5 \<le> k then ucast (dout (209 * n + 181)) else led_out (leds_at (bus_at example_code dout s) cs l (209 * n + 11 * j + k)))"
proof -
  let ?t = "209 * n + 11 * j + k" and ?b = "bus_at example_code dout s"
  obtain u where u: "cpu_run False example_code dout ?t s = Inr u" "k < 5 \<longrightarrow> top_wr (cpu_bus u) = S0"
    "5 \<le> k \<longrightarrow> bus_shows (round_accesses (round_byte dout n) ! j) (cpu_bus u)" using run jk by blast
  then have b: "?b ?t = cpu_bus u" by (simp add: bus_at_def)
  show ?thesis
  proof (cases "k < 5")
    case True
    then show ?thesis using leds_idle [of ?b ?t cs l] u(2) b by (simp del: leds_at.simps)
  next
    case False
    then have "bus_shows (round_accesses (scast (ucast (dout (209 * n + 181)) :: u8)) ! j) (?b ?t)"
      using u(3) b by (simp add: round_byte_def)
    then show ?thesis using leds_round [OF _ jk(1)] False by (simp del: leds_at.simps)
  qed
qed

lemma demo_leds_follow:
  assumes run: "\<forall>n. \<forall>j < 19. \<forall>k < 11. \<exists>u. cpu_run False example_code dout (209 * n + 11 * j + k) s = Inr u \<and>
      (k < 5 \<longrightarrow> top_wr (cpu_bus u) = S0) \<and> (5 \<le> k \<longrightarrow> bus_shows (round_accesses (round_byte dout n) ! j) (cpu_bus u))"
    and "d \<le> 208"
  shows "led_out (leds_at (bus_at example_code dout s) cs l (209 * n + 193 + d)) = ucast (dout (209 * n + 181))"
  using assms(2)
proof (induction d)
  case 0
  have "Suc (209 * n + 11 * 17 + 5) = 209 * n + 193 + 0" by simp
  then show ?case using demo_step [OF run, of 17 5 cs l n] by (simp only:) simp
next
  case (Suc d)
  let ?L = "\<lambda>t. led_out (leds_at (bus_at example_code dout s) cs l t)" and ?x = "193 + d"
  have IH: "?L (209 * n + 193 + d) = ucast (dout (209 * n + 181))" using Suc by simp
  have split: "y = 11 * (y div 11) + y mod 11" for y :: nat by simp
  have step: "?L (Suc (209 * n + 193 + d)) =
      (if a = 17 \<and> 5 \<le> b then ucast (dout (209 * m + 181)) else ?L (209 * n + 193 + d))"
    if "a < 19" "b < 11" "209 * n + 193 + d = 209 * m + 11 * a + b" for m a b
    unfolding that(3) by (rule demo_step [OF run that(1,2)])
  have "?L (Suc (209 * n + 193 + d)) = ucast (dout (209 * n + 181))"
  proof (cases "?x < 209")
    case True
    have "?x div 11 < 19" "209 * n + 193 + d = 209 * n + 11 * (?x div 11) + ?x mod 11"
      using True split [of ?x] by (simp add: div_less_iff_less_mult, linarith)
    from step [OF this(1) _ this(2)] show ?thesis using IH by simp
  next
    case False
    define y where "y = ?x - 209"
    have y: "y < 192" "209 * n + 193 + d = 209 * Suc n + y" using Suc.prems False by (auto simp: y_def)
    then have "y div 11 < 19" "209 * n + 193 + d = 209 * Suc n + 11 * (y div 11) + y mod 11"
      using split [of y] by (simp add: div_less_iff_less_mult, linarith)
    moreover have "\<not> (y div 11 = 17 \<and> 5 \<le> y mod 11)" using y(1) split [of y] by linarith
    moreover have "y mod 11 < 11" by simp
    ultimately have "?L (Suc (209 * n + 193 + d)) = ?L (209 * n + 193 + d)"
      using step [of "y div 11" "y mod 11" "Suc n"] by presburger
    then show ?thesis using IH by simp
  qed
  then show ?case by (simp only: add_Suc_right)
qed

lemma demo_total:
  assumes "\<forall>n. \<forall>j < 19. \<forall>k < 11. \<exists>u. cpu_run False example_code dout (209 * n + 11 * j + k) s = Inr u \<and> P n j k u"
  shows "\<forall>t. \<exists>u. cpu_run False example_code dout t s = Inr u"
proof
  fix t :: nat
  let ?n = "t div 209" and ?x = "t mod 209"
  have "t mod 209 < 209" by simp
  then have "?x div 11 < 19" "?x mod 11 < 11" by (simp_all add: div_less_iff_less_mult)
  moreover have "t = 209 * ?n + 11 * (?x div 11) + ?x mod 11" by presburger
  ultimately show "\<exists>u. cpu_run False example_code dout t s = Inr u" using assms by metis
qed

lemma demo_reads:
  assumes run: "\<forall>n. \<forall>j < 19. \<forall>k < 11. \<exists>u. cpu_run False example_code dout (209 * n + 11 * j + k) s = Inr u \<and>
      (k < 5 \<longrightarrow> top_wr (cpu_bus u) = S0) \<and> (5 \<le> k \<longrightarrow> bus_shows (round_accesses (round_byte dout n) ! j) (cpu_bus u))"
  shows "\<forall>n. bus_shows (Some (Fetches 0x14000002 1)) (bus_at example_code dout s (209 * n + 181))"
proof
  fix n :: nat
  have "209 * n + 11 * 16 + 5 = 209 * n + 181" by simp
  with run [rule_format, of 16 5 n] obtain u where
    "cpu_run False example_code dout (209 * n + 181) s = Inr u" "bus_shows (round_accesses (round_byte dout n) ! 16) (cpu_bus u)"
    by (simp only:) force
  then show "bus_shows (Some (Fetches 0x14000002 1)) (bus_at example_code dout s (209 * n + 181))"
    by (simp add: bus_at_def round_accesses_def)
qed

text \<open>Whatever the data lines carry.\<close>

lemma demo_drives_leds:
  assumes "power_on s0"
  shows "\<exists>s. cpu_edge False example_code S1 d (cpu_reset s0) = Inr s \<and>
    (\<forall>t. \<exists>u. cpu_run False example_code dout t s = Inr u) \<and>
    (\<forall>n. bus_shows (Some (Fetches 0x14000002 1)) (bus_at example_code dout s (209 * n + 181))) \<and>
    (\<forall>n t. 209 * n + 193 \<le> t \<longrightarrow> t \<le> 209 * n + 401 \<longrightarrow>
       led_out (leds_at (bus_at example_code dout s) cs l t) = ucast (dout (209 * n + 181)))"
proof -
  obtain s where s: "cpu_edge False example_code S1 d (cpu_reset s0) = Inr s" and
    run: "\<forall>n. \<forall>j < 19. \<forall>k < 11. \<exists>u. cpu_run False example_code dout (209 * n + 11 * j + k) s = Inr u \<and>
      (k < 5 \<longrightarrow> top_wr (cpu_bus u) = S0) \<and> (5 \<le> k \<longrightarrow> bus_shows (round_accesses (round_byte dout n) ! j) (cpu_bus u))"
    using example_on_cpu [OF assms] by blast
  have leds: "led_out (leds_at (bus_at example_code dout s) cs l t) = ucast (dout (209 * n + 181))"
    if "209 * n + 193 \<le> t" "t \<le> 209 * n + 401" for n t
    using demo_leds_follow [OF run, of "t - (209 * n + 193)" cs l n] that by simp
  show ?thesis using s leds demo_total [OF run] demo_reads [OF run] by blast
qed

end
