(* ===== verification/Board.thy ===== *)
theory Board
  imports Cpu_Leds
begin

text \<open>
  The processor with the register devices of \<open>io/mem.vhdl\<close> on its bus, as \<open>arch/mips.vhdl\<close> connects them:
  LEDs, switches, push buttons and the timestamp counter. The devices left out (memories, video) drive
  the data lines when none of these does; the model takes any word for them. Before that, the clock divider.
\<close>

section \<open>The clock of the processor\<close>

record divider =
  div_i :: nat
  pulse :: ctrl

definition clkdivider_edge :: "nat \<Rightarrow> ctrl \<Rightarrow> divider \<Rightarrow> divider" where
  "clkdivider_edge n rst s =
    (if rst = S1 then \<lparr>div_i = 0, pulse = S0\<rparr>
     else let i = div_i s + 1 in
       if i \<ge> n then \<lparr>div_i = 0, pulse = std_not (pulse s)\<rparr> else s\<lparr>div_i := i\<rparr>)"

text \<open>After a reset the small clock changes every \<open>n\<close> edges of the big one.\<close>

lemma clkdivider_divides:
  assumes "0 < n"
  shows "(clkdivider_edge n S0 ^^ t) (clkdivider_edge n S1 s) = \<lparr>div_i = t mod n, pulse = high_if (odd (t div n))\<rparr>"
proof (induction t)
  case 0
  then show ?case by (simp add: clkdivider_edge_def)
next
  case (Suc t)
  have flip: "std_not (high_if c) = high_if (\<not> c)" for c by (cases c) (simp_all add: high_if_def)
  have "Suc t mod n = (if Suc (t mod n) = n then 0 else Suc (t mod n))" by (simp add: mod_Suc)
  moreover have "Suc t div n = (if Suc (t mod n) = n then Suc (t div n) else t div n)" using assms by (simp add: div_Suc mod_Suc)
  moreover have "t mod n < n" using assms by simp
  ultimately show ?case using Suc by (auto simp: clkdivider_edge_def flip)
qed

section \<open>The board\<close>

definition mmap_dipswitch :: nat where "mmap_dipswitch = 3"
definition mmap_push :: nat where "mmap_push = 4"
definition mmap_tsc :: nat where "mmap_tsc = 5"

record mips_board =
  bcpu :: cpu
  bcs :: "12 word"
  bleds :: led_bank
  bswitch :: u32
  bbuttons :: u32
  btsc :: tsc

text \<open>The selection, given the address on the bus and the selection before.\<close>

definition board_cs :: "mips_board \<Rightarrow> 12 word" where
  "board_cs b = addrdec (top_addr (cpu_bus (bcpu b))) (bcs b)"

text \<open>The data lines: the word of the device that drives them, or else \<open>other\<close>.\<close>

fun driven :: "u32 \<Rightarrow> u32 option list \<Rightarrow> u32" where
  "driven other [] = other"
| "driven other (Some w # ds) = w"
| "driven other (None # ds) = driven other ds"

definition board_dout :: "u32 \<Rightarrow> mips_board \<Rightarrow> u32" where
  "board_dout other b = (let bus = cpu_bus (bcpu b); cs = board_cs b in
     driven other [device_out (bit cs mmap_led) (top_wr bus) (led_data (bleds b)),
       device_out (bit cs mmap_push) (top_wr bus) (bbuttons b),
       device_out (bit cs mmap_tsc) (top_wr bus) (tsc_data (btsc b)),
       device_out (bit cs mmap_dipswitch) (top_wr bus) (bswitch b)])"

definition board_edge :: "u32 list \<Rightarrow> 4 word \<Rightarrow> u8 \<Rightarrow> u32 \<Rightarrow> mips_board \<Rightarrow> mips_board result" where
  "board_edge code buttons switch other b =
    (let bus = cpu_bus (bcpu b); cs = board_cs b in
     rbind (cpu_edge False code S0 (board_dout other b) (bcpu b)) (\<lambda>c.
     Inr \<lparr>bcpu = c, bcs = cs,
       bleds = mmio_leds_edge (bit cs mmap_led) (top_size bus) (top_wr bus) (top_din bus) (bleds b),
       bswitch = mmio_dipswitch_edge (bit cs mmap_dipswitch) (top_size bus) (top_wr bus) switch (bswitch b),
       bbuttons = mmio_buttons_edge (bit cs mmap_push) (top_size bus) (top_wr bus) buttons (bbuttons b),
       btsc = mmio_tsc_edge (bit cs mmap_tsc) (top_size bus) (top_wr bus) (btsc b)\<rparr>))"

text \<open>\<open>t\<close> edges; \<open>buttons t\<close>, \<open>switch t\<close> and \<open>other t\<close> are what the inputs carry at edge \<open>t\<close>.\<close>

fun board_run :: "u32 list \<Rightarrow> (nat \<Rightarrow> 4 word) \<Rightarrow> (nat \<Rightarrow> u8) \<Rightarrow> (nat \<Rightarrow> u32) \<Rightarrow> nat \<Rightarrow> mips_board \<Rightarrow> mips_board result" where
  "board_run code buttons switch other 0 b = Inr b"
| "board_run code buttons switch other (Suc t) b =
    rbind (board_run code buttons switch other t b) (board_edge code (buttons t) (switch t) (other t))"

section \<open>Its parts\<close>

text \<open>The word on the data lines at edge \<open>t\<close>.\<close>

definition lines :: "u32 list \<Rightarrow> (nat \<Rightarrow> 4 word) \<Rightarrow> (nat \<Rightarrow> u8) \<Rightarrow> (nat \<Rightarrow> u32) \<Rightarrow> mips_board \<Rightarrow> nat \<Rightarrow> u32" where
  "lines code buttons switch other b t = board_dout (other t) (projr (board_run code buttons switch other t b))"

lemma board_cpu:
  assumes "\<forall>t. \<exists>u. cpu_run False code (lines code bt sw ot b) t (bcpu b) = Inr u"
  shows "\<exists>b'. board_run code bt sw ot t b = Inr b' \<and> cpu_run False code (lines code bt sw ot b) t (bcpu b) = Inr (bcpu b')"
proof (induction t)
  case (Suc t)
  then obtain b' where b': "board_run code bt sw ot t b = Inr b'"
    "cpu_run False code (lines code bt sw ot b) t (bcpu b) = Inr (bcpu b')" by blast
  obtain u where "cpu_run False code (lines code bt sw ot b) (Suc t) (bcpu b) = Inr u" using assms by blast
  then have "cpu_edge False code S0 (board_dout (ot t) b') (bcpu b') = Inr u" using b' by (simp add: lines_def)
  then have "cpu_run False code (lines code bt sw ot b) (Suc t) (bcpu b) = Inr u"
    "\<exists>x. board_run code bt sw ot (Suc t) b = Inr x \<and> bcpu x = u"
    using b' by (simp_all add: lines_def board_edge_def Let_def)
  then show ?case by (metis (no_types))
qed simp

text \<open>The devices follow the bus of the processor.\<close>

lemma board_devices:
  assumes run: "\<forall>t. \<exists>u. cpu_run False code (lines code bt sw ot b) t (bcpu b) = Inr u"
    and b': "board_run code bt sw ot t b = Inr b'"
  shows "cpu_bus (bcpu b') = bus_at code (lines code bt sw ot b) (bcpu b) t"
    "board_cs b' = cs_at (bus_at code (lines code bt sw ot b) (bcpu b)) (bcs b) t"
    "bleds b' = leds_at (bus_at code (lines code bt sw ot b) (bcpu b)) (bcs b) (bleds b) t"
  using b'
proof (induction t arbitrary: b')
  case 0
  { case 1 then show ?case by (simp add: bus_at_def) }
  { case 2 then show ?case by (auto simp: bus_at_def board_cs_def) }
  { case 3 then show ?case by simp }
next
  case (Suc t)
  have bus: "cpu_bus (bcpu b'') = bus_at code (lines code bt sw ot b) (bcpu b) t'" if "board_run code bt sw ot t' b = Inr b''" for t' b''
    using board_cpu [OF run, of t'] that by (auto simp: bus_at_def)
  obtain p where p: "board_run code bt sw ot t b = Inr p" using board_cpu [OF run] by blast
  { case 1 then show ?case using bus by blast }
  { case 2
    then have "bcs b' = board_cs p" using p by (auto simp: board_edge_def Let_def rbind_Inr_iff)
    then show ?case using Suc.IH(2) [OF p] bus [OF 2] by (simp add: board_cs_def) }
  { case 3
    then have "bleds b' = mmio_leds_edge (bit (board_cs p) mmap_led) (top_size (cpu_bus (bcpu p))) (top_wr (cpu_bus (bcpu p)))
        (top_din (cpu_bus (bcpu p))) (bleds p)" using p by (auto simp: board_edge_def Let_def rbind_Inr_iff)
    then show ?case using Suc.IH [OF p] by simp }
qed

section \<open>The demonstration program\<close>

lemma selected_push:
  assumes "bus_shows (Some (Fetches 0x14000002 1)) (bus t)"
  shows "cs_at bus cs t = 0x10"
proof -
  have "in_block 4 (top_addr (bus t))" using assms by (simp add: in_block_range block_range_def)
  then show ?thesis using cs_selected [of 4 bus t cs] by simp
qed

lemma buttons_next:
  assumes run: "\<forall>t. \<exists>u. cpu_run False code (lines code bt sw ot b) t (bcpu b) = Inr u"
    and b': "board_run code bt sw ot t b = Inr b'" "board_run code bt sw ot (Suc t) b = Inr b''"
  shows "bbuttons b'' = ucast (bt t) \<or> bbuttons b'' = bbuttons b'"
    "bus_shows (Some (Fetches 0x14000002 1)) (bus_at code (lines code bt sw ot b) (bcpu b) t) \<Longrightarrow> bbuttons b'' = ucast (bt t)"
    "bus_shows (Some (Fetches 0x14000002 1)) (bus_at code (lines code bt sw ot b) (bcpu b) t) \<Longrightarrow>
      lines code bt sw ot b t = bbuttons b'"
proof -
  note d = board_devices [OF run b'(1)]
  have n: "bbuttons b'' = mmio_buttons_edge (bit (board_cs b') mmap_push) (top_size (cpu_bus (bcpu b'))) (top_wr (cpu_bus (bcpu b')))
      (bt t) (bbuttons b')" using b' by (auto simp: board_edge_def Let_def rbind_Inr_iff)
  then show "bbuttons b'' = ucast (bt t) \<or> bbuttons b'' = bbuttons b'"
    by (auto simp: mmio_buttons_edge_def mmio_input_edge_def)
  assume s: "bus_shows (Some (Fetches 0x14000002 1)) (bus_at code (lines code bt sw ot b) (bcpu b) t)"
  then have "board_cs b' = 0x10" using selected_push [of "bus_at code (lines code bt sw ot b) (bcpu b)" t "bcs b"] d(2) by simp
  then have c: "bit (board_cs b') mmap_push" "\<not> bit (board_cs b') mmap_led"
    by (simp_all add: mmap_push_def mmap_led_def bit_numeral_rec)
  show "bbuttons b'' = ucast (bt t)"
    using n c s d(1) by (simp add: mmio_buttons_edge_def mmio_input_edge_def width_of_def width_defs)
  show "lines code bt sw ot b t = bbuttons b'"
    using b'(1) c s d(1) by (simp add: lines_def board_dout_def Let_def device_out_def)
qed

text \<open>Once it was read, the register of the buttons holds what they were at some edge since.\<close>

lemma buttons_since:
  assumes run: "\<forall>t. \<exists>u. cpu_run False code (lines code bt sw ot b) t (bcpu b) = Inr u"
    and s: "bus_shows (Some (Fetches 0x14000002 1)) (bus_at code (lines code bt sw ot b) (bcpu b) t)"
    and b': "board_run code bt sw ot (Suc t + k) b = Inr b'"
  shows "\<exists>u. t \<le> u \<and> u \<le> t + k \<and> bbuttons b' = ucast (bt u)"
  using b'
proof (induction k arbitrary: b')
  case 0
  obtain p where p: "board_run code bt sw ot t b = Inr p" using board_cpu [OF run] by blast
  have "bbuttons b' = ucast (bt t)" by (rule buttons_next(2) [OF run p _ s]) (use 0 in simp)
  then show ?case by auto
next
  case (Suc k)
  obtain p where p: "board_run code bt sw ot (Suc t + k) b = Inr p" using board_cpu [OF run] by blast
  from Suc.IH [OF p] obtain u where "t \<le> u" "u \<le> t + k" "bbuttons p = ucast (bt u)" by blast
  moreover have "bbuttons b' = ucast (bt (Suc t + k)) \<or> bbuttons b' = bbuttons p"
    using buttons_next(1) [OF run p, of b'] Suc.prems by simp
  ultimately show ?case by (metis add_Suc add_Suc_right le_SucI le_add1 le_refl le_trans)
qed

lemma demo_on_board:
  assumes "power_on s0" "cpu_edge False example_code S1 d (cpu_reset s0) = Inr (bcpu b)"
  shows "\<exists>b'. board_run example_code bt sw ot t b = Inr b'"
    "bus_shows (Some (Fetches 0x14000002 1)) (bus_at example_code (lines example_code bt sw ot b) (bcpu b) (209 * n + 181 + (if j then 5 else 0)))"
    "e \<le> 208 \<Longrightarrow> board_run example_code bt sw ot (209 * n + 193 + e) b = Inr b' \<Longrightarrow>
      led_out (bleds b') = ucast (lines example_code bt sw ot b (209 * n + 181))"
    "\<forall>t. \<exists>u. cpu_run False example_code (lines example_code bt sw ot b) t (bcpu b) = Inr u"
proof -
  let ?dout = "lines example_code bt sw ot b"
  have run: "\<forall>n. \<forall>j < 19. \<forall>k < 11. \<exists>u. cpu_run False example_code ?dout (209 * n + 11 * j + k) (bcpu b) = Inr u \<and>
      (k < 5 \<longrightarrow> top_wr (cpu_bus u) = S0) \<and> (5 \<le> k \<longrightarrow> bus_shows (round_accesses (round_byte ?dout n) ! j) (cpu_bus u))"
    using example_on_cpu [OF assms(1), of d ?dout] assms(2) by simp
  show total: "\<forall>t. \<exists>u. cpu_run False example_code ?dout t (bcpu b) = Inr u" by (rule demo_total [OF run])
  show "\<exists>b'. board_run example_code bt sw ot t b = Inr b'" using board_cpu [OF total] by blast
  obtain u v where "cpu_run False example_code ?dout (209 * n + 11 * 16 + 5) (bcpu b) = Inr u"
      "bus_shows (round_accesses (round_byte ?dout n) ! 16) (cpu_bus u)"
    "cpu_run False example_code ?dout (209 * n + 11 * 16 + 10) (bcpu b) = Inr v"
      "bus_shows (round_accesses (round_byte ?dout n) ! 16) (cpu_bus v)"
    using run [rule_format, of 16 5 n] run [rule_format, of 16 10 n] by auto
  moreover have "209 * n + 11 * 16 + 5 = 209 * n + 181" "209 * n + 11 * 16 + 10 = 209 * n + 181 + 5" by simp_all
  ultimately show "bus_shows (Some (Fetches 0x14000002 1)) (bus_at example_code ?dout (bcpu b) (209 * n + 181 + (if j then 5 else 0)))"
    by (simp only: bus_at_def round_accesses_def) simp
  assume "e \<le> 208" "board_run example_code bt sw ot (209 * n + 193 + e) b = Inr b'"
  then show "led_out (bleds b') = ucast (?dout (209 * n + 181))"
    using board_devices(3) [OF total] demo_leds_follow [OF run] by simp
qed

text \<open>What the processor samples in a round was latched before it.\<close>

lemma demo_lines_old:
  assumes "power_on s0" "cpu_edge False example_code S1 d (cpu_reset s0) = Inr (bcpu b)"
  shows "\<exists>u. 209 * n + 186 \<le> u \<and> u < 209 * Suc n + 181 \<and> lines example_code bt sw ot b (209 * Suc n + 181) = ucast (bt u)"
proof -
  note demo = demo_on_board [OF assms, where bt = bt and sw = sw and ot = ot]
  note total = demo(4)
  have at: "209 * Suc n + 181 = Suc (209 * n + 186) + 203" by simp
  obtain p where p: "board_run example_code bt sw ot (209 * Suc n + 181) b = Inr p" using demo(1) by blast
  obtain q where q: "board_run example_code bt sw ot (Suc (209 * Suc n + 181)) b = Inr q" using demo(1) by blast
  have "bus_shows (Some (Fetches 0x14000002 1)) (bus_at example_code (lines example_code bt sw ot b) (bcpu b) (209 * n + 186))"
    using demo(2) [of n True] by (simp add: add.assoc)
  from buttons_since [OF total this p [unfolded at]] obtain u where "209 * n + 186 \<le> u" "u \<le> 209 * n + 186 + 203"
    "bbuttons p = ucast (bt u)" by blast
  moreover have "lines example_code bt sw ot b (209 * Suc n + 181) = bbuttons p"
    by (rule buttons_next(3) [OF total p q]) (use demo(2) [of "Suc n" False] in simp)
  ultimately show ?thesis using at by auto
qed

end
