(* ===== verification/Video.thy ===== *)
theory Video
  imports Sysbus
begin

text \<open>
  The video controller, \<open>vhdl/io/vga_controller.vhdl\<close> with \<open>io/vga/sync.vhdl\<close> and \<open>io/vga/vram.vhdl\<close>: the
  synchronisation of a 640 by 480 picture, the colour of a pixel from a memory of 20 by 15 blocks of 32 by 32
  pixels, and the access to this memory from the bus.
\<close>

section \<open>Synchronisation\<close>

definition h_display :: nat where "h_display = 640"
definition h_front :: nat where "h_front = 20"
definition h_sync :: nat where "h_sync = 96"
definition h_back :: nat where "h_back = 44"
definition h_retrace :: nat where "h_retrace = h_front + h_sync + h_back"
definition h_max :: nat where "h_max = h_retrace + h_display - 1"

definition v_display :: nat where "v_display = 480"
definition v_front :: nat where "v_front = 14"
definition v_sync :: nat where "v_sync = 1"
definition v_back :: nat where "v_back = 30"
definition v_retrace :: nat where "v_retrace = v_front + v_sync + v_back"
definition v_max :: nat where "v_max = v_retrace + v_display - 1"

lemmas timing_defs = h_display_def h_front_def h_sync_def h_back_def h_retrace_def h_max_def
  v_display_def v_front_def v_sync_def v_back_def v_retrace_def v_max_def

record sync_state =
  h_idx :: nat
  v_idx :: nat
  hsync :: ctrl
  vsync :: ctrl
  retracing :: ctrl
  col :: "10 word"
  row :: "9 word"

definition sync_start :: sync_state where
  "sync_start = \<lparr>h_idx = 0, v_idx = 0, hsync = S1, vsync = S1, retracing = S1, col = - 1, row = - 1\<rparr>"

definition in_retrace :: "nat \<Rightarrow> nat \<Rightarrow> bool" where
  "in_retrace h v \<longleftrightarrow> h < h_back - 1 \<or> h > h_display + h_back - 2 \<or> v < v_back \<or> v > v_display + v_back - 1"

text \<open>A later assignment to a signal in one run of the process replaces an earlier one.\<close>

definition sync_edge :: "ctrl \<Rightarrow> sync_state \<Rightarrow> sync_state" where
  "sync_edge en s =
    (if en \<noteq> S1 then s else
     let s1 = (if h_idx s \<ge> h_max - h_sync then s\<lparr>hsync := S0\<rparr> else s);
         s2 = (if v_idx s \<ge> v_max - v_sync then s1\<lparr>vsync := S0\<rparr> else s1);
         r = in_retrace (h_idx s) (v_idx s);
         s3 = s2\<lparr>retracing := high_if r\<rparr>;
         s4 = (if \<not> r then s3\<lparr>row := word_of_int (int (v_idx s) - int v_back),
                              col := word_of_int (int (h_idx s) - int h_back + 1)\<rparr> else s3)
     in if h_idx s = h_max then
          let s5 = s4\<lparr>h_idx := 0, hsync := S1\<rparr> in
          if v_idx s = v_max then s5\<lparr>v_idx := 0, vsync := S1\<rparr> else s5\<lparr>v_idx := v_idx s + 1\<rparr>
        else s4\<lparr>h_idx := h_idx s + 1\<rparr>)"

text \<open>The controller ties \<open>en\<close> to 1: the state after \<open>n\<close> edges of the pixel clock.\<close>

fun sync_run :: "nat \<Rightarrow> sync_state" where
  "sync_run 0 = sync_start"
| "sync_run (Suc n) = sync_edge S1 (sync_run n)"

section \<open>Colours\<close>

record rgb =
  red :: "4 word"
  green :: "4 word"
  blue :: "4 word"

definition BLACK :: rgb where "BLACK = \<lparr>red = 0b0000, green = 0b0000, blue = 0b0000\<rparr>"
definition WHITE :: rgb where "WHITE = \<lparr>red = 0b1111, green = 0b1111, blue = 0b1111\<rparr>"

definition PIXEL_SIZE :: nat where "PIXEL_SIZE = 32"
definition MEM_SIZE :: nat where "MEM_SIZE = 300"
definition x_pixels :: nat where "x_pixels = h_display div PIXEL_SIZE"

text \<open>The colour of a byte of the memory: three bits of red and of green, two of blue.\<close>

definition byte_color :: "u8 \<Rightarrow> rgb" where
  "byte_color m = \<lparr>red = word_cat (ucast (drop_bit 5 m) :: 3 word) (0 :: 1 word),
     green = word_cat (ucast (drop_bit 2 m) :: 3 word) (0 :: 1 word),
     blue = word_cat (ucast m :: 2 word) (0 :: 2 word)\<rparr>"

definition vram_color :: "10 word \<Rightarrow> 9 word \<Rightarrow> ctrl \<Rightarrow> u8 list \<Rightarrow> rgb result" where
  "vram_color x y retrace mem =
    (if retrace = S1 then Inr BLACK
     else let x_int = vtou (drop_bit 5 x); y_int = vtou (drop_bit 5 y); offset = x_int + y_int * x_pixels in
       if offset < length mem then
         Inr (if x = 0b0000000000 \<or> y = 0b000000000 \<or> x = 0b1001111111 \<or> y = 0b111011111 then WHITE
              else byte_color (mem ! offset))
       else Inl Out_of_bounds)"

section \<open>Access from the bus\<close>

text \<open>
  \<open>v_addr\<close> and \<open>v_din\<close> are assigned under a condition and keep their values otherwise. The memory is read at
  every edge of the bus clock, at an index that is not bounded.
\<close>

record vga =
  bus_access_vram :: ctrl
  v_addr :: u32
  v_din :: u32
  mode_idx :: "2 word"
  vga_data :: u32
  vram_dout :: u32
  vmem :: "u8 list"

definition mmap_vram :: nat where "mmap_vram = 7"
definition mmap_videocfg :: nat where "mmap_videocfg = 8"

definition vga_en :: "12 word \<Rightarrow> bool" where
  "vga_en cs \<longleftrightarrow> bit cs mmap_vram \<or> bit cs mmap_videocfg"

definition vram_index :: "u32 \<Rightarrow> nat" where
  "vram_index bus_addr = vtou (bus_addr AND NOT (mb_base (mmap ! mmap_vram)))"

definition vram_edge :: "u32 \<Rightarrow> u32 \<Rightarrow> ctrl \<Rightarrow> vga \<Rightarrow> vga result" where
  "vram_edge bus_addr bus_din bus_wr s = (let i = vram_index bus_addr in
     if i < length (vmem s) then
       Inr (s\<lparr>vmem := (if bus_wr = S1 then (vmem s)[i := ucast bus_din] else vmem s),
              vram_dout := word_cat (ucast (drop_bit 8 (vram_dout s)) :: 24 word) (vmem s ! i)\<rparr>)
     else Inl Out_of_bounds)"

definition vga_latch :: "u32 \<Rightarrow> u32 \<Rightarrow> vga \<Rightarrow> vga" where
  "vga_latch addr din s = (if bus_access_vram s = S1 then s\<lparr>v_addr := addr, v_din := din\<rparr> else s)"

text \<open>The process of the controller, which sees \<open>mode_idx\<close> and \<open>bus_access_vram\<close> as they were before the edge.\<close>

definition vga_process :: "bool \<Rightarrow> u32 \<Rightarrow> u32 \<Rightarrow> width \<Rightarrow> ctrl \<Rightarrow> vga \<Rightarrow> vga" where
  "vga_process en addr din sz wr s =
    (if en \<and> sz \<noteq> 0 then
       if drop_bit 24 addr = 0x14 then
         let s1 = s\<lparr>bus_access_vram := S0\<rparr> in
         if (ucast addr :: 4 word) = 0 then
           if wr = S1 then s1\<lparr>mode_idx := ucast din\<rparr> else s1\<lparr>vga_data := ucast (mode_idx s)\<rparr>
         else s1
       else if drop_bit 24 addr = 0x10 then s\<lparr>bus_access_vram := S1\<rparr>
       else s
     else s)"

definition mmio_vga_edge :: "bool \<Rightarrow> u32 \<Rightarrow> u32 \<Rightarrow> width \<Rightarrow> ctrl \<Rightarrow> vga \<Rightarrow> vga result" where
  "mmio_vga_edge en addr din sz wr s =
    (let s1 = vga_latch addr din s;
         bus_writing_vram = std_and (std_and wr (bus_access_vram s1)) (high_if en)
     in rbind (vram_edge (v_addr s1) (v_din s1) bus_writing_vram s1) (\<lambda>s2. Inr (vga_process en addr din sz wr s2)))"

definition vga_out :: "bool \<Rightarrow> ctrl \<Rightarrow> vga \<Rightarrow> u32 option" where
  "vga_out en wr s =
    (if en \<and> wr = S0 \<and> bus_access_vram s = S0 then Some (vga_data s)
     else if en \<and> wr = S0 \<and> bus_access_vram s = S1 then Some (vram_dout s)
     else None)"

section \<open>The picture\<close>

text \<open>A line takes 800 clocks, a picture 525 lines.\<close>

lemma sync_counters: "h_idx (sync_run n) = n mod 800" "v_idx (sync_run n) = n div 800 mod 525"
proof (induction n)
  case (Suc n)
  { case 1 show ?case using Suc by (simp add: sync_edge_def Let_def timing_defs mod_Suc) }
  { case 2 show ?case using Suc by (simp add: sync_edge_def Let_def timing_defs mod_Suc div_Suc) }
qed (simp_all add: sync_start_def)

lemma retrace_range: "in_retrace h v \<longleftrightarrow> \<not> (43 \<le> h \<and> h \<le> 682 \<and> 30 \<le> v \<and> v \<le> 509)"
  by (auto simp: in_retrace_def timing_defs)

lemma sync_retracing: "retracing (sync_run (Suc n)) = high_if (in_retrace (n mod 800) (n div 800 mod 525))"
  by (simp add: sync_edge_def Let_def sync_counters)

lemma sync_position:
  assumes "\<not> in_retrace (n mod 800) (n div 800 mod 525)"
  shows "col (sync_run (Suc n)) = word_of_nat (n mod 800 - 43)" "row (sync_run (Suc n)) = word_of_nat (n div 800 mod 525 - 30)"
proof -
  have r: "43 \<le> n mod 800" "30 \<le> n div 800 mod 525" using assms by (simp_all add: retrace_range)
  then have i: "int (n mod 800) - int h_back + 1 = int (n mod 800 - 43)" "int (n div 800 mod 525) - int v_back = int (n div 800 mod 525 - 30)"
    by (simp_all add: timing_defs of_nat_diff)
  have "col (sync_run (Suc n)) = word_of_int (int (n mod 800) - int h_back + 1)"
    "row (sync_run (Suc n)) = word_of_int (int (n div 800 mod 525) - int v_back)"
    using assms by (simp_all add: sync_edge_def Let_def sync_counters)
  then show "col (sync_run (Suc n)) = word_of_nat (n mod 800 - 43)" "row (sync_run (Suc n)) = word_of_nat (n div 800 mod 525 - 30)"
    unfolding i by simp_all
qed

lemma hsync_step:
  "hsync (sync_run (Suc n)) =
    (if n mod 800 = 799 then S1 else if 703 \<le> n mod 800 then S0 else hsync (sync_run n))"
  by (simp add: sync_edge_def Let_def sync_counters timing_defs)

lemma hsync_high: "n mod 800 < 703 \<Longrightarrow> hsync (sync_run (Suc n)) = S1"
proof (induction n)
  case 0
  show ?case by (simp add: sync_edge_def Let_def sync_start_def timing_defs)
next
  case (Suc n)
  then have "n mod 800 = 799 \<or> n mod 800 < 703" by (auto simp: mod_Suc split: if_splits)
  then have "hsync (sync_run (Suc n)) = S1" using Suc.IH by (auto simp: hsync_step simp del: sync_run.simps)
  then show ?case using Suc.prems by (simp only: hsync_step [of "Suc n"]) simp
qed

lemma sync_hsync: "hsync (sync_run (Suc n)) = low_if (703 \<le> n mod 800 \<and> n mod 800 < 799)"
proof -
  have "n mod 800 < 800" by simp
  then consider "n mod 800 < 703" | "703 \<le> n mod 800" "n mod 800 < 799" | "n mod 800 = 799" by linarith
  then show ?thesis by cases (use hsync_high [of n] in \<open>simp_all add: hsync_step low_if_def del: sync_run.simps\<close>)
qed

lemma vsync_step:
  "vsync (sync_run (Suc n)) =
    (if n mod 800 = 799 \<and> n div 800 mod 525 = 524 then S1 else if 523 \<le> n div 800 mod 525 then S0 else vsync (sync_run n))"
  by (simp add: sync_edge_def Let_def sync_counters timing_defs)

lemma vsync_high: "n div 800 mod 525 < 523 \<Longrightarrow> vsync (sync_run (Suc n)) = S1"
proof (induction n)
  case 0
  show ?case by (simp add: sync_edge_def Let_def sync_start_def timing_defs)
next
  case (Suc n)
  then have "n mod 800 = 799 \<and> n div 800 mod 525 = 524 \<or> n div 800 mod 525 < 523"
    by (auto simp: mod_Suc div_Suc split: if_splits)
  then have "vsync (sync_run (Suc n)) = S1" using Suc.IH by (auto simp: vsync_step simp del: sync_run.simps)
  then show ?case using Suc.prems by (simp only: vsync_step [of "Suc n"]) simp
qed

lemma sync_vsync:
  "vsync (sync_run (Suc n)) = low_if (523 \<le> n div 800 mod 525 \<and> \<not> (n mod 800 = 799 \<and> n div 800 mod 525 = 524))"
proof (cases "n div 800 mod 525 < 523")
  case True
  then show ?thesis using vsync_high [of n] by (simp add: low_if_def del: sync_run.simps)
next
  case False
  then show ?thesis by (simp add: vsync_step low_if_def del: sync_run.simps)
qed

text \<open>What the picture shows at a pixel.\<close>

definition pixel_at :: "u8 list \<Rightarrow> nat \<Rightarrow> nat \<Rightarrow> rgb" where
  "pixel_at mem x y = (if x = 0 \<or> y = 0 \<or> x = 639 \<or> y = 479 then WHITE else byte_color (mem ! (x div 32 + 20 * (y div 32))))"

definition screen :: "u8 list \<Rightarrow> sync_state \<Rightarrow> ctrl \<times> ctrl \<times> rgb result" where
  "screen mem s = (hsync s, vsync s, vram_color (col s) (row s) (retracing s) mem)"

lemma vram_pixel:
  assumes "length mem = 300" "x < 640" "y < 480"
  shows "vram_color (word_of_nat x) (word_of_nat y) S0 mem = Inr (pixel_at mem x y)"
proof -
  have u: "unat (word_of_nat x :: 10 word) = x" "unat (word_of_nat y :: 9 word) = y"
    using assms(2,3) by (simp_all add: unat_of_nat_small)
  have d: "vtou (drop_bit 5 (word_of_nat x :: 10 word)) = x div 32" "vtou (drop_bit 5 (word_of_nat y :: 9 word)) = y div 32"
    unfolding vtou_def unsigned_drop_bit_eq u using assms(2,3) by (simp_all add: drop_bit_nat_def take_bit_nat_eq_self)
  have c: "(word_of_nat x :: 10 word) = 0b0000000000 \<longleftrightarrow> x = 0" "(word_of_nat x :: 10 word) = 0b1001111111 \<longleftrightarrow> x = 639"
    "(word_of_nat y :: 9 word) = 0b000000000 \<longleftrightarrow> y = 0" "(word_of_nat y :: 9 word) = 0b111011111 \<longleftrightarrow> y = 479"
    using u by (simp_all add: word_eq_iff_unsigned [where ?'a = nat] word_unat_eq_iff)
  have "x div 32 \<le> 19" "y div 32 \<le> 14" using assms(2,3) by linarith+
  then have "x div 32 + y div 32 * 20 < 300" by linarith
  then show ?thesis unfolding vram_color_def c d Let_def
    using assms(1) by (simp add: pixel_at_def x_pixels_def h_display_def PIXEL_SIZE_def mult.commute)
qed

lemma screen_clock:
  assumes "length mem = 300"
  shows "screen mem (sync_run (Suc n)) = (let x = n mod 800; y = n div 800 mod 525 in
    (low_if (703 \<le> x \<and> x < 799), low_if (523 \<le> y \<and> \<not> (x = 799 \<and> y = 524)),
     Inr (if 43 \<le> x \<and> x \<le> 682 \<and> 30 \<le> y \<and> y \<le> 509 then pixel_at mem (x - 43) (y - 30) else BLACK)))"
proof (cases "in_retrace (n mod 800) (n div 800 mod 525)")
  case True
  then show ?thesis
    by (auto simp: screen_def Let_def sync_hsync sync_vsync sync_retracing vram_color_def retrace_range simp del: sync_run.simps)
next
  case False
  then have "43 \<le> n mod 800" "n mod 800 - 43 < 640" "30 \<le> n div 800 mod 525" "n div 800 mod 525 - 30 < 480"
    by (auto simp: retrace_range)
  then show ?thesis using False assms vram_pixel [of mem "n mod 800 - 43" "n div 800 mod 525 - 30"]
    by (auto simp: screen_def Let_def sync_hsync sync_vsync sync_retracing sync_position retrace_range simp del: sync_run.simps)
qed

section \<open>The memory on the bus\<close>

lemma vga_process_keeps [simp]:
  "vmem (vga_process en addr din sz wr s) = vmem s" "v_addr (vga_process en addr din sz wr s) = v_addr s"
  "vram_dout (vga_process en addr din sz wr s) = vram_dout s"
  by (simp_all add: vga_process_def Let_def)

lemma mmio_vga_ok:
  "mmio_vga_edge en addr din sz wr s = Inr s' \<longleftrightarrow>
    vram_index (v_addr (vga_latch addr din s)) < length (vmem s) \<and>
    (\<exists>s2. vram_edge (v_addr (vga_latch addr din s)) (v_din (vga_latch addr din s))
       (std_and (std_and wr (bus_access_vram s)) (high_if en)) (vga_latch addr din s) = Inr s2 \<and>
     s' = vga_process en addr din sz wr s2)"
  by (auto simp: mmio_vga_edge_def Let_def vram_edge_def vga_latch_def)

lemma vga_length: "mmio_vga_edge en addr din sz wr s = Inr s' \<Longrightarrow> length (vmem s') = length (vmem s)"
  by (auto simp: mmio_vga_edge_def Let_def vram_edge_def vga_latch_def split: if_split_asm)

text \<open>The only error is the index.\<close>

lemma vga_error: "mmio_vga_edge en addr din sz wr s = Inl e \<Longrightarrow> e = Out_of_bounds"
  by (auto simp: mmio_vga_edge_def Let_def vram_edge_def split: if_split_asm)

lemma vga_opens:
  assumes "mmio_vga_edge True addr din sz wr s = Inr s'" "sz \<noteq> 0" "drop_bit 24 addr = 0x10"
  shows "bus_access_vram s' = S1"
  using assms by (auto simp: mmio_vga_edge_def Let_def vram_edge_def vga_process_def vga_latch_def split: if_split_asm)

text \<open>An address with the upper byte \<open>0x14\<close> indexes far outside of the memory.\<close>

lemma io_index:
  assumes "drop_bit 24 addr = (0x14 :: u32)"
  shows "0x04000000 \<le> vram_index addr"
proof -
  have "bit (drop_bit 24 addr) 2" unfolding assms by (simp add: bit_numeral_rec)
  then have "bit addr 26" by (simp add: bit_simps)
  then have "bit (addr AND NOT 0x10000000) 26" by (simp add: bit_simps bit_numeral_rec)
  then have "bit (unat (addr AND NOT 0x10000000)) 26" by (simp add: bit_simps)
  then have "\<not> unat (addr AND NOT (0x10000000 :: u32)) < 2 ^ 26" by (auto simp: bit_iff_odd)
  then show ?thesis by (simp add: vram_index_def vtou_def mmap_def mmap_vram_def)
qed

lemma vga_io_faults:
  assumes "bus_access_vram s = S1" "drop_bit 24 addr = 0x14" "length (vmem s) \<le> 0x04000000"
  shows "mmio_vga_edge en addr din sz wr s = Inl Out_of_bounds"
  using io_index [OF assms(2)] assms(1,3) by (simp add: mmio_vga_edge_def Let_def vram_edge_def vga_latch_def)

text \<open>Once the memory was accessed, the access is never given up.\<close>

lemma vga_stays:
  assumes "mmio_vga_edge en addr din sz wr s = Inr s'" "bus_access_vram s = S1" "length (vmem s) \<le> 0x04000000"
  shows "bus_access_vram s' = S1"
proof -
  have "drop_bit 24 addr \<noteq> 0x14" using vga_io_faults [OF assms(2) _ assms(3)] assms(1) by auto
  then show ?thesis using assms(1,2)
    by (auto simp: mmio_vga_edge_def Let_def vram_edge_def vga_process_def vga_latch_def split: if_split_asm)
qed

lemma vram_index_base: "i < 300 \<Longrightarrow> vram_index (0x10000000 + of_nat i) = i"
proof -
  assume i: "i < 300"
  have "(0x10000000 :: u32) = push_bit 28 1" by (simp add: push_bit_eq_mult)
  then have base: "bit (0x10000000 :: u32) n \<Longrightarrow> n = 28" for n by (simp only: bit_push_bit_iff bit_1_iff) simp
  have high: "\<not> bit (of_nat i :: u32) 28"
  proof -
    have "\<not> bit i 28" using i by (simp add: bit_iff_odd)
    then show ?thesis by (simp add: bit_simps)
  qed
  have "0x10000000 + of_nat i = (0x10000000 :: u32) OR of_nat i"
    using base high by (intro disjunctive_add) blast
  moreover have "((0x10000000 :: u32) OR of_nat i) AND NOT 0x10000000 = of_nat i"
    using base high by (intro bit_word_eqI) (auto simp only: bit_and_iff bit_or_iff bit_not_iff possible_bit_word)
  ultimately show ?thesis using i by (simp add: vram_index_def vtou_def mmap_def mmap_vram_def unat_of_nat_small)
qed

lemma vram_upper: "i < 300 \<Longrightarrow> drop_bit 24 (0x10000000 + of_nat i :: u32) = 0x10"
proof -
  assume i: "i < 300"
  then have "unat (0x10000000 + of_nat i :: u32) = 0x10000000 + i"
    by (subst unat_plus_simple [THEN iffD1]) (simp_all add: word_le_nat_alt unat_of_nat_small unat_word_ariths)
  then have "unat (drop_bit 24 (0x10000000 + of_nat i :: u32)) = (0x10000000 + i) div 2 ^ 24"
    using i unfolding unsigned_drop_bit_eq by (simp add: drop_bit_nat_def take_bit_nat_eq_self)
  also have "(0x10000000 + i) div 2 ^ 24 = 16" using i by (intro div_nat_eqI) simp_all
  finally show ?thesis by (simp add: word_unat_eq_iff)
qed

text \<open>A store held over two edges reaches the memory, and a read held over two edges gets the byte.\<close>

lemma vga_store:
  assumes "i < length (vmem s)" "length (vmem s) \<le> 300" "sz \<noteq> 0"
    and s: "mmio_vga_edge True (0x10000000 + of_nat i) din sz S1 s = Inr s'"
  shows "\<exists>s''. mmio_vga_edge True (0x10000000 + of_nat i) din sz S1 s' = Inr s'' \<and> bus_access_vram s'' = S1 \<and>
    vmem s'' = (vmem s')[i := ucast din]"
proof -
  have i: "vram_index (0x10000000 + of_nat i) = i" using vram_index_base [of i] assms(1,2) by simp
  have top: "drop_bit 24 (0x10000000 + of_nat i :: u32) = 0x10" by (rule vram_upper) (use assms(1,2) in simp)
  have "bus_access_vram s' = S1" by (rule vga_opens [OF s assms(3) top])
  then show ?thesis using i top assms(1-3) vga_length [OF s]
    by (simp add: mmio_vga_edge_def Let_def vram_edge_def vga_latch_def vga_process_def std_and_def is_zero_def is_one_def)
qed

end
