(* ===== verification/Board_Video.thy ===== *)
theory Board_Video
  imports Cpu_Leds Video
begin

text \<open>
  The demonstration program with the video controller on its bus: it paints five blocks, and the next
  instruction puts an address on the bus that the controller uses as an index outside of its memory.
\<close>

fun vga_at :: "(nat \<Rightarrow> bus_out) \<Rightarrow> 12 word \<Rightarrow> vga \<Rightarrow> nat \<Rightarrow> vga result" where
  "vga_at bus cs v 0 = Inr v"
| "vga_at bus cs v (Suc t) = rbind (vga_at bus cs v t)
    (mmio_vga_edge (vga_en (cs_at bus cs t)) (top_addr (bus t)) (top_din (bus t)) (top_size (bus t)) (top_wr (bus t)))"

section \<open>The controller on a bus\<close>

text \<open>While the addresses stay inside, it goes on.\<close>

definition vga_fine :: "vga \<Rightarrow> bool" where
  "vga_fine v \<longleftrightarrow> length (vmem v) = 300 \<and> vram_index (v_addr v) < 300 \<and> bus_access_vram v \<in> {S0, S1}"

lemma vga_process_access: "bus_access_vram (vga_process en addr din sz wr s) \<in> {S0, S1, bus_access_vram s}"
  by (simp add: vga_process_def Let_def)

lemma vga_edge_fine:
  assumes "vga_fine v" "vram_index addr < 300" "wr \<in> {S0, S1}"
  shows "\<exists>v'. mmio_vga_edge en addr din sz wr v = Inr v' \<and> vga_fine v' \<and>
    vmem v' = (if bus_access_vram v = S1 \<and> wr = S1 \<and> en then (vmem v)[vram_index addr := ucast din] else vmem v) \<and>
    (en \<and> sz \<noteq> 0 \<and> drop_bit 24 addr = 0x10 \<longrightarrow> bus_access_vram v' = S1)"
proof -
  let ?w = "vga_latch addr din v"
  have w: "length (vmem ?w) = 300" "vmem ?w = vmem v" "vram_index (v_addr ?w) < 300" "bus_access_vram ?w = bus_access_vram v"
    "bus_access_vram v = S1 \<Longrightarrow> v_addr ?w = addr \<and> v_din ?w = din"
    using assms(1,2) by (simp_all add: vga_fine_def vga_latch_def)
  have and_one: "std_and (std_and wr (bus_access_vram v)) (high_if en) = S1 \<longleftrightarrow> bus_access_vram v = S1 \<and> wr = S1 \<and> en"
    using assms(1,3) by (auto simp: vga_fine_def std_and_def is_zero_def is_one_def high_if_def)
  obtain v2 where v2: "vram_edge (v_addr ?w) (v_din ?w) (std_and (std_and wr (bus_access_vram v)) (high_if en)) ?w = Inr v2"
    "vmem v2 = (if bus_access_vram v = S1 \<and> wr = S1 \<and> en then (vmem v)[vram_index addr := ucast din] else vmem v)"
    "v_addr v2 = v_addr ?w" "bus_access_vram v2 = bus_access_vram v"
    using w by (auto simp: vram_edge_def Let_def and_one)
  moreover have "bus_access_vram (vga_process en addr din sz wr v2) \<in> {S0, S1}"
    using vga_process_access [of en addr din sz wr v2] v2(4) assms(1) by (auto simp: vga_fine_def)
  moreover have "en \<and> sz \<noteq> 0 \<and> drop_bit 24 addr = 0x10 \<longrightarrow> bus_access_vram (vga_process en addr din sz wr v2) = S1"
    by (simp add: vga_process_def Let_def)
  ultimately show ?thesis using w by (auto simp: mmio_vga_edge_def Let_def vga_fine_def)
qed

text \<open>The bus carries no write: the memory stays. It carries a store to the memory, over several edges: it is done.\<close>

lemma vga_idle:
  assumes "vga_at bus cs v0 t = Inr v" "vga_fine v"
    and "\<forall>k < n. vram_index (top_addr (bus (t + k))) < 300 \<and> top_wr (bus (t + k)) = S0"
  shows "\<exists>v'. vga_at bus cs v0 (t + n) = Inr v' \<and> vga_fine v' \<and> vmem v' = vmem v \<and>
    (bus_access_vram v = S1 \<longrightarrow> bus_access_vram v' = S1)"
  using assms(3)
proof (induction n)
  case 0
  then show ?case using assms(1,2) by simp
next
  case (Suc n)
  then obtain v' where v': "vga_at bus cs v0 (t + n) = Inr v'" "vga_fine v'" "vmem v' = vmem v"
    "bus_access_vram v = S1 \<longrightarrow> bus_access_vram v' = S1" by auto
  have wr: "top_wr (bus (t + n)) = S0" "vram_index (top_addr (bus (t + n))) < 300" using Suc.prems by simp_all
  obtain v'' where "mmio_vga_edge (vga_en (cs_at bus cs (t + n))) (top_addr (bus (t + n))) (top_din (bus (t + n)))
      (top_size (bus (t + n))) (top_wr (bus (t + n))) v' = Inr v''" "vga_fine v''" "vmem v'' = vmem v'"
    using vga_edge_fine [OF v'(2) wr(2), of "top_wr (bus (t + n))" "vga_en (cs_at bus cs (t + n))" "top_din (bus (t + n))" "top_size (bus (t + n))"]
      wr(1) by auto
  then show ?case using v' vga_stays [of _ _ _ _ _ v' v''] by (auto simp: vga_fine_def)
qed

lemma vga_stored:
  assumes "vga_at bus cs v0 t = Inr v" "vga_fine v" "i < 300"
    and "\<forall>k < Suc (Suc n). bus_shows (Some (Stores (0x10000000 + of_nat i) 1 w)) (bus (t + k))"
  shows "\<exists>v'. vga_at bus cs v0 (t + Suc (Suc n)) = Inr v' \<and> vga_fine v' \<and> vmem v' = (vmem v)[i := ucast w] \<and>
    bus_access_vram v' = S1"
proof -
  have i: "vram_index (0x10000000 + of_nat i) = i" "drop_bit 24 (0x10000000 + of_nat i :: u32) = 0x10"
    using vram_index_base vram_upper assms(3) by simp_all
  have en: "vga_en (cs_at bus cs (t + k))" if "k < Suc (Suc n)" for k
  proof -
    have "in_block 7 (top_addr (bus (t + k)))" using assms(3,4) that
      by (simp add: in_block_range block_range_def unat_word_ariths unat_of_nat_small)
    then show ?thesis using cs_selected [of 7 bus "t + k" cs] by (simp add: vga_en_def mmap_vram_def bit_exp_iff)
  qed
  have edge: "\<exists>v'. vga_at bus cs v0 (Suc (t + k)) = Inr v' \<and> vga_fine v' \<and> bus_access_vram v' = S1 \<and>
      vmem v' = (if bus_access_vram u = S1 then (vmem u)[i := ucast w] else vmem u)"
    if "k < Suc (Suc n)" "vga_at bus cs v0 (t + k) = Inr u" "vga_fine u" for k u
    using vga_edge_fine [of u "0x10000000 + of_nat i" S1 "vga_en (cs_at bus cs (t + k))" w "WIDTH_BYTE"] that en [OF that(1)] i assms(3,4)
    by (fastforce simp: width_of_def width_defs)
  have "\<exists>v'. vga_at bus cs v0 (t + Suc k) = Inr v' \<and> vga_fine v' \<and> bus_access_vram v' = S1 \<and>
      vmem v' \<in> {vmem v, (vmem v)[i := ucast w]} \<and> (0 < k \<longrightarrow> vmem v' = (vmem v)[i := ucast w])" if "k < Suc (Suc n)" for k
    using that
  proof (induction k)
    case 0
    then show ?case using edge [of 0 v] assms(1,2) by auto
  next
    case (Suc k)
    then obtain u where "vga_at bus cs v0 (t + Suc k) = Inr u" "vga_fine u" "bus_access_vram u = S1"
      "vmem u \<in> {vmem v, (vmem v)[i := ucast w]}" by auto
    then show ?case using edge [of "Suc k" u] Suc.prems by (auto simp del: vga_at.simps)
  qed
  from this [of "Suc n"] show ?thesis by (auto simp del: vga_at.simps)
qed

section \<open>The address lines of the program\<close>

text \<open>What the unit computes for the words of the program that access nothing.\<close>

lemmas fields = f_op_def f_rs_def f_rt_def f_rd_def f_shamt_def f_func_def f_imm_def f_jump_def sign_extend_scast

definition word_result :: "u32 \<Rightarrow> u32 \<Rightarrow> dec_out \<Rightarrow> (reg \<Rightarrow> u32) \<Rightarrow> alu_state \<Rightarrow> u32" where
  "word_result w p d0 g a0 = result (computed (decoded w p d0) g a0)"

lemma results:
  assumes "g 0 = 0"
  shows "word_result 0x00000000 p d0 g a0 = 0" "word_result 0x3c1c1000 p d0 g a0 = 0x10000000"
    "word_result 0x2402001f p d0 g a0 = 31" "word_result 0x24020003 p d0 g a0 = 3" "word_result 0x240200ff p d0 g a0 = 255"
    "word_result 0x2402001c p d0 g a0 = 28" "word_result 0x240200e0 p d0 g a0 = 224" "word_result 0x3c011400 p d0 g a0 = 0x14000000"
proof -
  have "(288 :: reg) = 0" by simp
  then have "g 288 = 0" using assms by (simp only:)
  then show
    "word_result 0x00000000 p d0 g a0 = 0" "word_result 0x3c1c1000 p d0 g a0 = 0x10000000"
    "word_result 0x2402001f p d0 g a0 = 31" "word_result 0x24020003 p d0 g a0 = 3" "word_result 0x240200ff p d0 g a0 = 255"
    "word_result 0x2402001c p d0 g a0 = 28" "word_result 0x240200e0 p d0 g a0 = 224" "word_result 0x3c011400 p d0 g a0 = 0x14000000"
    using assms by (simp_all add: word_result_def decoding stages fields slv_sll_def half_def upper_half push_bit_eq_mult)
qed

lemma example_start:
  assumes "j < 14"
  shows "\<exists>g. isa_run example_code d j boot_state = Some \<lparr>gpr = g, ipc = of_nat (4 * j)\<rparr> \<and> g 0 = 0"
proof -
  have "j \<in> set [0..<14]" using assms by simp
  also have "[0..<14] = [0, 1, 2, 3, 4, 5, 6, 7, 8, 9, 10, 11, 12, 13]" by (simp add: upt_rec)
  finally show ?thesis
    by (auto simp: isa_run_numeral example_steps boot_state_def BOOT_ADDR_def)
qed

lemma demo_result:
  assumes "power_on s0" "cpu_edge False example_code S1 d (cpu_reset s0) = Inr s" "j < 14" "k < 11"
  shows "\<exists>u p d0 g a0. cpu_run False example_code dout (11 * j + k) s = Inr u \<and> g 0 = 0 \<and>
    (k < 5 \<longrightarrow> top_addr (cpu_bus u) = im_addr (fetch s) \<and> top_wr (cpu_bus u) = S0) \<and>
    (5 \<le> k \<longrightarrow> top_addr (cpu_bus u) = word_result (example_code ! j) p d0 g a0)"
proof -
  have len: "length example_code = 20" by (simp add: example_code_def)
  have f0: "fetch_ok False example_code BOOT_ADDR" by (simp add: fetch_ok_def BOOT_ADDR_def vtou_def len)
  have s: "represents s boot_state" "read_addr (fetch s) = BOOT_ADDR" using boot [OF assms(1) f0, of d] assms(2) by auto
  obtain g where g: "isa_run example_code (\<lambda>k. dout (11 * k + 5)) j boot_state = Some \<lparr>gpr = g, ipc = of_nat (4 * j)\<rparr>" "g 0 = 0"
    using example_start [OF assms(3)] by blast
  from program_run [OF s(1) _ g(1)] s(2) f0 obtain sj where
    sj: "cpu_run False example_code dout (11 * j) s = Inr sj" "represents sj \<lparr>gpr = g, ipc = of_nat (4 * j)\<rparr>"
      "fetch_ok False example_code (read_addr (fetch sj))" by auto
  have u: "unat (of_nat (4 * j) :: u32) = 4 * j" using assms(3) unat_of_nat_small [where ?'a = 32, of "4 * j"] by simp
  have ix: "vtou (drop_bit 2 (of_nat (4 * j) :: u32)) = j"
    unfolding vtou_def unsigned_drop_bit_eq u using assms(3) by (simp add: drop_bit_nat_def take_bit_nat_eq_self)
  have r: "ready sj" "new_pc sj = of_nat (4 * j)" "rf sj = g" using sj(2) by (simp_all add: represents_def)
  have fj: "fetch_ok False example_code (new_pc sj)" using r(2) ix assms(3) len by (simp add: fetch_ok_def)
  let ?w = "example_code ! j" and ?dj = "\<lambda>t. dout (11 * j + t)"
  have w: "?w = word_of False example_code ?dj sj" using r(2) ix by (simp add: word_of_def fetch_word_def)
  obtain t where t: "cpu_run False example_code ?dj k sj = Inr t" "k < 5 \<longrightarrow> selMEM t = S0 \<and> top_wr (cpu_bus t) = S0"
    "5 \<le> k \<longrightarrow> cpu_bus t = MemoryAccess (id_of ?w sj) (result (alu_of ?w sj)) (rf sj (readreg2 (id_of ?w sj)))"
    using instruction [OF r(1) sj(3) fj w] assms(4) by blast
  have run: "cpu_run False example_code dout (11 * j + k) s = Inr t" using t(1) sj(1) by (simp add: cpu_run_add)
  have "k < 5 \<Longrightarrow> top_addr (cpu_bus t) = im_addr (fetch s)"
    using t(2) im_addr_run [OF run] by (simp add: cpu_bus_def Let_def MUX_def)
  moreover have "5 \<le> k \<Longrightarrow> top_addr (cpu_bus t) =
      word_result ?w (new_pc sj) (maindec (instr (ifr sj)) (dec sj)) g (alus sj)"
    using t(3) r(3) by (simp add: MemoryAccess_def word_result_def alu_of_def id_of_def)
  ultimately show ?thesis using run t(2) g(2) by blast
qed

section \<open>The program and the controller\<close>

definition demo_picture :: "u8 list \<Rightarrow> u8 list" where
  "demo_picture m = m[0 := 31, 19 := 3, 150 := 255, 280 := 28, 299 := 224]"

lemma indices:
  "vram_index 0 = 0" "vram_index 0x10000000 = 0" "vram_index 31 = 31" "vram_index 3 = 3" "vram_index 255 = 255"
  "vram_index 28 = 28" "vram_index 224 = 224"
  by (simp_all add: vram_index_def vtou_def mmap_def mmap_vram_def)

lemma demo_bus:
  fixes dout :: "nat \<Rightarrow> u32"
  assumes on: "power_on s0" "cpu_edge False example_code S1 d (cpu_reset s0) = Inr s"
    and a: "vram_index (im_addr (fetch s)) < 300" and j: "j < 14"
  defines "bus \<equiv> bus_at example_code dout s"
  shows "k < 5 \<Longrightarrow> vram_index (top_addr (bus (11 * j + k))) < 300 \<and> top_wr (bus (11 * j + k)) = S0"
    "5 \<le> k \<Longrightarrow> k < 11 \<Longrightarrow> j \<in> {0, 1, 2, 4, 6, 8, 10, 12} \<Longrightarrow>
      vram_index (top_addr (bus (11 * j + k))) < 300 \<and> top_wr (bus (11 * j + k)) = S0"
    "5 \<le> k \<Longrightarrow> k < 11 \<Longrightarrow> bus_shows (round_accesses (round_byte dout 0) ! j) (bus (11 * j + k))"
    "bus 148 = cpu_bus (projr (cpu_run False example_code dout 148 s))" "top_addr (bus 148) = 0x14000000"
proof -
  have sh: "bus_shows (round_accesses (round_byte dout 0) ! j) (bus (11 * j + k))" if "5 \<le> k" "k < 11" "j < 14" for j k
  proof -
    from example_on_cpu [OF on(1), of d dout] on(2) have
      "\<forall>n. \<forall>j < 19. \<forall>k < 11. \<exists>t. cpu_run False example_code dout (209 * n + 11 * j + k) s = Inr t \<and>
        (k < 5 \<longrightarrow> top_wr (cpu_bus t) = S0) \<and> (5 \<le> k \<longrightarrow> bus_shows (round_accesses (round_byte dout n) ! j) (cpu_bus t))"
      by simp
    from this [rule_format, of j k 0] that show ?thesis by (auto simp: bus_def bus_at_def)
  qed
  show "5 \<le> k \<Longrightarrow> k < 11 \<Longrightarrow> bus_shows (round_accesses (round_byte dout 0) ! j) (bus (11 * j + k))" using sh j by blast
  show "k < 5 \<Longrightarrow> vram_index (top_addr (bus (11 * j + k))) < 300 \<and> top_wr (bus (11 * j + k)) = S0"
    using demo_result [OF on j, of k dout] a by (auto simp: bus_def bus_at_def)
  show "vram_index (top_addr (bus (11 * j + k))) < 300 \<and> top_wr (bus (11 * j + k)) = S0"
    if k: "5 \<le> k" "k < 11" and q: "j \<in> {0, 1, 2, 4, 6, 8, 10, 12}"
  proof -
    obtain p d0 g a0 where r: "g 0 = 0" "top_addr (bus (11 * j + k)) = word_result (example_code ! j) p d0 g a0"
      using demo_result [OF on j, of k dout] k by (auto simp: bus_def bus_at_def)
    have "vram_index (word_result (example_code ! j) p d0 g a0) < 300"
      using q results [of g p d0 a0, OF r(1)] by (auto simp: example_code_def indices)
    moreover have "top_wr (bus (11 * j + k)) = S0" using sh [OF k j] q by (auto simp: round_accesses_def)
    ultimately show ?thesis using r(2) by simp
  qed
  show "bus 148 = cpu_bus (projr (cpu_run False example_code dout 148 s))" by (simp add: bus_def bus_at_def)
  obtain p d0 g a0 where "g 0 = 0" "top_addr (bus (11 * 13 + 5)) = word_result (example_code ! 13) p d0 g a0"
    using demo_result [OF on, of 13 5 dout] by (auto simp: bus_def bus_at_def)
  then show "top_addr (bus 148) = 0x14000000" using results(8) [of g p d0 a0] by (simp add: example_code_def)
qed

lemma demo_vga:
  fixes dout :: "nat \<Rightarrow> u32"
  assumes on: "power_on s0" "cpu_edge False example_code S1 d (cpu_reset s0) = Inr s"
    and a: "vram_index (im_addr (fetch s)) < 300" and v: "vga_fine v"
  defines "bus \<equiv> bus_at example_code dout s"
  shows "\<exists>v'. vga_at bus cs v 148 = Inr v' \<and> vga_fine v' \<and> vmem v' = demo_picture (vmem v) \<and> bus_access_vram v' = S1"
proof -
  note b = demo_bus [OF on a, where dout = dout, folded bus_def]
  have quiet: "\<exists>u'. vga_at bus cs v (11 * j + 11) = Inr u' \<and> vga_fine u' \<and> vmem u' = vmem u \<and>
      (bus_access_vram u = S1 \<longrightarrow> bus_access_vram u' = S1)"
    if "vga_at bus cs v (11 * j) = Inr u" "vga_fine u" "j \<in> {0, 1, 2, 4, 6, 8, 10, 12}" for j u
  proof (rule vga_idle [OF that(1,2)], intro allI impI)
    fix k :: nat assume "k < 11"
    then show "vram_index (top_addr (bus (11 * j + k))) < 300 \<and> top_wr (bus (11 * j + k)) = S0"
      using b(1,2) [of j k] that(3) by (cases "k < 5") auto
  qed
  have stores: "\<exists>u'. vga_at bus cs v (11 * j + 11) = Inr u' \<and> vga_fine u' \<and> vmem u' = (vmem u)[i := ucast w] \<and> bus_access_vram u' = S1"
    if u: "vga_at bus cs v (11 * j) = Inr u" "vga_fine u" and j: "j < 14" "i < 300"
      "round_accesses (round_byte dout 0) ! j = Some (Stores (0x10000000 + of_nat i) 1 w)" for j u i w
  proof -
    obtain u1 where u1: "vga_at bus cs v (11 * j + 5) = Inr u1" "vga_fine u1" "vmem u1 = vmem u"
      using vga_idle [OF u, of 5] b(1) [OF j(1)] by auto
    have "bus_shows (Some (Stores (0x10000000 + of_nat i) 1 w)) (bus (11 * j + 5 + k))" if "k < Suc (Suc 4)" for k
      using b(3) [OF j(1), of "5 + k"] that j(3) by (simp add: add.assoc)
    then obtain u' where "vga_at bus cs v (11 * j + 5 + Suc (Suc 4)) = Inr u'" "vga_fine u'"
      "vmem u' = (vmem u1)[i := ucast w]" "bus_access_vram u' = S1" using vga_stored [OF u1(1,2) j(2)] by blast
    moreover have "11 * j + 5 + Suc (Suc 4) = 11 * j + 11" by simp
    ultimately show ?thesis using u1(3) by metis
  qed
  have start: "vga_at bus cs v (11 * 0) = Inr v" by simp
  obtain v3 where v3: "vga_at bus cs v (11 * 3) = Inr v3" "vga_fine v3" "vmem v3 = vmem v"
    using quiet [OF start v] quiet [of 1] quiet [of 2] by auto
  obtain v5 where v5: "vga_at bus cs v (11 * 5) = Inr v5" "vga_fine v5" "vmem v5 = (vmem v)[0 := 31]"
    using stores [OF v3(1,2), of 0 31] quiet [of 4] v3(3) by (auto simp: round_accesses_def)
  obtain v7 where v7: "vga_at bus cs v (11 * 7) = Inr v7" "vga_fine v7" "vmem v7 = (vmem v)[0 := 31, 19 := 3]"
    using stores [OF v5(1,2), of 19 3] quiet [of 6] v5(3) by (auto simp: round_accesses_def)
  obtain v9 where v9: "vga_at bus cs v (11 * 9) = Inr v9" "vga_fine v9" "vmem v9 = (vmem v)[0 := 31, 19 := 3, 150 := 255]"
    using stores [OF v7(1,2), of 150 255] quiet [of 8] v7(3) by (auto simp: round_accesses_def)
  obtain v11 where v11: "vga_at bus cs v (11 * 11) = Inr v11" "vga_fine v11"
    "vmem v11 = (vmem v)[0 := 31, 19 := 3, 150 := 255, 280 := 28]"
    using stores [OF v9(1,2), of 280 28] quiet [of 10] v9(3) by (auto simp: round_accesses_def)
  obtain v13 where v13: "vga_at bus cs v (11 * 13) = Inr v13" "vga_fine v13" "vmem v13 = demo_picture (vmem v)"
    "bus_access_vram v13 = S1"
    using stores [OF v11(1,2), of 299 224] quiet [of 12] v11(3) by (auto simp: round_accesses_def demo_picture_def)
  from vga_idle [OF v13(1,2), of 5] b(1) [of 13] v13(3,4) show ?thesis by auto
qed

text \<open>The index of the next access is outside; the error stays.\<close>

lemma vga_at_error: "vga_at bus cs v t = Inl e \<Longrightarrow> vga_at bus cs v (t + n) = Inl e"
  by (induction n) simp_all

lemma demo_fault:
  fixes dout :: "nat \<Rightarrow> u32"
  assumes on: "power_on s0" "cpu_edge False example_code S1 d (cpu_reset s0) = Inr s"
    and a: "vram_index (im_addr (fetch s)) < 300" and v: "vga_fine v" and t: "149 \<le> t"
  shows "vga_at (bus_at example_code dout s) cs v t = Inl Out_of_bounds"
proof -
  let ?bus = "bus_at example_code dout s"
  obtain v' where v': "vga_at ?bus cs v 148 = Inr v'" "vga_fine v'" "bus_access_vram v' = S1"
    using demo_vga [OF on a v, where dout = dout] by blast
  have "drop_bit 24 (top_addr (?bus 148)) = 0x14" using demo_bus(5) [OF on a, of 13 dout] by simp
  then have "vga_at ?bus cs v (Suc 148) = Inl Out_of_bounds"
    using v' vga_io_faults [OF v'(3)] by (simp only: vga_at.simps rbind.simps) (simp add: vga_fine_def)
  then show ?thesis using vga_at_error [of ?bus cs v "Suc 148" _ "t - 149"] t by simp
qed

lemma im_addr_reset: "cpu_edge False code S1 d (cpu_reset s0) = Inr s \<Longrightarrow> im_addr (fetch s) = im_addr (fetch s0)"
  by (auto simp: rbind_Inr_iff cpu_edge_def Let_def InstructionMem_edge_def cpu_reset_def split: if_split_asm)

end
