(* ===== verification/Cpu_Bus.thy ===== *)
theory Cpu_Bus
  imports Cpu_Correct
begin

text \<open>
  The processor with \<open>SINGLE_ADDRESS_SPACE\<close>: instructions come over the bus. The address is registered, and
  so is the word that comes back, so the word executed at a program counter is the one at the
  program counter before. What an instruction that the reference counts as implemented differs in, and
  what a reset in the middle of an instruction leaves behind.
\<close>

section \<open>Instructions over the bus\<close>

text \<open>
  The machine that lags: a pair of the address the next word is asked for and the state it is executed
  in. \<open>w k\<close> is the word that answers the fetch of instruction \<open>k\<close>.
\<close>

definition lagged_next :: "u32 \<Rightarrow> u32 \<Rightarrow> u32 \<times> isa \<Rightarrow> (u32 \<times> isa) option" where
  "lagged_next w d = (\<lambda>(q, st). Option.bind (decode w) (\<lambda>i.
     if implemented i then map_option (\<lambda>st'. (ipc st, st')) (isa_step d i st) else None))"

fun lagged_run :: "(nat \<Rightarrow> u32) \<Rightarrow> (nat \<Rightarrow> u32) \<Rightarrow> nat \<Rightarrow> u32 \<times> isa \<Rightarrow> (u32 \<times> isa) option" where
  "lagged_run w d 0 x = Some x"
| "lagged_run w d (Suc n) x = Option.bind (lagged_run w d n x) (lagged_next (w n) (d n))"

text \<open>The processor asks for the word at \<open>q\<close>.\<close>

definition asks_for :: "u32 \<Rightarrow> cpu result \<Rightarrow> bool" where
  "asks_for q r \<longleftrightarrow> (\<exists>t. r = Inr t \<and> top_addr (cpu_bus t) = q \<and> top_size (cpu_bus t) = WIDTH_WORD \<and> top_wr (cpu_bus t) = S0)"

lemma fetch_ok_bus [simp]: "fetch_ok True code a"
  by (simp add: fetch_ok_def)

lemma fetch_on_bus:
  assumes "ready s"
  shows "asks_for (read_addr (fetch s)) (cpu_run True code dout 1 s)"
proof -
  have "\<forall>k < 11. \<exists>t. cpu_run True code dout k s = Inr t \<and> (k < 5 \<longrightarrow> top_wr (cpu_bus t) = S0) \<and>
      (k = 1 \<longrightarrow> top_addr (cpu_bus t) = read_addr (fetch s) \<and> top_size (cpu_bus t) = WIDTH_WORD)"
    using instruction [OF assms fetch_ok_bus fetch_ok_bus refl, of code dout] by blast
  from this [rule_format, of 1] show ?thesis by (auto simp: asks_for_def)
qed

lemma lagged_step:
  assumes rep: "represents s st" and n: "lagged_next (dout 1) (dout 5) (q, st) = Some (q', st')"
  shows "\<exists>s'. cpu_run True code dout 11 s = Inr s' \<and> represents s' st' \<and> read_addr (fetch s') = q'"
proof -
  obtain i where i: "decode (dout 1) = Some i" "implemented i" "isa_step (dout 5) i st = Some st'" "q' = ipc st"
    using n by (auto simp: lagged_next_def bind_eq_Some_conv split: if_split_asm)
  have "fetch_word True code (ipc st) (dout 1) = dout 1" by (simp add: fetch_word_def)
  then show ?thesis
    using word_executed [of s st True code dout i st'] rep i by auto
qed

lemma lagged_run_ok:
  assumes "represents s st" "read_addr (fetch s) = q"
    and "lagged_run (\<lambda>k. dout (11 * k + 1)) (\<lambda>k. dout (11 * k + 5)) n (q, st) = Some (q', st')"
  shows "\<exists>s'. cpu_run True code dout (11 * n) s = Inr s' \<and> represents s' st' \<and> read_addr (fetch s') = q' \<and>
    (\<forall>m < n. \<exists>x. lagged_run (\<lambda>k. dout (11 * k + 1)) (\<lambda>k. dout (11 * k + 5)) m (q, st) = Some x \<and>
       asks_for (fst x) (cpu_run True code dout (11 * m + 1) s))"
  using assms(3)
proof (induction n arbitrary: q' st')
  case 0
  then show ?case using assms(1,2) by simp
next
  case (Suc n)
  let ?run = "\<lambda>m. lagged_run (\<lambda>k. dout (11 * k + 1)) (\<lambda>k. dout (11 * k + 5)) m (q, st)"
  obtain qn stn where n: "?run n = Some (qn, stn)" "lagged_next (dout (11 * n + 1)) (dout (11 * n + 5)) (qn, stn) = Some (q', st')"
    using Suc.prems by (auto simp: bind_eq_Some_conv)
  obtain sn where sn: "cpu_run True code dout (11 * n) s = Inr sn" "represents sn stn" "read_addr (fetch sn) = qn"
    "\<forall>m < n. \<exists>x. ?run m = Some x \<and> asks_for (fst x) (cpu_run True code dout (11 * m + 1) s)"
    using Suc.IH [OF n(1)] by auto
  have add: "cpu_run True code dout (11 * n + k) s = cpu_run True code (\<lambda>t. dout (11 * n + t)) k sn" for k
    using sn(1) by (subst cpu_run_add) simp
  have "asks_for qn (cpu_run True code dout (11 * n + 1) s)"
    using fetch_on_bus [of sn code "\<lambda>t. dout (11 * n + t)"] sn(2,3) unfolding add by (simp add: represents_def)
  then have "\<exists>x. ?run m = Some x \<and> asks_for (fst x) (cpu_run True code dout (11 * m + 1) s)" if "m < Suc n" for m
    using sn(4) n(1) that by (cases "m = n") (auto simp del: cpu_run.simps)
  then show ?case using lagged_step [OF sn(2), of "\<lambda>t. dout (11 * n + t)" qn q' st' code] n(2) add [of 11]
    by (simp add: add.commute del: cpu_run.simps)
qed

text \<open>With the word of \<open>q\<close> executed at \<open>q + 4\<close>, a branch that is taken goes one word further than its offset from \<open>q + 4\<close>.\<close>

lemma branch_overshoots:
  assumes "decode w = Some (Beq rs rt off)" "gpr st rs = gpr st rt" "ipc st = q + 4"
  shows "\<exists>st'. lagged_next w d (q, st) = Some (q + 4, st') \<and> ipc st' = rel_target q off + 4"
  using assms by (simp add: lagged_next_def rel_target_def)

section \<open>Instructions that are different\<close>

text \<open>What the processor makes of the instructions that are not \<open>implemented\<close>.\<close>

fun deviant :: "minstr \<Rightarrow> isa \<Rightarrow> isa" where
  "deviant (Load f rt rs off) st = st\<lparr>ipc := ipc st + 4\<rparr>"
| "deviant (Sh f rd rt sa) st =
    \<lparr>gpr = set_gpr rd (sh_val f (ucast sa) (unat (gpr st rt AND 63))) (gpr st), ipc = ipc st + 4\<rparr>"
| "deviant (Shv f rd rt rs) st =
    \<lparr>gpr = set_gpr rd (sh_val f (gpr st rs) (unat (gpr st rt AND 63))) (gpr st), ipc = ipc st + 4\<rparr>"
| "deviant (Bz c link rs off) st = st\<lparr>ipc := (if zcond_val c (gpr st rs) then rel_target (ipc st) off else ipc st + 4)\<rparr>"
| "deviant _ st = st"

lemma alu_shamt_6: "vtou (alu_shamt x) = unat (x AND 63)"
proof -
  have "x AND 63 = take_bit 6 x" by (simp add: take_bit_eq_mask mask_eq_exp_minus_1)
  then show ?thesis by (simp add: vtou_def alu_shamt_def unsigned_ucast_eq unsigned_take_bit_eq)
qed

lemma does_deviant:
  assumes "encodes i w" "\<not> implemented i" "decode w = Some i"
  shows "does w p g a0 d0 ld i (deviant i \<lparr>gpr = g, ipc = p\<rparr>)"
proof (cases i)
  case (Sh f rd rt sa)
  then show ?thesis using assms(1,2)
    by (cases f) (auto simp: decoding stages facts alu_shamt_6 slv_sll_def slv_srl_def slv_sra_def)
next
  case (Shv f rd rt rs)
  then show ?thesis using assms(1,2)
    by (cases f) (auto simp: decoding stages facts alu_shamt_6 slv_sll_def slv_srl_def slv_sra_def)
next
  case (Load f rt rs off)
  then show ?thesis using assms(1,2) by (auto simp: decoding stages facts)
next
  case (Bz c link rs off)
  then show ?thesis using assms by (cases c) (auto simp: decoding stages facts decode_def split: if_split_asm)
qed (use assms(2) in simp_all)

lemma word_deviates:
  assumes "represents s st" "fetch_ok sas code (read_addr (fetch s))" "fetch_ok sas code (ipc st)"
    and "decode (fetch_word sas code (ipc st) (dout 1)) = Some i" "\<not> implemented i"
  shows "\<exists>s'. cpu_run sas code dout 11 s = Inr s' \<and> represents s' (deviant i st) \<and> read_addr (fetch s') = ipc st \<and>
    instruction_bus (\<lambda>k. cpu_run sas code dout k s) i st"
proof (rule word_does [OF assms(1-3)])
  have "\<lparr>gpr = gpr st, ipc = ipc st\<rparr> = st" by simp
  then show "does (fetch_word sas code (ipc st) (dout 1)) (ipc st) (gpr st) a0 d0 (dout 5) i (deviant i st)" for a0 d0
    using does_deviant [OF decode_encodes [OF assms(4)] assms(5,4)] by metis
qed

section \<open>\<open>HI\<close> and \<open>LO\<close>\<close>

text \<open>\<open>mtlo\<close> takes the register of the field \<open>rt\<close>, which is 0 in its encoding.\<close>

lemma mtlo_clears:
  assumes "f_op w = 0" "f_func w = 0x13" "f_rt w = 0" "g 0 = 0"
  shows "LO (computed (decoded w p d0) g a0) = 0"
  using assms by (simp add: decoding stages)

text \<open>The decoder keeps the operation over a jump: after \<open>mthi\<close> it stores into \<open>HI\<close> again.\<close>

lemma jump_sets_HI:
  assumes "f_op v = 0" "f_func v = 0x11" "f_op w = 2"
  shows "HI (computed (decoded w p (maindec v d0)) g a0) = g (f_rs w)"
  using assms by (simp add: decoding stages)

section \<open>Reset in the middle of an instruction\<close>

text \<open>
  Reset does not reach \<open>selMEM\<close>. When it comes after the operands were executed, the bus stays with the
  memory unit while the next instruction is fetched.
\<close>

lemma reset_keeps_selMEM:
  assumes "cpu_edge sas code S1 d (cpu_reset s) = Inr s'" "EX_en (pipe s) = S0" "WB_en (pipe s) = S0"
  shows "selMEM s' = selMEM s"
  using assms by (auto simp: cpu_edge_def Let_def cpu_reset_def InstructionMem_edge_def split: if_split_asm)

end
