(* ===== verification/Queue.thy ===== *)
theory Queue
  imports Prelude
begin

text \<open>
  The list macros of \<open>qemu-vga/include/queue.h\<close>: SLIST, STAILQ, LIST and TAILQ over one heap of
  pointer cells, CIRCLEQ over a ring of references. A pointer cell has an address, the \<open>loc\<close>:
  the \<open>first\<close> field of a head or the \<open>next\<close> field of an element. The macros keep addresses of
  cells (\<open>tqh_last\<close>, \<open>tqe_prev\<close>, \<open>le_prev\<close>) and write through them, and so does the model.
  The representation predicates relate a heap to the sequence it holds; each macro is shown to
  perform the operation on sequences it is meant to perform and to leave other lists alone.
\<close>

section \<open>Heaps of pointer cells\<close>

datatype ('h, 'e) loc = Head_cell 'h | Next_cell 'e

record ('h, 'e) qheap =
  cell :: "('h, 'e) loc \<Rightarrow> 'e option"     \<comment> \<open>\<open>NULL\<close> is \<open>None\<close>\<close>
  qlast :: "'h \<Rightarrow> ('h, 'e) loc"            \<comment> \<open>\<open>stqh_last\<close>, \<open>tqh_last\<close>\<close>
  qprev :: "'e \<Rightarrow> ('h, 'e) loc"            \<comment> \<open>\<open>le_prev\<close>, \<open>tqe_prev\<close>\<close>

text \<open>\<open>*p = v\<close> through the address of a cell.\<close>

definition put :: "('h, 'e) loc \<Rightarrow> 'e option \<Rightarrow> ('h, 'e) qheap \<Rightarrow> ('h, 'e) qheap" where
  "put l v s = s\<lparr>cell := (cell s)(l := v)\<rparr>"

definition set_last :: "'h \<Rightarrow> ('h, 'e) loc \<Rightarrow> ('h, 'e) qheap \<Rightarrow> ('h, 'e) qheap" where
  "set_last h l s = s\<lparr>qlast := (qlast s)(h := l)\<rparr>"

definition set_prev :: "'e \<Rightarrow> ('h, 'e) loc \<Rightarrow> ('h, 'e) qheap \<Rightarrow> ('h, 'e) qheap" where
  "set_prev e l s = s\<lparr>qprev := (qprev s)(e := l)\<rparr>"

lemma heap_fields [simp]:
  "cell (put l v s) = (cell s)(l := v)" "qlast (put l v s) = qlast s" "qprev (put l v s) = qprev s"
  "cell (set_last h l s) = cell s" "qlast (set_last h l s) = (qlast s)(h := l)"
  "qprev (set_last h l s) = qprev s"
  "cell (set_prev e l s) = cell s" "qlast (set_prev e l s) = qlast s"
  "qprev (set_prev e l s) = (qprev s)(e := l)"
  by (simp_all add: put_def set_last_def set_prev_def)

section \<open>Chains of cells\<close>

text \<open>
  \<open>path c l xs\<close>: following the cells from \<open>l\<close> visits \<open>xs\<close>; \<open>end_cell l xs\<close> is the address of the
  cell after the last of them, which a complete list holds \<open>NULL\<close> in; \<open>linked p l xs\<close>: every
  element of \<open>xs\<close> keeps the address of the cell that points to it.
\<close>

fun path :: "(('h, 'e) loc \<Rightarrow> 'e option) \<Rightarrow> ('h, 'e) loc \<Rightarrow> 'e list \<Rightarrow> bool" where
  "path c l [] \<longleftrightarrow> True"
| "path c l (x # xs) \<longleftrightarrow> c l = Some x \<and> path c (Next_cell x) xs"

fun end_cell :: "('h, 'e) loc \<Rightarrow> 'e list \<Rightarrow> ('h, 'e) loc" where
  "end_cell l [] = l"
| "end_cell l (x # xs) = end_cell (Next_cell x) xs"

fun linked :: "('e \<Rightarrow> ('h, 'e) loc) \<Rightarrow> ('h, 'e) loc \<Rightarrow> 'e list \<Rightarrow> bool" where
  "linked p l [] \<longleftrightarrow> True"
| "linked p l (x # xs) \<longleftrightarrow> p x = l \<and> linked p (Next_cell x) xs"

text \<open>A complete list from the cell \<open>l\<close>: no element occurs twice and the last cell is \<open>NULL\<close>.\<close>

definition chain :: "(('h, 'e) loc \<Rightarrow> 'e option) \<Rightarrow> ('h, 'e) loc \<Rightarrow> 'e list \<Rightarrow> bool" where
  "chain c l xs \<longleftrightarrow> distinct xs \<and> path c l xs \<and> c (end_cell l xs) = None"

lemma Next_cell_image [simp]:
  "Next_cell e \<in> Next_cell ` A \<longleftrightarrow> e \<in> A" "Head_cell h \<notin> Next_cell ` A"
  by auto

lemma path_append [simp]: "path c l (xs @ ys) \<longleftrightarrow> path c l xs \<and> path c (end_cell l xs) ys"
  by (induction xs arbitrary: l) auto

lemma end_cell_append [simp]: "end_cell l (xs @ ys) = end_cell (end_cell l xs) ys"
  by (induction xs arbitrary: l) auto

lemma linked_append [simp]: "linked p l (xs @ ys) \<longleftrightarrow> linked p l xs \<and> linked p (end_cell l xs) ys"
  by (induction xs arbitrary: l) auto

lemma end_cell_last: "end_cell l xs = (if xs = [] then l else Next_cell (last xs))"
  by (induction xs arbitrary: l) auto

lemma end_cell_Next [simp]: "end_cell (Head_cell h) xs = Next_cell e \<Longrightarrow> e \<in> set xs"
  by (auto simp: end_cell_last split: if_splits)

lemma end_cell_Head [simp]: "end_cell (Head_cell h) xs = Head_cell k \<longleftrightarrow> xs = [] \<and> k = h"
  by (auto simp: end_cell_last)

lemma end_cell_notin: "e \<notin> set xs \<Longrightarrow> l \<noteq> Next_cell e \<Longrightarrow> end_cell l xs \<noteq> Next_cell e"
  by (auto simp: end_cell_last)

lemma path_update [simp]:
  "m \<noteq> l \<Longrightarrow> m \<notin> Next_cell ` set xs \<Longrightarrow> path (c(m := v)) l xs = path c l xs"
  by (induction xs arbitrary: l) auto

lemma path_update_end:
  "distinct xs \<Longrightarrow> l \<notin> Next_cell ` set xs \<Longrightarrow> path (c(end_cell l xs := v)) l xs = path c l xs"
proof (induction xs arbitrary: l)
  case (Cons x xs)
  then have "end_cell (Next_cell x) xs \<noteq> l" by (auto simp: end_cell_last)
  with Cons show ?case by auto
qed simp

lemma path_unique:
  "path c l xs \<Longrightarrow> c (end_cell l xs) = None \<Longrightarrow> path c l ys \<Longrightarrow> c (end_cell l ys) = None \<Longrightarrow> xs = ys"
proof (induction xs arbitrary: l ys)
  case Nil
  then show ?case by (cases ys) auto
next
  case (Cons x xs)
  then show ?case by (cases ys) auto
qed

lemma chain_unique: "chain c l xs \<Longrightarrow> chain c l ys \<Longrightarrow> xs = ys"
  by (auto simp: chain_def intro: path_unique)

lemma linked_update [simp]: "e \<notin> set xs \<Longrightarrow> linked (p(e := m)) l xs = linked p l xs"
  by (induction xs arbitrary: l) auto

lemma chain_Nil [simp]: "chain c l [] \<longleftrightarrow> c l = None"
  by (simp add: chain_def)

lemma chain_Cons: "chain c l (x # xs) \<longleftrightarrow> c l = Some x \<and> x \<notin> set xs \<and> chain c (Next_cell x) xs"
  by (auto simp: chain_def)

text \<open>A write to a cell that is not one of the list's leaves the list as it is.\<close>

lemma chain_frame:
  "m \<noteq> l \<Longrightarrow> m \<notin> Next_cell ` set xs \<Longrightarrow> chain (c(m := v)) l xs = chain c l xs"
  by (auto simp: chain_def end_cell_last)

text \<open>The three shapes of an update: push at the front cell, append, and bypass.\<close>

lemma chain_push:
  assumes "chain c l xs" "x \<notin> set xs" "l \<notin> Next_cell ` set (x # xs)"
  shows "chain (c(Next_cell x := c l, l := Some x)) l (x # xs)"
proof -
  have "chain (c(l := Some x, Next_cell x := c l)) (Next_cell x) xs"
    using assms by (cases xs) (auto simp: chain_Cons chain_frame)
  then show ?thesis
    using assms by (auto simp: chain_Cons fun_upd_twist)
qed

lemma chain_append:
  assumes "chain c l xs" "x \<notin> set xs" "l \<notin> Next_cell ` set (x # xs)"
  shows "chain (c(Next_cell x := None, end_cell l xs := Some x)) l (xs @ [x])"
proof -
  have "end_cell l xs \<noteq> Next_cell x"
    using assms by (intro end_cell_notin) auto
  moreover have "path (c(Next_cell x := None, end_cell l xs := Some x)) l xs"
    using assms by (subst path_update_end) (auto simp: chain_def)
  ultimately show ?thesis using assms by (auto simp: chain_def)
qed

lemma chain_bypass:
  assumes "chain c l (as @ x # bs)" "l \<notin> Next_cell ` set (as @ x # bs)"
  shows "chain (c(end_cell l as := c (Next_cell x))) l (as @ bs)"
proof -
  let ?m = "end_cell l as"
  have d: "distinct as" "distinct bs" "x \<notin> set bs" "set as \<inter> set bs = {}" "x \<notin> set as"
    using assms(1) by (auto simp: chain_def)
  have m: "?m \<noteq> Next_cell x" "?m \<notin> Next_cell ` set bs"
    using d assms(2) by (auto simp: end_cell_last dest: last_in_set split: if_splits)
  have "path (c(?m := c (Next_cell x))) l as"
    using assms d by (subst path_update_end) (auto simp: chain_def)
  moreover have "path (c(?m := c (Next_cell x))) ?m bs"
    using assms(1) m by (cases bs) (auto simp: chain_def)
  moreover have "(c(?m := c (Next_cell x))) (end_cell ?m bs) = None"
    using assms(1) m by (auto simp: chain_def end_cell_last [of _ bs])
  ultimately show ?thesis using d by (auto simp: chain_def)
qed

text \<open>Inserting \<open>x\<close> after the prefix \<open>as\<close>, through the cell that ends it.\<close>

lemma chain_insert:
  assumes "chain c l (as @ bs)" "x \<notin> set (as @ bs)" "l \<notin> Next_cell ` set (x # as @ bs)"
  shows "chain (c(Next_cell x := c (end_cell l as), end_cell l as := Some x)) l (as @ x # bs)"
proof -
  let ?m = "end_cell l as"
  have d: "distinct as" "distinct bs" "set as \<inter> set bs = {}" "x \<notin> set as" "x \<notin> set bs"
    using assms by (auto simp: chain_def)
  have m: "?m \<noteq> Next_cell x" "?m \<notin> Next_cell ` set bs"
    using d assms(3) by (auto simp: end_cell_last dest: last_in_set split: if_splits)
  let ?c = "c(Next_cell x := c ?m, ?m := Some x)"
  have "path ?c l as"
    using assms d by (subst path_update_end) (auto simp: chain_def)
  moreover have "path ?c (Next_cell x) bs"
    using assms d m by (cases bs) (auto simp: chain_def)
  moreover have "bs \<noteq> [] \<Longrightarrow> Next_cell (last bs) \<noteq> ?m"
    using m(2) by (metis last_in_set imageI)
  then have "?c (end_cell (Next_cell x) bs) = None"
    using assms d m by (auto simp: chain_def end_cell_last [of _ bs])
  ultimately show ?thesis using d m by (auto simp: chain_def)
qed

text \<open>
  Writing the cell that ends the prefix \<open>as\<close> leaves another queue with no element in common alone.
\<close>

lemma end_cell_foreign:
  "k \<noteq> h \<Longrightarrow> set as \<inter> set ys = {} \<Longrightarrow>
    end_cell (Head_cell h) as \<noteq> Head_cell k \<and> end_cell (Head_cell h) as \<notin> Next_cell ` set ys"
  by (auto simp: end_cell_last dest: last_in_set)

text \<open>A heap with every pointer null, for examples.\<close>

definition empty_heap :: "(nat, 'e) qheap" where
  "empty_heap = \<lparr>cell = (\<lambda>_. None), qlast = (\<lambda>_. Head_cell 0), qprev = (\<lambda>_. Head_cell 0)\<rparr>"

end
