(* ===== verification/Seq_Interface.thy ===== *)
theory Seq_Interface
  imports Queue
begin

text \<open>
  The contract the list macros of \<open>queue.h\<close> share, as locales over a representation predicate:
  \<open>repr s h xs\<close> says that in the heap \<open>s\<close> the list with head \<open>h\<close> holds the sequence \<open>xs\<close>. The
  table at the top of \<open>queue.h\<close> says which macro family has which operations; the locales follow
  it: every family can push at the head and traverse forward, some append, some remove.
\<close>

text \<open>\<open>for (var = first; var; var = next(var))\<close>: the elements a FOREACH loop visits.\<close>

partial_function (option) walk :: "('e \<Rightarrow> 'e option) \<Rightarrow> 'e option \<Rightarrow> 'e list option" where
  "walk nx v = (case v of None \<Rightarrow> Some []
     | Some e \<Rightarrow> Option.bind (walk nx (nx e)) (\<lambda>es. Some (e # es)))"

lemma walk_None [simp]: "walk nx None = Some []"
  by (simp add: walk.simps)

lemma walk_Some [simp]: "walk nx (Some e) = map_option (Cons e) (walk nx (nx e))"
  by (subst walk.simps) (simp add: map_conv_bind_option comp_def)

text \<open>
  The safe traversal reads the next element before the loop body runs: the body may unlink the
  element it is at. The loop works on the heap its body changes.
\<close>

partial_function (option) foreach_safe ::
  "('e \<Rightarrow> 's \<Rightarrow> 'e option) \<Rightarrow> ('e \<Rightarrow> 's \<Rightarrow> 's) \<Rightarrow> 'e option \<Rightarrow> 's \<Rightarrow> 's option" where
  "foreach_safe nx body v s = (case v of
     None \<Rightarrow> Some s
   | Some e \<Rightarrow> let n = nx e s in foreach_safe nx body n (body e s))"

lemma foreach_safe_simps [simp]:
  "foreach_safe nx body None s = Some s"
  "foreach_safe nx body (Some e) s = foreach_safe nx body (nx e s) (body e s)"
  by (subst foreach_safe.simps; simp add: Let_def)+

locale head_list =
  fixes repr :: "'s \<Rightarrow> 'h \<Rightarrow> 'e list \<Rightarrow> bool"
    and init :: "'h \<Rightarrow> 's \<Rightarrow> 's"
    and is_empty :: "'h \<Rightarrow> 's \<Rightarrow> bool"
    and first :: "'h \<Rightarrow> 's \<Rightarrow> 'e option"
    and nxt :: "'e \<Rightarrow> 's \<Rightarrow> 'e option"
    and insert_head :: "'h \<Rightarrow> 'e \<Rightarrow> 's \<Rightarrow> 's"
  assumes repr_unique: "repr s h xs \<Longrightarrow> repr s h ys \<Longrightarrow> xs = ys"
    and repr_distinct: "repr s h xs \<Longrightarrow> distinct xs"
    and init_repr: "repr (init h s) h []"
    and empty_iff: "repr s h xs \<Longrightarrow> is_empty h s \<longleftrightarrow> xs = []"
    and first_eq: "repr s h xs \<Longrightarrow> first h s = head_opt xs"
    and nxt_eq: "repr s h (as @ x # bs) \<Longrightarrow> nxt x s = head_opt bs"
    and insert_head_repr: "repr s h xs \<Longrightarrow> x \<notin> set xs \<Longrightarrow> repr (insert_head h x s) h (x # xs)"
    and insert_head_frame: "repr s h xs \<Longrightarrow> repr s k ys \<Longrightarrow> k \<noteq> h \<Longrightarrow> x \<notin> set ys \<Longrightarrow>
      set xs \<inter> set ys = {} \<Longrightarrow>
      repr (insert_head h x s) k ys"
begin

lemma walk_suffix: "repr s h (as @ bs) \<Longrightarrow> walk (\<lambda>e. nxt e s) (head_opt bs) = Some bs"
proof (induction bs arbitrary: as)
  case (Cons b bs)
  then have "walk (\<lambda>e. nxt e s) (head_opt bs) = Some bs"
    using Cons.IH [of "as @ [b]"] by simp
  then show ?case using nxt_eq [OF Cons.prems] by simp
qed simp

lemma foreach_visits: "repr s h xs \<Longrightarrow> walk (\<lambda>e. nxt e s) (first h s) = Some xs"
  using walk_suffix [of s h "[]" xs] first_eq [of s h xs] by simp

lemma push_all_from:
  "repr s h ys \<Longrightarrow> distinct (xs @ ys) \<Longrightarrow> repr (fold (insert_head h) xs s) h (rev xs @ ys)"
proof (induction xs arbitrary: s ys)
  case (Cons x xs)
  then have "repr (insert_head h x s) h (x # ys)" by (intro insert_head_repr) auto
  with Cons show ?case by simp
qed simp

lemma push_all: "distinct xs \<Longrightarrow> repr (fold (insert_head h) xs (init h s)) h (rev xs)"
  using push_all_from [OF init_repr, of xs h s] by simp

end

locale tail_list = head_list repr init is_empty first nxt insert_head
  for repr :: "'s \<Rightarrow> 'h \<Rightarrow> 'e list \<Rightarrow> bool" and init is_empty first nxt insert_head +
  fixes insert_tail :: "'h \<Rightarrow> 'e \<Rightarrow> 's \<Rightarrow> 's"
  assumes insert_tail_repr: "repr s h xs \<Longrightarrow> x \<notin> set xs \<Longrightarrow> repr (insert_tail h x s) h (xs @ [x])"
    and insert_tail_frame: "repr s h xs \<Longrightarrow> repr s k ys \<Longrightarrow> k \<noteq> h \<Longrightarrow> x \<notin> set ys \<Longrightarrow>
      set xs \<inter> set ys = {} \<Longrightarrow>
      repr (insert_tail h x s) k ys"
begin

lemma append_all_from:
  "repr s h ys \<Longrightarrow> distinct (ys @ xs) \<Longrightarrow> repr (fold (insert_tail h) xs s) h (ys @ xs)"
proof (induction xs arbitrary: s ys)
  case (Cons x xs)
  then have "repr (insert_tail h x s) h (ys @ [x])" by (intro insert_tail_repr) auto
  then show ?case using Cons.IH [of "insert_tail h x s" "ys @ [x]"] Cons.prems by simp
qed simp

lemma fifo:
  "distinct xs \<Longrightarrow>
    walk (\<lambda>e. nxt e (fold (insert_tail h) xs (init h s))) (first h (fold (insert_tail h) xs (init h s)))
      = Some xs"
  using foreach_visits [OF append_all_from [OF init_repr, of xs h s]] by simp

end

locale removable_list = head_list repr init is_empty first nxt insert_head
  for repr :: "'s \<Rightarrow> 'h \<Rightarrow> 'e list \<Rightarrow> bool" and init is_empty first nxt insert_head +
  fixes remove :: "'h \<Rightarrow> 'e \<Rightarrow> 's \<Rightarrow> 's"
  assumes remove_repr: "repr s h (as @ x # bs) \<Longrightarrow> repr (remove h x s) h (as @ bs)"
    and remove_frame: "repr s h xs \<Longrightarrow> repr s k ys \<Longrightarrow> x \<in> set xs \<Longrightarrow> k \<noteq> h \<Longrightarrow> set xs \<inter> set ys = {} \<Longrightarrow>
      repr (remove h x s) k ys"
begin

lemma remove_repr1:
  assumes "repr s h xs" "x \<in> set xs"
  shows "repr (remove h x s) h (remove1 x xs)"
proof -
  obtain as bs where "xs = as @ x # bs" "x \<notin> set as"
    using assms(2) by (meson split_list_first)
  then show ?thesis using assms(1) remove_repr by (auto simp: remove1_append)
qed

lemma insert_remove: "repr s h xs \<Longrightarrow> x \<notin> set xs \<Longrightarrow> repr (remove h x (insert_head h x s)) h xs"
  using remove_repr [of "insert_head h x s" h "[]" x xs] insert_head_repr by simp

text \<open>Moving an element from one list to another, the step of a buddy split or merge.\<close>

lemma move:
  assumes "repr s h xs" "repr s k ys" "x \<in> set xs" "k \<noteq> h" "set xs \<inter> set ys = {}"
  shows "repr (insert_head k x (remove h x s)) h (remove1 x xs) \<and>
    repr (insert_head k x (remove h x s)) k (x # ys)"
proof -
  let ?s = "remove h x s"
  have h: "repr ?s h (remove1 x xs)" using assms by (intro remove_repr1)
  have k: "repr ?s k ys" using assms by (intro remove_frame)
  have d: "distinct xs" using assms(1) by (rule repr_distinct)
  have "x \<notin> set (remove1 x xs)" "set ys \<inter> set (remove1 x xs) = {}"
    using d assms(5) by (auto simp: set_remove1_eq)
  then have "repr (insert_head k x ?s) h (remove1 x xs)"
    using insert_head_frame [OF k h] assms(4) by blast
  moreover have "repr (insert_head k x ?s) k (x # ys)"
    using k assms(3,5) by (intro insert_head_repr) auto
  ultimately show ?thesis by blast
qed


text \<open>A safe traversal may remove the elements it visits.\<close>

lemma safe_removal_from:
  "repr s h (as @ bs) \<Longrightarrow>
    \<exists>s'. foreach_safe nxt (\<lambda>e s. if P e then remove h e s else s) (head_opt bs) s = Some s' \<and>
      repr s' h (as @ filter (\<lambda>x. \<not> P x) bs)"
proof (induction bs arbitrary: as s)
  case (Cons b bs)
  have n: "nxt b s = head_opt bs" using Cons.prems by (rule nxt_eq)
  show ?case
  proof (cases "P b")
    case True
    then show ?thesis
      using Cons.IH [OF remove_repr [OF Cons.prems]] n by (simp add: if_distrib [of "\<lambda>f. f s"])
  next
    case False
    then show ?thesis using Cons.IH [of s "as @ [b]"] Cons.prems n by simp
  qed
qed simp

lemma safe_removal:
  "repr s h xs \<Longrightarrow>
    \<exists>s'. foreach_safe nxt (\<lambda>e s. if P e then remove h e s else s) (first h s) s = Some s' \<and>
      repr s' h (filter (\<lambda>x. \<not> P x) xs)"
  using safe_removal_from [of s h "[]" xs P] first_eq by simp

end

end
