(* ===== verification/Tailq.thy ===== *)
theory Tailq
  imports Seq_Interface
begin

text \<open>
  TAILQ, the doubly linked tail queue of \<open>queue.h\<close> that the physical memory manager and the PCI
  bus keep their pages, segments and devices in. \<open>tqh_last\<close> and \<open>tqe_prev\<close> are addresses of cells;
  \<open>TAILQ_LAST\<close> and \<open>TAILQ_PREV\<close> read the cell before such an address by casting it to a head,
  which is \<open>as_head\<close> here: a head and an entry both hold a pointer followed by an address.
\<close>

section \<open>The macros\<close>

definition TAILQ_EMPTY :: "'h \<Rightarrow> ('h, 'e) qheap \<Rightarrow> bool" where
  "TAILQ_EMPTY h s \<longleftrightarrow> cell s (Head_cell h) = None"

definition TAILQ_FIRST :: "'h \<Rightarrow> ('h, 'e) qheap \<Rightarrow> 'e option" where
  "TAILQ_FIRST h s = cell s (Head_cell h)"

definition TAILQ_NEXT :: "'e \<Rightarrow> ('h, 'e) qheap \<Rightarrow> 'e option" where
  "TAILQ_NEXT e s = cell s (Next_cell e)"

definition TAILQ_FOREACH :: "'h \<Rightarrow> ('h, 'e) qheap \<Rightarrow> 'e list option" where
  "TAILQ_FOREACH h s = walk (\<lambda>e. TAILQ_NEXT e s) (TAILQ_FIRST h s)"

definition TAILQ_INIT :: "'h \<Rightarrow> ('h, 'e) qheap \<Rightarrow> ('h, 'e) qheap" where
  "TAILQ_INIT h s = set_last h (Head_cell h) (put (Head_cell h) None s)"

definition TAILQ_INSERT_AFTER :: "'h \<Rightarrow> 'e \<Rightarrow> 'e \<Rightarrow> ('h, 'e) qheap \<Rightarrow> ('h, 'e) qheap" where
  "TAILQ_INSERT_AFTER h le e s =
    (let s1 = put (Next_cell e) (TAILQ_NEXT le s) s;
         s2 = (case TAILQ_NEXT e s1 of
                 Some n \<Rightarrow> set_prev n (Next_cell e) s1
               | None \<Rightarrow> set_last h (Next_cell e) s1);
         s3 = put (Next_cell le) (Some e) s2
     in set_prev e (Next_cell le) s3)"

definition TAILQ_INSERT_BEFORE :: "'e \<Rightarrow> 'e \<Rightarrow> ('h, 'e) qheap \<Rightarrow> ('h, 'e) qheap" where
  "TAILQ_INSERT_BEFORE le e s =
    (let s1 = set_prev e (qprev s le) s;
         s2 = put (Next_cell e) (Some le) s1;
         s3 = put (qprev s2 le) (Some e) s2
     in set_prev le (Next_cell e) s3)"

definition TAILQ_INSERT_HEAD :: "'h \<Rightarrow> 'e \<Rightarrow> ('h, 'e) qheap \<Rightarrow> ('h, 'e) qheap" where
  "TAILQ_INSERT_HEAD h e s =
    (let s1 = put (Next_cell e) (TAILQ_FIRST h s) s;
         s2 = (case TAILQ_NEXT e s1 of
                 Some n \<Rightarrow> set_prev n (Next_cell e) s1
               | None \<Rightarrow> set_last h (Next_cell e) s1);
         s3 = put (Head_cell h) (Some e) s2
     in set_prev e (Head_cell h) s3)"

definition TAILQ_INSERT_TAIL :: "'h \<Rightarrow> 'e \<Rightarrow> ('h, 'e) qheap \<Rightarrow> ('h, 'e) qheap" where
  "TAILQ_INSERT_TAIL h e s =
    (let s1 = put (Next_cell e) None s;
         s2 = set_prev e (qlast s1 h) s1;
         s3 = put (qlast s2 h) (Some e) s2
     in set_last h (Next_cell e) s3)"

definition as_head :: "('h, 'e) loc \<Rightarrow> ('h, 'e) qheap \<Rightarrow> ('h, 'e) loc" where
  "as_head l s = (case l of Head_cell h \<Rightarrow> qlast s h | Next_cell e \<Rightarrow> qprev s e)"

definition TAILQ_LAST :: "'h \<Rightarrow> ('h, 'e) qheap \<Rightarrow> 'e option" where
  "TAILQ_LAST h s = cell s (as_head (qlast s h) s)"

definition TAILQ_PREV :: "'e \<Rightarrow> ('h, 'e) qheap \<Rightarrow> 'e option" where
  "TAILQ_PREV e s = cell s (as_head (qprev s e) s)"

definition TAILQ_FOREACH_REVERSE :: "'h \<Rightarrow> ('h, 'e) qheap \<Rightarrow> 'e list option" where
  "TAILQ_FOREACH_REVERSE h s = walk (\<lambda>e. TAILQ_PREV e s) (TAILQ_LAST h s)"

definition TAILQ_REMOVE :: "'h \<Rightarrow> 'e \<Rightarrow> ('h, 'e) qheap \<Rightarrow> ('h, 'e) qheap" where
  "TAILQ_REMOVE h e s =
    (let s1 = (case TAILQ_NEXT e s of
                 Some n \<Rightarrow> set_prev n (qprev s e) s
               | None \<Rightarrow> set_last h (qprev s e) s)
     in put (qprev s1 e) (TAILQ_NEXT e s1) s1)"

lemmas tailq_defs = TAILQ_EMPTY_def TAILQ_FIRST_def TAILQ_NEXT_def TAILQ_INIT_def
  TAILQ_INSERT_AFTER_def TAILQ_INSERT_BEFORE_def TAILQ_INSERT_HEAD_def TAILQ_INSERT_TAIL_def
  TAILQ_REMOVE_def Let_def

section \<open>What a tail queue represents\<close>

definition tailq :: "('h, 'e) qheap \<Rightarrow> 'h \<Rightarrow> 'e list \<Rightarrow> bool" where
  "tailq s h xs \<longleftrightarrow> chain (cell s) (Head_cell h) xs \<and> linked (qprev s) (Head_cell h) xs \<and>
     qlast s h = end_cell (Head_cell h) xs"

lemma tailq_unique: "tailq s h xs \<Longrightarrow> tailq s h ys \<Longrightarrow> xs = ys"
  by (auto simp: tailq_def intro: chain_unique)

lemma tailq_first: "tailq s h xs \<Longrightarrow> cell s (Head_cell h) = head_opt xs"
  by (cases xs) (auto simp: tailq_def chain_def)

lemma tailq_nxt: "tailq s h (as @ x # bs) \<Longrightarrow> cell s (Next_cell x) = head_opt bs"
  by (cases bs) (auto simp: tailq_def chain_def)

lemma tailq_qprev: "tailq s h (as @ x # bs) \<Longrightarrow> qprev s x = end_cell (Head_cell h) as"
  by (simp add: tailq_def)

lemma tailq_init: "tailq (TAILQ_INIT h s) h []"
  by (simp add: tailq_def TAILQ_INIT_def)

section \<open>Each macro performs its operation\<close>

lemma TAILQ_INSERT_HEAD_repr:
  assumes "tailq s h xs" "x \<notin> set xs"
  shows "tailq (TAILQ_INSERT_HEAD h x s) h (x # xs)"
proof -
  have "chain ((cell s)(Next_cell x := cell s (Head_cell h), Head_cell h := Some x)) (Head_cell h) (x # xs)"
    using assms by (intro chain_push) (auto simp: tailq_def)
  then show ?thesis
    using assms by (cases xs) (auto simp: tailq_def tailq_defs chain_def)
qed

lemma TAILQ_INSERT_TAIL_repr:
  assumes "tailq s h xs" "x \<notin> set xs"
  shows "tailq (TAILQ_INSERT_TAIL h x s) h (xs @ [x])"
proof -
  have "chain ((cell s)(Next_cell x := None, end_cell (Head_cell h) xs := Some x)) (Head_cell h) (xs @ [x])"
    using assms by (intro chain_append) (auto simp: tailq_def)
  then show ?thesis
    using assms by (auto simp: tailq_def tailq_defs)
qed

lemma TAILQ_INSERT_AFTER_repr:
  assumes "tailq s h (as @ y # bs)" "x \<notin> set (as @ y # bs)"
  shows "tailq (TAILQ_INSERT_AFTER h y x s) h (as @ y # x # bs)"
proof -
  have "chain ((cell s)(Next_cell x := cell s (end_cell (Head_cell h) (as @ [y])),
      end_cell (Head_cell h) (as @ [y]) := Some x)) (Head_cell h) ((as @ [y]) @ x # bs)"
    using assms by (intro chain_insert) (auto simp: tailq_def)
  moreover have "cell s (Next_cell y) = head_opt bs"
    using assms(1) by (rule tailq_nxt)
  moreover have "distinct (as @ y # bs)" using assms(1) by (simp add: tailq_def chain_def)
  ultimately show ?thesis
    using assms by (cases bs) (auto simp: tailq_def tailq_defs)
qed

lemma TAILQ_INSERT_BEFORE_repr:
  assumes "tailq s h (as @ y # bs)" "x \<notin> set (as @ y # bs)"
  shows "tailq (TAILQ_INSERT_BEFORE y x s) h (as @ x # y # bs)"
proof -
  have q: "qprev s y = end_cell (Head_cell h) as" using assms(1) by (rule tailq_qprev)
  have c: "cell s (end_cell (Head_cell h) as) = Some y" using assms(1) by (auto simp: tailq_def chain_def)
  have "chain ((cell s)(Next_cell x := cell s (end_cell (Head_cell h) as),
      end_cell (Head_cell h) as := Some x)) (Head_cell h) (as @ x # y # bs)"
    using assms by (intro chain_insert) (auto simp: tailq_def)
  moreover have "distinct (as @ y # bs)" using assms(1) by (simp add: tailq_def chain_def)
  ultimately show ?thesis
    using assms q c by (auto simp: tailq_def tailq_defs)
qed

lemma TAILQ_REMOVE_repr:
  assumes "tailq s h (as @ x # bs)"
  shows "tailq (TAILQ_REMOVE h x s) h (as @ bs)"
proof -
  have q: "qprev s x = end_cell (Head_cell h) as" using assms by (rule tailq_qprev)
  have n: "cell s (Next_cell x) = head_opt bs" using assms by (rule tailq_nxt)
  have "chain ((cell s)(end_cell (Head_cell h) as := cell s (Next_cell x))) (Head_cell h) (as @ bs)"
    using assms by (intro chain_bypass) (auto simp: tailq_def)
  moreover have "distinct (as @ x # bs)" using assms by (simp add: tailq_def chain_def)
  ultimately show ?thesis
    using assms q n by (cases bs) (auto simp: tailq_def tailq_defs)
qed

section \<open>Other queues are left alone\<close>

lemma TAILQ_INSERT_HEAD_frame:
  assumes "tailq s h xs" "tailq s k ys" "k \<noteq> h" "x \<notin> set ys" "set xs \<inter> set ys = {}"
  shows "tailq (TAILQ_INSERT_HEAD h x s) k ys"
  using assms tailq_first [OF assms(1)]
  by (cases xs) (auto simp: tailq_def tailq_defs chain_frame)

lemma TAILQ_INSERT_TAIL_frame:
  assumes "tailq s h xs" "tailq s k ys" "k \<noteq> h" "x \<notin> set ys" "set xs \<inter> set ys = {}"
  shows "tailq (TAILQ_INSERT_TAIL h x s) k ys"
  using assms end_cell_foreign [of k h xs ys]
  by (auto simp: tailq_def tailq_defs chain_frame)

lemma TAILQ_REMOVE_frame:
  assumes "tailq s h xs" "tailq s k ys" "x \<in> set xs" "k \<noteq> h" "set xs \<inter> set ys = {}"
  shows "tailq (TAILQ_REMOVE h x s) k ys"
proof -
  obtain as bs where xs: "xs = as @ x # bs" using assms(3) by (meson split_list)
  have q: "qprev s x = end_cell (Head_cell h) as" using assms(1) xs by (auto intro: tailq_qprev)
  have n: "cell s (Next_cell x) = head_opt bs" using assms(1) xs by (auto intro: tailq_nxt)
  have "end_cell (Head_cell h) as \<noteq> Head_cell k \<and> end_cell (Head_cell h) as \<notin> Next_cell ` set ys"
    using assms xs by (intro end_cell_foreign) auto
  then show ?thesis
    using assms q n xs by (cases bs) (auto simp: tailq_def tailq_defs chain_frame)
qed

section \<open>The interfaces\<close>

interpretation tailq: tail_list tailq TAILQ_INIT TAILQ_EMPTY TAILQ_FIRST TAILQ_NEXT
  TAILQ_INSERT_HEAD TAILQ_INSERT_TAIL
proof unfold_locales
  fix s :: "('h, 'e) qheap" and h xs
  assume "tailq s h xs"
  then show "distinct xs" by (simp add: tailq_def chain_def)
  show "TAILQ_EMPTY h s \<longleftrightarrow> xs = []" "TAILQ_FIRST h s = head_opt xs"
    using \<open>tailq s h xs\<close> by (cases xs; auto simp: tailq_def chain_def tailq_defs)+
qed (auto intro: tailq_unique tailq_init TAILQ_INSERT_HEAD_repr TAILQ_INSERT_HEAD_frame
      TAILQ_INSERT_TAIL_repr TAILQ_INSERT_TAIL_frame simp: TAILQ_NEXT_def tailq_nxt)

interpretation tailq_rem: removable_list tailq TAILQ_INIT TAILQ_EMPTY TAILQ_FIRST TAILQ_NEXT
  TAILQ_INSERT_HEAD TAILQ_REMOVE
  by unfold_locales (auto intro: TAILQ_REMOVE_repr TAILQ_REMOVE_frame)

section \<open>Backward traversal\<close>

lemma as_head_end:
  assumes "tailq s h (as @ [x] @ bs)"
  shows "as_head (Next_cell x) s = end_cell (Head_cell h) as"
  using assms by (auto simp: as_head_def tailq_def)

lemma TAILQ_LAST_eq: "tailq s h xs \<Longrightarrow> TAILQ_LAST h s = (if xs = [] then None else Some (last xs))"
proof (cases xs rule: rev_cases)
  case Nil
  assume "tailq s h xs"
  with Nil show ?thesis by (simp add: TAILQ_LAST_def as_head_def tailq_def)
next
  case (snoc as x)
  assume "tailq s h xs"
  with snoc show ?thesis
    using as_head_end [of s h as x "[]"] by (auto simp: TAILQ_LAST_def tailq_def chain_def)
qed

lemma TAILQ_PREV_eq:
  assumes "tailq s h (as @ x # bs)"
  shows "TAILQ_PREV x s = (if as = [] then None else Some (last as))"
proof (cases as rule: rev_cases)
  case Nil
  with assms show ?thesis
    by (auto simp: TAILQ_PREV_def as_head_def tailq_def chain_def)
next
  case (snoc cs y)
  have q: "qprev s x = Next_cell y" using assms snoc by (simp add: tailq_def)
  have "as_head (Next_cell y) s = end_cell (Head_cell h) cs"
    using assms snoc as_head_end [of s h cs y "x # bs"] by simp
  then show ?thesis using assms snoc q by (auto simp: TAILQ_PREV_def tailq_def chain_def)
qed

lemma walk_prev_prefix:
  "tailq s h (as @ bs) \<Longrightarrow> as \<noteq> [] \<Longrightarrow> walk (\<lambda>e. TAILQ_PREV e s) (Some (last as)) = Some (rev as)"
proof (induction as arbitrary: bs rule: rev_induct)
  case (snoc x as)
  have "TAILQ_PREV x s = (if as = [] then None else Some (last as))"
    using snoc.prems by (intro TAILQ_PREV_eq [of s h as x bs]) simp
  then show ?case
    using snoc.IH [of "x # bs"] snoc.prems by (cases "as = []") auto
qed simp

lemma TAILQ_FOREACH_REVERSE_eq: "tailq s h xs \<Longrightarrow> TAILQ_FOREACH_REVERSE h s = Some (rev xs)"
  using walk_prev_prefix [of s h xs "[]"]
  by (auto simp: TAILQ_FOREACH_REVERSE_def TAILQ_LAST_eq)

section \<open>Safe traversal\<close>

definition TAILQ_FOREACH_SAFE ::
  "'h \<Rightarrow> ('e \<Rightarrow> ('h, 'e) qheap \<Rightarrow> ('h, 'e) qheap) \<Rightarrow> ('h, 'e) qheap \<Rightarrow> ('h, 'e) qheap option" where
  "TAILQ_FOREACH_SAFE h body s = foreach_safe TAILQ_NEXT body (TAILQ_FIRST h s) s"

lemma tailq_foreach_safe:
  "tailq s h xs \<Longrightarrow> \<exists>s'. TAILQ_FOREACH_SAFE h (\<lambda>e s. if P e then TAILQ_REMOVE h e s else s) s = Some s' \<and>
    tailq s' h (filter (\<lambda>x. \<not> P x) xs)"
  using tailq_rem.safe_removal [of s h xs P] by (simp add: TAILQ_FOREACH_SAFE_def)

text \<open>
  Moving an element from one queue to the head of another changes these two queues as meant and no third
  one that shares no element with them.
\<close>

lemma tailq_moves:
  assumes "tailq s h xs" "tailq s k ys" "tailq s l zs" "x \<in> set xs" "distinct [h, k, l]"
    and "set xs \<inter> set ys = {}" "set xs \<inter> set zs = {}" "set ys \<inter> set zs = {}"
  shows "tailq (TAILQ_INSERT_HEAD k x (TAILQ_REMOVE h x s)) h (remove1 x xs) \<and>
    tailq (TAILQ_INSERT_HEAD k x (TAILQ_REMOVE h x s)) k (x # ys) \<and>
    tailq (TAILQ_INSERT_HEAD k x (TAILQ_REMOVE h x s)) l zs"
proof -
  have kh: "k \<noteq> h" "l \<noteq> h" "l \<noteq> k" using assms(5) by auto
  note hk = tailq_rem.move [OF assms(1,2,4) kh(1) assms(6)]
  have z: "tailq (TAILQ_REMOVE h x s) l zs" by (rule TAILQ_REMOVE_frame [OF assms(1,3,4) kh(2) assms(7)])
  have y: "tailq (TAILQ_REMOVE h x s) k ys" by (rule TAILQ_REMOVE_frame [OF assms(1,2,4) kh(1) assms(6)])
  have "tailq (TAILQ_INSERT_HEAD k x (TAILQ_REMOVE h x s)) l zs"
    by (rule TAILQ_INSERT_HEAD_frame [OF y z kh(3)]) (use assms(4,7,8) in blast)+
  then show ?thesis using hk by blast
qed

end
