(* ===== verification/Slist.thy ===== *)
theory Slist
  imports Seq_Interface
begin

text \<open>
  SLIST and STAILQ, the singly linked list and tail queue of \<open>queue.h\<close>. Removing an element
  searches for the cell before it; a search that runs off the end reads through \<open>NULL\<close>, which the
  model returns as a fault.
\<close>

section \<open>SLIST\<close>

definition SLIST_EMPTY :: "'h \<Rightarrow> ('h, 'e) qheap \<Rightarrow> bool" where
  "SLIST_EMPTY h s \<longleftrightarrow> cell s (Head_cell h) = None"

definition SLIST_FIRST :: "'h \<Rightarrow> ('h, 'e) qheap \<Rightarrow> 'e option" where
  "SLIST_FIRST h s = cell s (Head_cell h)"

definition SLIST_NEXT :: "'e \<Rightarrow> ('h, 'e) qheap \<Rightarrow> 'e option" where
  "SLIST_NEXT e s = cell s (Next_cell e)"

definition SLIST_FOREACH :: "'h \<Rightarrow> ('h, 'e) qheap \<Rightarrow> 'e list option" where
  "SLIST_FOREACH h s = walk (\<lambda>e. SLIST_NEXT e s) (SLIST_FIRST h s)"

definition SLIST_INIT :: "'h \<Rightarrow> ('h, 'e) qheap \<Rightarrow> ('h, 'e) qheap" where
  "SLIST_INIT h s = put (Head_cell h) None s"

definition SLIST_INSERT_AFTER :: "'e \<Rightarrow> 'e \<Rightarrow> ('h, 'e) qheap \<Rightarrow> ('h, 'e) qheap" where
  "SLIST_INSERT_AFTER le e s =
    (let s1 = put (Next_cell e) (SLIST_NEXT le s) s in put (Next_cell le) (Some e) s1)"

definition SLIST_INSERT_HEAD :: "'h \<Rightarrow> 'e \<Rightarrow> ('h, 'e) qheap \<Rightarrow> ('h, 'e) qheap" where
  "SLIST_INSERT_HEAD h e s =
    (let s1 = put (Next_cell e) (SLIST_FIRST h s) s in put (Head_cell h) (Some e) s1)"

definition SLIST_REMOVE_HEAD :: "'h \<Rightarrow> ('h, 'e) qheap \<Rightarrow> ('h, 'e) qheap result" where
  "SLIST_REMOVE_HEAD h s = (case SLIST_FIRST h s of
     None \<Rightarrow> Inl Null_pointer
   | Some e \<Rightarrow> Inr (put (Head_cell h) (SLIST_NEXT e s) s))"

text \<open>The search of \<open>SLIST_REMOVE\<close> and \<open>STAILQ_REMOVE\<close>: \<open>while (NEXT(curelm) != elm)\<close>.\<close>

partial_function (option) find_before :: "('h, 'e) qheap \<Rightarrow> 'e \<Rightarrow> 'e option \<Rightarrow> 'e result option" where
  "find_before s e cur = (case cur of
     None \<Rightarrow> Some (Inl Null_pointer)
   | Some c \<Rightarrow> if cell s (Next_cell c) = Some e then Some (Inr c)
       else find_before s e (cell s (Next_cell c)))"

definition SLIST_REMOVE :: "'h \<Rightarrow> 'e \<Rightarrow> ('h, 'e) qheap \<Rightarrow> ('h, 'e) qheap result option" where
  "SLIST_REMOVE h e s =
    (if SLIST_FIRST h s = Some e then Some (SLIST_REMOVE_HEAD h s)
     else Option.bind (find_before s e (SLIST_FIRST h s)) (\<lambda>r. Some (rbind r (\<lambda>c.
       case SLIST_NEXT c s of
         None \<Rightarrow> Inl Null_pointer
       | Some n \<Rightarrow> Inr (put (Next_cell c) (SLIST_NEXT n s) s)))))"

lemmas slist_defs = SLIST_EMPTY_def SLIST_FIRST_def SLIST_NEXT_def SLIST_INIT_def
  SLIST_INSERT_AFTER_def SLIST_INSERT_HEAD_def SLIST_REMOVE_HEAD_def SLIST_REMOVE_def Let_def

definition slist :: "('h, 'e) qheap \<Rightarrow> 'h \<Rightarrow> 'e list \<Rightarrow> bool" where
  "slist s h xs \<longleftrightarrow> chain (cell s) (Head_cell h) xs"

lemma find_before_None [simp]: "find_before s e None = Some (Inl Null_pointer)"
  by (simp add: find_before.simps)

lemma find_before_Some [simp]:
  "find_before s e (Some c) = (if cell s (Next_cell c) = Some e then Some (Inr c)
     else find_before s e (cell s (Next_cell c)))"
  by (subst find_before.simps) simp

lemma find_before_eq:
  assumes "chain (cell s) l xs" "cell s l \<noteq> Some x"
  shows "find_before s x (cell s l) = Some (if x \<in> set xs
    then Inr (last (takeWhile (\<lambda>y. y \<noteq> x) xs)) else Inl Null_pointer)"
  using assms
proof (induction xs arbitrary: l)
  case (Cons y ys)
  then have y: "cell s l = Some y" "y \<noteq> x" "chain (cell s) (Next_cell y) ys" by (auto simp: chain_Cons)
  show ?case
  proof (cases "cell s (Next_cell y) = Some x")
    case True
    then obtain zs where "ys = x # zs" using y(3) by (cases ys) (auto simp: chain_Cons)
    then show ?thesis using y True by simp
  next
    case False
    have "takeWhile (\<lambda>y. y \<noteq> x) ys \<noteq> []" if "x \<in> set ys"
      using False y(3) that by (cases ys) (auto simp: chain_Cons)
    then show ?thesis using Cons.IH [OF y(3) False] y False by auto
  qed
qed simp

lemma find_before_split:
  assumes "chain (cell s) l (as @ a # x # bs)"
  shows "find_before s x (cell s l) = Some (Inr a)"
proof -
  have d: "x \<notin> set as" "a \<noteq> x" using assms by (auto simp: chain_def)
  then have "takeWhile (\<lambda>y. y \<noteq> x) (as @ a # x # bs) = as @ [a]"
    by (subst takeWhile_append2) auto
  moreover have "cell s l \<noteq> Some x" using assms d by (cases as) (auto simp: chain_def)
  ultimately show ?thesis using find_before_eq [OF assms] by simp
qed

lemma chain_first: "chain c l xs \<Longrightarrow> c l = head_opt xs"
  by (cases xs) (auto simp: chain_Cons)

lemma chain_nxt: "chain c l (as @ x # bs) \<Longrightarrow> c (Next_cell x) = head_opt bs"
  by (cases bs) (auto simp: chain_def)

lemma slist_remove:
  assumes "slist s h (as @ x # bs)"
  shows "SLIST_REMOVE h x s = Some (Inr (put (end_cell (Head_cell h) as) (cell s (Next_cell x)) s))"
    "slist (put (end_cell (Head_cell h) as) (cell s (Next_cell x)) s) h (as @ bs)"
proof -
  have c: "chain (cell s) (Head_cell h) (as @ x # bs)" using assms by (simp add: slist_def)
  show "SLIST_REMOVE h x s = Some (Inr (put (end_cell (Head_cell h) as) (cell s (Next_cell x)) s))"
  proof (cases as rule: rev_cases)
    case Nil
    then show ?thesis using chain_first [OF c] by (simp add: slist_defs)
  next
    case (snoc zs a)
    then have "find_before s x (cell s (Head_cell h)) = Some (Inr a)"
      using find_before_split [of s _ zs a x bs] c by simp
    moreover have "cell s (Next_cell a) = Some x" using chain_nxt [of "cell s" _ zs a "x # bs"] c snoc by simp
    moreover have "cell s (Head_cell h) \<noteq> Some x"
      using chain_first [OF c] c snoc by (cases zs) (auto simp: chain_def)
    ultimately show ?thesis using snoc by (simp add: slist_defs)
  qed
  show "slist (put (end_cell (Head_cell h) as) (cell s (Next_cell x)) s) h (as @ bs)"
    unfolding slist_def heap_fields using c by (intro chain_bypass) auto
qed

lemma slist_remove_missing:
  assumes "slist s h xs" "x \<notin> set xs"
  shows "SLIST_REMOVE h x s = Some (Inl Null_pointer)"
proof -
  have "cell s (Head_cell h) \<noteq> Some x" using assms chain_first [of "cell s" "Head_cell h" xs]
    by (cases xs) (auto simp: slist_def)
  then show ?thesis
    using find_before_eq [of s "Head_cell h" xs x] assms by (simp add: slist_defs slist_def)
qed

lemma slist_insert_after:
  assumes "slist s h (as @ y # bs)" "x \<notin> set (as @ y # bs)"
  shows "slist (SLIST_INSERT_AFTER y x s) h (as @ y # x # bs)"
proof -
  have "chain ((cell s)(Next_cell x := cell s (end_cell (Head_cell h) (as @ [y])),
      end_cell (Head_cell h) (as @ [y]) := Some x)) (Head_cell h) ((as @ [y]) @ x # bs)"
    using assms by (intro chain_insert) (auto simp: slist_def)
  then show ?thesis by (simp add: slist_def slist_defs)
qed

lemma slist_insert_head:
  assumes "slist s h xs" "x \<notin> set xs"
  shows "slist (SLIST_INSERT_HEAD h x s) h (x # xs)"
  using chain_push [of "cell s" "Head_cell h" xs x] assms by (auto simp: slist_def slist_defs)

text \<open>The removal as a state change, for the interface: a fault leaves the heap.\<close>

definition slist_removed :: "'h \<Rightarrow> 'e \<Rightarrow> ('h, 'e) qheap \<Rightarrow> ('h, 'e) qheap" where
  "slist_removed h x s = (case SLIST_REMOVE h x s of Some (Inr s') \<Rightarrow> s' | _ \<Rightarrow> s)"

lemma slist_removed_repr: "slist s h (as @ x # bs) \<Longrightarrow> slist (slist_removed h x s) h (as @ bs)"
  by (simp add: slist_removed_def slist_remove)

lemma slist_removed_frame:
  assumes "slist s h xs" "slist s k ys" "x \<in> set xs" "k \<noteq> h" "set xs \<inter> set ys = {}"
  shows "slist (slist_removed h x s) k ys"
proof -
  obtain as bs where xs: "xs = as @ x # bs" using assms(3) by (meson split_list)
  then show ?thesis
    using assms slist_remove [of s h as x bs] end_cell_foreign [of k h as ys]
    by (auto simp: slist_removed_def slist_def chain_frame Int_Un_distrib2)
qed

interpretation slist: removable_list slist SLIST_INIT SLIST_EMPTY SLIST_FIRST SLIST_NEXT
  SLIST_INSERT_HEAD slist_removed
proof unfold_locales
  fix s :: "('h, 'e) qheap" and h xs
  assume s: "slist s h xs"
  then show "distinct xs" by (simp add: slist_def chain_def)
  show "SLIST_EMPTY h s \<longleftrightarrow> xs = []" "SLIST_FIRST h s = head_opt xs"
    using s chain_first [of "cell s" "Head_cell h" xs] by (auto simp: slist_def slist_defs)
  fix k ys x
  assume "slist s k ys" "k \<noteq> h" "x \<notin> set ys"
  then show "slist (SLIST_INSERT_HEAD h x s) k ys"
    by (auto simp: slist_def slist_defs chain_frame)
qed (auto simp: slist_def SLIST_NEXT_def SLIST_INIT_def chain_nxt intro: chain_unique
      slist_insert_head [unfolded slist_def] slist_removed_repr [unfolded slist_def]
      slist_removed_frame [unfolded slist_def])

end
