(* ===== verification/Stailq.thy ===== *)
theory Stailq
  imports Slist
begin

text \<open>
  STAILQ, the singly linked tail queue of \<open>queue.h\<close>: a list whose head also keeps the address of
  the last cell.
\<close>

definition STAILQ_EMPTY :: "'h \<Rightarrow> ('h, 'e) qheap \<Rightarrow> bool" where
  "STAILQ_EMPTY h s \<longleftrightarrow> cell s (Head_cell h) = None"

definition STAILQ_FIRST :: "'h \<Rightarrow> ('h, 'e) qheap \<Rightarrow> 'e option" where
  "STAILQ_FIRST h s = cell s (Head_cell h)"

definition STAILQ_NEXT :: "'e \<Rightarrow> ('h, 'e) qheap \<Rightarrow> 'e option" where
  "STAILQ_NEXT e s = cell s (Next_cell e)"

definition STAILQ_FOREACH :: "'h \<Rightarrow> ('h, 'e) qheap \<Rightarrow> 'e list option" where
  "STAILQ_FOREACH h s = walk (\<lambda>e. STAILQ_NEXT e s) (STAILQ_FIRST h s)"

definition STAILQ_INIT :: "'h \<Rightarrow> ('h, 'e) qheap \<Rightarrow> ('h, 'e) qheap" where
  "STAILQ_INIT h s = set_last h (Head_cell h) (put (Head_cell h) None s)"

definition STAILQ_INSERT_AFTER :: "'h \<Rightarrow> 'e \<Rightarrow> 'e \<Rightarrow> ('h, 'e) qheap \<Rightarrow> ('h, 'e) qheap" where
  "STAILQ_INSERT_AFTER h te e s =
    (let s1 = put (Next_cell e) (STAILQ_NEXT te s) s;
         s2 = (if STAILQ_NEXT e s1 = None then set_last h (Next_cell e) s1 else s1)
     in put (Next_cell te) (Some e) s2)"

definition STAILQ_INSERT_HEAD :: "'h \<Rightarrow> 'e \<Rightarrow> ('h, 'e) qheap \<Rightarrow> ('h, 'e) qheap" where
  "STAILQ_INSERT_HEAD h e s =
    (let s1 = put (Next_cell e) (STAILQ_FIRST h s) s;
         s2 = (if STAILQ_NEXT e s1 = None then set_last h (Next_cell e) s1 else s1)
     in put (Head_cell h) (Some e) s2)"

definition STAILQ_INSERT_TAIL :: "'h \<Rightarrow> 'e \<Rightarrow> ('h, 'e) qheap \<Rightarrow> ('h, 'e) qheap" where
  "STAILQ_INSERT_TAIL h e s =
    (let s1 = put (Next_cell e) None s;
         s2 = put (qlast s1 h) (Some e) s1
     in set_last h (Next_cell e) s2)"

text \<open>
  \<open>STAILQ_LAST\<close> steps back from the address of the last cell to the element around it; in a head
  whose first cell is the last there is no element to step back to.
\<close>

definition STAILQ_LAST :: "'h \<Rightarrow> ('h, 'e) qheap \<Rightarrow> 'e option result" where
  "STAILQ_LAST h s = (if STAILQ_EMPTY h s then Inr None
     else case qlast s h of Next_cell e \<Rightarrow> Inr (Some e) | Head_cell _ \<Rightarrow> Inl Out_of_bounds)"

definition STAILQ_REMOVE_HEAD :: "'h \<Rightarrow> ('h, 'e) qheap \<Rightarrow> ('h, 'e) qheap result" where
  "STAILQ_REMOVE_HEAD h s = (case STAILQ_FIRST h s of
     None \<Rightarrow> Inl Null_pointer
   | Some e \<Rightarrow> let s1 = put (Head_cell h) (STAILQ_NEXT e s) s
       in Inr (if STAILQ_FIRST h s1 = None then set_last h (Head_cell h) s1 else s1))"

definition STAILQ_REMOVE_HEAD_UNTIL :: "'h \<Rightarrow> 'e \<Rightarrow> ('h, 'e) qheap \<Rightarrow> ('h, 'e) qheap" where
  "STAILQ_REMOVE_HEAD_UNTIL h e s =
    (let s1 = put (Head_cell h) (STAILQ_NEXT e s) s
     in if STAILQ_FIRST h s1 = None then set_last h (Head_cell h) s1 else s1)"

definition STAILQ_REMOVE :: "'h \<Rightarrow> 'e \<Rightarrow> ('h, 'e) qheap \<Rightarrow> ('h, 'e) qheap result option" where
  "STAILQ_REMOVE h e s =
    (if STAILQ_FIRST h s = Some e then Some (STAILQ_REMOVE_HEAD h s)
     else Option.bind (find_before s e (STAILQ_FIRST h s)) (\<lambda>r. Some (rbind r (\<lambda>c.
       case STAILQ_NEXT c s of
         None \<Rightarrow> Inl Null_pointer
       | Some n \<Rightarrow> let s1 = put (Next_cell c) (STAILQ_NEXT n s) s
           in Inr (if STAILQ_NEXT c s1 = None then set_last h (Next_cell c) s1 else s1)))))"

lemmas stailq_defs = STAILQ_EMPTY_def STAILQ_FIRST_def STAILQ_NEXT_def STAILQ_INIT_def
  STAILQ_INSERT_AFTER_def STAILQ_INSERT_HEAD_def STAILQ_INSERT_TAIL_def STAILQ_REMOVE_HEAD_def
  STAILQ_REMOVE_HEAD_UNTIL_def STAILQ_REMOVE_def Let_def

definition stailq :: "('h, 'e) qheap \<Rightarrow> 'h \<Rightarrow> 'e list \<Rightarrow> bool" where
  "stailq s h xs \<longleftrightarrow> chain (cell s) (Head_cell h) xs \<and> qlast s h = end_cell (Head_cell h) xs"

lemma stailq_chain: "stailq s h xs \<Longrightarrow> chain (cell s) (Head_cell h) xs"
  by (simp add: stailq_def)

lemma stailq_init: "stailq (STAILQ_INIT h s) h []"
  by (simp add: stailq_def STAILQ_INIT_def)

lemma stailq_nxt: "stailq s h (as @ x # bs) \<Longrightarrow> STAILQ_NEXT x s = head_opt bs"
  unfolding STAILQ_NEXT_def by (rule chain_nxt [OF stailq_chain])

lemma stailq_insert_head:
  assumes "stailq s h xs" "x \<notin> set xs"
  shows "stailq (STAILQ_INSERT_HEAD h x s) h (x # xs)"
  using chain_push [of "cell s" "Head_cell h" xs x] assms chain_first [of "cell s" "Head_cell h" xs]
  by (cases xs) (auto simp: stailq_def stailq_defs)

lemma stailq_insert_tail:
  assumes "stailq s h xs" "x \<notin> set xs"
  shows "stailq (STAILQ_INSERT_TAIL h x s) h (xs @ [x])"
  using chain_append [of "cell s" "Head_cell h" xs x] assms by (auto simp: stailq_def stailq_defs)

lemma stailq_insert_after:
  assumes "stailq s h (as @ y # bs)" "x \<notin> set (as @ y # bs)"
  shows "stailq (STAILQ_INSERT_AFTER h y x s) h (as @ y # x # bs)"
proof -
  have "chain ((cell s)(Next_cell x := cell s (end_cell (Head_cell h) (as @ [y])),
      end_cell (Head_cell h) (as @ [y]) := Some x)) (Head_cell h) ((as @ [y]) @ x # bs)"
    using assms by (intro chain_insert) (auto simp: stailq_def)
  moreover have "cell s (Next_cell y) = head_opt bs"
    using assms(1) by (intro chain_nxt [of _ "Head_cell h" as]) (rule stailq_chain)
  ultimately show ?thesis using assms by (cases bs) (auto simp: stailq_def stailq_defs)
qed

lemma stailq_last:
  assumes "stailq s h xs"
  shows "STAILQ_LAST h s = Inr (if xs = [] then None else Some (last xs))"
  using assms chain_first [of "cell s" "Head_cell h" xs]
  by (auto simp: STAILQ_LAST_def stailq_defs stailq_def end_cell_last)

text \<open>Removing an element bypasses its cell and, where it was the last, moves \<open>stqh_last\<close> back.\<close>

definition bypassed :: "'h \<Rightarrow> ('h, 'e) loc \<Rightarrow> 'e \<Rightarrow> ('h, 'e) qheap \<Rightarrow> ('h, 'e) qheap" where
  "bypassed h l x s = (let s1 = put l (cell s (Next_cell x)) s
     in if cell s (Next_cell x) = None then set_last h l s1 else s1)"

lemma stailq_remove:
  assumes "stailq s h (as @ x # bs)"
  shows "STAILQ_REMOVE h x s = Some (Inr (bypassed h (end_cell (Head_cell h) as) x s))"
    "stailq (bypassed h (end_cell (Head_cell h) as) x s) h (as @ bs)"
proof -
  have c: "chain (cell s) (Head_cell h) (as @ x # bs)" using assms by (rule stailq_chain)
  show "STAILQ_REMOVE h x s = Some (Inr (bypassed h (end_cell (Head_cell h) as) x s))"
  proof (cases as rule: rev_cases)
    case Nil
    then show ?thesis using chain_first [OF c] by (simp add: stailq_defs bypassed_def)
  next
    case (snoc zs a)
    then have "find_before s x (cell s (Head_cell h)) = Some (Inr a)"
      using find_before_split [of s _ zs a x bs] c by simp
    moreover have "cell s (Next_cell a) = Some x" using chain_nxt [of "cell s" _ zs a "x # bs"] c snoc by simp
    moreover have "cell s (Head_cell h) \<noteq> Some x"
      using chain_first [OF c] c snoc by (cases zs) (auto simp: chain_def)
    ultimately show ?thesis using snoc by (simp add: stailq_defs bypassed_def)
  qed
  have "chain ((cell s)(end_cell (Head_cell h) as := cell s (Next_cell x))) (Head_cell h) (as @ bs)"
    using c by (intro chain_bypass) auto
  moreover have "cell s (Next_cell x) = head_opt bs" using c by (rule chain_nxt)
  ultimately show "stailq (bypassed h (end_cell (Head_cell h) as) x s) h (as @ bs)"
    using assms by (cases bs) (auto simp: stailq_def bypassed_def Let_def)
qed

lemma stailq_remove_missing:
  assumes "stailq s h xs" "x \<notin> set xs"
  shows "STAILQ_REMOVE h x s = Some (Inl Null_pointer)"
proof -
  have "cell s (Head_cell h) \<noteq> Some x" using assms chain_first [of "cell s" "Head_cell h" xs]
    by (cases xs) (auto simp: stailq_def)
  then show ?thesis
    using find_before_eq [of s "Head_cell h" xs x] assms by (simp add: stailq_defs stailq_def)
qed

lemma chain_drop: "chain c l (as @ bs) \<Longrightarrow> chain c (end_cell l as) bs"
  by (simp add: chain_def)

lemma chain_move: "chain c l bs \<Longrightarrow> m \<notin> Next_cell ` set bs \<Longrightarrow> chain (c(m := c l)) m bs"
  by (cases bs) (auto simp: chain_Cons chain_frame)

lemma stailq_remove_until:
  assumes "stailq s h (as @ x # bs)"
  shows "stailq (STAILQ_REMOVE_HEAD_UNTIL h x s) h bs"
proof -
  have c: "chain (cell s) (Head_cell h) (as @ x # bs)" using assms by (rule stailq_chain)
  then have n: "cell s (Next_cell x) = head_opt bs" by (rule chain_nxt)
  have "chain (cell s) (Next_cell x) bs" using chain_drop [of "cell s" _ "as @ [x]" bs] c by simp
  then have "chain ((cell s)(Head_cell h := cell s (Next_cell x))) (Head_cell h) bs"
    by (intro chain_move) auto
  then show ?thesis using assms n by (cases bs) (auto simp: stailq_def stailq_defs)
qed

definition stailq_removed :: "'h \<Rightarrow> 'e \<Rightarrow> ('h, 'e) qheap \<Rightarrow> ('h, 'e) qheap" where
  "stailq_removed h x s = (case STAILQ_REMOVE h x s of Some (Inr s') \<Rightarrow> s' | _ \<Rightarrow> s)"

lemma stailq_removed_repr: "stailq s h (as @ x # bs) \<Longrightarrow> stailq (stailq_removed h x s) h (as @ bs)"
  by (simp add: stailq_removed_def stailq_remove)

lemma stailq_removed_frame:
  assumes "stailq s h xs" "stailq s k ys" "x \<in> set xs" "k \<noteq> h" "set xs \<inter> set ys = {}"
  shows "stailq (stailq_removed h x s) k ys"
proof -
  obtain as bs where xs: "xs = as @ x # bs" using assms(3) by (meson split_list)
  then show ?thesis
    using assms stailq_remove(1) [of s h as x bs] end_cell_foreign [of k h as ys]
    by (auto simp: stailq_removed_def stailq_def bypassed_def chain_frame Int_Un_distrib2 Let_def)
qed

lemma stailq_insert_tail_frame:
  assumes "stailq s h xs" "stailq s k ys" "k \<noteq> h" "x \<notin> set ys" "set xs \<inter> set ys = {}"
  shows "stailq (STAILQ_INSERT_TAIL h x s) k ys"
  using assms end_cell_foreign [of k h xs ys] by (auto simp: stailq_def stailq_defs chain_frame)

interpretation stailq: tail_list stailq STAILQ_INIT STAILQ_EMPTY STAILQ_FIRST STAILQ_NEXT
  STAILQ_INSERT_HEAD STAILQ_INSERT_TAIL
proof unfold_locales
  fix s :: "('h, 'e) qheap" and h xs
  assume s: "stailq s h xs"
  then show "distinct xs" by (simp add: stailq_def chain_def)
  show "STAILQ_EMPTY h s \<longleftrightarrow> xs = []" "STAILQ_FIRST h s = head_opt xs"
    using s chain_first [of "cell s" "Head_cell h" xs] by (auto simp: stailq_def stailq_defs)
  fix ys
  assume "stailq s h ys"
  with s show "xs = ys" by (auto simp: stailq_def intro: chain_unique)
next
  fix s :: "('h, 'e) qheap" and h k xs ys x
  assume "stailq s k ys" "k \<noteq> h" "x \<notin> set ys"
  then show "stailq (STAILQ_INSERT_HEAD h x s) k ys"
    by (auto simp: stailq_def stailq_defs chain_frame)
qed (auto simp: stailq_nxt
      intro: stailq_init stailq_insert_head stailq_insert_tail stailq_insert_tail_frame)

interpretation stailq_rem: removable_list stailq STAILQ_INIT STAILQ_EMPTY STAILQ_FIRST STAILQ_NEXT
  STAILQ_INSERT_HEAD stailq_removed
  by unfold_locales (auto intro: stailq_removed_repr stailq_removed_frame)

end
