(* ===== verification/Listq.thy ===== *)
theory Listq
  imports Seq_Interface
begin

text \<open>
  LIST, the doubly linked list of \<open>queue.h\<close>: every element keeps the address of the cell that
  points to it, so that it is removed without knowing the head.
\<close>

definition LIST_EMPTY :: "'h \<Rightarrow> ('h, 'e) qheap \<Rightarrow> bool" where
  "LIST_EMPTY h s \<longleftrightarrow> cell s (Head_cell h) = None"

definition LIST_FIRST :: "'h \<Rightarrow> ('h, 'e) qheap \<Rightarrow> 'e option" where
  "LIST_FIRST h s = cell s (Head_cell h)"

definition LIST_NEXT :: "'e \<Rightarrow> ('h, 'e) qheap \<Rightarrow> 'e option" where
  "LIST_NEXT e s = cell s (Next_cell e)"

definition LIST_FOREACH :: "'h \<Rightarrow> ('h, 'e) qheap \<Rightarrow> 'e list option" where
  "LIST_FOREACH h s = walk (\<lambda>e. LIST_NEXT e s) (LIST_FIRST h s)"

definition LIST_INIT :: "'h \<Rightarrow> ('h, 'e) qheap \<Rightarrow> ('h, 'e) qheap" where
  "LIST_INIT h s = put (Head_cell h) None s"

definition LIST_INSERT_AFTER :: "'e \<Rightarrow> 'e \<Rightarrow> ('h, 'e) qheap \<Rightarrow> ('h, 'e) qheap" where
  "LIST_INSERT_AFTER le e s =
    (let s1 = put (Next_cell e) (LIST_NEXT le s) s;
         s2 = (case LIST_NEXT e s1 of
                 None \<Rightarrow> s1
               | Some _ \<Rightarrow> (case LIST_NEXT le s1 of None \<Rightarrow> s1 | Some n \<Rightarrow> set_prev n (Next_cell e) s1));
         s3 = put (Next_cell le) (Some e) s2
     in set_prev e (Next_cell le) s3)"

definition LIST_INSERT_BEFORE :: "'e \<Rightarrow> 'e \<Rightarrow> ('h, 'e) qheap \<Rightarrow> ('h, 'e) qheap" where
  "LIST_INSERT_BEFORE le e s =
    (let s1 = set_prev e (qprev s le) s;
         s2 = put (Next_cell e) (Some le) s1;
         s3 = put (qprev s2 le) (Some e) s2
     in set_prev le (Next_cell e) s3)"

definition LIST_INSERT_HEAD :: "'h \<Rightarrow> 'e \<Rightarrow> ('h, 'e) qheap \<Rightarrow> ('h, 'e) qheap" where
  "LIST_INSERT_HEAD h e s =
    (let s1 = put (Next_cell e) (LIST_FIRST h s) s;
         s2 = (case LIST_NEXT e s1 of
                 None \<Rightarrow> s1
               | Some _ \<Rightarrow> (case LIST_FIRST h s1 of None \<Rightarrow> s1 | Some n \<Rightarrow> set_prev n (Next_cell e) s1));
         s3 = put (Head_cell h) (Some e) s2
     in set_prev e (Head_cell h) s3)"

definition LIST_REMOVE :: "'e \<Rightarrow> ('h, 'e) qheap \<Rightarrow> ('h, 'e) qheap" where
  "LIST_REMOVE e s =
    (let s1 = (case LIST_NEXT e s of None \<Rightarrow> s | Some n \<Rightarrow> set_prev n (qprev s e) s)
     in put (qprev s1 e) (LIST_NEXT e s1) s1)"

lemmas list_defs = LIST_EMPTY_def LIST_FIRST_def LIST_NEXT_def LIST_INIT_def
  LIST_INSERT_AFTER_def LIST_INSERT_BEFORE_def LIST_INSERT_HEAD_def LIST_REMOVE_def Let_def

definition listq :: "('h, 'e) qheap \<Rightarrow> 'h \<Rightarrow> 'e list \<Rightarrow> bool" where
  "listq s h xs \<longleftrightarrow> chain (cell s) (Head_cell h) xs \<and> linked (qprev s) (Head_cell h) xs"

lemma listq_first: "listq s h xs \<Longrightarrow> cell s (Head_cell h) = head_opt xs"
  by (cases xs) (auto simp: listq_def chain_def)

lemma listq_nxt: "listq s h (as @ x # bs) \<Longrightarrow> cell s (Next_cell x) = head_opt bs"
  by (cases bs) (auto simp: listq_def chain_def)

lemma listq_qprev: "listq s h (as @ x # bs) \<Longrightarrow> qprev s x = end_cell (Head_cell h) as"
  by (simp add: listq_def)

lemma listq_distinct: "listq s h xs \<Longrightarrow> distinct xs"
  by (simp add: listq_def chain_def)

lemma listq_insert_head:
  assumes "listq s h xs" "x \<notin> set xs"
  shows "listq (LIST_INSERT_HEAD h x s) h (x # xs)"
proof -
  have "chain ((cell s)(Next_cell x := cell s (Head_cell h), Head_cell h := Some x)) (Head_cell h) (x # xs)"
    using assms by (intro chain_push) (auto simp: listq_def)
  then show ?thesis
    using assms by (cases xs) (auto simp: listq_def list_defs chain_def)
qed

lemma listq_insert_after:
  assumes "listq s h (as @ y # bs)" "x \<notin> set (as @ y # bs)"
  shows "listq (LIST_INSERT_AFTER y x s) h (as @ y # x # bs)"
proof -
  have "chain ((cell s)(Next_cell x := cell s (end_cell (Head_cell h) (as @ [y])),
      end_cell (Head_cell h) (as @ [y]) := Some x)) (Head_cell h) ((as @ [y]) @ x # bs)"
    using assms by (intro chain_insert) (auto simp: listq_def)
  moreover have "cell s (Next_cell y) = head_opt bs"
    using assms(1) by (rule listq_nxt)
  ultimately show ?thesis
    using assms listq_distinct [OF assms(1)] by (cases bs) (auto simp: listq_def list_defs)
qed

lemma listq_insert_before:
  assumes "listq s h (as @ y # bs)" "x \<notin> set (as @ y # bs)"
  shows "listq (LIST_INSERT_BEFORE y x s) h (as @ x # y # bs)"
proof -
  have q: "qprev s y = end_cell (Head_cell h) as" using assms(1) by (rule listq_qprev)
  have c: "cell s (end_cell (Head_cell h) as) = Some y" using assms(1) by (auto simp: listq_def chain_def)
  have "chain ((cell s)(Next_cell x := cell s (end_cell (Head_cell h) as),
      end_cell (Head_cell h) as := Some x)) (Head_cell h) (as @ x # y # bs)"
    using assms by (intro chain_insert) (auto simp: listq_def)
  then show ?thesis
    using assms q c listq_distinct [OF assms(1)] by (auto simp: listq_def list_defs)
qed

lemma listq_remove:
  assumes "listq s h (as @ x # bs)"
  shows "listq (LIST_REMOVE x s) h (as @ bs)"
proof -
  have q: "qprev s x = end_cell (Head_cell h) as" using assms by (rule listq_qprev)
  have n: "cell s (Next_cell x) = head_opt bs" using assms by (rule listq_nxt)
  have "chain ((cell s)(end_cell (Head_cell h) as := cell s (Next_cell x))) (Head_cell h) (as @ bs)"
    using assms by (intro chain_bypass) (auto simp: listq_def)
  then show ?thesis
    using assms q n listq_distinct [OF assms] by (cases bs) (auto simp: listq_def list_defs)
qed

lemma listq_insert_head_frame:
  assumes "listq s h xs" "listq s k ys" "k \<noteq> h" "x \<notin> set ys" "set xs \<inter> set ys = {}"
  shows "listq (LIST_INSERT_HEAD h x s) k ys"
  using assms listq_first [OF assms(1)]
  by (cases xs) (auto simp: listq_def list_defs chain_frame)

lemma listq_remove_frame:
  assumes "listq s h xs" "listq s k ys" "x \<in> set xs" "k \<noteq> h" "set xs \<inter> set ys = {}"
  shows "listq (LIST_REMOVE x s) k ys"
proof -
  obtain as bs where xs: "xs = as @ x # bs" using assms(3) by (meson split_list)
  have q: "qprev s x = end_cell (Head_cell h) as" using assms(1) xs by (auto intro: listq_qprev)
  have n: "cell s (Next_cell x) = head_opt bs" using assms(1) xs by (auto intro: listq_nxt)
  have "end_cell (Head_cell h) as \<noteq> Head_cell k \<and> end_cell (Head_cell h) as \<notin> Next_cell ` set ys"
    using assms xs by (intro end_cell_foreign) auto
  then show ?thesis
    using assms q n xs by (cases bs) (auto simp: listq_def list_defs chain_frame)
qed

lemma listq_unique: "listq s h xs \<Longrightarrow> listq s h ys \<Longrightarrow> xs = ys"
  by (auto simp: listq_def intro: chain_unique)

lemma listq_init: "listq (LIST_INIT h s) h []"
  by (simp add: listq_def LIST_INIT_def)

lemma listq_next: "listq s h (as @ x # bs) \<Longrightarrow> LIST_NEXT x s = head_opt bs"
  unfolding LIST_NEXT_def by (rule listq_nxt)

interpretation listq: removable_list listq LIST_INIT LIST_EMPTY LIST_FIRST LIST_NEXT
  LIST_INSERT_HEAD "\<lambda>h. LIST_REMOVE"
proof unfold_locales
  fix s :: "('h, 'e) qheap" and h xs
  assume s: "listq s h xs"
  then show "distinct xs" by (rule listq_distinct)
  show "LIST_EMPTY h s \<longleftrightarrow> xs = []" "LIST_FIRST h s = head_opt xs"
    using listq_first [OF s] by (auto simp: list_defs)
qed (auto simp: listq_next intro: listq_init listq_unique listq_insert_head listq_insert_head_frame
      listq_remove listq_remove_frame)

definition LIST_FOREACH_SAFE ::
  "'h \<Rightarrow> ('e \<Rightarrow> ('h, 'e) qheap \<Rightarrow> ('h, 'e) qheap) \<Rightarrow> ('h, 'e) qheap \<Rightarrow> ('h, 'e) qheap option" where
  "LIST_FOREACH_SAFE h body s = foreach_safe LIST_NEXT body (LIST_FIRST h s) s"


lemma listq_foreach_safe:
  "listq s h xs \<Longrightarrow> \<exists>s'. LIST_FOREACH_SAFE h (\<lambda>e s. if P e then LIST_REMOVE e s else s) s = Some s' \<and>
    listq s' h (filter (\<lambda>x. \<not> P x) xs)"
  using listq.safe_removal [of s h xs P] by (simp add: LIST_FOREACH_SAFE_def)

end
