(* ===== verification/Circleq.thy ===== *)
theory Circleq
  imports Seq_Interface
begin

text \<open>
  CIRCLEQ, the circular queue of \<open>queue.h\<close>. The ring runs through its head: the last element's next
  and the first one's previous reference are the head itself, cast to an element. A reference is
  a head or an element; \<open>cnext\<close> of a head is its \<open>cqh_first\<close>, of an element its \<open>cqe_next\<close>, and
  \<open>cprev\<close> likewise \<open>cqh_last\<close> and \<open>cqe_prev\<close>. The macros compare with the head before they write
  through a reference, so that in a ring the two are never confused.
\<close>

datatype ('h, 'e) cref = Ring 'h | Elem 'e

record ('h, 'e) cheap =
  cnext :: "('h, 'e) cref \<Rightarrow> ('h, 'e) cref"
  cprev :: "('h, 'e) cref \<Rightarrow> ('h, 'e) cref"

definition set_cnext :: "('h, 'e) cref \<Rightarrow> ('h, 'e) cref \<Rightarrow> ('h, 'e) cheap \<Rightarrow> ('h, 'e) cheap" where
  "set_cnext r v s = s\<lparr>cnext := (cnext s)(r := v)\<rparr>"

definition set_cprev :: "('h, 'e) cref \<Rightarrow> ('h, 'e) cref \<Rightarrow> ('h, 'e) cheap \<Rightarrow> ('h, 'e) cheap" where
  "set_cprev r v s = s\<lparr>cprev := (cprev s)(r := v)\<rparr>"

lemma cheap_fields [simp]:
  "cnext (set_cnext r v s) = (cnext s)(r := v)" "cprev (set_cnext r v s) = cprev s"
  "cnext (set_cprev r v s) = cnext s" "cprev (set_cprev r v s) = (cprev s)(r := v)"
  by (simp_all add: set_cnext_def set_cprev_def)

section \<open>The macros\<close>

definition CIRCLEQ_EMPTY :: "'h \<Rightarrow> ('h, 'e) cheap \<Rightarrow> bool" where
  "CIRCLEQ_EMPTY h s \<longleftrightarrow> cnext s (Ring h) = Ring h"

definition CIRCLEQ_FIRST :: "'h \<Rightarrow> ('h, 'e) cheap \<Rightarrow> ('h, 'e) cref" where
  "CIRCLEQ_FIRST h s = cnext s (Ring h)"

definition CIRCLEQ_LAST :: "'h \<Rightarrow> ('h, 'e) cheap \<Rightarrow> ('h, 'e) cref" where
  "CIRCLEQ_LAST h s = cprev s (Ring h)"

definition CIRCLEQ_NEXT :: "'e \<Rightarrow> ('h, 'e) cheap \<Rightarrow> ('h, 'e) cref" where
  "CIRCLEQ_NEXT e s = cnext s (Elem e)"

definition CIRCLEQ_PREV :: "'e \<Rightarrow> ('h, 'e) cheap \<Rightarrow> ('h, 'e) cref" where
  "CIRCLEQ_PREV e s = cprev s (Elem e)"

text \<open>The loop variable of a traversal: \<open>NULL\<close> once it has come round to the head.\<close>

definition as_elem :: "('h, 'e) cref \<Rightarrow> 'e option" where
  "as_elem r = (case r of Elem e \<Rightarrow> Some e | Ring _ \<Rightarrow> None)"

definition CIRCLEQ_FOREACH :: "'h \<Rightarrow> ('h, 'e) cheap \<Rightarrow> 'e list option" where
  "CIRCLEQ_FOREACH h s =
     walk (\<lambda>e. as_elem (CIRCLEQ_NEXT e s)) (as_elem (CIRCLEQ_FIRST h s))"

definition CIRCLEQ_FOREACH_REVERSE :: "'h \<Rightarrow> ('h, 'e) cheap \<Rightarrow> 'e list option" where
  "CIRCLEQ_FOREACH_REVERSE h s =
     walk (\<lambda>e. as_elem (CIRCLEQ_PREV e s)) (as_elem (CIRCLEQ_LAST h s))"

definition CIRCLEQ_INIT :: "'h \<Rightarrow> ('h, 'e) cheap \<Rightarrow> ('h, 'e) cheap" where
  "CIRCLEQ_INIT h s = set_cprev (Ring h) (Ring h) (set_cnext (Ring h) (Ring h) s)"

definition CIRCLEQ_INSERT_AFTER :: "'h \<Rightarrow> 'e \<Rightarrow> 'e \<Rightarrow> ('h, 'e) cheap \<Rightarrow> ('h, 'e) cheap" where
  "CIRCLEQ_INSERT_AFTER h le e s =
    (let s1 = set_cnext (Elem e) (CIRCLEQ_NEXT le s) s;
         s2 = set_cprev (Elem e) (Elem le) s1;
         s3 = (if CIRCLEQ_NEXT le s2 = Ring h then set_cprev (Ring h) (Elem e) s2
               else set_cprev (CIRCLEQ_NEXT le s2) (Elem e) s2)
     in set_cnext (Elem le) (Elem e) s3)"

definition CIRCLEQ_INSERT_BEFORE :: "'h \<Rightarrow> 'e \<Rightarrow> 'e \<Rightarrow> ('h, 'e) cheap \<Rightarrow> ('h, 'e) cheap" where
  "CIRCLEQ_INSERT_BEFORE h le e s =
    (let s1 = set_cnext (Elem e) (Elem le) s;
         s2 = set_cprev (Elem e) (CIRCLEQ_PREV le s1) s1;
         s3 = (if CIRCLEQ_PREV le s2 = Ring h then set_cnext (Ring h) (Elem e) s2
               else set_cnext (CIRCLEQ_PREV le s2) (Elem e) s2)
     in set_cprev (Elem le) (Elem e) s3)"

definition CIRCLEQ_INSERT_HEAD :: "'h \<Rightarrow> 'e \<Rightarrow> ('h, 'e) cheap \<Rightarrow> ('h, 'e) cheap" where
  "CIRCLEQ_INSERT_HEAD h e s =
    (let s1 = set_cnext (Elem e) (CIRCLEQ_FIRST h s) s;
         s2 = set_cprev (Elem e) (Ring h) s1;
         s3 = (if CIRCLEQ_LAST h s2 = Ring h then set_cprev (Ring h) (Elem e) s2
               else set_cprev (CIRCLEQ_FIRST h s2) (Elem e) s2)
     in set_cnext (Ring h) (Elem e) s3)"

definition CIRCLEQ_INSERT_TAIL :: "'h \<Rightarrow> 'e \<Rightarrow> ('h, 'e) cheap \<Rightarrow> ('h, 'e) cheap" where
  "CIRCLEQ_INSERT_TAIL h e s =
    (let s1 = set_cnext (Elem e) (Ring h) s;
         s2 = set_cprev (Elem e) (CIRCLEQ_LAST h s1) s1;
         s3 = (if CIRCLEQ_FIRST h s2 = Ring h then set_cnext (Ring h) (Elem e) s2
               else set_cnext (CIRCLEQ_LAST h s2) (Elem e) s2)
     in set_cprev (Ring h) (Elem e) s3)"

definition CIRCLEQ_REMOVE :: "'h \<Rightarrow> 'e \<Rightarrow> ('h, 'e) cheap \<Rightarrow> ('h, 'e) cheap" where
  "CIRCLEQ_REMOVE h e s =
    (let s1 = (if CIRCLEQ_NEXT e s = Ring h then set_cprev (Ring h) (CIRCLEQ_PREV e s) s
               else set_cprev (CIRCLEQ_NEXT e s) (CIRCLEQ_PREV e s) s)
     in if CIRCLEQ_PREV e s1 = Ring h then set_cnext (Ring h) (CIRCLEQ_NEXT e s1) s1
        else set_cnext (CIRCLEQ_PREV e s1) (CIRCLEQ_NEXT e s1) s1)"

lemmas circleq_defs = CIRCLEQ_EMPTY_def CIRCLEQ_FIRST_def CIRCLEQ_LAST_def CIRCLEQ_NEXT_def
  CIRCLEQ_PREV_def CIRCLEQ_INIT_def CIRCLEQ_INSERT_AFTER_def CIRCLEQ_INSERT_BEFORE_def
  CIRCLEQ_INSERT_HEAD_def CIRCLEQ_INSERT_TAIL_def CIRCLEQ_REMOVE_def Let_def

section \<open>Rings\<close>

text \<open>Neighbours in the sequence of references point at each other.\<close>

fun links :: "('r \<Rightarrow> 'r) \<Rightarrow> ('r \<Rightarrow> 'r) \<Rightarrow> 'r list \<Rightarrow> bool" where
  "links nx pv [] \<longleftrightarrow> True"
| "links nx pv [r] \<longleftrightarrow> True"
| "links nx pv (r # q # rs) \<longleftrightarrow> nx r = q \<and> pv q = r \<and> links nx pv (q # rs)"

definition ring :: "'h \<Rightarrow> 'e list \<Rightarrow> ('h, 'e) cref list" where
  "ring h xs = Ring h # map Elem xs @ [Ring h]"

definition circleq :: "('h, 'e) cheap \<Rightarrow> 'h \<Rightarrow> 'e list \<Rightarrow> bool" where
  "circleq s h xs \<longleftrightarrow> distinct xs \<and> links (cnext s) (cprev s) (ring h xs)"

lemma links_split: "links nx pv (rs @ p # q # qs) \<longleftrightarrow>
    links nx pv (rs @ [p]) \<and> nx p = q \<and> pv q = p \<and> links nx pv (q # qs)"
proof (induction rs)
  case (Cons r rs)
  then show ?case by (cases rs) auto
qed simp

lemma links_next [simp]: "p \<notin> set (butlast rs) \<Longrightarrow> links (nx(p := v)) pv rs = links nx pv rs"
  by (induction nx pv rs rule: links.induct) auto

lemma links_prev [simp]: "q \<notin> set (tl rs) \<Longrightarrow> links nx (pv(q := v)) rs = links nx pv rs"
proof (induction nx pv rs rule: links.induct)
  case (3 nx pv r p rs)
  then show ?case by (cases rs) auto
qed auto

lemma links_insert:
  assumes "links nx pv (rs @ p # q # qs)" "distinct (rs @ [p])" "distinct (q # qs)"
    "p \<notin> set (butlast (q # qs))" "q \<notin> set (tl (rs @ [p]))" "x \<notin> set (rs @ p # q # qs)"
  shows "links (nx(x := q, p := x)) (pv(x := p, q := x)) (rs @ p # x # q # qs)"
proof -
  have "x \<notin> set (tl (rs @ [p]))" "x \<notin> set (butlast (q # qs))"
    using assms(6) by (auto dest: in_set_butlastD) (cases rs; auto)
  then show ?thesis
    using assms by (auto simp: links_split [of _ _ rs p] links_split [of _ _ "rs @ [p]" x, simplified])
qed

lemma links_bypass:
  assumes "links nx pv (rs @ p # x # q # qs)" "distinct (rs @ [p])" "distinct (q # qs)"
    "p \<notin> set (butlast (q # qs))" "q \<notin> set (tl (rs @ [p]))"
  shows "links (nx(p := q)) (pv(q := p)) (rs @ p # q # qs)"
  using assms by (auto simp: links_split [of _ _ rs p])

text \<open>The references around a position of the ring.\<close>

definition before :: "'h \<Rightarrow> 'e list \<Rightarrow> ('h, 'e) cref" where
  "before h as = last (Ring h # map Elem as)"

definition after :: "'h \<Rightarrow> 'e list \<Rightarrow> ('h, 'e) cref" where
  "after h bs = hd (map Elem bs @ [Ring h])"

lemma ring_ends [simp]:
  "before h [] = Ring h" "before h (as @ [a]) = Elem a" "after h [] = Ring h" "after h (b # bs) = Elem b"
  by (simp_all add: before_def after_def)

lemma before_cases: "before h as = (if as = [] then Ring h else Elem (last as))"
  by (simp add: before_def last_map)

lemma after_cases: "after h bs = (if bs = [] then Ring h else Elem (hd bs))"
  by (cases bs) simp_all

lemma ring_append: "ring h (as @ bs) = butlast (Ring h # map Elem as) @ before h as # after h bs #
    tl (map Elem bs @ [Ring h])"
proof -
  have "ring h (as @ bs) = (Ring h # map Elem as) @ (map Elem bs @ [Ring h])" by (simp add: ring_def)
  also have "Ring h # map Elem as = butlast (Ring h # map Elem as) @ [before h as]"
    unfolding before_def by (rule append_butlast_last_id [symmetric]) simp
  also have "map Elem bs @ [Ring h] = after h bs # tl (map Elem bs @ [Ring h])"
    unfolding after_def by (cases bs) simp_all
  finally show ?thesis by simp
qed

lemma ring_Cons: "ring h (as @ x # bs) = butlast (Ring h # map Elem as) @ before h as # Elem x # after h bs #
    tl (map Elem bs @ [Ring h])"
  using ring_append [of h "as @ [x]" bs] by (cases as rule: rev_cases)
    (auto simp: butlast_append before_def)

lemma ring_at: "links nx pv (ring h (as @ bs)) \<Longrightarrow> nx (before h as) = after h bs \<and> pv (after h bs) = before h as"
  unfolding ring_append by (subst (asm) links_split) simp

lemma ring_elem:
  assumes "links nx pv (ring h (as @ x # bs))"
  shows "nx (Elem x) = after h bs" "pv (Elem x) = before h as"
    "nx (before h as) = Elem x" "pv (after h bs) = Elem x"
  using ring_at [of nx pv h "as @ [x]" bs] ring_at [of nx pv h as "x # bs"] assms by simp_all

lemma ring_distinct:
  assumes "distinct (as @ bs)"
  shows "distinct (butlast (Ring h # map Elem as) @ [before h as])"
    "distinct (after h bs # tl (map Elem bs @ [Ring h]))"
    "before h as \<notin> set (butlast (after h bs # tl (map Elem bs @ [Ring h])))"
    "after h bs \<notin> set (tl (butlast (Ring h # map Elem as) @ [before h as]))"
proof -
  have b: "butlast (Ring h # map Elem as) @ [before h as] = Ring h # map Elem as"
    unfolding before_def by (rule append_butlast_last_id) simp
  have a: "after h bs # tl (map Elem bs @ [Ring h]) = map Elem bs @ [Ring h]"
    unfolding after_def by (cases bs) simp_all
  have e: "Elem x \<in> Elem ` A \<longleftrightarrow> x \<in> A" for x :: 'b and A by auto
  show "distinct (butlast (Ring h # map Elem as) @ [before h as])"
    "distinct (after h bs # tl (map Elem bs @ [Ring h]))"
    "before h as \<notin> set (butlast (after h bs # tl (map Elem bs @ [Ring h])))"
    "after h bs \<notin> set (tl (butlast (Ring h # map Elem as) @ [before h as]))"
    unfolding a b using assms
    by (auto simp: distinct_map inj_on_def e before_cases after_cases dest: last_in_set hd_in_set)
qed

lemma ring_insert:
  assumes "links nx pv (ring h (as @ bs))" "distinct (as @ bs)" "x \<notin> set (as @ bs)"
  shows "links (nx(Elem x := after h bs, before h as := Elem x))
    (pv(Elem x := before h as, after h bs := Elem x)) (ring h (as @ x # bs))"
proof -
  have "Elem x \<notin> set (ring h (as @ bs))" using assms(3) by (auto simp: ring_def)
  then show ?thesis
    unfolding ring_Cons using assms(1) ring_distinct [OF assms(2), of h]
    by (intro links_insert) (simp_all add: ring_append)
qed

lemma ring_bypass:
  assumes "links nx pv (ring h (as @ x # bs))" "distinct (as @ x # bs)"
  shows "links (nx(before h as := after h bs)) (pv(after h bs := before h as)) (ring h (as @ bs))"
  unfolding ring_append using assms ring_distinct [of as bs h]
  by (intro links_bypass [of nx pv _ _ "Elem x"]) (simp_all add: ring_Cons)

lemma links_apart:
  "(\<And>r. r \<in> set rs \<Longrightarrow> nx' r = nx r) \<Longrightarrow> (\<And>r. r \<in> set rs \<Longrightarrow> pv' r = pv r) \<Longrightarrow>
    links nx' pv' rs = links nx pv rs"
  by (induction nx pv rs rule: links.induct) auto

section \<open>Each macro performs its operation\<close>

lemma circleq_insert_after:
  assumes "circleq s h (as @ y # bs)" "x \<notin> set (as @ y # bs)"
  shows "circleq (CIRCLEQ_INSERT_AFTER h y x s) h (as @ y # x # bs)"
  using assms ring_insert [of "cnext s" "cprev s" h "as @ [y]" bs x] ring_elem [of "cnext s" "cprev s" h as y bs]
  by (auto simp: circleq_def circleq_defs)

lemma circleq_insert_before:
  assumes "circleq s h (as @ y # bs)" "x \<notin> set (as @ y # bs)"
  shows "circleq (CIRCLEQ_INSERT_BEFORE h y x s) h (as @ x # y # bs)"
  using assms ring_insert [of "cnext s" "cprev s" h as "y # bs" x] ring_elem [of "cnext s" "cprev s" h as y bs]
  by (auto simp: circleq_def circleq_defs)

lemma circleq_insert_head:
  assumes "circleq s h xs" "x \<notin> set xs"
  shows "circleq (CIRCLEQ_INSERT_HEAD h x s) h (x # xs)"
  using assms ring_insert [of "cnext s" "cprev s" h "[]" xs x] ring_at [of "cnext s" "cprev s" h "[]" xs]
    ring_at [of "cnext s" "cprev s" h xs "[]"]
  by (auto simp: circleq_def circleq_defs before_cases after_cases)

lemma circleq_insert_tail:
  assumes "circleq s h xs" "x \<notin> set xs"
  shows "circleq (CIRCLEQ_INSERT_TAIL h x s) h (xs @ [x])"
  using assms ring_insert [of "cnext s" "cprev s" h xs "[]" x] ring_at [of "cnext s" "cprev s" h "[]" xs]
    ring_at [of "cnext s" "cprev s" h xs "[]"]
  by (auto simp: circleq_def circleq_defs before_cases after_cases)

lemma circleq_remove:
  assumes "circleq s h (as @ x # bs)"
  shows "circleq (CIRCLEQ_REMOVE h x s) h (as @ bs)"
  using assms ring_bypass [of "cnext s" "cprev s" h as x bs] ring_elem [of "cnext s" "cprev s" h as x bs]
  by (auto simp: circleq_def circleq_defs)

lemma links_unique:
  "links nx pv (r # map Elem xs @ [Ring h]) \<Longrightarrow> links nx pv (r # map Elem ys @ [Ring h]) \<Longrightarrow> xs = ys"
proof (induction xs arbitrary: r ys)
  case Nil
  then show ?case by (cases ys) auto
next
  case (Cons x xs)
  then show ?case by (cases ys) auto
qed

lemma circleq_unique: "circleq s h xs \<Longrightarrow> circleq s h ys \<Longrightarrow> xs = ys"
  by (auto simp: circleq_def ring_def dest: links_unique)

lemma circleq_init: "circleq (CIRCLEQ_INIT h s) h []"
  by (simp add: circleq_def ring_def CIRCLEQ_INIT_def)

lemma circleq_first: "circleq s h xs \<Longrightarrow> CIRCLEQ_FIRST h s = after h xs"
  using ring_at [of "cnext s" "cprev s" h "[]" xs] by (simp add: circleq_def CIRCLEQ_FIRST_def)

lemma circleq_last: "circleq s h xs \<Longrightarrow> CIRCLEQ_LAST h s = before h xs"
  using ring_at [of "cnext s" "cprev s" h xs "[]"] by (simp add: circleq_def CIRCLEQ_LAST_def)

lemma circleq_elem:
  assumes "circleq s h (as @ x # bs)"
  shows "CIRCLEQ_NEXT x s = after h bs" "CIRCLEQ_PREV x s = before h as"
  using assms ring_elem [of "cnext s" "cprev s" h as x bs]
  by (simp_all add: circleq_def CIRCLEQ_NEXT_def CIRCLEQ_PREV_def)

lemma as_elem_after [simp]: "as_elem (after h bs) = head_opt bs"
  by (cases bs) (simp_all add: as_elem_def)

lemma as_elem_before [simp]: "as_elem (before h as) = head_opt (rev as)"
  by (cases as rule: rev_cases) (simp_all add: as_elem_def)

text \<open>A ring keeps out of the way of another.\<close>

lemma circleq_apart:
  assumes "circleq s k ys" "k \<noteq> h" "set xs \<inter> set ys = {}"
    "\<And>r. r \<notin> insert (Ring h) (Elem ` set xs) \<Longrightarrow> cnext s' r = cnext s r \<and> cprev s' r = cprev s r"
  shows "circleq s' k ys"
proof -
  have "r \<notin> insert (Ring h) (Elem ` set xs)" if "r \<in> set (ring k ys)" for r
    using that assms(2,3) by (auto simp: ring_def)
  then have "links (cnext s') (cprev s') (ring k ys) = links (cnext s) (cprev s) (ring k ys)"
    using assms(4) by (intro links_apart) blast+
  then show ?thesis using assms(1) by (simp add: circleq_def)
qed

lemma before_in: "before h as \<in> insert (Ring h) (Elem ` set as)"
  by (auto simp: before_cases)

lemma after_in: "after h bs \<in> insert (Ring h) (Elem ` set bs)"
  by (auto simp: after_cases)

lemma circleq_insert_head_frame:
  assumes "circleq s h xs" "circleq s k ys" "k \<noteq> h" "x \<notin> set ys" "set xs \<inter> set ys = {}"
  shows "circleq (CIRCLEQ_INSERT_HEAD h x s) k ys"
proof (rule circleq_apart [of s k ys h "x # xs"])
  fix r assume "r \<notin> insert (Ring h) (Elem ` set (x # xs))"
  then show "cnext (CIRCLEQ_INSERT_HEAD h x s) r = cnext s r \<and> cprev (CIRCLEQ_INSERT_HEAD h x s) r = cprev s r"
    using circleq_first [OF assms(1)] after_in [of h xs] by (auto simp: circleq_defs)
qed (use assms in auto)

lemma circleq_insert_tail_frame:
  assumes "circleq s h xs" "circleq s k ys" "k \<noteq> h" "x \<notin> set ys" "set xs \<inter> set ys = {}"
  shows "circleq (CIRCLEQ_INSERT_TAIL h x s) k ys"
proof (rule circleq_apart [of s k ys h "x # xs"])
  fix r assume "r \<notin> insert (Ring h) (Elem ` set (x # xs))"
  then show "cnext (CIRCLEQ_INSERT_TAIL h x s) r = cnext s r \<and> cprev (CIRCLEQ_INSERT_TAIL h x s) r = cprev s r"
    using circleq_last [OF assms(1)] before_in [of h xs] by (auto simp: circleq_defs)
qed (use assms in auto)

lemma circleq_remove_frame:
  assumes "circleq s h xs" "circleq s k ys" "x \<in> set xs" "k \<noteq> h" "set xs \<inter> set ys = {}"
  shows "circleq (CIRCLEQ_REMOVE h x s) k ys"
proof (rule circleq_apart [of s k ys h xs])
  obtain as bs where xs: "xs = as @ x # bs" using assms(3) by (meson split_list)
  fix r assume "r \<notin> insert (Ring h) (Elem ` set xs)"
  then show "cnext (CIRCLEQ_REMOVE h x s) r = cnext s r \<and> cprev (CIRCLEQ_REMOVE h x s) r = cprev s r"
    using circleq_elem [of s h as x bs] assms(1) xs before_in [of h as] after_in [of h bs]
    by (auto simp: circleq_defs)
qed (use assms in auto)

interpretation circleq: tail_list circleq CIRCLEQ_INIT CIRCLEQ_EMPTY
  "\<lambda>h s. as_elem (CIRCLEQ_FIRST h s)" "\<lambda>e s. as_elem (CIRCLEQ_NEXT e s)"
  CIRCLEQ_INSERT_HEAD CIRCLEQ_INSERT_TAIL
proof unfold_locales
  fix s :: "('h, 'e) cheap" and h xs
  assume s: "circleq s h xs"
  then show "distinct xs" by (simp add: circleq_def)
  show "CIRCLEQ_EMPTY h s \<longleftrightarrow> xs = []"
    using circleq_first [OF s] by (simp add: circleq_defs after_cases)
qed (auto simp: circleq_first circleq_elem
      intro: circleq_unique circleq_init circleq_insert_head circleq_insert_head_frame
        circleq_insert_tail circleq_insert_tail_frame)

interpretation circleq_rem: removable_list circleq CIRCLEQ_INIT CIRCLEQ_EMPTY
  "\<lambda>h s. as_elem (CIRCLEQ_FIRST h s)" "\<lambda>e s. as_elem (CIRCLEQ_NEXT e s)"
  CIRCLEQ_INSERT_HEAD CIRCLEQ_REMOVE
  by unfold_locales (auto intro: circleq_remove circleq_remove_frame)

section \<open>Traversals in both directions\<close>

lemma circleq_foreach: "circleq s h xs \<Longrightarrow> CIRCLEQ_FOREACH h s = Some xs"
  unfolding CIRCLEQ_FOREACH_def by (rule circleq.foreach_visits)

lemma circleq_walk_back:
  "circleq s h (as @ bs) \<Longrightarrow> walk (\<lambda>e. as_elem (CIRCLEQ_PREV e s)) (head_opt (rev as)) = Some (rev as)"
proof (induction as arbitrary: bs rule: rev_induct)
  case (snoc x as)
  then show ?case using snoc.IH [of "x # bs"] circleq_elem(2) [of s h as x bs] by simp
qed simp

lemma circleq_foreach_reverse: "circleq s h xs \<Longrightarrow> CIRCLEQ_FOREACH_REVERSE h s = Some (rev xs)"
  using circleq_walk_back [of s h xs "[]"]
  by (simp add: CIRCLEQ_FOREACH_REVERSE_def circleq_last)

end
