(* ===== verification/Common.thy ===== *)
theory Common
  imports Prelude
begin

text \<open>
  The macros of \<open>qemu-vga/include/common.h\<close>: counting, rounding and bit searches on 32-bit
  values. The compiler's \<open>__builtin_ctz(0)\<close> and \<open>__builtin_clz(0)\<close> are undefined, so their
  value at 0 is the first argument \<open>z\<close> of the model. The rounding macros divide, and dividing
  by 0 is a fault.
\<close>

section \<open>Rounding\<close>

definition howmany :: "u32 \<Rightarrow> u32 \<Rightarrow> u32 result" where
  "howmany x y = (if y = 0 then Inl Divide_by_zero else Inr ((x + (y - 1)) div y))"

definition rounddown :: "u32 \<Rightarrow> u32 \<Rightarrow> u32 result" where
  "rounddown x y = (if y = 0 then Inl Divide_by_zero else Inr ((x div y) * y))"

definition roundup :: "u32 \<Rightarrow> u32 \<Rightarrow> u32 result" where
  "roundup x y = (if y = 0 then Inl Divide_by_zero else Inr (((x + (y - 1)) div y) * y))"

definition powerof2 :: "u32 \<Rightarrow> bool" where
  "powerof2 x \<longleftrightarrow> (x - 1) AND x = 0"

definition c_align :: "u32 \<Rightarrow> u32 \<Rightarrow> u32" where
  "c_align addr sz = (addr + (sz - 1)) AND - sz"

definition is_aligned :: "u32 \<Rightarrow> u32 \<Rightarrow> bool" where
  "is_aligned addr sz \<longleftrightarrow> addr AND (sz - 1) = 0"

section \<open>Bit searches\<close>

definition trailing_zeros :: "u32 \<Rightarrow> nat" where
  "trailing_zeros x = length (takeWhile (\<lambda>i. \<not> bit x i) [0..<32])"

definition c_ffs :: "u32 \<Rightarrow> int" where
  "c_ffs x = (if x = 0 then 0 else int (trailing_zeros x) + 1)"

definition c_log2 :: "u32 \<Rightarrow> int" where
  "c_log2 x = c_ffs x - 1"

definition c_ctz :: "int \<Rightarrow> u32 \<Rightarrow> int" where
  "c_ctz z x = (if x = 0 then z else int (trailing_zeros x))"

definition c_clz :: "int \<Rightarrow> u32 \<Rightarrow> int" where
  "c_clz z x = (if x = 0 then z else int (length (takeWhile (\<lambda>i. \<not> bit x i) (rev [0..<32]))))"

section \<open>Choosing and exchanging\<close>

definition c_abs :: "int \<Rightarrow> int" where
  "c_abs x = (if x < 0 then - x else x)"

definition c_min :: "'a::linorder \<Rightarrow> 'a \<Rightarrow> 'a" where
  "c_min a b = (if a < b then a else b)"

definition c_max :: "'a::linorder \<Rightarrow> 'a \<Rightarrow> 'a" where
  "c_max a b = (if a > b then a else b)"

text \<open>\<open>swap(a, b)\<close> exchanges two variables: the pair of their new values.\<close>

definition c_swap :: "'a \<Rightarrow> 'a \<Rightarrow> 'a \<times> 'a" where
  "c_swap a b = (let t = a; u = b in (u, t))"

lemma c_swap_eq [simp]: "c_swap a b = (b, a)"
  by (simp add: c_swap_def)

lemma c_min_eq [simp]: "c_min a b = min a b"
  by (auto simp: c_min_def min_def)

lemma c_max_eq [simp]: "c_max a b = max a b"
  by (auto simp: c_max_def max_def)

section \<open>Trailing zeros\<close>

lemma takeWhile_upt_length:
  assumes "k < n" "P k" "\<And>i. i < k \<Longrightarrow> \<not> P i"
  shows "length (takeWhile (\<lambda>i. \<not> P i) [0..<n]) = k"
proof -
  have "[0..<n] = [0..<k] @ k # [Suc k..<n]"
    using assms(1) upt_add_eq_append [of 0 k "n - k"] by (simp add: upt_conv_Cons)
  moreover have "takeWhile (\<lambda>i. \<not> P i) ([0..<k] @ k # [Suc k..<n]) = [0..<k]"
    using assms(2,3) by (subst takeWhile_append2) auto
  ultimately show ?thesis by simp
qed

lemma trailing_zeros_eqI:
  assumes "k < 32" "bit x k" "\<And>i. i < k \<Longrightarrow> \<not> bit x i"
  shows "trailing_zeros x = k"
  unfolding trailing_zeros_def using assms by (rule takeWhile_upt_length)

lemma trailing_zeros_bounds:
  assumes "x \<noteq> 0"
  shows "trailing_zeros x < 32 \<and> bit x (trailing_zeros x) \<and> (\<forall>i < trailing_zeros x. \<not> bit x i)"
proof -
  obtain i where "bit x i" using assms by (auto simp: bit_eq_iff)
  then have ex: "bit x (LEAST i. bit x i)" by (rule LeastI)
  let ?k = "LEAST i. bit x i"
  have k: "?k < 32" using bit_imp_le_length [OF ex] by simp
  have low: "\<And>j. j < ?k \<Longrightarrow> \<not> bit x j" by (rule not_less_Least)
  have "trailing_zeros x = ?k" by (rule trailing_zeros_eqI [OF k ex low])
  then show ?thesis using k ex low by metis
qed

lemma bit_mult_power_odd:
  fixes x :: u32
  assumes "unat x = 2 ^ k * m" "odd m" "k < 32"
  shows "bit x k" "\<And>i. i < k \<Longrightarrow> \<not> bit x i"
proof -
  have b: "bit x i = odd ((2 ^ k * m) div 2 ^ i)" for i
    using bit_unsigned_iff [of x i, where ?'a = nat] by (simp add: assms(1) bit_iff_odd [of "2 ^ k * m"])
  show "bit x k" using assms(2) by (simp add: b)
  fix i assume "i < k"
  then obtain d where "k = i + Suc d" by (metis less_iff_Suc_add add_Suc_right)
  then have "(2 ^ k * m) div 2 ^ i = 2 ^ Suc d * m" by (simp add: power_add mult.assoc)
  then show "\<not> bit x i" by (simp add: b)
qed

lemma trailing_zeros_mult:
  assumes "unat x = 2 ^ k * m" "odd m" "k < 32"
  shows "trailing_zeros x = k"
  using bit_mult_power_odd [OF assms] assms(3) by (intro trailing_zeros_eqI)

lemma unat_pow2 [unat_simps]: "k < 32 \<Longrightarrow> unat (2 ^ k :: u32) = 2 ^ k"
  using unat_of_nat_small [where 'a = 32, of "2 ^ k"] power_strict_increasing [of k 32 "2::nat"]
  by simp

lemma trailing_zeros_pow2 [simp]: "k < 32 \<Longrightarrow> trailing_zeros (2 ^ k) = k"
  by (rule trailing_zeros_mult [where m = 1]) (simp_all add: unat_pow2)

lemma c_log2_pow2 [simp]: "k < 32 \<Longrightarrow> c_log2 (2 ^ k) = int k"
  by (simp add: c_log2_def c_ffs_def)

section \<open>Powers of two and alignment\<close>

lemma and_mask_eq_0_iff: "x AND (2 ^ k - 1) = 0 \<longleftrightarrow> 2 ^ k dvd unat (x :: u32)"
  by (simp add: and_mask_dvd_nat flip: mask_eq_exp_minus_1)

lemma is_aligned_iff_dvd: "is_aligned addr (2 ^ k) \<longleftrightarrow> 2 ^ k dvd unat addr"
  by (simp add: is_aligned_def and_mask_eq_0_iff)

lemma and_not_mask: "x AND NOT (mask k) = x - take_bit k (x :: u32)"
proof -
  have "(x AND NOT (mask k)) + (x AND mask k) = (x AND NOT (mask k)) OR (x AND mask k)"
    by (rule disjunctive_add) (simp add: bit_simps)
  also have "\<dots> = x" by (rule bit_eqI) (auto simp: bit_simps)
  finally show ?thesis by (simp add: take_bit_eq_mask eq_diff_eq)
qed

lemma c_align_pow2: "c_align addr (2 ^ k) = (addr + (2 ^ k - 1)) - take_bit k (addr + (2 ^ k - 1))"
  by (simp add: c_align_def minus_exp_eq_not_mask and_not_mask)

lemma unat_and_not_mask: "unat (x - take_bit k (x :: u32)) = unat x - unat x mod 2 ^ k"
proof -
  have "take_bit k x \<le> x"
    by (simp add: word_le_nat_alt unsigned_take_bit_eq)
  then have "unat (x - take_bit k x) = unat x - unat (take_bit k x)" by (rule unat_sub)
  also have "unat (take_bit k x) = unat x mod 2 ^ k"
    by (subst unsigned_take_bit_eq) (simp add: take_bit_nat_def)
  finally show ?thesis .
qed

lemma unat_c_align:
  assumes "k < 32" "unat addr + (2 ^ k - 1) < 2 ^ 32"
  shows "unat (c_align addr (2 ^ k)) = (unat addr + (2 ^ k - 1)) div 2 ^ k * 2 ^ k"
proof -
  have "unat (2 ^ k - 1 :: u32) = 2 ^ k - 1"
    using assms(1) by (subst unat_sub_small) (simp_all add: unat_pow2 word_le_nat_alt)
  then have "unat (addr + (2 ^ k - 1)) = unat addr + (2 ^ k - 1)"
    using assms(2) by (simp add: unat_add_small)
  then show ?thesis
    by (simp add: c_align_pow2 unat_and_not_mask minus_mod_eq_div_mult)
qed

end
