(* ===== verification/Buddy.thy ===== *)
theory Buddy
  imports Prelude
begin

text \<open>
  The abstract buddy system the physical memory manager implements: a set of free blocks and a set
  of allocated blocks over the pages \<open>0..<n\<close>, with the size and the three flags every page carries.
  A block of order \<open>k\<close> at page \<open>p\<close> is the pair \<open>(p, k)\<close>. The transitions below are the steps the
  code takes: split a free block, hand one out, reserve one, and take an allocated block back by
  merging it with its buddy for as long as that one is free. \<open>P\<close> holds the block that is being
  freed while the code works on it.
\<close>

section \<open>Blocks\<close>

type_synonym block = "nat \<times> nat"

definition blk :: "block \<Rightarrow> nat set" where
  "blk b = {fst b ..< fst b + 2 ^ snd b}"

definition placed :: "nat \<Rightarrow> block \<Rightarrow> bool" where
  "placed n b \<longleftrightarrow> 2 ^ snd b dvd fst b \<and> fst b + 2 ^ snd b \<le> n"

definition apart :: "block set \<Rightarrow> bool" where
  "apart B \<longleftrightarrow> (\<forall>b\<in>B. \<forall>c\<in>B. b \<noteq> c \<longrightarrow> blk b \<inter> blk c = {})"

definition buddy_of :: "nat \<Rightarrow> nat \<Rightarrow> nat" where
  "buddy_of p k = (if 2 ^ Suc k dvd p then p + 2 ^ k else p - 2 ^ k)"

lemma blk_iff [simp]: "q \<in> blk (p, k) \<longleftrightarrow> p \<le> q \<and> q < p + 2 ^ k"
  by (simp add: blk_def)

lemma fst_in_blk [simp]: "fst b \<in> blk b"
  by (simp add: blk_def)

lemma apartD: "apart B \<Longrightarrow> b \<in> B \<Longrightarrow> c \<in> B \<Longrightarrow> q \<in> blk b \<Longrightarrow> q \<in> blk c \<Longrightarrow> b = c"
  unfolding apart_def by blast

lemma apart_subset: "apart B \<Longrightarrow> C \<subseteq> B \<Longrightarrow> apart C"
  unfolding apart_def by blast

lemma apart_insert: "apart (insert b B) \<longleftrightarrow> apart B \<and> (\<forall>c\<in>B. c \<noteq> b \<longrightarrow> blk b \<inter> blk c = {})"
  unfolding apart_def by (metis Int_commute insertE insertI1 insertI2)

lemma blk_split: "blk (p, Suc k) = blk (p, k) \<union> blk (p + 2 ^ k, k)"
  unfolding set_eq_iff Un_iff blk_iff power_Suc by arith

lemma blk_halves_disjoint: "blk (p, k) \<inter> blk (p + 2 ^ k, k) = {}"
  unfolding disjoint_iff blk_iff by arith

lemma pow2_dvd_Suc: "2 ^ Suc k dvd p \<Longrightarrow> 2 ^ k dvd (p::nat)"
  by (rule dvd_trans [of _ "2 ^ Suc k"]) simp_all

lemma placed_halves: "placed n (p, Suc k) \<Longrightarrow> placed n (p, k) \<and> placed n (p + 2 ^ k, k)"
  using pow2_dvd_Suc [of k p] by (simp add: placed_def)

lemma placed_order:
  assumes "placed n (p, k)" "n < 2 ^ m"
  shows "k < m"
proof -
  have "(2::nat) ^ k \<le> n" using assms(1) by (simp add: placed_def)
  then have "(2::nat) ^ k < 2 ^ m" using assms(2) by linarith
  then show ?thesis by simp
qed

lemma odd_multiple:
  assumes "2 ^ k dvd p" "\<not> 2 ^ Suc k dvd (p::nat)"
  shows "2 ^ k \<le> p \<and> 2 ^ Suc k dvd (p - 2 ^ k)"
proof -
  obtain m where m: "p = 2 ^ k * m" using assms(1) by (rule dvdE)
  then have "odd m" using assms(2) by (metis dvd_mult_cancel1 evenE mult.assoc mult.commute dvd_triv_left power_Suc)
  then obtain j where "m = 2 * j + 1" by (rule oddE)
  then have p: "p = 2 ^ Suc k * j + 2 ^ k" using m by (simp add: algebra_simps)
  then show ?thesis by simp
qed

text \<open>A block and its buddy are the two halves of a block of the next order.\<close>

lemma buddy_merge:
  assumes "placed n (p, k)" "buddy_of p k + 2 ^ k \<le> n"
  shows "placed n (min p (buddy_of p k), Suc k)" "2 ^ k dvd buddy_of p k"
    "blk (min p (buddy_of p k), Suc k) = blk (p, k) \<union> blk (buddy_of p k, k)"
    "blk (p, k) \<inter> blk (buddy_of p k, k) = {}"
proof -
  have d: "2 ^ k dvd p" "p + 2 ^ k \<le> n" using assms(1) by (auto simp: placed_def)
  consider (left) "2 ^ Suc k dvd p" "buddy_of p k = p + 2 ^ k"
    | (right) "2 ^ k \<le> p" "2 ^ Suc k dvd (p - 2 ^ k)" "buddy_of p k = p - 2 ^ k"
    using odd_multiple [OF d(1)] unfolding buddy_of_def by metis
  then have "placed n (min p (buddy_of p k), Suc k) \<and> 2 ^ k dvd buddy_of p k \<and>
    blk (min p (buddy_of p k), Suc k) = blk (p, k) \<union> blk (buddy_of p k, k) \<and>
    blk (p, k) \<inter> blk (buddy_of p k, k) = {}"
  proof cases
    case left
    then have "min p (buddy_of p k) = p" by simp
    then show ?thesis
      using left d assms(2) blk_split [of p k] blk_halves_disjoint [of p k] by (simp add: placed_def)
  next
    case right
    then have m: "min p (buddy_of p k) = p - 2 ^ k" and e: "p - 2 ^ k + 2 ^ k = p" by simp_all
    have "2 ^ k dvd p - 2 ^ k" using right(2) by (rule pow2_dvd_Suc)
    moreover have "p - 2 ^ k + 2 ^ Suc k \<le> n" using right(1) d by simp
    moreover have "blk (p - 2 ^ k, Suc k) = blk (p, k) \<union> blk (p - 2 ^ k, k)"
      using blk_split [of "p - 2 ^ k" k] e by auto
    moreover have "blk (p, k) \<inter> blk (p - 2 ^ k, k) = {}"
      using blk_halves_disjoint [of "p - 2 ^ k" k] e by auto
    ultimately show ?thesis using right m by (simp add: placed_def)
  qed
  then show "placed n (min p (buddy_of p k), Suc k)" "2 ^ k dvd buddy_of p k"
    "blk (min p (buddy_of p k), Suc k) = blk (p, k) \<union> blk (buddy_of p k, k)"
    "blk (p, k) \<inter> blk (buddy_of p k, k) = {}" by blast+
qed

section \<open>The state and its invariant\<close>

record buddy =
  bn :: nat                     \<comment> \<open>number of pages\<close>
  bsize :: "nat \<Rightarrow> nat"         \<comment> \<open>the size field\<close>
  balloc :: "nat \<Rightarrow> bool"       \<comment> \<open>\<open>PM_ALLOCATED\<close>\<close>
  bres :: "nat \<Rightarrow> bool"         \<comment> \<open>\<open>PM_RESERVED\<close>\<close>
  bman :: "nat \<Rightarrow> bool"         \<comment> \<open>\<open>PM_MANAGED\<close>\<close>
  bfree :: "block set"

definition buddy_inv :: "buddy \<Rightarrow> block set \<Rightarrow> block set \<Rightarrow> bool" where
  "buddy_inv v A P \<longleftrightarrow>
    (\<forall>b \<in> bfree v \<union> A \<union> P. placed (bn v) b \<and> bsize v (fst b) = 2 ^ snd b) \<and>
    apart (bfree v \<union> A \<union> P) \<and> A \<inter> P = {} \<and>
    (\<forall>b \<in> bfree v. bman v (fst b) \<and> (\<forall>q \<in> blk b. \<not> balloc v q \<and> \<not> bres v q)) \<and>
    (\<forall>b \<in> A. \<forall>q \<in> blk b. balloc v q \<and> \<not> bres v q) \<and>
    (\<forall>b \<in> P. \<forall>q \<in> blk b. \<not> bman v q \<and> \<not> bres v q) \<and>
    (\<forall>q < bn v. bman v q \<longrightarrow> (\<exists>k. (q, k) \<in> bfree v)) \<and>
    (\<forall>q < bn v. (\<exists>b \<in> bfree v \<union> A \<union> P. q \<in> blk b) \<or> bres v q)"

text \<open>The invariant as rules: what it gives, and what it takes.\<close>

lemma buddy_invD:
  assumes "buddy_inv v A P"
  shows "b \<in> bfree v \<union> A \<union> P \<Longrightarrow> placed (bn v) b"
    "b \<in> bfree v \<union> A \<union> P \<Longrightarrow> bsize v (fst b) = 2 ^ snd b"
    "apart (bfree v \<union> A \<union> P)" "A \<inter> P = {}"
    "b \<in> bfree v \<Longrightarrow> bman v (fst b)"
    "b \<in> bfree v \<Longrightarrow> q \<in> blk b \<Longrightarrow> \<not> balloc v q \<and> \<not> bres v q"
    "b \<in> A \<Longrightarrow> q \<in> blk b \<Longrightarrow> balloc v q \<and> \<not> bres v q"
    "b \<in> P \<Longrightarrow> q \<in> blk b \<Longrightarrow> \<not> bman v q \<and> \<not> bres v q"
    "q < bn v \<Longrightarrow> bman v q \<Longrightarrow> \<exists>k. (q, k) \<in> bfree v"
    "q < bn v \<Longrightarrow> (\<exists>b \<in> bfree v \<union> A \<union> P. q \<in> blk b) \<or> bres v q"
  using assms unfolding buddy_inv_def by blast+

lemma buddy_free_not_alloc: "buddy_inv v A P \<Longrightarrow> bfree v \<inter> A = {}"
  using buddy_invD(6,7) fst_in_blk by blast

lemma buddy_free_not_pending: "buddy_inv v A P \<Longrightarrow> bfree v \<inter> P = {}"
  using buddy_invD(5,8) fst_in_blk by blast

lemma buddy_invI:
  assumes "\<And>b. b \<in> bfree v \<union> A \<union> P \<Longrightarrow> placed (bn v) b"
    "\<And>b. b \<in> bfree v \<union> A \<union> P \<Longrightarrow> bsize v (fst b) = 2 ^ snd b"
    "apart (bfree v \<union> A \<union> P)" "A \<inter> P = {}"
    "\<And>b. b \<in> bfree v \<Longrightarrow> bman v (fst b)"
    "\<And>b q. b \<in> bfree v \<Longrightarrow> q \<in> blk b \<Longrightarrow> \<not> balloc v q \<and> \<not> bres v q"
    "\<And>b q. b \<in> A \<Longrightarrow> q \<in> blk b \<Longrightarrow> balloc v q \<and> \<not> bres v q"
    "\<And>b q. b \<in> P \<Longrightarrow> q \<in> blk b \<Longrightarrow> \<not> bman v q \<and> \<not> bres v q"
    "\<And>q. q < bn v \<Longrightarrow> bman v q \<Longrightarrow> \<exists>k. (q, k) \<in> bfree v"
    "\<And>q. q < bn v \<Longrightarrow> (\<exists>b \<in> bfree v \<union> A \<union> P. q \<in> blk b) \<or> bres v q"
  shows "buddy_inv v A P"
  using assms unfolding buddy_inv_def by blast

text \<open>Two blocks that share a page are the same block.\<close>

lemma buddy_same:
  "buddy_inv v A P \<Longrightarrow> b \<in> bfree v \<union> A \<union> P \<Longrightarrow> c \<in> bfree v \<union> A \<union> P \<Longrightarrow> q \<in> blk b \<Longrightarrow> q \<in> blk c \<Longrightarrow> b = c"
  by (rule apartD [OF buddy_invD(3)])

definition free_pages :: "buddy \<Rightarrow> nat set" where
  "free_pages v = (\<Union>b \<in> bfree v. blk b)"

section \<open>The steps\<close>

text \<open>Splitting a free block in two halves.\<close>

definition b_split :: "nat \<Rightarrow> nat \<Rightarrow> buddy \<Rightarrow> buddy" where
  "b_split p k v = v\<lparr>bsize := (bsize v)(p := 2 ^ k, p + 2 ^ k := 2 ^ k),
     bman := (bman v)(p + 2 ^ k := True),
     bfree := insert (p, k) (insert (p + 2 ^ k, k) (bfree v - {(p, Suc k)}))\<rparr>"

text \<open>Handing a free block out.\<close>

definition b_take :: "nat \<Rightarrow> nat \<Rightarrow> buddy \<Rightarrow> buddy" where
  "b_take p k v = v\<lparr>balloc := (\<lambda>q. q \<in> blk (p, k) \<or> balloc v q), bman := (bman v)(p := False),
     bfree := bfree v - {(p, k)}\<rparr>"

text \<open>Reserving a free block: its pages keep no other flag.\<close>

definition b_reserve :: "nat \<Rightarrow> nat \<Rightarrow> buddy \<Rightarrow> buddy" where
  "b_reserve p k v = v\<lparr>balloc := (\<lambda>q. q \<notin> blk (p, k) \<and> balloc v q),
     bres := (\<lambda>q. q \<in> blk (p, k) \<or> bres v q), bman := (\<lambda>q. q \<notin> blk (p, k) \<and> bman v q),
     bfree := bfree v - {(p, k)}\<rparr>"

text \<open>Merging the block that is being freed with its free buddy.\<close>

definition b_merge :: "nat \<Rightarrow> nat \<Rightarrow> buddy \<Rightarrow> buddy" where
  "b_merge p k v = v\<lparr>bsize := (bsize v)(min p (buddy_of p k) := 2 ^ Suc k),
     bman := (bman v)(buddy_of p k := False), bfree := bfree v - {(buddy_of p k, k)}\<rparr>"

text \<open>Putting the merged block on the free list.\<close>

definition b_put :: "nat \<Rightarrow> nat \<Rightarrow> buddy \<Rightarrow> buddy" where
  "b_put p k v = v\<lparr>balloc := (\<lambda>q. q \<notin> blk (p, k) \<and> balloc v q), bman := (bman v)(p := True),
     bfree := insert (p, k) (bfree v)\<rparr>"

text \<open>
  Replacing a block of a family by blocks that make up the same pages keeps the family apart.
\<close>

lemma apart_replace:
  assumes "apart B" "b \<in> B" "apart C" "\<And>c. c \<in> C \<Longrightarrow> blk c \<subseteq> blk b"
  shows "apart (C \<union> (B - {b}))"
  unfolding apart_def
proof (intro ballI impI)
  fix x y assume x: "x \<in> C \<union> (B - {b})" and y: "y \<in> C \<union> (B - {b})" and "x \<noteq> y"
  have old: "blk u \<inter> blk w = {}" if "u \<in> B" "w \<in> B" "u \<noteq> w" for u w
    using assms(1) that unfolding apart_def by blast
  have new: "blk u \<inter> blk w = {}" if "u \<in> C" "w \<in> B" "w \<noteq> b" for u w
    using old [OF assms(2) that(2)] assms(4) [OF that(1)] that(3) by blast
  from x y \<open>x \<noteq> y\<close> show "blk x \<inter> blk y = {}"
    using assms(3) old new unfolding apart_def by blast
qed

lemma split_inv:
  assumes inv: "buddy_inv v A P" and b: "(p, Suc k) \<in> bfree v"
  shows "buddy_inv (b_split p k v) A P"
proof -
  let ?B = "bfree v \<union> A \<union> P" and ?h = "p + 2 ^ k"
  let ?C = "{(p, k), (?h, k)}"
  have pl: "placed (bn v) (p, Suc k)" using buddy_invD(1) [OF inv] b by blast
  have sub: "c \<in> ?C \<Longrightarrow> blk c \<subseteq> blk (p, Suc k)" for c
    using blk_split [of p k] by auto
  have notA: "(p, Suc k) \<notin> A" "(p, Suc k) \<notin> P"
    using buddy_free_not_alloc [OF inv] buddy_free_not_pending [OF inv] b by auto
  have "apart ?C"
    using blk_halves_disjoint [of p k] by (simp add: apart_insert Int_commute) (simp add: apart_def)
  then have "apart (?C \<union> (?B - {(p, Suc k)}))"
    using apart_replace [OF buddy_invD(3) [OF inv], of "(p, Suc k)" ?C] b sub by blast
  moreover have eq: "?C \<union> (?B - {(p, Suc k)}) = bfree (b_split p k v) \<union> A \<union> P"
    using notA by (auto simp: b_split_def)
  ultimately have ap: "apart (bfree (b_split p k v) \<union> A \<union> P)" by simp
  have other: "fst c \<noteq> p \<and> fst c \<noteq> ?h" if "c \<in> ?B" "c \<noteq> (p, Suc k)" for c
  proof -
    have "q \<in> blk c \<Longrightarrow> q \<notin> blk (p, Suc k)" for q
      using buddy_same [OF inv that(1), of "(p, Suc k)" q] b that(2) by blast
    moreover have "p \<in> blk (p, Suc k)" "?h \<in> blk (p, Suc k)" by simp_all
    ultimately show ?thesis using fst_in_blk [of c] by metis
  qed
  have cases: "c = (p, k) \<or> c = (?h, k) \<or> (c \<in> ?B \<and> c \<noteq> (p, Suc k))"
    if "c \<in> bfree (b_split p k v) \<union> A \<union> P" for c
    using that notA by (auto simp: b_split_def)
  have new_free: "c = (p, k) \<or> c = (?h, k) \<or> (c \<in> bfree v \<and> c \<noteq> (p, Suc k))"
    if "c \<in> bfree (b_split p k v)" for c
    using that by (auto simp: b_split_def)
  show ?thesis
  proof (rule buddy_invI)
    fix c assume "c \<in> bfree (b_split p k v) \<union> A \<union> P"
    note c = cases [OF this]
    show "placed (bn (b_split p k v)) c"
      using c placed_halves [OF pl] buddy_invD(1) [OF inv, of c] by (auto simp: b_split_def)
    show "bsize (b_split p k v) (fst c) = 2 ^ snd c"
      using c other [of c] buddy_invD(2) [OF inv, of c] by (auto simp: b_split_def)
  next
    fix c assume "c \<in> bfree (b_split p k v)"
    note c = new_free [OF this]
    show "bman (b_split p k v) (fst c)"
      using c buddy_invD(5) [OF inv, of c] buddy_invD(5) [OF inv b] by (auto simp: b_split_def)
    fix q assume "q \<in> blk c"
    then have "(c \<in> bfree v \<and> q \<in> blk c) \<or> q \<in> blk (p, Suc k)"
      using c blk_split [of p k] by blast
    then show "\<not> balloc (b_split p k v) q \<and> \<not> bres (b_split p k v) q"
      using buddy_invD(6) [OF inv, of c q] buddy_invD(6) [OF inv b, of q] by (auto simp: b_split_def)
  next
    fix c q assume c: "c \<in> P" "q \<in> blk c"
    have "q \<noteq> ?h"
      using buddy_same [OF inv, of c "(p, Suc k)" q] c b notA(2) by auto
    then show "\<not> bman (b_split p k v) q \<and> \<not> bres (b_split p k v) q"
      using buddy_invD(8) [OF inv c] by (simp add: b_split_def)
  next
    fix q assume q: "q < bn (b_split p k v)"
    { assume "bman (b_split p k v) q"
      then have "q = ?h \<or> bman v q" by (auto simp: b_split_def split: if_splits)
      then have "q = ?h \<or> (\<exists>k'. (q, k') \<in> bfree v)"
        using buddy_invD(9) [OF inv, of q] q by (auto simp: b_split_def)
      then show "\<exists>k'. (q, k') \<in> bfree (b_split p k v)"
        by (cases "q = p") (auto simp: b_split_def) }
    have "(\<exists>c \<in> ?B. q \<in> blk c) \<or> bres v q"
      using buddy_invD(10) [OF inv, of q] q by (simp add: b_split_def)
    then have "(\<exists>c \<in> ?C \<union> (?B - {(p, Suc k)}). q \<in> blk c) \<or> bres v q"
      using blk_split [of p k] by blast
    then show "(\<exists>c \<in> bfree (b_split p k v) \<union> A \<union> P. q \<in> blk c) \<or> bres (b_split p k v) q"
      unfolding eq by (simp add: b_split_def)
  qed (use ap buddy_invD(4,7) [OF inv] in \<open>auto simp: b_split_def\<close>)
qed

text \<open>A block other than \<open>b\<close> shares no page with \<open>b\<close>.\<close>

lemma buddy_off:
  "buddy_inv v A P \<Longrightarrow> b \<in> bfree v \<union> A \<union> P \<Longrightarrow> c \<in> bfree v \<union> A \<union> P \<Longrightarrow> c \<noteq> b \<Longrightarrow> q \<in> blk c \<Longrightarrow> q \<notin> blk b"
  using buddy_same by blast

lemma take_inv:
  assumes inv: "buddy_inv v A P" and b: "(p, k) \<in> bfree v"
  shows "buddy_inv (b_take p k v) (insert (p, k) A) P"
proof -
  let ?B = "bfree v \<union> A \<union> P"
  have notP: "(p, k) \<notin> P" and notA: "(p, k) \<notin> A"
    using buddy_free_not_pending [OF inv] buddy_free_not_alloc [OF inv] b by auto
  have eq: "bfree (b_take p k v) \<union> insert (p, k) A \<union> P = ?B"
    using b by (auto simp: b_take_def)
  have off: "c \<in> ?B \<Longrightarrow> c \<noteq> (p, k) \<Longrightarrow> q \<in> blk c \<Longrightarrow> q \<notin> blk (p, k)" for c q
    using buddy_off [OF inv, of "(p, k)" c q] b by blast
  show ?thesis
  proof (rule buddy_invI, unfold eq)
    fix c assume "c \<in> bfree (b_take p k v)"
    then have c: "c \<in> bfree v" "c \<noteq> (p, k)" by (auto simp: b_take_def)
    show "bman (b_take p k v) (fst c)"
      using buddy_invD(5) [OF inv c(1)] off [of c "fst c"] c by (auto simp: b_take_def)
    fix q assume "q \<in> blk c"
    then show "\<not> balloc (b_take p k v) q \<and> \<not> bres (b_take p k v) q"
      using buddy_invD(6) [OF inv c(1)] off [of c q] c by (auto simp: b_take_def)
  next
    fix c q assume "c \<in> insert (p, k) A" "q \<in> blk c"
    then show "balloc (b_take p k v) q \<and> \<not> bres (b_take p k v) q"
      using buddy_invD(7) [OF inv, of c q] buddy_invD(6) [OF inv b, of q] by (auto simp: b_take_def)
  next
    fix q assume "q < bn (b_take p k v)" "bman (b_take p k v) q"
    then have "q \<noteq> p" "\<exists>k'. (q, k') \<in> bfree v"
      using buddy_invD(9) [OF inv, of q] by (auto simp: b_take_def split: if_splits)
    then show "\<exists>k'. (q, k') \<in> bfree (b_take p k v)" by (auto simp: b_take_def)
  qed (use buddy_invD [OF inv] notP in \<open>auto simp: b_take_def simp del: blk_iff\<close>)
qed

lemma reserve_inv:
  assumes inv: "buddy_inv v A P" and b: "(p, k) \<in> bfree v"
  shows "buddy_inv (b_reserve p k v) A P"
proof -
  let ?B = "bfree v \<union> A \<union> P"
  have eq: "bfree (b_reserve p k v) \<union> A \<union> P = ?B - {(p, k)}"
    using buddy_free_not_pending [OF inv] buddy_free_not_alloc [OF inv] b by (auto simp: b_reserve_def)
  have off: "c \<in> ?B - {(p, k)} \<Longrightarrow> q \<in> blk c \<Longrightarrow> q \<notin> blk (p, k)" for c q
    using buddy_off [OF inv, of "(p, k)" c q] b by blast
  have offA: "c \<in> A \<union> P \<Longrightarrow> q \<in> blk c \<Longrightarrow> q \<notin> blk (p, k)" for c q
    using off [of c q] eq by blast
  show ?thesis
  proof (rule buddy_invI, unfold eq)
    show "apart (?B - {(p, k)})" by (rule apart_subset [OF buddy_invD(3) [OF inv]]) blast
  next
    fix c assume "c \<in> bfree (b_reserve p k v)"
    then have c: "c \<in> bfree v" "c \<in> ?B - {(p, k)}" by (auto simp: b_reserve_def)
    show "bman (b_reserve p k v) (fst c)"
      using buddy_invD(5) [OF inv c(1)] off [OF c(2), of "fst c"] by (simp add: b_reserve_def del: blk_iff)
    fix q assume "q \<in> blk c"
    then show "\<not> balloc (b_reserve p k v) q \<and> \<not> bres (b_reserve p k v) q"
      using buddy_invD(6) [OF inv c(1)] off [OF c(2)] by (simp add: b_reserve_def del: blk_iff)
  next
    fix c q assume "c \<in> A" "q \<in> blk c"
    then show "balloc (b_reserve p k v) q \<and> \<not> bres (b_reserve p k v) q"
      using buddy_invD(7) [OF inv, of c q] offA [of c q] by (simp add: b_reserve_def del: blk_iff)
  next
    fix c q assume "c \<in> P" "q \<in> blk c"
    then show "\<not> bman (b_reserve p k v) q \<and> \<not> bres (b_reserve p k v) q"
      using buddy_invD(8) [OF inv, of c q] offA [of c q] by (simp add: b_reserve_def del: blk_iff)
  next
    fix q assume q: "q < bn (b_reserve p k v)" "bman (b_reserve p k v) q"
    then have "q \<notin> blk (p, k)" "\<exists>k'. (q, k') \<in> bfree v"
      using buddy_invD(9) [OF inv, of q] by (auto simp: b_reserve_def simp del: blk_iff)
    then show "\<exists>k'. (q, k') \<in> bfree (b_reserve p k v)"
      using fst_in_blk [of "(p, k)"] by (auto simp: b_reserve_def simp del: blk_iff fst_in_blk)
  next
    fix q assume "q < bn (b_reserve p k v)"
    then have "(\<exists>b\<in>?B. q \<in> blk b) \<or> bres v q"
      using buddy_invD(10) [OF inv, of q] by (simp add: b_reserve_def)
    then show "(\<exists>b\<in>?B - {(p, k)}. q \<in> blk b) \<or> bres (b_reserve p k v) q"
      by (auto simp: b_reserve_def simp del: blk_iff)
  qed (use buddy_invD [OF inv] in \<open>auto simp: b_reserve_def simp del: blk_iff\<close>)
qed

text \<open>Freeing starts by taking the block out of the allocated ones.\<close>

lemma pending_inv:
  assumes inv: "buddy_inv v A {}" and b: "(p, k) \<in> A"
  shows "buddy_inv v (A - {(p, k)}) {(p, k)}"
proof -
  have eq: "bfree v \<union> (A - {(p, k)}) \<union> {(p, k)} = bfree v \<union> A \<union> {}" using b by auto
  have pl: "placed (bn v) (p, k)" using buddy_invD(1) [OF inv] b by blast
  show ?thesis
  proof (rule buddy_invI, unfold eq)
    fix c q assume "c \<in> {(p, k)}" and q: "q \<in> blk c"
    then have c: "c = (p, k)" by simp
    have "\<not> bman v q"
    proof
      assume "bman v q"
      moreover have "q < bn v" using q pl c by (simp add: placed_def)
      ultimately obtain k' where f: "(q, k') \<in> bfree v" using buddy_invD(9) [OF inv] by blast
      then have "\<not> balloc v q" using buddy_invD(6) [OF inv f, of q] by simp
      then show False using buddy_invD(7) [OF inv b] q c by blast
    qed
    then show "\<not> bman v q \<and> \<not> bres v q" using buddy_invD(7) [OF inv b] q c by blast
  qed (use buddy_invD [OF inv] in \<open>auto simp del: blk_iff\<close>)
qed

text \<open>A managed page of size \<open>2 ^ k\<close> heads a free block of order \<open>k\<close>.\<close>

lemma managed_head:
  assumes inv: "buddy_inv v A P" and "q < bn v" "bman v q" "bsize v q = 2 ^ k"
  shows "(q, k) \<in> bfree v"
proof -
  obtain k' where f: "(q, k') \<in> bfree v" using buddy_invD(9) [OF inv assms(2,3)] by blast
  then have "bsize v q = 2 ^ k'" using buddy_invD(2) [OF inv, of "(q, k')"] by simp
  then have "k' = k" using assms(4) by simp
  with f show ?thesis by simp
qed

lemma merge_inv:
  assumes inv: "buddy_inv v A {(p, k)}"
    and b: "buddy_of p k < bn v" "bman v (buddy_of p k)" "bsize v (buddy_of p k) = 2 ^ k"
  shows "(buddy_of p k, k) \<in> bfree v"
    "buddy_inv (b_merge p k v) A {(min p (buddy_of p k), Suc k)}"
proof -
  let ?b = "buddy_of p k" and ?m = "min p (buddy_of p k)"
  let ?B = "bfree v \<union> A \<union> {(p, k)}"
  show f: "(?b, k) \<in> bfree v" using managed_head [OF inv b] .
  have plb: "placed (bn v) (?b, k)" and pl: "placed (bn v) (p, k)"
    using buddy_invD(1) [OF inv] f by blast+
  have "?b + 2 ^ k \<le> bn v" using plb by (simp add: placed_def)
  note bm = buddy_merge [OF pl this]
  have notA: "(?b, k) \<notin> A" "(p, k) \<notin> A" "(p, k) \<notin> bfree v"
    using buddy_free_not_alloc [OF inv] buddy_free_not_pending [OF inv] buddy_invD(4) [OF inv] f by auto
  have eq: "bfree (b_merge p k v) \<union> A \<union> {(?m, Suc k)} = insert (?m, Suc k) (?B - {(p, k), (?b, k)})"
    using notA by (auto simp: b_merge_def)
  have off: "q \<notin> blk (?m, Suc k)" if "c \<in> ?B - {(p, k), (?b, k)}" "q \<in> blk c" for c q
    using buddy_off [OF inv, of "(p, k)" c q] buddy_off [OF inv, of "(?b, k)" c q] that f bm(3) by blast
  have ap: "apart (insert (?m, Suc k) (?B - {(p, k), (?b, k)}))"
    unfolding apart_insert
  proof (intro conjI ballI impI)
    show "apart (?B - {(p, k), (?b, k)})"
      by (rule apart_subset [OF buddy_invD(3) [OF inv]]) blast
    show "blk (?m, Suc k) \<inter> blk c = {}" if "c \<in> ?B - {(p, k), (?b, k)}" for c
      using off [OF that] by blast
  qed
  have rest: "c \<in> ?B - {(p, k), (?b, k)} \<Longrightarrow> fst c \<noteq> ?m" for c
    using off [of c "fst c"] fst_in_blk [of "(?m, Suc k)"] by (metis fst_conv fst_in_blk)
  have mA: "(?m, Suc k) \<notin> A"
    using rest [of "(?m, Suc k)"] by fastforce
  show "buddy_inv (b_merge p k v) A {(?m, Suc k)}"
  proof (rule buddy_invI, unfold eq)
    fix c assume "c \<in> insert (?m, Suc k) (?B - {(p, k), (?b, k)})"
    then consider "c = (?m, Suc k)" | "c \<in> ?B - {(p, k), (?b, k)}" by blast
    note c = this
    from c show "placed (bn (b_merge p k v)) c"
      using bm(1) buddy_invD(1) [OF inv, of c] by cases (auto simp: b_merge_def)
    from c show "bsize (b_merge p k v) (fst c) = 2 ^ snd c"
      using rest [of c] buddy_invD(2) [OF inv, of c] by cases (auto simp: b_merge_def)
  next
    fix c assume "c \<in> bfree (b_merge p k v)"
    then have c: "c \<in> bfree v" "c \<noteq> (?b, k)" by (auto simp: b_merge_def)
    have "fst c \<noteq> ?b"
      using buddy_off [OF inv, of "(?b, k)" c "fst c"] f c fst_in_blk [of "(?b, k)"]
      by (metis UnI1 fst_conv fst_in_blk)
    then show "bman (b_merge p k v) (fst c)"
      using buddy_invD(5) [OF inv c(1)] by (simp add: b_merge_def)
    show "\<not> balloc (b_merge p k v) q \<and> \<not> bres (b_merge p k v) q" if "q \<in> blk c" for q
      using buddy_invD(6) [OF inv c(1) that] by (simp add: b_merge_def)
  next
    fix c q assume "c \<in> {(?m, Suc k)}" "q \<in> blk c"
    then have "q \<in> blk (p, k) \<or> q \<in> blk (?b, k)" using bm(3) by auto
    then show "\<not> bman (b_merge p k v) q \<and> \<not> bres (b_merge p k v) q"
    proof
      assume "q \<in> blk (p, k)"
      then show ?thesis using buddy_invD(8) [OF inv, of "(p, k)" q] by (simp add: b_merge_def)
    next
      assume q: "q \<in> blk (?b, k)"
      have "\<not> bman v q" if "q \<noteq> ?b"
      proof
        assume "bman v q"
        moreover have "q < bn v" using q plb by (simp add: placed_def)
        ultimately obtain k' where "(q, k') \<in> bfree v" using buddy_invD(9) [OF inv] by blast
        then have "(q, k') = (?b, k)"
          using buddy_same [OF inv, of "(q, k')" "(?b, k)" q] f q by simp
        with that show False by simp
      qed
      then show ?thesis using buddy_invD(6) [OF inv f q] by (auto simp: b_merge_def)
    qed
  next
    fix q assume q: "q < bn (b_merge p k v)"
    { assume "bman (b_merge p k v) q"
      then have "q \<noteq> ?b" "bman v q" by (auto simp: b_merge_def split: if_splits)
      then show "\<exists>k'. (q, k') \<in> bfree (b_merge p k v)"
        using buddy_invD(9) [OF inv, of q] q by (auto simp: b_merge_def) }
    have "(\<exists>c \<in> ?B. q \<in> blk c) \<or> bres v q"
      using buddy_invD(10) [OF inv, of q] q by (simp add: b_merge_def)
    then have "(\<exists>c \<in> insert (?m, Suc k) (?B - {(p, k), (?b, k)}). q \<in> blk c) \<or> bres v q"
      using bm(3) by blast
    then show "(\<exists>c \<in> insert (?m, Suc k) (?B - {(p, k), (?b, k)}). q \<in> blk c) \<or> bres (b_merge p k v) q"
      by (simp add: b_merge_def)
  qed (use ap mA buddy_invD(7) [OF inv] in \<open>auto simp: b_merge_def simp del: blk_iff\<close>)
qed

lemma put_inv:
  assumes inv: "buddy_inv v A {(p, k)}"
  shows "buddy_inv (b_put p k v) A {}"
proof -
  have eq: "bfree (b_put p k v) \<union> A \<union> {} = bfree v \<union> A \<union> {(p, k)}"
    by (auto simp: b_put_def)
  have off: "q \<notin> blk (p, k)" if "c \<in> bfree v \<union> A" "q \<in> blk c" for c q
  proof (rule buddy_off [OF inv])
    show "c \<noteq> (p, k)" using that(1) buddy_free_not_pending [OF inv] buddy_invD(4) [OF inv] by auto
  qed (use that in auto)
  show ?thesis
  proof (rule buddy_invI, unfold eq)
    fix c assume "c \<in> bfree (b_put p k v)"
    then consider "c = (p, k)" | "c \<in> bfree v" by (auto simp: b_put_def)
    note c = this
    from c show "bman (b_put p k v) (fst c)"
      using buddy_invD(5) [OF inv, of c] by cases (auto simp: b_put_def)
    fix q assume q: "q \<in> blk c"
    from c show "\<not> balloc (b_put p k v) q \<and> \<not> bres (b_put p k v) q"
      using q buddy_invD(6) [OF inv, of c q] buddy_invD(8) [OF inv, of "(p, k)" q]
      by cases (auto simp: b_put_def)
  next
    fix c q assume "c \<in> A" "q \<in> blk c"
    then show "balloc (b_put p k v) q \<and> \<not> bres (b_put p k v) q"
      using buddy_invD(7) [OF inv, of c q] off [of c q] by (simp add: b_put_def del: blk_iff)
  next
    fix q assume "q < bn (b_put p k v)" "bman (b_put p k v) q"
    then show "\<exists>k'. (q, k') \<in> bfree (b_put p k v)"
      using buddy_invD(9) [OF inv, of q] by (auto simp: b_put_def split: if_splits)
  qed (use buddy_invD [OF inv] in \<open>auto simp: b_put_def simp del: blk_iff\<close>)
qed

section \<open>Free pages\<close>

lemma free_pages_iff: "q \<in> free_pages v \<longleftrightarrow> (\<exists>b \<in> bfree v. q \<in> blk b)"
  by (auto simp: free_pages_def)

lemma free_pages_split:
  assumes "(p, Suc k) \<in> bfree v"
  shows "free_pages (b_split p k v) = free_pages v"
  using assms blk_split [of p k] unfolding free_pages_def b_split_def by auto

lemma free_pages_minus:
  assumes "buddy_inv v A P" "b \<in> bfree v"
  shows "(\<Union>c \<in> bfree v - {b}. blk c) = free_pages v - blk b"
  using buddy_off [OF assms(1), of b] assms(2) unfolding free_pages_def by blast

lemma free_pages_take:
  assumes "buddy_inv v A P" "(p, k) \<in> bfree v"
  shows "free_pages (b_take p k v) = free_pages v - blk (p, k)"
  using free_pages_minus [OF assms] by (simp add: free_pages_def b_take_def)

lemma free_pages_reserve:
  assumes "buddy_inv v A P" "(p, k) \<in> bfree v"
  shows "free_pages (b_reserve p k v) = free_pages v - blk (p, k)"
  using free_pages_minus [OF assms] by (simp add: free_pages_def b_reserve_def)

lemma free_pages_put: "free_pages (b_put p k v) = blk (p, k) \<union> free_pages v"
  by (simp add: free_pages_def b_put_def)

lemma free_pages_merge:
  assumes inv: "buddy_inv v A {(p, k)}"
    and b: "buddy_of p k < bn v" "bman v (buddy_of p k)" "bsize v (buddy_of p k) = 2 ^ k"
  shows "blk (min p (buddy_of p k), Suc k) \<union> free_pages (b_merge p k v) = blk (p, k) \<union> free_pages v"
proof -
  let ?b = "buddy_of p k"
  note m = merge_inv [OF inv b]
  have "?b + 2 ^ k \<le> bn v" using buddy_invD(1) [OF inv, of "(?b, k)"] m(1) by (simp add: placed_def)
  moreover have "placed (bn v) (p, k)" using buddy_invD(1) [OF inv] by blast
  ultimately have u: "blk (min p ?b, Suc k) = blk (p, k) \<union> blk (?b, k)" using buddy_merge(3) by blast
  have "free_pages (b_merge p k v) = free_pages v - blk (?b, k)"
    using free_pages_minus [OF inv m(1)] by (simp add: free_pages_def b_merge_def)
  moreover have "blk (?b, k) \<subseteq> free_pages v" using m(1) by (auto simp: free_pages_def)
  ultimately show ?thesis using u by blast
qed

end
