(* ===== verification/Physmem.thy ===== *)
theory Physmem
  imports Common Seq_Interface Buddy
begin

text \<open>
  The physical memory manager, \<open>qemu-vga/sys/physmem.c\<close> with the page type of \<open>include/vm.h\<close>: a
  buddy allocator over the pages of memory segments. A page pointer is an index into the page
  array of its segment; the free queues hold such indices, first element first. \<open>assert\<close> is
  compiled out (\<open>common.h\<close> defines it empty without \<open>DEBUG\<close>), so it is not part of the model:
  what the code does when an asserted condition fails is what the model does.
\<close>

section \<open>Pages (vm.h)\<close>

definition PAGESIZE :: u32 where "PAGESIZE = 4096"

definition PM_RESERVED :: u8 where "PM_RESERVED = 1"
definition PM_ALLOCATED :: u8 where "PM_ALLOCATED = 2"
definition PM_MANAGED :: u8 where "PM_MANAGED = 4"

record vm_page =
  vm_offset :: u32
  vaddr :: u32
  paddr :: u32
  prot :: u32
  vm_flags :: u8
  pm_flags :: u8
  psize :: u32          \<comment> \<open>\<open>size\<close>, in pages\<close>

definition PG_SIZE :: "vm_page \<Rightarrow> u32" where "PG_SIZE pg = psize pg * PAGESIZE"
definition PG_START :: "vm_page \<Rightarrow> u32" where "PG_START pg = paddr pg"
definition PG_END :: "vm_page \<Rightarrow> u32" where "PG_END pg = paddr pg + PG_SIZE pg"
definition PG_VADDR_START :: "vm_page \<Rightarrow> u32" where "PG_VADDR_START pg = vaddr pg"
definition PG_VADDR_END :: "vm_page \<Rightarrow> u32" where "PG_VADDR_END pg = vaddr pg + PG_SIZE pg"

section \<open>Segments and their queues\<close>

definition PM_NQUEUES :: nat where "PM_NQUEUES = 16"

record pm_seg =
  seg_start :: u32
  seg_end :: u32
  freeq :: "nat list list"
  npages :: u32
  pages :: "vm_page list"

text \<open>Reading and updating a page or a queue outside its array is a fault.\<close>

definition get_page :: "pm_seg \<Rightarrow> nat \<Rightarrow> vm_page result" where
  "get_page seg p = (if p < length (pages seg) then Inr (pages seg ! p) else Inl Out_of_bounds)"

definition upd_page :: "pm_seg \<Rightarrow> nat \<Rightarrow> (vm_page \<Rightarrow> vm_page) \<Rightarrow> pm_seg result" where
  "upd_page seg p f = (if p < length (pages seg)
     then Inr (seg\<lparr>pages := (pages seg)[p := f (pages seg ! p)]\<rparr>) else Inl Out_of_bounds)"

definition PM_FREEQ :: "pm_seg \<Rightarrow> int \<Rightarrow> nat list result" where
  "PM_FREEQ seg i = (if 0 \<le> i \<and> i < int (length (freeq seg))
     then Inr (freeq seg ! nat i) else Inl Out_of_bounds)"

definition PM_QUEUE_OF :: "vm_page \<Rightarrow> int" where
  "PM_QUEUE_OF pg = c_log2 (psize pg)"

definition q_insert_head :: "int \<Rightarrow> nat \<Rightarrow> pm_seg \<Rightarrow> pm_seg result" where
  "q_insert_head i p seg = rbind (PM_FREEQ seg i) (\<lambda>q.
     Inr (seg\<lparr>freeq := (freeq seg)[nat i := p # q]\<rparr>))"

definition q_remove :: "int \<Rightarrow> nat \<Rightarrow> pm_seg \<Rightarrow> pm_seg result" where
  "q_remove i p seg = rbind (PM_FREEQ seg i) (\<lambda>q.
     if p \<in> set q then Inr (seg\<lparr>freeq := (freeq seg)[nat i := remove1 p q]\<rparr>) else Inl Not_on_queue)"

definition set_size :: "u32 \<Rightarrow> vm_page \<Rightarrow> vm_page" where
  "set_size sz pg = pg\<lparr>psize := sz\<rparr>"

definition or_flag :: "u8 \<Rightarrow> vm_page \<Rightarrow> vm_page" where
  "or_flag f pg = pg\<lparr>pm_flags := pm_flags pg OR f\<rparr>"

definition clear_flag :: "u8 \<Rightarrow> vm_page \<Rightarrow> vm_page" where
  "clear_flag f pg = pg\<lparr>pm_flags := pm_flags pg AND NOT f\<rparr>"

definition assign_flag :: "u8 \<Rightarrow> vm_page \<Rightarrow> vm_page" where
  "assign_flag f pg = pg\<lparr>pm_flags := f\<rparr>"

text \<open>
  The loops \<open>do { pg->pm_flags ...; pg++; } while (--n);\<close> that treat the \<open>n\<close> pages of a block.
  With \<open>n = 0\<close> the decrement wraps around and the loop runs off the page array.
\<close>

function flag_loop :: "(vm_page \<Rightarrow> vm_page) \<Rightarrow> u32 \<Rightarrow> nat \<Rightarrow> pm_seg \<Rightarrow> pm_seg result" where
  "flag_loop f n p seg = rbind (upd_page seg p f) (\<lambda>seg'.
     if n - 1 = 0 then Inr seg' else flag_loop f (n - 1) (Suc p) seg')"
  by pat_completeness auto
termination
proof (relation "measure (\<lambda>(f, n, p, seg). unat (n - 1))")
  fix f :: "vm_page \<Rightarrow> vm_page" and n :: u32 and p seg seg'
  assume "n - 1 \<noteq> 0"
  then have "unat (n - 1 - 1) < unat (n - 1)"
    using unat_pred [of "n - 1"] unat_gt_0 [of "n - 1"] by linarith
  then show "((f, n - 1, Suc p, seg'), (f, n, p, seg)) \<in> measure (\<lambda>(f, n, p, seg). unat (n - 1))"
    by simp
qed simp

declare flag_loop.simps [simp del]

section \<open>Segment operations\<close>

definition sizeof_pm_seg :: u32 where "sizeof_pm_seg = 148"
definition sizeof_vm_page :: u32 where "sizeof_vm_page = 48"

definition pm_seg_space_needed :: "u32 \<Rightarrow> u32" where
  "pm_seg_space_needed sz = sizeof_pm_seg + sz div PAGESIZE * sizeof_vm_page"

text \<open>
  \<open>pm_seg_init\<close>: \<open>ctz0\<close> is the value the compiler's \<open>__builtin_ctz\<close> has at 0, which the loop reads
  for the first page and the language leaves undefined.
\<close>

definition init_page :: "int \<Rightarrow> int \<Rightarrow> u32 \<Rightarrow> u32 \<Rightarrow> nat \<Rightarrow> vm_page result" where
  "init_page ctz0 max_size start vm_off i =
    (let a = c_min max_size (c_ctz ctz0 (of_nat i)) in
     if a < 0 \<or> 32 \<le> a then Inl Bad_shift
     else Inr \<lparr>vm_offset = 0, vaddr = start + PAGESIZE * of_nat i + vm_off,
       paddr = start + PAGESIZE * of_nat i, prot = 0, vm_flags = 0, pm_flags = 0,
       psize = push_bit (nat a) 1\<rparr>)"

fun init_pages :: "(nat \<Rightarrow> vm_page result) \<Rightarrow> nat list \<Rightarrow> vm_page list result" where
  "init_pages f [] = Inr []"
| "init_pages f (i # is) = rbind (f i) (\<lambda>pg. rbind (init_pages f is) (\<lambda>pgs. Inr (pg # pgs)))"

lemma fill_decreases: "push_bit i 1 \<le> n \<Longrightarrow> i < 32 \<Longrightarrow> unat (n - push_bit i 1) < unat (n :: u32)"
proof -
  assume le: "push_bit i 1 \<le> n" and "i < 32"
  then have "unat (push_bit i 1 :: u32) = 2 ^ i" by (simp add: push_bit_eq_mult unat_pow2)
  moreover have "unat (n - push_bit i 1) = unat n - unat (push_bit i 1 :: u32)" using le by (simp add: unat_sub)
  moreover have "unat (push_bit i 1 :: u32) \<le> unat n" using le by (simp add: word_le_nat_alt)
  ultimately show ?thesis using zero_less_power [of "2 :: nat" i] by linarith
qed

text \<open>
  \<open>while (to_add >= size)\<close> of queue \<open>i\<close>, with \<open>size = 1 << i\<close>; returns the cursor too. The queues are
  numbered below 16, so the second conjunct of the guard always holds; it is there for termination.
\<close>

function fill_queue :: "nat \<Rightarrow> u32 \<Rightarrow> u32 \<Rightarrow> pm_seg \<Rightarrow> (pm_seg \<times> u32 \<times> u32) result" where
  "fill_queue i curr_page to_add seg =
    (let sz = push_bit i (1::u32) in
     if sz \<le> to_add \<and> i < 32 then
       rbind (q_insert_head (int i) (unat curr_page) seg) (\<lambda>seg1.
       rbind (upd_page seg1 (unat curr_page) (or_flag PM_MANAGED)) (\<lambda>seg2.
         fill_queue i (curr_page + sz) (to_add - sz) seg2))
     else Inr (seg, curr_page, to_add))"
  by pat_completeness auto
termination
  by (relation "measure (\<lambda>(i, c, to_add, seg). unat to_add)") (auto intro: fill_decreases [simplified])

declare fill_queue.simps [simp del]

text \<open>\<open>for (int i = PM_NQUEUES - 1; i >= 0; i--)\<close>: queues \<open>i - 1\<close> down to \<open>0\<close>.\<close>

fun fill_queues :: "nat \<Rightarrow> u32 \<Rightarrow> u32 \<Rightarrow> pm_seg \<Rightarrow> pm_seg result" where
  "fill_queues 0 curr_page to_add seg = Inr seg"
| "fill_queues (Suc i) curr_page to_add seg =
     rbind (fill_queue i curr_page to_add seg) (\<lambda>(seg', curr_page', to_add').
       fill_queues i curr_page' to_add' seg')"

definition pm_seg_init :: "int \<Rightarrow> u32 \<Rightarrow> u32 \<Rightarrow> u32 \<Rightarrow> pm_seg result" where
  "pm_seg_init ctz0 start en vm_off =
    (let n = (en - start) div PAGESIZE;
         max_size = c_min (int PM_NQUEUES) (c_ffs n) - 1
     in rbind (init_pages (init_page ctz0 max_size start vm_off) [0..<unat n]) (\<lambda>pgs.
        fill_queues PM_NQUEUES 0 n
          \<lparr>seg_start = start, seg_end = en, freeq = replicate PM_NQUEUES [], npages = n, pages = pgs\<rparr>))"

definition pm_split_page :: "pm_seg \<Rightarrow> nat \<Rightarrow> pm_seg result" where
  "pm_split_page seg p =
    rbind (get_page seg p) (\<lambda>page.
    let sz = psize page div 2; buddy = p + unat sz in
    rbind (q_remove (PM_QUEUE_OF page) p seg) (\<lambda>s1.
    rbind (upd_page s1 p (set_size sz)) (\<lambda>s2.
    rbind (upd_page s2 buddy (set_size sz)) (\<lambda>s3.
    rbind (get_page s3 p) (\<lambda>page'.
    rbind (q_insert_head (PM_QUEUE_OF page') p s3) (\<lambda>s4.
    rbind (get_page s4 buddy) (\<lambda>bpage.
    rbind (q_insert_head (PM_QUEUE_OF bpage) buddy s4) (\<lambda>s5.
      upd_page s5 buddy (or_flag PM_MANAGED)))))))))"

definition pm_find_buddy :: "pm_seg \<Rightarrow> nat \<Rightarrow> nat option result" where
  "pm_find_buddy seg p =
    rbind (get_page seg p) (\<lambda>pg.
    if 2 * psize pg = 0 then Inl Divide_by_zero
    else
      let index = (if of_nat p mod (2 * psize pg) = 0 then int p + uint (psize pg)
                   else int p - uint (psize pg))
      in if index < 0 \<or> uint (npages seg) \<le> index then Inr None
         else rbind (get_page seg (nat index)) (\<lambda>buddy.
           if psize buddy \<noteq> psize pg then Inr None
           else if pm_flags buddy AND PM_MANAGED = 0 then Inr None
           else Inr (Some (nat index))))"

definition pm_merge_buddies :: "pm_seg \<Rightarrow> nat \<Rightarrow> nat \<Rightarrow> (pm_seg \<times> nat) result" where
  "pm_merge_buddies seg p1 p2 =
    (let (pg1, pg2) = (if p1 > p2 then c_swap p1 p2 else (p1, p2)) in
     rbind (upd_page seg pg1 (\<lambda>pg. set_size (psize pg * 2) pg)) (\<lambda>seg'. Inr (seg', pg1)))"

text \<open>
  \<open>while (TAILQ_EMPTY(PM_FREEQ(seg, i)) && (i < PM_NQUEUES)) i++;\<close> reads the queue before it checks
  the index. At \<open>i = PM_NQUEUES\<close> the read is one past the array, of the field \<open>npages\<close>; both outcomes
  leave the loop with \<open>i = PM_NQUEUES\<close>. Past that the read is out of bounds and so is what follows.
\<close>

function find_queue :: "pm_seg \<Rightarrow> nat \<Rightarrow> nat result" where
  "find_queue seg i =
    (if i < PM_NQUEUES then
       rbind (PM_FREEQ seg (int i)) (\<lambda>q. if q = [] then find_queue seg (Suc i) else Inr i)
     else if i = PM_NQUEUES then Inr i
     else Inl Out_of_bounds)"
  by pat_completeness auto
termination by (relation "measure (\<lambda>(seg, i). PM_NQUEUES - i)") auto

declare find_queue.simps [simp del]

text \<open>
  The \<open>while (true)\<close> loop that splits the block it found until it has order \<open>j\<close>. Below \<open>j\<close> the index
  would wrap around to \<open>SIZE_MAX\<close> and read outside the queues.
\<close>

fun alloc_loop :: "nat \<Rightarrow> nat \<Rightarrow> pm_seg \<Rightarrow> (pm_seg \<times> nat) result" where
  "alloc_loop j i seg =
    rbind (PM_FREEQ seg (int i)) (\<lambda>q.
    case q of
      [] \<Rightarrow> Inl Out_of_bounds
    | page # _ \<Rightarrow>
      if i = j then
        rbind (q_remove (int i) page seg) (\<lambda>s1.
        rbind (upd_page s1 page (clear_flag PM_MANAGED)) (\<lambda>s2.
        rbind (get_page s2 page) (\<lambda>pg.
        rbind (flag_loop (or_flag PM_ALLOCATED) (psize pg) page s2) (\<lambda>s3.
          Inr (s3, page)))))
      else
        rbind (pm_split_page seg page) (\<lambda>seg'.
        case i of 0 \<Rightarrow> Inl Out_of_bounds | Suc i' \<Rightarrow> alloc_loop j i' seg'))"

declare alloc_loop.simps [simp del]

definition pm_alloc_from_seg :: "pm_seg \<Rightarrow> u32 \<Rightarrow> (pm_seg \<times> nat option) result" where
  "pm_alloc_from_seg seg n =
    (if c_log2 n < 0 then Inl Out_of_bounds
     else let j = nat (c_log2 n) in
       rbind (find_queue seg j) (\<lambda>i.
       if i = PM_NQUEUES then Inr (seg, None)
       else rbind (alloc_loop j i seg) (\<lambda>(seg', p). Inr (seg', Some p))))"

text \<open>The \<open>while (true)\<close> loop of \<open>pm_free_from_seg\<close>: \<open>None\<close> is a loop that never ends.\<close>

partial_function (option) free_loop :: "pm_seg \<Rightarrow> nat \<Rightarrow> pm_seg result option" where
  "free_loop seg page =
    (case pm_find_buddy seg page of
      Inl e \<Rightarrow> Some (Inl e)
    | Inr None \<Rightarrow> Some (
        rbind (get_page seg page) (\<lambda>pg.
        rbind (q_insert_head (PM_QUEUE_OF pg) page seg) (\<lambda>s1.
        rbind (upd_page s1 page (or_flag PM_MANAGED)) (\<lambda>s2.
          flag_loop (clear_flag PM_ALLOCATED) (psize pg) page s2))))
    | Inr (Some buddy) \<Rightarrow>
        (case rbind (get_page seg buddy) (\<lambda>bpg.
              rbind (q_remove (PM_QUEUE_OF bpg) buddy seg) (\<lambda>s1.
              rbind (upd_page s1 buddy (clear_flag PM_MANAGED)) (\<lambda>s2.
                pm_merge_buddies s2 page buddy))) of
          Inl e \<Rightarrow> Some (Inl e)
        | Inr (seg', page') \<Rightarrow> free_loop seg' page'))"

definition pm_free_from_seg :: "pm_seg \<Rightarrow> nat \<Rightarrow> pm_seg result option" where
  "pm_free_from_seg seg page =
    (case get_page seg page of
      Inl e \<Rightarrow> Some (Inl e)
    | Inr pg \<Rightarrow>
        if pm_flags pg AND PM_RESERVED \<noteq> 0
        then Some (Inl (Panicked ''trying to free reserved page: %p''))
        else if pm_flags pg AND PM_ALLOCATED = 0
        then Some (Inl (Panicked ''page is already free: %p''))
        else free_loop seg page)"

text \<open>
  \<open>pm_seg_reserve\<close>: the inner \<open>while (pg)\<close> of queue \<open>i\<close> with its cursor \<open>pg\<close>. \<open>queue_next\<close> is
  \<open>TAILQ_NEXT\<close> of an element of the queue.
\<close>

definition queue_first :: "pm_seg \<Rightarrow> nat \<Rightarrow> nat option" where
  "queue_first seg i = (if i < length (freeq seg) then head_opt (freeq seg ! i) else None)"

definition queue_next :: "pm_seg \<Rightarrow> nat \<Rightarrow> nat \<Rightarrow> nat option" where
  "queue_next seg i p = (if i < length (freeq seg)
     then head_opt (tl (dropWhile (\<lambda>x. x \<noteq> p) (freeq seg ! i))) else None)"

definition reserve_page :: "pm_seg \<Rightarrow> nat \<Rightarrow> nat \<Rightarrow> pm_seg result" where
  "reserve_page seg i p =
    rbind (q_remove (int i) p seg) (\<lambda>s1.
    rbind (upd_page s1 p (clear_flag PM_MANAGED)) (\<lambda>s2.
    rbind (get_page s2 p) (\<lambda>pg.
      flag_loop (assign_flag PM_RESERVED) (psize pg) p s2)))"

partial_function (option) reserve_loop ::
  "u32 \<Rightarrow> u32 \<Rightarrow> nat \<Rightarrow> pm_seg \<Rightarrow> nat option \<Rightarrow> pm_seg result option" where
  "reserve_loop start en i seg cursor =
    (case cursor of
      None \<Rightarrow> Some (Inr seg)
    | Some p \<Rightarrow>
      (case get_page seg p of
        Inl e \<Rightarrow> Some (Inl e)
      | Inr pg \<Rightarrow>
        if start \<le> PG_START pg \<and> PG_END pg \<le> en then
          (case reserve_page seg i p of
            Inl e \<Rightarrow> Some (Inl e)
          | Inr seg' \<Rightarrow> reserve_loop start en i seg' (queue_first seg' i))
        else if (PG_START pg < start \<and> start < PG_END pg) \<or> (PG_START pg < en \<and> en < PG_END pg) then
          (case pm_split_page seg p of
            Inl e \<Rightarrow> Some (Inl e)
          | Inr seg' \<Rightarrow> reserve_loop start en i seg' (queue_first seg' i))
        else reserve_loop start en i seg (queue_next seg i p)))"

fun reserve_queues :: "u32 \<Rightarrow> u32 \<Rightarrow> nat \<Rightarrow> pm_seg \<Rightarrow> pm_seg result option" where
  "reserve_queues start en 0 seg = Some (Inr seg)"
| "reserve_queues start en (Suc i) seg =
     (case reserve_loop start en i seg (queue_first seg i) of
       None \<Rightarrow> None
     | Some (Inl e) \<Rightarrow> Some (Inl e)
     | Some (Inr seg') \<Rightarrow> reserve_queues start en i seg')"

definition pm_seg_reserve :: "pm_seg \<Rightarrow> u32 \<Rightarrow> u32 \<Rightarrow> pm_seg result option" where
  "pm_seg_reserve seg start en = reserve_queues start en PM_NQUEUES seg"

section \<open>The manager\<close>

text \<open>
  The state of the manager: its list of segments and, as the log of \<open>kprintf\<close> calls with their
  arguments, what it printed. A page pointer names the segment it points into and the index there.
\<close>

type_synonym page_ptr = "nat \<times> nat"

record pm_state =
  seglist :: "pm_seg list"
  klog :: "(string \<times> u32 list) list"

definition kprintf :: "string \<Rightarrow> u32 list \<Rightarrow> pm_state \<Rightarrow> pm_state" where
  "kprintf fmt args st = st\<lparr>klog := klog st @ [(fmt, args)]\<rparr>"

definition pm_init :: "pm_state \<Rightarrow> pm_state" where
  "pm_init st = st\<lparr>seglist := []\<rparr>"

definition pm_add_segment :: "pm_seg \<Rightarrow> pm_state \<Rightarrow> pm_state" where
  "pm_add_segment seg st = st\<lparr>seglist := seglist st @ [seg]\<rparr>"

text \<open>\<open>TAILQ_FOREACH (seg_it, &seglist, segq)\<close> of \<open>pm_alloc\<close>, from segment \<open>k\<close> on.\<close>

fun alloc_foreach :: "u32 \<Rightarrow> nat \<Rightarrow> pm_seg list \<Rightarrow> (pm_seg list \<times> (page_ptr \<times> vm_page) option) result" where
  "alloc_foreach n k [] = Inr ([], None)"
| "alloc_foreach n k (seg # segs) =
     rbind (pm_alloc_from_seg seg n) (\<lambda>(seg', res).
     case res of
       Some p \<Rightarrow> rbind (get_page seg' p) (\<lambda>pg. Inr (seg' # segs, Some ((k, p), pg)))
     | None \<Rightarrow> rbind (alloc_foreach n (Suc k) segs) (\<lambda>(segs', res'). Inr (seg' # segs', res')))"

definition pm_alloc :: "u32 \<Rightarrow> pm_state \<Rightarrow> (pm_state \<times> page_ptr option) result" where
  "pm_alloc n st =
    rbind (alloc_foreach n 0 (seglist st)) (\<lambda>(segs, res).
    case res of
      None \<Rightarrow> Inr (st\<lparr>seglist := segs\<rparr>, None)
    | Some (ptr, pg) \<Rightarrow>
        Inr (kprintf ''[pmem] pm_alloc {paddr:%lx size:%ld}\<newline>'' [paddr pg, psize pg]
              (st\<lparr>seglist := segs\<rparr>), Some ptr))"

definition get_page_ptr :: "pm_state \<Rightarrow> page_ptr \<Rightarrow> vm_page result" where
  "get_page_ptr st ptr = (if fst ptr < length (seglist st)
     then get_page (seglist st ! fst ptr) (snd ptr) else Inl Out_of_bounds)"

text \<open>\<open>pm_dump\<close> prints every segment and the free pages of its non-empty queues.\<close>

definition dump_queue :: "pm_seg \<Rightarrow> nat \<Rightarrow> (string \<times> u32 list) list" where
  "dump_queue seg i = (if freeq seg ! i = [] then []
     else [(''[pmem]  %6dKiB:'', [push_bit i (PAGESIZE div 1024)])] @
       map (\<lambda>p. ('' %p'', [PG_START (pages seg ! p)])) (freeq seg ! i) @ [(''\<newline>'', [])])"

definition pm_dump :: "pm_state \<Rightarrow> pm_state" where
  "pm_dump st = st\<lparr>klog := klog st @ concat (map (\<lambda>seg.
     (''[pmem] segment %p - %p:\<newline>'', [seg_start seg, seg_end seg]) #
     concat (map (dump_queue seg) [0..<PM_NQUEUES])) (seglist st))\<rparr>"

definition owning_seg :: "vm_page \<Rightarrow> pm_seg list \<Rightarrow> nat option" where
  "owning_seg pg segs = head_opt (filter (\<lambda>k. seg_start (segs ! k) \<le> PG_START pg \<and>
     PG_END pg \<le> seg_end (segs ! k)) [0..<length segs])"

text \<open>
  \<open>pm_free\<close>. The segment found by address is the one the pointer points into unless segments
  overlap, where the pointer arithmetic across two arrays is undefined.
\<close>

definition pm_free :: "page_ptr \<Rightarrow> pm_state \<Rightarrow> pm_state result option" where
  "pm_free ptr st =
    (case get_page_ptr st ptr of
      Inl e \<Rightarrow> Some (Inl e)
    | Inr pg \<Rightarrow>
      (let st1 = kprintf ''[pmem] pm_free {paddr:%lx size:%ld}\<newline>'' [paddr pg, psize pg] st in
       case owning_seg pg (seglist st1) of
         None \<Rightarrow> Some (Inl (Panicked ''page out of range: %p''))
       | Some k \<Rightarrow>
           if k \<noteq> fst ptr then Some (Inl Out_of_bounds)
           else (case pm_free_from_seg (seglist st1 ! k) (snd ptr) of
               None \<Rightarrow> None
             | Some (Inl e) \<Rightarrow> Some (Inl e)
             | Some (Inr seg') \<Rightarrow> Some (Inr (st1\<lparr>seglist := (seglist st1)[k := seg']\<rparr>)))))"

definition seg_split_alloc_page :: "nat \<Rightarrow> pm_seg \<Rightarrow> (pm_seg \<times> nat) result" where
  "seg_split_alloc_page p seg =
    rbind (get_page seg p) (\<lambda>pg.
    let sz = psize pg div 2; buddy = p + unat sz in
    rbind (upd_page seg p (set_size sz)) (\<lambda>s1.
    rbind (upd_page s1 buddy (set_size sz)) (\<lambda>s2. Inr (s2, buddy))))"

definition pm_split_alloc_page :: "page_ptr \<Rightarrow> pm_state \<Rightarrow> (pm_state \<times> page_ptr) result" where
  "pm_split_alloc_page ptr st =
    rbind (get_page_ptr st ptr) (\<lambda>pg.
    let st1 = kprintf ''[pmem] pm_split {paddr:%lx size:%ld}\<newline>'' [paddr pg, psize pg] st in
    rbind (seg_split_alloc_page (snd ptr) (seglist st1 ! fst ptr)) (\<lambda>(seg', buddy).
      Inr (st1\<lparr>seglist := (seglist st1)[fst ptr := seg']\<rparr>, (fst ptr, buddy))))"

text \<open>\<open>pm_hash\<close>: \<open>hash * 33 + PG_START\<close> over every free page of every segment, starting at 5381.\<close>

definition seg_free_list :: "pm_seg \<Rightarrow> nat list" where
  "seg_free_list seg = concat (map (\<lambda>i. freeq seg ! i) [0..<PM_NQUEUES])"

definition pm_hash :: "pm_state \<Rightarrow> u32" where
  "pm_hash st = fold (\<lambda>seg hash. fold (\<lambda>p hash. hash * 33 + PG_START (pages seg ! p))
     (seg_free_list seg) hash) (seglist st) 5381"

end
