(* ===== verification/Buddy_Coalesce.thy ===== *)
theory Buddy_Coalesce
  imports Buddy
begin

text \<open>
  Coalescing: a buddy system in which no two free blocks are buddies. In such a system every aligned
  run of free pages lies in one free block, so an allocation that finds no block of the order it
  wants fails only if there is no such run, and the free blocks are a function of the free pages.
\<close>

section \<open>Aligned blocks\<close>

lemma aligned_nested:
  assumes "2 ^ k dvd p" "2 ^ j dvd q" "j \<le> k" and meet: "x \<in> blk (p, k)" "x \<in> blk (q, j)"
  shows "blk (q, j) \<subseteq> blk (p, k)"
proof -
  define d where "d = (2::nat) ^ (k - j)"
  have kd: "2 ^ k = 2 ^ j * d" using assms(3) by (simp add: d_def flip: power_add)
  obtain a where p: "p = 2 ^ j * (d * a)" using assms(1) kd by (auto simp: dvd_def mult.assoc)
  obtain b where q: "q = 2 ^ j * b" using assms(2) by (auto simp: dvd_def)
  have "2 ^ j * (d * a) < 2 ^ j * (b + 1)" "2 ^ j * b < 2 ^ j * (d * a + d)"
    using meet by (simp_all add: p q kd distrib_left)
  then have "d * a < b + 1" "b < d * a + d" by (simp_all only: mult_less_cancel1)
  then have "2 ^ j * (d * a) \<le> 2 ^ j * b" "2 ^ j * (b + 1) \<le> 2 ^ j * (d * a + d)"
    by (intro mult_le_mono2; simp)+
  then show ?thesis unfolding blk_def by (simp add: p q kd distrib_left)
qed

lemma buddy_of_inverse:
  assumes "2 ^ k dvd p"
  shows "buddy_of (buddy_of p k) k = p"
proof (cases "2 ^ Suc k dvd p")
  case True
  moreover have "\<not> 2 ^ Suc k dvd (2::nat) ^ k" by (intro nat_dvd_not_less) simp_all
  ultimately have "\<not> 2 ^ Suc k dvd p + 2 ^ k" by (simp only: dvd_add_right_iff not_False_eq_True)
  then show ?thesis using True by (simp add: buddy_of_def)
next
  case False
  obtain a where p: "p = 2 ^ k * a" using assms by (auto simp: dvd_def)
  then have "odd a" using False by (auto simp: mult.assoc elim!: evenE)
  then obtain c where "a = 2 * c + 1" by (rule oddE)
  then have "2 ^ Suc k dvd p - 2 ^ k" "2 ^ k \<le> p" by (simp_all add: p distrib_left)
  then show ?thesis using False by (simp add: buddy_of_def)
qed

lemma buddy_of_ne: "buddy_of p k \<noteq> p"
proof (cases "p = 0")
  case False
  then have "p - 2 ^ k < p" by (intro diff_less) simp_all
  then show ?thesis by (simp add: buddy_of_def)
qed (simp add: buddy_of_def)

lemma free_aligned: "buddy_inv v A P \<Longrightarrow> (p, k) \<in> bfree v \<Longrightarrow> 2 ^ k dvd p"
  using buddy_invD(1) [of v A P "(p, k)"] by (simp add: placed_def)

section \<open>Free buddies\<close>

text \<open>\<open>loose R v\<close>: two free blocks that are buddies meet \<open>R\<close>.\<close>

definition loose :: "nat set \<Rightarrow> buddy \<Rightarrow> bool" where
  "loose R v \<longleftrightarrow> (\<forall>p k. (p, k) \<in> bfree v \<and> (buddy_of p k, k) \<in> bfree v \<longrightarrow>
     (blk (p, k) \<union> blk (buddy_of p k, k)) \<inter> R \<noteq> {})"

definition coalesced :: "buddy \<Rightarrow> bool" where
  "coalesced v \<longleftrightarrow> (\<forall>p k. (p, k) \<in> bfree v \<longrightarrow> (buddy_of p k, k) \<notin> bfree v)"

lemma coalesced_loose: "coalesced v \<Longrightarrow> loose R v"
  by (auto simp: coalesced_def loose_def)

lemma loose_subset: "loose R v \<Longrightarrow> bfree w \<subseteq> bfree v \<Longrightarrow> loose R w"
  unfolding loose_def by blast

lemma coalesced_subset: "coalesced v \<Longrightarrow> bfree w \<subseteq> bfree v \<Longrightarrow> coalesced w"
  unfolding coalesced_def by blast

lemma loose_disjoint: "loose R v \<Longrightarrow> free_pages v \<inter> R = {} \<Longrightarrow> coalesced v"
  unfolding loose_def coalesced_def free_pages_def by blast

lemma split_buddies:
  assumes "2 ^ Suc k dvd p"
  shows "buddy_of p k = p + 2 ^ k" "buddy_of (p + 2 ^ k) k = p"
proof -
  show b: "buddy_of p k = p + 2 ^ k" using assms by (simp add: buddy_of_def)
  show "buddy_of (p + 2 ^ k) k = p" using buddy_of_inverse [OF pow2_dvd_Suc [OF assms]] by (simp add: b)
qed

lemma loose_split:
  assumes inv: "buddy_inv v A P" and b: "(p, Suc k) \<in> bfree v" and l: "loose R v"
    and R: "blk (p, Suc k) \<inter> R \<noteq> {}"
  shows "loose R (b_split p k v)"
  unfolding loose_def
proof (intro allI impI)
  fix a m
  assume ab: "(a, m) \<in> bfree (b_split p k v) \<and> (buddy_of a m, m) \<in> bfree (b_split p k v)"
  have d: "2 ^ Suc k dvd p" using free_aligned [OF inv b] .
  note sb = split_buddies [OF d]
  have m: "2 ^ m dvd a" using free_aligned [OF split_inv [OF inv b]] ab by blast
  have u: "blk (p, k) \<union> blk (p + 2 ^ k, k) = blk (p, Suc k)" by (simp add: blk_split)
  consider "(a, m) \<in> bfree v" "(buddy_of a m, m) \<in> bfree v" | "m = k" "a = p \<or> a = p + 2 ^ k"
    | "m = k" "buddy_of a m = p \<or> buddy_of a m = p + 2 ^ k"
    using ab by (auto simp: b_split_def)
  then show "(blk (a, m) \<union> blk (buddy_of a m, m)) \<inter> R \<noteq> {}"
  proof cases
    case 1
    then show ?thesis using l by (auto simp: loose_def)
  next
    case 2
    then have "blk (a, m) \<union> blk (buddy_of a m, m) = blk (p, Suc k)" using sb u by (metis Un_commute)
    then show ?thesis using R by simp
  next
    case 3
    then have "a = p \<or> a = p + 2 ^ k" using buddy_of_inverse [OF m] sb by metis
    then have "blk (a, m) \<union> blk (buddy_of a m, m) = blk (p, Suc k)" using 3(1) sb u by (metis Un_commute)
    then show ?thesis using R by simp
  qed
qed

lemma coalesced_put:
  assumes inv: "buddy_inv v A {(p, k)}" and c: "coalesced v" and b: "(buddy_of p k, k) \<notin> bfree v"
  shows "coalesced (b_put p k v)"
  unfolding coalesced_def
proof (intro allI impI notI)
  fix a m
  assume a: "(a, m) \<in> bfree (b_put p k v)" and am: "(buddy_of a m, m) \<in> bfree (b_put p k v)"
  have "2 ^ m dvd a" using free_aligned [OF put_inv [OF inv] a] .
  then have i: "buddy_of (buddy_of a m) m = a" by (rule buddy_of_inverse)
  consider "(a, m) \<in> bfree v" "(buddy_of a m, m) \<in> bfree v" | "a = p" "m = k" | "buddy_of a m = p" "m = k"
    using a am by (auto simp: b_put_def)
  then show False
  proof cases
    case 1
    then show ?thesis using c by (simp add: coalesced_def)
  next
    case 2
    then have "buddy_of p k = p" using am b by (auto simp: b_put_def)
    then show ?thesis using buddy_of_ne by blast
  next
    case 3
    then have "buddy_of p k = p" using a i b by (auto simp: b_put_def)
    then show ?thesis using buddy_of_ne by blast
  qed
qed

section \<open>Completeness and uniqueness\<close>

lemma coalesced_cover:
  assumes inv: "buddy_inv v A P" and c: "coalesced v"
  shows "2 ^ j dvd q \<Longrightarrow> blk (q, j) \<subseteq> free_pages v \<Longrightarrow>
    \<exists>p k. (p, k) \<in> bfree v \<and> j \<le> k \<and> blk (q, j) \<subseteq> blk (p, k)"
proof (induction j arbitrary: q)
  case 0
  then obtain b where "b \<in> bfree v" "q \<in> blk b" by (auto simp: free_pages_def)
  then show ?case by (intro exI [of _ "fst b"] exI [of _ "snd b"]) (auto simp: blk_def)
next
  case (Suc j)
  have al: "2 ^ k dvd p" if "(p, k) \<in> bfree v" for p k
    using free_aligned [OF inv that] .
  have d: "2 ^ j dvd q" "2 ^ j dvd q + 2 ^ j" using Suc.prems(1) pow2_dvd_Suc by simp_all
  obtain p1 k1 where 1: "(p1, k1) \<in> bfree v" "j \<le> k1" "blk (q, j) \<subseteq> blk (p1, k1)"
    using Suc.IH [OF d(1)] Suc.prems(2) blk_split [of q j] by blast
  obtain p2 k2 where 2: "(p2, k2) \<in> bfree v" "j \<le> k2" "blk (q + 2 ^ j, j) \<subseteq> blk (p2, k2)"
    using Suc.IH [OF d(2)] Suc.prems(2) blk_split [of q j] by blast
  have big: ?case if "(p, k) \<in> bfree v" "Suc j \<le> k" "x \<in> blk (p, k)" "x \<in> blk (q, Suc j)" for p k x
    using aligned_nested [OF al [OF that(1)] Suc.prems(1) that(2,3,4)] that(1,2) by blast
  have x1: "q \<in> blk (p1, k1)" using 1(3) fst_in_blk [of "(q, j)"] by (simp only: fst_conv) blast
  have x2: "q + 2 ^ j \<in> blk (p2, k2)" using 2(3) fst_in_blk [of "(q + 2 ^ j, j)"] by (simp only: fst_conv) blast
  show ?case
  proof (cases "k1 = j \<and> k2 = j")
    case True
    then have "p1 = q" "p2 = q + 2 ^ j"
      using 1(3) 2(3) by (auto simp: blk_def)
    then have "(q, j) \<in> bfree v" "(buddy_of q j, j) \<in> bfree v"
      using 1(1) 2(1) True split_buddies(1) [OF Suc.prems(1)] by simp_all
    then show ?thesis using c by (simp add: coalesced_def)
  next
    case False
    then show ?thesis using big [OF 1(1) _ x1] big [OF 2(1) _ x2] 1(2) 2(2) by auto
  qed
qed

lemma coalesced_unique:
  assumes v: "buddy_inv v A P" "coalesced v" and w: "buddy_inv w B Q" "coalesced w"
    and same: "free_pages v = free_pages w"
  shows "bfree v = bfree w"
proof -
  have sub: "bfree v \<subseteq> bfree w"
    if v: "buddy_inv v A P" "coalesced v" and w: "buddy_inv w B Q" "coalesced w"
    and same: "free_pages v = free_pages w" for v w A B P Q
  proof
    fix b assume b: "b \<in> bfree v"
    obtain p k where pk: "b = (p, k)" by (cases b)
    have "blk b \<subseteq> free_pages w" using b same by (auto simp: free_pages_def)
    moreover have "2 ^ k dvd p" using buddy_invD(1) [OF v(1), of b] b by (simp add: placed_def pk)
    ultimately obtain c where c: "c \<in> bfree w" "blk b \<subseteq> blk c"
      using coalesced_cover [OF w] pk by blast
    obtain q j where qj: "c = (q, j)" by (cases c)
    have "blk c \<subseteq> free_pages v" using c(1) same by (auto simp: free_pages_def)
    moreover have "2 ^ j dvd q" using buddy_invD(1) [OF w(1), of c] c(1) by (simp add: placed_def qj)
    ultimately obtain d where d: "d \<in> bfree v" "blk c \<subseteq> blk d"
      using coalesced_cover [OF v] qj by blast
    have "fst b \<in> blk b" by simp
    then have "b = d" using buddy_same [OF v(1), of b d "fst b"] b d c by blast
    then have "blk b = blk c" using c(2) d(2) by blast
    then have e: "{p..<p + 2 ^ k} = {q..<q + 2 ^ j}" by (simp add: pk qj blk_def)
    then have "p = q" by (simp add: atLeastLessThan_eq_iff)
    moreover have "(2::nat) ^ k = 2 ^ j" using arg_cong [OF e, of card] by simp
    ultimately show "b \<in> bfree w" using c(1) pk qj by simp
  qed
  show ?thesis using sub [OF v w same] sub [OF w v same [symmetric]] by blast
qed

end
