(* ===== verification/Physmem_Refine.thy ===== *)
theory Physmem_Refine
  imports Physmem Buddy_Coalesce
begin

text \<open>
  The physical memory manager implements the buddy system of theory \<open>Buddy\<close>: \<open>seg_view\<close> reads a
  segment as such a system, and every primitive and every operation of the code is shown to take
  the view one abstract step further, without a fault, while the segment keeps its shape.
\<close>

section \<open>The view of a segment\<close>

definition seg_view :: "pm_seg \<Rightarrow> buddy" where
  "seg_view seg = \<lparr>bn = unat (npages seg),
     bsize = (\<lambda>q. unat (psize (pages seg ! q))),
     balloc = (\<lambda>q. pm_flags (pages seg ! q) AND PM_ALLOCATED \<noteq> 0),
     bres = (\<lambda>q. pm_flags (pages seg ! q) AND PM_RESERVED \<noteq> 0),
     bman = (\<lambda>q. pm_flags (pages seg ! q) AND PM_MANAGED \<noteq> 0),
     bfree = {(p, k). k < PM_NQUEUES \<and> p \<in> set (freeq seg ! k)}\<rparr>"

text \<open>The shape the code relies on; segments are smaller than 256 MiB (65536 pages).\<close>

definition seg_shape :: "pm_seg \<Rightarrow> bool" where
  "seg_shape seg \<longleftrightarrow> length (freeq seg) = PM_NQUEUES \<and> length (pages seg) = unat (npages seg) \<and>
     unat (npages seg) < 2 ^ PM_NQUEUES \<and> (\<forall>k < PM_NQUEUES. distinct (freeq seg ! k))"

text \<open>What no operation changes: where the segment and its pages are.\<close>

definition seg_place :: "pm_seg \<Rightarrow> u32 \<times> u32 \<times> u32 \<times> u32 list \<times> u32 list" where
  "seg_place seg = (seg_start seg, seg_end seg, npages seg, map paddr (pages seg), map vaddr (pages seg))"

definition seg_inv :: "pm_seg \<Rightarrow> block set \<Rightarrow> bool" where
  "seg_inv seg A \<longleftrightarrow> seg_shape seg \<and> buddy_inv (seg_view seg) A {}"

section \<open>Flags\<close>

lemma flag_bits:
  "(x AND PM_RESERVED = 0) = (\<not> bit x 0)" "(x AND PM_ALLOCATED = 0) = (\<not> bit x (Suc 0))"
  "(x AND PM_MANAGED = 0) = (\<not> bit x 2)"
  using and_exp_eq_0_iff_not_bit [of x 0] and_exp_eq_0_iff_not_bit [of x 1]
    and_exp_eq_0_iff_not_bit [of x 2]
  by (simp_all add: PM_RESERVED_def PM_ALLOCATED_def PM_MANAGED_def)

lemma flag_masks [simp]:
  "bit PM_RESERVED 0" "\<not> bit PM_RESERVED (Suc 0)" "\<not> bit PM_RESERVED 2"
  "\<not> bit PM_ALLOCATED 0" "bit PM_ALLOCATED (Suc 0)" "\<not> bit PM_ALLOCATED 2"
  "\<not> bit PM_MANAGED 0" "\<not> bit PM_MANAGED (Suc 0)" "bit PM_MANAGED 2"
  by (simp_all add: PM_RESERVED_def PM_ALLOCATED_def PM_MANAGED_def bit_1_iff)

lemma flag_not_bits [simp]:
  "bit (x AND NOT m) 0 \<longleftrightarrow> bit x 0 \<and> \<not> bit (m :: u8) 0"
  "bit (x AND NOT m) (Suc 0) \<longleftrightarrow> bit x (Suc 0) \<and> \<not> bit m (Suc 0)"
  "bit (x AND NOT m) 2 \<longleftrightarrow> bit x 2 \<and> \<not> bit m 2"
  by (simp_all add: bit_and_iff bit_not_iff)

lemma flag_or_bits [simp]:
  "bit (x OR m) i \<longleftrightarrow> bit x i \<or> bit (m :: u8) i"
  by (simp add: bit_or_iff)

lemma page_fields [simp]:
  "psize (set_size s pg) = s" "pm_flags (set_size s pg) = pm_flags pg" "paddr (set_size s pg) = paddr pg"
  "vaddr (set_size s pg) = vaddr pg"
  "psize (or_flag f pg) = psize pg" "pm_flags (or_flag f pg) = pm_flags pg OR f"
  "paddr (or_flag f pg) = paddr pg" "vaddr (or_flag f pg) = vaddr pg"
  "psize (clear_flag f pg) = psize pg" "pm_flags (clear_flag f pg) = pm_flags pg AND NOT f"
  "paddr (clear_flag f pg) = paddr pg" "vaddr (clear_flag f pg) = vaddr pg"
  "psize (assign_flag f pg) = psize pg" "pm_flags (assign_flag f pg) = f"
  "paddr (assign_flag f pg) = paddr pg" "vaddr (assign_flag f pg) = vaddr pg"
  by (simp_all add: set_size_def or_flag_def clear_flag_def assign_flag_def)

section \<open>Primitives\<close>

text \<open>\<open>steps seg r v\<close>: the step \<open>r\<close> succeeds, keeps shape and place, and its view is \<open>v\<close>.\<close>

definition steps :: "pm_seg \<Rightarrow> pm_seg result \<Rightarrow> buddy \<Rightarrow> bool" where
  "steps seg r v \<longleftrightarrow> (\<exists>seg'. r = Inr seg' \<and> seg_shape seg' \<and> seg_place seg' = seg_place seg \<and> seg_view seg' = v)"

lemma stepsE:
  assumes "steps seg r v"
  obtains seg' where "r = Inr seg'" "seg_shape seg'" "seg_place seg' = seg_place seg" "seg_view seg' = v"
  using assms unfolding steps_def by blast

lemma steps_bind:
  assumes "steps seg r v"
    and "\<And>seg'. r = Inr seg' \<Longrightarrow> seg_shape seg' \<Longrightarrow> seg_place seg' = seg_place seg \<Longrightarrow> seg_view seg' = v \<Longrightarrow>
      steps seg' (f seg') w"
  shows "steps seg (rbind r f) w"
  using assms unfolding steps_def by fastforce

lemma get_page_ok: "p < length (pages seg) \<Longrightarrow> get_page seg p = Inr (pages seg ! p)"
  by (simp add: get_page_def)

lemma map_update_same: "p < length xs \<Longrightarrow> g (f (xs ! p)) = g (xs ! p) \<Longrightarrow> map g (xs[p := f (xs ! p)]) = map g xs"
  by (metis list_update_id map_update nth_map)

lemma upd_page_steps:
  assumes "seg_shape seg" "p < bn (seg_view seg)"
    "\<And>pg. paddr (f pg) = paddr pg" "\<And>pg. vaddr (f pg) = vaddr pg"
  shows "steps seg (upd_page seg p f) (seg_view (seg\<lparr>pages := (pages seg)[p := f (pages seg ! p)]\<rparr>))"
  using assms
  by (auto simp: steps_def upd_page_def seg_shape_def seg_place_def seg_view_def map_update_same)

lemma set_size_steps:
  assumes "seg_shape seg" "p < bn (seg_view seg)"
  shows "steps seg (upd_page seg p (set_size s)) ((seg_view seg)\<lparr>bsize := (bsize (seg_view seg))(p := unat s)\<rparr>)"
proof -
  have "seg_view (seg\<lparr>pages := (pages seg)[p := set_size s (pages seg ! p)]\<rparr>)
      = (seg_view seg)\<lparr>bsize := (bsize (seg_view seg))(p := unat s)\<rparr>"
    using assms by (auto simp: seg_view_def seg_shape_def fun_eq_iff nth_list_update)
  then show ?thesis using upd_page_steps [OF assms, of "set_size s"] by simp
qed

lemma set_managed_steps:
  assumes "seg_shape seg" "p < bn (seg_view seg)"
  shows "steps seg (upd_page seg p (or_flag PM_MANAGED)) ((seg_view seg)\<lparr>bman := (bman (seg_view seg))(p := True)\<rparr>)"
proof -
  have "seg_view (seg\<lparr>pages := (pages seg)[p := or_flag PM_MANAGED (pages seg ! p)]\<rparr>)
      = (seg_view seg)\<lparr>bman := (bman (seg_view seg))(p := True)\<rparr>"
    using assms by (auto simp: seg_view_def seg_shape_def fun_eq_iff nth_list_update flag_bits)
  then show ?thesis using upd_page_steps [OF assms, of "or_flag PM_MANAGED"] by simp
qed

lemma clear_managed_steps:
  assumes "seg_shape seg" "p < bn (seg_view seg)"
  shows "steps seg (upd_page seg p (clear_flag PM_MANAGED)) ((seg_view seg)\<lparr>bman := (bman (seg_view seg))(p := False)\<rparr>)"
proof -
  have "seg_view (seg\<lparr>pages := (pages seg)[p := clear_flag PM_MANAGED (pages seg ! p)]\<rparr>)
      = (seg_view seg)\<lparr>bman := (bman (seg_view seg))(p := False)\<rparr>"
    using assms by (auto simp: seg_view_def seg_shape_def fun_eq_iff nth_list_update flag_bits)
  then show ?thesis using upd_page_steps [OF assms, of "clear_flag PM_MANAGED"] by simp
qed

lemma PM_FREEQ_ok: "seg_shape seg \<Longrightarrow> k < PM_NQUEUES \<Longrightarrow> PM_FREEQ seg (int k) = Inr (freeq seg ! k)"
  by (simp add: PM_FREEQ_def seg_shape_def)

lemma q_insert_steps:
  assumes "seg_shape seg" "k < PM_NQUEUES" "(p, k) \<notin> bfree (seg_view seg)"
  shows "steps seg (q_insert_head (int k) p seg) ((seg_view seg)\<lparr>bfree := insert (p, k) (bfree (seg_view seg))\<rparr>)"
proof -
  let ?seg = "seg\<lparr>freeq := (freeq seg)[k := p # freeq seg ! k]\<rparr>"
  have "q_insert_head (int k) p seg = Inr ?seg"
    using assms by (simp add: q_insert_head_def PM_FREEQ_ok)
  moreover have "seg_view ?seg = (seg_view seg)\<lparr>bfree := insert (p, k) (bfree (seg_view seg))\<rparr>"
    using assms by (auto simp: seg_view_def seg_shape_def nth_list_update split: if_splits)
  moreover have "seg_shape ?seg"
    using assms by (auto simp: seg_shape_def seg_view_def nth_list_update)
  ultimately show ?thesis by (simp add: steps_def seg_place_def)
qed

lemma q_remove_steps:
  assumes "seg_shape seg" "(p, k) \<in> bfree (seg_view seg)"
  shows "steps seg (q_remove (int k) p seg) ((seg_view seg)\<lparr>bfree := bfree (seg_view seg) - {(p, k)}\<rparr>)"
proof -
  let ?seg = "seg\<lparr>freeq := (freeq seg)[k := remove1 p (freeq seg ! k)]\<rparr>"
  have k: "k < PM_NQUEUES" "p \<in> set (freeq seg ! k)" using assms(2) by (auto simp: seg_view_def)
  have "q_remove (int k) p seg = Inr ?seg"
    using assms(1) k by (simp add: q_remove_def PM_FREEQ_ok)
  moreover have "seg_view ?seg = (seg_view seg)\<lparr>bfree := bfree (seg_view seg) - {(p, k)}\<rparr>"
    using assms(1) k by (auto simp: seg_view_def seg_shape_def nth_list_update set_remove1_eq split: if_splits)
  moreover have "seg_shape ?seg"
    using assms(1) k by (auto simp: seg_shape_def nth_list_update)
  ultimately show ?thesis by (simp add: steps_def seg_place_def)
qed

section \<open>Loops over the pages of a block\<close>

lemma flag_loop_pages:
  assumes "n \<noteq> 0" "p + unat n \<le> length (pages seg)"
  shows "\<exists>pgs. flag_loop f n p seg = Inr (seg\<lparr>pages := pgs\<rparr>) \<and> length pgs = length (pages seg) \<and>
    (\<forall>q. pgs ! q = (if p \<le> q \<and> q < p + unat n then f (pages seg ! q) else pages seg ! q))"
  using assms
proof (induction f n p seg rule: flag_loop.induct)
  case (1 f n p seg)
  have n: "0 < unat n" using "1.prems"(1) by (simp add: unat_gt_0)
  let ?seg = "seg\<lparr>pages := (pages seg)[p := f (pages seg ! p)]\<rparr>"
  have u: "upd_page seg p f = Inr ?seg" using "1.prems"(2) n by (simp add: upd_page_def)
  show ?case
  proof (cases "n - 1 = 0")
    case True
    then have n1: "unat n = 1" by (simp add: right_minus_eq)
    have "flag_loop f n p seg = Inr ?seg" using u True by (subst flag_loop.simps) simp
    moreover have "\<forall>q. (pages seg)[p := f (pages seg ! p)] ! q =
        (if p \<le> q \<and> q < p + unat n then f (pages seg ! q) else pages seg ! q)"
      using "1.prems"(2) n1 by (auto simp: nth_list_update le_less_Suc_eq)
    ultimately show ?thesis by (intro exI [of _ "(pages seg)[p := f (pages seg ! p)]"]) simp
  next
    case False
    have m: "unat (n - 1) = unat n - 1" using "1.prems"(1) by (rule unat_pred)
    obtain pgs where r: "flag_loop f (n - 1) (Suc p) ?seg = Inr (?seg\<lparr>pages := pgs\<rparr>)"
      and l: "length pgs = length (pages seg)"
      and nth: "\<forall>q. pgs ! q = (if Suc p \<le> q \<and> q < Suc p + unat (n - 1) then f (pages ?seg ! q) else pages ?seg ! q)"
      using "1.IH" [OF u False False] "1.prems"(2) n m by auto
    have "pgs ! q = (if p \<le> q \<and> q < p + unat n then f (pages seg ! q) else pages seg ! q)" for q
      using nth m n "1.prems"(2) by (cases "q = p") (auto simp: nth_list_update)
    then show ?thesis using r l u False by (auto simp: flag_loop.simps [of f n])
  qed
qed

lemma flag_loop_steps:
  assumes "seg_shape seg" "n \<noteq> 0" "p + unat n \<le> bn (seg_view seg)"
    "\<And>pg. paddr (f pg) = paddr pg" "\<And>pg. vaddr (f pg) = vaddr pg"
    "\<And>pgs. length pgs = length (pages seg) \<Longrightarrow>
      (\<And>q. pgs ! q = (if p \<le> q \<and> q < p + unat n then f (pages seg ! q) else pages seg ! q)) \<Longrightarrow>
      seg_view (seg\<lparr>pages := pgs\<rparr>) = v"
  shows "steps seg (flag_loop f n p seg) v"
proof -
  have "p + unat n \<le> length (pages seg)"
    using assms(1,3) by (simp add: seg_shape_def seg_view_def)
  then obtain pgs where r: "flag_loop f n p seg = Inr (seg\<lparr>pages := pgs\<rparr>)" "length pgs = length (pages seg)"
    and nth: "\<And>q. pgs ! q = (if p \<le> q \<and> q < p + unat n then f (pages seg ! q) else pages seg ! q)"
    using flag_loop_pages [OF assms(2), of p seg f] by auto
  have "map paddr pgs = map paddr (pages seg)" "map vaddr pgs = map vaddr (pages seg)"
    using r(2) nth assms(4,5) by (auto intro!: nth_equalityI)
  then have "seg_place (seg\<lparr>pages := pgs\<rparr>) = seg_place seg" "seg_shape (seg\<lparr>pages := pgs\<rparr>)"
    using assms(1) r(2) by (simp_all add: seg_place_def seg_shape_def)
  then show ?thesis using r assms(6) [OF r(2) nth] by (simp add: steps_def)
qed

lemma mark_allocated_steps:
  assumes "seg_shape seg" "unat n = 2 ^ k" "p + 2 ^ k \<le> bn (seg_view seg)"
  shows "steps seg (flag_loop (or_flag PM_ALLOCATED) n p seg)
    ((seg_view seg)\<lparr>balloc := (\<lambda>q. q \<in> blk (p, k) \<or> balloc (seg_view seg) q)\<rparr>)"
  using assms by (intro flag_loop_steps) (auto simp: seg_view_def fun_eq_iff flag_bits)

lemma clear_allocated_steps:
  assumes "seg_shape seg" "unat n = 2 ^ k" "p + 2 ^ k \<le> bn (seg_view seg)"
  shows "steps seg (flag_loop (clear_flag PM_ALLOCATED) n p seg)
    ((seg_view seg)\<lparr>balloc := (\<lambda>q. q \<notin> blk (p, k) \<and> balloc (seg_view seg) q)\<rparr>)"
  using assms by (intro flag_loop_steps) (auto simp: seg_view_def fun_eq_iff flag_bits)

lemma mark_reserved_steps:
  assumes "seg_shape seg" "unat n = 2 ^ k" "p + 2 ^ k \<le> bn (seg_view seg)"
  shows "steps seg (flag_loop (assign_flag PM_RESERVED) n p seg)
    ((seg_view seg)\<lparr>balloc := (\<lambda>q. q \<notin> blk (p, k) \<and> balloc (seg_view seg) q),
       bres := (\<lambda>q. q \<in> blk (p, k) \<or> bres (seg_view seg) q),
       bman := (\<lambda>q. q \<notin> blk (p, k) \<and> bman (seg_view seg) q)\<rparr>)"
  using assms by (intro flag_loop_steps) (auto simp: seg_view_def fun_eq_iff flag_bits)

section \<open>Sizes and queue numbers\<close>

lemma unat_eq_pow2: "unat (w :: u32) = 2 ^ k \<Longrightarrow> k < 32 \<Longrightarrow> w = 2 ^ k"
  by (simp add: word_eq_iff_unat unat_pow2)

lemma PM_QUEUE_OF_pow2: "unat (psize pg) = 2 ^ k \<Longrightarrow> k < 32 \<Longrightarrow> PM_QUEUE_OF pg = int k"
  using unat_eq_pow2 [of "psize pg" k] by (simp add: PM_QUEUE_OF_def)

lemma bsize_view [simp]: "bsize (seg_view seg) q = unat (psize (pages seg ! q))"
  by (simp add: seg_view_def)

lemma bn_view: "seg_shape seg \<Longrightarrow> bn (seg_view seg) = length (pages seg)"
  by (simp add: seg_view_def seg_shape_def)

lemma bfree_view_less: "(p, k) \<in> bfree (seg_view seg) \<Longrightarrow> k < PM_NQUEUES"
  by (simp add: seg_view_def)

text \<open>What the invariant says of a free block, in terms of the segment.\<close>

lemma free_block:
  assumes "seg_shape seg" "buddy_inv (seg_view seg) A P" "(p, k) \<in> bfree (seg_view seg)"
  shows "p + 2 ^ k \<le> length (pages seg)" "p < length (pages seg)" "unat (psize (pages seg ! p)) = 2 ^ k"
    "k < PM_NQUEUES" "PM_QUEUE_OF (pages seg ! p) = int k" "2 ^ k dvd p"
proof -
  have pl: "placed (bn (seg_view seg)) (p, k)" using buddy_invD(1) [OF assms(2)] assms(3) by blast
  then show le: "p + 2 ^ k \<le> length (pages seg)" "2 ^ k dvd p"
    using bn_view [OF assms(1)] by (simp_all add: placed_def)
  show "p < length (pages seg)" using le(1) zero_less_power [of "2::nat" k] by linarith
  show sz: "unat (psize (pages seg ! p)) = 2 ^ k"
    using buddy_invD(2) [OF assms(2), of "(p, k)"] assms(3) by simp
  show k: "k < PM_NQUEUES" using assms(3) by (rule bfree_view_less)
  show "PM_QUEUE_OF (pages seg ! p) = int k"
    using sz k by (intro PM_QUEUE_OF_pow2) (simp_all add: PM_NQUEUES_def)
qed

section \<open>Splitting\<close>

lemma half_size: "unat (w :: u32) = 2 ^ Suc k \<Longrightarrow> unat (w div 2) = 2 ^ k"
  by (simp add: unat_div)

lemma pm_split_page_steps:
  assumes sh: "seg_shape seg" and inv: "buddy_inv (seg_view seg) A P"
    and b: "(p, Suc k) \<in> bfree (seg_view seg)"
  shows "steps seg (pm_split_page seg p) (b_split p k (seg_view seg))"
proof -
  note fb = free_block [OF sh inv b]
  let ?sz = "psize (pages seg ! p) div 2" and ?b = "p + 2 ^ k"
  have sz: "unat ?sz = 2 ^ k" using half_size [OF fb(3)] .
  have k: "k < PM_NQUEUES" "k < 32" using fb(4) by (simp_all add: PM_NQUEUES_def)
  have q: "PM_QUEUE_OF pg = int k" if "psize pg = ?sz" for pg
    using sz k(2) that by (intro PM_QUEUE_OF_pow2) simp_all
  have nf: "(p, k) \<notin> bfree (seg_view seg)" "(?b, k) \<notin> bfree (seg_view seg)"
    using buddy_same [OF inv, of "(p, k)" "(p, Suc k)" p] buddy_same [OF inv, of "(?b, k)" "(p, Suc k)" ?b] b
    by auto
  have lt: "?b < length (pages seg)" by (rule less_le_trans [OF _ fb(1)]) simp
  let ?v = "seg_view seg"
  have n: "bn ?v = length (pages seg)" using bn_view [OF sh] .
  obtain s1 where r1: "q_remove (int (Suc k)) p seg = Inr s1" and h1: "seg_shape s1"
    and p1: "seg_place s1 = seg_place seg" and v1: "seg_view s1 = ?v\<lparr>bfree := bfree ?v - {(p, Suc k)}\<rparr>"
    using q_remove_steps [OF sh b] by (rule stepsE)
  obtain s2 where r2: "upd_page s1 p (set_size ?sz) = Inr s2" and h2: "seg_shape s2"
    and p2: "seg_place s2 = seg_place s1"
    and v2: "seg_view s2 = (seg_view s1)\<lparr>bsize := (bsize (seg_view s1))(p := unat ?sz)\<rparr>"
    by (rule stepsE [OF set_size_steps [OF h1, of p ?sz]]) (use v1 n fb(2) in auto)
  obtain s3 where r3: "upd_page s2 ?b (set_size ?sz) = Inr s3" and h3: "seg_shape s3"
    and p3: "seg_place s3 = seg_place s2"
    and v3: "seg_view s3 = (seg_view s2)\<lparr>bsize := (bsize (seg_view s2))(?b := unat ?sz)\<rparr>"
    by (rule stepsE [OF set_size_steps [OF h2, of ?b ?sz]]) (use v1 v2 n lt in auto)
  have w3: "seg_view s3 = ?v\<lparr>bfree := bfree ?v - {(p, Suc k)}, bsize := (bsize ?v)(p := 2 ^ k, ?b := 2 ^ k)\<rparr>"
    using v1 v2 v3 sz by simp
  have l3: "length (pages s3) = length (pages seg)" using bn_view [OF h3] w3 n by simp
  have g3: "get_page s3 p = Inr (pages s3 ! p)" "PM_QUEUE_OF (pages s3 ! p) = int k"
    using l3 fb(2) arg_cong [OF w3, of "\<lambda>v. bsize v p"] k(2)
    by (auto intro!: get_page_ok PM_QUEUE_OF_pow2 split: if_splits)
  obtain s4 where r4: "q_insert_head (int k) p s3 = Inr s4" and h4: "seg_shape s4"
    and p4: "seg_place s4 = seg_place s3"
    and v4: "seg_view s4 = (seg_view s3)\<lparr>bfree := insert (p, k) (bfree (seg_view s3))\<rparr>"
    by (rule stepsE [OF q_insert_steps [OF h3 k(1), of p]]) (use w3 nf in auto)
  have l4: "length (pages s4) = length (pages seg)" using bn_view [OF h4] v4 w3 n by simp
  have g4: "get_page s4 ?b = Inr (pages s4 ! ?b)" "PM_QUEUE_OF (pages s4 ! ?b) = int k"
    using l4 lt arg_cong [OF v4, of "\<lambda>v. bsize v ?b"] arg_cong [OF w3, of "\<lambda>v. bsize v ?b"] k(2)
    by (auto intro!: get_page_ok PM_QUEUE_OF_pow2 split: if_splits)
  obtain s5 where r5: "q_insert_head (int k) ?b s4 = Inr s5" and h5: "seg_shape s5"
    and p5: "seg_place s5 = seg_place s4"
    and v5: "seg_view s5 = (seg_view s4)\<lparr>bfree := insert (?b, k) (bfree (seg_view s4))\<rparr>"
    by (rule stepsE [OF q_insert_steps [OF h4 k(1), of ?b]]) (use v4 w3 nf in auto)
  obtain s6 where r6: "upd_page s5 ?b (or_flag PM_MANAGED) = Inr s6" and h6: "seg_shape s6"
    and p6: "seg_place s6 = seg_place s5"
    and v6: "seg_view s6 = (seg_view s5)\<lparr>bman := (bman (seg_view s5))(?b := True)\<rparr>"
    by (rule stepsE [OF set_managed_steps [OF h5, of ?b]]) (use v5 v4 w3 n lt in auto)
  have "pm_split_page seg p = Inr s6"
    using fb(5) sz by (simp add: pm_split_page_def get_page_ok [OF fb(2)] Let_def r1 [unfolded of_nat_Suc] r2 r3 r4 r5 r6 g3 g4)
  moreover have "seg_view s6 = b_split p k ?v"
    using v6 v5 v4 w3 by (simp add: b_split_def insert_commute)
  ultimately show ?thesis using h6 p1 p2 p3 p4 p5 p6 by (simp add: steps_def)
qed

section \<open>Allocating\<close>

lemma find_queue_ok:
  assumes "seg_shape seg" "j \<le> PM_NQUEUES"
  shows "\<exists>i. find_queue seg j = Inr i \<and> j \<le> i \<and> i \<le> PM_NQUEUES \<and>
    (\<forall>m. j \<le> m \<and> m < i \<longrightarrow> freeq seg ! m = []) \<and> (i < PM_NQUEUES \<longrightarrow> freeq seg ! i \<noteq> [])"
  using assms
proof (induction seg j rule: find_queue.induct)
  case (1 seg j)
  show ?case
  proof (cases "j < PM_NQUEUES")
    case False
    then show ?thesis using "1.prems" by (subst find_queue.simps) auto
  next
    case True
    note q = PM_FREEQ_ok [OF "1.prems"(1) True]
    show ?thesis
    proof (cases "freeq seg ! j = []")
      case False
      then show ?thesis using True q by (subst find_queue.simps) auto
    next
      case e: True
      then obtain i where i: "find_queue seg (Suc j) = Inr i" "Suc j \<le> i" "i \<le> PM_NQUEUES"
          "\<forall>m. Suc j \<le> m \<and> m < i \<longrightarrow> freeq seg ! m = []" "i < PM_NQUEUES \<longrightarrow> freeq seg ! i \<noteq> []"
        using "1.IH" [OF True q] "1.prems" True by auto
      have "find_queue seg j = Inr i" using True q e i(1) by (subst find_queue.simps) simp
      moreover have "\<forall>m. j \<le> m \<and> m < i \<longrightarrow> freeq seg ! m = []"
        using i(4) e by (metis le_neq_implies_less Suc_leI)
      ultimately show ?thesis using i by (intro exI [of _ i]) simp
    qed
  qed
qed

lemma take_steps:
  assumes sh: "seg_shape seg" and inv: "buddy_inv (seg_view seg) A P" and b: "(p, k) \<in> bfree (seg_view seg)"
  obtains s1 s2 s3 where "q_remove (int k) p seg = Inr s1" "upd_page s1 p (clear_flag PM_MANAGED) = Inr s2"
    "get_page s2 p = Inr (pages s2 ! p)"
    "flag_loop (or_flag PM_ALLOCATED) (psize (pages s2 ! p)) p s2 = Inr s3"
    "seg_shape s3" "seg_place s3 = seg_place seg" "seg_view s3 = b_take p k (seg_view seg)"
proof -
  let ?v = "seg_view seg"
  note fb = free_block [OF sh inv b]
  have n: "bn ?v = length (pages seg)" using bn_view [OF sh] .
  obtain s1 where r1: "q_remove (int k) p seg = Inr s1" and h1: "seg_shape s1"
    and p1: "seg_place s1 = seg_place seg" and v1: "seg_view s1 = ?v\<lparr>bfree := bfree ?v - {(p, k)}\<rparr>"
    using q_remove_steps [OF sh b] by (rule stepsE)
  obtain s2 where r2: "upd_page s1 p (clear_flag PM_MANAGED) = Inr s2" and h2: "seg_shape s2"
    and p2: "seg_place s2 = seg_place s1"
    and v2: "seg_view s2 = (seg_view s1)\<lparr>bman := (bman (seg_view s1))(p := False)\<rparr>"
    by (rule stepsE [OF clear_managed_steps [OF h1, of p]]) (use v1 n fb(2) in auto)
  have l2: "length (pages s2) = length (pages seg)" using bn_view [OF h2] v2 v1 n by simp
  have sz: "unat (psize (pages s2 ! p)) = 2 ^ k"
    using arg_cong [OF v2, of "\<lambda>v. bsize v p"] arg_cong [OF v1, of "\<lambda>v. bsize v p"] fb(3) by simp
  obtain s3 where r3: "flag_loop (or_flag PM_ALLOCATED) (psize (pages s2 ! p)) p s2 = Inr s3" and h3: "seg_shape s3"
    and p3: "seg_place s3 = seg_place s2"
    and v3: "seg_view s3 = (seg_view s2)\<lparr>balloc := (\<lambda>q. q \<in> blk (p, k) \<or> balloc (seg_view s2) q)\<rparr>"
    by (rule stepsE [OF mark_allocated_steps [OF h2 sz]]) (use v2 v1 n fb(1) in auto)
  show thesis
  proof (rule that)
    show "get_page s2 p = Inr (pages s2 ! p)" using l2 fb(2) by (intro get_page_ok) simp
    show "seg_view s3 = b_take p k ?v" using v3 v2 v1 by (simp add: b_take_def)
    show "seg_place s3 = seg_place seg" using p1 p2 p3 by simp
  qed (fact r1 r2 r3 h3)+
qed

text \<open>What an allocation of order \<open>j\<close> at page \<open>p\<close> achieves.\<close>

definition allocated :: "pm_seg \<Rightarrow> block set \<Rightarrow> block set \<Rightarrow> nat \<Rightarrow> nat \<Rightarrow> pm_seg \<Rightarrow> bool" where
  "allocated seg A P p j seg' \<longleftrightarrow> seg_shape seg' \<and> seg_place seg' = seg_place seg \<and>
    buddy_inv (seg_view seg') (insert (p, j) A) P \<and> blk (p, j) \<subseteq> free_pages (seg_view seg) \<and>
    free_pages (seg_view seg') = free_pages (seg_view seg) - blk (p, j) \<and>
    bres (seg_view seg') = bres (seg_view seg)"

lemma queue_in_view: "k < PM_NQUEUES \<Longrightarrow> (p, k) \<in> bfree (seg_view seg) \<longleftrightarrow> p \<in> set (freeq seg ! k)"
  by (simp add: seg_view_def)

lemma alloc_loop_take:
  assumes sh: "seg_shape seg" and inv: "buddy_inv (seg_view seg) A P"
    and j: "j < PM_NQUEUES" "freeq seg ! j = p # ps"
  shows "\<exists>seg'. alloc_loop j j seg = Inr (seg', p) \<and> allocated seg A P p j seg' \<and>
    seg_view seg' = b_take p j (seg_view seg)"
proof -
  have b: "(p, j) \<in> bfree (seg_view seg)" using j by (simp add: queue_in_view)
  obtain s1 s2 s3 where r: "q_remove (int j) p seg = Inr s1" "upd_page s1 p (clear_flag PM_MANAGED) = Inr s2"
    "get_page s2 p = Inr (pages s2 ! p)"
    "flag_loop (or_flag PM_ALLOCATED) (psize (pages s2 ! p)) p s2 = Inr s3"
    and s3: "seg_shape s3" "seg_place s3 = seg_place seg" "seg_view s3 = b_take p j (seg_view seg)"
    by (rule take_steps [OF sh inv b])
  have "alloc_loop j j seg = Inr (s3, p)"
    using r j PM_FREEQ_ok [OF sh j(1)] by (subst alloc_loop.simps) simp
  moreover have "blk (p, j) \<subseteq> free_pages (seg_view seg)" using b by (auto simp: free_pages_def)
  ultimately show ?thesis
    using s3 take_inv [OF inv b] free_pages_take [OF inv b]
    by (simp add: allocated_def) (simp add: b_take_def)
qed

lemma alloc_loop_ok:
  assumes "seg_shape seg" "buddy_inv (seg_view seg) A P" "j \<le> i" "i < PM_NQUEUES" "freeq seg ! i \<noteq> []"
  shows "\<exists>seg' p. alloc_loop j i seg = Inr (seg', p) \<and> allocated seg A P p j seg'"
  using assms
proof (induction i arbitrary: seg)
  case 0
  then obtain p ps where "freeq seg ! 0 = p # ps" by (cases "freeq seg ! 0") auto
  then show ?case using alloc_loop_take [of seg A P j p ps] 0 by auto
next
  case (Suc i)
  then obtain p ps where q: "freeq seg ! Suc i = p # ps" by (cases "freeq seg ! Suc i") auto
  show ?case
  proof (cases "j = Suc i")
    case True
    then show ?thesis using alloc_loop_take [of seg A P j p ps] Suc.prems q by auto
  next
    case False
    have b: "(p, Suc i) \<in> bfree (seg_view seg)" using q Suc.prems(4) by (simp add: queue_in_view)
    obtain s' where r: "pm_split_page seg p = Inr s'" and s': "seg_shape s'" "seg_place s' = seg_place seg"
      "seg_view s' = b_split p i (seg_view seg)"
      using pm_split_page_steps [OF Suc.prems(1,2) b] by (rule stepsE)
    have inv': "buddy_inv (seg_view s') A P" using split_inv [OF Suc.prems(2) b] s'(3) by simp
    have "(p, i) \<in> bfree (seg_view s')" using s'(3) by (simp add: b_split_def)
    then have "freeq s' ! i \<noteq> []" using Suc.prems(4) by (auto simp: queue_in_view)
    then obtain t p' where t: "alloc_loop j i s' = Inr (t, p')" "allocated s' A P p' j t"
      using Suc.IH [OF s'(1) inv'] Suc.prems(3,4) False by auto
    have "alloc_loop j (Suc i) seg = Inr (t, p')"
      using t(1) r q False PM_FREEQ_ok [OF Suc.prems(1,4)] by (subst alloc_loop.simps) simp
    moreover have "allocated seg A P p' j t"
      using t(2) s' free_pages_split [OF b] by (simp add: allocated_def) (simp add: b_split_def)
    ultimately show ?thesis by blast
  qed
qed

text \<open>The order an allocation of \<open>2 ^ j\<close> pages asks for.\<close>

lemma pm_alloc_from_seg_ok:
  assumes sh: "seg_shape seg" and inv: "buddy_inv (seg_view seg) A P" and j: "j < PM_NQUEUES"
  shows "(\<exists>seg' p. pm_alloc_from_seg seg (2 ^ j) = Inr (seg', Some p) \<and> allocated seg A P p j seg') \<or>
    (pm_alloc_from_seg seg (2 ^ j) = Inr (seg, None) \<and> (\<forall>p k. (p, k) \<in> bfree (seg_view seg) \<longrightarrow> k < j))"
proof -
  have l: "c_log2 (2 ^ j) = int j" using j by (simp add: PM_NQUEUES_def)
  obtain i where i: "find_queue seg j = Inr i" "j \<le> i" "i \<le> PM_NQUEUES"
      "\<forall>m. j \<le> m \<and> m < i \<longrightarrow> freeq seg ! m = []" "i < PM_NQUEUES \<longrightarrow> freeq seg ! i \<noteq> []"
    using find_queue_ok [OF sh, of j] j by auto
  show ?thesis
  proof (cases "i = PM_NQUEUES")
    case True
    have "k < j" if "(p, k) \<in> bfree (seg_view seg)" for p k
    proof (rule ccontr)
      assume "\<not> k < j"
      moreover have "k < PM_NQUEUES" using that by (rule bfree_view_less)
      ultimately have "freeq seg ! k = []" using i(4) True by simp
      then show False using that by (simp add: seg_view_def)
    qed
    then show ?thesis using True i(1) l by (auto simp: pm_alloc_from_seg_def)
  next
    case False
    then obtain t p where t: "alloc_loop j i seg = Inr (t, p)" "allocated seg A P p j t"
      using alloc_loop_ok [OF sh inv i(2)] i by auto
    then show ?thesis using False i(1) l by (auto simp: pm_alloc_from_seg_def)
  qed
qed

section \<open>Freeing\<close>

text \<open>
  \<open>pm_find_buddy\<close> finds the other half of the block's parent exactly if that half is a free block
  of the same order.
\<close>

lemma dvd_word_iff:
  assumes "p < 2 ^ 16" "k < 16" "unat (w :: u32) = 2 ^ k"
  shows "of_nat p mod (2 * w) = 0 \<longleftrightarrow> 2 ^ Suc k dvd p" "2 * w \<noteq> 0"
proof -
  have lt: "(2::nat) ^ Suc k \<le> 2 ^ 16" using assms(2) by (intro power_increasing) auto
  then have w: "unat (2 * w) = 2 ^ Suc k" using assms(3) by (simp add: unat_word_ariths)
  have p: "unat (of_nat p :: u32) = p" using assms(1) by (simp add: unat_of_nat_small)
  have "of_nat p mod (2 * w) = 0 \<longleftrightarrow> unat (of_nat p mod (2 * w)) = 0" by (simp add: unat_eq_0)
  also have "unat (of_nat p mod (2 * w)) = p mod 2 ^ Suc k" using w p by (simp add: unat_mod)
  finally show "of_nat p mod (2 * w) = 0 \<longleftrightarrow> 2 ^ Suc k dvd p" by (simp add: dvd_eq_mod_eq_0)
  show "2 * w \<noteq> 0" using w by (metis power_not_zero unat_0 zero_neq_numeral)
qed

lemma pending_block:
  assumes "seg_shape seg" "buddy_inv (seg_view seg) A {(p, k)}"
  shows "p + 2 ^ k \<le> length (pages seg)" "p < length (pages seg)" "unat (psize (pages seg ! p)) = 2 ^ k"
    "2 ^ k dvd p" "k < PM_NQUEUES" "p < 2 ^ 16"
proof -
  have pl: "placed (bn (seg_view seg)) (p, k)" using buddy_invD(1) [OF assms(2)] by blast
  then show le: "p + 2 ^ k \<le> length (pages seg)" "2 ^ k dvd p"
    using bn_view [OF assms(1)] by (simp_all add: placed_def)
  show lt: "p < length (pages seg)" by (rule less_le_trans [OF _ le(1)]) simp
  show "unat (psize (pages seg ! p)) = 2 ^ k"
    using buddy_invD(2) [OF assms(2), of "(p, k)"] by simp
  have n: "length (pages seg) < 2 ^ 16" using assms(1) by (simp add: seg_shape_def PM_NQUEUES_def)
  then show "p < 2 ^ 16" using lt by simp
  show "k < PM_NQUEUES"
    using placed_order [OF pl, of 16] n bn_view [OF assms(1)] by (simp add: PM_NQUEUES_def)
qed

definition mergeable :: "buddy \<Rightarrow> nat \<Rightarrow> nat \<Rightarrow> bool" where
  "mergeable v p k \<longleftrightarrow> buddy_of p k < bn v \<and> bman v (buddy_of p k) \<and> bsize v (buddy_of p k) = 2 ^ k"

lemma pm_find_buddy_ok:
  assumes sh: "seg_shape seg" and inv: "buddy_inv (seg_view seg) A {(p, k)}"
  shows "pm_find_buddy seg p = Inr (if mergeable (seg_view seg) p k then Some (buddy_of p k) else None)"
proof -
  note pb = pending_block [OF sh inv]
  let ?w = "psize (pages seg ! p)"
  note dw = dvd_word_iff [OF pb(6) pb(5) [unfolded PM_NQUEUES_def] pb(3)]
  have u: "uint ?w = 2 ^ k" using pb(3) by (metis of_nat_numeral of_nat_power uint_nat)
  have index: "(if of_nat p mod (2 * ?w) = 0 then int p + uint ?w else int p - uint ?w) = int (buddy_of p k)"
    using odd_multiple [OF pb(4)] u dw(1) by (auto simp: buddy_of_def of_nat_diff)
  have n: "uint (npages seg) \<le> int (buddy_of p k) \<longleftrightarrow> \<not> buddy_of p k < length (pages seg)"
  proof -
    have "uint (npages seg) = int (length (pages seg))" using sh by (simp add: seg_shape_def)
    then show ?thesis by linarith
  qed
  have sz: "psize (pages seg ! q) \<noteq> ?w \<longleftrightarrow> bsize (seg_view seg) q \<noteq> 2 ^ k" for q
    using pb(3) by (simp add: word_eq_iff_unat)
  show ?thesis
    unfolding pm_find_buddy_def get_page_ok [OF pb(2)] rbind.simps Let_def index
    using dw(2) n sz bn_view [OF sh] by (simp add: get_page_def mergeable_def) (simp add: seg_view_def)
qed

lemma merge_steps:
  assumes sh: "seg_shape seg" and inv: "buddy_inv (seg_view seg) A {(p, k)}"
    and m: "mergeable (seg_view seg) p k"
  obtains seg' where
    "rbind (get_page seg (buddy_of p k)) (\<lambda>bpg. rbind (q_remove (PM_QUEUE_OF bpg) (buddy_of p k) seg) (\<lambda>s1.
       rbind (upd_page s1 (buddy_of p k) (clear_flag PM_MANAGED)) (\<lambda>s2.
         pm_merge_buddies s2 p (buddy_of p k)))) = Inr (seg', min p (buddy_of p k))"
    "seg_shape seg'" "seg_place seg' = seg_place seg" "seg_view seg' = b_merge p k (seg_view seg)"
proof -
  let ?v = "seg_view seg" and ?b = "buddy_of p k" and ?m = "min p (buddy_of p k)"
  note pb = pending_block [OF sh inv]
  have b: "(?b, k) \<in> bfree ?v" using merge_inv(1) [OF inv] m by (simp add: mergeable_def)
  note fb = free_block [OF sh inv b]
  have n: "bn ?v = length (pages seg)" using bn_view [OF sh] .
  have "?b + 2 ^ k \<le> bn ?v" using fb(1) n by simp
  then have "placed (bn ?v) (?m, Suc k)"
    using buddy_merge(1) [of "bn ?v" p k] buddy_invD(1) [OF inv, of "(p, k)"] by simp
  then have k: "Suc k < 16"
    using placed_order [of "bn ?v" ?m "Suc k" 16] sh n by (simp add: seg_shape_def PM_NQUEUES_def)
  obtain s1 where r1: "q_remove (int k) ?b seg = Inr s1" and h1: "seg_shape s1"
    and p1: "seg_place s1 = seg_place seg" and v1: "seg_view s1 = ?v\<lparr>bfree := bfree ?v - {(?b, k)}\<rparr>"
    using q_remove_steps [OF sh b] by (rule stepsE)
  obtain s2 where r2: "upd_page s1 ?b (clear_flag PM_MANAGED) = Inr s2" and h2: "seg_shape s2"
    and p2: "seg_place s2 = seg_place s1"
    and v2: "seg_view s2 = (seg_view s1)\<lparr>bman := (bman (seg_view s1))(?b := False)\<rparr>"
    by (rule stepsE [OF clear_managed_steps [OF h1, of ?b]]) (use v1 n fb(2) in auto)
  have l2: "length (pages s2) = length (pages seg)" using bn_view [OF h2] v2 v1 n by simp
  have m2: "?m < length (pages s2)" using l2 pb(2) by simp
  have "unat (psize (pages s2 ! ?m)) = bsize ?v ?m"
    using arg_cong [OF v2, of "\<lambda>v. bsize v ?m"] arg_cong [OF v1, of "\<lambda>v. bsize v ?m"] by simp
  also have "\<dots> = 2 ^ k" using pb(3) fb(3) by (simp add: min_def)
  finally have sz: "unat (psize (pages s2 ! ?m)) = 2 ^ k" .
  have "(2::nat) ^ Suc k < 2 ^ 16" by (rule power_strict_increasing [OF k]) simp
  then have sz2: "unat (psize (pages s2 ! ?m) * 2) = 2 ^ Suc k"
    using sz by (simp add: unat_word_ariths)
  let ?s3 = "s2\<lparr>pages := (pages s2)[?m := set_size (psize (pages s2 ! ?m) * 2) (pages s2 ! ?m)]\<rparr>"
  have "(if p > ?b then c_swap p ?b else (p, ?b)) = (?m, max p ?b)"
    by (auto simp: min_def max_def)
  then have r3: "pm_merge_buddies s2 p ?b = Inr (?s3, ?m)"
    using m2 by (simp only: pm_merge_buddies_def upd_page_def Let_def split_conv if_True rbind.simps)
  obtain s3 where "upd_page s2 ?m (set_size (psize (pages s2 ! ?m) * 2)) = Inr s3" and h3: "seg_shape s3"
    and p3: "seg_place s3 = seg_place s2"
    and v3: "seg_view s3 = (seg_view s2)\<lparr>bsize := (bsize (seg_view s2))(?m := unat (psize (pages s2 ! ?m) * 2))\<rparr>"
    by (rule stepsE [OF set_size_steps [OF h2, of ?m]]) (use m2 bn_view [OF h2] in auto)
  then have s3: "s3 = ?s3" using m2 by (simp add: upd_page_def)
  show thesis
  proof (rule that)
    show "rbind (get_page seg ?b) (\<lambda>bpg. rbind (q_remove (PM_QUEUE_OF bpg) ?b seg) (\<lambda>s1.
       rbind (upd_page s1 ?b (clear_flag PM_MANAGED)) (\<lambda>s2. pm_merge_buddies s2 p ?b))) = Inr (s3, ?m)"
      using fb(5) r1 r2 r3 s3 by (simp add: get_page_ok [OF fb(2)])
    show "seg_view s3 = b_merge p k ?v" using v3 v2 v1 sz2 by (simp add: b_merge_def)
    show "seg_place s3 = seg_place seg" using p1 p2 p3 by simp
  qed (fact h3)
qed

lemma put_steps:
  assumes sh: "seg_shape seg" and inv: "buddy_inv (seg_view seg) A {(p, k)}"
  shows "steps seg (rbind (get_page seg p) (\<lambda>pg. rbind (q_insert_head (PM_QUEUE_OF pg) p seg) (\<lambda>s1.
    rbind (upd_page s1 p (or_flag PM_MANAGED)) (\<lambda>s2. flag_loop (clear_flag PM_ALLOCATED) (psize pg) p s2))))
    (b_put p k (seg_view seg))"
proof -
  let ?v = "seg_view seg"
  note pb = pending_block [OF sh inv]
  have n: "bn ?v = length (pages seg)" using bn_view [OF sh] .
  have nf: "(p, k) \<notin> bfree ?v" using buddy_free_not_pending [OF inv] by auto
  have q: "PM_QUEUE_OF (pages seg ! p) = int k"
    using pb(3,5) by (intro PM_QUEUE_OF_pow2) (simp_all add: PM_NQUEUES_def)
  obtain s1 where r1: "q_insert_head (int k) p seg = Inr s1" and h1: "seg_shape s1"
    and p1: "seg_place s1 = seg_place seg" and v1: "seg_view s1 = ?v\<lparr>bfree := insert (p, k) (bfree ?v)\<rparr>"
    using q_insert_steps [OF sh pb(5) nf] by (rule stepsE)
  obtain s2 where r2: "upd_page s1 p (or_flag PM_MANAGED) = Inr s2" and h2: "seg_shape s2"
    and p2: "seg_place s2 = seg_place s1"
    and v2: "seg_view s2 = (seg_view s1)\<lparr>bman := (bman (seg_view s1))(p := True)\<rparr>"
    by (rule stepsE [OF set_managed_steps [OF h1, of p]]) (use v1 n pb(2) in auto)
  obtain s3 where r3: "flag_loop (clear_flag PM_ALLOCATED) (psize (pages seg ! p)) p s2 = Inr s3"
    and h3: "seg_shape s3" and p3: "seg_place s3 = seg_place s2"
    and v3: "seg_view s3 = (seg_view s2)\<lparr>balloc := (\<lambda>q. q \<notin> blk (p, k) \<and> balloc (seg_view s2) q)\<rparr>"
    by (rule stepsE [OF clear_allocated_steps [OF h2 pb(3)]]) (use v2 v1 n pb(1) in auto)
  have "seg_view s3 = b_put p k ?v" using v3 v2 v1 by (simp add: b_put_def)
  then show ?thesis
    using r1 r2 r3 h3 p1 p2 p3 q by (simp add: get_page_ok [OF pb(2)] steps_def)
qed

text \<open>The loop ends and returns the block with whatever it could be merged with.\<close>

definition freed :: "pm_seg \<Rightarrow> block set \<Rightarrow> nat \<Rightarrow> nat \<Rightarrow> pm_seg \<Rightarrow> bool" where
  "freed seg A p k seg' \<longleftrightarrow> seg_shape seg' \<and> seg_place seg' = seg_place seg \<and>
    buddy_inv (seg_view seg') A {} \<and>
    free_pages (seg_view seg') = blk (p, k) \<union> free_pages (seg_view seg) \<and>
    bres (seg_view seg') = bres (seg_view seg) \<and>
    (coalesced (seg_view seg) \<longrightarrow> coalesced (seg_view seg'))"

text \<open>A free buddy is one the block is merged with.\<close>

lemma mergeable_buddy:
  assumes "buddy_inv v A P" "(buddy_of p k, k) \<in> bfree v"
  shows "mergeable v p k"
proof -
  have "buddy_of p k + 2 ^ k \<le> bn v" using buddy_invD(1) [OF assms(1)] assms(2) by (fastforce simp: placed_def)
  then have "buddy_of p k < bn v" by (rule less_le_trans [rotated]) simp
  then show ?thesis
    using buddy_invD(2,5) [OF assms(1), of "(buddy_of p k, k)"] assms(2) by (simp add: mergeable_def)
qed

lemma free_loop_ok:
  assumes "seg_shape seg" "buddy_inv (seg_view seg) A {(p, k)}"
  shows "\<exists>seg'. free_loop seg p = Some (Inr seg') \<and> freed seg A p k seg'"
  using assms
proof (induction "PM_NQUEUES - k" arbitrary: seg p k rule: less_induct)
  case less
  note sh = less.prems(1) and inv = less.prems(2)
  show ?case
  proof (cases "mergeable (seg_view seg) p k")
    case False
    obtain seg' where r: "rbind (get_page seg p) (\<lambda>pg. rbind (q_insert_head (PM_QUEUE_OF pg) p seg) (\<lambda>s1.
        rbind (upd_page s1 p (or_flag PM_MANAGED)) (\<lambda>s2. flag_loop (clear_flag PM_ALLOCATED) (psize pg) p s2))) = Inr seg'"
      and s': "seg_shape seg'" "seg_place seg' = seg_place seg" "seg_view seg' = b_put p k (seg_view seg)"
      using put_steps [OF sh inv] by (rule stepsE)
    have "free_loop seg p = Some (Inr seg')"
      using False r by (subst free_loop.simps) (simp add: pm_find_buddy_ok [OF sh inv])
    moreover have "freed seg A p k seg'"
      using s' put_inv [OF inv] free_pages_put coalesced_put [OF inv _ contrapos_nn [OF False mergeable_buddy [OF inv]]]
      by (simp add: freed_def) (auto simp: b_put_def)
    ultimately show ?thesis by blast
  next
    case True
    note m = True [unfolded mergeable_def]
    obtain s' where r: "rbind (get_page seg (buddy_of p k)) (\<lambda>bpg.
        rbind (q_remove (PM_QUEUE_OF bpg) (buddy_of p k) seg) (\<lambda>s1.
        rbind (upd_page s1 (buddy_of p k) (clear_flag PM_MANAGED)) (\<lambda>s2.
          pm_merge_buddies s2 p (buddy_of p k)))) = Inr (s', min p (buddy_of p k))"
      and s': "seg_shape s'" "seg_place s' = seg_place seg" "seg_view s' = b_merge p k (seg_view seg)"
      using merge_steps [OF sh inv True] by metis
    have inv': "buddy_inv (seg_view s') A {(min p (buddy_of p k), Suc k)}"
      using merge_inv(2) [OF inv] m s'(3) by simp
    have "PM_NQUEUES - Suc k < PM_NQUEUES - k" using pending_block(5) [OF sh inv] by simp
    then obtain t where t: "free_loop s' (min p (buddy_of p k)) = Some (Inr t)"
      "freed s' A (min p (buddy_of p k)) (Suc k) t"
      using less.hyps [OF _ s'(1) inv'] by blast
    have "free_loop seg p = Some (Inr t)"
      using True r t(1) by (subst free_loop.simps) (simp add: pm_find_buddy_ok [OF sh inv])
    moreover have "freed seg A p k t"
      using t(2) s' free_pages_merge [OF inv] m coalesced_subset [of "seg_view seg" "seg_view s'"]
      by (simp add: freed_def) (auto simp: b_merge_def)
    ultimately show ?thesis by blast
  qed
qed

lemma pm_free_from_seg_ok:
  assumes inv: "seg_inv seg A" and b: "(p, k) \<in> A"
  shows "\<exists>seg'. pm_free_from_seg seg p = Some (Inr seg') \<and> freed seg (A - {(p, k)}) p k seg'"
proof -
  have sh: "seg_shape seg" and bi: "buddy_inv (seg_view seg) A {}" using inv by (simp_all add: seg_inv_def)
  note pend = pending_inv [OF bi b]
  have "balloc (seg_view seg) p \<and> \<not> bres (seg_view seg) p"
    using buddy_invD(7) [OF bi b, of p] by simp
  then have "pm_flags (pages seg ! p) AND PM_ALLOCATED \<noteq> 0" "pm_flags (pages seg ! p) AND PM_RESERVED = 0"
    by (simp_all add: seg_view_def)
  then show ?thesis
    using free_loop_ok [OF sh pend] get_page_ok [OF pending_block(2) [OF sh pend]]
    by (simp add: pm_free_from_seg_def)
qed

end
