(* ===== verification/Physmem_Reserve.thy ===== *)
theory Physmem_Reserve
  imports Physmem_Refine
begin

text \<open>
  Reserving a range of a segment, and initialising one. A range is given by addresses in the code
  and by page indices here: the pages \<open>s..<e\<close> of a segment whose pages lie one after the other.
\<close>

section \<open>Addresses of pages\<close>

definition seg_placed :: "pm_seg \<Rightarrow> bool" where
  "seg_placed seg \<longleftrightarrow> unat (seg_start seg) + 4096 * length (pages seg) = unat (seg_end seg) \<and>
    (\<forall>q < length (pages seg). unat (paddr (pages seg ! q)) = unat (seg_start seg) + 4096 * q)"

lemma seg_place_placed:
  assumes "seg_place seg' = seg_place seg" "seg_placed seg"
  shows "seg_placed seg'"
proof -
  have m: "map paddr (pages seg') = map paddr (pages seg)" and s: "seg_start seg' = seg_start seg"
    "seg_end seg' = seg_end seg" using assms(1) by (simp_all add: seg_place_def)
  have l: "length (pages seg') = length (pages seg)" using m by (metis length_map)
  have "paddr (pages seg' ! q) = paddr (pages seg ! q)" if "q < length (pages seg)" for q
    using m l that by (metis nth_map)
  then show ?thesis using assms(2) s l by (simp add: seg_placed_def)
qed

lemma seg_end_bound: "seg_placed seg \<Longrightarrow> unat (seg_start seg) + 4096 * length (pages seg) < 2 ^ 32"
proof -
  assume "seg_placed seg"
  moreover have "unat (seg_end seg) < 2 ^ 32" using unsigned_less [of "seg_end seg", where ?'a = nat] by simp
  ultimately show ?thesis by (simp add: seg_placed_def)
qed

lemma page_range:
  assumes "seg_placed seg" "p + 2 ^ k \<le> length (pages seg)" "p < length (pages seg)"
    "unat (psize (pages seg ! p)) = 2 ^ k"
  shows "unat (PG_START (pages seg ! p)) = unat (seg_start seg) + 4096 * p"
    "unat (PG_END (pages seg ! p)) = unat (seg_start seg) + 4096 * (p + 2 ^ k)"
proof -
  let ?pg = "pages seg ! p"
  show st: "unat (PG_START ?pg) = unat (seg_start seg) + 4096 * p"
    using assms(1,3) by (simp add: seg_placed_def PG_START_def)
  have b: "unat (seg_start seg) + 4096 * (p + 2 ^ k) < 2 ^ 32"
    using seg_end_bound [OF assms(1)] assms(2) by simp
  then have "unat (PG_SIZE ?pg) = 4096 * 2 ^ k"
    unfolding PG_SIZE_def using assms(4) by (subst unat_mult_small) (simp_all add: PAGESIZE_def)
  then show "unat (PG_END ?pg) = unat (seg_start seg) + 4096 * (p + 2 ^ k)"
    unfolding PG_END_def using b st by (subst unat_add_small) (simp_all add: PG_START_def)
qed

text \<open>An address on a page boundary of the segment.\<close>

definition at_page :: "pm_seg \<Rightarrow> u32 \<Rightarrow> nat \<Rightarrow> bool" where
  "at_page seg a s \<longleftrightarrow> unat a = unat (seg_start seg) + 4096 * s"

section \<open>Reserving one block\<close>

lemma reserve_page_steps:
  assumes sh: "seg_shape seg" and inv: "buddy_inv (seg_view seg) A P" and b: "(p, k) \<in> bfree (seg_view seg)"
  shows "steps seg (reserve_page seg k p) (b_reserve p k (seg_view seg))"
proof -
  let ?v = "seg_view seg"
  note fb = free_block [OF sh inv b]
  have n: "bn ?v = length (pages seg)" using bn_view [OF sh] .
  obtain s1 where r1: "q_remove (int k) p seg = Inr s1" and h1: "seg_shape s1"
    and p1: "seg_place s1 = seg_place seg" and v1: "seg_view s1 = ?v\<lparr>bfree := bfree ?v - {(p, k)}\<rparr>"
    using q_remove_steps [OF sh b] by (rule stepsE)
  obtain s2 where r2: "upd_page s1 p (clear_flag PM_MANAGED) = Inr s2" and h2: "seg_shape s2"
    and p2: "seg_place s2 = seg_place s1"
    and v2: "seg_view s2 = (seg_view s1)\<lparr>bman := (bman (seg_view s1))(p := False)\<rparr>"
    by (rule stepsE [OF clear_managed_steps [OF h1, of p]]) (use v1 n fb(2) in auto)
  have l2: "length (pages s2) = length (pages seg)" using bn_view [OF h2] v2 v1 n by simp
  have g2: "get_page s2 p = Inr (pages s2 ! p)" using l2 fb(2) by (intro get_page_ok) simp
  have sz: "unat (psize (pages s2 ! p)) = 2 ^ k"
    using arg_cong [OF v2, of "\<lambda>v. bsize v p"] arg_cong [OF v1, of "\<lambda>v. bsize v p"] fb(3) by simp
  obtain s3 where r3: "flag_loop (assign_flag PM_RESERVED) (psize (pages s2 ! p)) p s2 = Inr s3"
    and h3: "seg_shape s3" and p3: "seg_place s3 = seg_place s2"
    and v3: "seg_view s3 = (seg_view s2)\<lparr>balloc := (\<lambda>q. q \<notin> blk (p, k) \<and> balloc (seg_view s2) q),
       bres := (\<lambda>q. q \<in> blk (p, k) \<or> bres (seg_view s2) q),
       bman := (\<lambda>q. q \<notin> blk (p, k) \<and> bman (seg_view s2) q)\<rparr>"
    by (rule stepsE [OF mark_reserved_steps [OF h2 sz]]) (use v2 v1 n fb(1) in auto)
  have "seg_view s3 = b_reserve p k ?v"
    unfolding v3 v2 v1 by (auto simp: b_reserve_def fun_eq_iff)
  then show ?thesis using r1 r2 r3 g2 h3 p1 p2 p3 by (simp add: reserve_page_def steps_def)
qed

section \<open>The loop over one queue\<close>

text \<open>
  \<open>reserves R A seg seg'\<close>: from \<open>seg\<close> to \<open>seg'\<close> only pages of \<open>R\<close> stopped being free, and exactly those
  that stopped being free became reserved.
\<close>

definition reserves :: "nat set \<Rightarrow> block set \<Rightarrow> pm_seg \<Rightarrow> pm_seg \<Rightarrow> bool" where
  "reserves R A seg seg' \<longleftrightarrow> seg_shape seg' \<and> seg_place seg' = seg_place seg \<and>
    buddy_inv (seg_view seg') A {} \<and>
    free_pages (seg_view seg') \<subseteq> free_pages (seg_view seg) \<and>
    free_pages (seg_view seg) - R \<subseteq> free_pages (seg_view seg') \<and>
    bres (seg_view seg') =
      (\<lambda>q. bres (seg_view seg) q \<or> q \<in> free_pages (seg_view seg) - free_pages (seg_view seg')) \<and>
    (loose R (seg_view seg) \<longrightarrow> loose R (seg_view seg'))"

lemma reserves_refl: "seg_shape seg \<Longrightarrow> buddy_inv (seg_view seg) A {} \<Longrightarrow> reserves R A seg seg"
  by (auto simp: reserves_def)

lemma reserves_trans: "reserves R A s t \<Longrightarrow> reserves R A t u \<Longrightarrow> reserves R A s u"
  unfolding reserves_def fun_eq_iff by (intro conjI) (auto 4 3)

lemma b_reserve_bfree: "bfree (b_reserve p k v) = bfree v - {(p, k)}"
  by (simp add: b_reserve_def)

lemma reserves_reserve:
  assumes sh: "seg_shape seg" and inv: "buddy_inv (seg_view seg) A {}" and b: "(p, k) \<in> bfree (seg_view seg)"
    and R: "blk (p, k) \<subseteq> R"
  obtains seg' where "reserve_page seg k p = Inr seg'" "reserves R A seg seg'"
    "seg_view seg' = b_reserve p k (seg_view seg)"
proof -
  obtain s' where r: "reserve_page seg k p = Inr s'" and s': "seg_shape s'" "seg_place s' = seg_place seg"
    "seg_view s' = b_reserve p k (seg_view seg)"
    using reserve_page_steps [OF sh inv b] by (rule stepsE)
  have "blk (p, k) \<subseteq> free_pages (seg_view seg)" using b by (auto simp: free_pages_def)
  moreover have "bres (seg_view s') = (\<lambda>q. q \<in> blk (p, k) \<or> bres (seg_view seg) q)"
    using s'(3) by (simp add: b_reserve_def)
  ultimately have "reserves R A seg s'"
    using s' reserve_inv [OF inv b] free_pages_reserve [OF inv b] R
      loose_subset [of R "seg_view seg" "b_reserve p k (seg_view seg)"]
    by (auto simp: reserves_def fun_eq_iff b_reserve_bfree simp del: blk_iff)
  with r s' show thesis using that by blast
qed

lemma reserves_split:
  assumes sh: "seg_shape seg" and inv: "buddy_inv (seg_view seg) A {}" and b: "(p, Suc k) \<in> bfree (seg_view seg)"
    and hit: "blk (p, Suc k) \<inter> R \<noteq> {}"
  obtains seg' where "pm_split_page seg p = Inr seg'" "reserves R A seg seg'"
    "seg_view seg' = b_split p k (seg_view seg)"
proof -
  obtain s' where r: "pm_split_page seg p = Inr s'" and s': "seg_shape s'" "seg_place s' = seg_place seg"
    "seg_view s' = b_split p k (seg_view seg)"
    using pm_split_page_steps [OF sh inv b] by (rule stepsE)
  have "reserves R A seg s'"
    using s' split_inv [OF inv b] free_pages_split [OF b] loose_split [OF inv b _ hit]
    by (auto simp: reserves_def) (auto simp: b_split_def)
  with r s' show thesis using that by blast
qed

text \<open>The free blocks of order \<open>k\<close>.\<close>

definition order_blocks :: "pm_seg \<Rightarrow> nat \<Rightarrow> nat set" where
  "order_blocks seg k = {p. (p, k) \<in> bfree (seg_view seg)}"

lemma order_blocks_queue: "k < PM_NQUEUES \<Longrightarrow> order_blocks seg k = set (freeq seg ! k)"
  by (simp add: order_blocks_def queue_in_view)

lemma order_blocks_split:
  "seg_view seg' = b_split p k (seg_view seg) \<Longrightarrow> order_blocks seg' (Suc k) = order_blocks seg (Suc k) - {p}"
  "seg_view seg' = b_split p k (seg_view seg) \<Longrightarrow> Suc k < m \<Longrightarrow> order_blocks seg' m = order_blocks seg m"
  by (auto simp: order_blocks_def b_split_def)

lemma order_blocks_reserve:
  "seg_view seg' = b_reserve p k (seg_view seg) \<Longrightarrow> order_blocks seg' k = order_blocks seg k - {p}"
  "seg_view seg' = b_reserve p k (seg_view seg) \<Longrightarrow> k \<noteq> m \<Longrightarrow> order_blocks seg' m = order_blocks seg m"
  by (auto simp: order_blocks_def b_reserve_def)

lemma queue_length: "seg_shape seg \<Longrightarrow> k < PM_NQUEUES \<Longrightarrow> length (freeq seg ! k) = card (order_blocks seg k)"
  by (simp add: order_blocks_queue distinct_card seg_shape_def)

lemma order_blocks_finite: "k < PM_NQUEUES \<Longrightarrow> finite (order_blocks seg k)"
  by (simp add: order_blocks_queue)

text \<open>The three cases the code distinguishes, in terms of pages.\<close>

lemma page_scale: "(c + 4096 * x \<le> c + 4096 * y) = (x \<le> (y::nat))"
  by simp

lemma page_scale_less: "(c + 4096 * x < c + 4096 * y) = (x < (y::nat))"
  by simp

lemma range_cases:
  assumes pl: "seg_placed seg" and p: "p + 2 ^ k \<le> length (pages seg)" "p < length (pages seg)"
    "unat (psize (pages seg ! p)) = 2 ^ k"
    and a: "at_page seg start s" "at_page seg en e" "s < e"
  shows "start \<le> PG_START (pages seg ! p) \<and> PG_END (pages seg ! p) \<le> en \<longleftrightarrow> blk (p, k) \<subseteq> {s..<e}"
    "(PG_START (pages seg ! p) < start \<and> start < PG_END (pages seg ! p)) \<or>
     (PG_START (pages seg ! p) < en \<and> en < PG_END (pages seg ! p)) \<longleftrightarrow>
     (p < s \<and> s < p + 2 ^ k) \<or> (p < e \<and> e < p + 2 ^ k)"
proof -
  note r = page_range [OF pl p]
  have "start \<le> PG_START (pages seg ! p) \<and> PG_END (pages seg ! p) \<le> en \<longleftrightarrow> s \<le> p \<and> p + 2 ^ k \<le> e"
    unfolding word_le_nat_alt r a(1) [unfolded at_page_def] a(2) [unfolded at_page_def]
    by (simp only: page_scale)
  also have "\<dots> \<longleftrightarrow> blk (p, k) \<subseteq> {s..<e}"
    by (simp add: blk_def atLeastLessThan_subset_iff)
  finally show "start \<le> PG_START (pages seg ! p) \<and> PG_END (pages seg ! p) \<le> en \<longleftrightarrow> blk (p, k) \<subseteq> {s..<e}" .
  show "(PG_START (pages seg ! p) < start \<and> start < PG_END (pages seg ! p)) \<or>
     (PG_START (pages seg ! p) < en \<and> en < PG_END (pages seg ! p)) \<longleftrightarrow>
     (p < s \<and> s < p + 2 ^ k) \<or> (p < e \<and> e < p + 2 ^ k)"
    unfolding word_less_nat_alt r a(1) [unfolded at_page_def] a(2) [unfolded at_page_def]
    by (simp only: page_scale_less)
qed

lemma at_page_place: "seg_place seg' = seg_place seg \<Longrightarrow> at_page seg' a s = at_page seg a s"
  by (simp add: at_page_def seg_place_def)

text \<open>One step of the loop at the first element of a queue, when it meets the range.\<close>

lemma reserve_loop_hit:
  assumes sh: "seg_shape seg" and inv: "buddy_inv (seg_view seg) A {}" and pl: "seg_placed seg"
    and a: "at_page seg start s" "at_page seg en e" "s < e"
    and b: "(p, i) \<in> bfree (seg_view seg)" and hit: "blk (p, i) \<inter> {s..<e} \<noteq> {}"
  obtains seg' where "reserve_loop start en i seg (Some p) = reserve_loop start en i seg' (queue_first seg' i)"
    "reserves {s..<e} A seg seg'" "order_blocks seg' i = order_blocks seg i - {p}"
    "\<forall>m > i. order_blocks seg' m = order_blocks seg m"
proof -
  note fb = free_block [OF sh inv b]
  note rc = range_cases [OF pl fb(1-3) a]
  show thesis
  proof (cases "blk (p, i) \<subseteq> {s..<e}")
    case True
    obtain s' where r: "reserve_page seg i p = Inr s'" and s': "reserves {s..<e} A seg s'"
      "seg_view s' = b_reserve p i (seg_view seg)"
      using reserves_reserve [OF sh inv b True] by metis
    have "reserve_loop start en i seg (Some p) = reserve_loop start en i s' (queue_first s' i)"
      using r rc(1) True by (subst reserve_loop.simps) (simp add: get_page_ok [OF fb(2)])
    then show thesis using that s' order_blocks_reserve [OF s'(2)] by simp
  next
    case False
    have partial: "(p < s \<and> s < p + 2 ^ i) \<or> (p < e \<and> e < p + 2 ^ i)"
      using False hit a(3) by (auto simp: blk_def)
    then obtain k where i: "i = Suc k" by (cases i) auto
    obtain s' where r: "pm_split_page seg p = Inr s'" and s': "reserves {s..<e} A seg s'"
      "seg_view s' = b_split p k (seg_view seg)"
      using reserves_split [OF sh inv, of p k "{s..<e}"] b i hit by metis
    have "reserve_loop start en i seg (Some p) = reserve_loop start en i s' (queue_first s' i)"
      using r rc(1) [THEN arg_cong, of Not, THEN iffD2, OF False] rc(2) [THEN iffD2, OF partial]
      by (subst reserve_loop.simps) (simp only: get_page_ok [OF fb(2)] option.case rbind.simps if_True if_False sum.case simp_thms)
    then show thesis using that s' order_blocks_split [OF s'(2)] i by simp
  qed
qed

lemma dropWhile_to: "p \<notin> set ds \<Longrightarrow> dropWhile (\<lambda>x. x \<noteq> p) (ds @ p # rs) = p # rs"
  by (induction ds) auto

lemma reserve_loop_miss:
  assumes sh: "seg_shape seg" and inv: "buddy_inv (seg_view seg) A {}" and pl: "seg_placed seg"
    and a: "at_page seg start s" "at_page seg en e" "s < e" and i: "i < PM_NQUEUES"
    and q: "freeq seg ! i = ds @ p # rs" and miss: "blk (p, i) \<inter> {s..<e} = {}"
  shows "reserve_loop start en i seg (Some p) = reserve_loop start en i seg (head_opt rs)"
proof -
  have b: "(p, i) \<in> bfree (seg_view seg)" using q i by (simp add: queue_in_view)
  note fb = free_block [OF sh inv b]
  note rc = range_cases [OF pl fb(1-3) a]
  have "max p s \<notin> blk (p, i) \<inter> {s..<e}" using miss by simp
  then have out: "p + 2 ^ i \<le> s \<or> e \<le> p" using a(3) by (simp add: blk_def) linarith
  have d: "distinct (freeq seg ! i)" using sh i by (simp add: seg_shape_def)
  have "\<not> blk (p, i) \<subseteq> {s..<e}" using miss fst_in_blk [of "(p, i)"] by blast
  moreover have "\<not> ((p < s \<and> s < p + 2 ^ i) \<or> (p < e \<and> e < p + 2 ^ i))" using out a(3) by linarith
  moreover have "queue_next seg i p = head_opt rs"
    using d q i sh dropWhile_to [of p ds rs] by (simp add: queue_next_def seg_shape_def)
  ultimately show ?thesis
    using rc by (subst reserve_loop.simps) (simp only: get_page_ok [OF fb(2)] option.case sum.case if_False)
qed

text \<open>The loop over queue \<open>i\<close> ends; afterwards no free block of order \<open>i\<close> meets the range.\<close>

lemma reserve_loop_ok:
  assumes "seg_shape seg" "buddy_inv (seg_view seg) A {}" "seg_placed seg"
    and "at_page seg start s" "at_page seg en e" and se: "s < e" and i: "i < PM_NQUEUES"
    and "freeq seg ! i = ds @ rs" "\<forall>p \<in> set ds. blk (p, i) \<inter> {s..<e} = {}"
  shows "\<exists>seg'. reserve_loop start en i seg (head_opt rs) = Some (Inr seg') \<and> reserves {s..<e} A seg seg' \<and>
    (\<forall>p \<in> order_blocks seg' i. blk (p, i) \<inter> {s..<e} = {}) \<and>
    (\<forall>m > i. order_blocks seg' m = order_blocks seg m)"
  using assms(1-5,8,9)
proof (induction "card (order_blocks seg i)" arbitrary: seg ds rs rule: less_induct)
  case less
  note outer = less.hyps and seg = less.prems(1-5)
  from less.prems(6,7) show ?case
  proof (induction rs arbitrary: ds)
    case Nil
    then have "\<forall>p \<in> order_blocks seg i. blk (p, i) \<inter> {s..<e} = {}" using i by (simp add: order_blocks_queue)
    then show ?case using reserves_refl [OF seg(1,2)] by (subst reserve_loop.simps) simp
  next
    case (Cons p rs)
    have b: "(p, i) \<in> bfree (seg_view seg)" using Cons.prems(1) i by (simp add: queue_in_view)
    show ?case
    proof (cases "blk (p, i) \<inter> {s..<e} = {}")
      case True
      then have "\<forall>p \<in> set (ds @ [p]). blk (p, i) \<inter> {s..<e} = {}" using Cons.prems(2) by simp
      then show ?thesis
        using Cons.IH [of "ds @ [p]"] Cons.prems(1) reserve_loop_miss [OF seg se i Cons.prems(1) True] by simp
    next
      case False
      obtain t where t: "reserve_loop start en i seg (Some p) = reserve_loop start en i t (queue_first t i)"
        and rt: "reserves {s..<e} A seg t" and ot: "order_blocks t i = order_blocks seg i - {p}"
        and mt: "\<forall>m > i. order_blocks t m = order_blocks seg m"
        using reserve_loop_hit [OF seg se b False] by metis
      have st: "seg_shape t" "seg_place t = seg_place seg" "buddy_inv (seg_view t) A {}"
        using rt by (simp_all add: reserves_def)
      have "p \<in> order_blocks seg i" using b by (simp add: order_blocks_def)
      then have "card (order_blocks t i) < card (order_blocks seg i)"
        using ot card_Diff1_less [OF order_blocks_finite [OF i], of p seg] by metis
      then obtain u where u: "reserve_loop start en i t (head_opt (freeq t ! i)) = Some (Inr u)"
        "reserves {s..<e} A t u" "\<forall>p \<in> order_blocks u i. blk (p, i) \<inter> {s..<e} = {}"
        "\<forall>m > i. order_blocks u m = order_blocks t m"
        using outer [of t "[]" "freeq t ! i"] st seg seg_place_placed [OF st(2)] at_page_place [OF st(2)] by auto
      have "queue_first t i = head_opt (freeq t ! i)" using st(1) i by (simp add: queue_first_def seg_shape_def)
      then show ?thesis using t u rt mt reserves_trans by auto
    qed
  qed
qed

section \<open>Reserving a range\<close>

lemma reserve_queues_ok:
  assumes "seg_shape seg" "buddy_inv (seg_view seg) A {}" "seg_placed seg"
    and "at_page seg start s" "at_page seg en e" and se: "s < e" and "n \<le> PM_NQUEUES"
    and "\<forall>m \<ge> n. \<forall>p \<in> order_blocks seg m. blk (p, m) \<inter> {s..<e} = {}"
  shows "\<exists>seg'. reserve_queues start en n seg = Some (Inr seg') \<and> reserves {s..<e} A seg seg' \<and>
    (\<forall>m. \<forall>p \<in> order_blocks seg' m. blk (p, m) \<inter> {s..<e} = {})"
  using assms(1-5,7,8)
proof (induction n arbitrary: seg)
  case 0
  then show ?case using reserves_refl [of seg A] by simp
next
  case (Suc n)
  then have n: "n < PM_NQUEUES" by simp
  have "queue_first seg n = head_opt (freeq seg ! n)"
    using Suc.prems(1) n by (simp add: queue_first_def seg_shape_def)
  then obtain t where t: "reserve_loop start en n seg (queue_first seg n) = Some (Inr t)"
    "reserves {s..<e} A seg t" "\<forall>p \<in> order_blocks t n. blk (p, n) \<inter> {s..<e} = {}"
    "\<forall>m > n. order_blocks t m = order_blocks seg m"
    using reserve_loop_ok [OF Suc.prems(1-5) se n, of "[]"] by auto
  have st: "seg_shape t" "seg_place t = seg_place seg" "buddy_inv (seg_view t) A {}"
    using t(2) by (simp_all add: reserves_def)
  have "\<forall>m \<ge> n. \<forall>p \<in> order_blocks t m. blk (p, m) \<inter> {s..<e} = {}"
    using t(3,4) Suc.prems(7) by (metis Suc_leI le_neq_implies_less)
  then obtain u where u: "reserve_queues start en n t = Some (Inr u)" "reserves {s..<e} A t u"
    "\<forall>m. \<forall>p \<in> order_blocks u m. blk (p, m) \<inter> {s..<e} = {}"
    using Suc.IH [of t] st Suc.prems seg_place_placed [OF st(2)] at_page_place [OF st(2)] n by auto
  then show ?case using t reserves_trans by auto
qed

lemma pm_seg_reserve_ok:
  assumes inv: "seg_inv seg A" and pl: "seg_placed seg"
    and a: "at_page seg start s" "at_page seg en e" "s < e"
  shows "\<exists>seg'. pm_seg_reserve seg start en = Some (Inr seg') \<and> seg_inv seg' A \<and> seg_placed seg' \<and>
    seg_place seg' = seg_place seg \<and>
    free_pages (seg_view seg') = free_pages (seg_view seg) - {s..<e} \<and>
    bres (seg_view seg') = (\<lambda>q. bres (seg_view seg) q \<or> q \<in> free_pages (seg_view seg) \<inter> {s..<e}) \<and>
    (coalesced (seg_view seg) \<longrightarrow> coalesced (seg_view seg'))"
proof -
  have sh: "seg_shape seg" and bi: "buddy_inv (seg_view seg) A {}" using inv by (simp_all add: seg_inv_def)
  have "\<forall>m \<ge> PM_NQUEUES. \<forall>p \<in> order_blocks seg m. blk (p, m) \<inter> {s..<e} = {}"
    using bfree_view_less [of _ _ seg] by (fastforce simp: order_blocks_def)
  then obtain t where t: "reserve_queues start en PM_NQUEUES seg = Some (Inr t)" "reserves {s..<e} A seg t"
    "\<forall>m. \<forall>p \<in> order_blocks t m. blk (p, m) \<inter> {s..<e} = {}"
    using reserve_queues_ok [OF sh bi pl a order_refl] by blast
  have st: "seg_shape t" "seg_place t = seg_place seg" "buddy_inv (seg_view t) A {}"
    and fr: "free_pages (seg_view t) \<subseteq> free_pages (seg_view seg)"
      "free_pages (seg_view seg) - {s..<e} \<subseteq> free_pages (seg_view t)"
    and rs: "bres (seg_view t) =
      (\<lambda>q. bres (seg_view seg) q \<or> q \<in> free_pages (seg_view seg) - free_pages (seg_view t))"
    and lo: "loose {s..<e} (seg_view seg) \<longrightarrow> loose {s..<e} (seg_view t)"
    using t(2) by (simp_all add: reserves_def)
  have dis: "free_pages (seg_view t) \<inter> {s..<e} = {}"
    using t(3) unfolding free_pages_def order_blocks_def by auto
  then have "free_pages (seg_view t) = free_pages (seg_view seg) - {s..<e}" using fr by blast
  moreover have "coalesced (seg_view seg) \<longrightarrow> coalesced (seg_view t)"
    using lo coalesced_loose loose_disjoint [OF _ dis] by blast
  ultimately show ?thesis
    using t(1) st seg_place_placed [OF st(2) pl] rs
    by (auto simp: pm_seg_reserve_def seg_inv_def fun_eq_iff)
qed

end
