(* ===== verification/Physmem_Init.thy ===== *)
theory Physmem_Init
  imports Physmem_Reserve
begin

text \<open>
  Initialising a segment whose number of pages is a power of two: all its pages form one free block.
  (For other numbers the sizes \<open>pm_seg_init\<close> writes and the queues it fills do not agree; see the
  root theory.) The value of \<open>__builtin_ctz(0)\<close> is any value from the order of the segment up.
\<close>

section \<open>The page array\<close>

lemma init_page_ok:
  assumes "m < 32" "int m \<le> ctz0"
  shows "\<exists>pg. init_page ctz0 (int m) start off i = Inr pg \<and> paddr pg = start + PAGESIZE * of_nat i \<and>
    pm_flags pg = 0 \<and> (i = 0 \<longrightarrow> unat (psize pg) = 2 ^ m)"
proof -
  let ?a = "min (int m) (c_ctz ctz0 (of_nat i))"
  have a: "0 \<le> ?a" "?a < 32" using assms by (auto simp: c_ctz_def)
  moreover have "i = 0 \<Longrightarrow> nat ?a = m" using assms by (simp add: c_ctz_def)
  ultimately show ?thesis
    using assms(1) by (auto simp: init_page_def Let_def push_bit_eq_mult unat_pow2)
qed

lemma init_pages_ok:
  "(\<And>i. i \<in> set is \<Longrightarrow> \<exists>pg. f i = Inr pg \<and> Q i pg) \<Longrightarrow>
    \<exists>pgs. init_pages f is = Inr pgs \<and> length pgs = length is \<and> (\<forall>j < length is. Q (is ! j) (pgs ! j))"
proof (induction "is")
  case Nil
  then show ?case by simp
next
  case (Cons i "is")
  obtain pg where "f i = Inr pg" "Q i pg" using Cons.prems by auto
  moreover obtain pgs where "init_pages f is = Inr pgs" "length pgs = length is"
    "\<forall>j < length is. Q (is ! j) (pgs ! j)" using Cons by fastforce
  ultimately show ?case by (auto simp: nth_Cons split: nat.splits)
qed

section \<open>The queues\<close>

lemma push_one: "push_bit i (1 :: u32) = 2 ^ i"
  by (simp add: push_bit_eq_mult)

lemma fill_queue_none:
  assumes "unat to_add < 2 ^ i" "i < 32"
  shows "fill_queue i c to_add seg = Inr (seg, c, to_add)"
  using assms by (subst fill_queue.simps) (simp add: push_one word_le_nat_alt unat_pow2)

lemma fill_queues_done: "n \<le> 32 \<Longrightarrow> fill_queues n c 0 seg = Inr seg"
  by (induction n) (simp_all add: fill_queue_none)

lemma fill_queues_skip:
  assumes "m < n" "n \<le> 32"
  shows "fill_queues n c (2 ^ m) seg = fill_queues (Suc m) c (2 ^ m) seg"
  using assms
proof (induction n)
  case (Suc n)
  show ?case
  proof (cases "n = m")
    case False
    then have "unat (2 ^ m :: u32) < 2 ^ n" using Suc.prems by (simp add: unat_pow2)
    then show ?thesis using Suc False by (simp add: fill_queue_none)
  qed simp
qed simp

lemma fill_queue_one:
  assumes "length (freeq seg) = PM_NQUEUES" "m < PM_NQUEUES" "0 < length (pages seg)"
  shows "fill_queue m 0 (2 ^ m) seg = Inr
    (seg\<lparr>freeq := (freeq seg)[m := 0 # freeq seg ! m],
         pages := (pages seg)[0 := or_flag PM_MANAGED (pages seg ! 0)]\<rparr>, 2 ^ m, 0)"
proof -
  have m: "m < 32" using assms(2) by (simp add: PM_NQUEUES_def)
  show ?thesis
    using assms m by (subst fill_queue.simps)
      (simp add: push_one q_insert_head_def PM_FREEQ_def upd_page_def Let_def fill_queue_none)
qed

section \<open>The segment\<close>

lemma init_view:
  assumes l: "length pgs = 2 ^ m" and m: "m < PM_NQUEUES"
    and pgs: "\<forall>j < 2 ^ m. pm_flags (pgs ! j) = 0" "unat (psize (pgs ! 0)) = 2 ^ m"
    and seg: "seg = \<lparr>seg_start = start, seg_end = en, freeq = (replicate PM_NQUEUES [])[m := [0]],
      npages = 2 ^ m, pages = pgs[0 := or_flag PM_MANAGED (pgs ! 0)]\<rparr>"
  shows "seg_inv seg {}" "free_pages (seg_view seg) = {0..<2 ^ m}" "coalesced (seg_view seg)"
proof -
  let ?v = "seg_view seg"
  have m32: "m < 32" using m by (simp add: PM_NQUEUES_def)
  have n: "npages seg = 2 ^ m" using seg by simp
  have un: "unat (npages seg) = 2 ^ m" using n m32 by (simp add: unat_pow2)
  have f: "bfree ?v = {(0, m)}" using seg m by (auto simp: seg_view_def nth_list_update split: if_splits)
  have man: "\<And>q. q < 2 ^ m \<Longrightarrow> bman ?v q \<longleftrightarrow> q = 0"
    using seg pgs(1) l by (auto simp: seg_view_def nth_list_update flag_bits)
  have off: "\<And>q. q < 2 ^ m \<Longrightarrow> \<not> balloc ?v q \<and> \<not> bres ?v q"
    using seg pgs(1) l by (auto simp: seg_view_def nth_list_update flag_bits)
  have sz: "bsize ?v 0 = 2 ^ m" using seg pgs(2) l by (simp add: seg_view_def)
  have "seg_shape seg"
    using seg l un m by (auto simp: seg_shape_def nth_list_update)
  moreover have "buddy_inv ?v {} {}"
    using f man off sz un
    by (intro buddy_invI) (auto simp: placed_def apart_def blk_def seg_view_def)
  ultimately show "seg_inv seg {}" by (simp add: seg_inv_def)
  show "free_pages ?v = {0..<2 ^ m}" using f by (simp add: free_pages_def blk_def)
  show "coalesced ?v" using f buddy_of_ne by (auto simp: coalesced_def)
qed

lemma max_size_pow2: "m < PM_NQUEUES \<Longrightarrow> c_min (int PM_NQUEUES) (c_ffs (2 ^ m)) - 1 = int m"
  by (simp add: c_ffs_def PM_NQUEUES_def)

lemma pm_seg_init_ok:
  assumes m: "m < PM_NQUEUES" "int m \<le> ctz0" and en: "unat en = unat start + 4096 * 2 ^ m"
  shows "\<exists>seg. pm_seg_init ctz0 start en off = Inr seg \<and> seg_inv seg {} \<and> seg_placed seg \<and>
    seg_start seg = start \<and> seg_end seg = en \<and> length (pages seg) = 2 ^ m \<and>
    free_pages (seg_view seg) = {0..<2 ^ m} \<and> coalesced (seg_view seg)"
proof -
  have m32: "m < 32" using m(1) by (simp add: PM_NQUEUES_def)
  have "unat (en - start) = 4096 * 2 ^ m" using en by (subst unat_sub) (simp_all add: word_le_nat_alt)
  then have "unat ((en - start) div PAGESIZE) = 2 ^ m" by (simp add: PAGESIZE_def unat_div)
  then have n: "(en - start) div PAGESIZE = 2 ^ m" using m32 by (simp add: unat_eq_pow2)
  obtain pgs where pgs: "init_pages (init_page ctz0 (int m) start off) [0..<2 ^ m] = Inr pgs"
    "length pgs = 2 ^ m"
    "\<forall>j < 2 ^ m. paddr (pgs ! j) = start + PAGESIZE * of_nat j \<and> pm_flags (pgs ! j) = 0 \<and>
      (j = 0 \<longrightarrow> unat (psize (pgs ! j)) = 2 ^ m)"
    using init_pages_ok [of "[0..<2 ^ m]" "init_page ctz0 (int m) start off"
      "\<lambda>i pg. paddr pg = start + PAGESIZE * of_nat i \<and> pm_flags pg = 0 \<and> (i = 0 \<longrightarrow> unat (psize pg) = 2 ^ m)"]
      init_page_ok [OF m32 m(2)] by auto
  define seg where "seg = \<lparr>seg_start = start, seg_end = en, freeq = (replicate PM_NQUEUES [])[m := [0]],
      npages = 2 ^ m, pages = pgs[0 := or_flag PM_MANAGED (pgs ! 0)]\<rparr>"
  have "fill_queues PM_NQUEUES 0 (2 ^ m) \<lparr>seg_start = start, seg_end = en,
      freeq = replicate PM_NQUEUES [], npages = 2 ^ m, pages = pgs\<rparr> = Inr seg"
    using m(1) pgs(2) fill_queues_done [of m]
    by (subst fill_queues_skip [OF m(1)]) (simp_all add: fill_queue_one seg_def PM_NQUEUES_def)
  then have r: "pm_seg_init ctz0 start en off = Inr seg"
    using pgs(1) m(1) m32 max_size_pow2 [OF m(1)]
    by (simp add: pm_seg_init_def n Let_def unat_pow2 del: c_min_eq)
  have addr: "unat (start + PAGESIZE * of_nat q) = unat start + 4096 * q" if "q < 2 ^ m" for q
  proof -
    have b: "unat start + 4096 * 2 ^ m < 2 ^ 32" using en unsigned_less [of en, where ?'a = nat] by simp
    then have "unat (of_nat q :: u32) = q" using that by (intro unat_of_nat_small) simp
    then have "unat (PAGESIZE * of_nat q) = 4096 * q"
      using b that by (subst unat_mult_small) (simp_all add: PAGESIZE_def)
    then show ?thesis using b that by (subst unat_add_small) simp_all
  qed
  have "paddr (pages seg ! q) = start + PAGESIZE * of_nat q" if "q < 2 ^ m" for q
    using that pgs(2,3) by (simp add: seg_def nth_list_update)
  then have "seg_placed seg" using addr en pgs(2) by (simp add: seg_placed_def seg_def)
  moreover have "seg_inv seg {}" "free_pages (seg_view seg) = {0..<2 ^ m}" "coalesced (seg_view seg)"
    using init_view [OF pgs(2) m(1) _ _ seg_def] pgs(3) by auto
  ultimately show ?thesis using r pgs(2) by (simp add: seg_def)
qed

end
