(* ===== verification/Physmem_Manager.thy ===== *)
theory Physmem_Manager
  imports Physmem_Init
begin

text \<open>
  The manager over its list of segments. \<open>pm_inv st As\<close>: the segments are well formed and coalesced,
  their address ranges do not overlap, and \<open>As ! k\<close> holds the blocks of segment \<open>k\<close> that are handed
  out.
\<close>

section \<open>Allocating keeps a segment coalesced\<close>

text \<open>
  The block the loop splits came from the lowest non-empty queue, so the only two free buddies are the
  halves it has just made, and they are all there is in their queue.
\<close>

definition halves_at :: "pm_seg \<Rightarrow> nat \<Rightarrow> bool" where
  "halves_at seg i \<longleftrightarrow> (\<forall>p k. (p, k) \<in> bfree (seg_view seg) \<and> (buddy_of p k, k) \<in> bfree (seg_view seg) \<longrightarrow>
    k = i \<and> order_blocks seg i = {p, buddy_of p k})"

lemma halves_at_take:
  assumes "halves_at seg i" "(h, i) \<in> bfree (seg_view seg)" "seg_view seg' = b_take h i (seg_view seg)"
  shows "coalesced (seg_view seg')"
  unfolding coalesced_def
proof (intro allI impI notI)
  fix p k
  assume "(p, k) \<in> bfree (seg_view seg')" "(buddy_of p k, k) \<in> bfree (seg_view seg')"
  then have f: "(p, k) \<in> bfree (seg_view seg)" "(buddy_of p k, k) \<in> bfree (seg_view seg)"
    and ne: "(p, k) \<noteq> (h, i)" "(buddy_of p k, k) \<noteq> (h, i)" using assms(3) by (auto simp: b_take_def)
  then have "k = i \<and> order_blocks seg i = {p, buddy_of p k}"
    using assms(1) f unfolding halves_at_def by blast
  moreover have "h \<in> order_blocks seg i" using assms(2) by (simp add: order_blocks_def)
  ultimately show False using ne by auto
qed

lemma halves_at_split:
  assumes inv: "buddy_inv (seg_view seg) A P" and h: "halves_at seg (Suc i)"
    and b: "(p, Suc i) \<in> bfree (seg_view seg)" and low: "order_blocks seg i = {}"
    and v: "seg_view seg' = b_split p i (seg_view seg)"
  shows "halves_at seg' i"
  unfolding halves_at_def
proof (intro allI impI)
  fix a m
  assume am: "(a, m) \<in> bfree (seg_view seg') \<and> (buddy_of a m, m) \<in> bfree (seg_view seg')"
  have ob: "order_blocks seg' i = {p, p + 2 ^ i}"
    using low by (auto simp: v order_blocks_def b_split_def)
  note sb = split_buddies [OF free_aligned [OF inv b]]
  have "m = i"
  proof (rule ccontr)
    assume "m \<noteq> i"
    then have f: "(a, m) \<in> bfree (seg_view seg)" "(buddy_of a m, m) \<in> bfree (seg_view seg)"
      and ne: "(a, m) \<noteq> (p, Suc i)" "(buddy_of a m, m) \<noteq> (p, Suc i)"
      using am by (auto simp: v b_split_def)
    then have "m = Suc i \<and> order_blocks seg (Suc i) = {a, buddy_of a m}"
      using h f unfolding halves_at_def by blast
    moreover have "p \<in> order_blocks seg (Suc i)" using b by (simp add: order_blocks_def)
    ultimately show False using ne by auto
  qed
  moreover then have "a \<in> {p, p + 2 ^ i}" using am ob by (auto simp: order_blocks_def)
  ultimately show "m = i \<and> order_blocks seg' i = {a, buddy_of a m}" using ob sb by auto
qed

lemma alloc_loop_coalesced:
  assumes "seg_shape seg" "buddy_inv (seg_view seg) A P" "j \<le> i" "i < PM_NQUEUES" "freeq seg ! i \<noteq> []"
    and "\<forall>m. j \<le> m \<and> m < i \<longrightarrow> order_blocks seg m = {}" and "halves_at seg i"
    and "alloc_loop j i seg = Inr (seg', p)"
  shows "coalesced (seg_view seg')"
  using assms
proof (induction i arbitrary: seg)
  case 0
  then obtain h ps where q: "freeq seg ! 0 = h # ps" by (cases "freeq seg ! 0") auto
  have b: "(h, 0) \<in> bfree (seg_view seg)" using q 0 by (simp add: queue_in_view)
  show ?case using alloc_loop_take [OF 0(1,2,4) q] 0 halves_at_take [OF 0(7) b] by auto
next
  case (Suc i)
  then obtain h ps where q: "freeq seg ! Suc i = h # ps" by (cases "freeq seg ! Suc i") auto
  have b: "(h, Suc i) \<in> bfree (seg_view seg)" using q Suc.prems(4) by (simp add: queue_in_view)
  show ?case
  proof (cases "j = Suc i")
    case True
    then show ?thesis
      using alloc_loop_take [OF Suc.prems(1,2,4) q] Suc.prems(8) halves_at_take [OF Suc.prems(7) b] by auto
  next
    case False
    obtain s' where r: "pm_split_page seg h = Inr s'" and s': "seg_shape s'" "seg_place s' = seg_place seg"
      "seg_view s' = b_split h i (seg_view seg)"
      using pm_split_page_steps [OF Suc.prems(1,2) b] by (rule stepsE)
    have inv': "buddy_inv (seg_view s') A P" using split_inv [OF Suc.prems(2) b] s'(3) by simp
    have "(h, i) \<in> bfree (seg_view s')" using s'(3) by (simp add: b_split_def)
    then have ne: "freeq s' ! i \<noteq> []" using Suc.prems(4) by (auto simp: queue_in_view)
    have low: "order_blocks seg i = {}" using Suc.prems(3,6) False by simp
    have "\<forall>m. j \<le> m \<and> m < i \<longrightarrow> order_blocks s' m = {}"
      using Suc.prems(6) s'(3) by (auto simp: order_blocks_def b_split_def)
    moreover have "alloc_loop j i s' = Inr (seg', p)"
      using Suc.prems(8) r q False PM_FREEQ_ok [OF Suc.prems(1,4)] by (subst (asm) alloc_loop.simps) simp
    ultimately show ?thesis
      using Suc.IH [OF s'(1) inv' _ _ ne] halves_at_split [OF Suc.prems(2,7) b low s'(3)] Suc.prems(3,4) False
      by simp
  qed
qed

lemma pm_alloc_from_seg_coalesced:
  assumes sh: "seg_shape seg" and inv: "buddy_inv (seg_view seg) A P" and c: "coalesced (seg_view seg)"
    and j: "j < PM_NQUEUES" and r: "pm_alloc_from_seg seg (2 ^ j) = Inr (seg', res)"
  shows "coalesced (seg_view seg')"
proof -
  have l: "c_log2 (2 ^ j) = int j" using j by (simp add: PM_NQUEUES_def)
  obtain i where i: "find_queue seg j = Inr i" "j \<le> i" "i \<le> PM_NQUEUES"
      "\<forall>m. j \<le> m \<and> m < i \<longrightarrow> freeq seg ! m = []" "i < PM_NQUEUES \<longrightarrow> freeq seg ! i \<noteq> []"
    using find_queue_ok [OF sh, of j] j by auto
  show ?thesis
  proof (cases "i = PM_NQUEUES")
    case True
    then show ?thesis using r i(1) l c by (simp add: pm_alloc_from_seg_def)
  next
    case False
    then have lt: "i < PM_NQUEUES" using i(3) by simp
    obtain p where a: "alloc_loop j i seg = Inr (seg', p)"
      using r i(1) l False by (auto simp: pm_alloc_from_seg_def rbind_Inr_iff)
    have "\<forall>m. j \<le> m \<and> m < i \<longrightarrow> order_blocks seg m = {}" using i(4) lt by (simp add: order_blocks_queue)
    moreover have "halves_at seg i" using c by (auto simp: halves_at_def coalesced_def)
    ultimately show ?thesis using alloc_loop_coalesced [OF sh inv i(2) lt _ _ _ a] i(5) lt by blast
  qed
qed

section \<open>One segment\<close>

definition seg_ok :: "pm_seg \<Rightarrow> block set \<Rightarrow> bool" where
  "seg_ok seg A \<longleftrightarrow> seg_inv seg A \<and> seg_placed seg \<and> coalesced (seg_view seg)"

text \<open>The aligned runs of \<open>2 ^ j\<close> free pages.\<close>

definition free_runs :: "pm_seg \<Rightarrow> nat \<Rightarrow> nat set" where
  "free_runs seg j = {p. 2 ^ j dvd p \<and> blk (p, j) \<subseteq> free_pages (seg_view seg)}"

definition served :: "pm_seg \<Rightarrow> block set \<Rightarrow> nat \<Rightarrow> pm_seg \<Rightarrow> nat \<Rightarrow> bool" where
  "served seg A j seg' p \<longleftrightarrow> p \<in> free_runs seg j \<and> seg_ok seg' (insert (p, j) A) \<and>
    seg_place seg' = seg_place seg \<and> (p, j) \<notin> A \<and>
    free_pages (seg_view seg') = free_pages (seg_view seg) - blk (p, j)"

lemma seg_ok_block:
  assumes "seg_ok seg A" "(p, j) \<in> A"
  shows "p + 2 ^ j \<le> length (pages seg)" "p < length (pages seg)" "unat (psize (pages seg ! p)) = 2 ^ j"
proof -
  have inv: "seg_shape seg" "buddy_inv (seg_view seg) A {}"
    using assms(1) by (simp_all add: seg_ok_def seg_inv_def)
  show b: "p + 2 ^ j \<le> length (pages seg)"
    using buddy_invD(1) [OF inv(2), of "(p, j)"] assms(2) bn_view [OF inv(1)] by (simp add: placed_def)
  show "p < length (pages seg)" by (rule less_le_trans [OF _ b]) simp
  show "unat (psize (pages seg ! p)) = 2 ^ j" using buddy_invD(2) [OF inv(2), of "(p, j)"] assms(2) by simp
qed

lemma served_page: "served seg A j seg' p \<Longrightarrow> p < length (pages seg')"
  using seg_ok_block(2) [of seg' "insert (p, j) A" p j] by (simp add: served_def)

lemma all_less_Suc0: "(\<forall>l < Suc n. P ((x # xs) ! l)) \<longleftrightarrow> P x \<and> (\<forall>l < n. P (xs ! l))"
  by (auto simp: less_Suc_eq_0_disj)

lemma seg_alloc:
  assumes ok: "seg_ok seg A" and j: "j < PM_NQUEUES"
  shows "(\<exists>seg' p. pm_alloc_from_seg seg (2 ^ j) = Inr (seg', Some p) \<and> served seg A j seg' p) \<or>
    (pm_alloc_from_seg seg (2 ^ j) = Inr (seg, None) \<and> free_runs seg j = {})"
proof -
  have sh: "seg_shape seg" and bi: "buddy_inv (seg_view seg) A {}" and pl: "seg_placed seg"
    and c: "coalesced (seg_view seg)" using ok by (simp_all add: seg_ok_def seg_inv_def)
  consider (got) seg' p where "pm_alloc_from_seg seg (2 ^ j) = Inr (seg', Some p)" "allocated seg A {} p j seg'"
    | (none) "pm_alloc_from_seg seg (2 ^ j) = Inr (seg, None)" "\<forall>p k. (p, k) \<in> bfree (seg_view seg) \<longrightarrow> k < j"
    using pm_alloc_from_seg_ok [OF sh bi j] by blast
  then show ?thesis
  proof cases
    case got
    have a: "buddy_inv (seg_view seg') (insert (p, j) A) {}" "seg_shape seg'" "seg_place seg' = seg_place seg"
      "blk (p, j) \<subseteq> free_pages (seg_view seg)"
      "free_pages (seg_view seg') = free_pages (seg_view seg) - blk (p, j)"
      using got(2) by (simp_all add: allocated_def)
    have "2 ^ j dvd p" using buddy_invD(1) [OF a(1), of "(p, j)"] by (simp add: placed_def)
    then have "p \<in> free_runs seg j" using a(4) by (simp add: free_runs_def)
    moreover have "(p, j) \<notin> A"
    proof
      assume "(p, j) \<in> A"
      then have "balloc (seg_view seg) p" using buddy_invD(7) [OF bi, of "(p, j)" p] by simp
      moreover have "p \<in> free_pages (seg_view seg)" using a(4) fst_in_blk [of "(p, j)"] by (simp only: fst_conv) blast
      then obtain b where "b \<in> bfree (seg_view seg)" "p \<in> blk b" unfolding free_pages_def by blast
      ultimately show False using buddy_invD(6) [OF bi] by blast
    qed
    ultimately show ?thesis
      using got(1) a seg_place_placed [OF a(3) pl] pm_alloc_from_seg_coalesced [OF sh bi c j got(1)]
      by (simp add: seg_ok_def seg_inv_def served_def)
  next
    case none
    have "False" if "2 ^ j dvd p" "blk (p, j) \<subseteq> free_pages (seg_view seg)" for p
      using coalesced_cover [OF bi c that] none(2) by (meson not_le)
    then have "free_runs seg j = {}" by (auto simp: free_runs_def)
    then show ?thesis using none(1) by simp
  qed
qed

lemma seg_free:
  assumes ok: "seg_ok seg A" and b: "(p, k) \<in> A"
  shows "\<exists>seg'. pm_free_from_seg seg p = Some (Inr seg') \<and> seg_ok seg' (A - {(p, k)}) \<and>
    seg_place seg' = seg_place seg \<and> free_pages (seg_view seg') = blk (p, k) \<union> free_pages (seg_view seg)"
proof -
  have inv: "seg_inv seg A" and pl: "seg_placed seg" and c: "coalesced (seg_view seg)"
    using ok by (simp_all add: seg_ok_def)
  obtain seg' where "pm_free_from_seg seg p = Some (Inr seg')" "freed seg (A - {(p, k)}) p k seg'"
    using pm_free_from_seg_ok [OF inv b] by blast
  then show ?thesis using c seg_place_placed [OF _ pl] by (simp add: seg_ok_def seg_inv_def freed_def)
qed

lemma seg_reserve:
  assumes ok: "seg_ok seg A" and a: "at_page seg start s" "at_page seg en e" "s < e"
  shows "\<exists>seg'. pm_seg_reserve seg start en = Some (Inr seg') \<and> seg_ok seg' A \<and>
    seg_place seg' = seg_place seg \<and> free_pages (seg_view seg') = free_pages (seg_view seg) - {s..<e} \<and>
    bres (seg_view seg') = (\<lambda>q. bres (seg_view seg) q \<or> q \<in> free_pages (seg_view seg) \<inter> {s..<e})"
  using pm_seg_reserve_ok [OF _ _ a, of A] ok by (auto simp: seg_ok_def)

lemma pm_seg_init_covers:
  assumes "m < PM_NQUEUES" "int m \<le> ctz0" "unat en = unat start + 4096 * 2 ^ m"
  shows "\<exists>seg. pm_seg_init ctz0 start en off = Inr seg \<and> seg_ok seg {} \<and> seg_start seg = start \<and>
    seg_end seg = en \<and> free_pages (seg_view seg) = {0..<2 ^ m}"
  using pm_seg_init_ok [OF assms] by (auto simp: seg_ok_def)

text \<open>The free blocks are a function of the free pages.\<close>

lemma seg_ok_unique:
  "seg_ok s A \<Longrightarrow> seg_ok t B \<Longrightarrow> free_pages (seg_view s) = free_pages (seg_view t) \<Longrightarrow>
    bfree (seg_view s) = bfree (seg_view t)"
  by (rule coalesced_unique [of "seg_view s" A "{}" "seg_view t" B "{}"]) (simp_all add: seg_ok_def seg_inv_def)

text \<open>A page that is reserved or free is not freed again.\<close>

lemma free_reserved_panics:
  assumes "seg_inv seg A" "q < unat (npages seg)" "bres (seg_view seg) q"
  shows "pm_free_from_seg seg q = Some (Inl (Panicked ''trying to free reserved page: %p''))"
  using assms by (simp add: pm_free_from_seg_def get_page_ok seg_inv_def seg_shape_def) (simp add: seg_view_def)

lemma free_page_bound:
  assumes "buddy_inv v A P" "q \<in> free_pages v"
  shows "q < bn v" "\<not> balloc v q" "\<not> bres v q"
proof -
  obtain p k where b: "(p, k) \<in> bfree v" "q \<in> blk (p, k)" using assms(2) by (auto simp: free_pages_def)
  then show "q < bn v" using buddy_invD(1) [OF assms(1), of "(p, k)"] by (simp add: placed_def)
  show "\<not> balloc v q" "\<not> bres v q" using buddy_invD(6) [OF assms(1) b] by simp_all
qed

lemma free_free_panics:
  assumes "seg_inv seg A" "q \<in> free_pages (seg_view seg)"
  shows "pm_free_from_seg seg q = Some (Inl (Panicked ''page is already free: %p''))"
proof -
  have sh: "seg_shape seg" and bi: "buddy_inv (seg_view seg) A {}" using assms(1) by (simp_all add: seg_inv_def)
  note b = free_page_bound [OF bi assms(2)]
  have "q < length (pages seg)" using b(1) bn_view [OF sh] by simp
  then show ?thesis using b(2,3)
    by (simp add: pm_free_from_seg_def get_page_ok) (simp add: seg_view_def)
qed

section \<open>The list of segments\<close>

definition pm_inv :: "pm_state \<Rightarrow> block set list \<Rightarrow> bool" where
  "pm_inv st As \<longleftrightarrow> length As = length (seglist st) \<and>
    (\<forall>k < length As. seg_ok (seglist st ! k) (As ! k)) \<and>
    (\<forall>k < length As. \<forall>l < length As. k \<noteq> l \<longrightarrow>
      seg_end (seglist st ! k) \<le> seg_start (seglist st ! l) \<or>
      seg_end (seglist st ! l) \<le> seg_start (seglist st ! k))"

lemma pm_invD:
  assumes "pm_inv st As"
  shows "length As = length (seglist st)" "k < length As \<Longrightarrow> seg_ok (seglist st ! k) (As ! k)"
  using assms by (simp_all add: pm_inv_def)

lemma pm_init_inv: "pm_inv (pm_init st) []"
  by (simp add: pm_inv_def pm_init_def)

lemma pm_inv_update:
  assumes inv: "pm_inv st As" and k: "k < length As" and ok: "seg_ok seg' B"
    and pl: "seg_place seg' = seg_place (seglist st ! k)" and st': "seglist st' = (seglist st)[k := seg']"
  shows "pm_inv st' (As[k := B])"
proof -
  have "seg_start seg' = seg_start (seglist st ! k)" "seg_end seg' = seg_end (seglist st ! k)"
    using pl by (simp_all add: seg_place_def)
  then show ?thesis using inv k ok st' by (simp add: pm_inv_def nth_list_update)
qed

text \<open>The segment loop of \<open>pm_alloc\<close>: the first segment with a free run serves the request.\<close>

lemma alloc_foreach_ok:
  assumes "\<forall>i < length segs. seg_ok (segs ! i) (A i)" and j: "j < PM_NQUEUES"
  shows "(\<exists>i seg' p. i < length segs \<and> alloc_foreach (2 ^ j) k segs =
        Inr (segs[i := seg'], Some ((k + i, p), pages seg' ! p)) \<and> (\<forall>l < i. free_runs (segs ! l) j = {}) \<and>
      served (segs ! i) (A i) j seg' p) \<or>
    (alloc_foreach (2 ^ j) k segs = Inr (segs, None) \<and> (\<forall>l < length segs. free_runs (segs ! l) j = {}))"
  using assms(1)
proof (induction segs arbitrary: k A)
  case Nil
  then show ?case by simp
next
  case (Cons seg segs)
  have ok: "seg_ok seg (A 0)" using Cons.prems by force
  consider (got) seg' p where "pm_alloc_from_seg seg (2 ^ j) = Inr (seg', Some p)" "served seg (A 0) j seg' p"
    | (none) "pm_alloc_from_seg seg (2 ^ j) = Inr (seg, None)" "free_runs seg j = {}"
    using seg_alloc [OF ok j] by blast
  then show ?case
  proof cases
    case got
    then have "get_page seg' p = Inr (pages seg' ! p)" by (intro get_page_ok served_page)
    then show ?thesis using got by (intro disjI1 exI [of _ 0] exI [of _ seg'] exI [of _ p]) simp
  next
    case none
    have "\<forall>i < length segs. seg_ok (segs ! i) (A (Suc i))" using Cons.prems by auto
    then consider (later) i seg' p where "i < length segs" "alloc_foreach (2 ^ j) (Suc k) segs =
        Inr (segs[i := seg'], Some ((Suc k + i, p), pages seg' ! p))" "\<forall>l < i. free_runs (segs ! l) j = {}"
        "served (segs ! i) (A (Suc i)) j seg' p"
      | (never) "alloc_foreach (2 ^ j) (Suc k) segs = Inr (segs, None)" "\<forall>l < length segs. free_runs (segs ! l) j = {}"
      using Cons.IH [of "\<lambda>i. A (Suc i)" "Suc k"] by blast
    then show ?thesis
    proof cases
      case later
      moreover have "\<forall>l < Suc i. free_runs ((seg # segs) ! l) j = {}"
        using later(3) none(2) all_less_Suc0 [of i "\<lambda>s. free_runs s j = {}" seg segs] by simp
      moreover have "alloc_foreach (2 ^ j) k (seg # segs) =
          Inr ((seg # segs)[Suc i := seg'], Some ((k + Suc i, p), pages seg' ! p))"
        using later(2) none(1) by simp
      ultimately show ?thesis
        by (intro disjI1, rule_tac x = "Suc i" in exI, rule_tac x = seg' in exI, rule_tac x = p in exI)
          (simp only: nth_Cons_Suc length_Cons Suc_less_eq simp_thms)
    next
      case never
      moreover have "\<forall>l < Suc (length segs). free_runs ((seg # segs) ! l) j = {}"
        using never(2) none(2) all_less_Suc0 [of "length segs" "\<lambda>s. free_runs s j = {}" seg segs] by simp
      ultimately show ?thesis using none by simp
    qed
  qed
qed

section \<open>The operations of the manager\<close>

lemma pm_alloc_ok:
  assumes inv: "pm_inv st As" and j: "j < PM_NQUEUES"
  shows "(\<exists>st' k p. pm_alloc (2 ^ j) st = Inr (st', Some (k, p)) \<and> k < length As \<and>
      (\<forall>l < k. free_runs (seglist st ! l) j = {}) \<and>
      seglist st' = (seglist st)[k := seglist st' ! k] \<and>
      served (seglist st ! k) (As ! k) j (seglist st' ! k) p \<and>
      pm_inv st' (As[k := insert (p, j) (As ! k)])) \<or>
    (pm_alloc (2 ^ j) st = Inr (st, None) \<and> (\<forall>l < length As. free_runs (seglist st ! l) j = {}))"
proof -
  note l = pm_invD(1) [OF inv]
  have ok: "\<forall>i < length (seglist st). seg_ok (seglist st ! i) (As ! i)" using inv by (simp add: pm_inv_def)
  consider (got) k seg' p where "k < length (seglist st)" "alloc_foreach (2 ^ j) 0 (seglist st) =
        Inr ((seglist st)[k := seg'], Some ((k, p), pages seg' ! p))"
      "\<forall>l < k. free_runs (seglist st ! l) j = {}" "served (seglist st ! k) (As ! k) j seg' p"
    | (none) "alloc_foreach (2 ^ j) 0 (seglist st) = Inr (seglist st, None)"
      "\<forall>l < length (seglist st). free_runs (seglist st ! l) j = {}"
    using alloc_foreach_ok [of "seglist st" "\<lambda>i. As ! i" j 0, OF ok j] by (metis add_0)
  then show ?thesis
  proof cases
    case got
    obtain st' where r: "pm_alloc (2 ^ j) st = Inr (st', Some (k, p))"
      and st': "seglist st' = (seglist st)[k := seg']"
      using got(2) by (simp add: pm_alloc_def kprintf_def)
    have "pm_inv st' (As[k := insert (p, j) (As ! k)])"
      using pm_inv_update [OF inv _ _ _ st'] got l by (simp add: served_def)
    then show ?thesis using r st' got l by (intro disjI1, rule_tac x = st' in exI) auto
  next
    case none
    then show ?thesis using l by (simp add: pm_alloc_def)
  qed
qed

text \<open>The address range of a block that is handed out lies in its own segment only.\<close>

lemma filter_one: "distinct xs \<Longrightarrow> x \<in> set xs \<Longrightarrow> filter (\<lambda>l. l = x) xs = [x]"
  by (induction xs) (auto simp: filter_empty_conv)

lemma owning_seg_ok:
  assumes inv: "pm_inv st As" and k: "k < length As" and b: "(p, j) \<in> As ! k"
  shows "owning_seg (pages (seglist st ! k) ! p) (seglist st) = Some k"
proof -
  let ?s = "seglist st ! k" and ?pg = "pages (seglist st ! k) ! p"
  note ok = pm_invD(2) [OF inv k] and len = pm_invD(1) [OF inv]
  note blk = seg_ok_block [OF ok b]
  have pl: "seg_placed ?s" using ok by (simp add: seg_ok_def)
  note range = page_range [OF pl blk]
  have "unat (seg_end ?s) = unat (seg_start ?s) + 4096 * length (pages ?s)" using pl by (simp add: seg_placed_def)
  then have en: "unat (PG_END ?pg) \<le> unat (seg_end ?s)" using range(2) blk(1) by simp
  then have own: "seg_start ?s \<le> PG_START ?pg \<and> PG_END ?pg \<le> seg_end ?s"
    using range(1) by (simp add: word_le_nat_alt)
  have lt: "unat (PG_START ?pg) < unat (PG_END ?pg)" using range by simp
  have other: "l = k" if l: "l < length As" "seg_start (seglist st ! l) \<le> PG_START ?pg"
      "PG_END ?pg \<le> seg_end (seglist st ! l)" for l
  proof (rule ccontr)
    assume "l \<noteq> k"
    then have "seg_end ?s \<le> seg_start (seglist st ! l) \<or> seg_end (seglist st ! l) \<le> seg_start ?s"
      using inv k l(1) by (auto simp: pm_inv_def)
    then show False using l(2,3) lt own unfolding word_le_nat_alt by linarith
  qed
  have "filter (\<lambda>l. seg_start (seglist st ! l) \<le> PG_START ?pg \<and> PG_END ?pg \<le> seg_end (seglist st ! l))
      [0..<length (seglist st)] = filter (\<lambda>l. l = k) [0..<length (seglist st)]"
    by (rule filter_cong [OF refl]) (use own other len in auto)
  also have "\<dots> = [k]" using k len by (intro filter_one) simp_all
  finally show ?thesis by (simp add: owning_seg_def)
qed

lemma pm_free_ok:
  assumes inv: "pm_inv st As" and k: "k < length As" and b: "(p, j) \<in> As ! k"
  shows "\<exists>st'. pm_free (k, p) st = Some (Inr st') \<and> pm_inv st' (As[k := As ! k - {(p, j)}]) \<and>
    seglist st' = (seglist st)[k := seglist st' ! k] \<and>
    free_pages (seg_view (seglist st' ! k)) = blk (p, j) \<union> free_pages (seg_view (seglist st ! k))"
proof -
  note ok = pm_invD(2) [OF inv k] and len = pm_invD(1) [OF inv]
  obtain seg' where f: "pm_free_from_seg (seglist st ! k) p = Some (Inr seg')" and s': "seg_ok seg' (As ! k - {(p, j)})"
    "seg_place seg' = seg_place (seglist st ! k)"
    "free_pages (seg_view seg') = blk (p, j) \<union> free_pages (seg_view (seglist st ! k))"
    using seg_free [OF ok b] by blast
  have "get_page_ptr st (k, p) = Inr (pages (seglist st ! k) ! p)"
    using k len seg_ok_block(2) [OF ok b] by (simp add: get_page_ptr_def get_page_ok)
  then obtain st' where r: "pm_free (k, p) st = Some (Inr st')" and st': "seglist st' = (seglist st)[k := seg']"
    using owning_seg_ok [OF inv k b] f by (simp add: pm_free_def kprintf_def Let_def)
  have "pm_inv st' (As[k := As ! k - {(p, j)}])" using pm_inv_update [OF inv k s'(1,2) st'] .
  then show ?thesis using r st' s'(3) k len by (intro exI [of _ st']) simp
qed

text \<open>Freeing what was just allocated restores the free blocks of every segment.\<close>

lemma pm_alloc_free:
  assumes inv: "pm_inv st As" and j: "j < PM_NQUEUES" and a: "pm_alloc (2 ^ j) st = Inr (st', Some ptr)"
  shows "\<exists>st''. pm_free ptr st' = Some (Inr st'') \<and> pm_inv st'' As \<and>
    map (\<lambda>s. bfree (seg_view s)) (seglist st'') = map (\<lambda>s. bfree (seg_view s)) (seglist st)"
proof -
  obtain k p where ptr: "ptr = (k, p)" by (cases ptr)
  have k: "k < length As" and u: "seglist st' = (seglist st)[k := seglist st' ! k]"
    and s: "served (seglist st ! k) (As ! k) j (seglist st' ! k) p"
    and inv': "pm_inv st' (As[k := insert (p, j) (As ! k)])"
    using pm_alloc_ok [OF inv j] a ptr by auto
  note len = pm_invD(1) [OF inv]
  have "(p, j) \<in> As[k := insert (p, j) (As ! k)] ! k" using k by simp
  then obtain st'' where f: "pm_free (k, p) st' = Some (Inr st'')"
    and inv'': "pm_inv st'' (As[k := insert (p, j) (As ! k), k := insert (p, j) (As ! k) - {(p, j)}])"
    and u'': "seglist st'' = (seglist st')[k := seglist st'' ! k]"
    and fp: "free_pages (seg_view (seglist st'' ! k)) = blk (p, j) \<union> free_pages (seg_view (seglist st' ! k))"
    using pm_free_ok [OF inv', of k p j] k by auto
  have A: "As[k := insert (p, j) (As ! k), k := insert (p, j) (As ! k) - {(p, j)}] = As"
    using s by (simp add: served_def)
  have "free_pages (seg_view (seglist st'' ! k)) = free_pages (seg_view (seglist st ! k))"
    using fp s by (auto simp: served_def free_runs_def simp del: blk_iff)
  then have same: "bfree (seg_view (seglist st'' ! k)) = bfree (seg_view (seglist st ! k))"
    using seg_ok_unique [OF pm_invD(2) [OF inv'' [unfolded A] k] pm_invD(2) [OF inv k]] by simp
  have "seglist st'' = (seglist st)[k := seglist st' ! k, k := seglist st'' ! k]" using u u'' by simp
  then have "seglist st'' = (seglist st)[k := seglist st'' ! k]" by simp
  from arg_cong [OF this, of "map (\<lambda>s. bfree (seg_view s))"]
  have "map (\<lambda>s. bfree (seg_view s)) (seglist st'') =
      (map (\<lambda>s. bfree (seg_view s)) (seglist st))[k := map (\<lambda>s. bfree (seg_view s)) (seglist st) ! k]"
    using same k len by (simp only: map_update nth_map)
  then have "map (\<lambda>s. bfree (seg_view s)) (seglist st'') = map (\<lambda>s. bfree (seg_view s)) (seglist st)"
    by (simp only: list_update_id)
  then show ?thesis using f ptr inv'' A by auto
qed

section \<open>Splitting a block that is handed out\<close>

definition b_halve :: "nat \<Rightarrow> nat \<Rightarrow> buddy \<Rightarrow> buddy" where
  "b_halve p k v = v\<lparr>bsize := (bsize v)(p := 2 ^ k, p + 2 ^ k := 2 ^ k)\<rparr>"

definition halve :: "nat \<Rightarrow> nat \<Rightarrow> block set \<Rightarrow> block set" where
  "halve p k A = insert (p, k) (insert (p + 2 ^ k, k) (A - {(p, Suc k)}))"

lemma halve_inv:
  assumes inv: "buddy_inv v A {}" and b: "(p, Suc k) \<in> A"
  shows "buddy_inv (b_halve p k v) (halve p k A) {}"
proof -
  let ?B = "bfree v \<union> A \<union> {}" and ?h = "p + 2 ^ k"
  let ?C = "{(p, k), (?h, k)}"
  have pl: "placed (bn v) (p, Suc k)" using buddy_invD(1) [OF inv] b by blast
  have sub: "c \<in> ?C \<Longrightarrow> blk c \<subseteq> blk (p, Suc k)" for c using blk_split [of p k] by auto
  have notF: "(p, Suc k) \<notin> bfree v" using buddy_free_not_alloc [OF inv] b by auto
  have "apart ?C"
    using blk_halves_disjoint [of p k] by (simp add: apart_insert Int_commute) (simp add: apart_def)
  then have "apart (?C \<union> (?B - {(p, Suc k)}))"
    using apart_replace [OF buddy_invD(3) [OF inv], of "(p, Suc k)" ?C] b sub by blast
  moreover have eq: "?C \<union> (?B - {(p, Suc k)}) = bfree (b_halve p k v) \<union> halve p k A \<union> {}"
    using notF by (auto simp: b_halve_def halve_def)
  ultimately have ap: "apart (bfree (b_halve p k v) \<union> halve p k A \<union> {})" by simp
  have other: "fst c \<noteq> p \<and> fst c \<noteq> ?h" if "c \<in> ?B" "c \<noteq> (p, Suc k)" for c
  proof -
    have "q \<in> blk c \<Longrightarrow> q \<notin> blk (p, Suc k)" for q
      using buddy_same [OF inv that(1), of "(p, Suc k)" q] b that(2) by blast
    moreover have "p \<in> blk (p, Suc k)" "?h \<in> blk (p, Suc k)" by simp_all
    ultimately show ?thesis using fst_in_blk [of c] by metis
  qed
  have cases: "c = (p, k) \<or> c = (?h, k) \<or> (c \<in> ?B \<and> c \<noteq> (p, Suc k))"
    if "c \<in> bfree (b_halve p k v) \<union> halve p k A \<union> {}" for c
    using that notF by (auto simp: b_halve_def halve_def)
  show ?thesis
  proof (rule buddy_invI)
    fix c assume "c \<in> bfree (b_halve p k v) \<union> halve p k A \<union> {}"
    note c = cases [OF this]
    show "placed (bn (b_halve p k v)) c"
      using c placed_halves [OF pl] buddy_invD(1) [OF inv, of c] by (auto simp: b_halve_def)
    show "bsize (b_halve p k v) (fst c) = 2 ^ snd c"
      using c other [of c] buddy_invD(2) [OF inv, of c] by (auto simp: b_halve_def)
  next
    fix c q assume "c \<in> halve p k A" "q \<in> blk c"
    then have "(c \<in> A \<and> q \<in> blk c) \<or> q \<in> blk (p, Suc k)"
      using blk_split [of p k] unfolding halve_def by blast
    then show "balloc (b_halve p k v) q \<and> \<not> bres (b_halve p k v) q"
      using buddy_invD(7) [OF inv, of c q] buddy_invD(7) [OF inv b, of q] by (auto simp: b_halve_def)
  next
    fix q assume q: "q < bn (b_halve p k v)"
    have "(\<exists>c \<in> ?B. q \<in> blk c) \<or> bres v q"
      using buddy_invD(10) [OF inv, of q] q by (simp add: b_halve_def)
    then have "(\<exists>c \<in> ?C \<union> (?B - {(p, Suc k)}). q \<in> blk c) \<or> bres v q"
      using blk_split [of p k] by blast
    then show "(\<exists>c \<in> bfree (b_halve p k v) \<union> halve p k A \<union> {}. q \<in> blk c) \<or> bres (b_halve p k v) q"
      unfolding eq by (simp add: b_halve_def)
  qed (use ap buddy_invD(5,6,9) [OF inv] in \<open>auto simp: b_halve_def\<close>)
qed

lemma seg_split_alloc_steps:
  assumes sh: "seg_shape seg" and inv: "buddy_inv (seg_view seg) A {}" and b: "(p, Suc k) \<in> A"
  shows "\<exists>seg'. seg_split_alloc_page p seg = Inr (seg', p + 2 ^ k) \<and> seg_shape seg' \<and>
    seg_place seg' = seg_place seg \<and> seg_view seg' = b_halve p k (seg_view seg)"
proof -
  let ?sz = "psize (pages seg ! p) div 2" and ?b = "p + 2 ^ k" and ?v = "seg_view seg"
  have n: "bn ?v = length (pages seg)" using bn_view [OF sh] .
  have "p + 2 ^ Suc k \<le> length (pages seg)"
    using buddy_invD(1) [OF inv, of "(p, Suc k)"] b n by (simp add: placed_def)
  then have lt: "p < length (pages seg)" "?b < length (pages seg)"
    using less_le_trans [of p "p + 2 ^ Suc k"] less_le_trans [of ?b "p + 2 ^ Suc k"] by simp_all
  have sz: "unat ?sz = 2 ^ k" using half_size buddy_invD(2) [OF inv, of "(p, Suc k)"] b by simp
  obtain s2 where r2: "upd_page seg p (set_size ?sz) = Inr s2" and h2: "seg_shape s2"
    and p2: "seg_place s2 = seg_place seg" and v2: "seg_view s2 = ?v\<lparr>bsize := (bsize ?v)(p := unat ?sz)\<rparr>"
    by (rule stepsE [OF set_size_steps [OF sh, of p ?sz]]) (use n lt in auto)
  obtain s3 where r3: "upd_page s2 ?b (set_size ?sz) = Inr s3" and h3: "seg_shape s3"
    and p3: "seg_place s3 = seg_place s2"
    and v3: "seg_view s3 = (seg_view s2)\<lparr>bsize := (bsize (seg_view s2))(?b := unat ?sz)\<rparr>"
    by (rule stepsE [OF set_size_steps [OF h2, of ?b ?sz]]) (use v2 n lt in auto)
  have "seg_split_alloc_page p seg = Inr (s3, ?b)"
    using r2 r3 sz by (simp add: seg_split_alloc_page_def get_page_ok [OF lt(1)] Let_def)
  moreover have "seg_view s3 = b_halve p k ?v" using v2 v3 sz by (simp add: b_halve_def)
  ultimately show ?thesis using h3 p2 p3 by simp
qed

lemma pm_split_halves:
  assumes inv: "pm_inv st As" and k: "k < length As" and b: "(p, Suc j) \<in> As ! k"
  shows "\<exists>st'. pm_split_alloc_page (k, p) st = Inr (st', (k, p + 2 ^ j)) \<and>
    pm_inv st' (As[k := halve p j (As ! k)]) \<and> seglist st' = (seglist st)[k := seglist st' ! k] \<and>
    bfree (seg_view (seglist st' ! k)) = bfree (seg_view (seglist st ! k))"
proof -
  let ?s = "seglist st ! k"
  note ok = pm_invD(2) [OF inv k] and len = pm_invD(1) [OF inv]
  have sh: "seg_shape ?s" and bi: "buddy_inv (seg_view ?s) (As ! k) {}" and pl: "seg_placed ?s"
    and c: "coalesced (seg_view ?s)" using ok by (simp_all add: seg_ok_def seg_inv_def)
  obtain seg' where r: "seg_split_alloc_page p ?s = Inr (seg', p + 2 ^ j)" and sh': "seg_shape seg'"
    and pl': "seg_place seg' = seg_place ?s" and v': "seg_view seg' = b_halve p j (seg_view ?s)"
    using seg_split_alloc_steps [OF sh bi b] by blast
  have f: "bfree (seg_view seg') = bfree (seg_view ?s)" using v' by (simp add: b_halve_def)
  have "seg_ok seg' (halve p j (As ! k))"
    using sh' v' halve_inv [OF bi b] seg_place_placed [OF pl' pl] coalesced_subset [OF c, of "seg_view seg'"] f
    by (simp add: seg_ok_def seg_inv_def)
  note ok' = this
  have "get_page_ptr st (k, p) = Inr (pages ?s ! p)"
    using k len seg_ok_block(2) [OF ok b] by (simp add: get_page_ptr_def get_page_ok)
  then obtain st' where "pm_split_alloc_page (k, p) st = Inr (st', (k, p + 2 ^ j))"
    and st': "seglist st' = (seglist st)[k := seg']"
    using r by (simp add: pm_split_alloc_page_def kprintf_def Let_def)
  then show ?thesis using pm_inv_update [OF inv k ok' pl' st'] f k len by (intro exI [of _ st']) simp
qed

section \<open>Registering a segment\<close>

lemma pm_add_segment_ok:
  assumes inv: "pm_inv st As" and ok: "seg_ok seg A"
    and apart: "\<forall>l < length As. seg_end seg \<le> seg_start (seglist st ! l) \<or> seg_end (seglist st ! l) \<le> seg_start seg"
  shows "pm_inv (pm_add_segment seg st) (As @ [A])"
  using inv ok apart unfolding pm_inv_def pm_add_segment_def
  by (auto simp: nth_append less_Suc_eq)

end
