(* ===== verification/Physmem_Runs.thy ===== *)
theory Physmem_Runs
  imports Physmem_Manager
begin

text \<open>
  The manager as a state machine: segments are built and added, blocks are handed out, split and given
  back in any order. Every state reached satisfies the invariant, no request of a client that only gives
  back what it holds can fail, and the pages are never handed out twice.
\<close>

section \<open>Segments as the boot code builds them\<close>

inductive seg_built :: "pm_seg \<Rightarrow> bool" where
  init: "m < PM_NQUEUES \<Longrightarrow> int m \<le> ctz0 \<Longrightarrow> unat en = unat start + 4096 * 2 ^ m \<Longrightarrow>
    pm_seg_init ctz0 start en off = Inr seg \<Longrightarrow> seg_built seg"
| reserve: "seg_built seg \<Longrightarrow> at_page seg a s \<Longrightarrow> at_page seg b e \<Longrightarrow> s < e \<Longrightarrow>
    pm_seg_reserve seg a b = Some (Inr seg') \<Longrightarrow> seg_built seg'"

lemma seg_built_ok: "seg_built seg \<Longrightarrow> seg_ok seg {}"
proof (induction rule: seg_built.induct)
  case (init m ctz0 en start off seg)
  then show ?case using pm_seg_init_covers [OF init(1,2,3), of off] by auto
next
  case (reserve seg a s b e seg')
  then show ?case using seg_reserve [OF reserve(6,2,3,4)] by auto
qed

section \<open>Runs\<close>

text \<open>The second component is what the clients hold: for every segment, the blocks handed out.\<close>

inductive pm_run :: "pm_state \<Rightarrow> block set list \<Rightarrow> bool" where
  start: "pm_run (pm_init st) []"
| add: "pm_run st As \<Longrightarrow> seg_built seg \<Longrightarrow>
    \<forall>l < length As. seg_end seg \<le> seg_start (seglist st ! l) \<or> seg_end (seglist st ! l) \<le> seg_start seg \<Longrightarrow>
    pm_run (pm_add_segment seg st) (As @ [{}])"
| alloc: "pm_run st As \<Longrightarrow> j < PM_NQUEUES \<Longrightarrow> pm_alloc (2 ^ j) st = Inr (st', Some (k, p)) \<Longrightarrow>
    pm_run st' (As[k := insert (p, j) (As ! k)])"
| refuse: "pm_run st As \<Longrightarrow> j < PM_NQUEUES \<Longrightarrow> pm_alloc (2 ^ j) st = Inr (st', None) \<Longrightarrow> pm_run st' As"
| free: "pm_run st As \<Longrightarrow> k < length As \<Longrightarrow> (p, j) \<in> As ! k \<Longrightarrow> pm_free (k, p) st = Some (Inr st') \<Longrightarrow>
    pm_run st' (As[k := As ! k - {(p, j)}])"
| split: "pm_run st As \<Longrightarrow> k < length As \<Longrightarrow> (p, Suc j) \<in> As ! k \<Longrightarrow>
    pm_split_alloc_page (k, p) st = Inr (st', ptr) \<Longrightarrow> pm_run st' (As[k := halve p j (As ! k)])"
| dump: "pm_run st As \<Longrightarrow> pm_run (pm_dump st) As"

lemma pm_inv_segs: "seglist st' = seglist st \<Longrightarrow> pm_inv st' As = pm_inv st As"
  by (simp add: pm_inv_def)

lemma pm_run_inv: "pm_run st As \<Longrightarrow> pm_inv st As"
proof (induction rule: pm_run.induct)
  case (start st)
  show ?case by (rule pm_init_inv)
next
  case (add st As seg)
  then show ?case using pm_add_segment_ok [of st As seg "{}"] seg_built_ok by blast
next
  case (alloc st As j st' k p)
  then show ?case using pm_alloc_ok [OF alloc(4,2)] by auto
next
  case (refuse st As j st')
  then show ?case using pm_alloc_ok [OF refuse(4,2)] by auto
next
  case (free st As k p j st')
  then show ?case using pm_free_ok [OF free(5,2,3)] by auto
next
  case (split st As k p j st' ptr)
  then show ?case using pm_split_halves [OF split(5,2,3)] by auto
next
  case (dump st As)
  then show ?case using pm_inv_segs [of "pm_dump st" st] by (simp add: pm_dump_def)
qed

text \<open>Every page of a segment is in one free block, in one block handed out, or reserved; never in two.\<close>

definition page_owned :: "pm_seg \<Rightarrow> block set \<Rightarrow> nat \<Rightarrow> bool" where
  "page_owned seg A q \<longleftrightarrow>
    (if bres (seg_view seg) q then \<forall>b \<in> bfree (seg_view seg) \<union> A. q \<notin> blk b
     else \<exists>!b. b \<in> bfree (seg_view seg) \<union> A \<and> q \<in> blk b)"

lemma seg_ok_owned:
  assumes "seg_ok seg A" "q < length (pages seg)"
  shows "page_owned seg A q" "bfree (seg_view seg) \<inter> A = {}"
proof -
  have inv: "buddy_inv (seg_view seg) A {}" and sh: "seg_shape seg"
    using assms(1) by (simp_all add: seg_ok_def seg_inv_def)
  show "bfree (seg_view seg) \<inter> A = {}" by (rule buddy_free_not_alloc [OF inv])
  have q: "q < bn (seg_view seg)" using assms(2) bn_view [OF sh] by simp
  have one: "b = c" if "b \<in> bfree (seg_view seg) \<union> A" "c \<in> bfree (seg_view seg) \<union> A" "q \<in> blk b" "q \<in> blk c" for b c
    using buddy_invD(3) [OF inv] that unfolding apart_def by blast
  have "(\<exists>b \<in> bfree (seg_view seg) \<union> A. q \<in> blk b) \<or> bres (seg_view seg) q" using buddy_invD(10) [OF inv q] by blast
  moreover have "\<not> bres (seg_view seg) q" if "b \<in> bfree (seg_view seg) \<union> A" "q \<in> blk b" for b
    using that buddy_invD(6,7) [OF inv] by blast
  ultimately show "page_owned seg A q" unfolding page_owned_def using one by metis
qed

section \<open>Small states, for the witnesses\<close>

definition small_seg :: pm_seg where
  "small_seg = projr (pm_seg_init 32 0 0x4000 0x80000000)"

definition small_st :: pm_state where
  "small_st = pm_add_segment small_seg (pm_init \<lparr>seglist = [], klog = []\<rparr>)"

lemma small_seg_init: "pm_seg_init 32 0 0x4000 0x80000000 = Inr small_seg"
  using pm_seg_init_covers [of 2 32 "0x4000" 0 "0x80000000"] by (auto simp: small_seg_def PM_NQUEUES_def)

lemma small_seg_built: "seg_built small_seg"
  by (rule seg_built.init [OF _ _ _ small_seg_init, of 2]) (simp_all add: PM_NQUEUES_def)

lemma small_run: "pm_run small_st [{}]"
  using pm_run.add [OF pm_run.start small_seg_built, of "\<lparr>seglist = [], klog = []\<rparr>"] by (simp add: small_st_def)

text \<open>The state after two of the four pages have been handed out: those from page 2 on.\<close>

definition small_st1 :: pm_state where
  "small_st1 = fst (projr (pm_alloc 2 small_st))"

lemma small_alloc: "pm_alloc (2 ^ 1) small_st = Inr (small_st1, Some (0, 2))"
  unfolding small_st1_def by code_simp

lemma small_run1: "pm_run small_st1 [{(2, 1)}]"
  using pm_run.alloc [OF small_run _ small_alloc] by (simp add: PM_NQUEUES_def)

lemmas small_inv = pm_run_inv [OF small_run]
lemmas small_inv1 = pm_run_inv [OF small_run1]

lemma small_one: "length (seglist small_st) = 1" "seglist small_st ! 0 = small_seg" "length (seglist small_st1) = 1"
  using pm_invD(1) [OF small_inv1] by (simp_all add: small_st_def pm_add_segment_def pm_init_def)

lemma small_seg_ok: "seg_ok small_seg {}" "seg_start small_seg = 0" "seg_end small_seg = 0x4000"
  "free_pages (seg_view small_seg) = {0..<4}"
  using pm_seg_init_covers [of 2 32 "0x4000" 0 "0x80000000"] small_seg_init by (auto simp: PM_NQUEUES_def)

end
