(* ===== verification/Physmem_Queues.thy ===== *)
theory Physmem_Queues
  imports Physmem_Manager Tailq
begin

text \<open>
  \<open>Physmem\<close> keeps the free queues of a segment as sequences. Here are the operations of \<open>physmem.c\<close> on
  the cells of \<open>queue.h\<close>, with the \<open>TAILQ\<close> macros the code uses: the state is the segment, whose field
  \<open>freeq\<close> is not looked at, and the heap of the queue links, with the number of a queue as its head. Every
  operation does on the cells what the operation of \<open>Physmem\<close> does on the sequences.
\<close>

section \<open>The operations\<close>

type_synonym linked_seg = "pm_seg \<times> (nat, nat) qheap"

definition on_pages :: "(pm_seg \<Rightarrow> pm_seg result) \<Rightarrow> linked_seg \<Rightarrow> linked_seg result" where
  "on_pages f h = rbind (f (fst h)) (\<lambda>seg. Inr (seg, snd h))"

definition tq_insert_head :: "int \<Rightarrow> nat \<Rightarrow> linked_seg \<Rightarrow> linked_seg result" where
  "tq_insert_head i p h = (if 0 \<le> i \<and> i < int PM_NQUEUES
     then Inr (fst h, TAILQ_INSERT_HEAD (nat i) p (snd h)) else Inl Out_of_bounds)"

definition tq_remove :: "int \<Rightarrow> nat \<Rightarrow> linked_seg \<Rightarrow> linked_seg result" where
  "tq_remove i p h = (if 0 \<le> i \<and> i < int PM_NQUEUES
     then Inr (fst h, TAILQ_REMOVE (nat i) p (snd h)) else Inl Out_of_bounds)"

function tq_fill_queue :: "nat \<Rightarrow> u32 \<Rightarrow> u32 \<Rightarrow> linked_seg \<Rightarrow> (linked_seg \<times> u32 \<times> u32) result" where
  "tq_fill_queue i curr_page to_add h =
    (let sz = push_bit i (1::u32) in
     if sz \<le> to_add \<and> i < 32 then
       rbind (tq_insert_head (int i) (unat curr_page) h) (\<lambda>h1.
       rbind (on_pages (\<lambda>s. upd_page s (unat curr_page) (or_flag PM_MANAGED)) h1) (\<lambda>h2.
         tq_fill_queue i (curr_page + sz) (to_add - sz) h2))
     else Inr (h, curr_page, to_add))"
  by pat_completeness auto
termination
  by (relation "measure (\<lambda>(i, c, to_add, h). unat to_add)") (auto intro: fill_decreases [simplified])

declare tq_fill_queue.simps [simp del]

fun tq_fill_queues :: "nat \<Rightarrow> u32 \<Rightarrow> u32 \<Rightarrow> linked_seg \<Rightarrow> linked_seg result" where
  "tq_fill_queues 0 curr_page to_add h = Inr h"
| "tq_fill_queues (Suc i) curr_page to_add h =
     rbind (tq_fill_queue i curr_page to_add h) (\<lambda>(h', curr_page', to_add').
       tq_fill_queues i curr_page' to_add' h')"

definition tq_seg_init :: "int \<Rightarrow> u32 \<Rightarrow> u32 \<Rightarrow> u32 \<Rightarrow> (nat, nat) qheap \<Rightarrow> linked_seg result" where
  "tq_seg_init ctz0 start en vm_off s =
    (let n = (en - start) div PAGESIZE;
         max_size = c_min (int PM_NQUEUES) (c_ffs n) - 1
     in rbind (init_pages (init_page ctz0 max_size start vm_off) [0..<unat n]) (\<lambda>pgs.
        tq_fill_queues PM_NQUEUES 0 n
          (\<lparr>seg_start = start, seg_end = en, freeq = [], npages = n, pages = pgs\<rparr>,
           fold TAILQ_INIT [0..<PM_NQUEUES] s)))"

definition tq_split_page :: "linked_seg \<Rightarrow> nat \<Rightarrow> linked_seg result" where
  "tq_split_page h p =
    rbind (get_page (fst h) p) (\<lambda>page.
    let sz = psize page div 2; buddy = p + unat sz in
    rbind (tq_remove (PM_QUEUE_OF page) p h) (\<lambda>s1.
    rbind (on_pages (\<lambda>s. upd_page s p (set_size sz)) s1) (\<lambda>s2.
    rbind (on_pages (\<lambda>s. upd_page s buddy (set_size sz)) s2) (\<lambda>s3.
    rbind (get_page (fst s3) p) (\<lambda>page'.
    rbind (tq_insert_head (PM_QUEUE_OF page') p s3) (\<lambda>s4.
    rbind (get_page (fst s4) buddy) (\<lambda>bpage.
    rbind (tq_insert_head (PM_QUEUE_OF bpage) buddy s4) (\<lambda>s5.
      on_pages (\<lambda>s. upd_page s buddy (or_flag PM_MANAGED)) s5))))))))"

function tq_find_queue :: "linked_seg \<Rightarrow> nat \<Rightarrow> nat result" where
  "tq_find_queue h i =
    (if i < PM_NQUEUES then (if TAILQ_EMPTY i (snd h) then tq_find_queue h (Suc i) else Inr i)
     else if i = PM_NQUEUES then Inr i
     else Inl Out_of_bounds)"
  by pat_completeness auto
termination by (relation "measure (\<lambda>(h, i). PM_NQUEUES - i)") auto

declare tq_find_queue.simps [simp del]

fun tq_alloc_loop :: "nat \<Rightarrow> nat \<Rightarrow> linked_seg \<Rightarrow> (linked_seg \<times> nat) result" where
  "tq_alloc_loop j i h =
    (if PM_NQUEUES \<le> i then Inl Out_of_bounds
     else case TAILQ_FIRST i (snd h) of
      None \<Rightarrow> Inl Null_pointer
    | Some page \<Rightarrow>
      if i = j then
        rbind (tq_remove (int i) page h) (\<lambda>s1.
        rbind (on_pages (\<lambda>s. upd_page s page (clear_flag PM_MANAGED)) s1) (\<lambda>s2.
        rbind (get_page (fst s2) page) (\<lambda>pg.
        rbind (on_pages (flag_loop (or_flag PM_ALLOCATED) (psize pg) page) s2) (\<lambda>s3.
          Inr (s3, page)))))
      else
        rbind (tq_split_page h page) (\<lambda>h'.
        case i of 0 \<Rightarrow> Inl Out_of_bounds | Suc i' \<Rightarrow> tq_alloc_loop j i' h'))"

declare tq_alloc_loop.simps [simp del]

definition tq_alloc_from_seg :: "linked_seg \<Rightarrow> u32 \<Rightarrow> (linked_seg \<times> nat option) result" where
  "tq_alloc_from_seg h n =
    (if c_log2 n < 0 then Inl Out_of_bounds
     else let j = nat (c_log2 n) in
       rbind (tq_find_queue h j) (\<lambda>i.
       if i = PM_NQUEUES then Inr (h, None)
       else rbind (tq_alloc_loop j i h) (\<lambda>(h', p). Inr (h', Some p))))"

partial_function (option) tq_free_loop :: "linked_seg \<Rightarrow> nat \<Rightarrow> linked_seg result option" where
  "tq_free_loop h page =
    (case pm_find_buddy (fst h) page of
      Inl e \<Rightarrow> Some (Inl e)
    | Inr None \<Rightarrow> Some (
        rbind (get_page (fst h) page) (\<lambda>pg.
        rbind (tq_insert_head (PM_QUEUE_OF pg) page h) (\<lambda>s1.
        rbind (on_pages (\<lambda>s. upd_page s page (or_flag PM_MANAGED)) s1) (\<lambda>s2.
          on_pages (flag_loop (clear_flag PM_ALLOCATED) (psize pg) page) s2))))
    | Inr (Some buddy) \<Rightarrow>
        (case rbind (get_page (fst h) buddy) (\<lambda>bpg.
              rbind (tq_remove (PM_QUEUE_OF bpg) buddy h) (\<lambda>s1.
              rbind (on_pages (\<lambda>s. upd_page s buddy (clear_flag PM_MANAGED)) s1) (\<lambda>s2.
              rbind (pm_merge_buddies (fst s2) page buddy) (\<lambda>(s, p). Inr ((s, snd s2), p))))) of
          Inl e \<Rightarrow> Some (Inl e)
        | Inr (h', page') \<Rightarrow> tq_free_loop h' page'))"

definition tq_free_from_seg :: "linked_seg \<Rightarrow> nat \<Rightarrow> linked_seg result option" where
  "tq_free_from_seg h page =
    (case get_page (fst h) page of
      Inl e \<Rightarrow> Some (Inl e)
    | Inr pg \<Rightarrow>
        if pm_flags pg AND PM_RESERVED \<noteq> 0
        then Some (Inl (Panicked ''trying to free reserved page: %p''))
        else if pm_flags pg AND PM_ALLOCATED = 0
        then Some (Inl (Panicked ''page is already free: %p''))
        else tq_free_loop h page)"

definition tq_reserve_page :: "linked_seg \<Rightarrow> nat \<Rightarrow> nat \<Rightarrow> linked_seg result" where
  "tq_reserve_page h i p =
    rbind (tq_remove (int i) p h) (\<lambda>s1.
    rbind (on_pages (\<lambda>s. upd_page s p (clear_flag PM_MANAGED)) s1) (\<lambda>s2.
    rbind (get_page (fst s2) p) (\<lambda>pg.
      on_pages (flag_loop (assign_flag PM_RESERVED) (psize pg) p) s2)))"

partial_function (option) tq_reserve_loop ::
  "u32 \<Rightarrow> u32 \<Rightarrow> nat \<Rightarrow> linked_seg \<Rightarrow> nat option \<Rightarrow> linked_seg result option" where
  "tq_reserve_loop start en i h cursor =
    (case cursor of
      None \<Rightarrow> Some (Inr h)
    | Some p \<Rightarrow>
      (case get_page (fst h) p of
        Inl e \<Rightarrow> Some (Inl e)
      | Inr pg \<Rightarrow>
        if start \<le> PG_START pg \<and> PG_END pg \<le> en then
          (case tq_reserve_page h i p of
            Inl e \<Rightarrow> Some (Inl e)
          | Inr h' \<Rightarrow> tq_reserve_loop start en i h' (TAILQ_FIRST i (snd h')))
        else if (PG_START pg < start \<and> start < PG_END pg) \<or> (PG_START pg < en \<and> en < PG_END pg) then
          (case tq_split_page h p of
            Inl e \<Rightarrow> Some (Inl e)
          | Inr h' \<Rightarrow> tq_reserve_loop start en i h' (TAILQ_FIRST i (snd h')))
        else tq_reserve_loop start en i h (TAILQ_NEXT p (snd h))))"

fun tq_reserve_queues :: "u32 \<Rightarrow> u32 \<Rightarrow> nat \<Rightarrow> linked_seg \<Rightarrow> linked_seg result option" where
  "tq_reserve_queues start en 0 h = Some (Inr h)"
| "tq_reserve_queues start en (Suc i) h =
     (case tq_reserve_loop start en i h (TAILQ_FIRST i (snd h)) of
       None \<Rightarrow> None
     | Some (Inl e) \<Rightarrow> Some (Inl e)
     | Some (Inr h') \<Rightarrow> tq_reserve_queues start en i h')"

definition tq_seg_reserve :: "linked_seg \<Rightarrow> u32 \<Rightarrow> u32 \<Rightarrow> linked_seg result option" where
  "tq_seg_reserve h start en = tq_reserve_queues start en PM_NQUEUES h"

section \<open>Links and sequences\<close>

definition separated :: "nat list list \<Rightarrow> bool" where
  "separated qs \<longleftrightarrow> (\<forall>i < length qs. distinct (qs ! i)) \<and>
     (\<forall>i < length qs. \<forall>j < length qs. i \<noteq> j \<longrightarrow> set (qs ! i) \<inter> set (qs ! j) = {})"

lemma separated_disjoint:
  "separated qs \<Longrightarrow> i < length qs \<Longrightarrow> j < length qs \<Longrightarrow> i \<noteq> j \<Longrightarrow> set (qs ! i) \<inter> set (qs ! j) = {}"
  by (simp add: separated_def)

definition queued :: "pm_seg \<Rightarrow> linked_seg \<Rightarrow> bool" where
  "queued seg h \<longleftrightarrow> length (freeq seg) = PM_NQUEUES \<and> (fst h)\<lparr>freeq := freeq seg\<rparr> = seg \<and>
     (\<forall>i < PM_NQUEUES. tailq (snd h) i (freeq seg ! i))"

lemma separated_inv:
  assumes "seg_shape seg" "buddy_inv (seg_view seg) A P"
  shows "separated (freeq seg)"
proof -
  have "p \<notin> set (freeq seg ! j)" if "i < PM_NQUEUES" "j < PM_NQUEUES" "i \<noteq> j" "p \<in> set (freeq seg ! i)" for i j p
    using buddy_same [OF assms(2), of "(p, i)" "(p, j)" p] that by (auto simp: queue_in_view)
  then show ?thesis using assms(1) by (auto simp: separated_def seg_shape_def)
qed

lemma queued_first: "queued seg h \<Longrightarrow> i < PM_NQUEUES \<Longrightarrow> TAILQ_FIRST i (snd h) = head_opt (freeq seg ! i)"
  unfolding TAILQ_FIRST_def by (rule tailq_first) (simp add: queued_def)

lemma queued_empty: "queued seg h \<Longrightarrow> i < PM_NQUEUES \<Longrightarrow> TAILQ_EMPTY i (snd h) \<longleftrightarrow> freeq seg ! i = []"
  using queued_first [of seg h i] by (cases "freeq seg ! i") (simp_all add: TAILQ_EMPTY_def TAILQ_FIRST_def)

lemma queued_next:
  "queued seg h \<Longrightarrow> i < PM_NQUEUES \<Longrightarrow> freeq seg ! i = ds @ p # rs \<Longrightarrow> TAILQ_NEXT p (snd h) = head_opt rs"
  unfolding TAILQ_NEXT_def queued_def by (metis tailq_nxt)

lemma other_queues: "fst h\<lparr>freeq := freeq seg\<rparr> = seg \<Longrightarrow> fst h\<lparr>freeq := q\<rparr> = seg\<lparr>freeq := q\<rparr>"
proof -
  assume e: "fst h\<lparr>freeq := freeq seg\<rparr> = seg"
  have "seg\<lparr>freeq := q\<rparr> = fst h\<lparr>freeq := freeq seg, freeq := q\<rparr>" by (simp only: e)
  then show ?thesis by simp
qed

lemma queued_insert:
  assumes l: "queued seg h" and r: "q_insert_head i p seg = Inr seg'" and sep: "separated (freeq seg')"
  shows "\<exists>h'. tq_insert_head i p h = Inr h' \<and> queued seg' h'"
proof -
  let ?q = "freeq seg" and ?i = "nat i"
  have n: "length ?q = PM_NQUEUES" and t: "\<And>k. k < PM_NQUEUES \<Longrightarrow> tailq (snd h) k (?q ! k)" using l by (auto simp: queued_def)
  have i: "0 \<le> i" "i < int PM_NQUEUES" and s': "seg' = seg\<lparr>freeq := ?q[?i := p # ?q ! ?i]\<rparr>"
    using r n by (auto simp: q_insert_head_def PM_FREEQ_def split: if_splits)
  then have ni: "?i < PM_NQUEUES" by linarith
  have fresh: "p \<notin> set (?q ! ?i)"
    using sep ni n unfolding s' separated_def by (auto dest: spec [of _ ?i])
  have others: "p \<notin> set (?q ! k) \<and> set (?q ! ?i) \<inter> set (?q ! k) = {}" if k: "k < PM_NQUEUES" "k \<noteq> ?i" for k
  proof -
    have "length (freeq seg') = PM_NQUEUES" using n by (simp add: s')
    then have "set (freeq seg' ! ?i) \<inter> set (freeq seg' ! k) = {}" using separated_disjoint [OF sep, of ?i k] k ni by simp
    then show ?thesis using k ni n by (simp add: s')
  qed
  have "tailq (TAILQ_INSERT_HEAD ?i p (snd h)) k (freeq seg' ! k)" if "k < PM_NQUEUES" for k
    using TAILQ_INSERT_HEAD_repr [OF t [OF ni] fresh] TAILQ_INSERT_HEAD_frame [OF t [OF ni] t [OF that]] others [OF that] that n
    by (cases "k = ?i") (simp_all add: s' ni)
  then show ?thesis using i l n other_queues by (auto simp: tq_insert_head_def queued_def s')
qed

lemma queued_remove:
  assumes l: "queued seg h" and r: "q_remove i p seg = Inr seg'" and sep: "separated (freeq seg)"
  shows "\<exists>h'. tq_remove i p h = Inr h' \<and> queued seg' h'"
proof -
  let ?q = "freeq seg" and ?i = "nat i"
  have n: "length ?q = PM_NQUEUES" and t: "\<And>k. k < PM_NQUEUES \<Longrightarrow> tailq (snd h) k (?q ! k)" using l by (auto simp: queued_def)
  have i: "0 \<le> i" "i < int PM_NQUEUES" and p: "p \<in> set (?q ! ?i)" and s': "seg' = seg\<lparr>freeq := ?q[?i := remove1 p (?q ! ?i)]\<rparr>"
    using r n by (auto simp: q_remove_def PM_FREEQ_def split: if_splits)
  then have ni: "?i < PM_NQUEUES" by linarith
  obtain as bs where q: "?q ! ?i = as @ p # bs" using p by (meson split_list)
  have "distinct (?q ! ?i)" using sep ni n by (simp add: separated_def)
  then have rm: "remove1 p (?q ! ?i) = as @ bs" using q by (simp add: remove1_append)
  have ti: "tailq (TAILQ_REMOVE ?i p (snd h)) ?i (as @ bs)" using TAILQ_REMOVE_repr [of "snd h" ?i as p bs] t [OF ni] q by simp
  have "tailq (TAILQ_REMOVE ?i p (snd h)) k (?q ! k)" if "k < PM_NQUEUES" "k \<noteq> ?i" for k
    by (rule TAILQ_REMOVE_frame [OF t [OF ni] t [OF that(1)] p that(2)]) (use sep that ni n in \<open>simp add: separated_def\<close>)
  then have "tailq (TAILQ_REMOVE ?i p (snd h)) k (freeq seg' ! k)" if "k < PM_NQUEUES" for k
    using that n ti rm by (cases "k = ?i") (simp_all add: s' ni)
  then show ?thesis using i l n other_queues by (auto simp: tq_remove_def queued_def s')
qed

section \<open>Operations that only touch pages\<close>

definition page_op :: "(pm_seg \<Rightarrow> pm_seg result) \<Rightarrow> bool" where
  "page_op f \<longleftrightarrow> (\<forall>seg q. f (seg\<lparr>freeq := q\<rparr>) = rbind (f seg) (\<lambda>s. Inr (s\<lparr>freeq := q\<rparr>)))"

lemma page_op_upd: "page_op (\<lambda>s. upd_page s p f)"
  by (simp add: page_op_def upd_page_def)

lemma page_op_flag: "page_op (flag_loop f n p)"
proof -
  have "flag_loop f n p (seg\<lparr>freeq := q\<rparr>) = rbind (flag_loop f n p seg) (\<lambda>s. Inr (s\<lparr>freeq := q\<rparr>))" for seg q
  proof (induction f n p seg rule: flag_loop.induct)
    case (1 f n p seg)
    have u: "upd_page (seg\<lparr>freeq := q\<rparr>) p f = rbind (upd_page seg p f) (\<lambda>s. Inr (s\<lparr>freeq := q\<rparr>))"
      using page_op_upd by (simp add: page_op_def)
    show ?case
    proof (cases "upd_page seg p f")
      case (Inl e)
      then show ?thesis using u by (subst (1 2) flag_loop.simps) simp
    next
      case (Inr s)
      show ?thesis
      proof (cases "n - 1 = 0")
        case True
        then show ?thesis using u Inr by (subst (1 2) flag_loop.simps) simp
      next
        case False
        then show ?thesis using u Inr 1 [of s] by (subst (1 2) flag_loop.simps) simp
      qed
    qed
  qed
  then show ?thesis by (simp add: page_op_def)
qed

lemma queued_same:
  assumes "queued seg h"
  shows "pages (fst h) = pages seg" "npages (fst h) = npages seg" "get_page (fst h) p = get_page seg p"
    "pm_find_buddy (fst h) p = pm_find_buddy seg p"
proof -
  have e: "seg = fst h\<lparr>freeq := freeq seg\<rparr>" using assms by (simp add: queued_def)
  show p: "pages (fst h) = pages seg" "npages (fst h) = npages seg" by (subst e, simp)+
  then have g: "get_page (fst h) = get_page seg" by (simp add: get_page_def fun_eq_iff)
  then show "get_page (fst h) p = get_page seg p" by simp
  show "pm_find_buddy (fst h) p = pm_find_buddy seg p" unfolding pm_find_buddy_def g p by (rule refl)
qed

lemma queued_pages:
  assumes l: "queued seg h" and f: "page_op f" and r: "f seg = Inr seg'"
  shows "\<exists>h'. on_pages f h = Inr h' \<and> queued seg' h' \<and> freeq seg' = freeq seg"
proof -
  have e: "seg = fst h\<lparr>freeq := freeq seg\<rparr>" using l by (simp add: queued_def)
  have "rbind (f (fst h)) (\<lambda>s. Inr (s\<lparr>freeq := freeq seg\<rparr>)) = Inr seg'"
    using f r e unfolding page_op_def by metis
  then obtain t where "f (fst h) = Inr t" "seg' = t\<lparr>freeq := freeq seg\<rparr>" by (auto simp: rbind_Inr_iff)
  then show ?thesis using l by (auto simp: on_pages_def queued_def)
qed

lemmas queued_upd = queued_pages [OF _ page_op_upd] and queued_flag = queued_pages [OF _ page_op_flag]

section \<open>Splitting and allocating\<close>

lemma separated_less:
  assumes "separated qs" "length qs' = length qs"
    and "\<And>k. k < length qs \<Longrightarrow> set (qs' ! k) \<subseteq> set (qs ! k) \<and> (distinct (qs ! k) \<longrightarrow> distinct (qs' ! k))"
  shows "separated qs'"
proof -
  have "set (qs' ! i) \<inter> set (qs' ! j) = {}" if "i < length qs" "j < length qs" "i \<noteq> j" for i j
    using separated_disjoint [OF assms(1) that] assms(3) [OF that(1)] assms(3) [OF that(2)] by blast
  then show ?thesis using assms by (simp add: separated_def)
qed

lemma q_insert_separated:
  assumes "q_insert_head i p seg = Inr seg'" "separated (freeq seg')"
  shows "separated (freeq seg)"
proof -
  let ?q = "freeq seg"
  have s': "freeq seg' = ?q[nat i := p # ?q ! nat i]" and i: "nat i < length ?q"
    using assms(1) by (auto simp: q_insert_head_def PM_FREEQ_def split: if_splits)
  show ?thesis
  proof (rule separated_less [OF assms(2)])
    fix k assume "k < length (freeq seg')"
    then show "set (?q ! k) \<subseteq> set (freeq seg' ! k) \<and> (distinct (freeq seg' ! k) \<longrightarrow> distinct (?q ! k))"
      using i by (cases "k = nat i") (auto simp: s')
  qed (simp add: s')
qed

lemma q_remove_separated:
  assumes "q_remove i p seg = Inr seg'" "separated (freeq seg)"
  shows "separated (freeq seg')"
proof -
  let ?q = "freeq seg"
  have s': "freeq seg' = ?q[nat i := remove1 p (?q ! nat i)]" and i: "nat i < length ?q"
    using assms(1) by (auto simp: q_remove_def PM_FREEQ_def split: if_splits)
  show ?thesis
  proof (rule separated_less [OF assms(2)])
    fix k assume "k < length ?q"
    then show "set (freeq seg' ! k) \<subseteq> set (?q ! k) \<and> (distinct (?q ! k) \<longrightarrow> distinct (freeq seg' ! k))"
      using i set_remove1_subset [of p "?q ! nat i"] by (cases "k = nat i") (auto simp: s')
  qed (simp add: s')
qed

lemma tq_split_ok:
  assumes l: "queued seg h" and r: "pm_split_page seg p = Inr seg'" and sep: "separated (freeq seg)" "separated (freeq seg')"
  shows "\<exists>h'. tq_split_page h p = Inr h' \<and> queued seg' h'"
proof -
  obtain pg s1 s2 s3 pg' s4 bpg s5 where
    a: "get_page seg p = Inr pg" "q_remove (PM_QUEUE_OF pg) p seg = Inr s1"
      "upd_page s1 p (set_size (psize pg div 2)) = Inr s2"
      "upd_page s2 (p + unat (psize pg div 2)) (set_size (psize pg div 2)) = Inr s3" "get_page s3 p = Inr pg'"
      "q_insert_head (PM_QUEUE_OF pg') p s3 = Inr s4" "get_page s4 (p + unat (psize pg div 2)) = Inr bpg"
      "q_insert_head (PM_QUEUE_OF bpg) (p + unat (psize pg div 2)) s4 = Inr s5"
      "upd_page s5 (p + unat (psize pg div 2)) (or_flag PM_MANAGED) = Inr seg'"
    using r by (auto simp: pm_split_page_def Let_def rbind_Inr_iff)
  obtain h1 where 1: "tq_remove (PM_QUEUE_OF pg) p h = Inr h1" "queued s1 h1" using queued_remove [OF l a(2) sep(1)] by blast
  obtain h2 where 2: "on_pages (\<lambda>s. upd_page s p (set_size (psize pg div 2))) h1 = Inr h2" "queued s2 h2"
    using queued_upd [OF 1(2) a(3)] by blast
  obtain h3 where 3: "on_pages (\<lambda>s. upd_page s (p + unat (psize pg div 2)) (set_size (psize pg div 2))) h2 = Inr h3" "queued s3 h3"
    using queued_upd [OF 2(2) a(4)] by blast
  have "freeq seg' = freeq s5" using a(9) by (auto simp: upd_page_def split: if_splits)
  then have s5: "separated (freeq s5)" using sep(2) by simp
  have s4: "separated (freeq s4)" by (rule q_insert_separated [OF a(8) s5])
  obtain h4 where 4: "tq_insert_head (PM_QUEUE_OF pg') p h3 = Inr h4" "queued s4 h4" using queued_insert [OF 3(2) a(6) s4] by blast
  obtain h5 where 5: "tq_insert_head (PM_QUEUE_OF bpg) (p + unat (psize pg div 2)) h4 = Inr h5" "queued s5 h5"
    using queued_insert [OF 4(2) a(8) s5] by blast
  obtain h6 where 6: "on_pages (\<lambda>s. upd_page s (p + unat (psize pg div 2)) (or_flag PM_MANAGED)) h5 = Inr h6" "queued seg' h6"
    using queued_upd [OF 5(2) a(9)] by blast
  show ?thesis
    using 1 2 3 4 5 6 a queued_same(3) [OF l] queued_same(3) [OF 3(2)] queued_same(3) [OF 4(2)] by (simp add: tq_split_page_def Let_def)
qed

lemma tq_find_queue_ok: "queued seg h \<Longrightarrow> tq_find_queue h i = find_queue seg i"
proof (induction seg i rule: find_queue.induct)
  case (1 seg i)
  have q: "i < PM_NQUEUES \<Longrightarrow> PM_FREEQ seg (int i) = Inr (freeq seg ! i)"
    using "1.prems" by (simp add: PM_FREEQ_def queued_def)
  have "tq_find_queue h (Suc i) = find_queue seg (Suc i)" if "i < PM_NQUEUES" "freeq seg ! i = []"
    using "1.IH" [OF that(1) q [OF that(1)] _ "1.prems"] that by simp
  then show ?case
    using queued_empty [OF "1.prems", of i] q by (subst find_queue.simps, subst tq_find_queue.simps) auto
qed

lemma tq_take_ok:
  assumes l: "queued seg h" and sep: "separated (freeq seg)"
    and r: "q_remove i p seg = Inr s1" "upd_page s1 p f = Inr s2" "get_page s2 p = Inr pg" "flag_loop g (psize pg) p s2 = Inr s3"
  shows "\<exists>h1 h2 h3. tq_remove i p h = Inr h1 \<and> on_pages (\<lambda>s. upd_page s p f) h1 = Inr h2 \<and> get_page (fst h2) p = Inr pg \<and>
    on_pages (flag_loop g (psize pg) p) h2 = Inr h3 \<and> queued s3 h3"
proof -
  obtain h1 where 1: "tq_remove i p h = Inr h1" "queued s1 h1" using queued_remove [OF l r(1) sep] by blast
  obtain h2 where 2: "on_pages (\<lambda>s. upd_page s p f) h1 = Inr h2" "queued s2 h2" using queued_upd [OF 1(2) r(2)] by blast
  obtain h3 where "on_pages (flag_loop g (psize pg) p) h2 = Inr h3" "queued s3 h3" using queued_flag [OF 2(2) r(4)] by blast
  moreover have "get_page (fst h2) p = Inr pg" using r(3) queued_same(3) [OF 2(2)] by simp
  ultimately show ?thesis using 1(1) 2(1) by blast
qed

lemma tq_alloc_loop_ok:
  assumes "queued seg h" "seg_shape seg" "buddy_inv (seg_view seg) A P" "i < PM_NQUEUES" "alloc_loop j i seg = Inr (seg', p)"
  shows "\<exists>h'. tq_alloc_loop j i h = Inr (h', p) \<and> queued seg' h'"
  using assms
proof (induction i arbitrary: seg h)
  case (0 seg h)
  note sep = separated_inv [OF 0(2,3)]
  obtain q ps where q: "freeq seg ! 0 = q # ps" "PM_FREEQ seg (int 0) = Inr (q # ps)"
    using 0(5) PM_FREEQ_ok [OF 0(2,4)] by (cases "freeq seg ! 0") (auto simp: alloc_loop.simps)
  have f: "TAILQ_FIRST 0 (snd h) = Some q" using queued_first [OF 0(1,4)] q by simp
  obtain s1 s2 pg where r: "q_remove (int 0) q seg = Inr s1" "upd_page s1 q (clear_flag PM_MANAGED) = Inr s2" "get_page s2 q = Inr pg"
    "flag_loop (or_flag PM_ALLOCATED) (psize pg) q s2 = Inr seg'" and j: "j = 0" "q = p"
    using 0(5) q by (subst (asm) alloc_loop.simps) (auto simp: rbind_Inr_iff split: if_splits)
  show ?case using tq_take_ok [OF 0(1) sep r] f j 0(4) by (subst tq_alloc_loop.simps) auto
next
  case (Suc i seg h)
  note sep = separated_inv [OF Suc.prems(2,3)]
  obtain q ps where q: "freeq seg ! Suc i = q # ps" "PM_FREEQ seg (int (Suc i)) = Inr (q # ps)"
    using Suc.prems(5) PM_FREEQ_ok [OF Suc.prems(2,4)] by (cases "freeq seg ! Suc i") (auto simp: alloc_loop.simps)
  have f: "TAILQ_FIRST (Suc i) (snd h) = Some q" using queued_first [OF Suc.prems(1,4)] q by simp
  show ?case
  proof (cases "Suc i = j")
    case True
    obtain s1 s2 pg where r: "q_remove (int (Suc i)) q seg = Inr s1" "upd_page s1 q (clear_flag PM_MANAGED) = Inr s2" "get_page s2 q = Inr pg"
      "flag_loop (or_flag PM_ALLOCATED) (psize pg) q s2 = Inr seg'" and p: "q = p"
      using Suc.prems(5) q True by (subst (asm) alloc_loop.simps) (auto simp: rbind_Inr_iff)
    show ?thesis using tq_take_ok [OF Suc.prems(1) sep r] f p True Suc.prems(4) by (subst tq_alloc_loop.simps) auto
  next
    case False
    have b: "(q, Suc i) \<in> bfree (seg_view seg)" using q Suc.prems(4) by (simp add: queue_in_view)
    obtain s' where s': "pm_split_page seg q = Inr s'" "seg_shape s'" "seg_view s' = b_split q i (seg_view seg)"
      using pm_split_page_steps [OF Suc.prems(2,3) b] by (rule stepsE)
    have inv: "buddy_inv (seg_view s') A P" using split_inv [OF Suc.prems(3) b] s'(3) by simp
    obtain h1 where h1: "tq_split_page h q = Inr h1" "queued s' h1"
      using tq_split_ok [OF Suc.prems(1) s'(1) sep separated_inv [OF s'(2) inv]] by blast
    have "alloc_loop j i s' = Inr (seg', p)"
      using Suc.prems(5) q s'(1) False by (subst (asm) alloc_loop.simps) simp
    then obtain h' where "tq_alloc_loop j i h1 = Inr (h', p)" "queued seg' h'"
      using Suc.IH [OF h1(2) s'(2) inv] Suc.prems(4) by auto
    then show ?thesis using h1 f False Suc.prems(4) by (subst tq_alloc_loop.simps) simp
  qed
qed

lemma tq_alloc_from_seg_ok:
  assumes "queued seg h" "seg_inv seg A" "pm_alloc_from_seg seg n = Inr (seg', res)" "c_log2 n < int PM_NQUEUES"
  shows "\<exists>h'. tq_alloc_from_seg h n = Inr (h', res) \<and> queued seg' h'"
proof -
  have i: "seg_shape seg" "buddy_inv (seg_view seg) A {}" using assms(2) by (simp_all add: seg_inv_def)
  have pos: "\<not> c_log2 n < 0" using assms(3) by (auto simp: pm_alloc_from_seg_def)
  obtain k where k: "find_queue seg (nat (c_log2 n)) = Inr k" using assms(3) pos by (auto simp: pm_alloc_from_seg_def Let_def rbind_Inr_iff)
  have "k \<le> PM_NQUEUES" using find_queue_ok [OF i(1), of "nat (c_log2 n)"] k assms(4) pos by auto
  show ?thesis
  proof (cases "k = PM_NQUEUES")
    case True
    then show ?thesis using assms k pos tq_find_queue_ok [OF assms(1)] by (auto simp: pm_alloc_from_seg_def tq_alloc_from_seg_def)
  next
    case False
    then obtain p where "alloc_loop (nat (c_log2 n)) k seg = Inr (seg', p)" "res = Some p"
      using assms(3) k pos by (auto simp: pm_alloc_from_seg_def rbind_Inr_iff)
    then show ?thesis
      using tq_alloc_loop_ok [OF assms(1) i, of k] \<open>k \<le> PM_NQUEUES\<close> False k pos tq_find_queue_ok [OF assms(1)]
      by (fastforce simp: tq_alloc_from_seg_def)
  qed
qed

section \<open>Freeing\<close>

lemma queued_merge:
  assumes l: "queued seg h" and r: "pm_merge_buddies seg p b = Inr (seg', q)"
  shows "\<exists>t. pm_merge_buddies (fst h) p b = Inr (t, q) \<and> queued seg' (t, snd h)"
proof -
  obtain p1 p2 where s: "(if p > b then c_swap p b else (p, b)) = (p1, p2)" by force
  have u: "upd_page seg p1 (\<lambda>pg. set_size (psize pg * 2) pg) = Inr seg'" and q: "q = p1"
    using r s by (auto simp: pm_merge_buddies_def rbind_Inr_iff)
  obtain h' where "on_pages (\<lambda>x. upd_page x p1 (\<lambda>pg. set_size (psize pg * 2) pg)) h = Inr h'" "queued seg' h'"
    using queued_upd [OF l u] by blast
  then show ?thesis using s q by (auto simp: on_pages_def rbind_Inr_iff pm_merge_buddies_def)
qed

lemma tq_put_ok:
  assumes l: "queued seg h" and r: "rbind (get_page seg p) (\<lambda>pg. rbind (q_insert_head (PM_QUEUE_OF pg) p seg) (\<lambda>s1.
      rbind (upd_page s1 p f) (\<lambda>s2. flag_loop g (psize pg) p s2))) = Inr seg'"
    and sep: "separated (freeq seg')"
  shows "\<exists>h'. rbind (get_page (fst h) p) (\<lambda>pg. rbind (tq_insert_head (PM_QUEUE_OF pg) p h) (\<lambda>s1.
      rbind (on_pages (\<lambda>s. upd_page s p f) s1) (\<lambda>s2. on_pages (flag_loop g (psize pg) p) s2))) = Inr h' \<and> queued seg' h'"
proof -
  obtain pg s1 s2 where a: "get_page seg p = Inr pg" "q_insert_head (PM_QUEUE_OF pg) p seg = Inr s1" "upd_page s1 p f = Inr s2"
    "flag_loop g (psize pg) p s2 = Inr seg'" using r by (auto simp: rbind_Inr_iff)
  have len: "length (freeq s1) = PM_NQUEUES"
    using a(2) l by (auto simp: q_insert_head_def queued_def rbind_Inr_iff)
  have "on_pages (\<lambda>s. upd_page s p f) (s1, snd h) = Inr (s2, snd h)" using a(3) by (simp add: on_pages_def)
  have q1: "freeq s2 = freeq s1" using a(3) by (auto simp: upd_page_def split: if_splits)
  have "rbind (flag_loop g (psize pg) p s2) (\<lambda>s. Inr (s\<lparr>freeq := freeq s2\<rparr>)) = flag_loop g (psize pg) p s2"
    using page_op_flag [of g "psize pg" p] unfolding page_op_def by (metis pm_seg.surjective pm_seg.update_convs(3))
  then have "seg'\<lparr>freeq := freeq s2\<rparr> = seg'" using a(4) by simp
  then have "freeq seg' = freeq s1" using q1 by (metis pm_seg.select_convs(3) pm_seg.surjective pm_seg.update_convs(3))
  then have "separated (freeq s1)" using sep by simp
  then obtain h1 where 1: "tq_insert_head (PM_QUEUE_OF pg) p h = Inr h1" "queued s1 h1" using queued_insert [OF l a(2)] by blast
  obtain h2 where 2: "on_pages (\<lambda>s. upd_page s p f) h1 = Inr h2" "queued s2 h2" using queued_upd [OF 1(2) a(3)] by blast
  obtain h3 where 3: "on_pages (flag_loop g (psize pg) p) h2 = Inr h3" "queued seg' h3" using queued_flag [OF 2(2) a(4)] by blast
  show ?thesis using 1 2 3 a(1) queued_same(3) [OF l] by simp
qed

lemma tq_free_loop_ok:
  assumes "queued seg h" "seg_shape seg" "buddy_inv (seg_view seg) A {(p, k)}"
  shows "\<exists>seg' h'. free_loop seg p = Some (Inr seg') \<and> tq_free_loop h p = Some (Inr h') \<and> queued seg' h'"
  using assms
proof (induction "PM_NQUEUES - k" arbitrary: seg h p k rule: less_induct)
  case less
  note l = less.prems(1) and sh = less.prems(2) and inv = less.prems(3)
  note fb = pm_find_buddy_ok [OF sh inv] and fb' = queued_same(4) [OF l, of p]
  show ?case
  proof (cases "mergeable (seg_view seg) p k")
    case False
    obtain seg' where r: "rbind (get_page seg p) (\<lambda>pg. rbind (q_insert_head (PM_QUEUE_OF pg) p seg) (\<lambda>s1.
        rbind (upd_page s1 p (or_flag PM_MANAGED)) (\<lambda>s2. flag_loop (clear_flag PM_ALLOCATED) (psize pg) p s2))) = Inr seg'"
      and s': "seg_shape seg'" "seg_view seg' = b_put p k (seg_view seg)"
      using put_steps [OF sh inv] by (rule stepsE)
    have "buddy_inv (seg_view seg') A {}" using put_inv [OF inv] s'(2) by simp
    from tq_put_ok [OF l r separated_inv [OF s'(1) this]] show ?thesis
      using False r fb fb' by (subst free_loop.simps, subst tq_free_loop.simps) auto
  next
    case True
    note m = True [unfolded mergeable_def]
    let ?b = "buddy_of p k" and ?m = "min p (buddy_of p k)"
    obtain s' where r: "rbind (get_page seg ?b) (\<lambda>bpg. rbind (q_remove (PM_QUEUE_OF bpg) ?b seg) (\<lambda>s1.
        rbind (upd_page s1 ?b (clear_flag PM_MANAGED)) (\<lambda>s2. pm_merge_buddies s2 p ?b))) = Inr (s', ?m)"
      and s': "seg_shape s'" "seg_view s' = b_merge p k (seg_view seg)"
      using merge_steps [OF sh inv True] by metis
    obtain bpg s1 s2 where a: "get_page seg ?b = Inr bpg" "q_remove (PM_QUEUE_OF bpg) ?b seg = Inr s1"
      "upd_page s1 ?b (clear_flag PM_MANAGED) = Inr s2" "pm_merge_buddies s2 p ?b = Inr (s', ?m)"
      using r by (auto simp: rbind_Inr_iff)
    obtain h1 where 1: "tq_remove (PM_QUEUE_OF bpg) ?b h = Inr h1" "queued s1 h1"
      using queued_remove [OF l a(2) separated_inv [OF sh inv]] by blast
    obtain h2 where 2: "on_pages (\<lambda>s. upd_page s ?b (clear_flag PM_MANAGED)) h1 = Inr h2" "queued s2 h2"
      using queued_upd [OF 1(2) a(3)] by blast
    obtain t where 3: "pm_merge_buddies (fst h2) p ?b = Inr (t, ?m)" "queued s' (t, snd h2)" using queued_merge [OF 2(2) a(4)] by blast
    have inv': "buddy_inv (seg_view s') A {(?m, Suc k)}" using merge_inv(2) [OF inv] m s'(2) by simp
    have "PM_NQUEUES - Suc k < PM_NQUEUES - k" using pending_block(5) [OF sh inv] by simp
    then obtain u h' where u: "free_loop s' ?m = Some (Inr u)" "tq_free_loop (t, snd h2) ?m = Some (Inr h')" "queued u h'"
      using less.hyps [OF _ 3(2) s'(1) inv'] by blast
    have "free_loop seg p = Some (Inr u)" using True r u(1) fb by (subst free_loop.simps) simp
    moreover have "tq_free_loop h p = Some (Inr h')"
      using True fb fb' u(2) 1(1) 2(1) 3(1) a(1) queued_same(3) [OF l, of ?b] by (subst tq_free_loop.simps) simp
    ultimately show ?thesis using u(3) by blast
  qed
qed

lemma tq_free_from_seg_ok:
  assumes "seg_inv seg A" "queued seg h" "(p, k) \<in> A"
  shows "\<exists>seg' h'. pm_free_from_seg seg p = Some (Inr seg') \<and> tq_free_from_seg h p = Some (Inr h') \<and> queued seg' h'"
proof -
  have sh: "seg_shape seg" and bi: "buddy_inv (seg_view seg) A {}" using assms(1) by (simp_all add: seg_inv_def)
  obtain seg' where r: "pm_free_from_seg seg p = Some (Inr seg')" using pm_free_from_seg_ok [OF assms(1,3)] by blast
  from tq_free_loop_ok [OF assms(2) sh pending_inv [OF bi assms(3)]] show ?thesis
    using r queued_same(3) [OF assms(2), of p] by (auto simp: pm_free_from_seg_def tq_free_from_seg_def split: sum.splits if_splits)
qed

section \<open>Reserving\<close>

lemma tq_reserve_page_ok:
  assumes "queued seg h" "separated (freeq seg)" "reserve_page seg i p = Inr seg'"
  shows "\<exists>h'. tq_reserve_page h i p = Inr h' \<and> queued seg' h'"
proof -
  obtain s1 s2 pg where r: "q_remove (int i) p seg = Inr s1" "upd_page s1 p (clear_flag PM_MANAGED) = Inr s2" "get_page s2 p = Inr pg"
    "flag_loop (assign_flag PM_RESERVED) (psize pg) p s2 = Inr seg'"
    using assms(3) by (auto simp: reserve_page_def rbind_Inr_iff)
  then show ?thesis using tq_take_ok [OF assms(1,2) r] by (auto simp: tq_reserve_page_def)
qed

lemma half_zero: "unat (w :: u32) = 1 \<Longrightarrow> w div 2 = 0"
  by (simp add: word_eq_iff_unat unat_div)

text \<open>A block of one page cannot be split: the order of its halves is negative.\<close>

lemma split_single:
  assumes sh: "seg_shape seg" and inv: "buddy_inv (seg_view seg) A P" and b: "(p, 0) \<in> bfree (seg_view seg)"
  shows "pm_split_page seg p \<noteq> Inr seg'"
proof
  assume r: "pm_split_page seg p = Inr seg'"
  note fb = free_block [OF sh inv b]
  obtain s1 s2 s3 pg' s4 where
    a: "upd_page s1 p (set_size 0) = Inr s2" "upd_page s2 p (set_size 0) = Inr s3" "get_page s3 p = Inr pg'"
      "q_insert_head (PM_QUEUE_OF pg') p s3 = Inr s4"
    using r fb(3) half_zero [of "psize (pages seg ! p)"] by (auto simp: pm_split_page_def Let_def rbind_Inr_iff get_page_ok [OF fb(2)])
  have "psize pg' = 0" using a(1-3) by (auto simp: upd_page_def get_page_def split: if_splits)
  then have "PM_QUEUE_OF pg' < 0" by (simp add: PM_QUEUE_OF_def c_log2_def c_ffs_def)
  then show False using a(4) by (simp add: q_insert_head_def PM_FREEQ_def)
qed

definition cursor_in :: "pm_seg \<Rightarrow> nat \<Rightarrow> nat option \<Rightarrow> bool" where
  "cursor_in seg i c \<longleftrightarrow> (\<forall>p. c = Some p \<longrightarrow> p \<in> set (freeq seg ! i))"

lemma head_in: "cursor_in seg i (head_opt (freeq seg ! i))"
  by (cases "freeq seg ! i") (simp_all add: cursor_in_def)

definition reserve_simulated :: "u32 \<Rightarrow> u32 \<Rightarrow> nat \<Rightarrow> block set \<Rightarrow> pm_seg \<Rightarrow> nat option \<Rightarrow> pm_seg \<Rightarrow> bool" where
  "reserve_simulated start en i A seg c seg' \<longleftrightarrow>
    (\<forall>h. queued seg h \<and> seg_shape seg \<and> buddy_inv (seg_view seg) A {} \<and> cursor_in seg i c \<longrightarrow>
      seg_shape seg' \<and> buddy_inv (seg_view seg') A {} \<and> (\<exists>h'. tq_reserve_loop start en i h c = Some (Inr h') \<and> queued seg' h'))"

lemma tq_reserve_step:
  assumes i: "i < PM_NQUEUES" and IH: "\<And>seg c r. rec seg c = Some (Inr r) \<Longrightarrow> reserve_simulated start en i A seg c r"
    and r: "(case get_page seg p of
        Inl e \<Rightarrow> Some (Inl e)
      | Inr pg \<Rightarrow>
        if start \<le> PG_START pg \<and> PG_END pg \<le> en then
          (case reserve_page seg i p of
            Inl e \<Rightarrow> Some (Inl e)
          | Inr seg' \<Rightarrow> rec seg' (queue_first seg' i))
        else if (PG_START pg < start \<and> start < PG_END pg) \<or> (PG_START pg < en \<and> en < PG_END pg) then
          (case pm_split_page seg p of
            Inl e \<Rightarrow> Some (Inl e)
          | Inr seg' \<Rightarrow> rec seg' (queue_first seg' i))
        else rec seg (queue_next seg i p)) = Some (Inr r)"
  shows "reserve_simulated start en i A seg (Some p) r"
  unfolding reserve_simulated_def
proof (intro allI impI)
  fix h assume h: "queued seg h \<and> seg_shape seg \<and> buddy_inv (seg_view seg) A {} \<and> cursor_in seg i (Some p)"
  then have l: "queued seg h" and sh: "seg_shape seg" and inv: "buddy_inv (seg_view seg) A {}" and p: "p \<in> set (freeq seg ! i)"
    by (simp_all add: cursor_in_def)
  have b: "(p, i) \<in> bfree (seg_view seg)" using p i by (simp add: queue_in_view)
  note sep = separated_inv [OF sh inv] and fb = free_block [OF sh inv b]
  let ?pg = "pages seg ! p"
  have g: "get_page seg p = Inr ?pg" "get_page (fst h) p = Inr ?pg" using get_page_ok [OF fb(2)] queued_same(3) [OF l] by simp_all
  have again: "seg_shape r \<and> buddy_inv (seg_view r) A {} \<and>
      (\<exists>h'. tq_reserve_loop start en i h1 (TAILQ_FIRST i (snd h1)) = Some (Inr h') \<and> queued r h')"
    if "queued s h1" "seg_shape s" "buddy_inv (seg_view s) A {}" "rec s (queue_first s i) = Some (Inr r)" for s h1
  proof -
    have "queue_first s i = head_opt (freeq s ! i)" using that(2) i by (simp add: queue_first_def seg_shape_def)
    then show ?thesis using IH [OF that(4)] that queued_first [OF that(1) i] head_in unfolding reserve_simulated_def by metis
  qed
  consider (within) "start \<le> PG_START ?pg \<and> PG_END ?pg \<le> en"
    | (across) "\<not> (start \<le> PG_START ?pg \<and> PG_END ?pg \<le> en)"
        "(PG_START ?pg < start \<and> start < PG_END ?pg) \<or> (PG_START ?pg < en \<and> en < PG_END ?pg)"
    | (outside) "\<not> (start \<le> PG_START ?pg \<and> PG_END ?pg \<le> en)"
        "\<not> ((PG_START ?pg < start \<and> start < PG_END ?pg) \<or> (PG_START ?pg < en \<and> en < PG_END ?pg))" by blast
  then show "seg_shape r \<and> buddy_inv (seg_view r) A {} \<and>
      (\<exists>h'. tq_reserve_loop start en i h (Some p) = Some (Inr h') \<and> queued r h')"
  proof cases
    case within
    obtain s where s: "reserve_page seg i p = Inr s" "seg_shape s" "seg_view s = b_reserve p i (seg_view seg)"
      using reserve_page_steps [OF sh inv b] by (rule stepsE)
    have inv': "buddy_inv (seg_view s) A {}" using reserve_inv [OF inv b] s(3) by simp
    obtain h1 where h1: "tq_reserve_page h i p = Inr h1" "queued s h1" using tq_reserve_page_ok [OF l sep s(1)] by blast
    have "rec s (queue_first s i) = Some (Inr r)" using r g(1) within s(1) by simp
    from again [OF h1(2) s(2) inv' this] show ?thesis using g(2) within h1(1) by (subst tq_reserve_loop.simps) simp
  next
    case across
    obtain s where s: "pm_split_page seg p = Inr s" using r g(1) across by (cases "pm_split_page seg p") simp_all
    then obtain k where k: "i = Suc k" using split_single [OF sh inv, of p s] b by (cases i) auto
    obtain t where t: "pm_split_page seg p = Inr t" "seg_shape t" "seg_view t = b_split p k (seg_view seg)"
      using pm_split_page_steps [OF sh inv b [unfolded k]] by (rule stepsE)
    have inv': "buddy_inv (seg_view t) A {}" using split_inv [OF inv b [unfolded k]] t(3) by simp
    obtain h1 where h1: "tq_split_page h p = Inr h1" "queued t h1"
      using tq_split_ok [OF l t(1) sep separated_inv [OF t(2) inv']] by blast
    have "rec t (queue_first t i) = Some (Inr r)" using r g(1) across t(1) by simp
    from again [OF h1(2) t(2) inv' this] show ?thesis
      by (subst tq_reserve_loop.simps)
        (simp only: g(2) h1(1) option.case sum.case if_not_P [OF across(1)] if_P [OF across(2)])
  next
    case outside
    obtain ds rs where q: "freeq seg ! i = ds @ p # rs" using p by (meson split_list)
    have "p \<notin> set ds" using sh i q by (auto simp: seg_shape_def)
    then have n: "queue_next seg i p = head_opt rs" "TAILQ_NEXT p (snd h) = head_opt rs"
      using dropWhile_to [of p ds rs] q sh i queued_next [OF l i q] by (simp_all add: queue_next_def seg_shape_def)
    have c: "cursor_in seg i (head_opt rs)" using q by (cases rs) (simp_all add: cursor_in_def)
    have "rec seg (head_opt rs) = Some (Inr r)" using r g(1) outside n(1) by (simp only: sum.case if_False)
    from IH [OF this] c l sh inv obtain h' where "seg_shape r \<and> buddy_inv (seg_view r) A {}"
      "tq_reserve_loop start en i h (head_opt rs) = Some (Inr h')" "queued r h'" unfolding reserve_simulated_def by blast
    then show ?thesis using g(2) outside n(2) by (subst tq_reserve_loop.simps) (simp only: option.case sum.case if_False simp_thms, blast)
  qed
qed

lemma tq_reserve_loop_ok:
  assumes "i < PM_NQUEUES" "reserve_loop start en i seg c = Some (Inr seg')"
  shows "reserve_simulated start en i A seg c seg'"
proof -
  have "i < PM_NQUEUES \<longrightarrow> (\<forall>t. (Inr seg' :: pm_seg result) = Inr t \<longrightarrow> reserve_simulated start en i A seg c t)"
  proof (rule reserve_loop.raw_induct [where P = "\<lambda>start en i seg c r. i < PM_NQUEUES \<longrightarrow>
      (\<forall>t. r = Inr t \<longrightarrow> reserve_simulated start en i A seg c t)", OF _ assms(2)], intro impI allI)
    fix rec start en i seg c r t
    assume IH: "\<And>start en i seg c r. rec start en i seg c = Some r \<Longrightarrow> i < PM_NQUEUES \<longrightarrow>
        (\<forall>t. r = Inr t \<longrightarrow> reserve_simulated start en i A seg c t)"
      and step: "(case c of None \<Rightarrow> Some (Inr seg) | Some p \<Rightarrow>
        (case get_page seg p of
          Inl e \<Rightarrow> Some (Inl e)
        | Inr pg \<Rightarrow>
          if start \<le> PG_START pg \<and> PG_END pg \<le> en then
            (case reserve_page seg i p of Inl e \<Rightarrow> Some (Inl e)
            | Inr seg' \<Rightarrow> rec start en i seg' (queue_first seg' i))
          else if (PG_START pg < start \<and> start < PG_END pg) \<or> (PG_START pg < en \<and> en < PG_END pg) then
            (case pm_split_page seg p of Inl e \<Rightarrow> Some (Inl e)
            | Inr seg' \<Rightarrow> rec start en i seg' (queue_first seg' i))
          else rec start en i seg (queue_next seg i p))) = Some r"
      and i: "i < PM_NQUEUES" and t: "r = Inr t"
    show "reserve_simulated start en i A seg c t"
    proof (cases c)
      case None
      then show ?thesis using step t by (auto simp: reserve_simulated_def tq_reserve_loop.simps)
    next
      case (Some p)
      have "rec start en i s d = Some (Inr u) \<Longrightarrow> reserve_simulated start en i A s d u" for s d u using IH i by blast
      from tq_reserve_step [OF i this] show ?thesis using step t Some by simp
    qed
  qed
  then show ?thesis using assms(1) by simp
qed

lemma tq_reserve_queues_ok:
  assumes "queued seg h" "seg_shape seg" "buddy_inv (seg_view seg) A {}" "n \<le> PM_NQUEUES"
    and "reserve_queues start en n seg = Some (Inr seg')"
  shows "\<exists>h'. tq_reserve_queues start en n h = Some (Inr h') \<and> queued seg' h'"
  using assms
proof (induction n arbitrary: seg h)
  case 0
  then show ?case by simp
next
  case (Suc n)
  then have n: "n < PM_NQUEUES" by simp
  have f: "queue_first seg n = head_opt (freeq seg ! n)" "TAILQ_FIRST n (snd h) = head_opt (freeq seg ! n)"
    using Suc.prems(2) n queued_first [OF Suc.prems(1) n] by (simp_all add: queue_first_def seg_shape_def)
  obtain s where s: "reserve_loop start en n seg (queue_first seg n) = Some (Inr s)" "reserve_queues start en n s = Some (Inr seg')"
    using Suc.prems(5) by (auto split: option.splits sum.splits)
  obtain h1 where h1: "seg_shape s" "buddy_inv (seg_view s) A {}"
    "tq_reserve_loop start en n h (TAILQ_FIRST n (snd h)) = Some (Inr h1)" "queued s h1"
    using tq_reserve_loop_ok [OF n s(1), of A, unfolded reserve_simulated_def f(1)] Suc.prems(1-3) head_in [of seg n]
    unfolding f(2) by blast
  then show ?case using Suc.IH [OF h1(4,1,2) _ s(2)] Suc.prems(4) by simp
qed

lemma tq_seg_reserve_ok:
  assumes "seg_inv seg A" "queued seg h" "pm_seg_reserve seg start en = Some (Inr seg')"
  shows "\<exists>h'. tq_seg_reserve h start en = Some (Inr h') \<and> queued seg' h'"
  using tq_reserve_queues_ok [OF assms(2) _ _ order_refl] assms(1,3)
  by (auto simp: seg_inv_def pm_seg_reserve_def tq_seg_reserve_def)

section \<open>Initialising\<close>

lemma init_queues: "k < n \<Longrightarrow> tailq (fold TAILQ_INIT [0..<n] s) k []"
proof (induction n)
  case (Suc n)
  have step: "tailq (TAILQ_INIT n t) k []" if "k \<noteq> n \<Longrightarrow> tailq t k []" for t
    using that tailq_init [of n t] by (cases "k = n") (simp_all add: tailq_def chain_def TAILQ_INIT_def)
  have "tailq (TAILQ_INIT n (fold TAILQ_INIT [0..<n] s)) k []" by (rule step) (use Suc in simp)
  then show ?case by simp
qed simp

lemma fill_queue_separated:
  "fill_queue i c n seg = Inr (seg', c', n') \<Longrightarrow> separated (freeq seg') \<Longrightarrow> separated (freeq seg)"
proof (induction i c n seg rule: fill_queue.induct)
  case (1 i c n seg)
  show ?case
  proof (cases "push_bit i 1 \<le> n \<and> i < 32")
    case True
    then obtain s1 s2 where r: "q_insert_head (int i) (unat c) seg = Inr s1"
      "upd_page s1 (unat c) (or_flag PM_MANAGED) = Inr s2"
      "fill_queue i (c + push_bit i 1) (n - push_bit i 1) s2 = Inr (seg', c', n')"
      using "1.prems"(1) by (subst (asm) fill_queue.simps) (auto simp: Let_def rbind_Inr_iff)
    have "separated (freeq s2)" using "1.IH" [OF refl True r(1,2,3) "1.prems"(2)] .
    then have "separated (freeq s1)" using r(2) by (auto simp: upd_page_def split: if_splits)
    then show ?thesis using q_insert_separated [OF r(1)] by simp
  next
    case False
    then show ?thesis using "1.prems" by (subst (asm) fill_queue.simps) (auto simp: Let_def)
  qed
qed

lemma tq_fill_queue_ok:
  "queued seg h \<Longrightarrow> fill_queue i c n seg = Inr (seg', c', n') \<Longrightarrow> separated (freeq seg') \<Longrightarrow>
    \<exists>h'. tq_fill_queue i c n h = Inr (h', c', n') \<and> queued seg' h'"
proof (induction i c n seg arbitrary: h rule: fill_queue.induct)
  case (1 i c n seg)
  show ?case
  proof (cases "push_bit i 1 \<le> n \<and> i < 32")
    case True
    then obtain s1 s2 where r: "q_insert_head (int i) (unat c) seg = Inr s1"
      "upd_page s1 (unat c) (or_flag PM_MANAGED) = Inr s2"
      "fill_queue i (c + push_bit i 1) (n - push_bit i 1) s2 = Inr (seg', c', n')"
      using "1.prems"(2) by (subst (asm) fill_queue.simps) (auto simp: Let_def rbind_Inr_iff)
    have "separated (freeq s2)" by (rule fill_queue_separated [OF r(3) "1.prems"(3)])
    then have "separated (freeq s1)" using r(2) by (auto simp: upd_page_def split: if_splits)
    then obtain h1 where h1: "tq_insert_head (int i) (unat c) h = Inr h1" "queued s1 h1"
      using queued_insert [OF "1.prems"(1) r(1)] by blast
    obtain h2 where h2: "on_pages (\<lambda>s. upd_page s (unat c) (or_flag PM_MANAGED)) h1 = Inr h2" "queued s2 h2"
      using queued_upd [OF h1(2) r(2)] by blast
    obtain h' where h': "tq_fill_queue i (c + push_bit i 1) (n - push_bit i 1) h2 = Inr (h', c', n')" "queued seg' h'"
      using "1.IH" [OF refl True r(1,2) h2(2) r(3) "1.prems"(3)] by blast
    have "tq_fill_queue i c n h = Inr (h', c', n')"
      using True h1(1) h2(1) h'(1) by (subst tq_fill_queue.simps) (simp add: Let_def)
    then show ?thesis using h'(2) by blast
  next
    case False
    then have "fill_queue i c n seg = Inr (seg, c, n)" "tq_fill_queue i c n h = Inr (h, c, n)"
      by (subst fill_queue.simps tq_fill_queue.simps, auto simp: Let_def)+
    then show ?thesis using "1.prems" by auto
  qed
qed

lemma fill_queues_separated:
  "fill_queues i c n seg = Inr seg' \<Longrightarrow> separated (freeq seg') \<Longrightarrow> separated (freeq seg)"
  by (induction i arbitrary: c n seg) (auto simp: rbind_Inr_iff dest: fill_queue_separated)

lemma tq_fill_queues_ok:
  "queued seg h \<Longrightarrow> fill_queues i c n seg = Inr seg' \<Longrightarrow> separated (freeq seg') \<Longrightarrow>
    \<exists>h'. tq_fill_queues i c n h = Inr h' \<and> queued seg' h'"
proof (induction i arbitrary: c n seg h)
  case (Suc i)
  obtain s c' n' where r: "fill_queue i c n seg = Inr (s, c', n')" "fill_queues i c' n' s = Inr seg'"
    using Suc.prems(2) by (auto simp: rbind_Inr_iff)
  obtain h1 where "tq_fill_queue i c n h = Inr (h1, c', n')" "queued s h1"
    using tq_fill_queue_ok [OF Suc.prems(1) r(1) fill_queues_separated [OF r(2) Suc.prems(3)]] by blast
  then show ?case using Suc.IH [OF _ r(2) Suc.prems(3), of h1] by simp
qed simp

lemma tq_seg_init_ok:
  assumes "pm_seg_init ctz0 start en off = Inr seg" "separated (freeq seg)"
  shows "\<exists>h. tq_seg_init ctz0 start en off s = Inr h \<and> queued seg h"
proof -
  let ?n = "(en - start) div PAGESIZE" and ?s = "fold TAILQ_INIT [0..<PM_NQUEUES] s"
  obtain pgs where p: "init_pages (init_page ctz0 (c_min (int PM_NQUEUES) (c_ffs ?n) - 1) start off) [0..<unat ?n] = Inr pgs"
    "fill_queues PM_NQUEUES 0 ?n \<lparr>seg_start = start, seg_end = en, freeq = replicate PM_NQUEUES [], npages = ?n, pages = pgs\<rparr> = Inr seg"
    using assms(1) by (auto simp: pm_seg_init_def Let_def rbind_Inr_iff)
  have "queued \<lparr>seg_start = start, seg_end = en, freeq = replicate PM_NQUEUES [], npages = ?n, pages = pgs\<rparr>
      (\<lparr>seg_start = start, seg_end = en, freeq = [], npages = ?n, pages = pgs\<rparr>, ?s)"
    using init_queues [of _ PM_NQUEUES s] by (simp add: queued_def)
  from tq_fill_queues_ok [OF this p(2) assms(2)] show ?thesis using p(1) by (simp add: tq_seg_init_def Let_def)
qed

section \<open>On a segment\<close>

lemma seg_inv_separated: "seg_inv seg A \<Longrightarrow> separated (freeq seg)"
  unfolding seg_inv_def using separated_inv by blast

lemma tq_allocates:
  assumes "seg_inv seg A" "queued seg h"
  shows "j < PM_NQUEUES \<longrightarrow> (\<exists>seg' h' res. pm_alloc_from_seg seg (2 ^ j) = Inr (seg', res) \<and>
    tq_alloc_from_seg h (2 ^ j) = Inr (h', res) \<and> queued seg' h')"
proof
  assume j: "j < PM_NQUEUES"
  obtain seg' res where r: "pm_alloc_from_seg seg (2 ^ j) = Inr (seg', res)"
    using pm_alloc_from_seg_ok [OF _ _ j, of seg A "{}"] assms(1) by (auto simp: seg_inv_def)
  have "c_log2 (2 ^ j) < int PM_NQUEUES" using j by (simp add: PM_NQUEUES_def)
  from tq_alloc_from_seg_ok [OF assms(2,1) r this] r
  show "\<exists>seg' h' res. pm_alloc_from_seg seg (2 ^ j) = Inr (seg', res) \<and>
    tq_alloc_from_seg h (2 ^ j) = Inr (h', res) \<and> queued seg' h'" by blast
qed

lemma tq_initialises:
  "m < PM_NQUEUES \<and> int m \<le> ctz0 \<and> unat b = unat a + 4096 * 2 ^ m \<longrightarrow>
    (\<exists>seg h. pm_seg_init ctz0 a b off = Inr seg \<and> tq_seg_init ctz0 a b off s = Inr h \<and> queued seg h)"
  using pm_seg_init_ok [of m ctz0 b a off] seg_inv_separated tq_seg_init_ok by blast

end
