(* ===== verification/CString.thy ===== *)
theory CString
  imports Prelude
begin

text \<open>
  \<open>string.c\<close> and the inline functions of \<open>string.h\<close>: number formatting and memory blocks. The
  memory is a function from 32-bit addresses to bytes, pointers are addresses and pointer
  arithmetic wraps around. A function that writes returns the memory it leaves.
\<close>

section \<open>Strings in memory\<close>

text \<open>The bytes of a string literal, and a NUL-terminated string at an address.\<close>

definition bytes :: "string \<Rightarrow> u8 list" where
  "bytes cs = map (\<lambda>c. of_nat (of_char c)) cs"

definition str_at :: "memory \<Rightarrow> u32 \<Rightarrow> u8 list \<Rightarrow> bool" where
  "str_at m a cs \<longleftrightarrow> (\<forall>i < length cs. m (a + of_nat i) = cs ! i) \<and> m (a + of_nat (length cs)) = 0 \<and> 0 \<notin> set cs"

text \<open>\<open>strlen\<close>: a loop that does not end if no byte of the memory is NUL.\<close>

partial_function (option) strlen_loop :: "memory \<Rightarrow> u32 \<Rightarrow> u32 \<Rightarrow> u32 option" where
  "strlen_loop m s n = (if m s \<noteq> 0 then strlen_loop m (s + 1) (n + 1) else Some n)"

definition strlen :: "memory \<Rightarrow> u32 \<Rightarrow> u32 option" where
  "strlen m s = strlen_loop m s 0"

section \<open>Numbers\<close>

definition hex_digits :: string where "hex_digits = ''0123456789abcdef''"

text \<open>
  The \<open>do\<close> loop of \<open>itopow2\<close> with the index \<open>len\<close>, which returns the memory and the last index. The
  table of digits has 16 characters and the terminating NUL; an index past that is out of bounds.
\<close>

definition digit_char :: "u32 \<Rightarrow> u8 result" where
  "digit_char d = (if unat d < 16 then Inr (bytes hex_digits ! unat d)
     else if d = 16 then Inr 0 else Inl Out_of_bounds)"

partial_function (option) itopow2_loop ::
  "u32 \<Rightarrow> nat \<Rightarrow> u32 \<Rightarrow> u32 \<Rightarrow> nat \<Rightarrow> memory \<Rightarrow> (memory \<times> u32) result option" where
  "itopow2_loop num pow2 s len counter m =
    (let (len1, m1) = (if counter = 4 then (len - 1, m(s + (len - 1) := of_nat (of_char CHR ''_''))) else (len, m));
         d = num AND (push_bit pow2 1 - 1); num' = drop_bit pow2 num
     in case digit_char d of
          Inl e \<Rightarrow> Some (Inl e)
        | Inr c \<Rightarrow>
            let len2 = len1 - 1; m2 = m1(s + len2 := c)
            in if num' \<noteq> 0 then itopow2_loop num' pow2 s len2 (Suc counter) m2 else Some (Inr (m2, len2)))"

definition itopow2 :: "u32 \<Rightarrow> int \<Rightarrow> u32 \<Rightarrow> u32 \<Rightarrow> memory \<Rightarrow> (memory \<times> u32) result option" where
  "itopow2 num pow2 s sz m =
    (if pow2 < 0 \<or> 31 \<le> pow2 then Some (Inl Bad_shift)
     else case itopow2_loop num (nat pow2) s (sz - 1) 0 m of
         None \<Rightarrow> None
       | Some (Inl e) \<Rightarrow> Some (Inl e)
       | Some (Inr (m', len)) \<Rightarrow> Some (Inr (m'(s + (sz - 1) := 0), s + len)))"

text \<open>\<open>itodec\<close>: the loop runs with \<open>a = &s[i]\<close>, the next address to write.\<close>

function itodec_loop :: "u32 \<Rightarrow> u32 \<Rightarrow> memory \<Rightarrow> memory \<times> u32" where
  "itodec_loop num a m =
    (if num \<noteq> 0 then itodec_loop (num div 10) (a - 1) (m(a := of_nat (unat (num mod 10)) + 48)) else (m, a))"
  by pat_completeness auto
termination
proof (relation "measure (\<lambda>(num, a, m). unat num)")
  fix num a :: u32 and m
  assume "num \<noteq> 0"
  then have "0 < unat num" by (simp add: unat_gt_0)
  then show "((num div 10, a - 1, m(a := of_nat (unat (num mod 10)) + 48)), num, a, m)
      \<in> measure (\<lambda>(num, a, m). unat num)" by (simp add: unat_div)
qed simp

declare itodec_loop.simps [simp del]

definition itodec :: "u32 \<Rightarrow> u32 \<Rightarrow> u32 \<Rightarrow> memory \<Rightarrow> memory \<times> u32" where
  "itodec num s sz m =
    (if num = 0 then (m(s := of_nat (of_char CHR ''0''), s + 1 := 0), s)
     else let s' = s + (sz - 1); (m', a) = itodec_loop num (s' - 1) (m(s' := 0))
          in (m', a + 1))"

section \<open>Memory blocks\<close>

text \<open>\<open>while (len--)\<close> runs \<open>len\<close> times; the first argument of the loops counts.\<close>

fun memchr_loop :: "nat \<Rightarrow> u32 \<Rightarrow> int \<Rightarrow> memory \<Rightarrow> u32 option" where
  "memchr_loop 0 p ch m = None"
| "memchr_loop (Suc n) p ch m = (if uint (m p) = ch then Some p else memchr_loop n (p + 1) ch m)"

definition memchr :: "u32 \<Rightarrow> int \<Rightarrow> u32 \<Rightarrow> memory \<Rightarrow> u32 option" where
  "memchr ptr ch len m = memchr_loop (unat len) ptr ch m"

fun memset_loop :: "nat \<Rightarrow> u32 \<Rightarrow> int \<Rightarrow> memory \<Rightarrow> memory" where
  "memset_loop 0 dst ch m = m"
| "memset_loop (Suc n) dst ch m = memset_loop n (dst + 1) ch (m(dst := of_int ch))"

definition memset :: "u32 \<Rightarrow> int \<Rightarrow> u32 \<Rightarrow> memory \<Rightarrow> memory \<times> u32" where
  "memset dst ch len m = (memset_loop (unat len) dst ch m, dst)"

fun memcmp_loop :: "nat \<Rightarrow> u32 \<Rightarrow> u32 \<Rightarrow> memory \<Rightarrow> int" where
  "memcmp_loop 0 s1 s2 m = 0"
| "memcmp_loop (Suc n) s1 s2 m =
     (if m s1 \<noteq> m s2 then uint (m s1) - uint (m s2) else memcmp_loop n (s1 + 1) (s2 + 1) m)"

definition memcmp :: "u32 \<Rightarrow> u32 \<Rightarrow> u32 \<Rightarrow> memory \<Rightarrow> int" where
  "memcmp s1 s2 len m = memcmp_loop (unat len) s1 s2 m"

text \<open>
  \<open>memcpy\<close> is Duff's device: \<open>n\<close> rounds of eight copies \<open>*dst++ = *src++\<close>, the first of which the
  \<open>switch\<close> enters at the case for \<open>len & 7\<close>.
\<close>

type_synonym cursor = "u32 \<times> u32 \<times> memory"

definition copy_byte :: "cursor \<Rightarrow> cursor" where
  "copy_byte c = (case c of (dst, src, m) \<Rightarrow> (dst + 1, src + 1, m(dst := m src)))"

function duff_rounds :: "u32 \<Rightarrow> nat \<Rightarrow> cursor \<Rightarrow> cursor" where
  "duff_rounds n k c = (let c' = (copy_byte ^^ k) c in if n - 1 \<noteq> 0 then duff_rounds (n - 1) 8 c' else c')"
  by pat_completeness auto
termination
proof (relation "measure (\<lambda>(n, k, c). unat (n - 1))")
  fix n :: u32 and k :: nat and c c' :: cursor
  assume "n - 1 \<noteq> 0"
  then have "unat (n - 1 - 1) < unat (n - 1)"
    using unat_pred [of "n - 1"] unat_gt_0 [of "n - 1"] by linarith
  then show "((n - 1, 8, c'), n, k, c) \<in> measure (\<lambda>(n, k, c). unat (n - 1))" by simp
qed simp

declare duff_rounds.simps [simp del]

definition memcpy :: "u32 \<Rightarrow> u32 \<Rightarrow> u32 \<Rightarrow> memory \<Rightarrow> memory \<times> u32" where
  "memcpy dst src len m =
    (if len = 0 then (m, dst)
     else let n = drop_bit 3 (len + 7);
              k = (if len AND 7 = 0 then 8 else unat (len AND 7));
              (d, s, m') = duff_rounds n k (dst, src, m)
          in (m', dst))"

fun copy_down :: "nat \<Rightarrow> u32 \<Rightarrow> u32 \<Rightarrow> memory \<Rightarrow> memory" where
  "copy_down 0 dst src m = m"
| "copy_down (Suc n) dst src m = copy_down n (dst - 1) (src - 1) (m(dst - 1 := m (src - 1)))"

definition memmove :: "u32 \<Rightarrow> u32 \<Rightarrow> u32 \<Rightarrow> memory \<Rightarrow> memory \<times> u32" where
  "memmove dst src len m =
    (if len = 0 then (m, dst)
     else if dst \<le> src then memcpy dst src len m
     else (copy_down (unat len) (dst + len) (src + len) m, dst))"

definition mempcpy :: "u32 \<Rightarrow> u32 \<Rightarrow> u32 \<Rightarrow> memory \<Rightarrow> memory \<times> u32" where
  "mempcpy dst src len m = (let (m', d) = memcpy dst src len m in (m', d + len))"

definition mempmove :: "u32 \<Rightarrow> u32 \<Rightarrow> u32 \<Rightarrow> memory \<Rightarrow> memory \<times> u32" where
  "mempmove dst src len m = (let (m', d) = memmove dst src len m in (m', d + len))"

end
