(* ===== verification/CString_Correct.thy ===== *)
theory CString_Correct
  imports CString
begin

text \<open>
  What the functions of theory \<open>CString\<close> compute: the block functions against the block of memory they
  should leave, comparison and search against lists of bytes, and the number formatting against the
  value of the text they write and the buffer they write it into.
\<close>

section \<open>Blocks\<close>

text \<open>The memory in which the \<open>n\<close> bytes at \<open>dst\<close> are those \<open>m\<close> has at \<open>src\<close>.\<close>

definition block_copy :: "memory \<Rightarrow> u32 \<Rightarrow> u32 \<Rightarrow> nat \<Rightarrow> memory" where
  "block_copy m dst src n = (\<lambda>a. if unat (a - dst) < n then m (src + (a - dst)) else m a)"

text \<open>A forward copy reads no byte it has written if \<open>dst\<close> is not in the source after its start.\<close>

definition copies_up :: "u32 \<Rightarrow> u32 \<Rightarrow> nat \<Rightarrow> bool" where
  "copies_up dst src n \<longleftrightarrow> dst = src \<or> n \<le> unat (dst - src)"

lemma unat_of_nat32: "n < 2 ^ 32 \<Longrightarrow> unat (of_nat n :: u32) = n"
  by (rule unat_of_nat_small) simp

lemma offset_less_Suc:
  "n < 2 ^ 32 \<Longrightarrow> unat (x :: u32) < Suc n \<longleftrightarrow> unat x < n \<or> x = of_nat n"
  using unat_of_nat32 [of n] by (auto simp: less_Suc_eq word_eq_iff_unat)

lemma not_behind:
  assumes "n < N" "N \<le> 2 ^ 32" "d = 0 \<or> N \<le> unat d"
  shows "\<not> unat (of_nat n - d :: u32) < n"
proof -
  have n: "unat (of_nat n :: u32) = n" using assms(1,2) by (intro unat_of_nat32) simp
  have "unat d < 2 ^ 32" using unsigned_less [of d, where ?'a = nat] by simp
  then show ?thesis using assms(1,3) n unat_sub_if' [of "of_nat n :: u32" d] by (auto simp: word_le_nat_alt)
qed

lemma copy_byte_funpow:
  assumes "copies_up dst src N" "n \<le> N" "N \<le> 2 ^ 32"
  shows "(copy_byte ^^ n) (dst, src, m) = (dst + of_nat n, src + of_nat n, block_copy m dst src n)"
  using assms(2)
proof (induction n)
  case 0
  then show ?case by (simp add: block_copy_def)
next
  case (Suc n)
  have n: "n < 2 ^ 32" using Suc.prems assms(3) by simp
  have "\<not> unat (of_nat n - (dst - src)) < n"
    using not_behind [of n N "dst - src"] Suc.prems assms(1,3) by (auto simp: copies_up_def)
  moreover have "of_nat n - (dst - src) = src + of_nat n - dst" by simp
  ultimately have old: "block_copy m dst src n (src + of_nat n) = m (src + of_nat n)"
    unfolding block_copy_def by (metis (no_types))
  have "a - dst = of_nat n \<longleftrightarrow> a = dst + of_nat n" for a :: u32 by (auto simp: algebra_simps)
  then have "block_copy m dst src (Suc n) = (block_copy m dst src n)(dst + of_nat n := m (src + of_nat n))"
    using offset_less_Suc [OF n] by (auto simp: block_copy_def fun_eq_iff)
  then show ?case using Suc old by (simp add: copy_byte_def add.assoc) (simp add: fun_upd_def)
qed

lemma duff_rounds_funpow: "duff_rounds n k c = (copy_byte ^^ (k + 8 * unat (n - 1))) c"
proof (induction n k c rule: duff_rounds.induct)
  case (1 n k c)
  show ?case
  proof (cases "n - 1 = 0")
    case True
    then show ?thesis by (subst duff_rounds.simps) (simp add: Let_def)
  next
    case False
    then have e: "unat (n - 1) = Suc (unat (n - 1 - 1))" using unat_pred [of "n - 1"] unat_gt_0 [of "n - 1"] by simp
    have "duff_rounds n k c = (copy_byte ^^ (8 + 8 * unat (n - 1 - 1))) ((copy_byte ^^ k) c)"
      using False 1 [OF refl False] by (subst duff_rounds.simps) (simp add: Let_def)
    also have "\<dots> = (copy_byte ^^ (8 + 8 * unat (n - 1 - 1) + k)) c" by (simp only: funpow_add comp_apply)
    also have "8 + 8 * unat (n - 1 - 1) + k = k + 8 * unat (n - 1)" using e by simp
    finally show ?thesis .
  qed
qed

lemma duff_total:
  assumes "0 < (L::nat)"
  shows "(if L mod 8 = 0 then 8 else L mod 8) + 8 * ((L + 7) div 8 - 1) = L"
proof -
  define q r where "q = L div 8" and "r = L mod 8"
  have L: "L = r + 8 * q" "r < 8" by (simp_all add: q_def r_def)
  show ?thesis
  proof (cases "r = 0")
    case True
    then have "(L + 7) div 8 = q" "0 < q" using L assms by simp_all
    then show ?thesis using True L by (simp add: r_def [symmetric])
  next
    case False
    then have "(L + 7) div 8 = Suc q" using L by (intro div_nat_eqI) simp_all
    then show ?thesis using False L by (simp add: r_def [symmetric])
  qed
qed

lemma memcpy_ok:
  assumes len: "unat len \<le> 2 ^ 32 - 8" and up: "copies_up dst src (unat len)"
  shows "memcpy dst src len m = (block_copy m dst src (unat len), dst)"
proof (cases "len = 0")
  case True
  then show ?thesis by (simp add: memcpy_def block_copy_def)
next
  case False
  then have pos: "0 < unat len" by (simp add: unat_gt_0)
  have "unat (len + 7) = unat len + 7" using len by (subst unat_add_small) simp_all
  then have n: "unat (drop_bit 3 (len + 7)) = (unat len + 7) div 8"
    by (simp add: drop_bit_eq_div unat_div)
  then have "drop_bit 3 (len + 7) \<noteq> 0" using pos by (auto simp: word_eq_iff_unat)
  then have n1: "unat (drop_bit 3 (len + 7) - 1) = (unat len + 7) div 8 - 1" using n by (simp add: unat_pred)
  have "len AND 7 = take_bit 3 len" by (simp add: take_bit_eq_mask mask_eq_exp_minus_1)
  then have k: "unat (len AND 7) = unat len mod 8" by (simp add: unsigned_take_bit_eq take_bit_nat_def)
  then have k0: "len AND 7 = 0 \<longleftrightarrow> unat len mod 8 = 0" by (metis unat_eq_0)
  have total: "(if len AND 7 = 0 then 8 else unat (len AND 7)) + 8 * unat (drop_bit 3 (len + 7) - 1) = unat len"
    unfolding n1 k0 k using pos by (rule duff_total)
  show ?thesis
    using False total copy_byte_funpow [OF up order_refl, of m] len
    by (simp only: memcpy_def Let_def duff_rounds_funpow if_False) simp
qed

lemma copy_down_ok:
  assumes "src = dst \<or> N \<le> unat (src - dst)" "n \<le> N" "N \<le> 2 ^ 32"
  shows "copy_down n (dst + of_nat n) (src + of_nat n) m = block_copy m dst src n"
  using assms(2)
proof (induction n arbitrary: m)
  case 0
  then show ?case by (simp add: block_copy_def)
next
  case (Suc n)
  have n: "n < 2 ^ 32" using Suc.prems assms(3) by simp
  let ?m1 = "m(dst + of_nat n := m (src + of_nat n))"
  have "copy_down (Suc n) (dst + of_nat (Suc n)) (src + of_nat (Suc n)) m = block_copy ?m1 dst src n"
    using Suc by simp
  also have "\<dots> = block_copy m dst src (Suc n)"
  proof
    fix a
    have e: "a - dst = of_nat n \<longleftrightarrow> a = dst + of_nat n" by (auto simp: algebra_simps)
    have "src + (a - dst) \<noteq> dst + of_nat n" if lt: "unat (a - dst) < n"
    proof
      assume "src + (a - dst) = dst + of_nat n"
      then have "a - dst = of_nat n - (src - dst)" by (simp add: algebra_simps)
      then have "unat (of_nat n - (src - dst)) < n" using lt by (simp only:)
      moreover have "\<not> unat (of_nat n - (src - dst)) < n"
        using assms(1,3) Suc.prems by (intro not_behind [of n N]) auto
      ultimately show False by contradiction
    qed
    moreover have "\<not> unat (a - dst) < n" if "a = dst + of_nat n" using that unat_of_nat32 [OF n] by simp
    ultimately show "block_copy ?m1 dst src n a = block_copy m dst src (Suc n) a"
      unfolding block_copy_def using offset_less_Suc [OF n, of "a - dst"] e by auto
  qed
  finally show ?case .
qed

text \<open>Two blocks that do not wrap around the end of the address space.\<close>

lemma memmove_ok:
  assumes len: "unat len \<le> 2 ^ 32 - 8" and d: "unat dst + unat len \<le> 2 ^ 32" and s: "unat src + unat len \<le> 2 ^ 32"
  shows "memmove dst src len m = (block_copy m dst src (unat len), dst)"
proof (cases "dst \<le> src")
  case True
  then have "copies_up dst src (unat len)"
    using s unat_sub_if' [of dst src] by (auto simp: copies_up_def word_le_nat_alt word_eq_iff_unat)
  then show ?thesis using memcpy_ok [OF len] True by (simp add: memmove_def block_copy_def)
next
  case False
  then have "src = dst \<or> unat len \<le> unat (src - dst)"
    using d unat_sub_if' [of src dst] by (auto simp: word_le_nat_alt)
  then have "copy_down (unat len) (dst + of_nat (unat len)) (src + of_nat (unat len)) m = block_copy m dst src (unat len)"
    using unsigned_less [of len, where ?'a = nat] by (intro copy_down_ok [of src dst "unat len"]) simp_all
  then show ?thesis using False by (auto simp: memmove_def block_copy_def)
qed

lemma memset_loop_ok:
  "n \<le> 2 ^ 32 \<Longrightarrow> memset_loop n dst ch m = (\<lambda>a. if unat (a - dst) < n then of_int ch else m a)"
proof (induction n arbitrary: dst m)
  case 0
  then show ?case by simp
next
  case (Suc n)
  have "unat (a - dst) < Suc n \<longleftrightarrow> a = dst \<or> unat (a - (dst + 1)) < n" for a
  proof (cases "a = dst")
    case False
    then have "a - dst \<noteq> 0" by simp
    then have "unat (a - dst - 1) = unat (a - dst) - 1" "0 < unat (a - dst)" by (simp_all add: unat_pred unat_gt_0)
    moreover have "a - dst - 1 = a - (dst + 1)" by simp
    ultimately show ?thesis using False by auto
  qed simp
  then show ?case using Suc by (auto simp: fun_eq_iff)
qed

lemma memset_ok: "memset dst ch len m = (\<lambda>a. if unat (a - dst) < unat len then of_int ch else m a, dst)"
  using unsigned_less [of len, where ?'a = nat] by (simp add: memset_def memset_loop_ok)

section \<open>Comparing and searching\<close>

definition mem_bytes :: "memory \<Rightarrow> u32 \<Rightarrow> nat \<Rightarrow> u8 list" where
  "mem_bytes m a n = map (\<lambda>i. m (a + of_nat i)) [0..<n]"

lemma mem_bytes_simps [simp]:
  "mem_bytes m a 0 = []" "mem_bytes m a (Suc n) = m a # mem_bytes m (a + 1) n" "length (mem_bytes m a n) = n"
proof -
  have "[0..<Suc n] = 0 # map Suc [0..<n]" by (simp add: upt_conv_Cons map_Suc_upt)
  then show "mem_bytes m a (Suc n) = m a # mem_bytes m (a + 1) n" by (simp add: mem_bytes_def add.assoc)
qed (simp_all add: mem_bytes_def)

lemma memcmp_loop_ok:
  "memcmp_loop n s1 s2 m = 0 \<longleftrightarrow> mem_bytes m s1 n = mem_bytes m s2 n"
  "memcmp_loop n s1 s2 m < 0 \<longleftrightarrow> (mem_bytes m s1 n, mem_bytes m s2 n) \<in> lex {(x, y). x < y}"
  by (induction n arbitrary: s1 s2) (auto simp: word_less_def word_uint_eq_iff)

lemma find_map_eq: "List.find P (map f xs) = map_option f (List.find (P \<circ> f) xs)"
  by (induction xs) simp_all

lemma memchr_loop_ok:
  "memchr_loop n p ch m = map_option (\<lambda>i. p + of_nat i) (List.find (\<lambda>i. uint (m (p + of_nat i)) = ch) [0..<n])"
proof (induction n arbitrary: p)
  case 0
  then show ?case by simp
next
  case (Suc n)
  have u: "[0..<Suc n] = 0 # map Suc [0..<n]" by (simp only: upt_conv_Cons [OF zero_less_Suc] map_Suc_upt)
  show ?case
    unfolding u memchr_loop.simps Suc.IH [of "p + 1"] find_map_eq List.find.simps
    by (simp add: comp_def option.map_comp add.assoc)
qed

lemma memchr_ok:
  "memchr p ch n m = map_option (\<lambda>i. p + of_nat i) (List.find (\<lambda>i. uint (m (p + of_nat i)) = ch) [0..<unat n])"
  unfolding memchr_def by (rule memchr_loop_ok)

lemma strlen_loop_ok:
  "str_at m a cs \<Longrightarrow> strlen_loop m a n = Some (n + of_nat (length cs))"
proof (induction cs arbitrary: a n)
  case Nil
  then show ?case by (subst strlen_loop.simps) (simp add: str_at_def)
next
  case (Cons c cs)
  have "m a = c" using Cons.prems by (auto simp: str_at_def dest: spec [of _ 0])
  moreover have "c \<noteq> 0" using Cons.prems by (auto simp: str_at_def)
  moreover have "str_at m (a + 1) cs"
    using Cons.prems by (auto simp: str_at_def add.assoc dest: spec [of _ "Suc _"])
  ultimately show ?case using Cons.IH [of "a + 1" "n + 1"] by (subst strlen_loop.simps) (simp add: add.assoc)
qed

section \<open>Writing a number backwards\<close>

fun write_down :: "memory \<Rightarrow> u32 \<Rightarrow> u8 list \<Rightarrow> memory" where
  "write_down m a [] = m"
| "write_down m a (c # cs) = write_down (m(a := c)) (a - 1) cs"

lemma unat_minus_one32: "unat (- 1 :: u32) = 2 ^ 32 - 1"
  by (simp add: unsigned_minus_1_eq_mask mask_eq_exp_minus_1)

lemma write_down_at:
  "length cs \<le> 2 ^ 32 \<Longrightarrow>
    write_down m a cs b = (if unat (a - b) < length cs then cs ! unat (a - b) else m b)"
proof (induction cs arbitrary: m a)
  case Nil
  then show ?case by simp
next
  case (Cons c cs)
  show ?case
  proof (cases "a = b")
    case True
    have "length cs < 2 ^ 32" using Cons.prems by simp
    moreover have "unat (- 1 :: u32) = 2 ^ 32 - 1" by (rule unat_minus_one32)
    ultimately have "\<not> unat (- 1 :: u32) < length cs" by linarith
    then show ?thesis using True Cons by simp
  next
    case False
    then have "a - b \<noteq> 0" by simp
    then have "unat (a - b) = Suc (unat (a - b - 1))"
      using unat_pred [of "a - b"] unat_gt_0 [of "a - b"] by simp
    then have "unat (a - b) = Suc (unat (a - 1 - b))" by (simp only: diff_right_commute)
    then show ?thesis using False Cons by simp
  qed
qed

text \<open>The text written from \<open>a\<close> down, with a NUL after it, is the reverse as a string.\<close>

lemma write_down_str:
  assumes l: "length cs < 2 ^ 32" "0 \<notin> set cs" and nul: "m (a + 1) = 0"
  shows "str_at (write_down m a cs) (a + 1 - of_nat (length cs)) (rev cs)"
proof -
  let ?n = "length cs"
  have "write_down m a cs (a + 1 - of_nat ?n + of_nat i) = rev cs ! i" if i: "i < ?n" for i
  proof -
    have "a - (a + 1 - of_nat ?n + of_nat i) = of_nat (?n - Suc i)"
      using i by (simp add: of_nat_diff algebra_simps)
    then have "unat (a - (a + 1 - of_nat ?n + of_nat i)) = ?n - Suc i"
      using l(1) by (simp only: unat_of_nat32)
    moreover have "?n - Suc i < ?n" using i by simp
    ultimately show ?thesis using i by (simp only: write_down_at [OF less_imp_le [OF l(1)]] rev_nth if_True)
  qed
  moreover have "write_down m a cs (a + 1) = 0"
  proof -
    have "a - (a + 1) = - 1" by simp
    then have "unat (a - (a + 1)) = 2 ^ 32 - 1" by (simp only: unat_minus_one32)
    then show ?thesis using l(1) nul by (simp only: write_down_at [OF less_imp_le [OF l(1)]]) simp
  qed
  ultimately show ?thesis using l(2) by (simp add: str_at_def)
qed

text \<open>Bytes outside the text are not touched.\<close>

lemma write_down_outside:
  assumes "length cs \<le> n" "n < 2 ^ 32" "a = s + of_nat n - 1" "\<not> unat (b - s) < n"
  shows "write_down m a cs b = m b"
proof -
  have "b - s = of_nat n - 1 - (a - b)" using assms(3) by simp
  have "\<not> unat (a - b) < length cs"
  proof
    assume lt: "unat (a - b) < length cs"
    have n: "unat (of_nat n - 1 :: u32) = n - 1"
      using assms(1,2) lt unat_pred [of "of_nat n :: u32"] unat_of_nat32 [of n] by (auto simp: word_eq_iff_unat)
    have "unat (b - s) = unat (of_nat n - 1 - (a - b))" using assms(3) by simp
    also have "\<dots> = n - 1 - unat (a - b)"
      using n lt assms(1) by (subst unat_sub) (simp_all add: word_le_nat_alt)
    finally show False using assms(4) lt assms(1) by simp
  qed
  then show ?thesis using assms(1,2) by (simp add: write_down_at)
qed

section \<open>Decimal\<close>

function dec_rev :: "nat \<Rightarrow> u8 list" where
  "dec_rev n = (if n = 0 then [] else (of_nat (n mod 10) + 48) # dec_rev (n div 10))"
  by pat_completeness auto
termination by (relation "measure id") auto

declare dec_rev.simps [simp del]

definition is_digit :: "u8 \<Rightarrow> bool" where "is_digit c \<longleftrightarrow> 48 \<le> unat c \<and> unat c < 58"

definition dec_value :: "u8 list \<Rightarrow> nat" where
  "dec_value cs = foldl (\<lambda>v c. v * 10 + (unat c - 48)) 0 cs"

lemma dec_value_snoc: "dec_value (cs @ [c]) = dec_value cs * 10 + (unat c - 48)"
  by (simp add: dec_value_def)

lemma digit_byte: "d < 10 \<Longrightarrow> unat (of_nat d + 48 :: u8) = d + 48"
  using unat_of_nat_small [where 'a = 8, of d] by (subst unat_add_small) simp_all

lemma dec_rev_ok:
  "dec_value (rev (dec_rev n)) = n" "\<forall>c \<in> set (dec_rev n). is_digit c"
  "n < 10 ^ k \<Longrightarrow> length (dec_rev n) \<le> k" "n \<noteq> 0 \<Longrightarrow> dec_rev n \<noteq> [] \<and> last (dec_rev n) \<noteq> 48"
proof (induction n arbitrary: k rule: dec_rev.induct)
  case (1 n)
  {
    case 1
    then show ?case using "1.IH"(1) by (subst dec_rev.simps) (simp add: dec_value_snoc digit_byte, simp add: dec_value_def)
  next
    case 2
    then show ?case using "1.IH"(2) by (subst dec_rev.simps) (simp add: digit_byte is_digit_def)
  next
    case 3
    show ?case
    proof (cases "n = 0")
      case False
      then obtain j where k: "k = Suc j" using 3 by (cases k) auto
      then have "n div 10 < 10 ^ j" using 3 by (simp add: div_less_iff_less_mult mult.commute)
      then show ?thesis using "1.IH"(3) [OF False] k False by (subst dec_rev.simps) simp
    qed (subst dec_rev.simps, simp)
  next
    case 4
    show ?case
    proof (cases "n div 10 = 0")
      case True
      have "unat (of_nat (n mod 10) + 48 :: u8) \<noteq> unat (48 :: u8)"
        using True 4 digit_byte [of "n mod 10"] by simp
      then have "of_nat (n mod 10) + 48 \<noteq> (48 :: u8)" by metis
      moreover have "dec_rev (n div 10) = []" using True by (subst dec_rev.simps) simp
      ultimately show ?thesis using 4 by (subst (1 2) dec_rev.simps) simp
    next
      case False
      then show ?thesis using "1.IH"(4) 4 by (subst (1 2) dec_rev.simps) simp
    qed
  }
qed

lemma itodec_loop_ok:
  "itodec_loop num a m = (write_down m a (dec_rev (unat num)), a - of_nat (length (dec_rev (unat num))))"
proof (induction num a m rule: itodec_loop.induct)
  case (1 num a m)
  show ?case
  proof (cases "num = 0")
    case True
    then show ?thesis by (subst itodec_loop.simps, subst (1 2) dec_rev.simps) simp
  next
    case False
    have d: "dec_rev (unat num) = (of_nat (unat (num mod 10)) + 48) # dec_rev (unat (num div 10))"
      using False by (subst dec_rev.simps) (simp add: unat_div unat_mod unat_eq_0)
    have "itodec_loop num a m = itodec_loop (num div 10) (a - 1) (m(a := of_nat (unat (num mod 10)) + 48))"
      using False by (subst itodec_loop.simps) (simp only: if_True not_False_eq_True)
    then show ?thesis unfolding 1 [OF False] d by simp
  qed
qed

text \<open>The text of a number.\<close>

definition dec_text :: "nat \<Rightarrow> u8 list" where
  "dec_text n = (if n = 0 then [48] else rev (dec_rev n))"

lemma dec_text_ok:
  "dec_value (dec_text n) = n" "\<forall>c \<in> set (dec_text n). is_digit c" "dec_text n \<noteq> []"
  "n \<noteq> 0 \<Longrightarrow> hd (dec_text n) \<noteq> 48" "n < 10 ^ 10 \<Longrightarrow> length (dec_text n) \<le> 10"
  using dec_rev_ok(1,2,4) [of n] dec_rev_ok(3) [of n 10]
  by (auto simp: dec_text_def is_digit_def hd_rev) (simp add: dec_value_def)

text \<open>With room for ten digits and the NUL, \<open>itodec\<close> leaves the number as a string in the buffer.\<close>

lemma itodec_ok:
  assumes sz: "11 \<le> unat sz"
  obtains m' p where "itodec num s sz m = (m', p)" "str_at m' p (dec_text (unat num))"
    "\<And>b. \<not> unat (b - s) < unat sz \<Longrightarrow> m' b = m b"
proof (cases "num = 0")
  case True
  have out: "b \<noteq> s \<and> b \<noteq> s + 1" if "\<not> unat (b - s) < unat sz" for b using that sz by auto
  show thesis
  proof (rule that)
    show "itodec num s sz m = (m(s := 48, s + 1 := 0), s)" using True by (simp add: itodec_def)
    show "str_at (m(s := 48, s + 1 := 0)) s (dec_text (unat num))"
      using True by (simp add: str_at_def dec_text_def)
  qed (use out in auto)
next
  case False
  let ?ds = "dec_rev (unat num)" and ?e = "s + (sz - 1)"
  have n0: "unat num \<noteq> 0" using False by (simp add: unat_eq_0)
  have "unat num < 10 ^ 10" using unsigned_less [of num, where ?'a = nat] by simp
  then have l: "length ?ds \<le> 10" by (rule dec_rev_ok(3))
  have nz: "0 \<notin> set ?ds" using dec_rev_ok(2) [of "unat num"] by (auto simp: is_digit_def)
  have r: "itodec num s sz m = (write_down (m(?e := 0)) (?e - 1) ?ds, ?e - 1 + 1 - of_nat (length ?ds))"
    using False by (simp add: itodec_def itodec_loop_ok Let_def)
  show thesis
  proof (rule that [OF r])
    show "str_at (write_down (m(?e := 0)) (?e - 1) ?ds) (?e - 1 + 1 - of_nat (length ?ds)) (dec_text (unat num))"
      using l nz n0 by (simp only: dec_text_def if_False) (intro write_down_str; simp)
    fix b assume b: "\<not> unat (b - s) < unat sz"
    have sz1: "unat (sz - 1) = unat sz - 1" using sz by (intro unat_pred) auto
    have "b \<noteq> ?e" using b sz1 sz by auto
    moreover have "\<not> unat (b - s) < unat (sz - 1)" using b sz1 by simp
    then have "write_down (m(?e := 0)) (?e - 1) ?ds b = (m(?e := 0)) b"
      using l sz1 sz unsigned_less [of "sz - 1", where ?'a = nat]
      by (intro write_down_outside [where n = "unat (sz - 1)" and s = s]) simp_all
    ultimately show "write_down (m(?e := 0)) (?e - 1) ?ds b = m b" by simp
  qed
qed

section \<open>Powers of two\<close>

text \<open>
  The text of \<open>n\<close> in base \<open>2 ^ k\<close>, least significant digit first, with the \<open>_\<close> the code puts before
  the fifth digit; \<open>c\<close> counts the digits already written.
\<close>

definition hex_byte :: "nat \<Rightarrow> u8" where
  "hex_byte d = (if d < 10 then of_nat (d + 48) else of_nat (d + 87))"

function pow_rev :: "nat \<Rightarrow> nat \<Rightarrow> nat \<Rightarrow> u8 list" where
  "pow_rev k n c = (if c = 4 then [95] else []) @ hex_byte (n mod 2 ^ k) #
     (if n div 2 ^ k = 0 \<or> k = 0 then [] else pow_rev k (n div 2 ^ k) (Suc c))"
  by pat_completeness auto
termination
proof (relation "measure (\<lambda>(k, n, c). n)")
  fix k n c :: nat
  assume a: "\<not> (n div 2 ^ k = 0 \<or> k = 0)"
  then have "0 < n" by (cases "n = 0") auto
  moreover have "(1::nat) < 2 ^ k" using a by (intro one_less_power) auto
  ultimately show "((k, n div 2 ^ k, Suc c), k, n, c) \<in> measure (\<lambda>(k, n, c). n)" by simp
qed simp

declare pow_rev.simps [simp del]

definition hex_digit_value :: "u8 \<Rightarrow> nat" where
  "hex_digit_value c = (if unat c < 58 then unat c - 48 else unat c - 87)"

definition pow_value :: "nat \<Rightarrow> u8 list \<Rightarrow> nat" where
  "pow_value k cs = foldl (\<lambda>v c. v * 2 ^ k + hex_digit_value c) 0 (filter (\<lambda>c. c \<noteq> 95) cs)"

lemma hex_byte_values: "d < 16 \<Longrightarrow> hex_digit_value (hex_byte d) = d \<and> hex_byte d \<noteq> 95 \<and> hex_byte d \<noteq> 0"
proof -
  assume "d < 16"
  then have "d \<in> set [0..<16]" by simp
  then show ?thesis by (simp add: upt_rec) (auto simp: hex_byte_def hex_digit_value_def)
qed

lemma digit_char_ok: "unat d < 16 \<Longrightarrow> digit_char d = Inr (hex_byte (unat d))"
proof -
  have "\<forall>n \<in> set [0..<16]. bytes hex_digits ! n = hex_byte n"
    by (simp add: upt_rec bytes_def hex_digits_def hex_byte_def)
  moreover assume "unat d < 16"
  ultimately show ?thesis by (simp add: digit_char_def)
qed

lemma pow_value_snoc:
  "c \<noteq> 95 \<Longrightarrow> pow_value k (cs @ [c]) = pow_value k cs * 2 ^ k + hex_digit_value c"
  "pow_value k (cs @ [95]) = pow_value k cs" "pow_value k [] = 0"
  by (simp_all add: pow_value_def)

lemma pow2_digit: "0 < k \<Longrightarrow> k \<le> 4 \<Longrightarrow> n mod 2 ^ k < (16::nat)"
proof -
  assume "k \<le> 4"
  then have "(2::nat) ^ k \<le> 2 ^ 4" by (intro power_increasing) auto
  then have le: "(2::nat) ^ k \<le> 16" by simp
  have "n mod 2 ^ k < 2 ^ k" by (rule mod_less_divisor) simp
  then show "n mod 2 ^ k < 16" using le by (rule less_le_trans)
qed

lemma pow_rev_step:
  assumes "0 < k"
  shows "pow_rev k n c = (if c = 4 then [95] else []) @ hex_byte (n mod 2 ^ k) #
     (if n div 2 ^ k = 0 then [] else pow_rev k (n div 2 ^ k) (Suc c))"
  using assms by (subst pow_rev.simps) simp

lemma div_pow2_less: "0 < k \<Longrightarrow> n div 2 ^ k \<noteq> 0 \<Longrightarrow> n div 2 ^ k < (n::nat)"
  using one_less_power [of "2::nat" k] by (cases "n = 0") auto

lemma pow_rev_value:
  assumes k: "0 < k" "k \<le> 4"
  shows "pow_value k (rev (pow_rev k n c)) = n \<and> 0 \<notin> set (pow_rev k n c)"
proof (induction n arbitrary: c rule: less_induct)
  case (less n)
  note h = hex_byte_values [OF pow2_digit [OF k, of n]]
  show ?case
  proof (cases "n div 2 ^ k = 0")
    case True
    then have "n mod 2 ^ k = n" by (simp add: div_eq_0_iff)
    then show ?thesis using True h pow_value_snoc(1) [of _ k "[]"] pow_value_snoc(2) [of k "[hex_byte n]"]
      by (simp add: pow_rev_step [OF k(1)] pow_value_snoc(3))
  next
    case False
    let ?r = "rev (pow_rev k (n div 2 ^ k) (Suc c))"
    have "pow_value k (?r @ [hex_byte (n mod 2 ^ k)]) = n"
      using less.IH [OF div_pow2_less [OF k(1) False]] h by (simp add: pow_value_snoc(1) div_mult_mod_eq)
    then show ?thesis
      using less.IH [OF div_pow2_less [OF k(1) False]] False h
        pow_value_snoc(2) [of k "?r @ [hex_byte (n mod 2 ^ k)]"]
      by (subst (1 2) pow_rev_step [OF k(1)], cases "c = 4") (simp_all del: One_nat_def)
  qed
qed

lemma pow_rev_length:
  assumes k: "0 < k"
  shows "n < 2 ^ (k * d) \<Longrightarrow> 0 < d \<Longrightarrow> length (pow_rev k n c) \<le> d + (if c \<le> 4 then 1 else 0)"
proof (induction n arbitrary: c d rule: less_induct)
  case (less n)
  show ?case
  proof (cases "n div 2 ^ k = 0")
    case True
    then show ?thesis using less.prems by (subst pow_rev_step [OF k]) simp
  next
    case False
    then have big: "\<not> n < 2 ^ k" by (simp add: div_eq_0_iff)
    obtain e where e: "d = Suc e" using less.prems(2) by (cases d) auto
    have "e \<noteq> 0" using big less.prems(1) e by (intro notI) simp
    note d = e this
    have "n div 2 ^ k < 2 ^ (k * e)"
      using less.prems(1) d by (simp add: div_less_iff_less_mult power_add mult.commute)
    then have "length (pow_rev k (n div 2 ^ k) (Suc c)) \<le> e + (if Suc c \<le> 4 then 1 else 0)"
      using less.IH [OF div_pow2_less [OF k False]] d by blast
    then show ?thesis using False d by (subst pow_rev_step [OF k]) auto
  qed
qed

lemma and_mask_pow2: "unat (num AND (push_bit k 1 - 1) :: u32) = unat num mod 2 ^ k"
proof -
  have "num AND (push_bit k 1 - 1) = take_bit k num"
    by (simp add: take_bit_eq_mask mask_eq_exp_minus_1 push_bit_eq_mult)
  then show ?thesis by (simp add: unsigned_take_bit_eq take_bit_nat_def)
qed

lemma unat_div_pow2: "unat (drop_bit k num :: u32) = unat num div 2 ^ k"
proof -
  have "take_bit 32 (unat num) = unat num"
    using unsigned_less [of num, where ?'a = nat] by (intro take_bit_nat_eq_self) simp
  then show ?thesis by (simp add: unsigned_drop_bit_eq drop_bit_nat_def)
qed

lemma itopow2_loop_ok:
  assumes k: "0 < k" "k \<le> 4"
  shows "itopow2_loop num k s len c m =
    Some (Inr (write_down m (s + len - 1) (pow_rev k (unat num) c), len - of_nat (length (pow_rev k (unat num) c))))"
proof (induction "unat num" arbitrary: num len c m rule: less_induct)
  case less
  let ?d = "num AND (push_bit k 1 - 1)" and ?q = "drop_bit k num"
  have d: "digit_char ?d = Inr (hex_byte (unat num mod 2 ^ k))"
    using digit_char_ok [of ?d] pow2_digit [OF k] by (simp only: and_mask_pow2)
  have q: "unat ?q = unat num div 2 ^ k" by (rule unat_div_pow2)
  have q0: "?q \<noteq> 0 \<longleftrightarrow> unat num div 2 ^ k \<noteq> 0" by (metis q unat_eq_0)
  have ub: "(of_nat (of_char CHR ''_'') :: u8) = 95" by simp
  show ?case
  proof (cases "unat num div 2 ^ k = 0")
    case True
    then show ?thesis using q0 d ub
      by (subst itopow2_loop.simps, subst (1 2) pow_rev_step [OF k(1)]) (simp add: Let_def add_diff_eq)
  next
    case False
    have lt: "unat ?q < unat num" using div_pow2_less [OF k(1) False] q by simp
    show ?thesis using q0 d ub False less.hyps [OF lt] q
      by (subst itopow2_loop.simps, subst (1 2) pow_rev_step [OF k(1)])
        (simp add: Let_def add_diff_eq diff_diff_eq)
  qed
qed

definition pow_text :: "nat \<Rightarrow> nat \<Rightarrow> u8 list" where
  "pow_text k n = rev (pow_rev k n 0)"

lemma pow_text_ok:
  "0 < k \<Longrightarrow> k \<le> 4 \<Longrightarrow> pow_value k (pow_text k n) = n"
  "0 < k \<Longrightarrow> n < 2 ^ (k * d) \<Longrightarrow> 0 < d \<Longrightarrow> length (pow_text k n) \<le> d + 1"
  using pow_rev_value [of k n 0] pow_rev_length [of k n d 0] by (simp_all add: pow_text_def)

lemma itopow2_ok:
  assumes k: "0 < k" "k \<le> 4" and d: "32 \<le> k * d" and sz: "d + 2 \<le> unat sz"
  obtains m' p where "itopow2 num (int k) s sz m = Some (Inr (m', p))" "str_at m' p (pow_text k (unat num))"
    "\<And>b. \<not> unat (b - s) < unat sz \<Longrightarrow> m' b = m b"
proof -
  let ?ds = "pow_rev k (unat num) 0" and ?e = "s + (sz - 1)"
  let ?m = "write_down m (?e - 1) ?ds"
  have "unat num < 2 ^ 32" using unsigned_less [of num, where ?'a = nat] by simp
  also have "(2::nat) ^ 32 \<le> 2 ^ (k * d)" using d by (intro power_increasing) simp_all
  finally have l: "length ?ds \<le> d + 1" using pow_rev_length [OF k(1), of "unat num" d 0] d by (cases d) auto
  have sz32: "unat sz < 2 ^ 32" using unsigned_less [of sz, where ?'a = nat] by simp
  note v = pow_rev_value [OF k, of "unat num" 0]
  have sz1: "unat (sz - 1) = unat sz - 1" using sz by (intro unat_pred) auto
  have r: "itopow2 num (int k) s sz m = Some (Inr (?m(?e := 0), s + (sz - 1 - of_nat (length ?ds))))"
    using k by (simp add: itopow2_def itopow2_loop_ok [OF k])
  have comm: "?m(?e := 0) = write_down (m(?e := 0)) (?e - 1) ?ds"
  proof
    fix b
    have "?e - 1 - ?e = - 1" by simp
    then have "\<not> unat (?e - 1 - ?e) < length ?ds" using l sz sz32 by (simp only: unat_minus_one32)
    then show "(?m(?e := 0)) b = write_down (m(?e := 0)) (?e - 1) ?ds b"
      using l sz sz32 by (auto simp: write_down_at)
  qed
  have p: "s + (sz - 1 - of_nat (length ?ds)) = ?e - 1 + 1 - of_nat (length ?ds)" by simp
  show thesis
  proof (rule that [OF r [unfolded comm p]])
    show "str_at (write_down (m(?e := 0)) (?e - 1) ?ds) (?e - 1 + 1 - of_nat (length ?ds)) (pow_text k (unat num))"
      unfolding pow_text_def using l sz sz32 v by (intro write_down_str) simp_all
    fix b assume b: "\<not> unat (b - s) < unat sz"
    have "b \<noteq> ?e" using b sz1 sz by auto
    moreover have "write_down (m(?e := 0)) (?e - 1) ?ds b = (m(?e := 0)) b"
      using l sz1 sz sz32 b by (intro write_down_outside [where n = "unat (sz - 1)" and s = s]) simp_all
    ultimately show "write_down (m(?e := 0)) (?e - 1) ?ds b = m b" by simp
  qed
qed

end
