(* ===== verification/Uart.thy ===== *)
theory Uart
  imports Prelude "HOL-Library.Monad_Syntax"
begin

text \<open>
  \<open>uart16550.c\<close>: the serial driver. Every access of the driver is a volatile access of one register,
  so the device is seen through the values its reads return (\<open>env\<close>, the value of the \<open>n\<close>-th read)
  and the sequence of accesses made (\<open>trace\<close>). A polling loop that never sees its bit is \<open>None\<close>.
  The first argument \<open>el\<close> of the functions that touch bit-fields is \<open>MIPSEL\<close>: little endian or not.
\<close>

section \<open>The register block\<close>

text \<open>The registers of \<open>struct uart16550\<close> in their order; \<open>DATA\<close> is the union of tx, rx and baud_div_lo.\<close>

datatype uart_reg = DATA | INT_ENABLE | FIFO_CTRL | LINE_CTRL | MODEM_CTRL | LINE_STATUS | MODEM_STATUS

definition uart_regs :: "uart_reg list" where
  "uart_regs = [DATA, INT_ENABLE, FIFO_CTRL, LINE_CTRL, MODEM_CTRL, LINE_STATUS, MODEM_STATUS]"

text \<open>A register is one byte, or eight on the Malta board, where \<open>UART_PAD\<close> widens every union.\<close>

definition uart_stride :: "bool \<Rightarrow> nat" where
  "uart_stride pad = (if pad then 8 else 1)"

definition uart_offset :: "bool \<Rightarrow> uart_reg \<Rightarrow> nat" where
  "uart_offset pad r = uart_stride pad * length (takeWhile (\<lambda>q. q \<noteq> r) uart_regs)"

datatype access = Rd uart_reg u8 | Wr uart_reg u8

record uart =
  env :: "nat \<Rightarrow> u8"
  pos :: nat
  trace :: "access list"

definition reg_read :: "uart_reg \<Rightarrow> uart \<Rightarrow> u8 \<times> uart" where
  "reg_read r w = (let v = env w (pos w) in (v, w\<lparr>pos := Suc (pos w), trace := trace w @ [Rd r v]\<rparr>))"

definition reg_write :: "uart_reg \<Rightarrow> u8 \<Rightarrow> uart \<Rightarrow> uart" where
  "reg_write r v w = w\<lparr>trace := trace w @ [Wr r v]\<rparr>"

section \<open>Bit-fields\<close>

text \<open>
  The members of \<open>line_ctrl\<close> are bit-fields of a union, so each begins at the first bit of the byte:
  bit 0 on a little endian machine, bit 7 on a big endian one. Those of \<open>line_status\<close> are fields of a
  struct, one after the other.
\<close>

definition put_config :: "bool \<Rightarrow> u8 \<Rightarrow> u8 \<Rightarrow> u8" where
  "put_config el cfg old = (if el then (old AND 0xE0) OR (cfg AND 0x1F)
     else (old AND 0x07) OR push_bit 3 (cfg AND 0x1F))"

definition put_set_baud :: "bool \<Rightarrow> bool \<Rightarrow> u8 \<Rightarrow> u8" where
  "put_set_baud el b old = (if el then (old AND 0xFE) OR (if b then 0x01 else 0)
     else (old AND 0x7F) OR (if b then 0x80 else 0))"

definition data_available :: "u8 \<Rightarrow> bool" where "data_available v = bit v 0"
definition tx_empty :: "u8 \<Rightarrow> bool" where "tx_empty v = bit v 5"

section \<open>The driver\<close>

definition set_line_ctrl :: "(u8 \<Rightarrow> u8) \<Rightarrow> uart \<Rightarrow> uart" where
  "set_line_ctrl f w = (let (v, w1) = reg_read LINE_CTRL w in reg_write LINE_CTRL (f v) w1)"

definition uart16550_init :: "bool \<Rightarrow> u16 \<Rightarrow> u8 \<Rightarrow> uart \<Rightarrow> uart" where
  "uart16550_init el baud_div config w0 =
    (let w1 = set_line_ctrl (put_set_baud el True) w0;
         w2 = reg_write DATA (ucast baud_div) w1;
         w3 = reg_write INT_ENABLE (ucast (drop_bit 8 baud_div)) w2;
         w4 = set_line_ctrl (put_set_baud el False) w3;
         w5 = reg_write INT_ENABLE 0 w4;
         w6 = reg_write FIFO_CTRL 0 w5
     in set_line_ctrl (put_config el config) w6)"

partial_function (option) poll :: "(u8 \<Rightarrow> bool) \<Rightarrow> uart \<Rightarrow> uart option" where
  "poll ready w = (let (v, w1) = reg_read LINE_STATUS w in if \<not> ready v then poll ready w1 else Some w1)"

definition uart16550_getc :: "uart \<Rightarrow> (u8 \<times> uart) option" where
  "uart16550_getc w = do {
     w1 \<leftarrow> poll data_available w;
     let (ch, w2) = reg_read DATA w1;
     let ch' = (if ch = 13 then 10 else ch);
     Some (ch', w2) }"

text \<open>The \<open>goto again\<close> writes a carriage return after a newline, without polling again.\<close>

definition uart16550_putc :: "u8 \<Rightarrow> uart \<Rightarrow> uart option" where
  "uart16550_putc ch w = do {
     w1 \<leftarrow> poll tx_empty w;
     let w2 = reg_write DATA ch w1;
     Some (if ch = 10 then reg_write DATA 13 w2 else w2) }"

section \<open>Line settings (uart16550.h)\<close>

definition UART16550_BAUD_2400 :: u16 where "UART16550_BAUD_2400 = 115200 div 2400"
definition UART16550_BAUD_4800 :: u16 where "UART16550_BAUD_4800 = 115200 div 4800"
definition UART16550_BAUD_9600 :: u16 where "UART16550_BAUD_9600 = 115200 div 9600"
definition UART16550_BAUD_19200 :: u16 where "UART16550_BAUD_19200 = 115200 div 19200"
definition UART16550_BAUD_38400 :: u16 where "UART16550_BAUD_38400 = 115200 div 38400"
definition UART16550_BAUD_57600 :: u16 where "UART16550_BAUD_57600 = 115200 div 57600"
definition UART16550_BAUD_115200 :: u16 where "UART16550_BAUD_115200 = 115200 div 115200"

definition UART16550_PARITY_NONE :: u8 where "UART16550_PARITY_NONE = 0"
definition UART16550_PARITY_ODD :: u8 where "UART16550_PARITY_ODD = 0x08"
definition UART16550_PARITY_EVEN :: u8 where "UART16550_PARITY_EVEN = 0x18"
definition UART16550_PARITY_MARK :: u8 where "UART16550_PARITY_MARK = 0x28"
definition UART16550_PARITY_SPACE :: u8 where "UART16550_PARITY_SPACE = 0x38"

definition UART16550_DATA_5BIT :: u8 where "UART16550_DATA_5BIT = 0x0"
definition UART16550_DATA_6BIT :: u8 where "UART16550_DATA_6BIT = 0x1"
definition UART16550_DATA_7BIT :: u8 where "UART16550_DATA_7BIT = 0x2"
definition UART16550_DATA_8BIT :: u8 where "UART16550_DATA_8BIT = 0x3"

definition UART16550_STOP_1BIT :: u8 where "UART16550_STOP_1BIT = 0x0"
definition UART16550_STOP_2BIT :: u8 where "UART16550_STOP_2BIT = 0x4"

definition UART16550_8N1 :: u8 where
  "UART16550_8N1 = UART16550_DATA_8BIT OR UART16550_PARITY_NONE OR UART16550_STOP_1BIT"

section \<open>What goes over the line\<close>

text \<open>The bytes written to the data register, and those read from it as \<open>getc\<close> returns them.\<close>

definition sent :: "uart \<Rightarrow> u8 list" where
  "sent w = concat (map (\<lambda>e. case e of Wr DATA v \<Rightarrow> [v] | _ \<Rightarrow> []) (trace w))"

definition received :: "uart \<Rightarrow> u8 list" where
  "received w = concat (map (\<lambda>e. case e of Rd DATA v \<Rightarrow> [if v = 13 then 10 else v] | _ \<Rightarrow> []) (trace w))"

definition crlf :: "u8 \<Rightarrow> u8 list" where
  "crlf ch = (if ch = 10 then [10, 13] else [ch])"

text \<open>A device that always becomes ready again.\<close>

definition responsive :: "uart \<Rightarrow> bool" where
  "responsive w \<longleftrightarrow> (\<forall>n. \<exists>k \<ge> n. data_available (env w k)) \<and> (\<forall>n. \<exists>k \<ge> n. tx_empty (env w k))"

lemma traffic_simps [simp]:
  "sent (reg_write DATA v w) = sent w @ [v]" "received (reg_write r v w) = received w"
  "sent (snd (reg_read r w)) = sent w" "responsive (snd (reg_read r w)) = responsive w"
  "responsive (reg_write r v w) = responsive w" "env (reg_write r v w) = env w" "env (snd (reg_read r w)) = env w"
  "received (snd (reg_read LINE_STATUS w)) = received w"
  by (simp_all add: sent_def received_def reg_write_def reg_read_def responsive_def Let_def)

lemma poll_ok:
  assumes "\<forall>n. \<exists>k \<ge> n. ready (env w k)"
  shows "\<exists>w'. poll ready w = Some w' \<and> sent w' = sent w \<and> received w' = received w \<and> env w' = env w"
proof -
  obtain k where "pos w \<le> k" "ready (env w k)" using assms by blast
  then show ?thesis
  proof (induction "k - pos w" arbitrary: w)
    case 0
    then show ?case by (subst poll.simps) (simp add: reg_read_def Let_def sent_def received_def)
  next
    case (Suc d)
    let ?w1 = "snd (reg_read LINE_STATUS w)"
    have p: "pos ?w1 = Suc (pos w)" "env ?w1 = env w" by (simp_all add: reg_read_def Let_def)
    have v: "fst (reg_read LINE_STATUS w) = env w (pos w)" by (simp add: reg_read_def Let_def)
    show ?case
    proof (cases "ready (env w (pos w))")
      case True
      then show ?thesis using v by (subst poll.simps) (simp add: case_prod_unfold)
    next
      case False
      have "\<exists>w'. poll ready ?w1 = Some w' \<and> sent w' = sent ?w1 \<and> received w' = received ?w1 \<and> env w' = env ?w1"
        by (rule Suc.hyps(1)) (use Suc.hyps(2) Suc.prems p in auto)
      then show ?thesis using False v p by (subst poll.simps) (simp add: case_prod_unfold)
    qed
  qed
qed

lemma putc_ok:
  assumes "responsive w"
  shows "\<exists>w'. uart16550_putc ch w = Some w' \<and> responsive w' \<and> sent w' = sent w @ crlf ch \<and> received w' = received w \<and>
    env w' = env w"
proof -
  obtain w1 where "poll tx_empty w = Some w1" "sent w1 = sent w" "received w1 = received w" "env w1 = env w"
    using poll_ok [of tx_empty w] assms by (auto simp: responsive_def)
  then show ?thesis using assms by (auto simp: uart16550_putc_def Let_def crlf_def responsive_def)
qed

lemma getc_ok:
  assumes "responsive w"
  shows "\<exists>ch w'. uart16550_getc w = Some (ch, w') \<and> responsive w' \<and> sent w' = sent w \<and> received w' = received w @ [ch] \<and>
    env w' = env w"
proof -
  obtain w1 where w1: "poll data_available w = Some w1" "sent w1 = sent w" "received w1 = received w" "env w1 = env w"
    using poll_ok [of data_available w] assms by (auto simp: responsive_def)
  have "received (snd (reg_read DATA w1)) = received w1 @ [if fst (reg_read DATA w1) = 13 then 10 else fst (reg_read DATA w1)]"
    by (simp add: received_def reg_read_def Let_def)
  moreover have "responsive (snd (reg_read DATA w1))" using w1(4) assms by (simp add: responsive_def)
  moreover have "sent (snd (reg_read DATA w1)) = sent w" using w1(2) by simp
  ultimately show ?thesis using w1 by (simp add: uart16550_getc_def case_prod_unfold Let_def)
qed

section \<open>The console interface\<close>

text \<open>
  What the terminal code needs of a serial driver: \<open>put\<close> and \<open>get\<close> succeed while the line is up, what was
  sent and received is known, and the device (\<open>dev\<close>) behind it stays the same.
\<close>

fun emit :: "(u8 \<Rightarrow> 'w \<Rightarrow> 'w option) \<Rightarrow> u8 list \<Rightarrow> 'w \<Rightarrow> 'w option" where
  "emit put [] w = Some w"
| "emit put (c # cs) w = Option.bind (put c w) (emit put cs)"

locale console =
  fixes put :: "u8 \<Rightarrow> 'w \<Rightarrow> 'w option" and get :: "'w \<Rightarrow> (u8 \<times> 'w) option"
    and up :: "'w \<Rightarrow> bool" and out :: "'w \<Rightarrow> u8 list" and inp :: "'w \<Rightarrow> u8 list" and enc :: "u8 \<Rightarrow> u8 list"
    and dev :: "'w \<Rightarrow> 'd"
  assumes put_law: "up w \<Longrightarrow> \<exists>w'. put c w = Some w' \<and> up w' \<and> out w' = out w @ enc c \<and> inp w' = inp w \<and> dev w' = dev w"
    and get_law: "up w \<Longrightarrow> \<exists>c w'. get w = Some (c, w') \<and> up w' \<and> out w' = out w \<and> inp w' = inp w @ [c] \<and> dev w' = dev w"
begin

definition prints :: "'w \<Rightarrow> 'w \<Rightarrow> u8 list \<Rightarrow> bool" where
  "prints w w' cs \<longleftrightarrow> up w' \<and> out w' = out w @ concat (map enc cs) \<and> inp w' = inp w \<and> dev w' = dev w"

lemma prints_nil: "up w \<Longrightarrow> prints w w []"
  by (simp add: prints_def)

lemma prints_append: "prints w w1 cs \<Longrightarrow> prints w1 w2 ds \<Longrightarrow> prints w w2 (cs @ ds)"
  by (simp add: prints_def)

lemma prints_up: "prints w w' cs \<Longrightarrow> up w'"
  by (simp add: prints_def)

lemma put_prints: "up w \<Longrightarrow> \<exists>w'. put c w = Some w' \<and> prints w w' [c]"
  using put_law by (fastforce simp: prints_def)

lemma emit_prints: "up w \<Longrightarrow> \<exists>w'. emit put cs w = Some w' \<and> prints w w' cs"
proof (induction cs arbitrary: w)
  case Nil
  then show ?case by (simp add: prints_nil)
next
  case (Cons c cs)
  obtain w1 where 1: "put c w = Some w1" "prints w w1 [c]" using put_prints [OF Cons.prems] by blast
  obtain w2 where "emit put cs w1 = Some w2" "prints w1 w2 cs" using Cons.IH [OF prints_up [OF 1(2)]] by blast
  then show ?case using 1 prints_append [OF 1(2)] by fastforce
qed

end

interpretation serial: console uart16550_putc uart16550_getc responsive sent received crlf env
  by unfold_locales (simp_all add: putc_ok getc_ok)

end
