(* ===== verification/Tty.thy ===== *)
theory Tty
  imports CString_Correct Uart
begin

text \<open>
  \<open>tty.c\<close>: printing, line input, formatted output and the hex dump over the serial driver, and the
  loop of \<open>init.c\<close>. State is the memory and the line. Local arrays live in memory: the functions
  that have some take their addresses (\<open>vbuf\<close> of \<open>vprintf\<close>, the record \<open>frame\<close> of \<open>hexdump\<close>) as arguments,
  and what is proved holds for every address. A string literal that is only printed is
  printed as the list of its bytes.
\<close>

section \<open>Printing\<close>

partial_function (option) puts :: "memory \<Rightarrow> u32 \<Rightarrow> uart \<Rightarrow> uart option" where
  "puts m s w = (if m s \<noteq> 0 then Option.bind (uart16550_putc (m s) w) (puts m (s + 1)) else Some w)"

definition puts_lit :: "string \<Rightarrow> uart \<Rightarrow> uart option" where
  "puts_lit cs w = emit uart16550_putc (bytes cs) w"

fun putmem_loop :: "nat \<Rightarrow> memory \<Rightarrow> u32 \<Rightarrow> uart \<Rightarrow> uart option" where
  "putmem_loop 0 m s w = Some w"
| "putmem_loop (Suc n) m s w = Option.bind (uart16550_putc (m s) w) (putmem_loop n m (s + 1))"

definition putmem :: "memory \<Rightarrow> u32 \<Rightarrow> u32 \<Rightarrow> uart \<Rightarrow> uart option" where
  "putmem m s n w = putmem_loop (unat n) m s w"

section \<open>Line input\<close>

text \<open>
  The loop of \<open>gets_till\<close> with \<open>s\<close> and \<open>i\<close>; \<open>goto redo\<close> is a further call that does not move \<open>s\<close>. It
  returns the memory, the line and \<open>s\<close>.
\<close>

partial_function (option) gets_loop ::
  "u32 \<Rightarrow> u8 \<Rightarrow> u32 \<Rightarrow> u32 \<Rightarrow> memory \<Rightarrow> uart \<Rightarrow> (memory \<times> uart \<times> u32) option" where
  "gets_loop sz delim s i m w =
    Option.bind (uart16550_getc w) (\<lambda>(ch, w1).
    let m1 = m(s := ch) in
    if ch = 0x7F then
      (if i \<noteq> 0 then Option.bind (emit uart16550_putc [8, 32, 8] w1) (\<lambda>w2. gets_loop sz delim s (i - 1) m1 w2)
       else gets_loop sz delim s i m1 w1)
    else if ch = 4 then Some (m1, w1, s)
    else Option.bind (uart16550_putc ch w1) (\<lambda>w2.
      if ch \<noteq> delim \<and> i + 1 < sz then gets_loop sz delim (s + 1) (i + 1) m1 w2
      else Some (m1, w2, s + 1)))"

definition gets_till :: "u32 \<Rightarrow> u32 \<Rightarrow> u8 \<Rightarrow> memory \<Rightarrow> uart \<Rightarrow> (memory \<times> uart \<times> u32) option" where
  "gets_till buf sz delim m w =
    (if sz = 0 then Some (m, w, buf)
     else Option.bind (if sz > 1 then gets_loop sz delim buf 0 m w else Some (m, w, buf))
       (\<lambda>(m', w', s). Some (m'(s := 0), w', buf)))"

definition gets :: "u32 \<Rightarrow> u32 \<Rightarrow> memory \<Rightarrow> uart \<Rightarrow> (memory \<times> uart \<times> u32) option" where
  "gets s sz m w = gets_till s sz 10 m w"

section \<open>Formatted output\<close>

partial_function (option) scan_fmt :: "memory \<Rightarrow> u32 \<Rightarrow> u32 option" where
  "scan_fmt m fmt = (if m fmt \<noteq> 0 \<and> m fmt \<noteq> 37 then scan_fmt m (fmt + 1) else Some fmt)"

text \<open>The \<open>switch\<close> on the conversion character \<open>c\<close> with the argument \<open>val\<close>.\<close>

definition lift_io :: "'a option \<Rightarrow> 'a result option" where
  "lift_io x = map_option Inr x"

definition put_dec :: "u32 \<Rightarrow> u32 \<Rightarrow> memory \<Rightarrow> uart \<Rightarrow> (memory \<times> uart) result option" where
  "put_dec vbuf val m w = (let (m', p) = itodec val vbuf 64 m in
     obind (lift_io (puts m' p w)) (\<lambda>w'. Some (Inr (m', w'))))"

definition put_pow2 :: "u32 \<Rightarrow> u32 \<Rightarrow> int \<Rightarrow> memory \<Rightarrow> uart \<Rightarrow> (memory \<times> uart) result option" where
  "put_pow2 vbuf val k m w = obind (itopow2 val k vbuf 64 m) (\<lambda>(m', p).
     obind (lift_io (puts m' p w)) (\<lambda>w'. Some (Inr (m', w'))))"

definition print_conv :: "u32 \<Rightarrow> u8 \<Rightarrow> u32 \<Rightarrow> memory \<Rightarrow> uart \<Rightarrow> (memory \<times> uart) result option" where
  "print_conv vbuf c val m w =
    (if c \<in> set (bytes ''id'') then
       if val AND 0x80000000 \<noteq> 0
       then obind (lift_io (uart16550_putc 45 w)) (\<lambda>w1. put_dec vbuf (- val) m w1)
       else put_dec vbuf val m w
     else if c \<in> set (bytes ''u'') then put_dec vbuf val m w
     else if c \<in> set (bytes ''b'') then put_pow2 vbuf val 1 m w
     else if c \<in> set (bytes ''o'') then put_pow2 vbuf val 3 m w
     else if c \<in> set (bytes ''p'') then obind (lift_io (puts_lit ''0x'' w)) (\<lambda>w1. put_pow2 vbuf val 4 m w1)
     else if c \<in> set (bytes ''xX'') then put_pow2 vbuf val 4 m w
     else if c \<in> set (bytes ''c'') then obind (lift_io (uart16550_putc (ucast val) w)) (\<lambda>w1. Some (Inr (m, w1)))
     else if c \<in> set (bytes ''s'') then obind (lift_io (puts m val w)) (\<lambda>w1. Some (Inr (m, w1)))
     else if c = 0 then Some (Inr (m, w))
     else obind (lift_io (uart16550_putc c w)) (\<lambda>w1. Some (Inr (m, w1))))"

text \<open>Every conversion takes an argument; one more than were passed is a fault.\<close>

partial_function (option) vprintf ::
  "u32 \<Rightarrow> u32 \<Rightarrow> u32 list \<Rightarrow> memory \<Rightarrow> uart \<Rightarrow> (memory \<times> uart) result option" where
  "vprintf vbuf start args m w =
    obind (lift_io (scan_fmt m start)) (\<lambda>fmt.
    obind (lift_io (putmem m start (fmt - start) w)) (\<lambda>w1.
    if m fmt = 0 then Some (Inr (m, w1))
    else case args of
      [] \<Rightarrow> Some (Inl Missing_argument)
    | val # args' \<Rightarrow>
        obind (print_conv vbuf (m (fmt + 1)) val m w1) (\<lambda>(m', w2).
          vprintf vbuf (if m (fmt + 1) = 0 then fmt + 1 else fmt + 2) args' m' w2)))"

definition printf :: "u32 \<Rightarrow> u32 \<Rightarrow> u32 list \<Rightarrow> memory \<Rightarrow> uart \<Rightarrow> (memory \<times> uart) result option" where
  "printf vbuf fmt args m w = vprintf vbuf fmt args m w"

section \<open>The hex dump\<close>

text \<open>
  The addresses \<open>hexdump\<close> uses: \<open>buf\<close>, the two arrays called \<open>hexbuf\<close>, the buffer of \<open>vprintf\<close>, and
  the two format strings it passes to \<open>printf\<close>.
\<close>

record frame =
  f_ascii :: u32     \<comment> \<open>\<open>unsigned char buf[17]\<close>\<close>
  f_off :: u32       \<comment> \<open>\<open>char hexbuf[] = "0000"\<close>\<close>
  f_hex :: u32       \<comment> \<open>\<open>char hexbuf[] = "00"\<close>\<close>
  f_vbuf :: u32
  f_line :: u32      \<comment> \<open>the literal of the line end\<close>
  f_pad :: u32       \<comment> \<open>the literal of three blanks\<close>

text \<open>Initialising a local array with a string literal writes its bytes and the NUL.\<close>

fun store_bytes :: "u32 \<Rightarrow> u8 list \<Rightarrow> memory \<Rightarrow> memory" where
  "store_bytes a [] m = m"
| "store_bytes a (c # cs) m = store_bytes (a + 1) cs (m(a := c))"

definition init_array :: "u32 \<Rightarrow> string \<Rightarrow> memory \<Rightarrow> memory" where
  "init_array a lit m = store_bytes a (bytes lit @ [0]) m"

definition hexdump_offset :: "frame \<Rightarrow> u32 \<Rightarrow> memory \<Rightarrow> uart \<Rightarrow> (memory \<times> uart) result option" where
  "hexdump_offset fr i m w =
    (let m0 = init_array (f_off fr) ''0000'' m in
     obind (if i \<noteq> 0 then printf (f_vbuf fr) (f_line fr) [f_ascii fr] m0 w else Some (Inr (m0, w))) (\<lambda>(m1, w1).
     obind (lift_io (puts_lit ''  '' w1)) (\<lambda>w2.
     obind (itopow2 i 4 (f_off fr) 5 m1) (\<lambda>(m2, p).
     obind (lift_io (putmem m2 (f_off fr) 5 w2)) (\<lambda>w3.
     obind (lift_io (puts_lit '' '' w3)) (\<lambda>w4. Some (Inr (m2, w4))))))))"

definition hexdump_byte :: "frame \<Rightarrow> u32 \<Rightarrow> u32 \<Rightarrow> memory \<Rightarrow> uart \<Rightarrow> (memory \<times> uart) result option" where
  "hexdump_byte fr pc i m w =
    (let m0 = init_array (f_hex fr) ''00'' m in
     obind (lift_io (uart16550_putc 32 w)) (\<lambda>w1.
     obind (itopow2 (ucast (m0 (pc + i))) 4 (f_hex fr) 3 m0) (\<lambda>(m1, p).
     obind (lift_io (putmem m1 (f_hex fr) 3 w1)) (\<lambda>w2.
       let c = m1 (pc + i);
           a = f_ascii fr + i mod 16;
           m2 = m1(a := (if c < 0x20 \<or> 0x7E < c then of_nat (of_char CHR ''.'') else c))
       in Some (Inr (m2(a + 1 := 0), w2))))))"

partial_function (option) hexdump_loop ::
  "frame \<Rightarrow> u32 \<Rightarrow> u32 \<Rightarrow> u32 \<Rightarrow> memory \<Rightarrow> uart \<Rightarrow> (memory \<times> uart \<times> u32) result option" where
  "hexdump_loop fr pc len i m w =
    (if i < len then
       obind (if i mod 16 = 0 then hexdump_offset fr i m w else Some (Inr (m, w))) (\<lambda>(m1, w1).
       obind (hexdump_byte fr pc i m1 w1) (\<lambda>(m2, w2).
         hexdump_loop fr pc len (i + 1) m2 w2))
     else Some (Inr (m, w, i)))"

partial_function (option) hexdump_fill ::
  "frame \<Rightarrow> u32 \<Rightarrow> memory \<Rightarrow> uart \<Rightarrow> (memory \<times> uart) result option" where
  "hexdump_fill fr i m w =
    (if i mod 16 \<noteq> 0 then
       obind (printf (f_vbuf fr) (f_pad fr) [] m w) (\<lambda>(m1, w1). hexdump_fill fr (i + 1) m1 w1)
     else Some (Inr (m, w)))"

definition hexdump :: "frame \<Rightarrow> u32 \<Rightarrow> u32 \<Rightarrow> memory \<Rightarrow> uart \<Rightarrow> (memory \<times> uart) result option" where
  "hexdump fr addr len m w =
    (if addr = 0 \<or> len = 0 then Some (Inr (m, w))
     else obind (hexdump_loop fr addr len 0 m w) (\<lambda>(m1, w1, i).
          obind (hexdump_fill fr i m1 w1) (\<lambda>(m2, w2).
            printf (f_vbuf fr) (f_line fr) [f_ascii fr] m2 w2)))"

section \<open>The shell of init.c\<close>

definition prompt :: string where
  "prompt = CHR 0x1B # ''[31mr3k.vhdl%'' @ CHR 0x1B # ''[0m ''"

text \<open>One round of the \<open>while (1)\<close> of \<open>main\<close>; \<open>char buf[16] = ""\<close> clears the array.\<close>

definition main_round :: "frame \<Rightarrow> u32 \<Rightarrow> memory \<Rightarrow> uart \<Rightarrow> (memory \<times> uart) result option" where
  "main_round fr buf m w =
    (let m0 = store_bytes buf (replicate 16 0) m in
     obind (lift_io (puts_lit prompt w)) (\<lambda>w1.
     obind (lift_io (gets buf 16 m0 w1)) (\<lambda>(m1, w2, r).
     obind (lift_io (puts_lit (''You wrote: '' @ [CHR 0x0A]) w2)) (\<lambda>w3.
       hexdump fr buf 16 m1 w3))))"

text \<open>The first \<open>n\<close> rounds of the loop.\<close>

fun main_rounds :: "nat \<Rightarrow> frame \<Rightarrow> u32 \<Rightarrow> memory \<Rightarrow> uart \<Rightarrow> (memory \<times> uart) result option" where
  "main_rounds 0 fr buf m w = Some (Inr (m, w))"
| "main_rounds (Suc n) fr buf m w = obind (main_round fr buf m w) (\<lambda>(m1, w1). main_rounds n fr buf m1 w1)"

end
