(* ===== verification/Tty_Correct.thy ===== *)
theory Tty_Correct
  imports Tty
begin

text \<open>
  What \<open>tty.c\<close> prints: \<open>puts\<close> and \<open>putmem\<close> print the bytes in memory, \<open>vprintf\<close> prints the text a pure
  format function computes, and \<open>gets_till\<close> leaves what was typed. The lemmas use the console interface
  of theory \<open>Uart\<close> through its interpretation on the driver.
\<close>

section \<open>Strings\<close>

lemma str_at_Cons: "str_at m a (c # cs) \<longleftrightarrow> m a = c \<and> c \<noteq> 0 \<and> str_at m (a + 1) cs"
proof -
  have "(\<forall>i < Suc n. P i) \<longleftrightarrow> P 0 \<and> (\<forall>i < n. P (Suc i))" for P and n :: nat by (auto simp: less_Suc_eq_0_disj)
  then show ?thesis by (auto simp: str_at_def add.assoc)
qed

lemma str_at_Nil: "str_at m a [] \<longleftrightarrow> m a = 0"
  by (simp add: str_at_def)

lemma str_at_append: "str_at m a (xs @ ys) \<Longrightarrow> str_at m (a + of_nat (length xs)) ys \<and> mem_bytes m a (length xs) = xs"
proof (induction xs arbitrary: a)
  case (Cons x xs)
  then show ?case using Cons.IH [of "a + 1"] by (simp add: str_at_Cons add.assoc)
qed simp

lemma str_at_length:
  assumes "str_at m a cs"
  shows "length cs < 2 ^ 32"
proof (rule ccontr)
  assume "\<not> length cs < 2 ^ 32"
  define i where "i = length cs mod 2 ^ 32"
  have i: "i < length cs"
  proof -
    have "i < 2 ^ 32" by (simp add: i_def)
    then show ?thesis using \<open>\<not> length cs < 2 ^ 32\<close> by linarith
  qed
  have "(of_nat i :: u32) = of_nat (length cs)" by (simp add: i_def word_eq_iff_unat unat_of_nat take_bit_nat_def)
  then have "cs ! i = 0" using assms i by (auto simp: str_at_def)
  then show False using assms i by (metis str_at_def nth_mem)
qed

text \<open>Two memories that agree outside the \<open>n\<close> bytes at \<open>a\<close>, and a string that lies outside them.\<close>

definition outside :: "u32 \<Rightarrow> nat \<Rightarrow> memory \<Rightarrow> memory \<Rightarrow> bool" where
  "outside a n m m' \<longleftrightarrow> (\<forall>b. \<not> unat (b - a) < n \<longrightarrow> m' b = m b)"

definition clear_of :: "u32 \<Rightarrow> nat \<Rightarrow> u32 \<Rightarrow> nat \<Rightarrow> bool" where
  "clear_of a n s l \<longleftrightarrow> (\<forall>i \<le> l. \<not> unat (s + of_nat i - a) < n)"

lemma outside_refl: "outside a n m m" by (simp add: outside_def)

lemma outside_trans: "outside a n m m1 \<Longrightarrow> outside a n m1 m2 \<Longrightarrow> outside a n m m2"
  by (simp add: outside_def)

lemma str_at_outside: "str_at m s cs \<Longrightarrow> outside a n m m' \<Longrightarrow> clear_of a n s (length cs) \<Longrightarrow> str_at m' s cs"
  by (simp add: str_at_def outside_def clear_of_def)

lemma clear_of_tail: "clear_of a n s (Suc l) \<Longrightarrow> clear_of a n (s + 1) l"
  unfolding clear_of_def
proof (intro allI impI)
  fix i assume c: "\<forall>i \<le> Suc l. \<not> unat (s + of_nat i - a) < n" and "i \<le> l"
  then have "\<not> unat (s + of_nat (Suc i) - a) < n" by (simp del: of_nat_Suc)
  then show "\<not> unat (s + 1 + of_nat i - a) < n" by (simp add: add.assoc)
qed

lemma clear_of_drop: "clear_of a n s (k + l) \<Longrightarrow> clear_of a n (s + of_nat k) l"
  by (induction k arbitrary: s) (use clear_of_tail in \<open>fastforce simp: add.assoc\<close>)+

section \<open>Printing memory\<close>

lemma puts_ok:
  "str_at m s cs \<Longrightarrow> responsive w \<Longrightarrow> \<exists>w'. puts m s w = Some w' \<and> serial.prints w w' cs"
proof (induction cs arbitrary: s w)
  case Nil
  then show ?case by (subst puts.simps) (simp add: str_at_Nil serial.prints_nil)
next
  case (Cons c cs)
  have c: "m s = c" "c \<noteq> 0" "str_at m (s + 1) cs" using Cons.prems(1) by (simp_all add: str_at_Cons)
  obtain w1 where 1: "uart16550_putc c w = Some w1" "serial.prints w w1 [c]"
    using serial.put_prints [OF Cons.prems(2)] by blast
  obtain w2 where "puts m (s + 1) w1 = Some w2" "serial.prints w1 w2 cs"
    using Cons.IH [OF c(3) serial.prints_up [OF 1(2)]] by blast
  then show ?case using c 1 serial.prints_append [OF 1(2)] by (subst puts.simps) fastforce
qed

lemma putmem_loop_ok:
  "responsive w \<Longrightarrow> \<exists>w'. putmem_loop n m s w = Some w' \<and> serial.prints w w' (mem_bytes m s n)"
proof (induction n arbitrary: s w)
  case 0
  then show ?case by (simp add: serial.prints_nil)
next
  case (Suc n)
  obtain w1 where 1: "uart16550_putc (m s) w = Some w1" "serial.prints w w1 [m s]"
    using serial.put_prints [OF Suc.prems] by blast
  obtain w2 where "putmem_loop n m (s + 1) w1 = Some w2" "serial.prints w1 w2 (mem_bytes m (s + 1) n)"
    using Suc.IH [OF serial.prints_up [OF 1(2)]] by blast
  then show ?case using 1 serial.prints_append [OF 1(2)] by fastforce
qed

lemma puts_lit_ok: "responsive w \<Longrightarrow> \<exists>w'. puts_lit cs w = Some w' \<and> serial.prints w w' (bytes cs)"
  unfolding puts_lit_def by (rule serial.emit_prints)

section \<open>Conversions\<close>

text \<open>\<open>conv_text\<close>: what a conversion prints; \<open>S v\<close> is the string at address \<open>v\<close>.\<close>

definition conv_text :: "(u32 \<Rightarrow> u8 list) \<Rightarrow> u8 \<Rightarrow> u32 \<Rightarrow> u8 list" where
  "conv_text S c v =
    (if c \<in> set (bytes ''id'') then (if sint v < 0 then 45 # dec_text (nat (- sint v)) else dec_text (nat (sint v)))
     else if c \<in> set (bytes ''u'') then dec_text (unat v)
     else if c \<in> set (bytes ''b'') then pow_text 1 (unat v)
     else if c \<in> set (bytes ''o'') then pow_text 3 (unat v)
     else if c \<in> set (bytes ''p'') then bytes ''0x'' @ pow_text 4 (unat v)
     else if c \<in> set (bytes ''xX'') then pow_text 4 (unat v)
     else if c \<in> set (bytes ''c'') then [ucast v]
     else if c \<in> set (bytes ''s'') then S v
     else if c = 0 then [] else [c])"

definition prints_to :: "u32 \<Rightarrow> memory \<Rightarrow> uart \<Rightarrow> (memory \<times> uart) result option \<Rightarrow> u8 list \<Rightarrow> bool" where
  "prints_to vbuf m w r cs \<longleftrightarrow> (\<exists>m' w'. r = Some (Inr (m', w')) \<and> outside vbuf 64 m m' \<and> serial.prints w w' cs)"

lemma put_dec_ok: "responsive w \<Longrightarrow> prints_to vbuf m w (put_dec vbuf v m w) (dec_text (unat v))"
proof -
  assume w: "responsive w"
  obtain m' p where r: "itodec v vbuf 64 m = (m', p)" "str_at m' p (dec_text (unat v))"
    "\<And>b. \<not> unat (b - vbuf) < unat (64 :: u32) \<Longrightarrow> m' b = m b"
    by (rule itodec_ok [of 64 v vbuf m]) simp_all
  then show ?thesis using puts_ok [OF r(2) w] by (auto simp: prints_to_def put_dec_def lift_io_def outside_def)
qed

lemma put_pow2_ok:
  assumes k: "0 < k" "k \<le> 4" and d: "32 \<le> k * d" "d \<le> 62" and w: "responsive w"
  shows "prints_to vbuf m w (put_pow2 vbuf v (int k) m w) (pow_text k (unat v))"
proof -
  obtain m' p where r: "itopow2 v (int k) vbuf 64 m = Some (Inr (m', p))" "str_at m' p (pow_text k (unat v))"
    "\<And>b. \<not> unat (b - vbuf) < unat (64 :: u32) \<Longrightarrow> m' b = m b"
    by (rule itopow2_ok [OF k d(1), of 64 v vbuf m]) (use d(2) in simp_all)
  then show ?thesis using puts_ok [OF r(2) w] by (auto simp: prints_to_def put_pow2_def lift_io_def outside_def)
qed

lemma put_pow2_cases:
  assumes "responsive w"
  shows "prints_to vbuf m w (put_pow2 vbuf v 1 m w) (pow_text 1 (unat v))"
    "prints_to vbuf m w (put_pow2 vbuf v 3 m w) (pow_text 3 (unat v))"
    "prints_to vbuf m w (put_pow2 vbuf v 4 m w) (pow_text 4 (unat v))"
  using put_pow2_ok [of 1 32 w vbuf m v] put_pow2_ok [of 3 11 w vbuf m v] put_pow2_ok [of 4 8 w vbuf m v] assms
  by simp_all

lemma prints_to_more:
  assumes "outside vbuf 64 m m'" "serial.prints w w' cs" "prints_to vbuf m' w' r ds"
  shows "prints_to vbuf m w r (cs @ ds)"
  using assms(3) outside_trans [OF assms(1)] serial.prints_append [OF assms(2)] unfolding prints_to_def by blast

text \<open>Something printed first.\<close>

lemma prints_to_after:
  assumes "serial.prints w w1 cs" "prints_to vbuf m w1 r ds"
  shows "prints_to vbuf m w r (cs @ ds)"
  using assms serial.prints_append unfolding prints_to_def by blast

lemma prints_to_same: "serial.prints w w' cs \<Longrightarrow> prints_to vbuf m w (Some (Inr (m, w'))) cs"
  by (simp add: prints_to_def outside_refl)

lemma sign_word: "v AND 0x80000000 \<noteq> 0 \<longleftrightarrow> sint (v :: u32) < 0"
proof -
  have "v AND 0x80000000 \<noteq> 0 \<longleftrightarrow> bit v 31" using and_exp_eq_0_iff_not_bit [of v 31] by simp
  also have "\<dots> \<longleftrightarrow> sint v < 0" using bit_last_iff [of v] by simp
  finally show ?thesis .
qed

lemma sint_range: "- (2 ^ 31) \<le> sint (v :: u32) \<and> sint v < 2 ^ 31"
  using sint_greater_eq [of v] sint_less [of v] by simp

lemma uint_of_sint: "uint (v :: u32) = sint v mod 2 ^ 32"
  using uint_sint [of v] by (simp add: take_bit_eq_mod)

lemma unat_pos: "\<not> sint (v :: u32) < 0 \<Longrightarrow> unat v = nat (sint v)"
  using uint_of_sint [of v] sint_range [of v] nat_uint_eq [of v] by simp

lemma unat_neg: "sint (v :: u32) < 0 \<Longrightarrow> unat (- v) = nat (- sint v)"
proof -
  assume s: "sint v < 0"
  have "uint (- v) = (- uint v) mod 2 ^ 32" by (simp add: uint_word_ariths)
  also have "\<dots> = (- sint v) mod 2 ^ 32" by (simp only: uint_of_sint mod_minus_eq)
  also have "\<dots> = - sint v" using s sint_range [of v] by simp
  finally show ?thesis by (metis nat_uint_eq)
qed

lemma prints_if:
  "(b \<Longrightarrow> prints_to vbuf m w x cs) \<Longrightarrow> (\<not> b \<Longrightarrow> prints_to vbuf m w y ds) \<Longrightarrow>
    prints_to vbuf m w (if b then x else y) (if b then cs else ds)"
  by simp

lemma print_conv_ok:
  assumes w: "responsive w" and s: "c \<in> set (bytes ''s'') \<Longrightarrow> str_at m v (S v)"
  shows "prints_to vbuf m w (print_conv vbuf c v m w) (conv_text S c v)"
proof -
  have char: "prints_to vbuf m w (obind (lift_io (uart16550_putc b w)) (\<lambda>w1. Some (Inr (m, w1)))) [b]" for b
    using serial.put_prints [OF w, of b] prints_to_same by (fastforce simp: lift_io_def)
  have neg: "prints_to vbuf m w (obind (lift_io (uart16550_putc 45 w)) (\<lambda>w1. put_dec vbuf (- v) m w1)) (45 # dec_text (unat (- v)))"
  proof -
    obtain w1 where "uart16550_putc 45 w = Some w1" "serial.prints w w1 [45]" using serial.put_prints [OF w] by blast
    then show ?thesis
      using prints_to_after [OF _ put_dec_ok [OF serial.prints_up], of w w1 "[45]"] by (simp add: lift_io_def)
  qed
  have ptr: "prints_to vbuf m w (obind (lift_io (puts_lit ''0x'' w)) (\<lambda>w1. put_pow2 vbuf v 4 m w1)) (bytes ''0x'' @ pow_text 4 (unat v))"
  proof -
    obtain w1 where "puts_lit ''0x'' w = Some w1" "serial.prints w w1 (bytes ''0x'')" using puts_lit_ok [OF w] by blast
    then show ?thesis
      using prints_to_after [OF _ put_pow2_cases(3) [OF serial.prints_up], of w w1 "bytes ''0x''"]
      by (simp add: lift_io_def)
  qed
  have str: "prints_to vbuf m w (obind (lift_io (puts m v w)) (\<lambda>w1. Some (Inr (m, w1)))) (S v)"
    if "c \<in> set (bytes ''s'')"
    using puts_ok [OF s [OF that] w] prints_to_same by (fastforce simp: lift_io_def)
  have none: "prints_to vbuf m w (Some (Inr (m, w))) []" by (rule prints_to_same [OF serial.prints_nil [OF w]])
  show ?thesis
    unfolding print_conv_def conv_text_def sign_word
    by (intro prints_if) (use char neg ptr str none put_dec_ok [OF w, of vbuf m v] put_pow2_cases [OF w]
      unat_neg [of v] unat_pos [of v] in \<open>simp_all only: simp_thms\<close>)
qed

section \<open>Formatted output\<close>

text \<open>
  The text a format string prints, if there is an argument for every \<open>%\<close>; a lone \<open>%\<close> at the end takes
  one as well. \<open>used_strings\<close> are the arguments that are read as strings.
\<close>

fun format :: "(u32 \<Rightarrow> u8 list) \<Rightarrow> u8 list \<Rightarrow> u32 list \<Rightarrow> u8 list option" where
  "format S [] args = Some []"
| "format S (c # cs) args =
    (if c \<noteq> 37 then map_option ((#) c) (format S cs args)
     else case args of
       [] \<Rightarrow> None
     | v # vs \<Rightarrow>
        (case cs of [] \<Rightarrow> Some [] | d # ds \<Rightarrow> map_option ((@) (conv_text S d v)) (format S ds vs)))"

fun used_strings :: "u8 list \<Rightarrow> u32 list \<Rightarrow> u32 list" where
  "used_strings [] args = []"
| "used_strings (c # cs) args =
    (if c \<noteq> 37 then used_strings cs args
     else case args of
       [] \<Rightarrow> []
     | v # vs \<Rightarrow>
        (case cs of [] \<Rightarrow> []
         | d # ds \<Rightarrow> (if d \<in> set (bytes ''s'') then [v] else []) @ used_strings ds vs))"

lemma format_plain:
  "37 \<notin> set xs \<Longrightarrow> format S (xs @ ys) args = map_option ((@) xs) (format S ys args)"
  "37 \<notin> set xs \<Longrightarrow> used_strings (xs @ ys) args = used_strings ys args"
  by (induction xs) (auto simp: option.map_comp comp_def option.map_id0 map_option_case split: option.splits)

lemma scan_fmt_ok:
  "str_at m a (xs @ ys) \<Longrightarrow> 37 \<notin> set xs \<Longrightarrow> ys = [] \<or> hd ys = 37 \<Longrightarrow> scan_fmt m a = Some (a + of_nat (length xs))"
proof (induction xs arbitrary: a)
  case Nil
  then show ?case by (cases ys) (subst scan_fmt.simps, simp add: str_at_Cons str_at_Nil)+
next
  case (Cons x xs)
  then show ?case using Cons.IH [of "a + 1"] by (subst scan_fmt.simps) (simp add: str_at_Cons add.assoc)
qed

lemma split_percent: obtains xs ys where "cs = xs @ ys" "37 \<notin> set xs" "ys = [] \<or> hd ys = (37 :: u8)"
proof (rule that)
  show "cs = takeWhile (\<lambda>c. c \<noteq> 37) cs @ dropWhile (\<lambda>c. c \<noteq> 37) cs" by simp
  show "37 \<notin> set (takeWhile (\<lambda>c. c \<noteq> 37) cs)" by (auto dest: set_takeWhileD)
  show "dropWhile (\<lambda>c. c \<noteq> 37) cs = [] \<or> hd (dropWhile (\<lambda>c. c \<noteq> 37) cs) = 37"
    using hd_dropWhile [of "\<lambda>c. c \<noteq> 37" cs] by blast
qed

text \<open>The plain text up to the next conversion.\<close>

lemma putmem_prefix:
  assumes "str_at m a (xs @ ys)" "responsive w"
  shows "\<exists>w'. putmem m a (a + of_nat (length xs) - a) w = Some w' \<and> serial.prints w w' xs"
proof -
  have "length xs < 2 ^ 32" using str_at_length [OF assms(1)] by simp
  then have "unat (of_nat (length xs) :: u32) = length xs" by (rule unat_of_nat32)
  then show ?thesis
    using putmem_loop_ok [OF assms(2), of "length xs" m a] str_at_append [OF assms(1)] by (simp add: putmem_def)
qed

definition strings_at :: "memory \<Rightarrow> u32 \<Rightarrow> (u32 \<Rightarrow> u8 list) \<Rightarrow> u32 list \<Rightarrow> bool" where
  "strings_at m vbuf S vs \<longleftrightarrow> (\<forall>v \<in> set vs. str_at m v (S v) \<and> clear_of vbuf 64 v (length (S v)))"

lemma strings_at_outside: "strings_at m vbuf S vs \<Longrightarrow> outside vbuf 64 m m' \<Longrightarrow> strings_at m' vbuf S vs"
  unfolding strings_at_def using str_at_outside by blast

lemma vprintf_ok:
  "str_at m fmt cs \<Longrightarrow> clear_of vbuf 64 fmt (length cs) \<Longrightarrow> strings_at m vbuf S (used_strings cs args) \<Longrightarrow>
    responsive w \<Longrightarrow> format S cs args = Some res \<Longrightarrow> prints_to vbuf m w (vprintf vbuf fmt args m w) res"
proof (induction "length cs" arbitrary: cs fmt args m w res rule: less_induct)
  case less
  obtain xs ys where cs: "cs = xs @ ys" and x: "37 \<notin> set xs" and y: "ys = [] \<or> hd ys = 37" by (rule split_percent)
  let ?f = "fmt + of_nat (length xs)"
  note str = less.prems(1) [unfolded cs]
  have scan: "scan_fmt m fmt = Some ?f" by (rule scan_fmt_ok [OF str x y])
  obtain w1 where w1: "putmem m fmt (?f - fmt) w = Some w1" "serial.prints w w1 xs"
    using putmem_prefix [OF str less.prems(4)] by blast
  have yat: "str_at m ?f ys" using str_at_append [OF str] by blast
  obtain t where t: "format S ys args = Some t" "res = xs @ t"
    using less.prems(5) by (auto simp: cs format_plain(1) [OF x])
  have "prints_to vbuf m w1 (if m ?f = 0 then Some (Inr (m, w1)) else case args of
      [] \<Rightarrow> Some (Inl Missing_argument)
    | val # args' \<Rightarrow> obind (print_conv vbuf (m (?f + 1)) val m w1) (\<lambda>(m', w2).
          vprintf vbuf (if m (?f + 1) = 0 then ?f + 1 else ?f + 2) args' m' w2)) t"
  proof (cases ys)
    case Nil
    then show ?thesis using yat t prints_to_same [OF serial.prints_nil [OF serial.prints_up [OF w1(2)]]]
      by (simp add: str_at_Nil)
  next
    case (Cons y0 ds)
    then have ds: "ys = 37 # ds" using y by simp
    obtain v vs where args: "args = v # vs" using t(1) ds by (cases args) auto
    have m0: "m ?f \<noteq> 0" "str_at m (?f + 1) ds" using yat ds by (simp_all add: str_at_Cons)
    have c: "m (?f + 1) = (case ds of [] \<Rightarrow> 0 | d # _ \<Rightarrow> d)"
      using m0(2) by (cases ds) (simp_all add: str_at_Nil str_at_Cons)
    have conv: "prints_to vbuf m w1 (print_conv vbuf (m (?f + 1)) v m w1) (conv_text S (m (?f + 1)) v)"
    proof (rule print_conv_ok [OF serial.prints_up [OF w1(2)]])
      assume "m (?f + 1) \<in> set (bytes ''s'')"
      then show "str_at m v (S v)"
        using less.prems(3) c by (cases ds) (auto simp: cs format_plain(2) [OF x] ds args strings_at_def bytes_def)
    qed
    obtain m' w2 where r: "print_conv vbuf (m (?f + 1)) v m w1 = Some (Inr (m', w2))" and o: "outside vbuf 64 m m'"
      and p: "serial.prints w1 w2 (conv_text S (m (?f + 1)) v)" using conv by (auto simp: prints_to_def)
    define cs' where "cs' = tl ds"
    let ?n = "if m (?f + 1) = 0 then ?f + 1 else ?f + 2"
    have "str_at m ?n cs' \<and> clear_of vbuf 64 ?n (length cs') \<and> length cs' < length cs \<and>
      strings_at m vbuf S (used_strings cs' vs) \<and>
      (\<exists>t'. format S cs' vs = Some t' \<and> t = conv_text S (m (?f + 1)) v @ t')"
    proof (cases ds)
      case Nil
      have "clear_of vbuf 64 (fmt + of_nat (Suc (length xs))) 0"
        using clear_of_drop [of vbuf 64 fmt "Suc (length xs)" 0] less.prems(2) by (simp add: cs ds Nil)
      moreover have "fmt + of_nat (Suc (length xs)) = ?f + 1" by simp
      ultimately have "clear_of vbuf 64 (?f + 1) 0" by (simp only:)
      then show ?thesis
        using Nil c m0(2) t(1) ds args
        by (simp add: cs cs'_def strings_at_def conv_text_def bytes_def)
    next
      case (Cons d ds')
      have d: "m (?f + 1) = d" "d \<noteq> 0" "str_at m (?f + 1 + 1) ds'"
        using m0(2) unfolding Cons str_at_Cons by simp_all
      have two: "?f + 1 + 1 = ?f + 2" "fmt + of_nat (Suc (Suc (length xs))) = ?f + 2" by simp_all
      have "clear_of vbuf 64 (?f + 2) (length ds')"
        using clear_of_drop [of vbuf 64 fmt "Suc (Suc (length xs))" "length ds'"] less.prems(2)
        by (simp only: two) (simp add: cs ds Cons)
      then show ?thesis
        using d [unfolded two] t(1) ds args Cons less.prems(3)
        by (auto simp: cs cs'_def format_plain(2) [OF x] strings_at_def)
    qed
    then obtain t' where n: "str_at m ?n cs'" "clear_of vbuf 64 ?n (length cs')" "length cs' < length cs"
      "strings_at m vbuf S (used_strings cs' vs)" "format S cs' vs = Some t'" "t = conv_text S (m (?f + 1)) v @ t'"
      by blast
    have "prints_to vbuf m' w2 (vprintf vbuf ?n vs m' w2) t'"
      using less.hyps [OF n(3) str_at_outside [OF n(1) o n(2)] n(2) strings_at_outside [OF n(4) o] serial.prints_up [OF p] n(5)] .
    then show ?thesis
      using m0(1) args r n(6) prints_to_more [OF o p] by simp
  qed
  then show ?case
    using prints_to_after [OF w1(2)] scan w1(1) t(2) by (subst vprintf.simps) (simp add: lift_io_def)
qed

section \<open>Line input\<close>

text \<open>
  What \<open>gets_till\<close> makes of the characters \<open>R\<close> it received: those it keeps, and what it echoes. A delete
  (\<open>0x7F\<close>) is not kept and lowers the count \<open>i\<close>, but does not take the character before it back.
\<close>

fun typed :: "u32 \<Rightarrow> u8 \<Rightarrow> u32 \<Rightarrow> u8 list \<Rightarrow> u8 list" where
  "typed sz delim i [] = []"
| "typed sz delim i (c # R) =
    (if c = 0x7F then typed sz delim (if i \<noteq> 0 then i - 1 else i) R
     else if c = 4 then []
     else c # (if c \<noteq> delim \<and> i + 1 < sz then typed sz delim (i + 1) R else []))"

fun echo :: "u32 \<Rightarrow> u8 \<Rightarrow> u32 \<Rightarrow> u8 list \<Rightarrow> u8 list" where
  "echo sz delim i [] = []"
| "echo sz delim i (c # R) =
    (if c = 0x7F then (if i \<noteq> 0 then [8, 32, 8] @ echo sz delim (i - 1) R else echo sz delim i R)
     else if c = 4 then []
     else c # (if c \<noteq> delim \<and> i + 1 < sz then echo sz delim (i + 1) R else []))"

lemma typed_length: "length (typed sz delim i R) \<le> length R"
  by (induction R arbitrary: i) (auto intro: le_SucI)

definition gets_result ::
  "u32 \<Rightarrow> u8 \<Rightarrow> u32 \<Rightarrow> u32 \<Rightarrow> memory \<Rightarrow> uart \<Rightarrow> memory \<Rightarrow> uart \<Rightarrow> u32 \<Rightarrow> u8 list \<Rightarrow> bool" where
  "gets_result sz delim s i m w m' w' s' R \<longleftrightarrow> responsive w' \<and> env w' = env w \<and> received w' = received w @ R \<and>
    sent w' = sent w @ concat (map crlf (echo sz delim i R)) \<and>
    (length R < 2 ^ 32 - 1 \<longrightarrow> s' = s + of_nat (length (typed sz delim i R)) \<and>
      mem_bytes m' s (length (typed sz delim i R)) = typed sz delim i R \<and>
      outside s (Suc (length (typed sz delim i R))) m m')"

lemma outside_set: "outside s (Suc n) m (m(s := c))"
  by (auto simp: outside_def)

lemma outside_shift:
  assumes "outside (s + 1) n m m'" "n < 2 ^ 32"
  shows "outside s (Suc n) m m'"
  unfolding outside_def
proof (intro allI impI)
  fix b assume b: "\<not> unat (b - s) < Suc n"
  then have "b - s \<noteq> 0" by auto
  then have "unat (b - s - 1) = unat (b - s) - 1" by (rule unat_pred)
  moreover have "b - s - 1 = b - (s + 1)" by simp
  ultimately have "\<not> unat (b - (s + 1)) < n" using b by simp
  then show "m' b = m b" using assms(1) by (simp add: outside_def)
qed

lemma outside_before: "outside (s + 1) n m m' \<Longrightarrow> n < 2 ^ 32 \<Longrightarrow> m' s = m s"
proof -
  assume o: "outside (s + 1) n m m'" and n: "n < 2 ^ 32"
  have "s - (s + 1) = - 1" by simp
  then have "unat (s - (s + 1)) = 2 ^ 32 - 1" by (simp only: unat_minus_one32)
  then have "\<not> unat (s - (s + 1)) < n" using n by simp
  then show ?thesis using o by (simp add: outside_def)
qed

lemma gets_result_store:
  assumes "gets_result sz delim (s + 1) (i + 1) (m(s := c)) w2 m' w' s' R"
    and "received w2 = received w @ [c]" "sent w2 = sent w @ crlf c" "c \<noteq> 0x7F" "c \<noteq> 4" "c \<noteq> delim \<and> i + 1 < sz"
    and "env w2 = env w"
  shows "gets_result sz delim s i m w m' w' s' (c # R)"
proof -
  let ?T = "typed sz delim (i + 1) R"
  have T: "typed sz delim i (c # R) = c # ?T" and E: "echo sz delim i (c # R) = c # echo sz delim (i + 1) R"
    using assms(4-6) by simp_all
  note r = assms(1) [unfolded gets_result_def]
  have mem: "s' = s + of_nat (length (c # ?T)) \<and> mem_bytes m' s (length (c # ?T)) = c # ?T \<and>
      outside s (Suc (length (c # ?T))) m m'" if l: "length (c # R) < 2 ^ 32 - 1"
  proof -
    have lt: "Suc (length ?T) < 2 ^ 32" using l typed_length [of sz delim "i + 1" R] by simp
    have o: "outside (s + 1) (Suc (length ?T)) (m(s := c)) m'" using r l by simp
    have "m' s = c" using outside_before [OF o lt] by simp
    moreover have "outside s (Suc (Suc (length ?T))) m m'"
      using outside_trans [OF outside_set outside_shift [OF o lt]] by simp
    ultimately show ?thesis using r l by (simp add: add.assoc)
  qed
  show ?thesis using r assms(2,3,7) mem unfolding gets_result_def T E by simp
qed

text \<open>One round of the loop, for a continuation \<open>rec\<close> that has the result already.\<close>

lemma gets_step:
  assumes IH: "\<And>sz delim s i m w r. rec sz delim s i m w = Some r \<Longrightarrow>
      responsive w \<longrightarrow> (\<exists>R. gets_result sz delim s i m w (fst r) (fst (snd r)) (snd (snd r)) R)"
    and step: "Option.bind (uart16550_getc w) (\<lambda>(ch, w1).
      let m1 = m(s := ch) in
      if ch = 0x7F then
        (if i \<noteq> 0 then Option.bind (emit uart16550_putc [8, 32, 8] w1) (\<lambda>w2. rec sz delim s (i - 1) m1 w2)
         else rec sz delim s i m1 w1)
      else if ch = 4 then Some (m1, w1, s)
      else Option.bind (uart16550_putc ch w1) (\<lambda>w2.
        if ch \<noteq> delim \<and> i + 1 < sz then rec sz delim (s + 1) (i + 1) m1 w2
        else Some (m1, w2, s + 1))) = Some r" and up: "responsive w"
  shows "\<exists>R. gets_result sz delim s i m w (fst r) (fst (snd r)) (snd (snd r)) R"
proof -
  obtain c w1 where g: "uart16550_getc w = Some (c, w1)" "responsive w1" "sent w1 = sent w"
    "received w1 = received w @ [c]" "env w1 = env w" using serial.get_law [OF up] by blast
  note body = step [unfolded g(1) bind.simps prod.case Let_def]
  consider (del) "c = 0x7F" "i \<noteq> 0" | (del0) "c = 0x7F" "i = 0" | (eof) "c = 4" | (char) "c \<noteq> 0x7F" "c \<noteq> 4" by blast
  then show ?thesis
  proof cases
    case del
    obtain w2 where e: "emit uart16550_putc [8, 32, 8] w1 = Some w2" "serial.prints w1 w2 [8, 32, 8]"
      using serial.emit_prints [OF g(2)] by blast
    then obtain R where R: "gets_result sz delim s (i - 1) (m(s := c)) w2 (fst r) (fst (snd r)) (snd (snd r)) R"
      using IH [of sz delim s "i - 1" "m(s := c)" w2 r] body del serial.prints_up [OF e(2)] by auto
    then have "gets_result sz delim s i m w (fst r) (fst (snd r)) (snd (snd r)) (c # R)"
      using del g e(2) outside_trans [OF outside_set] by (auto simp: gets_result_def serial.prints_def)
    then show ?thesis by blast
  next
    case del0
    then obtain R where R: "gets_result sz delim s i (m(s := c)) w1 (fst r) (fst (snd r)) (snd (snd r)) R"
      using IH [of sz delim s i "m(s := c)" w1 r] body g(2) by auto
    then have "gets_result sz delim s i m w (fst r) (fst (snd r)) (snd (snd r)) (c # R)"
      using del0 g outside_trans [OF outside_set] by (auto simp: gets_result_def)
    then show ?thesis by blast
  next
    case eof
    then have "r = (m(s := c), w1, s)" using body by simp
    then have "gets_result sz delim s i m w (fst r) (fst (snd r)) (snd (snd r)) [c]"
      using eof g outside_set [of s 0 m c] by (simp add: gets_result_def)
    then show ?thesis by blast
  next
    case char
    obtain w2 where e: "uart16550_putc c w1 = Some w2" "responsive w2" "sent w2 = sent w1 @ crlf c"
      "received w2 = received w1" "env w2 = env w1" using serial.put_law [OF g(2)] by blast
    show ?thesis
    proof (cases "c \<noteq> delim \<and> i + 1 < sz")
      case True
      then obtain R where R: "gets_result sz delim (s + 1) (i + 1) (m(s := c)) w2 (fst r) (fst (snd r)) (snd (snd r)) R"
        using IH [of sz delim "s + 1" "i + 1" "m(s := c)" w2 r] body char e by auto
      show ?thesis using gets_result_store [OF R _ _ char True] g e by auto
    next
      case False
      then have "r = (m(s := c), w2, s + 1)" using body char e by auto
      then have "gets_result sz delim s i m w (fst r) (fst (snd r)) (snd (snd r)) [c]"
        using char e g outside_set [of s 1 m c] False by (auto simp: gets_result_def)
      then show ?thesis by blast
    qed
  qed
qed

lemma gets_loop_result:
  assumes "gets_loop sz delim s i m w = Some r" "responsive w"
  shows "\<exists>R. gets_result sz delim s i m w (fst r) (fst (snd r)) (snd (snd r)) R"
proof -
  have "responsive w \<longrightarrow> (\<exists>R. gets_result sz delim s i m w (fst r) (fst (snd r)) (snd (snd r)) R)"
  proof (rule gets_loop.raw_induct [where P = "\<lambda>sz delim s i m w r. responsive w \<longrightarrow>
      (\<exists>R. gets_result sz delim s i m w (fst r) (fst (snd r)) (snd (snd r)) R)", OF _ assms(1)], rule impI)
    fix rec sz delim s i m w r
    assume IH: "\<And>sz delim s i m w r. rec sz delim s i m w = Some r \<Longrightarrow>
        responsive w \<longrightarrow> (\<exists>R. gets_result sz delim s i m w (fst r) (fst (snd r)) (snd (snd r)) R)"
      and step: "Option.bind (uart16550_getc w) (\<lambda>(ch, w1).
        let m1 = m(s := ch) in
        if ch = 0x7F then
          (if i \<noteq> 0 then Option.bind (emit uart16550_putc [8, 32, 8] w1) (\<lambda>w2. rec sz delim s (i - 1) m1 w2)
           else rec sz delim s i m1 w1)
        else if ch = 4 then Some (m1, w1, s)
        else Option.bind (uart16550_putc ch w1) (\<lambda>w2.
          if ch \<noteq> delim \<and> i + 1 < sz then rec sz delim (s + 1) (i + 1) m1 w2
          else Some (m1, w2, s + 1))) = Some r" and up: "responsive w"
    show "\<exists>R. gets_result sz delim s i m w (fst r) (fst (snd r)) (snd (snd r)) R"
      by (rule gets_step [where rec = rec, OF _ step up]) (rule IH)
  qed
  then show ?thesis using assms(2) by blast
qed

text \<open>The loop ends if no delete arrives: every round counts \<open>i\<close> up.\<close>

definition no_delete :: "uart \<Rightarrow> bool" where
  "no_delete w \<longleftrightarrow> (\<forall>n. env w n \<noteq> 0x7F)"

lemma poll_env:
  assumes "responsive w"
  shows "\<exists>w'. poll data_available w = Some w' \<and> env w' = env w"
  using poll_ok [of data_available w] assms by (auto simp: responsive_def)

lemma putc_env: "responsive w \<Longrightarrow> uart16550_putc c w = Some w' \<Longrightarrow> env w' = env w"
  using poll_ok [of tx_empty w] by (auto simp: responsive_def uart16550_putc_def Let_def split: if_splits)

lemma getc_no_delete:
  assumes "responsive w" "no_delete w" "uart16550_getc w = Some (c, w')"
  shows "c \<noteq> 0x7F \<and> no_delete w'"
proof -
  obtain w1 where "poll data_available w = Some w1" "env w1 = env w" using poll_env [OF assms(1)] by blast
  then show ?thesis using assms(2,3)
    by (auto simp: uart16550_getc_def reg_read_def no_delete_def Let_def split: if_splits)
qed

lemma gets_loop_ends:
  "responsive w \<Longrightarrow> no_delete w \<Longrightarrow> i < sz \<Longrightarrow> \<exists>m' w' s' R. gets_loop sz delim s i m w = Some (m', w', s') \<and>
    received w' = received w @ R \<and> 0x7F \<notin> set R \<and> length R \<le> unat sz - unat i"
proof (induction "unat sz - unat i" arbitrary: s i m w rule: less_induct)
  case less
  obtain c w1 where g: "uart16550_getc w = Some (c, w1)" "responsive w1" "received w1 = received w @ [c]"
    using serial.get_law [OF less.prems(1)] by blast
  note nd = getc_no_delete [OF less.prems(1,2) g(1)]
  obtain w2 where p: "uart16550_putc c w1 = Some w2" "responsive w2" "received w2 = received w1"
    using serial.put_law [OF g(2)] by blast
  have nd2: "no_delete w2" using nd putc_env [OF g(2) p(1)] by (simp add: no_delete_def)
  have lt: "unat i < unat sz" using less.prems(3) by (simp add: word_less_nat_alt)
  show ?case
  proof (cases "c \<noteq> 4 \<and> c \<noteq> delim \<and> i + 1 < sz")
    case True
    have "unat i + unat (1 :: u32) < 2 ^ LENGTH(32)" using lt unsigned_less [of sz, where ?'a = nat] by simp
    then have i1: "unat (i + 1) = Suc (unat i)" by (subst unat_add_small) simp_all
    then have "unat sz - unat (i + 1) < unat sz - unat i" using lt by simp
    then obtain m' w' s' R where "gets_loop sz delim (s + 1) (i + 1) (m(s := c)) w2 = Some (m', w', s')"
      "received w' = received w2 @ R" "0x7F \<notin> set R" "length R \<le> unat sz - unat (i + 1)"
      using less.hyps [OF _ p(2) nd2] True by blast
    then show ?thesis using g(1,3) p(1,3) nd True i1 lt
      by (intro exI [of _ m'] exI [of _ w'] exI [of _ s'] exI [of _ "c # R"])
        (subst gets_loop.simps, auto simp: Let_def)
  next
    case False
    then show ?thesis using g(1,3) p(1,3) nd lt by (subst gets_loop.simps) (auto simp: Let_def)
  qed
qed

lemma gets_till_ok:
  assumes w: "responsive w" "no_delete w" and sz: "1 < sz"
  obtains m' w' R where "gets_till buf sz delim m w = Some (m', w', buf)" "responsive w'" "env w' = env w"
    "0x7F \<notin> set R" "length R \<le> unat sz" "received w' = received w @ R" "sent w' = sent w @ concat (map crlf (echo sz delim 0 R))"
    "length R < 2 ^ 32 - 1 \<Longrightarrow> mem_bytes m' buf (length (typed sz delim 0 R)) = typed sz delim 0 R \<and>
      m' (buf + of_nat (length (typed sz delim 0 R))) = 0 \<and>
      outside buf (Suc (length (typed sz delim 0 R))) m m'"
proof -
  have "(0 :: u32) < sz" using sz by (simp add: word_less_nat_alt)
  then obtain m1 w' s' R0 where g: "gets_loop sz delim buf 0 m w = Some (m1, w', s')"
    and R0: "received w' = received w @ R0" "0x7F \<notin> set R0" "length R0 \<le> unat sz"
    using gets_loop_ends [OF w] by fastforce
  obtain R where R: "gets_result sz delim buf 0 m w m1 w' s' R" using gets_loop_result [OF g w(1)] by auto
  then have "R0 = R" using R0(1) by (simp add: gets_result_def)
  let ?T = "typed sz delim 0 R"
  have r: "gets_till buf sz delim m w = Some (m1(s' := 0), w', buf)"
    using g sz by (auto simp: gets_till_def)
  show thesis
  proof (rule that [OF r, of R])
    assume l: "length R < 2 ^ 32 - 1"
    have T: "length ?T < 2 ^ 32" "length ?T < Suc (length ?T)" using l typed_length [of sz delim 0 R] by simp_all
    have s': "s' = buf + of_nat (length ?T)" and mb: "mem_bytes m1 buf (length ?T) = ?T"
      and o: "outside buf (Suc (length ?T)) m m1" using R l by (simp_all add: gets_result_def)
    have "buf + of_nat i \<noteq> s'" if "i < length ?T" for i
    proof
      assume "buf + of_nat i = s'"
      then have "(of_nat i :: u32) = of_nat (length ?T)" by (simp add: s')
      then have "unat (of_nat i :: u32) = unat (of_nat (length ?T) :: u32)" by (simp only:)
      then show False using that T(1) unat_of_nat32 [of i] unat_of_nat32 [OF T(1)] by simp
    qed
    then have "mem_bytes (m1(s' := 0)) buf (length ?T) = mem_bytes m1 buf (length ?T)"
      unfolding mem_bytes_def by (intro map_cong) (auto simp: fun_upd_apply)
    then have "mem_bytes (m1(s' := 0)) buf (length ?T) = ?T" using mb by (simp only:)
    moreover have "outside buf (Suc (length ?T)) m (m1(s' := 0))"
      using o T unat_of_nat32 [OF T(1)] by (auto simp: outside_def s')
    ultimately show "mem_bytes (m1(s' := 0)) buf (length ?T) = ?T \<and>
      (m1(s' := 0)) (buf + of_nat (length ?T)) = 0 \<and> outside buf (Suc (length ?T)) m (m1(s' := 0))"
      by (simp add: s')
  qed (use R R0 \<open>R0 = R\<close> in \<open>simp_all add: gets_result_def\<close>)
qed

text \<open>Without deletes at most \<open>size\<close> characters are kept, one more than the buffer has room for.\<close>

lemma typed_bound:
  "0x7F \<notin> set R \<Longrightarrow> i < sz \<Longrightarrow> length (typed sz delim i R) \<le> unat sz - unat i"
proof (induction R arbitrary: i)
  case Nil
  then show ?case by simp
next
  case (Cons c R)
  have lt: "unat i < unat sz" using Cons.prems(2) by (simp add: word_less_nat_alt)
  have "unat (i + 1) = Suc (unat i)"
    using lt unsigned_less [of sz, where ?'a = nat] by (subst unat_add_small) simp_all
  then show ?case using Cons.IH [of "i + 1"] Cons.prems lt by auto
qed

end
