(* ===== verification/Qsort.thy ===== *)
theory Qsort
  imports Prelude "HOL-Library.Multiset"
begin

text \<open>
  \<open>qsort.c\<close>: quicksort with an explicit stack of 30 segments. The array is a list of elements and a
  pointer \<open>base + width * i\<close> is the index \<open>i\<close>; \<open>qswap\<close> is the byte-wise exchange behind \<open>swap_elems\<close>.
  \<open>cmp\<close> (\<open>comp\<close> in the code) is the caller's comparison function.
\<close>

section \<open>Exchanging\<close>

text \<open>The loop \<open>while (width--)\<close> of \<open>swap\<close> on memory.\<close>

fun qswap_loop :: "nat \<Rightarrow> u32 \<Rightarrow> u32 \<Rightarrow> memory \<Rightarrow> memory" where
  "qswap_loop 0 a b m = m"
| "qswap_loop (Suc n) a b m = qswap_loop n (a + 1) (b + 1) (m(a := m b, b := m a))"

definition qswap :: "u32 \<Rightarrow> u32 \<Rightarrow> u32 \<Rightarrow> memory \<Rightarrow> memory" where
  "qswap a b width m = (if a \<noteq> b then qswap_loop (unat width) a b m else m)"

definition swap_elems :: "nat \<Rightarrow> nat \<Rightarrow> 'a list \<Rightarrow> 'a list" where
  "swap_elems i j xs = xs[i := xs ! j, j := xs ! i]"

section \<open>Partitioning\<close>

text \<open>\<open>do { l += width; } while (l <= hi && comp(l, lo) <= 0);\<close> and its counterpart.\<close>

function scan_up :: "('a \<Rightarrow> 'a \<Rightarrow> int) \<Rightarrow> 'a list \<Rightarrow> nat \<Rightarrow> nat \<Rightarrow> nat \<Rightarrow> nat" where
  "scan_up cmp xs lo hi l =
    (if Suc l \<le> hi \<and> cmp (xs ! Suc l) (xs ! lo) \<le> 0 then scan_up cmp xs lo hi (Suc l) else Suc l)"
  by pat_completeness auto
termination by (relation "measure (\<lambda>(cmp, xs, lo, hi, l). hi - l)") auto

fun scan_down :: "('a \<Rightarrow> 'a \<Rightarrow> int) \<Rightarrow> 'a list \<Rightarrow> nat \<Rightarrow> nat \<Rightarrow> nat" where
  "scan_down cmp xs lo 0 = 0"
| "scan_down cmp xs lo (Suc h) =
    (if lo < h \<and> 0 \<le> cmp (xs ! h) (xs ! lo) then scan_down cmp xs lo h else h)"

declare scan_up.simps [simp del]

lemma scan_up_gt: "l < scan_up cmp xs lo hi l"
  by (induction cmp xs lo hi l rule: scan_up.induct) (subst scan_up.simps, auto)

lemma scan_down_less: "h \<noteq> 0 \<Longrightarrow> scan_down cmp xs lo h < h"
proof (induction h)
  case (Suc h)
  then show ?case by (cases "h = 0") (auto intro: less_SucI)
qed simp

lemma scan_up_ok:
  assumes "l \<le> hi"
  shows "l < scan_up cmp xs lo hi l \<and> scan_up cmp xs lo hi l \<le> Suc hi \<and>
    (\<forall>i. l < i \<and> i < scan_up cmp xs lo hi l \<longrightarrow> cmp (xs ! i) (xs ! lo) \<le> 0) \<and>
    (scan_up cmp xs lo hi l \<le> hi \<longrightarrow> 0 < cmp (xs ! scan_up cmp xs lo hi l) (xs ! lo))"
  using assms
proof (induction cmp xs lo hi l rule: scan_up.induct)
  case (1 cmp xs lo hi l)
  show ?case
  proof (cases "Suc l \<le> hi \<and> cmp (xs ! Suc l) (xs ! lo) \<le> 0")
    case True
    then have "\<And>i. l < i \<Longrightarrow> i = Suc l \<or> Suc l < i" by auto
    then show ?thesis using True 1 by (subst (1 2 3 4 5) scan_up.simps) fastforce
  next
    case False
    then show ?thesis using 1(2) by (subst (1 2 3 4 5) scan_up.simps) auto
  qed
qed

lemma scan_down_ok:
  assumes "lo < h"
  shows "scan_down cmp xs lo h < h \<and> lo \<le> scan_down cmp xs lo h \<and>
    (\<forall>i. scan_down cmp xs lo h < i \<and> i < h \<longrightarrow> 0 \<le> cmp (xs ! i) (xs ! lo)) \<and>
    (lo < scan_down cmp xs lo h \<longrightarrow> cmp (xs ! scan_down cmp xs lo h) (xs ! lo) < 0)"
  using assms
proof (induction h)
  case (Suc h)
  show ?case
  proof (cases "lo < h \<and> 0 \<le> cmp (xs ! h) (xs ! lo)")
    case True
    then have "\<And>i. i < Suc h \<Longrightarrow> i = h \<or> i < h" by auto
    then show ?thesis using True Suc by fastforce
  qed (use Suc.prems in auto)
qed simp

text \<open>The \<open>for (;;)\<close> loop, from \<open>l\<close> and \<open>h\<close>; it returns the array and the two pointers.\<close>

function part_loop :: "('a \<Rightarrow> 'a \<Rightarrow> int) \<Rightarrow> nat \<Rightarrow> nat \<Rightarrow> 'a list \<Rightarrow> nat \<Rightarrow> nat \<Rightarrow> 'a list \<times> nat \<times> nat" where
  "part_loop cmp lo hi xs l h =
    (let l' = scan_up cmp xs lo hi l; h' = scan_down cmp xs lo h
     in if h' < l' then (xs, l', h')
        else part_loop cmp lo hi (swap_elems l' h' xs) l' h')"
  by pat_completeness auto
termination
proof (relation "measure (\<lambda>(cmp, lo, hi, xs, l, h). h - l)")
  fix cmp :: "'a \<Rightarrow> 'a \<Rightarrow> int" and xs :: "'a list" and lo hi l h l' h' :: nat
  assume l': "l' = scan_up cmp xs lo hi l" and h': "h' = scan_down cmp xs lo h" and "\<not> h' < l'"
  moreover have "l < l'" using scan_up_gt l' by simp
  moreover have "h' < h" if "h \<noteq> 0" using scan_down_less that h' by simp
  moreover have "h' = 0" if "h = 0" using that h' by simp
  ultimately show "((cmp, lo, hi, swap_elems l' h' xs, l', h'), cmp, lo, hi, xs, l, h)
      \<in> measure (\<lambda>(cmp, lo, hi, xs, l, h). h - l)" by (cases "h = 0") simp_all
qed simp

declare part_loop.simps [simp del]

definition qsort_step :: "('a \<Rightarrow> 'a \<Rightarrow> int) \<Rightarrow> nat \<Rightarrow> nat \<Rightarrow> 'a list \<Rightarrow> 'a list \<times> nat \<times> nat" where
  "qsort_step cmp lo hi xs =
    (let size = hi - lo + 1; mid = lo + size div 2;
         (ys, l, h) = part_loop cmp lo hi (swap_elems mid lo xs) lo (hi + 1)
     in (swap_elems lo h ys, l, h))"

section \<open>The stack of segments\<close>

definition push_seg :: "nat \<times> nat \<Rightarrow> (nat \<times> nat) list \<Rightarrow> (nat \<times> nat) list result" where
  "push_seg s stk = (if length stk < 30 then Inr (s # stk) else Inl Out_of_bounds)"

text \<open>
  What the code does with the two parts: the larger one is pushed if it has two elements, and the loop
  goes on with the smaller one or with the segment on top of the stack. The result lists the segments
  left to sort, the next one first.
\<close>

definition qsort_next :: "u32 \<Rightarrow> nat \<Rightarrow> nat \<Rightarrow> nat \<Rightarrow> nat \<Rightarrow> (nat \<times> nat) list \<Rightarrow> (nat \<times> nat) list result" where
  "qsort_next width lo hi l h stk =
    (if (int hi - int l) * uint width \<le> (int h - int lo) * uint width - 1 then
       rbind (if lo + 1 < h then push_seg (lo, h - 1) stk else Inr stk) (\<lambda>stk'.
         Inr (if l < hi then (l, hi) # stk' else stk'))
     else
       rbind (if l < hi then push_seg (l, hi) stk else Inr stk) (\<lambda>stk'.
         Inr (if lo + 1 < h then (lo, h - 1) # stk' else stk')))"

partial_function (option) qsort_loop ::
  "('a \<Rightarrow> 'a \<Rightarrow> int) \<Rightarrow> u32 \<Rightarrow> nat \<Rightarrow> nat \<Rightarrow> (nat \<times> nat) list \<Rightarrow> 'a list \<Rightarrow> 'a list result option" where
  "qsort_loop cmp width lo hi stk xs =
    (case qsort_step cmp lo hi xs of (ys, l, h) \<Rightarrow>
      obind (Some (qsort_next width lo hi l h stk)) (\<lambda>segs.
        case segs of
          [] \<Rightarrow> Some (Inr ys)
        | s # stk' \<Rightarrow> qsort_loop cmp width (fst s) (snd s) stk' ys))"

definition qsort :: "('a \<Rightarrow> 'a \<Rightarrow> int) \<Rightarrow> u32 \<Rightarrow> 'a list \<Rightarrow> 'a list result option" where
  "qsort cmp width xs =
    (if length xs < 2 \<or> width = 0 then Some (Inr xs)
     else qsort_loop cmp width 0 (length xs - 1) [] xs)"

end
