(* ===== verification/Qsort_Correct.thy ===== *)
theory Qsort_Correct
  imports Qsort
begin

text \<open>
  \<open>qsort\<close> sorts: for a comparison function that is a total preorder it ends, never needs more than its
  30 stack entries, and returns the elements it was given in order. The laws of the comparison function
  are the locale \<open>comparator\<close>.
\<close>

section \<open>Rearranging a segment\<close>

definition seg_perm :: "nat \<Rightarrow> nat \<Rightarrow> 'a list \<Rightarrow> 'a list \<Rightarrow> bool" where
  "seg_perm lo hi xs ys \<longleftrightarrow> length ys = length xs \<and> mset ys = mset xs \<and>
    (\<forall>i. i < lo \<or> hi < i \<longrightarrow> ys ! i = xs ! i) \<and>
    (\<forall>i. lo \<le> i \<and> i \<le> hi \<longrightarrow> (\<exists>j. lo \<le> j \<and> j \<le> hi \<and> ys ! i = xs ! j))"

lemma seg_perm_refl: "seg_perm lo hi xs xs"
  by (auto simp: seg_perm_def)

lemma seg_perm_trans: "seg_perm lo hi xs ys \<Longrightarrow> seg_perm lo hi ys zs \<Longrightarrow> seg_perm lo hi xs zs"
  unfolding seg_perm_def by metis

lemma swap_elems_nth:
  "i < length xs \<Longrightarrow> j < length xs \<Longrightarrow>
    swap_elems i j xs ! k = (if k = i then xs ! j else if k = j then xs ! i else xs ! k)"
  by (auto simp: swap_elems_def nth_list_update)

lemma seg_perm_swap:
  assumes "lo \<le> i" "i \<le> hi" "lo \<le> j" "j \<le> hi" "hi < length xs"
  shows "seg_perm lo hi xs (swap_elems i j xs)"
proof -
  have "mset (swap_elems i j xs) = mset xs"
    using assms unfolding swap_elems_def by (intro mset_swap) simp_all
  moreover have "length (swap_elems i j xs) = length xs" by (simp add: swap_elems_def)
  moreover have "swap_elems i j xs ! k = (if k = i then xs ! j else if k = j then xs ! i else xs ! k)" for k
    using assms by (simp add: swap_elems_nth)
  ultimately show ?thesis using assms by (auto simp: seg_perm_def)
qed

section \<open>Partitioning\<close>

definition parted :: "('a \<Rightarrow> 'a \<Rightarrow> int) \<Rightarrow> nat \<Rightarrow> nat \<Rightarrow> 'a list \<Rightarrow> nat \<Rightarrow> nat \<Rightarrow> bool" where
  "parted cmp lo hi xs l h \<longleftrightarrow> lo \<le> h \<and> h < l \<and> l \<le> Suc hi \<and>
    (\<forall>i. lo < i \<and> i < l \<longrightarrow> cmp (xs ! i) (xs ! lo) \<le> 0) \<and>
    (\<forall>i. h < i \<and> i \<le> hi \<longrightarrow> 0 \<le> cmp (xs ! i) (xs ! lo))"

lemma part_loop_ok:
  assumes "lo \<le> l" "l < h" "h \<le> Suc hi" "hi < length xs"
    and "\<forall>i. lo < i \<and> i \<le> l \<longrightarrow> cmp (xs ! i) (xs ! lo) \<le> 0"
    and "\<forall>i. h \<le> i \<and> i \<le> hi \<longrightarrow> 0 \<le> cmp (xs ! i) (xs ! lo)"
    and "part_loop cmp lo hi xs l h = (ys, l', h')"
  shows "seg_perm lo hi xs ys \<and> parted cmp lo hi ys l' h'"
  using assms
proof (induction cmp lo hi xs l h rule: part_loop.induct)
  case (1 cmp lo hi xs l h)
  let ?l = "scan_up cmp xs lo hi l" and ?h = "scan_down cmp xs lo h"
  note p = "1.prems"
  have u: "l < ?l" "?l \<le> Suc hi" "\<And>i. l < i \<Longrightarrow> i < ?l \<Longrightarrow> cmp (xs ! i) (xs ! lo) \<le> 0"
    "?l \<le> hi \<Longrightarrow> 0 < cmp (xs ! ?l) (xs ! lo)" using scan_up_ok [of l hi cmp xs lo] p by auto
  have d: "?h < h" "lo \<le> ?h" "\<And>i. ?h < i \<Longrightarrow> i < h \<Longrightarrow> 0 \<le> cmp (xs ! i) (xs ! lo)"
    "lo < ?h \<Longrightarrow> cmp (xs ! ?h) (xs ! lo) < 0" using scan_down_ok [of lo h cmp xs] p by auto
  have below: "cmp (xs ! i) (xs ! lo) \<le> 0" if "lo < i" "i < ?l" for i
    using p(5) u(3) that by (cases "i \<le> l") auto
  have above: "0 \<le> cmp (xs ! i) (xs ! lo)" if "?h < i" "i \<le> hi" for i
    using p(6) d(3) that by (cases "h \<le> i") auto
  show ?case
  proof (cases "?h < ?l")
    case True
    then have "ys = xs" "l' = ?l" "h' = ?h" using p(7) by (subst (asm) part_loop.simps, simp add: Let_def)+
    then show ?thesis using seg_perm_refl True u(2) d(2) below above by (auto simp: parted_def)
  next
    case False
    have ne: "?l \<noteq> ?h"
    proof
      assume e: "?l = ?h"
      then have "0 < cmp (xs ! ?l) (xs ! lo)" "cmp (xs ! ?l) (xs ! lo) < 0" using u d p by auto
      then show False by simp
    qed
    let ?zs = "swap_elems ?l ?h xs"
    have b: "?l < ?h" "lo < ?l" "?h \<le> hi" using False ne u d p by auto
    have z: "?zs ! k = (if k = ?l then xs ! ?h else if k = ?h then xs ! ?l else xs ! k)" for k
      using b p(4) by (simp add: swap_elems_nth)
    have "part_loop cmp lo hi ?zs ?l ?h = (ys, l', h')"
      using p(7) False by (subst (asm) part_loop.simps) (simp add: Let_def)
    moreover have "\<forall>i. lo < i \<and> i \<le> ?l \<longrightarrow> cmp (?zs ! i) (?zs ! lo) \<le> 0"
      using below d(4) b by (auto simp: z le_less)
    moreover have "\<forall>i. ?h \<le> i \<and> i \<le> hi \<longrightarrow> 0 \<le> cmp (?zs ! i) (?zs ! lo)"
      using above u(4) b by (auto simp: z le_less)
    ultimately have "seg_perm lo hi ?zs ys \<and> parted cmp lo hi ys l' h'"
      using "1.IH" [OF refl refl False] b p(4) by (simp add: swap_elems_def)
    moreover have "seg_perm lo hi xs ?zs" using b p(4) by (intro seg_perm_swap) auto
    ultimately show ?thesis using seg_perm_trans by blast
  qed
qed

section \<open>The comparison function\<close>

locale comparator =
  fixes cmp :: "'a \<Rightarrow> 'a \<Rightarrow> int"
  assumes sign: "cmp x y \<le> 0 \<longleftrightarrow> 0 \<le> cmp y x"
    and trans: "cmp x y \<le> 0 \<Longrightarrow> cmp y z \<le> 0 \<Longrightarrow> cmp x z \<le> 0"
begin

lemma cmp_refl: "cmp x x = 0"
  using sign [of x x] by linarith

text \<open>One step: the pivot is at \<open>h\<close>, smaller elements before it, greater ones after it.\<close>

lemma qsort_step_ok:
  assumes "lo < hi" "hi < length xs" "qsort_step cmp lo hi xs = (zs, l, h)"
  shows "seg_perm lo hi xs zs" "lo \<le> h" "h < l" "l \<le> Suc hi"
    "\<And>i. lo \<le> i \<Longrightarrow> i < l \<Longrightarrow> cmp (zs ! i) (zs ! h) \<le> 0"
    "\<And>i. h \<le> i \<Longrightarrow> i \<le> hi \<Longrightarrow> cmp (zs ! h) (zs ! i) \<le> 0"
proof -
  let ?m = "lo + (hi - lo + 1) div 2" and ?xs = "swap_elems (lo + (hi - lo + 1) div 2) lo xs"
  have m: "lo \<le> ?m" "?m \<le> hi" using assms(1) by auto
  obtain ys where ys: "part_loop cmp lo hi ?xs lo (hi + 1) = (ys, l, h)" "zs = swap_elems lo h ys"
    using assms(3) by (auto simp: qsort_step_def Let_def split: prod.splits)
  have s: "seg_perm lo hi xs ?xs" using m assms(1,2) by (intro seg_perm_swap) auto
  have "length ?xs = length xs" by (simp add: swap_elems_def)
  then have p: "seg_perm lo hi ?xs ys" "parted cmp lo hi ys l h"
    using part_loop_ok [of lo lo "hi + 1" hi ?xs cmp ys l h] ys(1) assms(1,2) by auto
  have len: "length ys = length xs" using p(1) s by (simp add: seg_perm_def)
  have b: "lo \<le> h" "h < l" "l \<le> Suc hi" using p(2) by (simp_all add: parted_def)
  have "seg_perm lo hi ys zs" using b len assms(1,2) unfolding ys(2) by (intro seg_perm_swap) auto
  then show "seg_perm lo hi xs zs" using s p(1) seg_perm_trans by blast
  show "lo \<le> h" "h < l" "l \<le> Suc hi" using b by auto
  have z: "zs ! k = (if k = lo then ys ! h else if k = h then ys ! lo else ys ! k)" for k
    using b len assms(1,2) unfolding ys(2) by (intro swap_elems_nth) auto
  have zh: "zs ! h = ys ! lo" by (simp add: z)
  show "cmp (zs ! i) (zs ! h) \<le> 0" if "lo \<le> i" "i < l" for i
    using that p(2) b cmp_refl unfolding zh z by (cases "lo = h") (auto simp: parted_def)
  have "0 \<le> cmp (zs ! i) (zs ! h)" if "h \<le> i" "i \<le> hi" for i
    using that p(2) b cmp_refl unfolding zh z by (auto simp: parted_def)
  then show "cmp (zs ! h) (zs ! i) \<le> 0" if "h \<le> i" "i \<le> hi" for i
    using that sign by blast
qed

text \<open>What is left to sort: elements that are not in order lie in one of the segments.\<close>

definition sorted_but :: "'a list \<Rightarrow> (nat \<times> nat) list \<Rightarrow> bool" where
  "sorted_but xs segs \<longleftrightarrow> (\<forall>i j. i < j \<and> j < length xs \<longrightarrow>
     cmp (xs ! i) (xs ! j) \<le> 0 \<or> (\<exists>s \<in> set segs. fst s \<le> i \<and> j \<le> snd s))"

lemma sorted_but_step:
  assumes s: "sorted_but xs ((lo, hi) # stk)" and lh: "lo < hi" "hi < length xs"
    and step: "qsort_step cmp lo hi xs = (zs, l, h)"
    and away: "\<forall>s \<in> set stk. snd s < lo \<or> hi < fst s"
    and new: "set stk \<subseteq> set segs" "lo + 1 < h \<Longrightarrow> (lo, h - 1) \<in> set segs" "l < hi \<Longrightarrow> (l, hi) \<in> set segs"
  shows "sorted_but zs segs"
  unfolding sorted_but_def
proof (intro allI impI)
  fix i j assume ij: "i < j \<and> j < length zs"
  note st = qsort_step_ok [OF lh step]
  have len: "length zs = length xs" using st(1) by (simp add: seg_perm_def)
  have out: "zs ! k = xs ! k" if "k < lo \<or> hi < k" for k using st(1) that by (auto simp: seg_perm_def)
  have from_in: "\<exists>j. lo \<le> j \<and> j \<le> hi \<and> zs ! k = xs ! j" if "lo \<le> k" "k \<le> hi" for k
    using st(1) that by (simp add: seg_perm_def)
  have old: "cmp (xs ! a) (xs ! b) \<le> 0 \<or> (\<exists>s \<in> set stk. fst s \<le> a \<and> b \<le> snd s) \<or> (lo \<le> a \<and> b \<le> hi)"
    if "a < b" "b < length xs" for a b using s that by (auto simp: sorted_but_def)
  consider (inside) "lo \<le> i" "j \<le> hi" | (before) "i < lo" "lo \<le> j" "j \<le> hi"
    | (after) "lo \<le> i" "i \<le> hi" "hi < j" | (outside) "i < lo \<or> hi < i" "j < lo \<or> hi < j" using ij by linarith
  then show "cmp (zs ! i) (zs ! j) \<le> 0 \<or> (\<exists>s \<in> set segs. fst s \<le> i \<and> j \<le> snd s)"
  proof cases
    case inside
    consider "j < h" | "l \<le> i" | "i < l" "h \<le> j" using ij by linarith
    then show ?thesis
    proof cases
      case 1
      then have "(lo, h - 1) \<in> set segs" using new(2) inside ij by simp
      then show ?thesis using 1 inside by (intro disjI2 bexI [of _ "(lo, h - 1)"]) auto
    next
      case 2
      then have "(l, hi) \<in> set segs" using new(3) inside ij by simp
      then show ?thesis using 2 inside by (intro disjI2 bexI [of _ "(l, hi)"]) auto
    next
      case 3
      then have "cmp (zs ! i) (zs ! h) \<le> 0" "cmp (zs ! h) (zs ! j) \<le> 0" using st(5,6) inside ij by auto
      then show ?thesis using trans by blast
    qed
  next
    case before
    obtain b where b: "lo \<le> b" "b \<le> hi" "zs ! j = xs ! b" using from_in before by blast
    have "\<not> (fst s \<le> i \<and> b \<le> snd s)" if "s \<in> set stk" for s using away that b before by fastforce
    then show ?thesis using old [of i b] b before lh out [of i] by force
  next
    case after
    obtain b where b: "lo \<le> b" "b \<le> hi" "zs ! i = xs ! b" using from_in after by blast
    have "\<not> (fst s \<le> b \<and> j \<le> snd s)" if "s \<in> set stk" for s using away that b after by fastforce
    then show ?thesis using old [of b j] b after ij len out [of j] by force
  next
    case outside
    then have o: "zs ! i = xs ! i" "zs ! j = xs ! j" using out by auto
    have "\<not> (lo \<le> i \<and> j \<le> hi)" using outside ij by linarith
    then show ?thesis using old [of i j] ij len o new(1) by auto
  qed
qed

end

section \<open>The stack\<close>

text \<open>Segments that are left: within the array, with at least two elements, and disjoint.\<close>

definition segs_ok :: "nat \<Rightarrow> (nat \<times> nat) list \<Rightarrow> bool" where
  "segs_ok n segs \<longleftrightarrow> (\<forall>s \<in> set segs. fst s < snd s \<and> snd s < n) \<and>
    sorted_wrt (\<lambda>s t. snd s < fst t \<or> snd t < fst s) segs"

definition seg_size :: "nat \<times> nat \<Rightarrow> nat" where
  "seg_size s = Suc (snd s) - fst s"

text \<open>A segment with \<open>k\<close> segments below it on the stack has at most \<open>N / 2 ^ k\<close> elements.\<close>

fun fits :: "nat \<Rightarrow> (nat \<times> nat) list \<Rightarrow> bool" where
  "fits N [] = True"
| "fits N (s # segs) = (seg_size s * 2 ^ length segs \<le> N \<and> fits N segs)"

lemma smaller_part:
  assumes "width \<noteq> (0 :: u32)" "lo \<le> h" "l \<le> Suc hi"
  shows "(int hi - int l) * uint width \<le> (int h - int lo) * uint width - 1 \<longleftrightarrow> Suc hi - l \<le> h - lo"
proof -
  let ?a = "int (h - lo)" and ?b = "int (Suc hi - l)" and ?w = "uint width"
  have "?w \<noteq> 0" "0 \<le> ?w" using assms(1) by (simp_all add: uint_0_iff)
  then have w: "1 \<le> ?w" by linarith
  have e: "int hi - int l = ?b - 1" "int h - int lo = ?a" using assms(2,3) by (auto simp: of_nat_diff)
  have "(?b - 1) * ?w \<le> ?a * ?w - 1 \<longleftrightarrow> ?b \<le> ?a"
  proof
    assume "?b \<le> ?a"
    then have "?b * ?w \<le> ?a * ?w" using w by (intro mult_right_mono) auto
    then show "(?b - 1) * ?w \<le> ?a * ?w - 1" using w unfolding left_diff_distrib mult_1 by linarith
  next
    assume le: "(?b - 1) * ?w \<le> ?a * ?w - 1"
    show "?b \<le> ?a"
    proof (rule ccontr)
      assume "\<not> ?b \<le> ?a"
      then have "?a * ?w \<le> (?b - 1) * ?w" using w by (intro mult_right_mono) auto
      then show False using le by simp
    qed
  qed
  then show ?thesis by (simp only: e of_nat_le_iff)
qed

text \<open>The next segments: nothing is pushed beyond the stack, and the bounds go on to hold.\<close>

lemma qsort_next_ok:
  assumes w: "width \<noteq> 0" and ok: "segs_ok n ((lo, hi) # stk)" and fit: "fits N ((lo, hi) # stk)"
    and N: "N < 3 * 2 ^ 30" and b: "lo \<le> h" "h < l" "l \<le> Suc hi"
  shows "\<exists>segs. qsort_next width lo hi l h stk = Inr segs \<and> segs_ok n segs \<and> fits N segs \<and>
    set stk \<subseteq> set segs \<and> (lo + 1 < h \<longrightarrow> (lo, h - 1) \<in> set segs) \<and> (l < hi \<longrightarrow> (l, hi) \<in> set segs) \<and>
    sum_list (map seg_size segs) < seg_size (lo, hi) + sum_list (map seg_size stk)"
proof -
  let ?a = "h - lo" and ?b = "Suc hi - l" and ?d = "length stk"
  have lh: "lo < hi" "hi < n" using ok by (simp_all add: segs_ok_def)
  have m: "?a + ?b < seg_size (lo, hi)" using b lh by (auto simp: seg_size_def)
  have f: "seg_size (lo, hi) * 2 ^ ?d \<le> N" "fits N stk" using fit by simp_all
  have big: "k * 2 ^ ?d \<le> N" if "k \<le> seg_size (lo, hi)" for k
    using mult_le_mono1 [OF that, of "2 ^ ?d"] f(1) by linarith
  have half: "k * 2 ^ Suc ?d \<le> N" if "2 * k \<le> seg_size (lo, hi)" for k
    using big [OF that] by (simp add: mult.assoc mult.left_commute)
  have room: "?d < 30" if "3 \<le> seg_size (lo, hi)"
  proof (rule ccontr)
    assume "\<not> ?d < 30"
    then have "(2::nat) ^ 30 \<le> 2 ^ ?d" by (intro power_increasing) auto
    then show False using big [OF that] N by simp
  qed
  have sl: "seg_size (lo, h - 1) = ?a" if "lo + 1 < h" using that by (auto simp: seg_size_def)
  have sr: "seg_size (l, hi) = ?b" by (simp add: seg_size_def)
  have away: "\<forall>s \<in> set stk. snd s < lo \<or> hi < fst s" using ok by (auto simp: segs_ok_def)
  have awayl: "\<forall>s \<in> set stk. h - 1 < fst s \<or> snd s < lo" and awayr: "\<forall>s \<in> set stk. hi < fst s \<or> snd s < l"
    using away b by (fastforce)+
  have stk: "segs_ok n stk" using ok by (simp add: segs_ok_def)
  have okl: "segs_ok n ((lo, h - 1) # stk)" if "lo + 1 < h"
    using stk that awayl b lh by (auto simp: segs_ok_def)
  have okr: "segs_ok n ((l, hi) # stk)" if "l < hi" using stk that awayr b lh by (auto simp: segs_ok_def)
  have oklr: "segs_ok n ((l, hi) # (lo, h - 1) # stk)" "segs_ok n ((lo, h - 1) # (l, hi) # stk)"
    if "lo + 1 < h" "l < hi" using okl [OF that(1)] okr [OF that(2)] b that by (auto simp: segs_ok_def)
  have r: "qsort_next width lo hi l h stk = (if ?b \<le> ?a then
       rbind (if lo + 1 < h then push_seg (lo, h - 1) stk else Inr stk) (\<lambda>stk'.
         Inr (if l < hi then (l, hi) # stk' else stk'))
     else
       rbind (if l < hi then push_seg (l, hi) stk else Inr stk) (\<lambda>stk'.
         Inr (if lo + 1 < h then (lo, h - 1) # stk' else stk')))"
    unfolding qsort_next_def smaller_part [OF w b(1,3)] by (rule refl)
  show ?thesis
  proof (cases "?b \<le> ?a")
    case True
    then show ?thesis
      using m f(2) stk okl okr oklr sl sr room big [of ?a] half [of ?b] big [of ?b] lh b
      by (cases "lo + 1 < h"; cases "l < hi") (auto simp: r push_seg_def)
  next
    case False
    then show ?thesis
      using m f(2) stk okl okr oklr sl sr room big [of ?b] half [of ?a] big [of ?a] lh b
      by (cases "lo + 1 < h"; cases "l < hi") (auto simp: r push_seg_def)
  qed
qed

section \<open>Sorting\<close>

context comparator
begin

lemma qsort_loop_ok:
  assumes "width \<noteq> 0" "segs_ok (length xs) ((lo, hi) # stk)" "fits N ((lo, hi) # stk)" "N < 3 * 2 ^ 30"
    and "sorted_but xs ((lo, hi) # stk)"
  shows "\<exists>ys. qsort_loop cmp width lo hi stk xs = Some (Inr ys) \<and> mset ys = mset xs \<and> sorted_but ys []"
  using assms
proof (induction "seg_size (lo, hi) + sum_list (map seg_size stk)" arbitrary: lo hi stk xs rule: less_induct)
  case less
  have lh: "lo < hi" "hi < length xs" using less.prems(2) by (simp_all add: segs_ok_def)
  have away: "\<forall>s \<in> set stk. snd s < lo \<or> hi < fst s" using less.prems(2) by (auto simp: segs_ok_def)
  obtain zs l h where step: "qsort_step cmp lo hi xs = (zs, l, h)" by (metis prod_cases3)
  note st = qsort_step_ok [OF lh step]
  have z: "length zs = length xs" "mset zs = mset xs" using st(1) by (simp_all add: seg_perm_def)
  obtain segs where n: "qsort_next width lo hi l h stk = Inr segs" "segs_ok (length xs) segs" "fits N segs"
    "set stk \<subseteq> set segs" "lo + 1 < h \<Longrightarrow> (lo, h - 1) \<in> set segs" "l < hi \<Longrightarrow> (l, hi) \<in> set segs"
    "sum_list (map seg_size segs) < seg_size (lo, hi) + sum_list (map seg_size stk)"
    using qsort_next_ok [OF less.prems(1-4) st(2-4)] by blast
  have sb: "sorted_but zs segs" by (rule sorted_but_step [OF less.prems(5) lh step away n(4-6)])
  show ?case
  proof (cases segs)
    case Nil
    then show ?thesis using step n(1) z sb by (subst qsort_loop.simps) simp
  next
    case (Cons s rest)
    have "\<exists>ys. qsort_loop cmp width (fst s) (snd s) rest zs = Some (Inr ys) \<and> mset ys = mset zs \<and> sorted_but ys []"
      using less.hyps [of "fst s" "snd s" rest zs] n Cons z sb less.prems(1,4) by simp
    then show ?thesis using step n(1) Cons z by (subst qsort_loop.simps) simp
  qed
qed

lemma sorted_but_Nil: "sorted_but xs [] \<longleftrightarrow> sorted_wrt (\<lambda>x y. cmp x y \<le> 0) xs"
  by (auto simp: sorted_but_def sorted_wrt_iff_nth_less)

lemma qsort_ok:
  assumes "width \<noteq> 0" "length xs < 3 * 2 ^ 30"
  shows "\<exists>ys. qsort cmp width xs = Some (Inr ys) \<and> mset ys = mset xs \<and> sorted_wrt (\<lambda>x y. cmp x y \<le> 0) ys"
proof (cases "length xs < 2")
  case True
  then have "sorted_wrt (\<lambda>x y. cmp x y \<le> 0) xs" by (cases xs) (auto simp: less_Suc_eq)
  then show ?thesis using True by (simp add: qsort_def)
next
  case False
  have "sorted_but xs [(0, length xs - 1)]" by (auto simp: sorted_but_def)
  moreover have "segs_ok (length xs) [(0, length xs - 1)]" "fits (length xs) [(0, length xs - 1)]"
    using False by (auto simp: segs_ok_def seg_size_def)
  ultimately obtain ys where "qsort_loop cmp width 0 (length xs - 1) [] xs = Some (Inr ys)"
    "mset ys = mset xs" "sorted_but ys []"
    using qsort_loop_ok [OF assms(1) _ _ assms(2), of xs 0 "length xs - 1" "[]"] by blast
  then show ?thesis using False assms(1) by (simp add: qsort_def sorted_but_Nil)
qed

end

section \<open>The byte-wise exchange\<close>

text \<open>Two blocks that do not overlap trade their bytes, everything else stays.\<close>

lemma qswap_loop_ok:
  assumes "N \<le> 2 ^ 32" "N \<le> unat (b - a)" "N \<le> unat (a - b)" "n \<le> N"
  shows "qswap_loop n a b m = (\<lambda>p. if unat (p - a) < n then m (b + (p - a))
    else if unat (p - b) < n then m (a + (p - b)) else m p)"
  using assms
proof (induction n arbitrary: a b m)
  case 0
  then show ?case by simp
next
  case (Suc n)
  let ?m1 = "m(a := m b, b := m a)"
  have n: "n < 2 ^ 32" using Suc.prems by simp
  have pred: "unat (x - 1) = unat x - 1" if "x \<noteq> 0" for x :: u32 using that by (rule unat_pred)
  have less: "unat (x :: u32) < Suc n \<longleftrightarrow> x = 0 \<or> unat (x - 1) < n" for x
    using pred [of x] unat_gt_0 [of x] by (cases "x = 0") auto
  have far: "a - b \<noteq> 0" "b - a \<noteq> 0" using Suc.prems by auto
  have sh: "p - (a + 1) = p - a - 1" "p - (b + 1) = p - b - 1" "b + 1 + (p - a - 1) = b + (p - a)"
    "a + 1 + (p - b - 1) = a + (p - b)" for p by simp_all
  have eq: "qswap_loop (Suc n) a b m = (\<lambda>p. if unat (p - a - 1) < n then ?m1 (b + (p - a))
      else if unat (p - b - 1) < n then ?m1 (a + (p - b)) else ?m1 p)"
  proof -
    have "qswap_loop n (a + 1) (b + 1) ?m1 = (\<lambda>p. if unat (p - (a + 1)) < n then ?m1 (b + 1 + (p - (a + 1)))
        else if unat (p - (b + 1)) < n then ?m1 (a + 1 + (p - (b + 1))) else ?m1 p)"
      by (rule Suc.IH) (use Suc.prems in simp_all)
    then show ?thesis by (simp only: qswap_loop.simps(2) sh)
  qed
  show ?case
  proof
    fix p
    have top: "\<not> unat (- 1 :: u32) < n" using n by (simp add: unsigned_minus_1_eq_mask mask_eq_exp_minus_1)
    have sep: "\<not> unat (a - b - 1) < n" "\<not> unat (b - a - 1) < n"
      using pred [OF far(1)] pred [OF far(2)] Suc.prems by auto
    consider "p = a" | "p = b" "p \<noteq> a" | "p \<noteq> a" "p \<noteq> b" by blast
    then show "qswap_loop (Suc n) a b m p = (if unat (p - a) < Suc n then m (b + (p - a))
      else if unat (p - b) < Suc n then m (a + (p - b)) else m p)"
    proof cases
      case 1
      then show ?thesis using top sep far unfolding eq by auto
    next
      case 2
      then show ?thesis using top sep far less [of "b - a"] unfolding eq by auto
    next
      case 3
      have a: "b + (p - a) \<noteq> b" "a + (p - b) \<noteq> a" using 3 by simp_all
      have "b + (p - a) \<noteq> a" if "unat (p - a) < Suc n"
      proof
        assume "b + (p - a) = a"
        then have "p - a = a - b" by (simp add: algebra_simps)
        then show False using that Suc.prems by simp
      qed
      moreover have "a + (p - b) \<noteq> b" if "unat (p - b) < Suc n"
      proof
        assume "a + (p - b) = b"
        then have "p - b = b - a" by (simp add: algebra_simps)
        then show False using that Suc.prems by simp
      qed
      ultimately show ?thesis using 3 a less [of "p - a"] less [of "p - b"] unfolding eq by auto
    qed
  qed
qed

end
