(* ===== verification/Mips.thy ===== *)
theory Mips
  imports Prelude
begin

text \<open>
  The address spaces of \<open>mips/mips.h\<close>, the Malta memory map of \<open>mips/malta.h\<close> and the system
  controller registers of \<open>mips/gt64120.h\<close>, with the memory-mapped accesses the drivers make.
\<close>

section \<open>Address segments (mips.h)\<close>

definition MIPS_KSEG0_START :: u32 where "MIPS_KSEG0_START = 0x80000000"
definition MIPS_KSEG1_START :: u32 where "MIPS_KSEG1_START = 0xa0000000"
definition MIPS_KSEG2_START :: u32 where "MIPS_KSEG2_START = 0xc0000000"
definition MIPS_PHYS_MASK :: u32 where "MIPS_PHYS_MASK = 0x1fffffff"

definition MIPS_KSEG0_TO_PHYS :: "u32 \<Rightarrow> u32" where "MIPS_KSEG0_TO_PHYS x = x AND MIPS_PHYS_MASK"
definition MIPS_PHYS_TO_KSEG0 :: "u32 \<Rightarrow> u32" where "MIPS_PHYS_TO_KSEG0 x = x OR MIPS_KSEG0_START"
definition MIPS_KSEG1_TO_PHYS :: "u32 \<Rightarrow> u32" where "MIPS_KSEG1_TO_PHYS x = x AND MIPS_PHYS_MASK"
definition MIPS_PHYS_TO_KSEG1 :: "u32 \<Rightarrow> u32" where "MIPS_PHYS_TO_KSEG1 x = x OR MIPS_KSEG1_START"

definition MIPS_KSEG0_P :: "u32 \<Rightarrow> bool" where
  "MIPS_KSEG0_P x \<longleftrightarrow> x AND NOT MIPS_PHYS_MASK = MIPS_KSEG0_START"
definition MIPS_KSEG1_P :: "u32 \<Rightarrow> bool" where
  "MIPS_KSEG1_P x \<longleftrightarrow> x AND NOT MIPS_PHYS_MASK = MIPS_KSEG1_START"
definition MIPS_KSEG2_P :: "u32 \<Rightarrow> bool" where
  "MIPS_KSEG2_P x \<longleftrightarrow> MIPS_KSEG2_START \<le> x"

text \<open>The low 29 bits are the physical address, the high three the segment.\<close>

lemma phys_mask: "MIPS_PHYS_MASK = mask 29"
  by (simp add: MIPS_PHYS_MASK_def mask_eq_exp_minus_1)

lemma kseg_starts: "MIPS_KSEG0_START = push_bit 29 4" "MIPS_KSEG1_START = push_bit 29 5"
  "MIPS_KSEG2_START = push_bit 29 6"
  by (simp_all add: MIPS_KSEG0_START_def MIPS_KSEG1_START_def MIPS_KSEG2_START_def)

lemma phys_low: "x \<le> MIPS_PHYS_MASK \<longleftrightarrow> x AND MIPS_PHYS_MASK = (x :: u32)"
proof
  assume "x \<le> MIPS_PHYS_MASK"
  then have "unat x < 2 ^ 29" by (simp add: word_le_nat_alt MIPS_PHYS_MASK_def)
  then have "take_bit 29 x = x"
    by (simp add: word_eq_iff_unat unsigned_take_bit_eq take_bit_nat_eq_self)
  then show "x AND MIPS_PHYS_MASK = x" by (simp add: phys_mask take_bit_eq_mask)
next
  assume "x AND MIPS_PHYS_MASK = x"
  then show "x \<le> MIPS_PHYS_MASK" by (metis word_and_le1)
qed

lemma segment_round_trip:
  assumes "x \<le> MIPS_PHYS_MASK"
  shows "MIPS_KSEG0_TO_PHYS (MIPS_PHYS_TO_KSEG0 x) = x" "MIPS_KSEG1_TO_PHYS (MIPS_PHYS_TO_KSEG1 x) = x"
    "MIPS_KSEG0_P (MIPS_PHYS_TO_KSEG0 x)" "MIPS_KSEG1_P (MIPS_PHYS_TO_KSEG1 x)"
proof -
  have x: "x AND MIPS_PHYS_MASK = x" using assms phys_low by blast
  have "x AND NOT MIPS_PHYS_MASK = (x AND MIPS_PHYS_MASK) AND NOT MIPS_PHYS_MASK" by (simp only: x)
  then have hi: "x AND NOT MIPS_PHYS_MASK = 0" by (simp only: and.assoc bit.conj_cancel_right bit.conj_zero_right)
  have k: "MIPS_KSEG0_START AND MIPS_PHYS_MASK = 0" "MIPS_KSEG1_START AND MIPS_PHYS_MASK = 0"
    "MIPS_KSEG0_START AND NOT MIPS_PHYS_MASK = MIPS_KSEG0_START"
    "MIPS_KSEG1_START AND NOT MIPS_PHYS_MASK = MIPS_KSEG1_START"
    by (simp_all add: MIPS_KSEG0_START_def MIPS_KSEG1_START_def MIPS_PHYS_MASK_def)
  show "MIPS_KSEG0_TO_PHYS (MIPS_PHYS_TO_KSEG0 x) = x" "MIPS_KSEG1_TO_PHYS (MIPS_PHYS_TO_KSEG1 x) = x"
    "MIPS_KSEG0_P (MIPS_PHYS_TO_KSEG0 x)" "MIPS_KSEG1_P (MIPS_PHYS_TO_KSEG1 x)"
    using x hi k
    by (simp_all add: MIPS_KSEG0_TO_PHYS_def MIPS_PHYS_TO_KSEG0_def MIPS_KSEG1_TO_PHYS_def
      MIPS_PHYS_TO_KSEG1_def MIPS_KSEG0_P_def MIPS_KSEG1_P_def bit.conj_disj_distrib2)
qed

section \<open>The Malta memory map (malta.h)\<close>

definition MALTA_PHYS_SDRAM_BASE :: u32 where "MALTA_PHYS_SDRAM_BASE = 0x00000000"
definition MALTA_PCI0_MEMORY_BASE :: u32 where "MALTA_PCI0_MEMORY_BASE = 0x10000000"
definition MALTA_PCI0_MEMORY_END :: u32 where "MALTA_PCI0_MEMORY_END = 0x17ffffff"
definition MALTA_PCI0_IO_BASE :: u32 where "MALTA_PCI0_IO_BASE = 0x18000000"
definition MALTA_PCI0_IO_END :: u32 where "MALTA_PCI0_IO_END = 0x1bdfffff"
definition MALTA_CORECTRL_BASE :: u32 where "MALTA_CORECTRL_BASE = 0x1be00000"
definition MALTA_FPGA_BASE :: u32 where "MALTA_FPGA_BASE = 0x1f000000"
definition MALTA_CBUS_UART :: u32 where "MALTA_CBUS_UART = MALTA_FPGA_BASE + 0x900"
definition MALTA_CBUS_UART_INTR :: u32 where "MALTA_CBUS_UART_INTR = 2"

definition MALTA_PCI0_ADDR :: "u32 \<Rightarrow> u32" where "MALTA_PCI0_ADDR x = MALTA_PCI0_IO_BASE + x"

definition MALTA_RTC_ADDR :: u32 where "MALTA_RTC_ADDR = MALTA_PCI0_ADDR 0x70"
definition MALTA_RTC_DATA :: u32 where "MALTA_RTC_DATA = MALTA_PCI0_ADDR 0x71"
definition MALTA_SMSC_UART0 :: u32 where "MALTA_SMSC_UART0 = MALTA_PCI0_ADDR 0x3f8"
definition MALTA_SMSC_UART1 :: u32 where "MALTA_SMSC_UART1 = MALTA_PCI0_ADDR 0x2f8"
definition MALTA_SMSC_KYBD_DATA :: u32 where "MALTA_SMSC_KYBD_DATA = MALTA_PCI0_ADDR 0x60"
definition MALTA_SMSC_KYBD_CTRL :: u32 where "MALTA_SMSC_KYBD_CTRL = MALTA_PCI0_ADDR 0x64"

definition MALTA_PCI_DEVICE_COUNT :: nat where "MALTA_PCI_DEVICE_COUNT = 7"

text \<open>The windows of the map, in its order: SDRAM, PCI memory, PCI I/O, the system controller, the FPGA.\<close>

definition malta_windows :: "(u32 \<times> u32) list" where
  "malta_windows =
    [(MALTA_PHYS_SDRAM_BASE, MALTA_PCI0_MEMORY_BASE - 1), (MALTA_PCI0_MEMORY_BASE, MALTA_PCI0_MEMORY_END),
     (MALTA_PCI0_IO_BASE, MALTA_PCI0_IO_END), (MALTA_CORECTRL_BASE, MALTA_CORECTRL_BASE + 0x1fffff),
     (MALTA_FPGA_BASE, MALTA_CBUS_UART)]"

lemma malta_windows_disjoint:
  "sorted_wrt (\<lambda>a b. snd a < fst b) malta_windows \<and> (\<forall>a \<in> set malta_windows. fst a \<le> snd a \<and> snd a \<le> MIPS_PHYS_MASK)"
  by (simp add: malta_windows_def MALTA_PHYS_SDRAM_BASE_def MALTA_PCI0_MEMORY_BASE_def MALTA_PCI0_MEMORY_END_def
    MALTA_PCI0_IO_BASE_def MALTA_PCI0_IO_END_def MALTA_CORECTRL_BASE_def MALTA_FPGA_BASE_def MALTA_CBUS_UART_def
    MIPS_PHYS_MASK_def)

section \<open>The system controller (gt64120.h)\<close>

definition GT_PCI0_CFG_ADDR :: u32 where "GT_PCI0_CFG_ADDR = 0xcf8"
definition GT_PCI0_CFG_DATA :: u32 where "GT_PCI0_CFG_DATA = 0xcfc"
definition GT_INTR_CAUSE :: u32 where "GT_INTR_CAUSE = 0xc18"
definition GT_INTR_MASK :: u32 where "GT_INTR_MASK = 0xc1c"
definition GT_PCI0_INTR_MASK :: u32 where "GT_PCI0_INTR_MASK = 0xc24"

text \<open>\<open>GT_R(x)\<close> names the register at offset \<open>x\<close>; here its address.\<close>

definition GT_R :: "u32 \<Rightarrow> u32" where
  "GT_R x = MIPS_PHYS_TO_KSEG1 (MALTA_CORECTRL_BASE + x)"

text \<open>The bits of the interrupt mask register, in the order of the header.\<close>

definition gt_intr_bits :: "u32 list" where
  "gt_intr_bits =
    [0x00000002, 0x00000004, 0x00000008, 0x00000010, 0x00000020, 0x00000040, 0x00000080, 0x00000100,
     0x00000200, 0x00000400, 0x00000800, 0x00001000, 0x00002000, 0x00004000, 0x00008000, 0x00010000,
     0x00020000, 0x00040000, 0x00080000, 0x00100000, 0x00200000, 0x0c300000, 0xc3000000, 0x40000000]"

section \<open>Memory-mapped accesses\<close>

text \<open>
  The devices are seen as the UART is: the values reads return, and the log of accesses with their
  width in bytes, address and value.
\<close>

datatype maccess = MRd nat u32 u32 | MWr nat u32 u32

record machine =
  mreads :: "nat \<Rightarrow> u32"
  mpos :: nat
  mlog :: "maccess list"

definition mread :: "nat \<Rightarrow> u32 \<Rightarrow> machine \<Rightarrow> u32 \<times> machine" where
  "mread n a s = (let v = take_bit (8 * n) (mreads s (mpos s)) in
     (v, s\<lparr>mpos := Suc (mpos s), mlog := mlog s @ [MRd n a v]\<rparr>))"

definition mwrite :: "nat \<Rightarrow> u32 \<Rightarrow> u32 \<Rightarrow> machine \<Rightarrow> machine" where
  "mwrite n a v s = s\<lparr>mlog := mlog s @ [MWr n a (take_bit (8 * n) v)]\<rparr>"

section \<open>The board configuration (config.h)\<close>

text \<open>
  The board is chosen by \<open>SYS_MALTA\<close>, \<open>SYS_MIPSSIM\<close> or \<open>SYS_MIPS\<close>; only Malta tells the kernel
  build from the boot ROM.
\<close>

datatype board = SYS_MALTA | SYS_MIPSSIM | SYS_MIPS

definition ELF_BASE :: "board \<Rightarrow> bool \<Rightarrow> u32" where
  "ELF_BASE b kern = (if b = SYS_MALTA \<and> kern then 0x00100000 else 0x00000000)"

definition ROM_BASE :: "board \<Rightarrow> bool \<Rightarrow> u32" where
  "ROM_BASE b kern = (if b = SYS_MALTA \<and> kern then 0x80100000 else 0xbfc00000)"

definition RAM_BASE :: u32 where "RAM_BASE = 0xa0000000"

definition MMIO_BASE :: "board \<Rightarrow> bool \<Rightarrow> u32" where
  "MMIO_BASE b kern = (case b of
     SYS_MALTA \<Rightarrow> if kern then 0xbf000000 else 0x1f000000
   | SYS_MIPSSIM \<Rightarrow> 0x1fd00000
   | SYS_MIPS \<Rightarrow> 0x14000000)"

definition LED_BASE :: "board \<Rightarrow> bool \<Rightarrow> u32" where
  "LED_BASE b kern = MMIO_BASE b kern + 0x000"

definition DIP_SWITCH_BASE :: "board \<Rightarrow> bool \<Rightarrow> u32" where
  "DIP_SWITCH_BASE b kern = MMIO_BASE b kern + 0x001"

definition PUSHBUTTON_BASE :: "board \<Rightarrow> bool \<Rightarrow> u32" where
  "PUSHBUTTON_BASE b kern = MMIO_BASE b kern + 0x002"

definition UART_BASE :: "board \<Rightarrow> bool \<Rightarrow> u32" where
  "UART_BASE b kern = MMIO_BASE b kern + (if b = SYS_MALTA then 0x900 else 0x3f8)"

text \<open>On Malta the UART is the board's: at its physical address, or at its uncached alias.\<close>

lemma malta_uart:
  "UART_BASE SYS_MALTA False = MALTA_CBUS_UART"
  "UART_BASE SYS_MALTA True = MIPS_PHYS_TO_KSEG1 MALTA_CBUS_UART"
  by (simp_all add: UART_BASE_def MMIO_BASE_def MALTA_CBUS_UART_def MALTA_FPGA_BASE_def
    MIPS_PHYS_TO_KSEG1_def MIPS_KSEG1_START_def)

end
