(* ===== verification/Pci_Bus.thy ===== *)
theory Pci_Bus
  imports Mips Common
begin

text \<open>
  Access to PCI devices: resources and bus space (\<open>bus.h\<close>), the device type and the registers of
  \<open>pci.h\<close>, and the GT-64120 host bridge (\<open>gt64120.c\<close>), with what its configuration accesses do.
\<close>

section \<open>Resources and devices (bus.h, pci.h)\<close>

definition RT_UNKNOWN :: u32 where "RT_UNKNOWN = 0"
definition RT_MEMORY :: u32 where "RT_MEMORY = 1"
definition RT_IOPORTS :: u32 where "RT_IOPORTS = 2"
definition RF_NONE :: u32 where "RF_NONE = 0"
definition RF_PREFETCHABLE :: u32 where "RF_PREFETCHABLE = 1"

text \<open>The one bus space of the program, or the null pointer.\<close>

datatype bus_space = NULL_SPACE | GT_PCI_BUS_SPACE

record resource =
  r_bus_space :: bus_space
  r_owner :: nat
  r_start :: u32
  r_end :: u32
  r_type :: u32
  r_flags :: u32
  r_id :: nat

definition PCI_BAR_IO :: u32 where "PCI_BAR_IO = 1"
definition PCI_BAR_PREFETCHABLE :: u32 where "PCI_BAR_PREFETCHABLE = 8"
definition PCI_BAR_IO_MASK :: u32 where "PCI_BAR_IO_MASK = 3"
definition PCI_BAR_MEMORY_MASK :: u32 where "PCI_BAR_MEMORY_MASK = 15"

definition PCIR_DEVICEID :: u32 where "PCIR_DEVICEID = 0x00"
definition PCIR_VENDORID :: u32 where "PCIR_VENDORID = 0x02"
definition PCIR_STATUS :: u32 where "PCIR_STATUS = 0x04"
definition PCIR_COMMAND :: u32 where "PCIR_COMMAND = 0x06"
definition PCIM_CMD_PORTEN :: u16 where "PCIM_CMD_PORTEN = 0x0001"
definition PCIM_CMD_MEMEN :: u16 where "PCIM_CMD_MEMEN = 0x0002"
definition PCIR_CLASSCODE :: u32 where "PCIR_CLASSCODE = 0x08"
definition PCIR_IRQPIN :: u32 where "PCIR_IRQPIN = 0x3e"
definition PCIR_IRQLINE :: u32 where "PCIR_IRQLINE = 0x3f"
definition PCIR_BAR :: "nat \<Rightarrow> u32" where "PCIR_BAR i = 0x10 + of_nat i * 4"

record pci_addr =
  a_bus :: u8
  a_device :: u8
  a_function :: u8

record pci_device =
  d_addr :: pci_addr
  d_device_id :: u16
  d_vendor_id :: u16
  d_class_code :: u8
  d_pin :: u8
  d_irq :: u8
  d_bars :: "resource list"      \<comment> \<open>the first \<open>nbars\<close> elements of \<open>bar[6]\<close>\<close>

section \<open>The host bridge (gt64120.c)\<close>

definition PCI0_CFG_ENABLE :: u32 where "PCI0_CFG_ENABLE = 0x80000000"

definition gt_pci_make_addr :: "pci_addr \<Rightarrow> u32 \<Rightarrow> u32" where
  "gt_pci_make_addr a reg = push_bit 11 (ucast (a_device a)) OR push_bit 8 (ucast (a_function a)) OR push_bit 2 reg"

text \<open>The union \<open>pci_reg_t\<close>: element \<open>i\<close> of its arrays, for either endianness (\<open>el\<close>: little).\<close>

definition reg_byte :: "bool \<Rightarrow> nat \<Rightarrow> u32 \<Rightarrow> u32" where
  "reg_byte el i data = take_bit 8 (drop_bit (8 * (if el then i else 3 - i)) data)"

definition reg_word :: "bool \<Rightarrow> nat \<Rightarrow> u32 \<Rightarrow> u32" where
  "reg_word el i data = take_bit 16 (drop_bit (16 * (if el then i else 1 - i)) data)"

definition put_byte :: "bool \<Rightarrow> nat \<Rightarrow> u32 \<Rightarrow> u32 \<Rightarrow> u32" where
  "put_byte el i v data = (let k = 8 * (if el then i else 3 - i) in
     data AND NOT (push_bit k (mask 8)) OR push_bit k (take_bit 8 v))"

definition put_word :: "bool \<Rightarrow> nat \<Rightarrow> u32 \<Rightarrow> u32 \<Rightarrow> u32" where
  "put_word el i v data = (let k = 16 * (if el then i else 1 - i) in
     data AND NOT (push_bit k (mask 16)) OR push_bit k (take_bit 16 v))"

definition gt_pci_read_config :: "bool \<Rightarrow> pci_addr \<Rightarrow> u32 \<Rightarrow> u32 \<Rightarrow> machine \<Rightarrow> u32 \<times> machine" where
  "gt_pci_read_config el a reg sz s =
    (if a_bus a > 0 then (- 1, s)
     else let s1 = mwrite 4 (GT_R GT_PCI0_CFG_ADDR) (PCI0_CFG_ENABLE OR gt_pci_make_addr a (drop_bit 2 reg)) s;
              (data, s2) = mread 4 (GT_R GT_PCI0_CFG_DATA) s1;
              r = unat (reg AND 3)
          in (if sz = 1 then reg_byte el (3 - r) data
              else if sz = 2 then reg_word el (1 - r div 2) data
              else if sz = 4 then data
              else - 1, s2))"

text \<open>The cases of \<open>gt_pci_write_config\<close> have no \<open>break\<close>: each falls through to the next.\<close>

definition gt_pci_write_config :: "bool \<Rightarrow> pci_addr \<Rightarrow> u32 \<Rightarrow> u32 \<Rightarrow> u32 \<Rightarrow> machine \<Rightarrow> machine" where
  "gt_pci_write_config el a reg sz v s =
    (if a_bus a > 0 then s
     else let s1 = mwrite 4 (GT_R GT_PCI0_CFG_ADDR) (PCI0_CFG_ENABLE OR gt_pci_make_addr a (drop_bit 2 reg)) s;
              (data, s2) = mread 4 (GT_R GT_PCI0_CFG_DATA) s1;
              r = unat (reg AND 3);
              data1 = (if sz = 1 then put_byte el (3 - r) v data else data);
              data2 = (if sz = 1 \<or> sz = 2 then put_word el (1 - r div 2) v data1 else data1);
              data3 = (if sz = 1 \<or> sz = 2 \<or> sz = 4 then v else data2)
          in mwrite 4 (GT_R GT_PCI0_CFG_DATA) data3 s2)"

text \<open>Accesses to a resource; a region copy is a sequence of byte accesses.\<close>

definition gt_pci_read_1 :: "resource \<Rightarrow> u32 \<Rightarrow> machine \<Rightarrow> u8 \<times> machine" where
  "gt_pci_read_1 h off s = (let (v, s') = mread 1 (MIPS_PHYS_TO_KSEG1 (r_start h + off)) s in (ucast v, s'))"

definition gt_pci_write_1 :: "resource \<Rightarrow> u32 \<Rightarrow> u8 \<Rightarrow> machine \<Rightarrow> machine" where
  "gt_pci_write_1 h off v s = mwrite 1 (MIPS_PHYS_TO_KSEG1 (r_start h + off)) (ucast v) s"

definition gt_pci_read_2 :: "resource \<Rightarrow> u32 \<Rightarrow> machine \<Rightarrow> u16 \<times> machine" where
  "gt_pci_read_2 h off s = (let (v, s') = mread 2 (MIPS_PHYS_TO_KSEG1 (r_start h + off)) s in (ucast v, s'))"

definition gt_pci_write_2 :: "resource \<Rightarrow> u32 \<Rightarrow> u16 \<Rightarrow> machine \<Rightarrow> machine" where
  "gt_pci_write_2 h off v s = mwrite 2 (MIPS_PHYS_TO_KSEG1 (r_start h + off)) (ucast v) s"

fun read_region_loop :: "nat \<Rightarrow> u32 \<Rightarrow> u32 \<Rightarrow> memory \<Rightarrow> machine \<Rightarrow> memory \<times> machine" where
  "read_region_loop 0 src dst m s = (m, s)"
| "read_region_loop (Suc n) src dst m s =
     (let (v, s') = mread 1 src s in read_region_loop n (src + 1) (dst + 1) (m(dst := ucast v)) s')"

definition gt_pci_read_region_1 :: "resource \<Rightarrow> u32 \<Rightarrow> u32 \<Rightarrow> u32 \<Rightarrow> memory \<Rightarrow> machine \<Rightarrow> memory \<times> machine" where
  "gt_pci_read_region_1 h off dst count m s =
    read_region_loop (unat count) (MIPS_PHYS_TO_KSEG1 (r_start h + off)) dst m s"

fun write_region_loop :: "nat \<Rightarrow> u32 \<Rightarrow> u32 \<Rightarrow> memory \<Rightarrow> machine \<Rightarrow> machine" where
  "write_region_loop 0 dst src m s = s"
| "write_region_loop (Suc n) dst src m s = write_region_loop n (dst + 1) (src + 1) m (mwrite 1 dst (ucast (m src)) s)"

definition gt_pci_write_region_1 :: "resource \<Rightarrow> u32 \<Rightarrow> u32 \<Rightarrow> u32 \<Rightarrow> memory \<Rightarrow> machine \<Rightarrow> machine" where
  "gt_pci_write_region_1 h off src count m s =
    write_region_loop (unat count) (MIPS_PHYS_TO_KSEG1 (r_start h + off)) src m s"

text \<open>The accessors of bus.h call through the bus space of the resource.\<close>

definition via_space :: "resource \<Rightarrow> 'a \<Rightarrow> 'a result" where
  "via_space h x = (case r_bus_space h of NULL_SPACE \<Rightarrow> Inl Null_pointer | GT_PCI_BUS_SPACE \<Rightarrow> Inr x)"

definition bus_space_read_1 :: "resource \<Rightarrow> u32 \<Rightarrow> machine \<Rightarrow> (u8 \<times> machine) result" where
  "bus_space_read_1 h off s = via_space h (gt_pci_read_1 h off s)"
definition bus_space_write_1 :: "resource \<Rightarrow> u32 \<Rightarrow> u8 \<Rightarrow> machine \<Rightarrow> machine result" where
  "bus_space_write_1 h off v s = via_space h (gt_pci_write_1 h off v s)"
definition bus_space_read_2 :: "resource \<Rightarrow> u32 \<Rightarrow> machine \<Rightarrow> (u16 \<times> machine) result" where
  "bus_space_read_2 h off s = via_space h (gt_pci_read_2 h off s)"
definition bus_space_write_2 :: "resource \<Rightarrow> u32 \<Rightarrow> u16 \<Rightarrow> machine \<Rightarrow> machine result" where
  "bus_space_write_2 h off v s = via_space h (gt_pci_write_2 h off v s)"
definition bus_space_read_region_1 :: "resource \<Rightarrow> u32 \<Rightarrow> u32 \<Rightarrow> u32 \<Rightarrow> memory \<Rightarrow> machine \<Rightarrow> (memory \<times> machine) result" where
  "bus_space_read_region_1 h off dst count m s = via_space h (gt_pci_read_region_1 h off dst count m s)"
definition bus_space_write_region_1 :: "resource \<Rightarrow> u32 \<Rightarrow> u32 \<Rightarrow> u32 \<Rightarrow> memory \<Rightarrow> machine \<Rightarrow> machine result" where
  "bus_space_write_region_1 h off src count m s = via_space h (gt_pci_write_region_1 h off src count m s)"

definition gt_pci_memory :: resource where
  "gt_pci_memory = \<lparr>r_bus_space = GT_PCI_BUS_SPACE, r_owner = 0, r_start = MALTA_PCI0_MEMORY_BASE,
     r_end = MALTA_PCI0_MEMORY_END, r_type = RT_MEMORY, r_flags = 0, r_id = 0\<rparr>"
definition gt_pci_ioports :: resource where
  "gt_pci_ioports = \<lparr>r_bus_space = GT_PCI_BUS_SPACE, r_owner = 0, r_start = MALTA_PCI0_IO_BASE,
     r_end = MALTA_PCI0_IO_END, r_type = RT_IOPORTS, r_flags = 0, r_id = 0\<rparr>"

end
