(* ===== verification/Pci.thy ===== *)
theory Pci
  imports Pci_Bus Qsort_Correct
begin

text \<open>
  The PCI driver: the enumeration and address assignment of \<open>pci.c\<close> and the names of \<open>pci_ids.c\<close>. The
  static array \<open>pcidevs\<close> is the list of its used elements, a device is an index into it, and what is
  printed is a log of format strings with their arguments.
\<close>

section \<open>State\<close>

datatype karg = KInt u32 | KStr string

record pci_state =
  hw :: machine
  pcidevs :: "pci_device list"
  devices :: "nat list"          \<comment> \<open>\<open>gt_pci.devices\<close>, in the order of the queue\<close>
  plog :: "(string \<times> karg list) list"

definition pci_print :: "string \<Rightarrow> karg list \<Rightarrow> pci_state \<Rightarrow> pci_state" where
  "pci_print fmt args st = st\<lparr>plog := plog st @ [(fmt, args)]\<rparr>"

definition pci_read_config :: "bool \<Rightarrow> pci_addr \<Rightarrow> u32 \<Rightarrow> u32 \<Rightarrow> pci_state \<Rightarrow> u32 \<times> pci_state" where
  "pci_read_config el a reg sz st =
    (let (v, s) = gt_pci_read_config el a reg sz (hw st) in (v, st\<lparr>hw := s\<rparr>))"

definition pci_write_config :: "bool \<Rightarrow> pci_addr \<Rightarrow> u32 \<Rightarrow> u32 \<Rightarrow> u32 \<Rightarrow> pci_state \<Rightarrow> pci_state" where
  "pci_write_config el a reg sz v st = st\<lparr>hw := gt_pci_write_config el a reg sz v (hw st)\<rparr>"

definition pci_adjust_config :: "bool \<Rightarrow> pci_addr \<Rightarrow> u32 \<Rightarrow> u32 \<Rightarrow> u32 \<Rightarrow> pci_state \<Rightarrow> u32 \<times> pci_state" where
  "pci_adjust_config el a reg sz v st = pci_read_config el a reg sz (pci_write_config el a reg sz v st)"

section \<open>Names (pci_ids.c)\<close>

record pci_device_id =
  di_id :: u16
  di_name :: string

record pci_vendor_id =
  vi_id :: u16
  vi_name :: string
  vi_devices :: "pci_device_id list"

definition pci_vendor_1013 :: "pci_device_id list" where
  "pci_vendor_1013 = [\<lparr>di_id = 0x00b8, di_name = ''GD 5446''\<rparr>]"
definition pci_vendor_1022 :: "pci_device_id list" where
  "pci_vendor_1022 = [\<lparr>di_id = 0x2000, di_name = ''79c970 [PCnet32 LANCE]''\<rparr>]"
definition pci_vendor_11ab :: "pci_device_id list" where
  "pci_vendor_11ab = [\<lparr>di_id = 0x4620, di_name = ''GT-64120/64120A/64121A System Controller''\<rparr>]"
definition pci_vendor_8086 :: "pci_device_id list" where
  "pci_vendor_8086 = [\<lparr>di_id = 0x7110, di_name = ''82371AB/EB/MB PIIX4 ISA''\<rparr>,
     \<lparr>di_id = 0x7111, di_name = ''82371AB/EB/MB PIIX4 IDE''\<rparr>,
     \<lparr>di_id = 0x7112, di_name = ''82371AB/EB/MB PIIX4 USB''\<rparr>,
     \<lparr>di_id = 0x7113, di_name = ''82371AB/EB/MB PIIX4 ACPI''\<rparr>]"

definition pci_vendor_list :: "pci_vendor_id list" where
  "pci_vendor_list =
    [\<lparr>vi_id = 0x1013, vi_name = ''Cirrus Logic'', vi_devices = pci_vendor_1013\<rparr>,
     \<lparr>vi_id = 0x1022, vi_name = ''Advanced Micro Devices, Inc.'', vi_devices = pci_vendor_1022\<rparr>,
     \<lparr>vi_id = 0x11ab, vi_name = ''Marvell Technology Group Ltd.'', vi_devices = pci_vendor_11ab\<rparr>,
     \<lparr>vi_id = 0x8086, vi_name = ''Intel Corporation'', vi_devices = pci_vendor_8086\<rparr>]"

definition pci_class_code :: "string list" where
  "pci_class_code = ['''', ''Mass Storage Controller'', ''Network Controller'', ''Display Controller'',
     ''Multimedia Controller'', ''Memory Controller'', ''Bridge Device'',
     ''Simple Communication Controllers'', ''Base System Peripherals'', ''Input Devices'',
     ''Docking Stations'', ''Processors'', ''Serial Bus Controllers'', ''Wireless Controllers'',
     ''Intelligent I/O Controllers'', ''Satellite Communication Controllers'',
     ''Encryption/Decryption Controllers'', ''Data Acquisition and Signal Processing Controllers'']"

fun find_device :: "pci_device_id list \<Rightarrow> u16 \<Rightarrow> pci_device_id option" where
  "find_device [] i = None"
| "find_device (d # ds) i = (if di_id d = i then Some d else find_device ds i)"

definition pci_find_device :: "pci_vendor_id option \<Rightarrow> u16 \<Rightarrow> pci_device_id option" where
  "pci_find_device vendor i = (case vendor of None \<Rightarrow> None | Some v \<Rightarrow> find_device (vi_devices v) i)"

fun find_vendor :: "pci_vendor_id list \<Rightarrow> u16 \<Rightarrow> pci_vendor_id option" where
  "find_vendor [] i = None"
| "find_vendor (v # vs) i = (if vi_id v = i then Some v else find_vendor vs i)"

definition pci_find_vendor :: "u16 \<Rightarrow> pci_vendor_id option" where
  "pci_find_vendor i = find_vendor pci_vendor_list i"

section \<open>Enumeration\<close>

definition slot_addr :: "nat \<Rightarrow> nat \<Rightarrow> pci_addr" where
  "slot_addr dev func = \<lparr>a_bus = 0, a_device = of_nat dev, a_function = of_nat func\<rparr>"

definition pci_device_present :: "bool \<Rightarrow> pci_addr \<Rightarrow> pci_state \<Rightarrow> bool \<times> pci_state" where
  "pci_device_present el a st = (let (v, st') = pci_read_config el a PCIR_DEVICEID 4 st in (v \<noteq> 0xffffffff, st'))"

text \<open>
  What the value \<open>addr\<close> of a base address register and the value \<open>size\<close> read after writing ones give.
\<close>

definition decode_bar :: "nat \<Rightarrow> nat \<Rightarrow> u32 \<Rightarrow> u32 \<Rightarrow> resource option" where
  "decode_bar owner i addr sz =
    (if sz = 0 \<or> addr = sz then None
     else let (type, flags, sz1) =
       (if addr AND PCI_BAR_IO \<noteq> 0 then (RT_IOPORTS, RF_NONE, sz AND NOT PCI_BAR_IO_MASK)
        else (RT_MEMORY, if addr AND PCI_BAR_PREFETCHABLE \<noteq> 0 then RF_PREFETCHABLE else RF_NONE,
              sz AND NOT PCI_BAR_MEMORY_MASK));
       sz2 = - sz1
     in Some \<lparr>r_bus_space = NULL_SPACE, r_owner = owner, r_start = 0, r_end = sz2 - 1, r_type = type,
       r_flags = flags, r_id = i\<rparr>)"

text \<open>\<open>for (unsigned i = 0; i < 6; i++)\<close>: the registers \<open>i\<close> to \<open>5\<close> of the device at \<open>a\<close>.\<close>

fun probe_bars :: "bool \<Rightarrow> nat \<Rightarrow> pci_addr \<Rightarrow> nat list \<Rightarrow> pci_state \<Rightarrow> resource list \<times> pci_state" where
  "probe_bars el owner a [] st = ([], st)"
| "probe_bars el owner a (i # is) st =
    (let (addr, st1) = pci_read_config el a (PCIR_BAR i) 4 st;
         (sz, st2) = pci_adjust_config el a (PCIR_BAR i) 4 0xffffffff st1;
         (bars, st3) = probe_bars el owner a is st2
     in (case decode_bar owner i addr sz of None \<Rightarrow> bars | Some b \<Rightarrow> b # bars, st3))"

definition probe_device :: "bool \<Rightarrow> pci_addr \<Rightarrow> pci_state \<Rightarrow> pci_state result" where
  "probe_device el a st =
    (let n = length (pcidevs st) in
     if MALTA_PCI_DEVICE_COUNT \<le> n then Inl Out_of_bounds
     else let (did, st1) = pci_read_config el a PCIR_DEVICEID 2 st;
              (vid, st2) = pci_read_config el a PCIR_VENDORID 2 st1;
              (cls, st3) = pci_read_config el a PCIR_CLASSCODE 1 st2;
              (pin, st4) = pci_read_config el a PCIR_IRQPIN 1 st3;
              (irq, st5) = pci_read_config el a PCIR_IRQLINE 1 st4;
              (bars, st6) = probe_bars el n a [0..<6] st5
          in Inr (st6\<lparr>pcidevs := pcidevs st6 @ [\<lparr>d_addr = a, d_device_id = ucast did,
                d_vendor_id = ucast vid, d_class_code = ucast cls, d_pin = ucast pin, d_irq = ucast irq,
                d_bars = bars\<rparr>], devices := devices st6 @ [n]\<rparr>))"

fun enum_slots :: "bool \<Rightarrow> pci_addr list \<Rightarrow> pci_state \<Rightarrow> pci_state result" where
  "enum_slots el [] st = Inr st"
| "enum_slots el (a # as) st =
    (let (present, st1) = pci_device_present el a st in
     if \<not> present then enum_slots el as st1
     else rbind (probe_device el a st1) (enum_slots el as))"

definition all_slots :: "pci_addr list" where
  "all_slots = [slot_addr j k. j \<leftarrow> [0..<32], k \<leftarrow> [0..<8]]"

definition pci_bus_enumerate :: "bool \<Rightarrow> pci_state \<Rightarrow> pci_state result" where
  "pci_bus_enumerate el st = enum_slots el all_slots st"

section \<open>Address assignment\<close>

text \<open>A pointer to a base address register: the device and the position in its array.\<close>

type_synonym bar_ptr = "nat \<times> nat"

definition bar_at :: "pci_device list \<Rightarrow> bar_ptr \<Rightarrow> resource" where
  "bar_at devs p = d_bars (devs ! fst p) ! snd p"

definition set_bar :: "bar_ptr \<Rightarrow> resource \<Rightarrow> pci_device list \<Rightarrow> pci_device list" where
  "set_bar p b devs = devs[fst p := (devs ! fst p)\<lparr>d_bars := (d_bars (devs ! fst p))[snd p := b]\<rparr>]"

text \<open>\<open>intptr_t\<close> is signed.\<close>

definition pci_bar_compare :: "resource \<Rightarrow> resource \<Rightarrow> int" where
  "pci_bar_compare bar0 bar1 =
    (if sint (r_end bar0) < sint (r_end bar1) then 1
     else if sint (r_end bar0) > sint (r_end bar1) then - 1 else 0)"

definition ptr_compare :: "pci_device list \<Rightarrow> bar_ptr \<Rightarrow> bar_ptr \<Rightarrow> int" where
  "ptr_compare devs p q = pci_bar_compare (bar_at devs p) (bar_at devs q)"

definition all_bars :: "pci_state \<Rightarrow> bar_ptr list" where
  "all_bars st = concat (map (\<lambda>d. map (Pair d) [0..<length (d_bars (pcidevs st ! d))]) (devices st))"

text \<open>The loop over the sorted array with the two cursors \<open>io_base\<close> and \<open>mem_base\<close>.\<close>

fun assign_bars :: "bool \<Rightarrow> bar_ptr list \<Rightarrow> u32 \<Rightarrow> u32 \<Rightarrow> pci_state \<Rightarrow> pci_state" where
  "assign_bars el [] io mem st = st"
| "assign_bars el (p # ps) io mem st =
    (let bar = bar_at (pcidevs st) p;
         (bar', io', mem') =
           (if r_type bar = RT_IOPORTS
            then let b = bar\<lparr>r_bus_space := r_bus_space gt_pci_ioports, r_start := r_start bar + io,
                             r_end := r_end bar + io\<rparr> in (b, r_end b + 1, mem)
            else if r_type bar = RT_MEMORY
            then let b = bar\<lparr>r_bus_space := r_bus_space gt_pci_memory, r_start := r_start bar + mem,
                             r_end := r_end bar + mem\<rparr> in (b, io, r_end b + 1)
            else (bar, io, mem));
         st1 = st\<lparr>pcidevs := set_bar p bar' (pcidevs st)\<rparr>
     in assign_bars el ps io' mem'
          (pci_write_config el (d_addr (pcidevs st ! r_owner bar')) (PCIR_BAR (r_id bar')) 4 (r_start bar') st1))"

definition pci_bus_assign_space :: "bool \<Rightarrow> pci_state \<Rightarrow> pci_state result option" where
  "pci_bus_assign_space el st =
    (let bars = all_bars st;
         st1 = pci_print ''devs = %d, nbars = %d\<newline>''
           [KInt (of_nat (length (devices st))), KInt (of_nat (length bars))] st
     in obind (qsort (ptr_compare (pcidevs st1)) 4 bars) (\<lambda>sorted.
          Some (Inr (assign_bars el sorted (r_start gt_pci_ioports) (r_start gt_pci_memory) st1))))"

section \<open>Listing\<close>

definition dump_bar :: "nat \<times> resource \<Rightarrow> string \<times> karg list" where
  "dump_bar ib = (case ib of (i, bar) \<Rightarrow>
     (let type = (if r_type bar = RT_IOPORTS then ''I/O ports''
                  else if r_flags bar AND RF_PREFETCHABLE \<noteq> 0 then ''Memory (prefetchable)''
                  else ''Memory (non-prefetchable)'')
      in ('' Region %d: %s at %p [size=$%x]\<newline>'',
          [KInt (of_nat i), KStr type, KInt (r_start bar), KInt (r_end bar - r_start bar + 1)])))"

definition dump_device :: "pci_device \<Rightarrow> pci_state \<Rightarrow> pci_state result" where
  "dump_device dev st =
    (let st1 = pci_print ''[pci:%x:%x.%x]'' [KInt (ucast (a_bus (d_addr dev))),
           KInt (ucast (a_device (d_addr dev))), KInt (ucast (a_function (d_addr dev)))] st;
         vendor = pci_find_vendor (d_vendor_id dev);
         device = pci_find_device vendor (d_device_id dev);
         cls = unat (d_class_code dev)
     in if length pci_class_code \<le> cls then Inl Out_of_bounds
        else
        let st2 = pci_print ''%s'' [KStr (pci_class_code ! cls)] st1;
            st3 = (case vendor of
                Some v \<Rightarrow> pci_print '' %s'' [KStr (vi_name v)] st2
              | None \<Rightarrow> pci_print '' vendor:$%x'' [KInt (ucast (d_vendor_id dev))] st2);
            st4 = (case device of
                Some d \<Rightarrow> pci_print '' %s\<newline>'' [KStr (di_name d)] st3
              | None \<Rightarrow> pci_print '' device:$%x\<newline>'' [KInt (ucast (d_device_id dev))] st3);
            st5 = (if d_pin dev \<noteq> 0
              then pci_print '' Interrupt: pin %c routed to IRQ %d\<newline>''
                [KInt (65 + ucast (d_pin dev) - 1), KInt (ucast (d_irq dev))] st4
              else st4)
        in Inr (st5\<lparr>plog := plog st5 @ map dump_bar (enumerate 0 (d_bars dev))\<rparr>))"

fun dump_devices :: "nat list \<Rightarrow> pci_state \<Rightarrow> pci_state result" where
  "dump_devices [] st = Inr st"
| "dump_devices (d # ds) st = rbind (dump_device (pcidevs st ! d) st) (dump_devices ds)"

definition pci_bus_dump :: "pci_state \<Rightarrow> pci_state result" where
  "pci_bus_dump st = dump_devices (devices st) st"

definition pci_init :: "bool \<Rightarrow> pci_state \<Rightarrow> pci_state result option" where
  "pci_init el st =
    obind (Some (pci_bus_enumerate el st)) (\<lambda>st1.
    obind (pci_bus_assign_space el st1) (\<lambda>st2. Some (pci_bus_dump st2)))"

end
