(* ===== verification/Pci_Correct.thy ===== *)
theory Pci_Correct
  imports Pci "HOL-Library.Sublist"
begin

text \<open>
  What the PCI driver achieves: configuration addresses determine the slot and register they were made
  from, sizes are decoded from base address registers, and the addresses assigned to the registers of
  one kind are aligned, in the window of the bus and do not overlap. \<open>qsort\<close> is used through the
  comparator interface, interpreted on \<open>pci_bar_compare\<close>.
\<close>

section \<open>Configuration addresses\<close>

lemma bit_less_exp: "x < 2 ^ k \<Longrightarrow> bit (x :: 'a::len word) n \<Longrightarrow> k < LENGTH('a) \<Longrightarrow> n < k"
proof (rule ccontr)
  assume a: "x < 2 ^ k" "bit x n" "k < LENGTH('a)" "\<not> n < k"
  have "take_bit k x = x" using a(1,3) by (simp add: less_mask_eq take_bit_eq_mask word_mod_2p_is_mask)
  then have "bit (take_bit k x) n" using a(2) by simp
  then show False using a(4) by (simp add: bit_take_bit_iff)
qed

text \<open>Reading the fields of a configuration address back.\<close>

definition cfg_device :: "u32 \<Rightarrow> u32" where "cfg_device w = take_bit 5 (drop_bit 11 w)"
definition cfg_function :: "u32 \<Rightarrow> u32" where "cfg_function w = take_bit 3 (drop_bit 8 w)"
definition cfg_register :: "u32 \<Rightarrow> u32" where "cfg_register w = take_bit 6 (drop_bit 2 w)"

lemma cfg_fields:
  assumes "a_device a < 32" "a_function a < 8" "reg < 64"
  shows "cfg_device (PCI0_CFG_ENABLE OR gt_pci_make_addr a reg) = ucast (a_device a)"
    "cfg_function (PCI0_CFG_ENABLE OR gt_pci_make_addr a reg) = ucast (a_function a)"
    "cfg_register (PCI0_CFG_ENABLE OR gt_pci_make_addr a reg) = reg"
proof -
  have d: "bit (a_device a) n \<Longrightarrow> n < 5" and f: "bit (a_function a) n \<Longrightarrow> n < 3" and r: "bit reg n \<Longrightarrow> n < 6" for n
    using bit_less_exp [of "a_device a" 5 n] bit_less_exp [of "a_function a" 3 n] bit_less_exp [of reg 6 n] assms
    by simp_all
  have en: "bit PCI0_CFG_ENABLE n \<longleftrightarrow> n = 31" for n
  proof -
    have e: "PCI0_CFG_ENABLE = 2 ^ 31" by (simp add: PCI0_CFG_ENABLE_def)
    show ?thesis unfolding e bit_exp_iff by (auto simp: possible_bit_def)
  qed
  note bits = bit_take_bit_iff bit_drop_bit_eq bit_or_iff bit_push_bit_iff bit_unsigned_iff
  show "cfg_device (PCI0_CFG_ENABLE OR gt_pci_make_addr a reg) = ucast (a_device a)"
    by (rule bit_eqI) (auto simp: cfg_device_def gt_pci_make_addr_def bits en dest: d f r)
  show "cfg_function (PCI0_CFG_ENABLE OR gt_pci_make_addr a reg) = ucast (a_function a)"
    by (rule bit_eqI) (auto simp: cfg_function_def gt_pci_make_addr_def bits en dest: d f r)
  show "cfg_register (PCI0_CFG_ENABLE OR gt_pci_make_addr a reg) = reg"
    by (rule bit_eqI) (auto simp: cfg_register_def gt_pci_make_addr_def bits en dest: d f r)
qed

section \<open>Sizes\<close>

text \<open>
  A register that decodes \<open>2 ^ k\<close> bytes reads back the complement of \<open>2 ^ k - 1\<close>, with its flags below.
\<close>

lemma size_mask:
  assumes "flags \<le> mask j" "j \<le> k" "k < 32"
  shows "- ((NOT (mask k) OR flags) AND NOT (mask j)) - 1 = (mask k :: u32)"
proof -
  have fl: "bit flags n \<Longrightarrow> n < j" for n
  proof -
    assume b: "bit flags n"
    have "unat flags \<le> 2 ^ j - 1"
      using assms by (simp add: word_le_nat_alt mask_eq_exp_minus_1 unat_pow2 unat_sub)
    moreover have "(0::nat) < 2 ^ j" by simp
    ultimately have "unat flags < 2 ^ j" by linarith
    then have "flags < 2 ^ j" using assms by (simp add: word_less_nat_alt unat_pow2)
    then show "n < j" using bit_less_exp [of flags j n] b assms by simp
  qed
  have "(NOT (mask k) OR flags) AND NOT (mask j) = (NOT (mask k) :: u32)"
    by (rule bit_eqI) (use fl assms(2) in \<open>auto simp: bit_simps\<close>)
  then show ?thesis by (simp add: minus_eq_not_plus_1)
qed

lemma decode_memory_bar:
  assumes k: "4 \<le> k" "k < 32" and f: "flags \<le> 15" and a: "addr AND PCI_BAR_IO = 0" "addr \<noteq> NOT (mask k) OR flags"
  shows "decode_bar d i addr (NOT (mask k) OR flags) = Some \<lparr>r_bus_space = NULL_SPACE, r_owner = d, r_start = 0,
    r_end = mask k, r_type = RT_MEMORY,
    r_flags = (if addr AND PCI_BAR_PREFETCHABLE \<noteq> 0 then RF_PREFETCHABLE else RF_NONE), r_id = i\<rparr>"
proof -
  have "bit (NOT (mask k) OR flags) 31" using k by (simp add: bit_simps)
  then have nz: "NOT (mask k) OR flags \<noteq> 0" by auto
  have "PCI_BAR_MEMORY_MASK = mask 4" by (simp add: PCI_BAR_MEMORY_MASK_def mask_eq_exp_minus_1)
  then have "- ((NOT (mask k) OR flags) AND NOT PCI_BAR_MEMORY_MASK) - 1 = mask k"
    using size_mask [of flags 4 k] k f by (simp add: mask_eq_exp_minus_1)
  then show ?thesis using nz a by (simp add: decode_bar_def)
qed

lemma decode_io_bar:
  assumes k: "2 \<le> k" "k < 32" and f: "flags \<le> 3" and a: "addr AND PCI_BAR_IO \<noteq> 0" "addr \<noteq> NOT (mask k) OR flags"
  shows "decode_bar d i addr (NOT (mask k) OR flags) = Some \<lparr>r_bus_space = NULL_SPACE, r_owner = d, r_start = 0,
    r_end = mask k, r_type = RT_IOPORTS, r_flags = RF_NONE, r_id = i\<rparr>"
proof -
  have "bit (NOT (mask k) OR flags) 31" using k by (simp add: bit_simps)
  then have nz: "NOT (mask k) OR flags \<noteq> 0" by auto
  have "PCI_BAR_IO_MASK = mask 2" by (simp add: PCI_BAR_IO_MASK_def mask_eq_exp_minus_1)
  then have "- ((NOT (mask k) OR flags) AND NOT PCI_BAR_IO_MASK) - 1 = mask k"
    using size_mask [of flags 2 k] k f by (simp add: mask_eq_exp_minus_1)
  then show ?thesis using nz a by (simp add: decode_bar_def)
qed

section \<open>Ordering\<close>

interpretation bar_order: comparator pci_bar_compare
  by unfold_locales (auto simp: pci_bar_compare_def split: if_splits)

interpretation ptr_order: comparator "ptr_compare devs" for devs
proof unfold_locales
  fix x y z
  show "ptr_compare devs x y \<le> 0 \<longleftrightarrow> 0 \<le> ptr_compare devs y x"
    unfolding ptr_compare_def by (rule bar_order.sign)
  show "ptr_compare devs x y \<le> 0 \<Longrightarrow> ptr_compare devs y z \<le> 0 \<Longrightarrow> ptr_compare devs x z \<le> 0"
    unfolding ptr_compare_def by (rule bar_order.trans)
qed

section \<open>Assignment\<close>

definition valid_ptr :: "pci_device list \<Rightarrow> bar_ptr \<Rightarrow> bool" where
  "valid_ptr devs p \<longleftrightarrow> fst p < length devs \<and> snd p < length (d_bars (devs ! fst p))"

lemma set_bar_simps:
  assumes "valid_ptr devs p"
  shows "bar_at (set_bar p b devs) q = (if q = p then b else bar_at devs q)"
    "valid_ptr (set_bar p b devs) q = valid_ptr devs q" "length (set_bar p b devs) = length devs"
  using assms
  by (auto simp: bar_at_def set_bar_def valid_ptr_def nth_list_update split: prod.splits intro: prod_eqI)
    (metis prod_eqI)+

text \<open>The bytes taken by the registers of type \<open>T\<close> in a list of pointers, before assignment.\<close>

definition bar_size :: "resource \<Rightarrow> nat" where "bar_size b = unat (r_end b) + 1"

definition space_of :: "(bar_ptr \<Rightarrow> resource) \<Rightarrow> u32 \<Rightarrow> bar_ptr list \<Rightarrow> nat" where
  "space_of B T ps = sum_list (map (\<lambda>p. bar_size (B p)) (filter (\<lambda>p. r_type (B p) = T) ps))"

text \<open>Where the register \<open>p\<close> goes if \<open>n\<close> bytes of its window are taken.\<close>

definition located :: "resource \<Rightarrow> u32 \<Rightarrow> nat \<Rightarrow> resource" where
  "located b base n = b\<lparr>r_bus_space := GT_PCI_BUS_SPACE, r_start := base + of_nat n, r_end := r_end b + (base + of_nat n)\<rparr>"

lemma space_of_Cons: "space_of B T (p # ps) = (if r_type (B p) = T then bar_size (B p) else 0) + space_of B T ps"
  by (simp add: space_of_def)

definition base_of :: "u32 \<Rightarrow> u32 \<Rightarrow> resource \<Rightarrow> u32" where
  "base_of io mem b = (if r_type b = RT_IOPORTS then io else mem)"

definition fresh_bar :: "resource \<Rightarrow> bool" where
  "fresh_bar b \<longleftrightarrow> r_start b = 0 \<and> (r_type b = RT_IOPORTS \<or> r_type b = RT_MEMORY)"

lemma of_nat_bar_size: "of_nat (bar_size b) = r_end b + 1"
  by (simp add: bar_size_def)

lemma assign_bars_ok:
  assumes "distinct ps" "\<forall>p \<in> set ps. valid_ptr (pcidevs st) p \<and> bar_at (pcidevs st) p = B p \<and> fresh_bar (B p)"
  shows "\<forall>i < length ps. bar_at (pcidevs (assign_bars el ps io mem st)) (ps ! i) =
      located (B (ps ! i)) (base_of io mem (B (ps ! i))) (space_of B (r_type (B (ps ! i))) (take i ps))"
    "\<forall>q. q \<notin> set ps \<longrightarrow> bar_at (pcidevs (assign_bars el ps io mem st)) q = bar_at (pcidevs st) q"
    "\<forall>q. valid_ptr (pcidevs (assign_bars el ps io mem st)) q = valid_ptr (pcidevs st) q"
  using assms
proof (induction ps arbitrary: io mem st)
  case Nil
  {
    case 1 then show ?case by simp
  next
    case 2 then show ?case by simp
  next
    case 3 then show ?case by simp
  }
next
  case (Cons p ps)
  have types: "RT_IOPORTS \<noteq> RT_MEMORY" by (simp add: RT_IOPORTS_def RT_MEMORY_def)
  {
    fix io mem :: u32 and st :: pci_state
    let ?io = "if r_type (B p) = RT_IOPORTS then io + of_nat (bar_size (B p)) else io"
    let ?mem = "if r_type (B p) = RT_IOPORTS then mem else mem + of_nat (bar_size (B p))"
    assume a: "distinct (p # ps)"
      "\<forall>q \<in> set (p # ps). valid_ptr (pcidevs st) q \<and> bar_at (pcidevs st) q = B q \<and> fresh_bar (B q)"
    let ?b = "located (B p) (base_of io mem (B p)) 0"
    obtain st1 where st1: "assign_bars el (p # ps) io mem st = assign_bars el ps ?io ?mem st1"
      "pcidevs st1 = set_bar p ?b (pcidevs st)"
    proof (rule that)
      let ?st1 = "pci_write_config el (d_addr (pcidevs st ! r_owner ?b)) (PCIR_BAR (r_id ?b)) 4 (r_start ?b)
        (st\<lparr>pcidevs := set_bar p ?b (pcidevs st)\<rparr>)"
      show "assign_bars el (p # ps) io mem st = assign_bars el ps ?io ?mem ?st1"
        using a(2) types unfolding of_nat_bar_size
        by (auto simp: Let_def located_def base_of_def fresh_bar_def gt_pci_ioports_def gt_pci_memory_def add.commute add.left_commute)
      show "pcidevs ?st1 = set_bar p ?b (pcidevs st)" by (simp add: pci_write_config_def)
    qed
    have vp: "valid_ptr (pcidevs st) p" using a(2) by simp
    note sb = set_bar_simps [OF vp]
    have rest: "distinct ps" "\<forall>q \<in> set ps. valid_ptr (pcidevs st1) q \<and> bar_at (pcidevs st1) q = B q \<and> fresh_bar (B q)"
      using a by (auto simp: st1(2) sb)
    note IH = Cons.IH [OF rest, of ?io ?mem]
    have 1: "bar_at (pcidevs (assign_bars el (p # ps) io mem st)) ((p # ps) ! i) =
        located (B ((p # ps) ! i)) (base_of io mem (B ((p # ps) ! i))) (space_of B (r_type (B ((p # ps) ! i))) (take i (p # ps)))"
      if i: "i < length (p # ps)" for i
    proof (cases i)
      case 0
      have "bar_at (pcidevs (assign_bars el ps ?io ?mem st1)) p = bar_at (pcidevs st1) p"
        by (rule IH(2) [rule_format]) (use a(1) in simp)
      then have "bar_at (pcidevs (assign_bars el (p # ps) io mem st)) p = ?b"
        unfolding st1(1) st1(2) sb by simp
      then show ?thesis using 0 by (simp add: space_of_def)
    next
      case (Suc k)
      let ?q = "ps ! k"
      have "bar_at (pcidevs (assign_bars el ps ?io ?mem st1)) ?q =
          located (B ?q) (base_of ?io ?mem (B ?q)) (space_of B (r_type (B ?q)) (take k ps))"
        using IH(1) i Suc by simp
      moreover have "base_of ?io ?mem (B ?q) + of_nat (space_of B (r_type (B ?q)) (take k ps)) =
          base_of io mem (B ?q) + of_nat (space_of B (r_type (B ?q)) (take (Suc k) (p # ps)))"
        using rest(2) a(2) i Suc types by (auto simp: base_of_def space_of_Cons fresh_bar_def add.assoc)
      ultimately have "bar_at (pcidevs (assign_bars el (p # ps) io mem st)) ?q =
          located (B ?q) (base_of io mem (B ?q)) (space_of B (r_type (B ?q)) (take (Suc k) (p # ps)))"
        unfolding st1(1) located_def by simp
      then show ?thesis using Suc by simp
    qed
    have 2: "bar_at (pcidevs (assign_bars el (p # ps) io mem st)) q = bar_at (pcidevs st) q" if "q \<notin> set (p # ps)" for q
    proof -
      have "bar_at (pcidevs (assign_bars el ps ?io ?mem st1)) q = bar_at (pcidevs st1) q"
        by (rule IH(2) [rule_format]) (use that in simp)
      then show ?thesis using that unfolding st1(1) st1(2) sb by simp
    qed
    have 3: "valid_ptr (pcidevs (assign_bars el (p # ps) io mem st)) q = valid_ptr (pcidevs st) q" for q
      using IH(3) unfolding st1(1) st1(2) sb by blast
    note 1 2 3
  } note all = this
  {
    case 1 then show ?case by (intro allI impI all(1))
  next
    case 2 then show ?case by (intro allI impI all(2))
  next
    case 3 then show ?case by (intro allI all(3))
  }
qed

section \<open>The windows\<close>

definition bus_window :: "u32 \<Rightarrow> resource" where
  "bus_window T = (if T = RT_IOPORTS then gt_pci_ioports else gt_pci_memory)"

text \<open>What enumeration leaves: distinct devices, fresh registers with sizes that are powers of two.\<close>

definition pci_ready :: "pci_state \<Rightarrow> bool" where
  "pci_ready st \<longleftrightarrow> distinct (devices st) \<and> (\<forall>d \<in> set (devices st). d < length (pcidevs st)) \<and>
    (\<forall>p \<in> set (all_bars st). fresh_bar (bar_at (pcidevs st) p) \<and> (\<exists>k < 28. r_end (bar_at (pcidevs st) p) = mask k))"

definition total_space :: "u32 \<Rightarrow> pci_state \<Rightarrow> nat" where
  "total_space T st = space_of (bar_at (pcidevs st)) T (all_bars st)"

definition window_size :: "u32 \<Rightarrow> nat" where
  "window_size T = unat (r_end (bus_window T)) + 1 - unat (r_start (bus_window T))"

text \<open>The address range of a register is well placed.\<close>

definition placed_bar :: "resource \<Rightarrow> resource \<Rightarrow> bool" where
  "placed_bar b b' \<longleftrightarrow> r_bus_space b' = GT_PCI_BUS_SPACE \<and> r_type b' = r_type b \<and>
    unat (r_start (bus_window (r_type b))) \<le> unat (r_start b') \<and>
    unat (r_end b') = unat (r_start b') + unat (r_end b) \<and>
    unat (r_end b') \<le> unat (r_end (bus_window (r_type b))) \<and> bar_size b dvd unat (r_start b')"

lemma distinct_all_bars: "distinct ds \<Longrightarrow> distinct (concat (map (\<lambda>d. map (Pair d) [0..<f d]) ds))"
  by (induction ds) (auto simp: distinct_map inj_on_def)

lemma all_bars_valid:
  assumes "pci_ready st" "p \<in> set (all_bars st)"
  shows "valid_ptr (pcidevs st) p"
  using assms by (auto simp: pci_ready_def all_bars_def valid_ptr_def)

lemma space_of_append: "space_of B T (ps @ qs) = space_of B T ps + space_of B T qs"
  by (simp add: space_of_def)

lemma space_of_mset: "mset ps = mset qs \<Longrightarrow> space_of B T ps = space_of B T qs"
proof -
  have "space_of B T xs = (\<Sum>p \<in># filter_mset (\<lambda>p. r_type (B p) = T) (mset xs). bar_size (B p))" for xs
    by (induction xs) (simp_all add: space_of_Cons, simp add: space_of_def)
  then show "mset ps = mset qs \<Longrightarrow> space_of B T ps = space_of B T qs" by simp
qed

lemma space_of_take: "i < length ps \<Longrightarrow> r_type (B (ps ! i)) = T \<Longrightarrow>
    space_of B T (take i ps) + bar_size (B (ps ! i)) \<le> space_of B T (take j ps) \<or> j \<le> i"
proof (cases "j \<le> i")
  case False
  assume i: "i < length ps" "r_type (B (ps ! i)) = T"
  obtain n where j: "j = i + Suc n" using False less_iff_Suc_add [of i j] by auto
  have "drop i ps = ps ! i # drop (Suc i) ps" using i(1) by (simp add: Cons_nth_drop_Suc)
  then have "take (Suc n) (drop i ps) = ps ! i # take n (drop (Suc i) ps)" by simp
  then have "take j ps = take i ps @ ps ! i # take n (drop (Suc i) ps)" unfolding j take_add by simp
  then show ?thesis using i(2) by (simp add: space_of_append space_of_Cons)
qed simp

lemma space_of_dvd: "(\<And>p. p \<in> set ps \<Longrightarrow> d dvd bar_size (B p)) \<Longrightarrow> d dvd space_of B T ps"
  by (induction ps) (auto simp: space_of_Cons space_of_def)

lemma bar_size_mask: "r_end b = mask k \<Longrightarrow> k < 32 \<Longrightarrow> bar_size b = 2 ^ k"
  by (simp add: bar_size_def mask_eq_exp_minus_1 unat_sub unat_pow2 word_le_nat_alt)

lemma sint_mask: "k < 28 \<Longrightarrow> sint (mask k :: u32) = 2 ^ k - 1"
proof -
  assume k: "k < 28"
  have "(2::int) ^ k \<le> 2 ^ 28" using k by (intro power_increasing) auto
  moreover have "unat (mask k :: u32) = 2 ^ k - 1"
    using k by (simp add: mask_eq_exp_minus_1 unat_sub unat_pow2 word_le_nat_alt)
  then have "uint (mask k :: u32) = 2 ^ k - 1" unfolding uint_nat by (simp add: of_nat_diff)
  moreover have "- (2 ^ 31) \<le> (2::int) ^ k - 1" by (rule order_trans [of _ 0]) simp_all
  ultimately show ?thesis unfolding sint_uint by (subst signed_take_bit_int_eq_self) simp_all
qed

lemma window_numbers:
  "unat (r_start (bus_window T)) + window_size T = unat (r_end (bus_window T)) + 1"
  "2 ^ 27 dvd unat (r_start (bus_window T))" "unat (r_end (bus_window T)) < 2 ^ 29" "window_size T \<le> 2 ^ 27"
  by (simp_all add: window_size_def bus_window_def gt_pci_ioports_def gt_pci_memory_def
    MALTA_PCI0_IO_BASE_def MALTA_PCI0_IO_END_def MALTA_PCI0_MEMORY_BASE_def MALTA_PCI0_MEMORY_END_def)

lemma base_of_window:
  "base_of (r_start gt_pci_ioports) (r_start gt_pci_memory) b = r_start (bus_window (r_type b))"
  by (simp add: bus_window_def base_of_def)

lemma length_space_of:
  "\<forall>p \<in> set ps. fresh_bar (B p) \<Longrightarrow> length ps \<le> space_of B RT_IOPORTS ps + space_of B RT_MEMORY ps"
proof (induction ps)
  case (Cons p ps)
  have "1 \<le> bar_size (B p)" by (simp add: bar_size_def)
  then show ?case using Cons by (auto simp: space_of_Cons fresh_bar_def)
qed simp

text \<open>One register at offset \<open>n\<close> of its window.\<close>

lemma located_ok:
  assumes r: "r_end b = mask k" "k < 28" and fit: "n + bar_size b \<le> window_size (r_type b)"
    and d: "bar_size b dvd n"
  shows "placed_bar b (located b (r_start (bus_window (r_type b))) n)"
    "unat (r_start (located b (r_start (bus_window (r_type b))) n)) = unat (r_start (bus_window (r_type b))) + n"
proof -
  let ?w = "bus_window (r_type b)"
  note wn = window_numbers [of "r_type b"]
  have bs: "bar_size b = 2 ^ k" using bar_size_mask [OF r(1)] r(2) by simp
  have re: "unat (r_end b) = bar_size b - 1" by (simp add: bar_size_def)
  have le: "unat (r_start ?w) + n + bar_size b \<le> unat (r_end ?w) + 1" using fit wn(1) by simp
  have n: "unat (of_nat n :: u32) = n" using le wn(3) bs by (intro unat_of_nat_small) simp
  have s: "unat (r_start ?w + of_nat n) = unat (r_start ?w) + n"
    using le wn(3) n bs by (subst unat_add_small) simp_all
  have e: "unat (r_end b + (r_start ?w + of_nat n)) = unat (r_start ?w) + n + (bar_size b - 1)"
    using le wn(3) s re by (subst unat_add_small) simp_all
  show "unat (r_start (located b (r_start ?w) n)) = unat (r_start ?w) + n" using s by (simp add: located_def)
  have "bar_size b dvd 2 ^ 27" unfolding bs using r(2) by (intro le_imp_power_dvd) simp
  then have "bar_size b dvd unat (r_start ?w) + n" using wn(2) d dvd_trans by (intro dvd_add) blast+
  then show "placed_bar b (located b (r_start ?w) n)"
    using s e le re bs by (simp add: placed_bar_def located_def)
qed

lemma pci_bus_assign_space_ok:
  assumes rd: "pci_ready st"
    and fit: "total_space RT_IOPORTS st \<le> window_size RT_IOPORTS" "total_space RT_MEMORY st \<le> window_size RT_MEMORY"
  shows "\<exists>st'. pci_bus_assign_space el st = Some (Inr st') \<and>
    (\<forall>p \<in> set (all_bars st). placed_bar (bar_at (pcidevs st) p) (bar_at (pcidevs st') p)) \<and>
    (\<forall>p \<in> set (all_bars st). \<forall>q \<in> set (all_bars st).
      p \<noteq> q \<and> r_type (bar_at (pcidevs st) p) = r_type (bar_at (pcidevs st) q) \<longrightarrow>
      r_end (bar_at (pcidevs st') p) < r_start (bar_at (pcidevs st') q) \<or>
      r_end (bar_at (pcidevs st') q) < r_start (bar_at (pcidevs st') p))"
proof -
  let ?B = "bar_at (pcidevs st)" and ?ps = "all_bars st"
  have "length ?ps \<le> total_space RT_IOPORTS st + total_space RT_MEMORY st"
    unfolding total_space_def using rd by (intro length_space_of) (simp add: pci_ready_def)
  then have len: "length ?ps < 3 * 2 ^ 30"
    using fit window_numbers(4) [of RT_IOPORTS] window_numbers(4) [of RT_MEMORY] by simp
  obtain ps where q: "qsort (ptr_compare (pcidevs st)) 4 ?ps = Some (Inr ps)" "mset ps = mset ?ps"
    and sorted: "sorted_wrt (\<lambda>p q. ptr_compare (pcidevs st) p q \<le> 0) ps"
    using ptr_order.qsort_ok [of 4 ?ps "pcidevs st"] len by auto
  have set: "set ps = set ?ps" using q(2) by (rule mset_eq_setD)
  have dist: "distinct ps"
    using q(2) rd distinct_all_bars [of "devices st" "\<lambda>d. length (d_bars (pcidevs st ! d))"]
    by (metis all_bars_def mset_eq_imp_distinct_iff pci_ready_def)
  let ?st1 = "pci_print ''devs = %d, nbars = %d\<newline>''
      [KInt (of_nat (length (devices st))), KInt (of_nat (length ?ps))] st"
  let ?st' = "assign_bars el ps (r_start gt_pci_ioports) (r_start gt_pci_memory) ?st1"
  have r: "pci_bus_assign_space el st = Some (Inr ?st')"
    using q(1) by (simp add: pci_bus_assign_space_def Let_def pci_print_def)
  have all: "\<exists>k < 28. r_end (?B p) = mask k" "fresh_bar (?B p)" "valid_ptr (pcidevs st) p" if "p \<in> set ps" for p
    using that set rd all_bars_valid [OF rd] by (auto simp: pci_ready_def)
  have "\<forall>p \<in> set ps. valid_ptr (pcidevs ?st1) p \<and> bar_at (pcidevs ?st1) p = ?B p \<and> fresh_bar (?B p)"
    using all by (simp add: pci_print_def)
  note as = assign_bars_ok(1) [OF dist this, of el "r_start gt_pci_ioports" "r_start gt_pci_memory"]
  define off where "off i = space_of ?B (r_type (?B (ps ! i))) (take i ps)" for i
  have at_i: "bar_at (pcidevs ?st') (ps ! i) = located (?B (ps ! i)) (r_start (bus_window (r_type (?B (ps ! i))))) (off i)"
    if "i < length ps" for i
    using as that unfolding off_def base_of_window by blast
  have tot: "space_of ?B T ps = total_space T st" for T
    using space_of_mset [OF q(2)] by (simp add: total_space_def)
  have fits: "off i + bar_size (?B (ps ! i)) \<le> window_size (r_type (?B (ps ! i)))" if i: "i < length ps" for i
  proof -
    have "off i + bar_size (?B (ps ! i)) \<le> space_of ?B (r_type (?B (ps ! i))) (take (length ps) ps)"
      using space_of_take [OF i refl, of ?B "length ps"] i by (simp add: off_def)
    then show ?thesis using tot fit all(2) [OF nth_mem [OF i]] by (auto simp: fresh_bar_def)
  qed
  have size_le: "bar_size (?B (ps ! j)) dvd bar_size (?B (ps ! i))" if ij: "i < j" "j < length ps" for i j
  proof -
    have i: "i < length ps" using ij by simp
    obtain k where k: "k < 28" "r_end (?B (ps ! i)) = mask k" using all(1) [OF nth_mem [OF i]] by blast
    obtain l where l: "l < 28" "r_end (?B (ps ! j)) = mask l" using all(1) [OF nth_mem [OF ij(2)]] by blast
    have "ptr_compare (pcidevs st) (ps ! i) (ps ! j) \<le> 0" using sorted ij by (simp add: sorted_wrt_iff_nth_less)
    then have "sint (r_end (?B (ps ! j))) \<le> sint (r_end (?B (ps ! i)))"
      by (auto simp: ptr_compare_def pci_bar_compare_def split: if_splits)
    then have "(2::int) ^ l \<le> 2 ^ k" unfolding k(2) l(2) sint_mask [OF k(1)] sint_mask [OF l(1)] by linarith
    then have "l \<le> k" by simp
    then show ?thesis using bar_size_mask [OF k(2)] bar_size_mask [OF l(2)] k(1) l(1) by (simp add: le_imp_power_dvd)
  qed
  have off_dvd: "bar_size (?B (ps ! i)) dvd off i" if i: "i < length ps" for i
    unfolding off_def
  proof (rule space_of_dvd)
    fix p assume "p \<in> set (take i ps)"
    then obtain h where "h < i" "p = ps ! h" using i by (auto simp: in_set_conv_nth)
    then show "bar_size (?B (ps ! i)) dvd bar_size (?B p)" using size_le i by simp
  qed
  have loc: "placed_bar (?B (ps ! i)) (bar_at (pcidevs ?st') (ps ! i))"
    "unat (r_start (bar_at (pcidevs ?st') (ps ! i))) = unat (r_start (bus_window (r_type (?B (ps ! i))))) + off i"
    if i: "i < length ps" for i
  proof -
    obtain k where k: "k < 28" "r_end (?B (ps ! i)) = mask k" using all(1) [OF nth_mem [OF i]] by blast
    show "placed_bar (?B (ps ! i)) (bar_at (pcidevs ?st') (ps ! i))"
      "unat (r_start (bar_at (pcidevs ?st') (ps ! i))) = unat (r_start (bus_window (r_type (?B (ps ! i))))) + off i"
      unfolding at_i [OF i] using located_ok [OF k(2,1) fits [OF i] off_dvd [OF i]] by simp_all
  qed
  have apart: "r_end (bar_at (pcidevs ?st') (ps ! i)) < r_start (bar_at (pcidevs ?st') (ps ! j))"
    if ij: "i < j" "j < length ps" and T: "r_type (?B (ps ! i)) = r_type (?B (ps ! j))" for i j
  proof -
    have i: "i < length ps" using ij by simp
    have "off i + bar_size (?B (ps ! i)) \<le> off j"
      using space_of_take [of i ps ?B "r_type (?B (ps ! j))" j] i T ij(1) by (simp add: off_def)
    then have "unat (r_end (bar_at (pcidevs ?st') (ps ! i))) < unat (r_start (bar_at (pcidevs ?st') (ps ! j)))"
      using loc [OF i] loc(2) [OF ij(2)] T by (simp add: placed_bar_def bar_size_def)
    then show ?thesis by (simp add: word_less_nat_alt)
  qed
  have "\<forall>p \<in> set ps. placed_bar (?B p) (bar_at (pcidevs ?st') p)"
    using loc(1) by (metis in_set_conv_nth)
  moreover have "\<forall>p \<in> set ps. \<forall>q \<in> set ps. p \<noteq> q \<and> r_type (?B p) = r_type (?B q) \<longrightarrow>
      r_end (bar_at (pcidevs ?st') p) < r_start (bar_at (pcidevs ?st') q) \<or>
      r_end (bar_at (pcidevs ?st') q) < r_start (bar_at (pcidevs ?st') p)"
  proof (intro ballI impI)
    fix p q assume "p \<in> set ps" "q \<in> set ps" and ne: "p \<noteq> q \<and> r_type (?B p) = r_type (?B q)"
    then obtain i j where ij: "i < length ps" "p = ps ! i" "j < length ps" "q = ps ! j" unfolding in_set_conv_nth by blast
    then have "i < j \<or> j < i" using ne by (metis linorder_neqE_nat)
    then show "r_end (bar_at (pcidevs ?st') p) < r_start (bar_at (pcidevs ?st') q) \<or>
      r_end (bar_at (pcidevs ?st') q) < r_start (bar_at (pcidevs ?st') p)"
      using apart [of i j] apart [of j i] ne ij by (elim disjE) simp_all
  qed
  ultimately show ?thesis using r unfolding set by blast
qed

section \<open>Enumeration\<close>

text \<open>What the table of devices looks like after any number of slots.\<close>

definition table_ok :: "pci_state \<Rightarrow> bool" where
  "table_ok st \<longleftrightarrow> length (pcidevs st) \<le> MALTA_PCI_DEVICE_COUNT \<and> devices st = [0..<length (pcidevs st)] \<and>
    (\<forall>d < length (pcidevs st). length (d_bars (pcidevs st ! d)) \<le> 6 \<and>
      (\<forall>b \<in> set (d_bars (pcidevs st ! d)). fresh_bar b \<and> r_owner b = d \<and> r_id b < 6))"

lemma config_table:
  "pcidevs (snd (pci_read_config el a reg sz st)) = pcidevs st" "devices (snd (pci_read_config el a reg sz st)) = devices st"
  "pcidevs (pci_write_config el a reg sz v st) = pcidevs st" "devices (pci_write_config el a reg sz v st) = devices st"
  by (simp_all add: pci_read_config_def pci_write_config_def split: prod.splits)

lemma decode_bar_fresh: "decode_bar d i addr sz = Some b \<Longrightarrow> fresh_bar b \<and> r_owner b = d \<and> r_id b = i"
  by (auto simp: decode_bar_def fresh_bar_def split: if_splits prod.splits)

lemma probe_bars_ok:
  "probe_bars el d a is st = (bars, st') \<Longrightarrow> pcidevs st' = pcidevs st \<and> devices st' = devices st \<and>
    length bars \<le> length is \<and> (\<forall>b \<in> set bars. fresh_bar b \<and> r_owner b = d \<and> r_id b \<in> set is)"
proof (induction "is" arbitrary: st bars st')
  case Nil
  then show ?case by simp
next
  case (Cons i "is")
  obtain addr st1 where 1: "pci_read_config el a (PCIR_BAR i) 4 st = (addr, st1)" by (cases "pci_read_config el a (PCIR_BAR i) 4 st")
  obtain sz st2 where 2: "pci_adjust_config el a (PCIR_BAR i) 4 0xffffffff st1 = (sz, st2)"
    by (cases "pci_adjust_config el a (PCIR_BAR i) 4 0xffffffff st1")
  obtain bs st3 where 3: "probe_bars el d a is st2 = (bs, st3)" by (cases "probe_bars el d a is st2")
  have t: "pcidevs st2 = pcidevs st" "devices st2 = devices st"
    using config_table(1,2) [of el a "PCIR_BAR i" 4 st] 1 2
      config_table(1,2) [of el a "PCIR_BAR i" 4 "pci_write_config el a (PCIR_BAR i) 4 0xffffffff st1"]
    by (simp_all add: pci_adjust_config_def config_table)
  have r: "bars = (case decode_bar d i addr sz of None \<Rightarrow> bs | Some b \<Rightarrow> b # bs)" "st' = st3"
    using Cons.prems 1 2 3 by simp_all
  show ?case using Cons.IH [OF 3] t r decode_bar_fresh [of d i addr sz] by (auto split: option.splits)
qed

lemma probe_device_ok:
  assumes "table_ok st" "probe_device el a st = Inr st'"
  shows "table_ok st'"
proof -
  let ?n = "length (pcidevs st)"
  obtain did s1 vid s2 cls s3 pin s4 irq s5 bars s6 where
    c: "pci_read_config el a PCIR_DEVICEID 2 st = (did, s1)" "pci_read_config el a PCIR_VENDORID 2 s1 = (vid, s2)"
    "pci_read_config el a PCIR_CLASSCODE 1 s2 = (cls, s3)" "pci_read_config el a PCIR_IRQPIN 1 s3 = (pin, s4)"
    "pci_read_config el a PCIR_IRQLINE 1 s4 = (irq, s5)" "probe_bars el ?n a [0..<6] s5 = (bars, s6)"
    by (metis prod.exhaust)
  have n: "?n < MALTA_PCI_DEVICE_COUNT" using assms(2) by (auto simp: probe_device_def Let_def not_le split: if_splits)
  have t: "pcidevs s5 = pcidevs st" "devices s5 = devices st"
    using config_table(1,2) [of el a PCIR_DEVICEID 2 st] config_table(1,2) [of el a PCIR_VENDORID 2 s1]
      config_table(1,2) [of el a PCIR_CLASSCODE 1 s2] config_table(1,2) [of el a PCIR_IRQPIN 1 s3]
      config_table(1,2) [of el a PCIR_IRQLINE 1 s4] c by simp_all
  note pb = probe_bars_ok [OF c(6)]
  have r: "pcidevs st' = pcidevs st @ [\<lparr>d_addr = a, d_device_id = ucast did, d_vendor_id = ucast vid,
      d_class_code = ucast cls, d_pin = ucast pin, d_irq = ucast irq, d_bars = bars\<rparr>]"
    "devices st' = devices st @ [?n]"
    using assms(2) n pb t by (auto simp: probe_device_def Let_def c)
  show ?thesis
    using assms(1) n pb unfolding table_ok_def r by (auto simp: nth_append less_Suc_eq)
qed

lemma enum_slots_ok:
  "table_ok st \<Longrightarrow> enum_slots el as st = Inr st' \<Longrightarrow> table_ok st'"
proof (induction as arbitrary: st)
  case Nil
  then show ?case by simp
next
  case (Cons a as)
  obtain present s1 where p: "pci_device_present el a st = (present, s1)" by (cases "pci_device_present el a st")
  have t: "table_ok s1"
    using p config_table(1,2) [of el a PCIR_DEVICEID 4 st] Cons.prems(1)
    by (auto simp: pci_device_present_def table_ok_def Let_def split: prod.splits)
  show ?case
  proof (cases present)
    case True
    then obtain s2 where "probe_device el a s1 = Inr s2" "enum_slots el as s2 = Inr st'"
      using Cons.prems(2) p by (auto simp: Let_def rbind_Inr_iff)
    then show ?thesis using Cons.IH probe_device_ok [OF t] by blast
  next
    case False
    then show ?thesis using Cons.IH [OF t] Cons.prems(2) p by simp
  qed
qed

text \<open>
  The devices are found in the order of the slots, each slot at most once; the only fault is a device
  beyond the end of the table.
\<close>

lemma probe_device_addr:
  assumes "probe_device el a st = Inr st'"
  shows "map d_addr (pcidevs st') = map d_addr (pcidevs st) @ [a]"
proof -
  obtain bars s1 s5 where b: "probe_bars el (length (pcidevs st)) a [0..<6] s5 = (bars, s1)" "pcidevs s5 = pcidevs st"
    "map d_addr (pcidevs st') = map d_addr (pcidevs s1) @ [a]"
    using assms by (auto simp: probe_device_def Let_def pci_read_config_def split: if_splits prod.splits)
  show ?thesis using probe_bars_ok [OF b(1)] b(2,3) by simp
qed

lemma probe_device_fault: "probe_device el a st = Inl e \<Longrightarrow> e = Out_of_bounds \<and> MALTA_PCI_DEVICE_COUNT \<le> length (pcidevs st)"
  by (auto simp: probe_device_def Let_def split: if_splits prod.splits)

lemma enum_slots_addrs:
  "enum_slots el as st = Inr st' \<Longrightarrow> \<exists>bs. subseq bs as \<and> map d_addr (pcidevs st') = map d_addr (pcidevs st) @ bs"
proof (induction as arbitrary: st)
  case Nil
  then show ?case by simp
next
  case (Cons a as)
  obtain present s1 where p: "pci_device_present el a st = (present, s1)" by (cases "pci_device_present el a st")
  have t: "pcidevs s1 = pcidevs st"
    using p config_table(1) [of el a PCIR_DEVICEID 4 st] by (auto simp: pci_device_present_def Let_def split: prod.splits)
  show ?case
  proof (cases present)
    case True
    then obtain s2 where s2: "probe_device el a s1 = Inr s2" "enum_slots el as s2 = Inr st'"
      using Cons.prems p by (auto simp: Let_def rbind_Inr_iff)
    then obtain bs where "subseq bs as" "map d_addr (pcidevs st') = map d_addr (pcidevs s2) @ bs" using Cons.IH by blast
    then show ?thesis using probe_device_addr [OF s2(1)] t by (intro exI [of _ "a # bs"]) simp
  next
    case False
    then obtain bs where "subseq bs as" "map d_addr (pcidevs st') = map d_addr (pcidevs s1) @ bs"
      using Cons.IH [of s1] Cons.prems p by (auto simp: Let_def)
    then show ?thesis using t by (intro exI [of _ bs]) auto
  qed
qed

lemma enum_slots_fault: "enum_slots el as st = Inl e \<Longrightarrow> e = Out_of_bounds"
proof (induction as arbitrary: st)
  case Nil
  then show ?case by simp
next
  case (Cons a as)
  obtain present s1 where p: "pci_device_present el a st = (present, s1)" by (cases "pci_device_present el a st")
  then show ?case using Cons probe_device_fault [of el a s1 e] by (auto simp: Let_def rbind_Inl_iff split: if_splits)
qed

lemma pci_bus_enumerate_ok:
  assumes "pcidevs st = []" "devices st = []"
  shows "(\<exists>st'. pci_bus_enumerate el st = Inr st' \<and> table_ok st' \<and> subseq (map d_addr (pcidevs st')) all_slots) \<or>
    pci_bus_enumerate el st = Inl Out_of_bounds"
proof (cases "pci_bus_enumerate el st")
  case (Inl e)
  then show ?thesis using enum_slots_fault by (auto simp: pci_bus_enumerate_def)
next
  case (Inr st')
  then have e: "enum_slots el all_slots st = Inr st'" by (simp add: pci_bus_enumerate_def)
  have "table_ok st" using assms by (simp add: table_ok_def)
  then show ?thesis using Inr enum_slots_ok [OF _ e] enum_slots_addrs [OF e] assms by auto
qed

text \<open>A table of probed devices is ready for the assignment when the sizes are powers of two.\<close>

lemma table_ready:
  assumes t: "table_ok st" and k: "\<forall>d < length (pcidevs st). \<forall>b \<in> set (d_bars (pcidevs st ! d)). \<exists>k < 28. r_end b = mask k"
  shows "pci_ready st"
proof -
  have "\<exists>d < length (pcidevs st). bar_at (pcidevs st) p \<in> set (d_bars (pcidevs st ! d))" if "p \<in> set (all_bars st)" for p
    using that t by (auto simp: all_bars_def bar_at_def table_ok_def)
  then show ?thesis using t k unfolding pci_ready_def table_ok_def by (metis atLeastLessThan_iff distinct_upt set_upt)
qed

section \<open>A small bus, for examples\<close>

definition one_bar :: "u32 \<Rightarrow> u32 \<Rightarrow> nat \<Rightarrow> resource" where
  "one_bar t e i = \<lparr>r_bus_space = NULL_SPACE, r_owner = 0, r_start = 0, r_end = e, r_type = t, r_flags = 0, r_id = i\<rparr>"

definition two_bars :: pci_state where
  "two_bars = \<lparr>hw = \<lparr>mreads = \<lambda>_. 0, mpos = 0, mlog = []\<rparr>,
     pcidevs = [\<lparr>d_addr = slot_addr 18 0, d_device_id = 0x1111, d_vendor_id = 0x1234, d_class_code = 3, d_pin = 0, d_irq = 0,
       d_bars = [one_bar RT_MEMORY 0xffffff 0, one_bar RT_IOPORTS 0xff 1]\<rparr>],
     devices = [0], plog = []\<rparr>"

lemma two_bars_all: "all_bars two_bars = [(0, 0), (0, 1)]"
  by (simp add: two_bars_def all_bars_def)

lemma two_bars_ready: "pci_ready two_bars"
proof -
  have "0xffffff = (mask 24 :: u32)" "0xff = (mask 8 :: u32)" by (simp_all add: mask_eq_exp_minus_1)
  then show ?thesis unfolding pci_ready_def two_bars_all
    by (auto simp: two_bars_def bar_at_def one_bar_def fresh_bar_def RT_MEMORY_def RT_IOPORTS_def
      intro: exI [of _ 24] exI [of _ 8])
qed

lemma two_bars_fit:
  "total_space RT_IOPORTS two_bars \<le> window_size RT_IOPORTS" "total_space RT_MEMORY two_bars \<le> window_size RT_MEMORY"
  unfolding total_space_def two_bars_all space_of_Cons
  by (simp_all add: space_of_def two_bars_def bar_at_def one_bar_def bar_size_def RT_MEMORY_def RT_IOPORTS_def
    window_size_def bus_window_def gt_pci_ioports_def gt_pci_memory_def MALTA_PCI0_IO_BASE_def MALTA_PCI0_IO_END_def
    MALTA_PCI0_MEMORY_BASE_def MALTA_PCI0_MEMORY_END_def)

text \<open>
  The word written to the configuration address register decodes to the device, function and register it
  was made from, with the enable bit set: distinct targets have distinct words.
\<close>

lemma config_address_decodes:
  assumes "a_device a < 32" "a_function a < 8" "reg < 64"
  shows "let w = PCI0_CFG_ENABLE OR gt_pci_make_addr a reg in
    cfg_device w = ucast (a_device a) \<and> cfg_function w = ucast (a_function a) \<and> cfg_register w = reg \<and> bit w 31"
  using cfg_fields [OF assms] by (simp add: Let_def PCI0_CFG_ENABLE_def bit_or_iff)

end
