(* ===== verification/Stdvga.thy ===== *)
theory Stdvga
  imports Pci_Correct
begin

text \<open>
  The driver of QEMU's standard VGA device, \<open>stdvga.c\<close>: the state \<open>stdvga\<close>, the register and frame
  buffer accesses through the device's base address registers, and what \<open>stdvga_pci_attach\<close>,
  \<open>stdvga_palette_write\<close> and \<open>stdvga_fb_write\<close> do on the bus.
\<close>

section \<open>Constants\<close>

definition VGA_PALETTE_SIZE :: nat where "VGA_PALETTE_SIZE = 256 * 3"
definition VGA_PALETTE_ADDR :: u16 where "VGA_PALETTE_ADDR = 0x3C8"
definition VGA_PALETTE_DATA :: u16 where "VGA_PALETTE_DATA = 0x3C9"
definition VGA_AR_ADDR :: u16 where "VGA_AR_ADDR = 0x3C0"
definition VGA_AR_PAS :: u8 where "VGA_AR_PAS = 0x20"
definition VBE_DISPI_INDEX_XRES :: u16 where "VBE_DISPI_INDEX_XRES = 0x01"
definition VBE_DISPI_INDEX_YRES :: u16 where "VBE_DISPI_INDEX_YRES = 0x02"
definition VBE_DISPI_INDEX_BPP :: u16 where "VBE_DISPI_INDEX_BPP = 0x03"
definition VBE_DISPI_INDEX_ENABLE :: u16 where "VBE_DISPI_INDEX_ENABLE = 0x04"
definition VBE_DISPI_ENABLED :: u16 where "VBE_DISPI_ENABLED = 0x01"
definition VGA_MMIO_OFFSET :: u32 where "VGA_MMIO_OFFSET = 0x400 - 0x3c0"
definition VBE_MMIO_OFFSET :: u32 where "VBE_MMIO_OFFSET = 0x500"
definition VGA_QEMU_STDVGA_VENDOR_ID :: u16 where "VGA_QEMU_STDVGA_VENDOR_ID = 0x1234"
definition VGA_QEMU_STDVGA_DEVICE_ID :: u16 where "VGA_QEMU_STDVGA_DEVICE_ID = 0x1111"

section \<open>State\<close>

text \<open>
  \<open>vg_mem\<close> and \<open>vg_io\<close> point into the array of base address registers of a device, or are null. The
  arrays are static: an element that no register filled is zero, its bus space the null pointer.
\<close>

record stdvga_device =
  vg_mem :: "bar_ptr option"
  vg_io :: "bar_ptr option"
  vg_width :: u32
  vg_height :: u32
  vg_hooks :: bool               \<comment> \<open>\<open>vga\<close> holds the two functions of this file\<close>

record vga_state =
  bus :: pci_state
  stdvga :: stdvga_device

definition zero_bar :: resource where
  "zero_bar = \<lparr>r_bus_space = NULL_SPACE, r_owner = 0, r_start = 0, r_end = 0, r_type = 0, r_flags = 0, r_id = 0\<rparr>"

definition bar_ref :: "pci_device list \<Rightarrow> bar_ptr option \<Rightarrow> resource" where
  "bar_ref devs h = (case h of None \<Rightarrow> zero_bar
    | Some (d, i) \<Rightarrow> if d < length devs \<and> i < length (d_bars (devs ! d)) then bar_at devs (d, i) else zero_bar)"

definition io_bar :: "vga_state \<Rightarrow> resource" where
  "io_bar s = bar_ref (pcidevs (bus s)) (vg_io (stdvga s))"

definition mem_bar :: "vga_state \<Rightarrow> resource" where
  "mem_bar s = bar_ref (pcidevs (bus s)) (vg_mem (stdvga s))"

definition set_hw :: "vga_state \<Rightarrow> machine \<Rightarrow> vga_state" where
  "set_hw s m = s\<lparr>bus := (bus s)\<lparr>hw := m\<rparr>\<rparr>"

section \<open>Register accesses\<close>

definition stdvga_io_write :: "u16 \<Rightarrow> u8 \<Rightarrow> vga_state \<Rightarrow> vga_state result" where
  "stdvga_io_write reg v s =
    rbind (bus_space_write_1 (io_bar s) (ucast reg + VGA_MMIO_OFFSET) v (hw (bus s))) (\<lambda>m. Inr (set_hw s m))"

definition stdvga_io_read :: "u16 \<Rightarrow> vga_state \<Rightarrow> (u8 \<times> vga_state) result" where
  "stdvga_io_read reg s =
    rbind (bus_space_read_1 (io_bar s) (ucast reg + VGA_MMIO_OFFSET) (hw (bus s))) (\<lambda>(v, m). Inr (v, set_hw s m))"

definition stdvga_vbe_write :: "u16 \<Rightarrow> u16 \<Rightarrow> vga_state \<Rightarrow> vga_state result" where
  "stdvga_vbe_write reg v s =
    rbind (bus_space_write_2 (io_bar s) (push_bit 1 (ucast reg) + VBE_MMIO_OFFSET) v (hw (bus s))) (\<lambda>m. Inr (set_hw s m))"

definition stdvga_vbe_read :: "u16 \<Rightarrow> vga_state \<Rightarrow> (u16 \<times> vga_state) result" where
  "stdvga_vbe_read reg s =
    rbind (bus_space_read_2 (io_bar s) (push_bit 1 (ucast reg) + VBE_MMIO_OFFSET) (hw (bus s))) (\<lambda>(v, m). Inr (v, set_hw s m))"

section \<open>Palette and frame buffer\<close>

definition stdvga_palette_write_single :: "u8 \<Rightarrow> u8 \<Rightarrow> u8 \<Rightarrow> u8 \<Rightarrow> vga_state \<Rightarrow> vga_state result" where
  "stdvga_palette_write_single offset r g b s =
    rbind (stdvga_io_write VGA_PALETTE_ADDR offset s) (\<lambda>s1.
    rbind (stdvga_io_write VGA_PALETTE_DATA (drop_bit 2 r) s1) (\<lambda>s2.
    rbind (stdvga_io_write VGA_PALETTE_DATA (drop_bit 2 g) s2) (\<lambda>s3.
      stdvga_io_write VGA_PALETTE_DATA (drop_bit 2 b) s3)))"

text \<open>The loop over the entries \<open>is\<close>; the buffer is at \<open>buf\<close> in the memory \<open>m\<close>.\<close>

fun palette_loop :: "nat list \<Rightarrow> u32 \<Rightarrow> memory \<Rightarrow> vga_state \<Rightarrow> vga_state result" where
  "palette_loop [] buf m s = Inr s"
| "palette_loop (i # is) buf m s =
    rbind (stdvga_palette_write_single (of_nat i) (m (buf + of_nat (3 * i))) (m (buf + of_nat (3 * i + 1)))
      (m (buf + of_nat (3 * i + 2))) s) (palette_loop is buf m)"

definition stdvga_palette_write_buffer :: "u32 \<Rightarrow> memory \<Rightarrow> vga_state \<Rightarrow> vga_state result" where
  "stdvga_palette_write_buffer buf m s = palette_loop [0..<VGA_PALETTE_SIZE div 3] buf m s"

definition stdvga_palette_write :: "u32 \<Rightarrow> memory \<Rightarrow> vga_state \<Rightarrow> (int \<times> vga_state) result" where
  "stdvga_palette_write buf m s = rbind (stdvga_palette_write_buffer buf m s) (\<lambda>s'. Inr (0, s'))"

definition stdvga_fb_write :: "u32 \<Rightarrow> memory \<Rightarrow> vga_state \<Rightarrow> (int \<times> vga_state) result" where
  "stdvga_fb_write buf m s =
    rbind (bus_space_write_region_1 (mem_bar s) 0 buf (vg_width (stdvga s) * vg_height (stdvga s)) m (hw (bus s)))
      (\<lambda>h. Inr (0, set_hw s h))"

section \<open>Attaching\<close>

text \<open>The assertion of the code always holds: its condition is a disjunction with a non-zero flag.\<close>

definition stdvga_pci_attach :: "bool \<Rightarrow> nat \<Rightarrow> u32 \<Rightarrow> u32 \<Rightarrow> vga_state \<Rightarrow> (int \<times> vga_state) result" where
  "stdvga_pci_attach el d width height s =
    (let pci = pcidevs (bus s) ! d in
     if d_vendor_id pci \<noteq> VGA_QEMU_STDVGA_VENDOR_ID \<or> d_device_id pci \<noteq> VGA_QEMU_STDVGA_DEVICE_ID then Inr (0, s)
     else
       let (c, b1) = pci_read_config el (d_addr pci) PCIR_COMMAND 2 (bus s);
           command = (ucast c :: u16) OR (PCIM_CMD_PORTEN OR PCIM_CMD_MEMEN);
           b2 = pci_write_config el (d_addr pci) PCIR_COMMAND 2 (ucast command) b1;
           s1 = \<lparr>bus = b2, stdvga = \<lparr>vg_mem = Some (d, 0), vg_io = Some (d, 1), vg_width = width,
                   vg_height = height, vg_hooks = True\<rparr>\<rparr>
       in rbind (stdvga_vbe_write VBE_DISPI_INDEX_XRES (ucast width) s1) (\<lambda>s2.
          rbind (stdvga_vbe_write VBE_DISPI_INDEX_YRES (ucast height) s2) (\<lambda>s3.
          rbind (stdvga_io_write VGA_AR_ADDR VGA_AR_PAS s3) (\<lambda>s4.
          rbind (stdvga_vbe_write VBE_DISPI_INDEX_BPP 8 s4) (\<lambda>s5.
          rbind (stdvga_vbe_read VBE_DISPI_INDEX_ENABLE s5) (\<lambda>(e, s6).
          rbind (stdvga_vbe_write VBE_DISPI_INDEX_ENABLE (e OR VBE_DISPI_ENABLED) s6) (\<lambda>s7.
            Inr (1, s7))))))))"

section \<open>What is written\<close>

text \<open>The address of a port, and the accesses that set one entry, all entries, a run of bytes.\<close>

definition port :: "resource \<Rightarrow> u16 \<Rightarrow> u32" where
  "port h reg = MIPS_PHYS_TO_KSEG1 (r_start h + (ucast reg + VGA_MMIO_OFFSET))"

definition vbe_port :: "resource \<Rightarrow> u16 \<Rightarrow> u32" where
  "vbe_port h reg = MIPS_PHYS_TO_KSEG1 (r_start h + (push_bit 1 (ucast reg) + VBE_MMIO_OFFSET))"

definition entry_writes :: "resource \<Rightarrow> u32 \<Rightarrow> memory \<Rightarrow> nat \<Rightarrow> maccess list" where
  "entry_writes h buf m i = MWr 1 (port h VGA_PALETTE_ADDR) (of_nat i) #
    map (\<lambda>k. MWr 1 (port h VGA_PALETTE_DATA) (ucast (m (buf + of_nat (3 * i + k))) div 4)) [0..<3]"

definition logged :: "vga_state \<Rightarrow> maccess list \<Rightarrow> vga_state" where
  "logged s l = set_hw s ((hw (bus s))\<lparr>mlog := mlog (hw (bus s)) @ l\<rparr>)"

lemma logged_simps [simp]:
  "logged (logged s l) l' = logged s (l @ l')" "logged s [] = s"
  "stdvga (logged s l) = stdvga s" "pcidevs (bus (logged s l)) = pcidevs (bus s)"
  "io_bar (logged s l) = io_bar s" "mem_bar (logged s l) = mem_bar s"
  "mlog (hw (bus (logged s l))) = mlog (hw (bus s)) @ l"
  by (simp_all add: logged_def set_hw_def io_bar_def mem_bar_def)

lemma take_bit_ucast: "LENGTH('a) \<le> n \<Longrightarrow> take_bit n (ucast (x :: 'a::len word) :: u32) = ucast x"
  by (auto simp: bit_eq_iff bit_take_bit_iff bit_ucast_iff dest: bit_imp_le_length)

lemma io_write_ok:
  "r_bus_space (io_bar s) = GT_PCI_BUS_SPACE \<Longrightarrow>
    stdvga_io_write reg v s = Inr (logged s [MWr 1 (port (io_bar s) reg) (ucast v)])"
  by (simp add: stdvga_io_write_def bus_space_write_1_def via_space_def gt_pci_write_1_def mwrite_def port_def
    logged_def take_bit_ucast)

lemma vbe_write_ok:
  "r_bus_space (io_bar s) = GT_PCI_BUS_SPACE \<Longrightarrow>
    stdvga_vbe_write reg v s = Inr (logged s [MWr 2 (vbe_port (io_bar s) reg) (ucast v)])"
  by (simp add: stdvga_vbe_write_def bus_space_write_2_def via_space_def gt_pci_write_2_def mwrite_def vbe_port_def
    logged_def take_bit_ucast)

lemma ucast_drop_2: "(ucast (drop_bit 2 (v :: u8)) :: u32) = ucast v div 4"
proof -
  have "(ucast (drop_bit 2 v) :: u32) = drop_bit 2 (ucast v)"
    by (auto simp: bit_eq_iff bit_drop_bit_eq bit_ucast_iff dest: bit_imp_le_length)
  then show ?thesis by (simp add: drop_bit_eq_div)
qed

lemma upt_3: "[0..<3] = [0, 1, 2]"
  by (simp add: upt_rec)

lemma palette_loop_ok:
  assumes "r_bus_space (io_bar s) = GT_PCI_BUS_SPACE" "\<forall>i \<in> set is. i < 256"
  shows "palette_loop is buf m s = Inr (logged s (concat (map (entry_writes (io_bar s) buf m) is)))"
  using assms
proof (induction "is" arbitrary: s)
  case Nil
  then show ?case by simp
next
  case (Cons i "is")
  have "(ucast (of_nat i :: u8) :: u32) = of_nat i"
    using Cons.prems(2) of_nat_unat [of "of_nat i :: u8", where ?'a = u32] by (simp add: unat_of_nat_small)
  then have "stdvga_palette_write_single (of_nat i) (m (buf + of_nat (3 * i))) (m (buf + of_nat (3 * i + 1)))
      (m (buf + of_nat (3 * i + 2))) s = Inr (logged s (entry_writes (io_bar s) buf m i))"
    using Cons.prems(1) by (simp add: stdvga_palette_write_single_def io_write_ok ucast_drop_2 entry_writes_def upt_3 ac_simps)
  then show ?case using Cons by simp
qed

lemma palette_write_ok:
  assumes "r_bus_space (io_bar s) = GT_PCI_BUS_SPACE"
  shows "stdvga_palette_write buf m s =
    Inr (0, logged s (concat (map (entry_writes (io_bar s) buf m) [0..<256])))"
proof -
  have "palette_loop [0..<256] buf m s = Inr (logged s (concat (map (entry_writes (io_bar s) buf m) [0..<256])))"
    by (rule palette_loop_ok [OF assms]) simp
  then show ?thesis by (simp add: stdvga_palette_write_def stdvga_palette_write_buffer_def VGA_PALETTE_SIZE_def)
qed

lemma write_region_loop_ok:
  "write_region_loop n dst src m h =
    h\<lparr>mlog := mlog h @ map (\<lambda>k. MWr 1 (dst + of_nat k) (ucast (m (src + of_nat k)))) [0..<n]\<rparr>"
proof (induction n arbitrary: dst src h)
  case 0
  then show ?case by simp
next
  case (Suc n)
  have "map f [0..<Suc n] = f 0 # map (\<lambda>k. f (Suc k)) [0..<n]" for f :: "nat \<Rightarrow> maccess"
    by (simp add: upt_conv_Cons map_Suc_upt [symmetric] del: upt_Suc)
  then show ?case using Suc by (simp add: mwrite_def take_bit_ucast algebra_simps del: upt_Suc)
qed

lemma fb_write_ok:
  assumes "r_bus_space (mem_bar s) = GT_PCI_BUS_SPACE"
  shows "stdvga_fb_write buf m s = Inr (0, logged s
    (map (\<lambda>k. MWr 1 (MIPS_PHYS_TO_KSEG1 (r_start (mem_bar s)) + of_nat k) (ucast (m (buf + of_nat k))))
      [0..<unat (vg_width (stdvga s) * vg_height (stdvga s))]))"
  using assms
  by (simp add: stdvga_fb_write_def bus_space_write_region_1_def via_space_def gt_pci_write_region_1_def
    write_region_loop_ok logged_def)

section \<open>Attaching\<close>

lemma attach_other:
  assumes "d_vendor_id (pcidevs (bus s) ! d) \<noteq> VGA_QEMU_STDVGA_VENDOR_ID \<or>
    d_device_id (pcidevs (bus s) ! d) \<noteq> VGA_QEMU_STDVGA_DEVICE_ID"
  shows "stdvga_pci_attach el d width height s = Inr (0, s)"
  using assms by (simp add: stdvga_pci_attach_def)

text \<open>The accesses of an attach, after the ones to the command register: \<open>e\<close> is what the enable register held.\<close>

definition attach_log :: "resource \<Rightarrow> u32 \<Rightarrow> u32 \<Rightarrow> u16 \<Rightarrow> maccess list" where
  "attach_log h width height e =
    [MWr 2 (vbe_port h VBE_DISPI_INDEX_XRES) (take_bit 16 width),
     MWr 2 (vbe_port h VBE_DISPI_INDEX_YRES) (take_bit 16 height),
     MWr 1 (port h VGA_AR_ADDR) 0x20,
     MWr 2 (vbe_port h VBE_DISPI_INDEX_BPP) 8,
     MRd 2 (vbe_port h VBE_DISPI_INDEX_ENABLE) (ucast e),
     MWr 2 (vbe_port h VBE_DISPI_INDEX_ENABLE) (ucast (e OR 1))]"

lemma ucast_16: "(ucast (ucast (x :: u32) :: u16) :: u32) = take_bit 16 x"
  by (auto simp: bit_eq_iff bit_take_bit_iff bit_ucast_iff dest: bit_imp_le_length)

lemma vbe_read_ok:
  assumes "r_bus_space (io_bar s) = GT_PCI_BUS_SPACE"
  shows "\<exists>e s'. stdvga_vbe_read reg s = Inr (e, s') \<and> stdvga s' = stdvga s \<and> pcidevs (bus s') = pcidevs (bus s) \<and>
    mlog (hw (bus s')) = mlog (hw (bus s)) @ [MRd 2 (vbe_port (io_bar s) reg) (ucast e)]"
  using assms
  by (simp add: stdvga_vbe_read_def bus_space_read_2_def via_space_def gt_pci_read_2_def mread_def vbe_port_def
    set_hw_def ucast_16 Let_def)

text \<open>
  The accesses to the command register: it is read as a half of its word \<open>data\<close>, and the word \<open>data'\<close> read
  again before the write is replaced as a whole by the new command.
\<close>

definition command_log :: "bool \<Rightarrow> pci_addr \<Rightarrow> u32 \<Rightarrow> u32 \<Rightarrow> maccess list" where
  "command_log el a data data' =
    (let select = MWr 4 (GT_R GT_PCI0_CFG_ADDR) (PCI0_CFG_ENABLE OR gt_pci_make_addr a 1) in
     [select, MRd 4 (GT_R GT_PCI0_CFG_DATA) data, select, MRd 4 (GT_R GT_PCI0_CFG_DATA) data',
      MWr 4 (GT_R GT_PCI0_CFG_DATA) (reg_word el 0 data OR 3)])"

lemma take_bit_32: "take_bit 32 (x :: u32) = x"
  by (auto simp: bit_eq_iff bit_take_bit_iff dest: bit_imp_le_length)

lemma command_ok:
  assumes "a_bus a = 0" "pci_read_config el a PCIR_COMMAND 2 st = (c, st1)"
    "pci_write_config el a PCIR_COMMAND 2 (ucast ((ucast c :: u16) OR (PCIM_CMD_PORTEN OR PCIM_CMD_MEMEN))) st1 = st2"
  shows "\<exists>data data'. mlog (hw st2) = mlog (hw st) @ command_log el a data data'"
proof -
  let ?data = "mreads (hw st) (mpos (hw st))"
  have six: "PCIR_COMMAND AND 3 = 2" "drop_bit 2 PCIR_COMMAND = 1" by (simp_all add: PCIR_COMMAND_def)
  have c: "c = reg_word el 0 ?data" and st1: "hw st1 = (hw st)\<lparr>mpos := Suc (mpos (hw st)), mlog := mlog (hw st) @
      [MWr 4 (GT_R GT_PCI0_CFG_ADDR) (PCI0_CFG_ENABLE OR gt_pci_make_addr a 1), MRd 4 (GT_R GT_PCI0_CFG_DATA) ?data]\<rparr>"
    using assms(1,2)
    by (auto simp: pci_read_config_def gt_pci_read_config_def Let_def mread_def mwrite_def six take_bit_32)
  have "(ucast ((ucast c :: u16) OR (PCIM_CMD_PORTEN OR PCIM_CMD_MEMEN)) :: u32) = take_bit 16 c OR 3"
    by (simp add: unsigned_or_eq ucast_16 PCIM_CMD_PORTEN_def PCIM_CMD_MEMEN_def)
  moreover have "take_bit 16 c = c" by (simp add: c reg_word_def)
  ultimately have "hw st2 = (hw st1)\<lparr>mpos := Suc (mpos (hw st1)), mlog := mlog (hw st1) @
      [MWr 4 (GT_R GT_PCI0_CFG_ADDR) (PCI0_CFG_ENABLE OR gt_pci_make_addr a 1),
       MRd 4 (GT_R GT_PCI0_CFG_DATA) (mreads (hw st1) (mpos (hw st1))), MWr 4 (GT_R GT_PCI0_CFG_DATA) (c OR 3)]\<rparr>"
    using assms(1,3)
    by (auto simp: pci_write_config_def gt_pci_write_config_def Let_def mread_def mwrite_def six take_bit_32)
  then show ?thesis using st1 c by (simp add: command_log_def Let_def)
qed

lemma attach_ok:
  assumes v: "d_vendor_id pci = VGA_QEMU_STDVGA_VENDOR_ID" "d_device_id pci = VGA_QEMU_STDVGA_DEVICE_ID"
    and pci: "pci = pcidevs (bus s) ! d" "d < length (pcidevs (bus s))" "1 < length (d_bars pci)"
    and b: "r_bus_space (d_bars pci ! 1) = GT_PCI_BUS_SPACE" and bus0: "a_bus (d_addr pci) = 0"
  shows "\<exists>s' e data data'. stdvga_pci_attach el d width height s = Inr (1, s') \<and>
    stdvga s' = \<lparr>vg_mem = Some (d, 0), vg_io = Some (d, 1), vg_width = width, vg_height = height, vg_hooks = True\<rparr> \<and>
    pcidevs (bus s') = pcidevs (bus s) \<and>
    mlog (hw (bus s')) = mlog (hw (bus s)) @ command_log el (d_addr pci) data data' @
      attach_log (d_bars pci ! 1) width height e"
proof -
  let ?h = "d_bars pci ! 1"
  obtain c b1 where 1: "pci_read_config el (d_addr pci) PCIR_COMMAND 2 (bus s) = (c, b1)"
    by (cases "pci_read_config el (d_addr pci) PCIR_COMMAND 2 (bus s)")
  let ?b2 = "pci_write_config el (d_addr pci) PCIR_COMMAND 2 (ucast ((ucast c :: u16) OR (PCIM_CMD_PORTEN OR PCIM_CMD_MEMEN))) b1"
  define s1 where "s1 = \<lparr>bus = ?b2, stdvga = \<lparr>vg_mem = Some (d, 0), vg_io = Some (d, 1), vg_width = width,
    vg_height = height, vg_hooks = True\<rparr>\<rparr>"
  have devs: "pcidevs ?b2 = pcidevs (bus s)" using 1 config_table(1) [of el "d_addr pci" PCIR_COMMAND 2 "bus s"]
    by (simp add: config_table)
  have io: "io_bar s1 = ?h" using pci devs by (simp add: io_bar_def s1_def bar_ref_def bar_at_def)
  obtain data data' where cfg: "mlog (hw ?b2) = mlog (hw (bus s)) @ command_log el (d_addr pci) data data'"
    using command_ok [OF bus0 1 refl] by blast
  define s5 where "s5 = logged s1 [MWr 2 (vbe_port ?h VBE_DISPI_INDEX_XRES) (ucast (ucast width :: u16)),
     MWr 2 (vbe_port ?h VBE_DISPI_INDEX_YRES) (ucast (ucast height :: u16)),
     MWr 1 (port ?h VGA_AR_ADDR) (ucast VGA_AR_PAS), MWr 2 (vbe_port ?h VBE_DISPI_INDEX_BPP) (ucast (8 :: u16))]"
  have io5: "io_bar s5 = ?h" using io by (simp add: s5_def)
  obtain e s6 where e: "stdvga_vbe_read VBE_DISPI_INDEX_ENABLE s5 = Inr (e, s6)" "stdvga s6 = stdvga s5"
    "pcidevs (bus s6) = pcidevs (bus s5)"
    "mlog (hw (bus s6)) = mlog (hw (bus s5)) @ [MRd 2 (vbe_port ?h VBE_DISPI_INDEX_ENABLE) (ucast e)]"
    using vbe_read_ok [of s5 VBE_DISPI_INDEX_ENABLE] io5 b by auto
  have io6: "io_bar s6 = ?h" using e io5 by (simp add: io_bar_def)
  have "stdvga_pci_attach el d width height s =
      Inr (1, logged s6 [MWr 2 (vbe_port ?h VBE_DISPI_INDEX_ENABLE) (ucast (e OR VBE_DISPI_ENABLED))])"
    using v io b e(1) io6
    unfolding stdvga_pci_attach_def Let_def pci(1) [symmetric] 1 prod.case s1_def [symmetric]
    by (simp add: vbe_write_ok io_write_ok s5_def)
  moreover have "mlog (hw (bus (logged s6 [MWr 2 (vbe_port ?h VBE_DISPI_INDEX_ENABLE) (ucast (e OR VBE_DISPI_ENABLED))]))) =
      mlog (hw (bus s)) @ command_log el (d_addr pci) data data' @ attach_log ?h width height e"
    using e(4) cfg by (simp add: s5_def s1_def attach_log_def ucast_16 VGA_AR_PAS_def VBE_DISPI_ENABLED_def)
  ultimately show ?thesis using e(2,3) devs
    by (intro exI conjI) (assumption | simp add: s5_def s1_def)+
qed

section \<open>An attached device, for examples\<close>

definition vga_io_bar :: resource where
  "vga_io_bar = \<lparr>r_bus_space = GT_PCI_BUS_SPACE, r_owner = 0, r_start = 0x18000000, r_end = 0x18000fff, r_type = RT_MEMORY,
     r_flags = 0, r_id = 2\<rparr>"

definition vga_example :: vga_state where
  "vga_example = \<lparr>bus = \<lparr>hw = \<lparr>mreads = \<lambda>_. 0, mpos = 0, mlog = []\<rparr>,
       pcidevs = [\<lparr>d_addr = \<lparr>a_bus = 0, a_device = 18, a_function = 0\<rparr>, d_device_id = 0x1111, d_vendor_id = 0x1234,
         d_class_code = 3, d_pin = 0, d_irq = 0, d_bars = [vga_io_bar\<lparr>r_start := 0x10000000\<rparr>, vga_io_bar]\<rparr>],
       devices = [0], plog = []\<rparr>,
     stdvga = \<lparr>vg_mem = Some (0, 0), vg_io = Some (0, 1), vg_width = 640, vg_height = 480, vg_hooks = True\<rparr>\<rparr>"

lemma vga_example_simps:
  "length (pcidevs (bus vga_example)) = 1" "mlog (hw (bus vga_example)) = []"
  "d_vendor_id (pcidevs (bus vga_example) ! 0) = VGA_QEMU_STDVGA_VENDOR_ID"
  "d_device_id (pcidevs (bus vga_example) ! 0) = VGA_QEMU_STDVGA_DEVICE_ID"
  "d_addr (pcidevs (bus vga_example) ! 0) = \<lparr>a_bus = 0, a_device = 18, a_function = 0\<rparr>"
  "d_bars (pcidevs (bus vga_example) ! 0) = [vga_io_bar\<lparr>r_start := 0x10000000\<rparr>, vga_io_bar]"
  "r_bus_space vga_io_bar = GT_PCI_BUS_SPACE"
  "r_bus_space (io_bar vga_example) = GT_PCI_BUS_SPACE" "r_bus_space (mem_bar vga_example) = GT_PCI_BUS_SPACE"
  by (simp_all add: vga_example_def vga_io_bar_def VGA_QEMU_STDVGA_VENDOR_ID_def VGA_QEMU_STDVGA_DEVICE_ID_def
    io_bar_def mem_bar_def bar_ref_def bar_at_def)

end
