(* ===== verification/Malta.thy ===== *)
theory Malta
  imports Physmem_Manager Stdvga
begin

text \<open>
  Bringing up the Malta board, \<open>malta.c\<close>: the segment of the SDRAM with the room its description takes,
  the PCI bus and the VGA device. \<open>bios_end\<close> is the address of the linker's symbol \<open>__bios_end\<close>, where
  the description of the segment is put.
\<close>

definition pm_bootstrap :: "int \<Rightarrow> u32 \<Rightarrow> u32 \<Rightarrow> pm_state \<Rightarrow> pm_state result option" where
  "pm_bootstrap ctz0 bios_end memsize st =
    (let st1 = pm_init st;
         seg_size = c_align (pm_seg_space_needed memsize) PAGESIZE
     in obind (Some (pm_seg_init ctz0 MALTA_PHYS_SDRAM_BASE (MALTA_PHYS_SDRAM_BASE + memsize) MIPS_KSEG0_START)) (\<lambda>seg.
        obind (pm_seg_reserve seg (MIPS_KSEG0_TO_PHYS bios_end) (MIPS_KSEG0_TO_PHYS (bios_end + seg_size))) (\<lambda>seg'.
          Some (Inr (pm_add_segment seg' st1)))))"

record platform =
  pmem :: pm_state
  vga :: vga_state

text \<open>\<open>TAILQ_FOREACH (pcidev, &gt_pci.devices, link)\<close>\<close>

fun attach_all :: "bool \<Rightarrow> u32 \<Rightarrow> u32 \<Rightarrow> nat list \<Rightarrow> vga_state \<Rightarrow> vga_state result" where
  "attach_all el width height [] s = Inr s"
| "attach_all el width height (d # ds) s =
    rbind (stdvga_pci_attach el d width height s) (\<lambda>(_, s'). attach_all el width height ds s')"

definition platform_init :: "bool \<Rightarrow> int \<Rightarrow> u32 \<Rightarrow> u32 \<Rightarrow> u32 \<Rightarrow> u32 \<Rightarrow> platform \<Rightarrow> platform result option" where
  "platform_init el ctz0 bios_end width height memsize p =
    obind (pm_bootstrap ctz0 bios_end memsize (pmem p)) (\<lambda>pm.
    obind (pci_init el (bus (vga p))) (\<lambda>b.
    obind (Some (attach_all el width height (devices b) ((vga p)\<lparr>bus := b\<rparr>))) (\<lambda>v.
      Some (Inr \<lparr>pmem = pm, vga = v\<rparr>))))"

section \<open>The memory of the board\<close>

text \<open>The pages that the description of a segment of \<open>n\<close> pages takes.\<close>

definition seg_pages :: "nat \<Rightarrow> nat" where
  "seg_pages n = (148 + 48 * n + 4095) div 4096"

lemma seg_size_ok:
  assumes "unat memsize = 4096 * n" "n \<le> 2 ^ 15"
  shows "unat (c_align (pm_seg_space_needed memsize) PAGESIZE) = 4096 * seg_pages n"
proof -
  have "unat (memsize div PAGESIZE) = n" using assms(1) by (simp add: PAGESIZE_def unat_div)
  moreover then have "unat (memsize div PAGESIZE * sizeof_vm_page) = n * 48"
    using assms(2) by (subst unat_mult_small) (simp_all add: sizeof_vm_page_def)
  ultimately have s: "unat (pm_seg_space_needed memsize) = 148 + n * 48"
    using assms(2) unfolding pm_seg_space_needed_def by (subst unat_add_small) (simp_all add: sizeof_pm_seg_def)
  have "PAGESIZE = 2 ^ 12" by (simp add: PAGESIZE_def)
  then show ?thesis
    using unat_c_align [of 12 "pm_seg_space_needed memsize"] s assms(2) by (simp add: seg_pages_def mult.commute)
qed

lemma kseg0_phys:
  assumes "unat a = 2147483648 + p" "p < 2 ^ 29"
  shows "unat (MIPS_KSEG0_TO_PHYS a) = p"
proof -
  have "a AND MIPS_PHYS_MASK = take_bit 29 a" by (simp add: phys_mask take_bit_eq_mask)
  then have "unat (MIPS_KSEG0_TO_PHYS a) = unat a mod 2 ^ 29"
    by (simp add: MIPS_KSEG0_TO_PHYS_def unsigned_take_bit_eq take_bit_nat_def)
  also have "\<dots> = (4 * 2 ^ 29 + p) mod 2 ^ 29" using assms(1) by simp
  also have "\<dots> = p" using assms(2) by (subst mod_mult_self3) simp
  finally show ?thesis .
qed

lemma pm_bootstrap_ok:
  assumes m: "m < PM_NQUEUES" "int m \<le> ctz0" and size: "unat memsize = 4096 * 2 ^ m"
    and b: "unat bios_end = 2147483648 + 4096 * s" and fits: "s + seg_pages (2 ^ m) \<le> 2 ^ m"
  shows "\<exists>st' seg. pm_bootstrap ctz0 bios_end memsize st = Some (Inr st') \<and> seglist st' = [seg] \<and>
    pm_inv st' [{}] \<and> seg_start seg = MALTA_PHYS_SDRAM_BASE \<and> seg_end seg = memsize \<and>
    free_pages (seg_view seg) = {0..<2 ^ m} - {s..<s + seg_pages (2 ^ m)} \<and>
    (\<forall>q < 2 ^ m. bres (seg_view seg) q \<longleftrightarrow> q \<in> {s..<s + seg_pages (2 ^ m)})"
proof -
  let ?k = "seg_pages (2 ^ m)" and ?z = "c_align (pm_seg_space_needed memsize) PAGESIZE"
  have m15: "(2::nat) ^ m \<le> 2 ^ 15" using m(1) by (intro power_increasing) (simp_all add: PM_NQUEUES_def)
  have z: "unat ?z = 4096 * ?k" by (rule seg_size_ok [OF size m15])
  have base: "MALTA_PHYS_SDRAM_BASE = 0" by (simp add: MALTA_PHYS_SDRAM_BASE_def)
  obtain seg where seg: "pm_seg_init ctz0 0 memsize MIPS_KSEG0_START = Inr seg" "seg_ok seg {}" "seg_start seg = 0"
    "seg_end seg = memsize" "free_pages (seg_view seg) = {0..<2 ^ m}"
    using pm_seg_init_covers [OF m, of memsize 0 MIPS_KSEG0_START] size by auto
  have bound: "4096 * s + 4096 * ?k \<le> 4096 * 2 ^ 15" using fits m15 by linarith
  have a1: "at_page seg (MIPS_KSEG0_TO_PHYS bios_end) s"
    using kseg0_phys [OF b] bound by (simp add: at_page_def seg(3))
  have "unat (bios_end + ?z) = 2147483648 + 4096 * (s + ?k)"
    using b z bound by (subst unat_add_small) simp_all
  then have a2: "at_page seg (MIPS_KSEG0_TO_PHYS (bios_end + ?z)) (s + ?k)"
    using kseg0_phys [of "bios_end + ?z" "4096 * (s + ?k)"] bound by (simp add: at_page_def seg(3))
  have lt: "s < s + ?k" by (simp add: seg_pages_def div_greater_zero_iff)
  obtain seg' where r: "pm_seg_reserve seg (MIPS_KSEG0_TO_PHYS bios_end) (MIPS_KSEG0_TO_PHYS (bios_end + ?z)) = Some (Inr seg')"
    and s': "seg_ok seg' {}" "seg_place seg' = seg_place seg"
    "free_pages (seg_view seg') = free_pages (seg_view seg) - {s..<s + ?k}"
    "bres (seg_view seg') = (\<lambda>q. bres (seg_view seg) q \<or> q \<in> free_pages (seg_view seg) \<inter> {s..<s + ?k})"
    using seg_reserve [OF seg(2) a1 a2 lt] by blast
  have no: "\<not> bres (seg_view seg) q" if "q < 2 ^ m" for q
    using free_page_bound(3) [of "seg_view seg" "{}" "{}" q] seg(2,5) that by (simp add: seg_ok_def seg_inv_def)
  have "pm_inv (pm_add_segment seg' (pm_init st)) ([] @ [{}])"
    by (rule pm_add_segment_ok [OF pm_init_inv s'(1)]) simp
  then show ?thesis
    using seg r s' no fits
    by (auto simp: pm_bootstrap_def base Let_def pm_add_segment_def pm_init_def seg_place_def)
qed

end
