(* ===== verification/Vga_Demo.thy ===== *)
theory Vga_Demo
  imports Stdvga
begin

text \<open>
  The demonstration of \<open>vga-demo.c\<close>: a palette, an image of 640 by 480 pixels computed by a shader (the
  Sierpinski carpet), and a colour scale over its first rows. The two static arrays lie at the addresses
  \<open>img\<close> (\<open>image\<close>) and \<open>pal\<close> (\<open>palette\<close>), which the linker chooses: they are arguments of the model.
\<close>

definition WIDTH :: nat where "WIDTH = 640"
definition HEIGHT :: nat where "HEIGHT = 480"

record demo_state =
  dmem :: memory
  dvga :: vga_state

section \<open>The palette\<close>

definition palette_entry :: "u32 \<Rightarrow> nat \<Rightarrow> memory \<Rightarrow> memory" where
  "palette_entry pal k m =
    (let i = of_nat k :: u32 in
     m(pal + (i * 3 + 0) := ucast i,
       pal + (i * 3 + 1) := ucast (i * i div 255),
       pal + (i * 3 + 2) := ucast (i div 255)))"

definition prepare_palette :: "u32 \<Rightarrow> demo_state \<Rightarrow> demo_state result" where
  "prepare_palette pal st =
    (let m = fold (palette_entry pal) [0..<256] (dmem st) in
     rbind (stdvga_palette_write pal m (dvga st)) (\<lambda>(_, v). Inr \<lparr>dmem = m, dvga = v\<rparr>))"

definition display_image :: "u32 \<Rightarrow> demo_state \<Rightarrow> demo_state result" where
  "display_image img st =
    rbind (stdvga_fb_write img (dmem st) (dvga st)) (\<lambda>(_, v). Inr (st\<lparr>dvga := v\<rparr>))"

section \<open>The shader\<close>

lemma unat_div_3: "unat (x div 3 :: u32) = unat x div 3" "unat (x mod 3 :: u32) = unat x mod 3"
  by (simp_all add: unat_div unat_mod)

function sierpinski :: "u32 \<Rightarrow> u32 \<Rightarrow> u8" where
  "sierpinski x y =
    (if x > 0 \<or> y > 0 then
       if x mod 3 = 1 \<and> y mod 3 = 1 then 0
       else sierpinski (x div 3) (y div 3)
     else 0xFF)"
  by pat_completeness auto
termination
proof (relation "measure (\<lambda>(x, y). unat x + unat y)")
  fix x y :: u32
  assume "x > 0 \<or> y > 0"
  then have "0 < unat x + unat y" using unat_gt_0 [of x] unat_gt_0 [of y] by (auto simp: word_gt_0)
  then have "unat x div 3 + unat y div 3 < unat x + unat y" by linarith
  then show "((x div 3, y div 3), x, y) \<in> measure (\<lambda>(x, y). unat x + unat y)"
    by (simp add: unat_div_3)
qed simp

declare sierpinski.simps [simp del]

section \<open>The image\<close>

definition put_pixel :: "u32 \<Rightarrow> nat \<Rightarrow> nat \<Rightarrow> u8 \<Rightarrow> memory \<Rightarrow> memory" where
  "put_pixel img y x v m = m(img + of_nat (y * WIDTH + x) := v)"

definition shade_row :: "(u32 \<Rightarrow> u32 \<Rightarrow> u8) \<Rightarrow> u32 \<Rightarrow> nat \<Rightarrow> memory \<Rightarrow> memory" where
  "shade_row shader img y m =
    fold (\<lambda>x. put_pixel img y x (shader (of_nat x) (of_nat y))) [0..<WIDTH] m"

definition scale_column :: "u32 \<Rightarrow> nat \<Rightarrow> memory \<Rightarrow> memory" where
  "scale_column img x m =
    (let q = ucast (256 * of_nat x div of_nat WIDTH :: u32) in
     put_pixel img 6 x 0 (put_pixel img 5 x q (put_pixel img 4 x q (put_pixel img 3 x q
       (put_pixel img 2 x q (put_pixel img 1 x q (put_pixel img 0 x 0 m)))))))"

text \<open>\<open>shader\<close> is the global function pointer, \<open>sierpinski\<close> when the program starts.\<close>

definition demo :: "(u32 \<Rightarrow> u32 \<Rightarrow> u8) \<Rightarrow> u32 \<Rightarrow> u32 \<Rightarrow> demo_state \<Rightarrow> demo_state result" where
  "demo shader img pal st =
    rbind (prepare_palette pal st) (\<lambda>st1.
    let m = fold (shade_row shader img) [0..<HEIGHT] (dmem st1);
        m' = fold (scale_column img) [0..<WIDTH] m
    in display_image img (st1\<lparr>dmem := m'\<rparr>))"

section \<open>The carpet\<close>

text \<open>A pixel is a hole when, at some level, both of its base-3 digits are 1.\<close>

definition hole :: "nat \<Rightarrow> nat \<Rightarrow> bool" where
  "hole x y \<longleftrightarrow> (\<exists>k. x div 3 ^ k mod 3 = 1 \<and> y div 3 ^ k mod 3 = 1)"

lemma hole_rec: "hole x y \<longleftrightarrow> (x mod 3 = 1 \<and> y mod 3 = 1) \<or> hole (x div 3) (y div 3)"
proof -
  have e: "a div 3 div 3 ^ k = a div 3 ^ Suc k" for a k :: nat by (simp add: div_mult2_eq)
  have "(\<exists>k. P k) \<longleftrightarrow> P 0 \<or> (\<exists>k. P (Suc k))" for P :: "nat \<Rightarrow> bool" by (metis not0_implies_Suc)
  from this [of "\<lambda>k. x div 3 ^ k mod 3 = 1 \<and> y div 3 ^ k mod 3 = 1"] show ?thesis
    by (simp add: hole_def e del: power_Suc)
qed

lemma hole_0: "\<not> hole 0 0"
  by (simp add: hole_def)

lemma sierpinski_ok: "sierpinski x y = (if hole (unat x) (unat y) then 0 else 0xFF)"
proof (induction x y rule: sierpinski.induct)
  case (1 x y)
  have d: "x mod 3 = 1 \<longleftrightarrow> unat x mod 3 = 1" "y mod 3 = 1 \<longleftrightarrow> unat y mod 3 = 1"
    by (simp_all add: word_eq_iff_unat unat_div_3)
  show ?case
  proof (cases "x > 0 \<or> y > 0")
    case True
    then show ?thesis using 1 d hole_rec [of "unat x" "unat y"] by (subst sierpinski.simps) (auto simp: unat_div_3)
  next
    case False
    then show ?thesis by (subst sierpinski.simps) (simp add: hole_0 word_gt_0)
  qed
qed

section \<open>What the loops leave in memory\<close>

definition at_pixel :: "u32 \<Rightarrow> nat \<Rightarrow> nat \<Rightarrow> u32" where
  "at_pixel img x y = img + of_nat (y * WIDTH + x)"

lemma at_pixel_inj:
  assumes "x < WIDTH" "x' < WIDTH" "y < HEIGHT" "y' < HEIGHT"
  shows "at_pixel img x y = at_pixel img x' y' \<longleftrightarrow> x = x' \<and> y = y'"
proof
  assume "at_pixel img x y = at_pixel img x' y'"
  then have "(of_nat (y * WIDTH + x) :: u32) = of_nat (y' * WIDTH + x')" by (simp only: at_pixel_def add_left_cancel)
  moreover have "b * WIDTH + a < 2 ^ 32" if "a < WIDTH" "b < HEIGHT" for a b
  proof -
    have "b \<le> 479" using that(2) by (simp add: HEIGHT_def)
    then have "b * 640 \<le> 479 * 640" by (rule mult_le_mono1)
    then show ?thesis using that(1) by (simp add: WIDTH_def)
  qed
  ultimately have e: "y * WIDTH + x = y' * WIDTH + x'"
    using assms unat_of_nat_small [where ?'a = 32, of "y * WIDTH + x"] unat_of_nat_small [where ?'a = 32, of "y' * WIDTH + x'"]
    by simp
  have "(y * WIDTH + x) div WIDTH = y" "(y' * WIDTH + x') div WIDTH = y'" using assms by simp_all
  then show "x = x' \<and> y = y'" using e by simp
qed simp

lemma put_pixel_at: "put_pixel img y x v m = m(at_pixel img x y := v)"
  by (simp add: put_pixel_def at_pixel_def)

lemma fold_row:
  assumes "y < HEIGHT" "x' < WIDTH" "y' < HEIGHT" "n \<le> WIDTH"
  shows "fold (\<lambda>x. put_pixel img y x (f x)) [0..<n] m (at_pixel img x' y') =
    (if y' = y \<and> x' < n then f x' else m (at_pixel img x' y'))"
  using assms(4)
proof (induction n)
  case 0
  then show ?case by simp
next
  case (Suc n)
  then show ?case using at_pixel_inj [OF assms(2) _ assms(3,1), of n img] by (auto simp: put_pixel_at less_Suc_eq)
qed

lemma fold_rows:
  assumes "x < WIDTH" "y < HEIGHT" "n \<le> HEIGHT"
  shows "fold (shade_row shader img) [0..<n] m (at_pixel img x y) =
    (if y < n then shader (of_nat x) (of_nat y) else m (at_pixel img x y))"
  using assms(3)
proof (induction n)
  case 0
  then show ?case by simp
next
  case (Suc n)
  then show ?case
    using fold_row [of n x y WIDTH img "\<lambda>x. shader (of_nat x) (of_nat n)"] assms by (auto simp: shade_row_def less_Suc_eq)
qed

text \<open>The scale: black lines above and below five rows of increasing colours.\<close>

definition scale_value :: "nat \<Rightarrow> nat \<Rightarrow> u8" where
  "scale_value x y = (if y = 0 \<or> y = 6 then 0 else of_nat (256 * x div WIDTH))"

lemma scale_q:
  assumes "x < WIDTH"
  shows "(ucast (256 * of_nat x div of_nat WIDTH :: u32) :: u8) = of_nat (256 * x div WIDTH)"
proof -
  have "unat (of_nat (256 * x) :: u32) = 256 * x"
    using assms by (intro unat_of_nat_small) (simp add: WIDTH_def)
  then have "unat (256 * of_nat x div of_nat WIDTH :: u32) = 256 * x div WIDTH"
    by (simp add: unat_div WIDTH_def)
  then show ?thesis by (metis of_nat_unat of_nat_unat)
qed

lemma upto_6: "y \<le> 6 \<longleftrightarrow> y = 0 \<or> y = 1 \<or> y = 2 \<or> y = 3 \<or> y = 4 \<or> y = 5 \<or> y = (6 :: nat)"
  by auto

lemma scale_column_at:
  assumes "x < WIDTH" "y < HEIGHT" "n < WIDTH"
  shows "scale_column img n m (at_pixel img x y) = (if x = n \<and> y \<le> 6 then scale_value n y else m (at_pixel img x y))"
proof -
  have i: "at_pixel img x y = at_pixel img n k \<longleftrightarrow> x = n \<and> y = k" if "k < 7" for k
    using that assms by (intro at_pixel_inj) (simp_all add: HEIGHT_def)
  have j: "at_pixel img x y = at_pixel img n 0 \<longleftrightarrow> x = n \<and> y = 0" "at_pixel img x y = at_pixel img n 1 \<longleftrightarrow> x = n \<and> y = 1"
    "at_pixel img x y = at_pixel img n 2 \<longleftrightarrow> x = n \<and> y = 2" "at_pixel img x y = at_pixel img n 3 \<longleftrightarrow> x = n \<and> y = 3"
    "at_pixel img x y = at_pixel img n 4 \<longleftrightarrow> x = n \<and> y = 4" "at_pixel img x y = at_pixel img n 5 \<longleftrightarrow> x = n \<and> y = 5"
    "at_pixel img x y = at_pixel img n 6 \<longleftrightarrow> x = n \<and> y = 6"
    by (rule i, simp)+
  show ?thesis
    unfolding scale_column_def Let_def put_pixel_at fun_upd_apply scale_q [OF assms(3)] scale_value_def upto_6 j
    by (simp split: if_split) auto
qed

lemma fold_scale:
  assumes "x < WIDTH" "y < HEIGHT" "n \<le> WIDTH"
  shows "fold (scale_column img) [0..<n] m (at_pixel img x y) =
    (if y \<le> 6 \<and> x < n then scale_value x y else m (at_pixel img x y))"
  using assms(3)
proof (induction n)
  case 0
  then show ?case by simp
next
  case (Suc n)
  then show ?case using scale_column_at [OF assms(1,2), of n] by (simp add: less_Suc_eq)
qed

section \<open>The palette in memory\<close>

definition palette_value :: "nat \<Rightarrow> nat \<Rightarrow> nat" where
  "palette_value i c = (if c = 0 then i else if c = 1 then i * i div 255 else i div 255)"

lemma palette_entry_writes:
  assumes "i < 256"
  shows "palette_entry pal i m = m(pal + of_nat (3 * i) := of_nat (palette_value i 0),
    pal + of_nat (3 * i + 1) := of_nat (palette_value i 1), pal + of_nat (3 * i + 2) := of_nat (palette_value i 2))"
proof -
  have le: "i * i \<le> 255 * 255" using assms by (intro mult_le_mono) simp_all
  have sq: "unat (of_nat i * of_nat i :: u32) = i * i" "unat (of_nat i :: u32) = i"
    using le assms unat_of_nat_small [where ?'a = 32, of "i * i"] unat_of_nat_small [where ?'a = 32, of i] by simp_all
  have u: "ucast (w :: u32) = (of_nat (unat w) :: u8)" for w by simp
  have v: "ucast (of_nat i :: u32) = (of_nat i :: u8)"
    "ucast (of_nat i * of_nat i div 255 :: u32) = (of_nat (i * i div 255) :: u8)"
    "ucast (of_nat i div 255 :: u32) = (of_nat (i div 255) :: u8)"
    unfolding u [of "of_nat i"] u [of "of_nat i * of_nat i div 255"] u [of "of_nat i div 255"] unat_div sq by simp_all
  have a: "(of_nat i * 3 + 0 :: u32) = of_nat (3 * i)" "(of_nat i * 3 + 1 :: u32) = of_nat (3 * i + 1)"
    "(of_nat i * 3 + 2 :: u32) = of_nat (3 * i + 2)" by simp_all
  show ?thesis unfolding palette_entry_def Let_def v a palette_value_def by simp
qed

lemma palette_inj:
  assumes "a < 768" "b < 768"
  shows "pal + of_nat a = pal + (of_nat b :: u32) \<longleftrightarrow> a = b"
  unfolding add_left_cancel
  using assms unat_of_nat_small [where ?'a = 32, of a] unat_of_nat_small [where ?'a = 32, of b]
  by (simp add: word_eq_iff_unat)

lemma fold_palette:
  assumes "i < 256" "c < 3" "n \<le> 256"
  shows "fold (palette_entry pal) [0..<n] m (pal + of_nat (3 * i + c)) =
    (if i < n then of_nat (palette_value i c) else m (pal + of_nat (3 * i + c)))"
  using assms(3)
proof (induction n)
  case 0
  then show ?case by simp
next
  case (Suc n)
  have j: "pal + of_nat (3 * i + c) = pal + (of_nat (3 * n + d) :: u32) \<longleftrightarrow> i = n \<and> c = d" if "d < 3" for d
  proof -
    have "pal + of_nat (3 * i + c) = pal + (of_nat (3 * n + d) :: u32) \<longleftrightarrow> 3 * i + c = 3 * n + d"
      using that assms Suc.prems by (intro palette_inj) simp_all
    also have "\<dots> \<longleftrightarrow> i = n \<and> c = d" using that assms(2) by presburger
    finally show ?thesis .
  qed
  have w: "fold (palette_entry pal) [0..<Suc n] m = palette_entry pal n (fold (palette_entry pal) [0..<n] m)" by simp
  have n: "n < 256" and ih: "fold (palette_entry pal) [0..<n] m (pal + of_nat (3 * i + c)) =
      (if i < n then of_nat (palette_value i c) else m (pal + of_nat (3 * i + c)))" using Suc by simp_all
  have c: "c = 0 \<or> c = 1 \<or> c = 2" using assms(2) by auto
  show ?case
    unfolding w palette_entry_writes [OF n] fun_upd_apply ih using j [of 0] j [of 1] j [of 2] c
    by (simp only: add_0_right less_Suc_eq zero_less_numeral one_less_numeral_iff semiring_norm simp_thms) auto
qed

section \<open>What the program shows\<close>

definition palette_log :: "resource \<Rightarrow> maccess list" where
  "palette_log h = concat (map (\<lambda>i. MWr 1 (port h VGA_PALETTE_ADDR) (of_nat i) #
    map (\<lambda>c. MWr 1 (port h VGA_PALETTE_DATA) (of_nat (palette_value i c div 4))) [0..<3]) [0..<256])"

lemma palette_value_bound: "i < 256 \<Longrightarrow> palette_value i c < 256"
proof -
  assume "i < 256"
  then have "i * i \<le> 255 * 255" by (intro mult_le_mono) simp_all
  then have "i * i div 255 \<le> 255" using div_le_mono [of "i * i" "255 * 255" 255] by simp
  then show ?thesis using \<open>i < 256\<close> by (simp add: palette_value_def less_mult_imp_div_less)
qed

lemma prepare_palette_ok:
  assumes "r_bus_space (io_bar (dvga st)) = GT_PCI_BUS_SPACE"
  shows "\<exists>m. prepare_palette pal st = Inr \<lparr>dmem = m, dvga = logged (dvga st) (palette_log (io_bar (dvga st)))\<rparr> \<and>
    (\<forall>i < 256. \<forall>c < 3. m (pal + of_nat (3 * i + c)) = of_nat (palette_value i c))"
proof -
  let ?m = "fold (palette_entry pal) [0..<256] (dmem st)" and ?h = "io_bar (dvga st)"
  have m: "?m (pal + of_nat (3 * i + c)) = of_nat (palette_value i c)" if "i < 256" "c < 3" for i c
    using fold_palette [OF that, of 256 pal "dmem st"] that by simp
  have u: "(ucast (of_nat v :: u8) div 4 :: u32) = of_nat (v div 4)" if "v < 256" for v
    using that by (simp add: word_eq_iff_unat unat_div unat_of_nat_small unsigned_ucast_eq take_bit_nat_eq_self)
  have e: "entry_writes ?h pal ?m i = MWr 1 (port ?h VGA_PALETTE_ADDR) (of_nat i) #
      map (\<lambda>c. MWr 1 (port ?h VGA_PALETTE_DATA) (of_nat (palette_value i c div 4))) [0..<3]" if "i < 256" for i
    unfolding entry_writes_def
    by (rule arg_cong [of _ _ "Cons _"], rule map_cong [OF refl]) (use m that u palette_value_bound in simp)
  have "map (entry_writes ?h pal ?m) [0..<256] = map (\<lambda>i. MWr 1 (port ?h VGA_PALETTE_ADDR) (of_nat i) #
      map (\<lambda>c. MWr 1 (port ?h VGA_PALETTE_DATA) (of_nat (palette_value i c div 4))) [0..<3]) [0..<256]"
    by (rule map_cong [OF refl]) (use e in simp)
  then have "prepare_palette pal st = Inr \<lparr>dmem = ?m, dvga = logged (dvga st) (palette_log ?h)\<rparr>"
    unfolding prepare_palette_def Let_def palette_write_ok [OF assms] palette_log_def by (simp only: rbind.simps prod.case)
  then show ?thesis using m by blast
qed

lemma demo_ok:
  assumes io: "r_bus_space (io_bar (dvga st)) = GT_PCI_BUS_SPACE" and me: "r_bus_space (mem_bar (dvga st)) = GT_PCI_BUS_SPACE"
  shows "\<exists>st'. demo shader img pal st = Inr st' \<and>
    (\<forall>x < WIDTH. \<forall>y < HEIGHT. dmem st' (at_pixel img x y) =
      (if y \<le> 6 then scale_value x y else shader (of_nat x) (of_nat y))) \<and>
    dvga st' = logged (dvga st) (palette_log (io_bar (dvga st)) @
      map (\<lambda>k. MWr 1 (MIPS_PHYS_TO_KSEG1 (r_start (mem_bar (dvga st))) + of_nat k) (ucast (dmem st' (img + of_nat k))))
        [0..<unat (vg_width (stdvga (dvga st)) * vg_height (stdvga (dvga st)))])"
proof -
  obtain m where p: "prepare_palette pal st = Inr \<lparr>dmem = m, dvga = logged (dvga st) (palette_log (io_bar (dvga st)))\<rparr>"
    using prepare_palette_ok [OF io] by blast
  let ?m = "fold (scale_column img) [0..<WIDTH] (fold (shade_row shader img) [0..<HEIGHT] m)"
  have px: "?m (at_pixel img x y) = (if y \<le> 6 then scale_value x y else shader (of_nat x) (of_nat y))"
    if "x < WIDTH" "y < HEIGHT" for x y
    using fold_scale [OF that, of WIDTH img] fold_rows [OF that, of HEIGHT shader img m] that by simp
  have me': "r_bus_space (mem_bar (logged (dvga st) l)) = GT_PCI_BUS_SPACE" for l using me by simp
  show ?thesis
    unfolding demo_def p rbind.simps Let_def display_image_def
    using px by (simp add: fb_write_ok [OF me'])
qed

text \<open>
  The shader is total and paints a pixel black exactly when, for some k, the k-th digits of both
  coordinates to base 3 are 1: the holes of the Sierpinski carpet.
\<close>

lemma carpet_holes:
  "sierpinski x y = (if (\<exists>k. unat x div 3 ^ k mod 3 = 1 \<and> unat y div 3 ^ k mod 3 = 1) then 0 else 0xFF)"
  using sierpinski_ok [of x y] by (simp add: hole_def)

end
