(* ===== verification/Cp0_Regs.thy ===== *)
theory Cp0_Regs
  imports Prelude
begin

text \<open>
  The MIPS32 coprocessor 0 as the headers describe it: every macro of \<open>m32c0.h\<close> by name and value.
  A bit-field of a register is the group of macros that share its name: the masks, the shifts, the
  widths in bits and the values it can take. The tables follow the order of the header; the
  register-number tables are those of the C half, of the assembler half, and of \<open>regdef.h\<close> and
  \<open>cp0regdef.h\<close>.
\<close>

type_synonym c0_macro = "string \<times> int"

datatype c0_field = C0_Field (fname: string) (fmasks: "c0_macro list") (fshifts: "c0_macro list")
  (fbits: "c0_macro list") (fvals: "c0_macro list")

datatype c0_op = Get | Set | Xch | Bic | Bis | Bcs

text \<open>The register argument of an access macro: a name, or a name with an explicit select.\<close>

datatype c0_arg = Reg string | Regname string nat

text \<open>A register and its select, packed the way the C half names the registers.\<close>

definition MIPS_C0_REGNAME :: "nat \<Rightarrow> nat \<Rightarrow> nat" where
  "MIPS_C0_REGNAME regno sel = push_bit 8 sel + regno"

definition CR_XCPT :: "int \<Rightarrow> int" where "CR_XCPT x = push_bit 2 x"

section \<open>The tables\<close>

definition cause_fields :: "c0_field list" where
  "cause_fields = [
   C0_Field ''CR_BD'' [(''CR_BD'', 0x80000000)] [(''CR_BD_SHIFT'', 31)] [] [],
   C0_Field ''CR_TI'' [(''CR_TI'', 0x40000000)] [(''CR_TI_SHIFT'', 30)] [] [],
   C0_Field ''CR_CE'' [(''CR_CEMASK'', 0x30000000)] [(''CR_CESHIFT'', 28),
     (''CR_CE_SHIFT'', 28)] [(''CR_CE_BITS'', 2)] [],
   C0_Field ''CR_DC'' [(''CR_DC'', 0x8000000)] [(''CR_DC_SHIFT'', 27)] [] [],
   C0_Field ''CR_PCI'' [(''CR_PCI'', 0x4000000)] [(''CR_PCI_SHIFT'', 26)] [] [],
   C0_Field ''CR_IV'' [(''CR_IV'', 0x800000)] [(''CR_IV_SHIFT'', 23)] [] [],
   C0_Field ''CR_WP'' [(''CR_WP'', 0x400000)] [(''CR_WP_SHIFT'', 22)] [] [],
   C0_Field ''CR_FDCI'' [(''CR_FDCI'', 0x200000)] [(''CR_FDCI_SHIFT'', 21)] [] [],
   C0_Field ''CR_I'' [(''CR_IMASK'', 0xFF00)] [] [] [],
   C0_Field ''CR_IP'' [(''CR_IP_MASK'', 0xFF00)] [(''CR_IP_SHIFT'', 8)] [(''CR_IP_BITS'', 8)]
     [],
   C0_Field ''CR_RIPL'' [(''CR_RIPL'', 0xFC00)] [(''CR_RIPL_SHIFT'', 10)]
     [(''CR_RIPL_BITS'', 6)] [],
   C0_Field ''CR_HINT5'' [(''CR_HINT5'', 0x8000)] [] [] [],
   C0_Field ''CR_HINT4'' [(''CR_HINT4'', 0x4000)] [] [] [],
   C0_Field ''CR_HINT3'' [(''CR_HINT3'', 0x2000)] [] [] [],
   C0_Field ''CR_HINT2'' [(''CR_HINT2'', 0x1000)] [] [] [],
   C0_Field ''CR_HINT1'' [(''CR_HINT1'', 0x800)] [] [] [],
   C0_Field ''CR_HINT0'' [(''CR_HINT0'', 0x400)] [] [] [],
   C0_Field ''CR_SINT1'' [(''CR_SINT1'', 0x200)] [] [] [],
   C0_Field ''CR_SINT0'' [(''CR_SINT0'', 0x100)] [] [] [],
   C0_Field ''CR_IP7'' [(''CR_IP7'', 0x8000)] [] [] [],
   C0_Field ''CR_IP6'' [(''CR_IP6'', 0x4000)] [] [] [],
   C0_Field ''CR_IP5'' [(''CR_IP5'', 0x2000)] [] [] [],
   C0_Field ''CR_IP4'' [(''CR_IP4'', 0x1000)] [] [] [],
   C0_Field ''CR_IP3'' [(''CR_IP3'', 0x800)] [] [] [],
   C0_Field ''CR_IP2'' [(''CR_IP2'', 0x400)] [] [] [],
   C0_Field ''CR_IP1'' [(''CR_IP1'', 0x200)] [] [] [],
   C0_Field ''CR_IP0'' [(''CR_IP0'', 0x100)] [] [] [],
   C0_Field ''CR_X'' [(''CR_XMASK'', 0x7C), (''CR_X_MASK'', 0x7C)] [(''CR_X_SHIFT'', 2)]
     [(''CR_X_BITS'', 5)] []]"

definition status_fields :: "c0_field list" where
  "status_fields = [
   C0_Field ''SR_CU3'' [(''SR_CU3'', 0x80000000)] [(''SR_CU3_SHIFT'', 31)] [] [],
   C0_Field ''SR_CU2'' [(''SR_CU2'', 0x40000000)] [(''SR_CU2_SHIFT'', 30)] [] [],
   C0_Field ''SR_CU1'' [(''SR_CU1'', 0x20000000)] [(''SR_CU1_SHIFT'', 29)] [] [],
   C0_Field ''SR_CU0'' [(''SR_CU0'', 0x10000000)] [] [] [],
   C0_Field ''SR_RP'' [(''SR_RP'', 0x8000000)] [(''SR_RP_SHIFT'', 27)] [] [],
   C0_Field ''SR_FR'' [(''SR_FR'', 0x4000000)] [(''SR_FR_SHIFT'', 26)] [] [],
   C0_Field ''SR_RE'' [(''SR_RE'', 0x2000000)] [(''SR_RE_SHIFT'', 25)] [] [],
   C0_Field ''SR_MX'' [(''SR_MX'', 0x1000000)] [(''SR_MX_SHIFT'', 24)] [] [],
   C0_Field ''SR_PX'' [(''SR_PX'', 0x800000)] [(''SR_PX_SHIFT'', 23)] [] [],
   C0_Field ''SR_BEV'' [(''SR_BEV'', 0x400000)] [(''SR_BEV_SHIFT'', 22)] [] [],
   C0_Field ''SR_TS'' [(''SR_TS'', 0x200000)] [(''SR_TS_SHIFT'', 21)] [] [],
   C0_Field ''SR_SR'' [(''SR_SR'', 0x100000)] [(''SR_SR_SHIFT'', 20)] [] [],
   C0_Field ''SR_PE'' [(''SR_PE'', 0x100000)] [] [] [],
   C0_Field ''SR_NMI'' [(''SR_NMI'', 0x80000)] [(''SR_NMI_SHIFT'', 19)] [] [],
   C0_Field ''SR_MCU'' [(''SR_MCU'', 0x40000)] [(''SR_MCU_SHIFT'', 18)] [] [],
   C0_Field ''SR_IPL'' [(''SR_IPL_MASK'', 0xFC00)] [(''SR_IPL_SHIFT'', 10)]
     [(''SR_IPL_BITS'', 6)] [],
   C0_Field ''SR_I'' [(''SR_IMASK'', 0xFF00)] [] [] [],
   C0_Field ''SR_HINT5'' [(''SR_HINT5'', 0x8000)] [] [] [],
   C0_Field ''SR_HINT4'' [(''SR_HINT4'', 0x4000)] [] [] [],
   C0_Field ''SR_HINT3'' [(''SR_HINT3'', 0x2000)] [] [] [],
   C0_Field ''SR_HINT2'' [(''SR_HINT2'', 0x1000)] [] [] [],
   C0_Field ''SR_HINT1'' [(''SR_HINT1'', 0x800)] [] [] [],
   C0_Field ''SR_HINT0'' [(''SR_HINT0'', 0x400)] [] [] [],
   C0_Field ''SR_SINT1'' [(''SR_SINT1'', 0x200)] [] [] [],
   C0_Field ''SR_SINT0'' [(''SR_SINT0'', 0x100)] [] [] [],
   C0_Field ''SR_IM7'' [(''SR_IM7'', 0x8000)] [] [] [],
   C0_Field ''SR_IM6'' [(''SR_IM6'', 0x4000)] [] [] [],
   C0_Field ''SR_IM5'' [(''SR_IM5'', 0x2000)] [] [] [],
   C0_Field ''SR_IM4'' [(''SR_IM4'', 0x1000)] [] [] [],
   C0_Field ''SR_IM3'' [(''SR_IM3'', 0x800)] [] [] [],
   C0_Field ''SR_IM2'' [(''SR_IM2'', 0x400)] [] [] [],
   C0_Field ''SR_IM1'' [(''SR_IM1'', 0x200)] [] [] [],
   C0_Field ''SR_IM0'' [(''SR_IM0'', 0x100)] [] [] [],
   C0_Field ''SR_KX'' [(''SR_KX'', 0x80)] [(''SR_KX_SHIFT'', 7)] [] [],
   C0_Field ''SR_SX'' [(''SR_SX'', 0x40)] [(''SR_SX_SHIFT'', 6)] [] [],
   C0_Field ''SR_UX'' [(''SR_UX'', 0x20)] [(''SR_UX_SHIFT'', 5)] [] [],
   C0_Field ''SR_UM'' [(''SR_UM'', 0x10)] [] [] [],
   C0_Field ''SR_KSU'' [(''SR_KSU_MASK'', 0x18)] [(''SR_KSU_SHIFT'', 3)]
     [(''SR_KSU_BITS'', 2)] [(''SR_KSU_USER'', 0x10), (''SR_KSU_SPVS'', 0x8),
     (''SR_KSU_KERN'', 0x0)],
   C0_Field ''SR_ERL'' [(''SR_ERL'', 0x4)] [(''SR_ERL_SHIFT'', 2)] [] [],
   C0_Field ''SR_EXL'' [(''SR_EXL'', 0x2)] [(''SR_EXL_SHIFT'', 1)] [] [],
   C0_Field ''SR_IE'' [(''SR_IE'', 0x1)] [(''SR_IE_SHIFT'', 0)] [] []]"

definition vpcontrol_fields :: "c0_field list" where
  "vpcontrol_fields = [
   C0_Field ''VPCONTROL_DIS'' [(''VPCONTROL_DIS'', 0x1)] [] [] [],
   C0_Field ''VPCONTROL'' [] [(''VPCONTROL_SHIFT'', 0)] [] []]"

definition hwrena_fields :: "c0_field list" where
  "hwrena_fields = [
   C0_Field ''HWRENA_ULR'' [(''HWRENA_ULR'', 0x20000000)] [] [] [],
   C0_Field ''HWRENA_XNP'' [(''HWRENA_XNP'', 0x20)] [] [] [],
   C0_Field ''HWRENA_PERFCNT'' [(''HWRENA_PERFCNT'', 0x10)] [] [] [],
   C0_Field ''HWRENA_CCRES'' [(''HWRENA_CCRES'', 0x8)] [] [] [],
   C0_Field ''HWRENA_CC'' [(''HWRENA_CC'', 0x4)] [] [] [],
   C0_Field ''HWRENA_SYNCSTEP'' [(''HWRENA_SYNCSTEP'', 0x2)] [] [] [],
   C0_Field ''HWRENA_CPUNUM'' [(''HWRENA_CPUNUM'', 0x1)] [] [] []]"

definition intctl_fields :: "c0_field list" where
  "intctl_fields = [
   C0_Field ''INTCTL_IPTI'' [(''INTCTL_IPTI'', 0xE0000000)] [(''INTCTL_IPTI_SHIFT'', 29)]
     [(''INTCTL_IPTI_BITS'', 3)] [],
   C0_Field ''INTCTL_IPPCI'' [(''INTCTL_IPPCI'', 0x1C000000)] [(''INTCTL_IPPCI_SHIFT'', 26)]
     [(''INTCTL_IPPCI_BITS'', 3)] [],
   C0_Field ''INTCTL_IPFDC'' [(''INTCTL_IPFDC'', 0x3800000)] [(''INTCTL_IPFDC_SHIFT'', 23)]
     [(''INTCTL_IPFDC_BITS'', 3)] [],
   C0_Field ''INTCTL_VS'' [(''INTCTL_VS'', 0x3E0)] [(''INTCTL_VS_SHIFT'', 5)]
     [(''INTCTL_VS_BITS'', 5)] [(''INTCTL_VS_0'', push_bit 5 0),
     (''INTCTL_VS_32'', push_bit 5 1), (''INTCTL_VS_64'', push_bit 5 2),
     (''INTCTL_VS_128'', push_bit 5 4), (''INTCTL_VS_256'', push_bit 5 8),
     (''INTCTL_VS_512'', push_bit 5 16)]]"

definition srsctl_fields :: "c0_field list" where
  "srsctl_fields = [
   C0_Field ''SRSCTL_HSS'' [(''SRSCTL_HSS'', 0x3C000000)] [(''SRSCTL_HSS_SHIFT'', 26)] [] [],
   C0_Field ''SRSCTL_EICSS'' [(''SRSCTL_EICSS'', 0x3C0000)] [(''SRSCTL_EICSS_SHIFT'', 18)] []
     [],
   C0_Field ''SRSCTL_ESS'' [(''SRSCTL_ESS'', 0xF000)] [(''SRSCTL_ESS_SHIFT'', 12)] [] [],
   C0_Field ''SRSCTL_PSS'' [(''SRSCTL_PSS'', 0x3C0)] [(''SRSCTL_PSS_SHIFT'', 6)] [] [],
   C0_Field ''SRSCTL_CSS'' [(''SRSCTL_CSS'', 0xF)] [(''SRSCTL_CSS_SHIFT'', 0)] [] []]"

definition bevva_fields :: "c0_field list" where
  "bevva_fields = [
   C0_Field ''BEVVA_BASE'' [(''BEVVA_BASE_MASK'', 0xFFFFF000)] [(''BEVVA_BASE_SHIFT'', 12)] []
     [],
   C0_Field ''BEVVA_MASK'' [(''BEVVA_MASK_MASK'', 0xFFF)] [(''BEVVA_MASK_SHIFT'', 0)] [] []]"

definition config0_fields :: "c0_field list" where
  "config0_fields = [
   C0_Field ''CFG0_M'' [(''CFG0_M'', 0x80000000)] [(''CFG0_M_SHIFT'', 31)] [] [],
   C0_Field ''CFG0_K23'' [(''CFG0_K23_MASK'', 0x70000000)] [(''CFG0_K23_SHIFT'', 28)] [] [],
   C0_Field ''CFG0_KU'' [(''CFG0_KU_MASK'', 0xE000000)] [(''CFG0_KU_SHIFT'', 25)] [] [],
   C0_Field ''CFG0_BE'' [(''CFG0_BE'', 0x8000)] [(''CFG0_BE_SHIFT'', 15)] [] [],
   C0_Field ''CFG0_AT'' [(''CFG0_AT_MASK'', 0x6000), (''CFG0_ATMASK'', 0x6000)]
     [(''CFG0_AT_SHIFT'', 13)] [(''CFG0_AT_BITS'', 2)] [(''CFG0_AT_M32'', push_bit 13 0),
     (''CFG0_AT_M64_A32'', push_bit 13 1), (''CFG0_AT_M64_A64'', push_bit 13 2),
     (''CFG0_AT_RES'', push_bit 13 3)],
   C0_Field ''CFG0_AR'' [(''CFG0_AR_MASK'', 0x1C00), (''CFG0_ARMASK'', 0x1C00)]
     [(''CFG0_AR_SHIFT'', 10), (''CFG0_ARSHIFT'', 10)] [(''CFG0_AR_BITS'', 3)]
     [(''CFG0_AR_R1'', push_bit 10 0), (''CFG0_AR_R2'', push_bit 10 1),
     (''CFG0_AR_R6'', push_bit 10 2)],
   C0_Field ''CFG0_MT'' [(''CFG0_MT_MASK'', 0x380), (''CFG0_MTMASK'', 0x380)]
     [(''CFG0_MT_SHIFT'', 7)] [(''CFG0_MT_BITS'', 3)] [(''CFG0_MT_NONE'', push_bit 7 0),
     (''CFG0_MT_TLB'', push_bit 7 1), (''CFG0_MT_BAT'', push_bit 7 2),
     (''CFG0_MT_FIXED'', push_bit 7 3), (''CFG0_MT_NONSTD'', push_bit 7 3),
     (''CFG0_MT_DUAL'', push_bit 7 4)],
   C0_Field ''CFG0_VI'' [(''CFG0_VI'', 0x8)] [(''CFG0_VI_SHIFT'', 3)] [] [],
   C0_Field ''CFG0_K0'' [(''CFG0_K0_MASK'', 0x7), (''CFG0_K0MASK'', 0x7)]
     [(''CFG0_K0_SHIFT'', 0)] [(''CFG0_K0_BITS'', 3)] []]"

definition config1_fields :: "c0_field list" where
  "config1_fields = [
   C0_Field ''CFG1_M'' [(''CFG1_M'', 0x80000000)] [(''CFG1_M_SHIFT'', 31)] [] [],
   C0_Field ''CFG1_MMUS'' [(''CFG1_MMUS_MASK'', 0x7E000000), (''CFG1_MMUSMASK'', 0x7E000000)]
     [(''CFG1_MMUS_SHIFT'', 25), (''CFG1_MMUSSHIFT'', 25)] [(''CFG1_MMUS_BITS'', 6)] [],
   C0_Field ''CFG1_IS'' [(''CFG1_IS_MASK'', 0x1C00000), (''CFG1_ISMASK'', 0x1C00000)]
     [(''CFG1_IS_SHIFT'', 22), (''CFG1_ISSHIFT'', 22)] [(''CFG1_IS_BITS'', 3)] [],
   C0_Field ''CFG1_IL'' [(''CFG1_IL_MASK'', 0x380000), (''CFG1_ILMASK'', 0x380000)]
     [(''CFG1_IL_SHIFT'', 19), (''CFG1_ILSHIFT'', 19)] [(''CFG1_IL_BITS'', 3)] [],
   C0_Field ''CFG1_IA'' [(''CFG1_IA_MASK'', 0x70000), (''CFG1_IAMASK'', 0x70000)]
     [(''CFG1_IA_SHIFT'', 16), (''CFG1_IASHIFT'', 16)] [(''CFG1_IA_BITS'', 3)] [],
   C0_Field ''CFG1_DS'' [(''CFG1_DS_MASK'', 0xE000), (''CFG1_DSMASK'', 0xE000)]
     [(''CFG1_DS_SHIFT'', 13), (''CFG1_DSSHIFT'', 13)] [(''CFG1_DS_BITS'', 3)] [],
   C0_Field ''CFG1_DL'' [(''CFG1_DL_MASK'', 0x1C00), (''CFG1_DLMASK'', 0x1C00)]
     [(''CFG1_DL_SHIFT'', 10), (''CFG1_DLSHIFT'', 10)] [(''CFG1_DL_BITS'', 3)] [],
   C0_Field ''CFG1_DA'' [(''CFG1_DA_MASK'', 0x380), (''CFG1_DAMASK'', 0x380)]
     [(''CFG1_DA_SHIFT'', 7), (''CFG1_DASHIFT'', 7)] [(''CFG1_DA_BITS'', 3)] [],
   C0_Field ''CFG1_C2'' [(''CFG1_C2'', 0x40)] [(''CFG1_C2_SHIFT'', 6)] [] [],
   C0_Field ''CFG1_MD'' [(''CFG1_MD'', 0x20)] [(''CFG1_MD_SHIFT'', 5)] [] [],
   C0_Field ''CFG1_PC'' [(''CFG1_PC'', 0x10)] [(''CFG1_PC_SHIFT'', 4)] [] [],
   C0_Field ''CFG1_WR'' [(''CFG1_WR'', 0x8)] [(''CFG1_WR_SHIFT'', 3)] [] [],
   C0_Field ''CFG1_CA'' [(''CFG1_CA'', 0x4)] [(''CFG1_CA_SHIFT'', 2)] [] [],
   C0_Field ''CFG1_EP'' [(''CFG1_EP'', 0x2)] [(''CFG1_EP_SHIFT'', 1)] [] [],
   C0_Field ''CFG1_FP'' [(''CFG1_FP'', 0x1)] [(''CFG1_FP_SHIFT'', 0)] [] []]"

definition config2_fields :: "c0_field list" where
  "config2_fields = [
   C0_Field ''CFG2_M'' [(''CFG2_M'', 0x80000000)] [] [] [],
   C0_Field ''CFG1_M'' [] [(''CFG1_M_SHIFT'', 31)] [] [],
   C0_Field ''CFG2_TU'' [(''CFG2_TU_MASK'', 0x70000000), (''CFG2_TUMASK'', 0x70000000)]
     [(''CFG2_TU_SHIFT'', 28), (''CFG2_TUSHIFT'', 28)] [(''CFG2_TU_BITS'', 3)] [],
   C0_Field ''CFG2_TS'' [(''CFG2_TS_MASK'', 0xF000000), (''CFG2_TSMASK'', 0xF000000)]
     [(''CFG2_TS_SHIFT'', 24), (''CFG2_TSSHIFT'', 24)] [(''CFG2_TS_BITS'', 4)] [],
   C0_Field ''CFG2_TL'' [(''CFG2_TL_MASK'', 0xF00000), (''CFG2_TLMASK'', 0xF00000)]
     [(''CFG2_TL_SHIFT'', 20), (''CFG2_TLSHIFT'', 20)] [(''CFG2_TL_BITS'', 4)] [],
   C0_Field ''CFG2_TA'' [(''CFG2_TA_MASK'', 0xF0000), (''CFG2_TAMASK'', 0xF0000)]
     [(''CFG2_TA_SHIFT'', 16), (''CFG2_TASHIFT'', 16)] [(''CFG2_TA_BITS'', 4)] [],
   C0_Field ''CFG2_SU'' [(''CFG2_SU_MASK'', 0xF000), (''CFG2_SUMASK'', 0xF000)]
     [(''CFG2_SU_SHIFT'', 12), (''CFG2_SUSHIFT'', 12)] [(''CFG2_SU_BITS'', 4)] [],
   C0_Field ''CFG2_SS'' [(''CFG2_SS_MASK'', 0xF00), (''CFG2_SSMASK'', 0xF00)]
     [(''CFG2_SS_SHIFT'', 8), (''CFG2_SSSHIFT'', 8)] [(''CFG2_SS_BITS'', 4)] [],
   C0_Field ''CFG2_SL'' [(''CFG2_SL_MASK'', 0xF0), (''CFG2_SLMASK'', 0xF0)]
     [(''CFG2_SL_SHIFT'', 4), (''CFG2_SLSHIFT'', 4)] [(''CFG2_SL_BITS'', 4)] [],
   C0_Field ''CFG2_SA'' [(''CFG2_SA_MASK'', 0xF), (''CFG2_SAMASK'', 0xF)]
     [(''CFG2_SA_SHIFT'', 0), (''CFG2_SASHIFT'', 0)] [(''CFG2_SA_BITS'', 4)] []]"

definition config3_fields :: "c0_field list" where
  "config3_fields = [
   C0_Field ''CFG3_M'' [(''CFG3_M'', 0x80000000)] [(''CFG3_M_SHIFT'', 31)] [] [],
   C0_Field ''CFG3_BPG'' [(''CFG3_BPG'', 0x40000000)] [(''CFG3_BPG_SHIFT'', 30)] [] [],
   C0_Field ''CFG3_CMGCR'' [(''CFG3_CMGCR'', 0x20000000)] [(''CFG3_CMGCR_SHIFT'', 29)] [] [],
   C0_Field ''CFG3_MSAP'' [(''CFG3_MSAP'', 0x10000000)] [(''CFG3_MSAP_SHIFT'', 28)] [] [],
   C0_Field ''CFG3_BP'' [(''CFG3_BP'', 0x8000000)] [(''CFG3_BP_SHIFT'', 27)] [] [],
   C0_Field ''CFG3_BI'' [(''CFG3_BI'', 0x4000000)] [(''CFG3_BI_SHIFT'', 26)] [] [],
   C0_Field ''CFG3_SC'' [(''CFG3_SC'', 0x2000000)] [(''CFG3_SC_SHIFT'', 25)] [] [],
   C0_Field ''CFG3_PW'' [(''CFG3_PW'', 0x1000000)] [(''CFG3_PW_SHIFT'', 24)] [] [],
   C0_Field ''CFG3_VZ'' [(''CFG3_VZ'', 0x800000)] [(''CFG3_VZ_SHIFT'', 23)] [] [],
   C0_Field ''CFG3_IPLW'' [(''CFG3_IPLW_MASK'', 0x600000)] [(''CFG3_IPLW_SHIFT'', 21)]
     [(''CFG3_IPLW_BITS'', 2)] [(''CFG3_IPLW_6BIT'', push_bit 21 0),
     (''CFG3_IPLW_8BIT'', push_bit 21 1)],
   C0_Field ''CFG3_MMAR'' [(''CFG3_MMAR_MASK'', 0x1C0000)] [(''CFG3_MMAR_SHIFT'', 18)]
     [(''CFG3_MMAR_BITS'', 3)] [(''CFG3_MMAR_R3'', push_bit 18 0)],
   C0_Field ''CFG3_MCU'' [(''CFG3_MCU'', 0x20000)] [(''CFG3_MCU_SHIFT'', 17)] [] [],
   C0_Field ''CFG3_IOE'' [(''CFG3_IOE'', 0x10000)] [(''CFG3_IOE_SHIFT'', 16)] [] [],
   C0_Field ''CFG3_ISA'' [(''CFG3_ISA_MASK'', 0xC000)] [(''CFG3_ISA_SHIFT'', 14)]
     [(''CFG3_ISA_BITS'', 2)] [(''CFG3_ISA_MIPS'', push_bit 14 0),
     (''CFG3_ISA_UMIPS'', push_bit 14 1), (''CFG3_ISA_BOTH'', push_bit 14 2),
     (''CFG3_ISA_UBOTH'', push_bit 14 3)],
   C0_Field ''CFG3_ULRI'' [(''CFG3_ULRI'', 0x2000)] [(''CFG3_ULRI_SHIFT'', 13)] [] [],
   C0_Field ''CFG3_RXI'' [(''CFG3_RXI'', 0x1000)] [(''CFG3_RXI_SHIFT'', 12)] [] [],
   C0_Field ''CFG3_DSP2P'' [(''CFG3_DSP2P'', 0x800)] [(''CFG3_DSP2P_SHIFT'', 11)] [] [],
   C0_Field ''CFG3_DSPP'' [(''CFG3_DSPP'', 0x400)] [(''CFG3_DSPP_SHIFT'', 10)] [] [],
   C0_Field ''CFG3_CTXTC'' [(''CFG3_CTXTC'', 0x200)] [(''CFG3_CTXTC_SHIFT'', 9)] [] [],
   C0_Field ''CFG3_ITL'' [(''CFG3_ITL'', 0x100)] [(''CFG3_ITL_SHIFT'', 8)] [] [],
   C0_Field ''CFG3_LPA'' [(''CFG3_LPA'', 0x80)] [(''CFG3_LPA_SHIFT'', 7)] [] [],
   C0_Field ''CFG3_VEIC'' [(''CFG3_VEIC'', 0x40)] [(''CFG3_VEIC_SHIFT'', 6)] [] [],
   C0_Field ''CFG3_VI'' [(''CFG3_VI'', 0x20)] [(''CFG3_VI_SHIFT'', 5)] [] [],
   C0_Field ''CFG3_SP'' [(''CFG3_SP'', 0x10)] [(''CFG3_SP_SHIFT'', 4)] [] [],
   C0_Field ''CFG3_CDMM'' [(''CFG3_CDMM'', 0x8)] [(''CFG3_CDMM_SHIFT'', 3)] [] [],
   C0_Field ''CFG3_MT'' [(''CFG3_MT'', 0x4)] [(''CFG3_MT_SHIFT'', 2)] [] [],
   C0_Field ''CFG3_SM'' [(''CFG3_SM'', 0x2)] [(''CFG3_SM_SHIFT'', 1)] [] [],
   C0_Field ''CFG3_TL'' [(''CFG3_TL'', 0x1)] [(''CFG3_TL_SHIFT'', 0)] [] []]"

definition config4_fields :: "c0_field list" where
  "config4_fields = [
   C0_Field ''CFG4_M'' [(''CFG4_M'', 0x80000000)] [(''CFG4_M_SHIFT'', 31)] [] [],
   C0_Field ''CFG4_IE'' [(''CFG4_IE_MASK'', 0x60000000)] [(''CFG4_IE_SHIFT'', 29)]
     [(''CFG4_IE_BITS'', 2)] [(''CFG4_IE_NONE'', push_bit 29 0),
     (''CFG4_IE_EHINV'', push_bit 29 1), (''CFG4_IE_INV'', push_bit 29 2),
     (''CFG4_IE_INVALL'', push_bit 29 3)],
   C0_Field ''CFG4_AE'' [(''CFG4_AE'', 0x10000000)] [(''CFG4_AE_SHIFT'', 28)] [] [],
   C0_Field ''CFG4_VTLBSEXT'' [(''CFG4_VTLBSEXT_MASK'', 0xF000000)]
     [(''CFG4_VTLBSEXT_SHIFT'', 24)] [(''CFG4_VTLBSEXT_BITS'', 4)] [],
   C0_Field ''CFG4_KSCREXIST'' [(''CFG4_KSCREXIST_MASK'', 0xFF0000)]
     [(''CFG4_KSCREXIST_SHIFT'', 16)] [(''CFG4_KSCREXIST_BITS'', 8)] [],
   C0_Field ''CFG4_MMUED'' [(''CFG4_MMUED'', 0xC000)] [(''CFG4_MMUED_SHIFT'', 14)]
     [(''CFG4_MMUED_BITS'', 2)] [(''CFG4_MMUED_SIZEEXT'', push_bit 14 1),
     (''CFG4_MMUED_FTLB'', push_bit 14 2), (''CFG4_MMUED_FTLBVEXT'', push_bit 14 3)],
   C0_Field ''CFG4_FTLBPS'' [(''CFG4_FTLBPS_MASK'', 0x1F00)] [(''CFG4_FTLBPS_SHIFT'', 8)]
     [(''CFG4_FTLBPS_BITS'', 5)] [],
   C0_Field ''CFG4_FTLBW'' [(''CFG4_FTLBW_MASK'', 0xF0)] [(''CFG4_FTLBW_SHIFT'', 4)]
     [(''CFG4_FTLBW_BITS'', 4)] [],
   C0_Field ''CFG4_FTLBS'' [(''CFG4_FTLBS_MASK'', 0xF)] [(''CFG4_FTLBS_SHIFT'', 0)]
     [(''CFG4_FTLBS_BITS'', 4)] [],
   C0_Field ''CFG4_MMUSE'' [(''CFG4_MMUSE_MASK'', 0xFF)] [(''CFG4_MMUSE_SHIFT'', 0)]
     [(''CFG4_MMUSE_BITS'', 8)] []]"

definition config5_fields :: "c0_field list" where
  "config5_fields = [
   C0_Field ''CFG5_M'' [(''CFG5_M'', 0x80000000)] [(''CFG5_M_SHIFT'', 31)] [] [],
   C0_Field ''CFG5_K'' [(''CFG5_K'', 0x40000000)] [(''CFG5_K_SHIFT'', 30)] [] [],
   C0_Field ''CFG5_CV'' [(''CFG5_CV'', 0x20000000)] [(''CFG5_CV_SHIFT'', 29)] [] [],
   C0_Field ''CFG5_EVA'' [(''CFG5_EVA'', 0x10000000)] [(''CFG5_EVA_SHIFT'', 28)] [] [],
   C0_Field ''CFG5_MSAEN'' [(''CFG5_MSAEN'', 0x8000000)] [(''CFG5_MSAEN_SHIFT'', 27)] [] [],
   C0_Field ''CFG_XNP'' [(''CFG_XNP'', 0x2000)] [(''CFG_XNP_SHIFT'', 13)] [] [],
   C0_Field ''CFG5_CES'' [(''CFG5_CES'', 0x1000)] [(''CFG5_CES_SHIFT'', 12)] [] [],
   C0_Field ''CFG5_DEC'' [(''CFG5_DEC'', 0x800)] [(''CFG5_DEC_SHIFT'', 11)] [] [],
   C0_Field ''CFG5_L2C'' [(''CFG5_L2C'', 0x400)] [(''CFG5_L2C_SHIFT'', 10)] [] [],
   C0_Field ''CFG5_UFE'' [(''CFG5_UFE'', 0x200)] [] [] [],
   C0_Field ''CFG5_LUFE'' [] [(''CFG5_LUFE_SHIFT'', 9)] [] [],
   C0_Field ''CFG5_FRE'' [(''CFG5_FRE'', 0x100)] [(''CFG5_FRE_SHIFT'', 8)] [] [],
   C0_Field ''CFG5_VP'' [(''CFG5_VP'', 0x80)] [(''CFG5_VP_SHIFT'', 7)] [] [],
   C0_Field ''CFG5_SBRI'' [(''CFG5_SBRI'', 0x40)] [(''CFG5_SBRI_SHIFT'', 6)] [] [],
   C0_Field ''CFG5_MVH'' [(''CFG5_MVH'', 0x20)] [(''CFG5_MVH_SHIFT'', 5)] [] [],
   C0_Field ''CFG5_LLB'' [(''CFG5_LLB'', 0x10)] [(''CFG5_LLB_SHIFT'', 4)] [] [],
   C0_Field ''CFG5_MRP'' [(''CFG5_MRP'', 0x8)] [(''CFG5_MRP_SHIFT'', 3)] [] [],
   C0_Field ''CFG5_UFR'' [(''CFG5_UFR'', 0x4)] [(''CFG5_UFR_SHIFT'', 2)] [] [],
   C0_Field ''CFG5_NF'' [(''CFG5_NF'', 0x1)] [(''CFG5_NF_SHIFT'', 0)] [] []]"

definition taglo_fields :: "c0_field list" where
  "taglo_fields = [
   C0_Field ''TAG_PTAG'' [(''TAG_PTAG_MASK'', 0xFFFFFF00)] [(''TAG_PTAG_SHIFT'', 8)] [] [],
   C0_Field ''TAG_PSTATE'' [(''TAG_PSTATE_MASK'', 0xC0)] [(''TAG_PSTATE_SHIFT'', 6)] [] [],
   C0_Field ''TAG_PSTATE_LOCK'' [(''TAG_PSTATE_LOCK'', 0x20)] [] [] [],
   C0_Field ''TAG_PARITY'' [(''TAG_PARITY_MASK'', 0x1)] [(''TAG_PARITY_SHIFT'', 0)] [] []]"

definition watchlo_fields :: "c0_field list" where
  "watchlo_fields = [
   C0_Field ''WATCHLO_VA'' [(''WATCHLO_VA'', 0xFFFFFFF8)] [] [] [],
   C0_Field ''WATCHLO_I'' [(''WATCHLO_I'', 0x4)] [] [] [],
   C0_Field ''WATCHLO_R'' [(''WATCHLO_R'', 0x2)] [] [] [],
   C0_Field ''WATCHLO_W'' [(''WATCHLO_W'', 0x1)] [] [] []]"

definition watchhi_fields :: "c0_field list" where
  "watchhi_fields = [
   C0_Field ''WATCHHI_M'' [(''WATCHHI_M'', 0x80000000)] [(''WATCHHI_M_SHIFT'', 31)] [] [],
   C0_Field ''WATCHHI_G'' [(''WATCHHI_G'', 0x40000000)] [(''WATCHHI_G_SHIFT'', 30)] [] [],
   C0_Field ''WATCHHI_ASID'' [(''WATCHHI_ASID_MASK'', 0xFF0000),
     (''WATCHHI_ASIDMASK'', 0xFF0000)] [(''WATCHHI_ASID_SHIFT'', 16),
     (''WATCHHI_ASIDSHIFT'', 16)] [(''WATCHHI_ASID_BITS'', 8)] [],
   C0_Field ''WATCHHI'' [(''WATCHHI_MASK'', 0xFFC)] [] [] [],
   C0_Field ''WATCHHI_I'' [(''WATCHHI_I'', 0x4)] [] [] [],
   C0_Field ''WATCHHI_R'' [(''WATCHHI_R'', 0x2)] [] [] [],
   C0_Field ''WATCHHI_W'' [(''WATCHHI_W'', 0x1)] [] [] []]"

definition perfcnt_fields :: "c0_field list" where
  "perfcnt_fields = [
   C0_Field ''PERFCNT_M'' [(''PERFCNT_M'', 0x80000000)] [] [] [],
   C0_Field ''PERFCNT_EVENT'' [(''PERFCNT_EVENT_MASK'', 0x7E0),
     (''PERFCNT_EVENTMASK'', 0x7E0)] [(''PERFCNT_EVENT_SHIFT'', 5),
     (''PERFCNT_EVENTSHIFT'', 5)] [(''PERFCNT_EVENT_BITS'', 6)] [],
   C0_Field ''PERFCNT_IE'' [(''PERFCNT_IE'', 0x10)] [] [] [],
   C0_Field ''PERFCNT_U'' [(''PERFCNT_U'', 0x8)] [] [] [],
   C0_Field ''PERFCNT_S'' [(''PERFCNT_S'', 0x4)] [] [] [],
   C0_Field ''PERFCNT_K'' [(''PERFCNT_K'', 0x2)] [] [] [],
   C0_Field ''PERFCNT_EXL'' [(''PERFCNT_EXL'', 0x1)] [] [] []]"

definition pagegrain_fields :: "c0_field list" where
  "pagegrain_fields = [
   C0_Field ''PAGEGRAIN_ELPA'' [(''PAGEGRAIN_ELPA'', 0x20000000)]
     [(''PAGEGRAIN_ELPA_SHIFT'', 29)] [(''PAGEGRAIN_ELPA_BITS'', 1)] [],
   C0_Field ''PAGEGRAIN_ESP'' [(''PAGEGRAIN_ESP'', 0x10000000)] [] [] []]"

definition ebase_fields :: "c0_field list" where
  "ebase_fields = [
   C0_Field ''EBASE_BASE'' [(''EBASE_BASE'', 0xFFFFF000)] [] [] [],
   C0_Field ''EBASE_WG'' [(''EBASE_WG'', 0x800)] [(''EBASE_WG_SHIFT'', 11)] [] [],
   C0_Field ''EBASE_CPU'' [(''EBASE_CPU'', 0x3FF)] [(''EBASE_CPU_SHIFT'', 0)]
     [(''EBASE_CPU_BITS'', 10)] []]"

definition entryhi_fields :: "c0_field list" where
  "entryhi_fields = [
   C0_Field ''C0_ENTRYHI64_R'' [(''C0_ENTRYHI64_R_MASK'', 0xC000000000000000)]
     [(''C0_ENTRYHI64_R_SHIFT'', 61)] [(''C0_ENTRYHI64_R_BITS'', 2)] [],
   C0_Field ''C0_ENTRYHI64_VPN2'' [(''C0_ENTRYHI64_VPN2_MASK'', 0xFFFFFFE000)]
     [(''C0_ENTRYHI64_VPN2_SHIFT'', 13)] [(''C0_ENTRYHI64_VPN2_BITS'', 27)] [],
   C0_Field ''C0_ENTRYHI_VPN2'' [(''C0_ENTRYHI_VPN2_MASK'', 0xFFFFE000)]
     [(''C0_ENTRYHI_VPN2_SHIFT'', 13)] [(''C0_ENTRYHI_VPN2_BITS'', 19)] [],
   C0_Field ''C0_ENTRYHI_VPN2X'' [(''C0_ENTRYHI_VPN2X_MASK'', 0x3)]
     [(''C0_ENTRYHI_VPN2X_SHIFT'', 11)] [(''C0_ENTRYHI_VPN2X_BITS'', 2)] [],
   C0_Field ''C0_ENTRYHI_EHINV'' [(''C0_ENTRYHI_EHINV_MASK'', 0x400)]
     [(''C0_ENTRYHI_EHINV_SHIFT'', 10)] [(''C0_ENTRYHI_EHINV_BITS'', 1)] [],
   C0_Field ''C0_ENTRYHI_ASIDX'' [(''C0_ENTRYHI_ASIDX_MASK'', 0x300)]
     [(''C0_ENTRYHI_ASIDX_SHIFT'', 8)] [(''C0_ENTRYHI_ASIDX_BITS'', 2)] [],
   C0_Field ''C0_ENTRYHI_ASID'' [(''C0_ENTRYHI_ASID_MASK'', 0xFF)]
     [(''C0_ENTRYHI_ASID_SHIFT'', 0)] [(''C0_ENTRYHI_ASID_BITS'', 8)] []]"

definition entrylo0_fields :: "c0_field list" where
  "entrylo0_fields = [
   C0_Field ''ENTRYLO064_RI'' [(''ENTRYLO064_RI_MASK'', 0x8000000000000000)]
     [(''ENTRYLO064_RI_SHIFT'', 63), (''ENTRYLO064_RI_SHIFT'', 63),
     (''ENTRYLO064_RI_SHIFT'', 63)] [(''ENTRYLO064_RI_BITS'', 1),
     (''ENTRYLO064_RI_BITS'', 1)] [],
   C0_Field ''ENTRYLO064_XI'' [(''ENTRYLO064_XI_MASK'', 0x4000000000000000)]
     [(''ENTRYLO064_XI_SHIFT'', 62)] [(''ENTRYLO064_XI_BITS'', 1)] [],
   C0_Field ''ENTRYLO064_PFN'' [(''ENTRYLO064_PFN_MASK'', 0x3FFFFFFFFFFFFFE0)]
     [(''ENTRYLO064_PFN_SHIFT'', 6)] [(''ENTRYLO064_PFN_BITS'', 56)] [],
   C0_Field ''ENTRYLO0_PFNX'' [(''ENTRYLO0_PFNX_MASK'', 0x7FFFFF)]
     [(''ENTRYLO0_PFNX_SHIFT'', 0)] [(''ENTRYLO0_PFNX_BITS'', 23)] [],
   C0_Field ''ENTRYLO0_RI'' [(''ENTRYLO0_RI_MASK'', 0x80000000)] [(''ENTRYLO0_RI_SHIFT'', 31)]
     [(''ENTRYLO0_RI_BITS'', 1)] [],
   C0_Field ''ENTRYLO0_XI'' [(''ENTRYLO0_XI_MASK'', 0x40000000)] [(''ENTRYLO0_XI_SHIFT'', 30)]
     [(''ENTRYLO0_XI_BITS'', 1)] [],
   C0_Field ''ENTRYLO0_PFN'' [(''ENTRYLO0_PFN_MASK'', 0x3FFFFFE0)]
     [(''ENTRYLO0_PFN_SHIFT'', 6)] [(''ENTRYLO0_PFN_BITS'', 23)] [],
   C0_Field ''ENTRYLO0_C'' [(''ENTRYLO0_C_MASK'', 0x38)] [(''ENTRYLO0_C_SHIFT'', 3)]
     [(''ENTRYLO0_C_BITS'', 3)] [],
   C0_Field ''ENTRYLO0_D'' [(''ENTRYLO0_D_MASK'', 0x4)] [(''ENTRYLO0_D_SHIFT'', 2)]
     [(''ENTRYLO0_D_BITS'', 1)] [],
   C0_Field ''ENTRYLO0_V'' [(''ENTRYLO0_V_MASK'', 0x2)] [(''ENTRYLO0_V_SHIFT'', 1)]
     [(''ENTRYLO0_V_BITS'', 1)] [],
   C0_Field ''ENTRYLO0_G'' [(''ENTRYLO0_G_MASK'', 0x1)] [(''ENTRYLO0_G_SHIFT'', 0)]
     [(''ENTRYLO0_G_BITS'', 1)] []]"

definition entrylo1_fields :: "c0_field list" where
  "entrylo1_fields = [
   C0_Field ''ENTRYLO164_RI'' [(''ENTRYLO164_RI_MASK'', 9223372036854775808)]
     [(''ENTRYLO164_RI_SHIFT'', 63), (''ENTRYLO164_RI_SHIFT'', 63),
     (''ENTRYLO164_RI_SHIFT'', 63)] [(''ENTRYLO164_RI_BITS'', 1),
     (''ENTRYLO164_RI_BITS'', 1)] [],
   C0_Field ''ENTRYLO164_XI'' [(''ENTRYLO164_XI_MASK'', 4611686018427387904)]
     [(''ENTRYLO164_XI_SHIFT'', 62)] [(''ENTRYLO164_XI_BITS'', 1)] [],
   C0_Field ''ENTRYLO164_PFN'' [(''ENTRYLO164_PFN_MASK'', 4611686018427387872)]
     [(''ENTRYLO164_PFN_SHIFT'', 6)] [(''ENTRYLO164_PFN_BITS'', 56)] [],
   C0_Field ''ENTRYLO1_PFNX'' [(''ENTRYLO1_PFNX_MASK'', 8388607)]
     [(''ENTRYLO1_PFNX_SHIFT'', 0)] [(''ENTRYLO1_PFNX_BITS'', 23)] [],
   C0_Field ''ENTRYLO1_RI'' [(''ENTRYLO1_RI_MASK'', 2147483648)] [(''ENTRYLO1_RI_SHIFT'', 31)]
     [(''ENTRYLO1_RI_BITS'', 1)] [],
   C0_Field ''ENTRYLO1_XI'' [(''ENTRYLO1_XI_MASK'', 1073741824)] [(''ENTRYLO1_XI_SHIFT'', 30)]
     [(''ENTRYLO1_XI_BITS'', 1)] [],
   C0_Field ''ENTRYLO1_PFN'' [(''ENTRYLO1_PFN_MASK'', 1073741792)]
     [(''ENTRYLO1_PFN_SHIFT'', 6)] [(''ENTRYLO1_PFN_BITS'', 23)] [],
   C0_Field ''ENTRYLO1_C'' [(''ENTRYLO1_C_MASK'', 56)] [(''ENTRYLO1_C_SHIFT'', 3)]
     [(''ENTRYLO1_C_BITS'', 3)] [],
   C0_Field ''ENTRYLO1_D'' [(''ENTRYLO1_D_MASK'', 4)] [(''ENTRYLO1_D_SHIFT'', 2)]
     [(''ENTRYLO1_D_BITS'', 1)] [],
   C0_Field ''ENTRYLO1_V'' [(''ENTRYLO1_V_MASK'', 2)] [(''ENTRYLO1_V_SHIFT'', 1)]
     [(''ENTRYLO1_V_BITS'', 1)] [],
   C0_Field ''ENTRYLO1_G'' [(''ENTRYLO1_G_MASK'', 1)] [(''ENTRYLO1_G_SHIFT'', 0)]
     [(''ENTRYLO1_G_BITS'', 1)] []]"

definition exception_codes :: "c0_macro list" where
  "exception_codes = [
     (''EXC_INTR'', 0), (''EXC_MOD'', 1), (''EXC_TLBL'', 2), (''EXC_TLBS'', 3),
     (''EXC_ADEL'', 4), (''EXC_ADES'', 5), (''EXC_IBE'', 6), (''EXC_DBE'', 7),
     (''EXC_SYS'', 8), (''EXC_BP'', 9), (''EXC_RI'', 10), (''EXC_CPU'', 11),
     (''EXC_OVF'', 12), (''EXC_TRAP'', 13), (''EXC_MSAFPE'', 14), (''EXC_FPE'', 15),
     (''EXC_IS1'', 16), (''EXC_IS2'', 17), (''EXC_C2E'', 18), (''EXC_TLBRI'', 19),
     (''EXC_TLBXI'', 20), (''EXC_MSAU'', 21), (''EXC_MDMX'', 22), (''EXC_WATCH'', 23),
     (''EXC_MCHECK'', 24), (''EXC_THREAD'', 25), (''EXC_DSPU'', 26), (''EXC_RES27'', 27),
     (''EXC_RES28'', 28), (''EXC_RES29'', 29), (''EXC_RES30'', 30), (''EXC_RES31'', 31)]"

definition cache_modes :: "c0_macro list" where
  "cache_modes = [
     (''CFG_CBITS'', 3), (''CFG_C_UNCACHED'', 2), (''CFG_C_WBACK'', 3),
     (''CFG_C_NONCOHERENT'', 3)]"

definition cache_states :: "c0_macro list" where
  "cache_states = [
     (''PSTATE_INVAL'', 0), (''PSTATE_SHARED'', 1), (''PSTATE_CLEAN_EXCL'', 2),
     (''PSTATE_DIRTY_EXCL'', 3)]"

definition cache_ops :: "c0_macro list" where
  "cache_ops = [
     (''Index_Invalidate_I'', 0x0), (''Index_Writeback_Inv_D'', 0x1),
     (''Index_Writeback_Inv_T'', 0x2), (''Index_Writeback_Inv_S'', 0x3),
     (''Index_Load_Tag_I'', 0x4), (''Index_Load_Tag_D'', 0x5), (''Index_Load_Tag_T'', 0x6),
     (''Index_Load_Tag_S'', 0x7), (''Index_Store_Tag_I'', 0x8),
     (''Index_Store_Tag_D'', 0x9), (''Index_Store_Tag_T'', 0xA),
     (''Index_Store_Tag_S'', 0xB), (''Hit_Invalidate_I'', 0x10),
     (''Hit_Invalidate_D'', 0x11), (''Hit_Invalidate_T'', 0x12),
     (''Hit_Invalidate_S'', 0x13), (''Fill_I'', 0x14), (''Hit_Writeback_Inv_D'', 0x15),
     (''Hit_Writeback_Inv_T'', 0x16), (''Hit_Writeback_Inv_S'', 0x17),
     (''Hit_Writeback_D'', 0x19), (''Hit_Writeback_T'', 0x1A), (''Hit_Writeback_S'', 0x1B),
     (''Fetch_Lock_I'', 0x1C), (''Fetch_Lock_D'', 0x1D), (''Fetch_Lock_S'', 0x1F)]"

definition prefetch_hints :: "c0_macro list" where
  "prefetch_hints = [
     (''PREF_LOAD'', 0), (''PREF_STORE'', 1), (''PREF_LOAD_STREAMED'', 4),
     (''PREF_STORE_STREAMED'', 5), (''PREF_LOAD_RETAINED'', 6),
     (''PREF_STORE_RETAINED'', 7), (''PREF_WRITEBACK_INVAL'', 25),
     (''PREF_PREPAREFORSTORE'', 30)]"

definition c_registers :: "c0_macro list" where
  "c_registers = [
     (''C0_INDEX'', 0), (''C0_INX'', 0), (''C0_RANDOM'', 1), (''C0_RAND'', 1),
     (''C0_ENTRYLO0'', 2), (''C0_TLBLO0'', 2), (''C0_ENTRYLO1'', 3), (''C0_TLBLO1'', 3),
     (''C0_GLOBAL'', 0x103), (''C0_CONTEXT'', 4), (''C0_CTXT'', 4),
     (''C0_CONTEXTCONF'', 0x104), (''C0_USERLOCAL'', 0x204), (''C0_XCONTEXTCONF'', 0x304),
     (''C0_DEBUGCTXTID'', 0x404), (''C0_PAGEMASK'', 5), (''C0_PAGEGRAIN'', 0x105),
     (''C0_SEGCTL0'', 0x205), (''C0_SEGCTL1'', 0x305), (''C0_SEGCTL2'', 0x405),
     (''C0_PWBASE'', 0x505), (''C0_PWFIELD'', 0x605), (''C0_PWSIZE'', 0x705),
     (''C0_WIRED'', 6), (''C0_PWCTL'', 0x606), (''C0_HWRENA'', 7), (''C0_BADVADDR'', 8),
     (''C0_VADDR'', 8), (''C0_BADINSTR'', 0x108), (''C0_BADINSTRP'', 0x208),
     (''C0_COUNT'', 9), (''C0_ENTRYHI'', 10), (''C0_TLBHI'', 10), (''C0_COMPARE'', 11),
     (''C0_STATUS'', 12), (''C0_SR'', 12), (''C0_INTCTL'', 0x10C), (''C0_SRSCTL'', 0x20C),
     (''C0_SRSMAP'', 0x30C), (''C0_CAUSE'', 13), (''C0_CR'', 13),
     (''C0_NESTEDEXC'', 0x50D), (''C0_EPC'', 14), (''C0_NEPC'', 0x20E), (''C0_PRID'', 15),
     (''C0_EBASE'', 0x10F), (''C0_CDMMBASE'', 0x20F), (''C0_CMGCRBASE'', 0x30F),
     (''C0_BEVVA'', 0x40F), (''C0_CONFIG'', 16), (''C0_CONFIG0'', 16),
     (''C0_CONFIG1'', 0x110), (''C0_CONFIG2'', 0x210), (''C0_CONFIG3'', 0x310),
     (''C0_CONFIG4'', 0x410), (''C0_CONFIG5'', 0x510), (''C0_LLADDR'', 17),
     (''C0_MAAR'', 0x111), (''C0_MAARI'', 0x111), (''C0_WATCHLO'', 18),
     (''C0_WATCHHI'', 19), (''C0_XCONTEXT'', 20), (''C0_DEBUG'', 23),
     (''C0_DEBUG2'', 0x617), (''C0_DEPC'', 24), (''C0_PERFCNT'', 25), (''C0_ERRCTL'', 26),
     (''C0_CACHEERR'', 27), (''C0_TAGLO'', 28), (''C0_ITAGLO'', 28),
     (''C0_DTAGLO'', 0x21C), (''C0_TAGLO2'', 0x41C), (''C0_DATALO'', 0x11C),
     (''C0_IDATALO'', 0x11C), (''C0_DDATALO'', 0x31C), (''C0_DATALO2'', 0x51C),
     (''C0_TAGHI'', 29), (''C0_ITAGHI'', 29), (''C0_DTAGHI'', 0x21D),
     (''C0_DATAHI'', 0x11D), (''C0_IDATAHI'', 0x11D), (''C0_DDATAHI'', 0x31D),
     (''C0_ERRPC'', 30), (''C0_DESAVE'', 31), (''C0_KSCRATCH1'', 0x21F),
     (''C0_KSCRATCH2'', 0x31F), (''C0_KSCRATCH3'', 0x41F), (''C0_KSCRATCH4'', 0x51F),
     (''C0_KSCRATCH5'', 0x61F), (''C0_KSCRATCH6'', 0x71F)]"

definition asm_registers :: "(string \<times> nat \<times> nat) list" where
  "asm_registers = [
     (''C0_INDEX'', (0, 0)), (''C0_INX'', (0, 0)), (''C0_RANDOM'', (1, 0)),
     (''C0_RAND'', (1, 0)), (''C0_ENTRYLO0'', (2, 0)), (''C0_TLBLO0'', (2, 0)),
     (''C0_ENTRYLO1'', (3, 0)), (''C0_TLBLO1'', (3, 0)), (''C0_GLOBAL'', (3, 1)),
     (''C0_CONTEXT'', (4, 0)), (''C0_CTXT'', (4, 0)), (''C0_CONTEXTCONF'', (4, 1)),
     (''C0_USERLOCAL'', (4, 2)), (''C0_XCONTEXTCONF'', (4, 3)),
     (''C0_DEBUGCTXTID'', (4, 4)), (''C0_PAGEMASK'', (5, 0)), (''C0_PAGEGRAIN'', (5, 1)),
     (''C0_SEGCTL0'', (5, 2)), (''C0_SEGCTL1'', (5, 3)), (''C0_SEGCTL2'', (5, 4)),
     (''C0_PWBASE'', (5, 5)), (''C0_PWFIELD'', (5, 6)), (''C0_PWSIZE'', (5, 7)),
     (''C0_WIRED'', (6, 0)), (''C0_PWCTL'', (6, 6)), (''C0_HWRENA'', (7, 0)),
     (''C0_BADVADDR'', (8, 0)), (''C0_VADDR'', (8, 0)), (''C0_BADINSTR'', (8, 1)),
     (''C0_BADPINSTR'', (8, 2)), (''C0_COUNT'', (9, 0)), (''C0_ENTRYHI'', (10, 0)),
     (''C0_TLBHI'', (10, 0)), (''C0_COMPARE'', (11, 0)), (''C0_STATUS'', (12, 0)),
     (''C0_SR'', (12, 0)), (''C0_INTCTL'', (12, 1)), (''C0_SRSCTL'', (12, 2)),
     (''C0_SRSMAP'', (12, 3)), (''C0_CAUSE'', (13, 0)), (''C0_CR'', (13, 0)),
     (''C0_NESTEDEXC'', (13, 5)), (''C0_EPC'', (14, 0)), (''C0_NEPC'', (14, 2)),
     (''C0_PRID'', (15, 0)), (''C0_EBASE'', (15, 1)), (''C0_CDMMBASE'', (15, 2)),
     (''C0_CMGCRBASE'', (15, 3)), (''C0_BEVVA'', (15, 4)), (''C0_CONFIG'', (16, 0)),
     (''C0_CONFIG0'', (16, 0)), (''C0_CONFIG1'', (16, 1)), (''C0_CONFIG2'', (16, 2)),
     (''C0_CONFIG3'', (16, 3)), (''C0_CONFIG4'', (16, 4)), (''C0_CONFIG5'', (16, 5)),
     (''C0_LLADDR'', (17, 0)), (''C0_MAAR'', (17, 1)), (''C0_MAARI'', (17, 2)),
     (''C0_WATCHLO'', (18, 0)), (''C0_WATCHHI'', (19, 0)), (''C0_XCONTEXT'', (20, 0)),
     (''C0_DEBUG'', (23, 0)), (''C0_DEBUG2'', (23, 6)), (''C0_DEPC'', (24, 0)),
     (''C0_PERFCNT'', (25, 0)), (''C0_ERRCTL'', (26, 0)), (''C0_CACHEERR'', (27, 0)),
     (''C0_TAGLO'', (28, 0)), (''C0_ITAGLO'', (28, 0)), (''C0_DTAGLO'', (28, 2)),
     (''C0_TAGLO2'', (28, 4)), (''C0_DATALO'', (28, 1)), (''C0_IDATALO'', (28, 1)),
     (''C0_DDATALO'', (28, 3)), (''C0_DATALO2'', (28, 5)), (''C0_TAGHI'', (29, 0)),
     (''C0_ITAGHI'', (29, 0)), (''C0_DTAGHI'', (29, 2)), (''C0_DATAHI'', (29, 1)),
     (''C0_IDATAHI'', (29, 1)), (''C0_DDATAHI'', (29, 3)), (''C0_ERRPC'', (30, 0)),
     (''C0_DESAVE'', (31, 0)), (''C0_KSCRATCH1'', (31, 2)), (''C0_KSCRATCH2'', (31, 3)),
     (''C0_KSCRATCH3'', (31, 4)), (''C0_KSCRATCH4'', (31, 5)), (''C0_KSCRATCH5'', (31, 6)),
     (''C0_KSCRATCH6'', (31, 7))]"

definition asm_names :: "(string \<times> nat) list" where
  "asm_names = [
     (''$index'', 0), (''$random'', 1), (''$entrylo0'', 2), (''$entrylo1'', 3),
     (''$context'', 4), (''$pagemask'', 5), (''$wired'', 6), (''$hwrena'', 7),
     (''$vaddr'', 8), (''$badvaddr'', 8), (''$count'', 9), (''$entryhi'', 10),
     (''$compare'', 11), (''$sr'', 12), (''$cr'', 13), (''$epc'', 14), (''$prid'', 15),
     (''$config'', 16), (''$lladdr'', 17), (''$watchlo'', 18), (''$watchhi'', 19),
     (''$debug'', 23), (''$depc'', 24), (''$perfcnt'', 25), (''$errctl'', 26),
     (''$cacheerr'', 27), (''$taglo'', 28), (''$taghi'', 29), (''$errpc'', 30),
     (''$desave'', 31)]"

definition config_accessors :: "(string \<times> c0_op \<times> c0_arg) list" where
  "config_accessors = [
     (''mips32_getconfig0'', Get, Reg ''C0_CONFIG0''),
     (''mips32_setconfig0'', Set, Reg ''C0_CONFIG0''),
     (''mips32_xchconfig0'', Xch, Reg ''C0_CONFIG0''),
     (''mips32_bicconfig0'', Bic, Reg ''C0_CONFIG0''),
     (''mips32_bisconfig0'', Bis, Reg ''C0_CONFIG0''),
     (''mips32_bcsconfig0'', Bcs, Reg ''C0_CONFIG0''),
     (''mips32_getconfig1'', Get, Reg ''C0_CONFIG1''),
     (''mips32_setconfig1'', Set, Reg ''C0_CONFIG1''),
     (''mips32_xchconfig1'', Xch, Reg ''C0_CONFIG1''),
     (''mips32_bicconfig1'', Bic, Reg ''C0_CONFIG1''),
     (''mips32_bisconfig1'', Bis, Reg ''C0_CONFIG1''),
     (''mips32_bcsconfig1'', Bcs, Reg ''C0_CONFIG1''),
     (''mips32_getconfig2'', Get, Reg ''C0_CONFIG2''),
     (''mips32_setconfig2'', Set, Reg ''C0_CONFIG2''),
     (''mips32_xchconfig2'', Xch, Reg ''C0_CONFIG2''),
     (''mips32_bicconfig2'', Bic, Reg ''C0_CONFIG2''),
     (''mips32_bisconfig2'', Bis, Reg ''C0_CONFIG2''),
     (''mips32_bcsconfig2'', Bcs, Reg ''C0_CONFIG2''),
     (''mips32_getconfig3'', Get, Reg ''C0_CONFIG3''),
     (''mips32_setconfig3'', Set, Reg ''C0_CONFIG3''),
     (''mips32_xchconfig3'', Xch, Reg ''C0_CONFIG3''),
     (''mips32_bicconfig3'', Bic, Reg ''C0_CONFIG3''),
     (''mips32_bisconfig3'', Bis, Reg ''C0_CONFIG3''),
     (''mips32_bcsconfig3'', Bcs, Reg ''C0_CONFIG3''),
     (''mips32_getconfig4'', Get, Reg ''C0_CONFIG4''),
     (''mips32_setconfig4'', Set, Reg ''C0_CONFIG4''),
     (''mips32_xchconfig4'', Xch, Reg ''C0_CONFIG4''),
     (''mips32_bicconfig4'', Bic, Reg ''C0_CONFIG4''),
     (''mips32_bisconfig4'', Bis, Reg ''C0_CONFIG4''),
     (''mips32_bcsconfig4'', Bcs, Reg ''C0_CONFIG4''),
     (''mips32_getconfig5'', Get, Reg ''C0_CONFIG5''),
     (''mips32_setconfig5'', Set, Reg ''C0_CONFIG5''),
     (''mips32_xchconfig5'', Xch, Reg ''C0_CONFIG5''),
     (''mips32_bicconfig5'', Bic, Reg ''C0_CONFIG5''),
     (''mips32_bisconfig5'', Bis, Reg ''C0_CONFIG5''),
     (''mips32_bcsconfig5'', Bcs, Reg ''C0_CONFIG5''),
     (''mips32_getdebug'', Get, Reg ''C0_DEBUG''),
     (''mips32_setdebug'', Set, Reg ''C0_DEBUG''),
     (''mips32_xchdebug'', Xch, Reg ''C0_DEBUG''),
     (''mips32_bicdebug'', Bic, Reg ''C0_DEBUG''),
     (''mips32_bisdebug'', Bis, Reg ''C0_DEBUG''),
     (''mips32_bcsdebug'', Bcs, Reg ''C0_DEBUG''),
     (''mips32_geterrctl'', Get, Reg ''C0_ERRCTL''),
     (''mips32_seterrctl'', Set, Reg ''C0_ERRCTL''),
     (''mips32_xcherrctl'', Xch, Reg ''C0_ERRCTL''),
     (''mips32_bicerrctl'', Bic, Reg ''C0_ERRCTL''),
     (''mips32_biserrctl'', Bis, Reg ''C0_ERRCTL''),
     (''mips32_bcserrctl'', Bcs, Reg ''C0_ERRCTL'')]"

definition cache_accessors :: "(string \<times> c0_op \<times> c0_arg) list" where
  "cache_accessors = [
     (''mips32_getitaglo'', Get, Reg ''C0_TAGLO''),
     (''mips32_setitaglo'', Set, Reg ''C0_TAGLO''),
     (''mips32_xchitaglo'', Xch, Reg ''C0_TAGLO''),
     (''mips32_getdtaglo'', Get, Regname ''C0_TAGLO'' 2),
     (''mips32_setdtaglo'', Set, Regname ''C0_TAGLO'' 2),
     (''mips32_xchdtaglo'', Xch, Regname ''C0_TAGLO'' 2),
     (''mips32_gettaglo2'', Get, Regname ''C0_TAGLO'' 4),
     (''mips32_settaglo2'', Set, Regname ''C0_TAGLO'' 4),
     (''mips32_xchtaglo2'', Xch, Regname ''C0_TAGLO'' 4),
     (''mips32_getdatalo'', Get, Regname ''C0_TAGLO'' 1),
     (''mips32_setdatalo'', Set, Regname ''C0_TAGLO'' 1),
     (''mips32_xchdatalo'', Xch, Regname ''C0_TAGLO'' 1),
     (''mips32_getidatalo'', Get, Regname ''C0_TAGLO'' 1),
     (''mips32_setidatalo'', Set, Regname ''C0_TAGLO'' 1),
     (''mips32_xchidatalo'', Xch, Regname ''C0_TAGLO'' 1),
     (''mips32_getddatalo'', Get, Regname ''C0_TAGLO'' 3),
     (''mips32_setddatalo'', Set, Regname ''C0_TAGLO'' 3),
     (''mips32_xchddatalo'', Xch, Regname ''C0_TAGLO'' 3),
     (''mips32_getdatalo2'', Get, Regname ''C0_TAGLO'' 5),
     (''mips32_setdatalo2'', Set, Regname ''C0_TAGLO'' 5),
     (''mips32_xchdatalo2'', Xch, Regname ''C0_TAGLO'' 5)]"

definition system_accessors :: "(string \<times> c0_op \<times> c0_arg) list" where
  "system_accessors = [
     (''mips32_getintctl'', Get, Reg ''C0_INTCTL''),
     (''mips32_setintctl'', Set, Reg ''C0_INTCTL''),
     (''mips32_xchintctl'', Xch, Reg ''C0_INTCTL''),
     (''mips32_getsrsctl'', Get, Reg ''C0_SRSCTL''),
     (''mips32_setsrsctl'', Set, Reg ''C0_SRSCTL''),
     (''mips32_xchsrsctl'', Xch, Reg ''C0_SRSCTL''),
     (''mips32_getsrsmapl'', Get, Reg ''C0_SRSMAP''),
     (''mips32_setsrsmap'', Set, Reg ''C0_SRSMAP''),
     (''mips32_xchsrsmap'', Xch, Reg ''C0_SRSMAP''),
     (''mips32_getpagegrain'', Get, Reg ''C0_PAGEGRAIN''),
     (''mips32_setpagegrain'', Set, Reg ''C0_PAGEGRAIN''),
     (''mips32_xchpagegrain'', Xch, Reg ''C0_PAGEGRAIN''),
     (''mips32_gethwrena'', Get, Reg ''C0_HWRENA''),
     (''mips32_sethwrena'', Set, Reg ''C0_HWRENA''),
     (''mips32_xchhwrena'', Xch, Reg ''C0_HWRENA''),
     (''mips32_bichwrena'', Bic, Reg ''C0_HWRENA''),
     (''mips32_bishwrena'', Bis, Reg ''C0_HWRENA''),
     (''mips32_bcshwrena'', Bcs, Reg ''C0_HWRENA''),
     (''mips32_getebase'', Get, Reg ''C0_EBASE''),
     (''mips32_setebase'', Set, Reg ''C0_EBASE''),
     (''mips32_xchebase'', Xch, Reg ''C0_EBASE''), (''mips32_getsr'', Get, Reg ''C0_SR''),
     (''mips32_setsr'', Set, Reg ''C0_SR''), (''mips32_xchsr'', Xch, Reg ''C0_SR''),
     (''mips32_bicsr'', Bic, Reg ''C0_SR''), (''mips32_bissr'', Bis, Reg ''C0_SR''),
     (''mips32_bcssr'', Bcs, Reg ''C0_SR''), (''mips32_getcr'', Get, Reg ''C0_CR''),
     (''mips32_setcr'', Set, Reg ''C0_CR''), (''mips32_xchcr'', Xch, Reg ''C0_CR''),
     (''mips32_biccr'', Bic, Reg ''C0_CR''), (''mips32_biscr'', Bis, Reg ''C0_CR''),
     (''mips32_bcscr'', Bcs, Reg ''C0_CR''), (''mips32_getprid'', Get, Reg ''C0_PRID''),
     (''mips32_getcount'', Get, Reg ''C0_COUNT''),
     (''mips32_setcount'', Set, Reg ''C0_COUNT''),
     (''mips32_xchcount'', Xch, Reg ''C0_COUNT''),
     (''mips32_getcompare'', Get, Reg ''C0_COMPARE''),
     (''mips32_setcompare'', Set, Reg ''C0_COMPARE''),
     (''mips32_xchcompare'', Xch, Reg ''C0_COMPARE''),
     (''mips32_getconfig'', Get, Reg ''C0_CONFIG''),
     (''mips32_setconfig'', Set, Reg ''C0_CONFIG''),
     (''mips32_xchconfig'', Xch, Reg ''C0_CONFIG''),
     (''mips32_bicconfig'', Bic, Reg ''C0_CONFIG''),
     (''mips32_bisconfig'', Bis, Reg ''C0_CONFIG''),
     (''mips32_bcsconfig'', Bcs, Reg ''C0_CONFIG'')]"

definition watch_accessors :: "(string \<times> c0_op \<times> c0_arg) list" where
  "watch_accessors = [
     (''mips32_gettaghi'', Get, Reg ''C0_TAGHI''), (''mips32_settaghi'', Set, Reg ''C0_TAGHI''),
     (''mips32_xchtaghi'', Xch, Reg ''C0_TAGHI''),
     (''mips32_getwatchlo'', Get, Reg ''C0_WATCHLO''),
     (''mips32_setwatchlo'', Set, Reg ''C0_WATCHLO''),
     (''mips32_xchwatchlo'', Xch, Reg ''C0_WATCHLO''),
     (''mips32_getwatchhi'', Get, Reg ''C0_WATCHHI''),
     (''mips32_setwatchhi'', Set, Reg ''C0_WATCHHI''),
     (''mips32_xchwatchhi'', Xch, Reg ''C0_WATCHHI'')]"

section \<open>The general registers (regdef.h) and the older names (cp0regdef.h)\<close>

definition regdef :: "(string \<times> nat) list" where
  "regdef = [
     (''zero'', 0), (''AT'', 1), (''v0'', 2), (''v1'', 3), (''a0'', 4), (''a1'', 5),
     (''a2'', 6), (''a3'', 7), (''t0'', 8), (''t1'', 9), (''t2'', 10), (''t3'', 11),
     (''t4'', 12), (''t5'', 13), (''t6'', 14), (''t7'', 15), (''s0'', 16), (''s1'', 17),
     (''s2'', 18), (''s3'', 19), (''s4'', 20), (''s5'', 21), (''s6'', 22), (''s7'', 23),
     (''t8'', 24), (''t9'', 25), (''jp'', 25), (''k0'', 26), (''k1'', 27), (''gp'', 28),
     (''sp'', 29), (''fp'', 30), (''s8'', 30), (''ra'', 31)]"

definition cp0regdef :: "(string \<times> nat) list" where
  "cp0regdef = [
     (''CP0_INDEX'', 0), (''CP0_RANDOM'', 1), (''CP0_ENTRYLO0'', 2), (''CP0_ENTRYLO1'', 3),
     (''CP0_CONTEXT'', 4), (''CP0_PAGEMASK'', 5), (''CP0_WIRED'', 6),
     (''CP0_BADVADDR'', 8), (''CP0_COUNT'', 9), (''CP0_ENTRYHI'', 10),
     (''CP0_COMPARE'', 11), (''CP0_STATUS'', 12), (''CP0_CAUSE'', 13), (''CP0_EPC'', 14),
     (''CP0_PRID'', 15), (''CP0_CONFIG'', 16), (''CP0_LLADDR'', 17), (''CP0_WATCHLO'', 18),
     (''CP0_WATCHHI'', 19), (''CP0_XCONTEXT'', 20), (''CP0_FRAMEMASK'', 21),
     (''CP0_DIAGNOSTIC'', 22), (''CP0_PERFORMANCE'', 25), (''CP0_ECC'', 26),
     (''CP0_CACHEERR'', 27), (''CP0_TAGLO'', 28), (''CP0_TAGHI'', 29),
     (''CP0_ERROREPC'', 30)]"

end
