(* ===== verification/Cp0.thy ===== *)
theory Cp0
  imports Cp0_Regs
begin

text \<open>
  The coprocessor 0 access macros of \<open>m32c0.h\<close>, in both families (packed register names, and
  register and select apart), and what the tables promise about them.

  A register file maps a register and its select to a word. What a register does with a word
  written to it (read-only bits, self-clearing bits) is the hardware's: the argument
  \<open>hw (reg, sel) old new\<close> is the word it holds afterwards.
\<close>

type_synonym cp0 = "nat \<times> nat \<Rightarrow> u32"
type_synonym cp0_hw = "nat \<times> nat \<Rightarrow> u32 \<Rightarrow> u32 \<Rightarrow> u32"

section \<open>Register and select apart\<close>

definition m32c0_mfc0 :: "nat \<Rightarrow> nat \<Rightarrow> cp0 \<Rightarrow> u32" where
  "m32c0_mfc0 reg sel c = c (reg, sel)"

definition m32c0_mtc0 :: "cp0_hw \<Rightarrow> nat \<Rightarrow> nat \<Rightarrow> u32 \<Rightarrow> cp0 \<Rightarrow> cp0" where
  "m32c0_mtc0 hw reg sel val c = c((reg, sel) := hw (reg, sel) (c (reg, sel)) val)"

definition m32c0_mxc0 :: "cp0_hw \<Rightarrow> nat \<Rightarrow> nat \<Rightarrow> u32 \<Rightarrow> cp0 \<Rightarrow> u32 \<times> cp0" where
  "m32c0_mxc0 hw reg sel val c =
     (let r = m32c0_mfc0 reg sel c in (r, m32c0_mtc0 hw reg sel val c))"

definition m32c0_bcc0 :: "cp0_hw \<Rightarrow> nat \<Rightarrow> nat \<Rightarrow> u32 \<Rightarrow> cp0 \<Rightarrow> u32 \<times> cp0" where
  "m32c0_bcc0 hw reg sel clr c =
     (let r = m32c0_mfc0 reg sel c in (r, m32c0_mtc0 hw reg sel (r AND NOT clr) c))"

definition m32c0_bsc0 :: "cp0_hw \<Rightarrow> nat \<Rightarrow> nat \<Rightarrow> u32 \<Rightarrow> cp0 \<Rightarrow> u32 \<times> cp0" where
  "m32c0_bsc0 hw reg sel setb c =
     (let r = m32c0_mfc0 reg sel c in (r, m32c0_mtc0 hw reg sel (r OR setb) c))"

definition m32c0_bcsc0 :: "cp0_hw \<Rightarrow> nat \<Rightarrow> nat \<Rightarrow> u32 \<Rightarrow> u32 \<Rightarrow> cp0 \<Rightarrow> u32 \<times> cp0" where
  "m32c0_bcsc0 hw reg sel clr setb c =
     (let r = m32c0_mfc0 reg sel c in (r, m32c0_mtc0 hw reg sel ((r AND NOT clr) OR setb) c))"

section \<open>Packed register names\<close>

definition c0_reg :: "nat \<Rightarrow> nat \<times> nat" where
  "c0_reg selreg = (selreg AND 0x1F, drop_bit 8 selreg)"

definition mips32_get_c0 :: "nat \<Rightarrow> cp0 \<Rightarrow> u32" where
  "mips32_get_c0 selreg c = c (c0_reg selreg)"

definition mips32_set_c0 :: "cp0_hw \<Rightarrow> nat \<Rightarrow> u32 \<Rightarrow> cp0 \<Rightarrow> cp0" where
  "mips32_set_c0 hw selreg val c =
     (let r = c0_reg selreg in c(r := hw r (c r) val))"

definition mips32_xch_c0 :: "cp0_hw \<Rightarrow> nat \<Rightarrow> u32 \<Rightarrow> cp0 \<Rightarrow> u32 \<times> cp0" where
  "mips32_xch_c0 hw selreg val c =
     (let r = mips32_get_c0 selreg c in (r, mips32_set_c0 hw selreg val c))"

definition mips32_bc_c0 :: "cp0_hw \<Rightarrow> nat \<Rightarrow> u32 \<Rightarrow> cp0 \<Rightarrow> u32 \<times> cp0" where
  "mips32_bc_c0 hw selreg clr c =
     (let r = mips32_get_c0 selreg c in (r, mips32_set_c0 hw selreg (r AND NOT clr) c))"

definition mips32_bs_c0 :: "cp0_hw \<Rightarrow> nat \<Rightarrow> u32 \<Rightarrow> cp0 \<Rightarrow> u32 \<times> cp0" where
  "mips32_bs_c0 hw selreg setb c =
     (let r = mips32_get_c0 selreg c in (r, mips32_set_c0 hw selreg (r OR setb) c))"

definition mips32_bcs_c0 :: "cp0_hw \<Rightarrow> nat \<Rightarrow> u32 \<Rightarrow> u32 \<Rightarrow> cp0 \<Rightarrow> u32 \<times> cp0" where
  "mips32_bcs_c0 hw selreg clr setb c =
     (let r = mips32_get_c0 selreg c
      in (r, mips32_set_c0 hw selreg ((r AND NOT clr) OR setb) c))"

text \<open>The per-register macros: an operation at a fixed register, with up to two arguments.\<close>

definition c0_select :: "c0_arg \<Rightarrow> nat option" where
  "c0_select a = (case a of
     Reg n \<Rightarrow> map_option nat (map_of c_registers n)
   | Regname n sel \<Rightarrow> map_option (\<lambda>r. MIPS_C0_REGNAME (nat r) sel) (map_of c_registers n))"

definition c0_access :: "cp0_hw \<Rightarrow> c0_op \<Rightarrow> nat \<Rightarrow> u32 \<Rightarrow> u32 \<Rightarrow> cp0 \<Rightarrow> u32 option \<times> cp0" where
  "c0_access hw oper selreg a b c = (case oper of
     Get \<Rightarrow> (Some (mips32_get_c0 selreg c), c)
   | Set \<Rightarrow> (None, mips32_set_c0 hw selreg a c)
   | Xch \<Rightarrow> apfst Some (mips32_xch_c0 hw selreg a c)
   | Bic \<Rightarrow> apfst Some (mips32_bc_c0 hw selreg a c)
   | Bis \<Rightarrow> apfst Some (mips32_bs_c0 hw selreg a c)
   | Bcs \<Rightarrow> apfst Some (mips32_bcs_c0 hw selreg a b c))"

text \<open>The atomic interrupt disable: the \<open>di\<close> instruction returns Status and clears its IE bit.\<close>

definition mips_intdisable :: "cp0 \<Rightarrow> u32 \<times> cp0" where
  "mips_intdisable c = (c (12, 0), c((12, 0) := c (12, 0) AND NOT 1))"

lemmas m32c0_defs [cdefs] = m32c0_mfc0_def m32c0_mtc0_def m32c0_mxc0_def m32c0_bcc0_def
  m32c0_bsc0_def m32c0_bcsc0_def
lemmas mips32_c0_defs [cdefs] = mips32_get_c0_def mips32_set_c0_def mips32_xch_c0_def
  mips32_bc_c0_def mips32_bs_c0_def mips32_bcs_c0_def

end
