(* ===== verification/Cp0_Correct.thy ===== *)
theory Cp0_Correct
  imports Cp0
begin

text \<open>
  Which of the tables' fields are consistent, which access macros name the register they touch,
  and what updating a field through the access macros does to the register.
\<close>

section \<open>Consistent fields\<close>

text \<open>
  The masks of a field are one value, its shifts are one value, the mask is the field's width
  moved by the shift (or, with no width given, has its lowest bit at the shift), and every value
  lies in the mask.
\<close>

definition same_values :: "c0_macro list \<Rightarrow> bool" where
  "same_values ms = (case ms of [] \<Rightarrow> True | m # r \<Rightarrow> list_all (\<lambda>x. snd x = snd m) r)"

definition shape_ok :: "int \<Rightarrow> c0_macro list \<Rightarrow> c0_macro list \<Rightarrow> bool" where
  "shape_ok m ss bs = (case ss of
     [] \<Rightarrow> bs = []
   | (_, s) # _ \<Rightarrow> (case bs of
        [] \<Rightarrow> odd (m div 2 ^ nat s) \<and> m mod 2 ^ nat s = 0
      | (_, b) # _ \<Rightarrow> m = (2 ^ nat b - 1) * 2 ^ nat s))"

definition field_ok :: "c0_field \<Rightarrow> bool" where
  "field_ok f = (case fmasks f of
     [] \<Rightarrow> False
   | (_, m) # _ \<Rightarrow> same_values (fmasks f) \<and> same_values (fshifts f) \<and> same_values (fbits f) \<and>
       shape_ok m (fshifts f) (fbits f) \<and> list_all (\<lambda>v. snd v AND m = snd v) (fvals f))"

definition broken_fields :: "c0_field list \<Rightarrow> string list" where
  "broken_fields fs = map fname (filter (\<lambda>f. \<not> field_ok f) fs)"

definition c0_fields :: "c0_field list list" where
  "c0_fields = [cause_fields, status_fields, vpcontrol_fields, hwrena_fields, intctl_fields,
     srsctl_fields, bevva_fields, config0_fields, config1_fields, config2_fields, config3_fields,
     config4_fields, config5_fields, taglo_fields, watchlo_fields, watchhi_fields,
     perfcnt_fields, pagegrain_fields, ebase_fields, entryhi_fields, entrylo0_fields,
     entrylo1_fields]"


definition upcase :: "char \<Rightarrow> char" where
  "upcase c = (case c of Char b0 b1 b2 b3 b4 b5 b6 b7 \<Rightarrow> Char b0 b1 b2 b3 b4 (b5 \<and> \<not> b6) b6 b7)"

definition op_prefix :: "c0_op \<Rightarrow> string" where
  "op_prefix p = (case p of Get \<Rightarrow> ''get'' | Set \<Rightarrow> ''set'' | Xch \<Rightarrow> ''xch'' | Bic \<Rightarrow> ''bic''
     | Bis \<Rightarrow> ''bis'' | Bcs \<Rightarrow> ''bcs'')"

definition c0_accessors :: "(string \<times> c0_op \<times> c0_arg) list" where
  "c0_accessors = config_accessors @ cache_accessors @ system_accessors @ watch_accessors"

text \<open>
  An access macro is named after its operation and the register it touches: its register argument
  is the name it ends in, or packs to the same number.
\<close>

definition accessor_ok :: "string \<times> c0_op \<times> c0_arg \<Rightarrow> bool" where
  "accessor_ok a = (case a of (n, p, r) \<Rightarrow>
     if take 10 n = ''mips32_'' @ op_prefix p
     then let reg = ''C0_'' @ map upcase (drop 10 n)
          in if r = Reg reg then True
             else case map_of c_registers reg of None \<Rightarrow> False | Some v \<Rightarrow> c0_select r = Some (nat v)
     else False)"

lemma accessors_named:
  "filter (Not \<circ> accessor_ok) config_accessors = []"
  "filter (Not \<circ> accessor_ok) cache_accessors = []"
  "filter (Not \<circ> accessor_ok) system_accessors = [(''mips32_getsrsmapl'', Get, Reg ''C0_SRSMAP'')]"
  "filter (Not \<circ> accessor_ok) watch_accessors = []"
  by code_simp+

section \<open>Updating a field\<close>

definition field_mask :: "c0_field \<Rightarrow> u32" where
  "field_mask f = of_int (snd (hd (fmasks f)))"

definition field_shift :: "c0_field \<Rightarrow> nat" where
  "field_shift f = nat (snd (hd (fshifts f)))"

definition field_width :: "c0_field \<Rightarrow> nat" where
  "field_width f = nat (snd (hd (fbits f)))"

text \<open>A field of a 32-bit register with a width: its mask is that many ones above the shift.\<close>

definition sized_field :: "c0_field \<Rightarrow> bool" where
  "sized_field f \<longleftrightarrow> field_ok f \<and> fshifts f \<noteq> [] \<and> fbits f \<noteq> [] \<and>
     field_shift f + field_width f \<le> 32"

lemma field_mask_ones:
  assumes "sized_field f"
  shows "field_mask f = push_bit (field_shift f) (mask (field_width f))"
proof -
  have "snd (hd (fmasks f)) = (2 ^ field_width f - 1) * 2 ^ field_shift f"
    using assms by (cases "fmasks f"; cases "fshifts f"; cases "fbits f")
      (auto simp: sized_field_def field_ok_def shape_ok_def field_shift_def field_width_def
        split: prod.splits)
  then show ?thesis
    by (simp add: field_mask_def push_bit_eq_mult mask_eq_exp_minus_1)
qed

lemma put_field:
  fixes r v :: u32
  assumes "sized_field f" "take_bit (field_width f) v = v"
  shows "drop_bit (field_shift f) ((r AND NOT (field_mask f) OR push_bit (field_shift f) v)
      AND field_mask f) = v" (is ?A)
    and "(r AND NOT (field_mask f) OR push_bit (field_shift f) v) AND NOT (field_mask f)
      = r AND NOT (field_mask f)" (is ?B)
proof -
  have vb: "bit v i \<Longrightarrow> i < field_width f" for i
    by (metis assms(2) bit_take_bit_iff)
  have le: "field_shift f + field_width f \<le> 32" using assms(1) by (simp add: sized_field_def)
  have vl: "bit v i \<Longrightarrow> field_shift f + i < 32" for i using vb[of i] le by linarith
  note m = field_mask_ones[OF assms(1)]
  show ?A
    using le by (auto intro!: bit_word_eqI simp: m bit_simps intro: vb vl)
  show ?B
    using vb by (auto intro!: bit_word_eqI simp: m bit_simps) 
qed

lemma mips32_bcs_field:
  assumes f: "sized_field f" and v: "take_bit (field_width f) v = v"
    and hw: "\<And>x y. hw (c0_reg sel) x y AND field_mask f = y AND field_mask f"
    and c': "mips32_bcs_c0 hw sel (field_mask f) (push_bit (field_shift f) v) c = (r, c')"
  shows "r = mips32_get_c0 sel c"
    "drop_bit (field_shift f) (mips32_get_c0 sel c' AND field_mask f) = v"
    "c0_reg sel \<noteq> q \<Longrightarrow> c' q = c q"
    "m AND field_mask f = 0 \<Longrightarrow> (\<And>x y. hw (c0_reg sel) x y AND m = y AND m) \<Longrightarrow>
       mips32_get_c0 sel c' AND m = mips32_get_c0 sel c AND m"
proof -
  show "r = mips32_get_c0 sel c" using c' by (simp add: mips32_bcs_c0_def Let_def)
  let ?new = "(c (c0_reg sel) AND NOT (field_mask f)) OR push_bit (field_shift f) v"
  have n: "mips32_get_c0 sel c' = hw (c0_reg sel) (c (c0_reg sel)) ?new"
    using c' by (auto simp: mips32_c0_defs Let_def)
  show "drop_bit (field_shift f) (mips32_get_c0 sel c' AND field_mask f) = v"
    by (simp only: n hw put_field(1)[OF f v])
  show "c0_reg sel \<noteq> q \<Longrightarrow> c' q = c q"
    using c' by (auto simp: mips32_c0_defs Let_def)
  assume m: "m AND field_mask f = 0" and hm: "\<And>x y. hw (c0_reg sel) x y AND m = y AND m"
  have "m AND NOT (field_mask f) = m"
    using m by (auto simp: bit_eq_iff bit_simps)
  then have "?new AND m = (?new AND NOT (field_mask f)) AND m"
    by (metis and.assoc and.commute)
  also have "\<dots> = c (c0_reg sel) AND m"
    using \<open>m AND NOT (field_mask f) = m\<close> by (metis put_field(2)[OF f v] and.assoc and.commute)
  finally show "mips32_get_c0 sel c' AND m = mips32_get_c0 sel c AND m"
    unfolding n hm by (simp add: mips32_get_c0_def)
qed

section \<open>The two families agree\<close>

lemma c0_reg_regname:
  assumes "reg < 32"
  shows "c0_reg (MIPS_C0_REGNAME reg sel) = (reg, sel)"
proof -
  have a: "reg < 2 ^ 5" using assms by simp
  have "(push_bit 8 sel + reg) AND 0x1F = take_bit 5 (push_bit 8 sel + reg)"
    by (simp add: take_bit_eq_mask mask_numeral)
  also have "\<dots> = take_bit 5 (take_bit 5 (push_bit 8 sel) + take_bit 5 reg)"
    by (simp only: take_bit_add)
  also have "\<dots> = reg" using a by (simp add: take_bit_push_bit take_bit_nat_eq_self)
  finally show ?thesis
    using assms by (simp add: c0_reg_def MIPS_C0_REGNAME_def drop_bit_eq_div push_bit_eq_mult)
qed

lemma c0_families:
  assumes "reg < 32"
  shows "mips32_get_c0 (MIPS_C0_REGNAME reg sel) = m32c0_mfc0 reg sel"
    "mips32_set_c0 hw (MIPS_C0_REGNAME reg sel) = m32c0_mtc0 hw reg sel"
    "mips32_xch_c0 hw (MIPS_C0_REGNAME reg sel) = m32c0_mxc0 hw reg sel"
    "mips32_bc_c0 hw (MIPS_C0_REGNAME reg sel) = m32c0_bcc0 hw reg sel"
    "mips32_bs_c0 hw (MIPS_C0_REGNAME reg sel) = m32c0_bsc0 hw reg sel"
    "mips32_bcs_c0 hw (MIPS_C0_REGNAME reg sel) = m32c0_bcsc0 hw reg sel"
  by (simp_all add: fun_eq_iff mips32_c0_defs m32c0_defs c0_reg_regname[OF assms] Let_def)

section \<open>The tables\<close>

lemma fields_checked:
  "map broken_fields c0_fields =
     [[], [], [''VPCONTROL''], [], [], [], [], [], [], [''CFG1_M''], [], [], [''CFG5_LUFE''],
      [], [], [], [], [], [], [''C0_ENTRYHI64_R'', ''C0_ENTRYHI_VPN2X''],
      [''ENTRYLO064_PFN'', ''ENTRYLO0_PFN''], [''ENTRYLO164_PFN'', ''ENTRYLO1_PFN'']]"
  by code_simp

text \<open>Where the assembler's register table and the C one, row by row, name different registers.\<close>

definition table_defects :: "((string \<times> nat \<times> nat) \<times> c0_macro) list" where
  "table_defects = filter (\<lambda>((n, r, s), (n', v)). n \<noteq> n' \<or> v \<noteq> int (MIPS_C0_REGNAME r s))
     (zip asm_registers c_registers)"

lemma tables_checked:
  "length asm_registers = length c_registers"
  "table_defects = [((''C0_BADPINSTR'', 8, 2), (''C0_BADINSTRP'', 0x208)),
     ((''C0_MAARI'', 17, 2), (''C0_MAARI'', 0x111))]"
  by code_simp+

text \<open>The old names of \<open>cp0regdef.h\<close> agree with the assembler's wherever both have the name.\<close>

definition renamed_registers :: "(string \<times> nat) list" where
  "renamed_registers = filter (\<lambda>(n, r). case map_of asm_registers (''C0_'' @ drop 4 n) of
     None \<Rightarrow> False | Some (r', s) \<Rightarrow> r' \<noteq> r \<or> s \<noteq> 0) cp0regdef"

lemma renamed_checked: "renamed_registers = []"
  by code_simp

text \<open>The pending-interrupt field of the Cause register, as a field to update.\<close>

definition pending_im :: c0_field where
  "pending_im = C0_Field ''CR_IP'' [(''CR_IP_MASK'', 0xFF00)] [(''CR_IP_SHIFT'', 8)] [(''CR_IP_BITS'', 8)] []"

lemma pending_im_in: "pending_im \<in> set cause_fields"
  by (simp add: pending_im_def cause_fields_def)

lemma pending_im_simps:
  "sized_field pending_im" "field_mask pending_im = 0xFF00" "field_shift pending_im = 8"
  "field_width pending_im = 8" "c0_reg 13 = (13, 0)"
  "take_bit 8 (5 :: u32) = 5" "take_bit 8 (0x1F :: u32) = 0x1F"
  "\<And>c. mips32_get_c0 13 c = c (13, 0)"
  "mips32_bcs_c0 (\<lambda>_ x y. y) 13 0xFF00 0x500 (\<lambda>_. 0xFFFFFFFF) =
     (0xFFFFFFFF, (\<lambda>_. 0xFFFFFFFF)((13, 0) := 0xFFFF05FF))"
  by (simp_all add: sized_field_def field_ok_def same_values_def shape_ok_def pending_im_def
      field_mask_def field_shift_def field_width_def mips32_c0_defs c0_reg_def Let_def)

end
