(* ===== verification/Rb_Heap.thy ===== *)
theory Rb_Heap
  imports Prelude "HOL-Library.Monad_Syntax"
begin

text \<open>
  The red-black trees of \<open>qemu-vga/include/tree.h\<close>: the fields of an \<open>RB_ENTRY\<close> as maps over the
  elements, the macros on them with the rotations, and what a heap represents: a tree, or a tree
  with the path from its root to a position in it. A pointer is an element or \<open>NULL\<close>; reading or
  writing a field through \<open>NULL\<close> has no outcome.
\<close>

section \<open>Entries\<close>

record 'e rbheap =
  rbe_left :: "'e \<Rightarrow> 'e option"
  rbe_right :: "'e \<Rightarrow> 'e option"
  rbe_parent :: "'e \<Rightarrow> 'e option"
  rbe_color :: "'e \<Rightarrow> int"
  rbh_root :: "'e option"

abbreviation (input) RB_BLACK :: int where "RB_BLACK \<equiv> 0"
abbreviation (input) RB_RED :: int where "RB_RED \<equiv> 1"

definition RB_INIT :: "'e rbheap \<Rightarrow> 'e rbheap" where
  "RB_INIT s = s\<lparr>rbh_root := None\<rparr>"

definition RB_LEFT :: "'e option \<Rightarrow> 'e rbheap \<Rightarrow> 'e option option" where
  "RB_LEFT p s = map_option (rbe_left s) p"

definition RB_RIGHT :: "'e option \<Rightarrow> 'e rbheap \<Rightarrow> 'e option option" where
  "RB_RIGHT p s = map_option (rbe_right s) p"

definition RB_PARENT :: "'e option \<Rightarrow> 'e rbheap \<Rightarrow> 'e option option" where
  "RB_PARENT p s = map_option (rbe_parent s) p"

definition RB_COLOR :: "'e option \<Rightarrow> 'e rbheap \<Rightarrow> int option" where
  "RB_COLOR p s = map_option (rbe_color s) p"

definition RB_ROOT :: "'e rbheap \<Rightarrow> 'e option" where
  "RB_ROOT s = rbh_root s"

definition RB_EMPTY :: "'e rbheap \<Rightarrow> bool" where
  "RB_EMPTY s \<longleftrightarrow> RB_ROOT s = None"

definition set_rbleft :: "'e option \<Rightarrow> 'e option \<Rightarrow> 'e rbheap \<Rightarrow> 'e rbheap option" where
  "set_rbleft p v s = map_option (\<lambda>e. s\<lparr>rbe_left := (rbe_left s)(e := v)\<rparr>) p"

definition set_rbright :: "'e option \<Rightarrow> 'e option \<Rightarrow> 'e rbheap \<Rightarrow> 'e rbheap option" where
  "set_rbright p v s = map_option (\<lambda>e. s\<lparr>rbe_right := (rbe_right s)(e := v)\<rparr>) p"

definition set_rbparent :: "'e option \<Rightarrow> 'e option \<Rightarrow> 'e rbheap \<Rightarrow> 'e rbheap option" where
  "set_rbparent p v s = map_option (\<lambda>e. s\<lparr>rbe_parent := (rbe_parent s)(e := v)\<rparr>) p"

definition set_rbcolor :: "'e option \<Rightarrow> int \<Rightarrow> 'e rbheap \<Rightarrow> 'e rbheap option" where
  "set_rbcolor p c s = map_option (\<lambda>e. s\<lparr>rbe_color := (rbe_color s)(e := c)\<rparr>) p"

definition set_rbroot :: "'e option \<Rightarrow> 'e rbheap \<Rightarrow> 'e rbheap" where
  "set_rbroot v s = s\<lparr>rbh_root := v\<rparr>"

lemma rb_access [simp]:
  "RB_LEFT (Some e) s = Some (rbe_left s e)" "RB_RIGHT (Some e) s = Some (rbe_right s e)"
  "RB_PARENT (Some e) s = Some (rbe_parent s e)" "RB_COLOR (Some e) s = Some (rbe_color s e)"
  "RB_ROOT s = rbh_root s"
  "set_rbleft (Some e) v s = Some (s\<lparr>rbe_left := (rbe_left s)(e := v)\<rparr>)"
  "set_rbright (Some e) v s = Some (s\<lparr>rbe_right := (rbe_right s)(e := v)\<rparr>)"
  "set_rbparent (Some e) v s = Some (s\<lparr>rbe_parent := (rbe_parent s)(e := v)\<rparr>)"
  "set_rbcolor (Some e) c s = Some (s\<lparr>rbe_color := (rbe_color s)(e := c)\<rparr>)"
  "set_rbroot v s = s\<lparr>rbh_root := v\<rparr>"
  by (simp_all add: RB_LEFT_def RB_RIGHT_def RB_PARENT_def RB_COLOR_def RB_ROOT_def set_rbleft_def
      set_rbright_def set_rbparent_def set_rbcolor_def set_rbroot_def)

definition RB_SET :: "'e option \<Rightarrow> 'e option \<Rightarrow> 'e rbheap \<Rightarrow> 'e rbheap option" where
  "RB_SET elm parent s = do {
     s \<leftarrow> set_rbparent elm parent s;
     s \<leftarrow> set_rbright elm None s;
     s \<leftarrow> set_rbleft elm None s;
     set_rbcolor elm RB_RED s }"

definition RB_SET_BLACKRED :: "'e option \<Rightarrow> 'e option \<Rightarrow> 'e rbheap \<Rightarrow> 'e rbheap option" where
  "RB_SET_BLACKRED black red s = do {
     s \<leftarrow> set_rbcolor black RB_BLACK s;
     set_rbcolor red RB_RED s }"

text \<open>
  The rotations return the element they move up, which the macros leave in \<open>tmp\<close>.
  \<open>RB_AUGMENT\<close> is empty.
\<close>

definition RB_ROTATE_LEFT :: "'e option \<Rightarrow> 'e rbheap \<Rightarrow> ('e option \<times> 'e rbheap) option" where
  "RB_ROTATE_LEFT elm s = do {
     tmp \<leftarrow> RB_RIGHT elm s;
     v \<leftarrow> RB_LEFT tmp s;
     s \<leftarrow> set_rbright elm v s;
     s \<leftarrow> (if v \<noteq> None then do { tl \<leftarrow> RB_LEFT tmp s; set_rbparent tl elm s } else Some s);
     p \<leftarrow> RB_PARENT elm s;
     s \<leftarrow> set_rbparent tmp p s;
     s \<leftarrow> (if p \<noteq> None then do {
             q \<leftarrow> RB_PARENT elm s;
             ql \<leftarrow> RB_LEFT q s;
             if elm = ql then set_rbleft q tmp s else set_rbright q tmp s }
           else Some (set_rbroot tmp s));
     s \<leftarrow> set_rbleft tmp elm s;
     s \<leftarrow> set_rbparent elm tmp s;
     Some (tmp, s) }"

definition RB_ROTATE_RIGHT :: "'e option \<Rightarrow> 'e rbheap \<Rightarrow> ('e option \<times> 'e rbheap) option" where
  "RB_ROTATE_RIGHT elm s = do {
     tmp \<leftarrow> RB_LEFT elm s;
     v \<leftarrow> RB_RIGHT tmp s;
     s \<leftarrow> set_rbleft elm v s;
     s \<leftarrow> (if v \<noteq> None then do { tr \<leftarrow> RB_RIGHT tmp s; set_rbparent tr elm s } else Some s);
     p \<leftarrow> RB_PARENT elm s;
     s \<leftarrow> set_rbparent tmp p s;
     s \<leftarrow> (if p \<noteq> None then do {
             q \<leftarrow> RB_PARENT elm s;
             ql \<leftarrow> RB_LEFT q s;
             if elm = ql then set_rbleft q tmp s else set_rbright q tmp s }
           else Some (set_rbroot tmp s));
     s \<leftarrow> set_rbright tmp elm s;
     s \<leftarrow> set_rbparent elm tmp s;
     Some (tmp, s) }"

section \<open>Trees and positions in them\<close>

datatype 'e ctree = Lf | Nd "'e ctree" 'e int "'e ctree"

fun inord :: "'e ctree \<Rightarrow> 'e list" where
  "inord Lf = []"
| "inord (Nd l x c r) = inord l @ x # inord r"

fun rootp :: "'e ctree \<Rightarrow> 'e option" where
  "rootp Lf = None"
| "rootp (Nd l x c r) = Some x"

text \<open>A step of the path from a position up to the root: the position is the left or the right
  subtree of the node \<open>x\<close> of colour \<open>c\<close>, and the other subtree is \<open>t\<close>.\<close>

datatype 'e turn = In_left 'e int "'e ctree" | In_right "'e ctree" 'e int

fun fill :: "'e turn list \<Rightarrow> 'e ctree \<Rightarrow> 'e ctree" where
  "fill [] t = t"
| "fill (In_left x c r # C) t = fill C (Nd t x c r)"
| "fill (In_right l x c # C) t = fill C (Nd l x c t)"

fun up :: "'e turn list \<Rightarrow> 'e option" where
  "up [] = None"
| "up (In_left x c r # C) = Some x"
| "up (In_right l x c # C) = Some x"

text \<open>The elements before and after the position.\<close>

fun lefts :: "'e turn list \<Rightarrow> 'e list" where
  "lefts [] = []"
| "lefts (In_left x c r # C) = lefts C"
| "lefts (In_right l x c # C) = lefts C @ inord l @ [x]"

fun rights :: "'e turn list \<Rightarrow> 'e list" where
  "rights [] = []"
| "rights (In_left x c r # C) = x # inord r @ rights C"
| "rights (In_right l x c # C) = rights C"

lemma inord_fill: "inord (fill C t) = lefts C @ inord t @ rights C"
  by (induction C t rule: fill.induct) simp_all

section \<open>What a heap represents\<close>

text \<open>The subtree \<open>t\<close> below the parent \<open>p\<close>, reached through the pointer \<open>v\<close>, in the four fields.\<close>

fun tree_at :: "('e \<Rightarrow> 'e option) \<Rightarrow> ('e \<Rightarrow> 'e option) \<Rightarrow> ('e \<Rightarrow> 'e option) \<Rightarrow> ('e \<Rightarrow> int) \<Rightarrow>
    'e option \<Rightarrow> 'e option \<Rightarrow> 'e ctree \<Rightarrow> bool" where
  "tree_at L R P K p v Lf \<longleftrightarrow> v = None"
| "tree_at L R P K p v (Nd l x c r) \<longleftrightarrow> v = Some x \<and> P x = p \<and> K x = c \<and>
     tree_at L R P K (Some x) (L x) l \<and> tree_at L R P K (Some x) (R x) r"

text \<open>The path \<open>C\<close> above a position whose pointer is \<open>v\<close>; \<open>h\<close> is the root pointer.\<close>

fun path_at :: "('e \<Rightarrow> 'e option) \<Rightarrow> ('e \<Rightarrow> 'e option) \<Rightarrow> ('e \<Rightarrow> 'e option) \<Rightarrow> ('e \<Rightarrow> int) \<Rightarrow>
    'e option \<Rightarrow> 'e turn list \<Rightarrow> 'e option \<Rightarrow> bool" where
  "path_at L R P K h [] v \<longleftrightarrow> h = v"
| "path_at L R P K h (In_left x c r # C) v \<longleftrightarrow> L x = v \<and> P x = up C \<and> K x = c \<and>
     tree_at L R P K (Some x) (R x) r \<and> path_at L R P K h C (Some x)"
| "path_at L R P K h (In_right l x c # C) v \<longleftrightarrow> R x = v \<and> P x = up C \<and> K x = c \<and>
     tree_at L R P K (Some x) (L x) l \<and> path_at L R P K h C (Some x)"

abbreviation sub :: "'e rbheap \<Rightarrow> 'e option \<Rightarrow> 'e option \<Rightarrow> 'e ctree \<Rightarrow> bool" where
  "sub s \<equiv> tree_at (rbe_left s) (rbe_right s) (rbe_parent s) (rbe_color s)"

abbreviation above :: "'e rbheap \<Rightarrow> 'e turn list \<Rightarrow> 'e option \<Rightarrow> bool" where
  "above s \<equiv> path_at (rbe_left s) (rbe_right s) (rbe_parent s) (rbe_color s) (rbh_root s)"

text \<open>The heap holds the tree that has \<open>t\<close> at the position \<open>C\<close>.\<close>

definition holds :: "'e rbheap \<Rightarrow> 'e turn list \<Rightarrow> 'e ctree \<Rightarrow> bool" where
  "holds s C t \<longleftrightarrow> distinct (lefts C @ inord t @ rights C) \<and> above s C (rootp t) \<and> sub s (up C) (rootp t) t"

definition rbtree :: "'e rbheap \<Rightarrow> 'e ctree \<Rightarrow> bool" where
  "rbtree s t \<longleftrightarrow> holds s [] t"

lemma tree_at_rootp: "tree_at L R P K p v t \<Longrightarrow> v = rootp t"
  by (cases t) auto

lemma holds_left: "holds s C (Nd l x c r) \<longleftrightarrow> holds s (In_left x c r # C) l"
  by (auto simp: holds_def) (metis tree_at_rootp)+

lemma holds_right: "holds s C (Nd l x c r) \<longleftrightarrow> holds s (In_right l x c # C) r"
  by (auto simp: holds_def) (metis tree_at_rootp)+

lemma holds_fill: "holds s [] (fill C t) \<longleftrightarrow> holds s C t"
  by (induction C t rule: fill.induct) (simp_all add: holds_left [symmetric] holds_right [symmetric])

lemma rbtree_holds: "rbtree s (fill C t) \<longleftrightarrow> holds s C t"
  by (simp add: rbtree_def holds_fill)

text \<open>Changes elsewhere do not matter.\<close>

lemma tree_at_frame [simp]:
  assumes "e \<notin> set (inord t)"
  shows "tree_at (L(e := v)) R P K p u t = tree_at L R P K p u t"
    "tree_at L (R(e := v)) P K p u t = tree_at L R P K p u t"
    "tree_at L R (P(e := v)) K p u t = tree_at L R P K p u t"
    "tree_at L R P (K(e := c)) p u t = tree_at L R P K p u t"
  using assms by (induction t arbitrary: p u) auto

lemma path_at_frame [simp]:
  assumes "e \<notin> set (lefts C)" "e \<notin> set (rights C)"
  shows "path_at (L(e := v)) R P K h C u = path_at L R P K h C u"
    "path_at L (R(e := v)) P K h C u = path_at L R P K h C u"
    "path_at L R (P(e := v)) K h C u = path_at L R P K h C u"
    "path_at L R P (K(e := c)) h C u = path_at L R P K h C u"
  using assms by (induction L R P K h C u rule: path_at.induct) auto

section \<open>Recolouring and rotating\<close>

lemma holds_color:
  assumes "holds s C (Nd l x c r)"
  shows "holds (s\<lparr>rbe_color := (rbe_color s)(x := d)\<rparr>) C (Nd l x d r)"
  using assms by (auto simp: holds_def)

lemma root_notin: "tree_at L R P K p v t \<Longrightarrow> x \<notin> set (inord t) \<Longrightarrow> v \<noteq> Some x"
  by (cases t) auto

lemma holds_rotate_left:
  assumes "holds s C (Nd a x c (Nd b y d e))"
  shows "\<exists>s'. RB_ROTATE_LEFT (Some x) s = Some (Some y, s') \<and> holds s' C (Nd (Nd a x c b) y d e)"
proof (cases C rule: up.cases)
  case 1
  then show ?thesis using assms
    by (cases b) (clarsimp simp: holds_def RB_ROTATE_LEFT_def)+
next
  case (2 z f r C')
  then show ?thesis using assms
    by (cases b) (clarsimp simp: holds_def RB_ROTATE_LEFT_def)+
next
  case (3 l z f C')
  then have "rbe_left s z \<noteq> Some x"
    using assms by (clarsimp simp: holds_def) (metis root_notin)
  then show ?thesis using assms 3
    by (cases b) (clarsimp simp: holds_def RB_ROTATE_LEFT_def)+
qed

lemma holds_rotate_right:
  assumes "holds s C (Nd (Nd b y d e) x c a)"
  shows "\<exists>s'. RB_ROTATE_RIGHT (Some x) s = Some (Some y, s') \<and> holds s' C (Nd b y d (Nd e x c a))"
proof (cases C rule: up.cases)
  case 1
  then show ?thesis using assms
    by (cases e) (clarsimp simp: holds_def RB_ROTATE_RIGHT_def)+
next
  case (2 z f r C')
  then show ?thesis using assms
    by (cases e) (clarsimp simp: holds_def RB_ROTATE_RIGHT_def)+
next
  case (3 l z f C')
  then have "rbe_left s z \<noteq> Some x"
    using assms by (clarsimp simp: holds_def) (metis root_notin)
  then show ?thesis using assms 3
    by (cases e) (clarsimp simp: holds_def RB_ROTATE_RIGHT_def)+
qed

end
