(* ===== verification/Rb_Search.thy ===== *)
theory Rb_Search
  imports Rb_Heap
begin

text \<open>
  Searching and traversing a red-black tree: \<open>RB_FIND\<close>, \<open>RB_NFIND\<close>, \<open>RB_MINMAX\<close>, \<open>RB_NEXT\<close>,
  \<open>RB_PREV\<close> and the \<open>RB_FOREACH\<close> loops. The client's comparison \<open>cmp\<close> is an argument; what the
  code relies on is that its sign compares keys of a linear order. No outcome (\<open>None\<close>) is an access
  through \<open>NULL\<close> or a loop that does not end.
\<close>

section \<open>The code\<close>

partial_function (option) rb_find_loop ::
  "('e \<Rightarrow> 'e \<Rightarrow> int) \<Rightarrow> 'e \<Rightarrow> 'e rbheap \<Rightarrow> 'e option \<Rightarrow> 'e option option" where
  "rb_find_loop cmp elm s tmp = (case tmp of
     None \<Rightarrow> Some None
   | Some t \<Rightarrow>
       if cmp elm t < 0 then rb_find_loop cmp elm s (rbe_left s t)
       else if cmp elm t > 0 then rb_find_loop cmp elm s (rbe_right s t)
       else Some (Some t))"

definition RB_FIND :: "('e \<Rightarrow> 'e \<Rightarrow> int) \<Rightarrow> 'e \<Rightarrow> 'e rbheap \<Rightarrow> 'e option option" where
  "RB_FIND cmp elm s = rb_find_loop cmp elm s (RB_ROOT s)"

partial_function (option) rb_nfind_loop ::
  "('e \<Rightarrow> 'e \<Rightarrow> int) \<Rightarrow> 'e \<Rightarrow> 'e rbheap \<Rightarrow> 'e option \<Rightarrow> 'e option \<Rightarrow> 'e option option" where
  "rb_nfind_loop cmp elm s res tmp = (case tmp of
     None \<Rightarrow> Some res
   | Some t \<Rightarrow>
       if cmp elm t < 0 then rb_nfind_loop cmp elm s (Some t) (rbe_left s t)
       else if cmp elm t > 0 then rb_nfind_loop cmp elm s res (rbe_right s t)
       else Some (Some t))"

definition RB_NFIND :: "('e \<Rightarrow> 'e \<Rightarrow> int) \<Rightarrow> 'e \<Rightarrow> 'e rbheap \<Rightarrow> 'e option option" where
  "RB_NFIND cmp elm s = rb_nfind_loop cmp elm s None (RB_ROOT s)"

partial_function (option) rb_minmax_loop :: "int \<Rightarrow> 'e rbheap \<Rightarrow> 'e option \<Rightarrow> 'e option \<Rightarrow> 'e option option" where
  "rb_minmax_loop val s parent tmp = (case tmp of
     None \<Rightarrow> Some parent
   | Some t \<Rightarrow>
       if val < 0 then rb_minmax_loop val s (Some t) (rbe_left s t)
       else rb_minmax_loop val s (Some t) (rbe_right s t))"

definition RB_MINMAX :: "int \<Rightarrow> 'e rbheap \<Rightarrow> 'e option option" where
  "RB_MINMAX val s = rb_minmax_loop val s None (RB_ROOT s)"

definition RB_MIN :: "'e rbheap \<Rightarrow> 'e option option" where "RB_MIN s = RB_MINMAX (- 1) s"
definition RB_MAX :: "'e rbheap \<Rightarrow> 'e option option" where "RB_MAX s = RB_MINMAX 1 s"

text \<open>Down along one pointer, and up as long as the element is that pointer of its parent.\<close>

partial_function (option) rb_descend :: "('e \<Rightarrow> 'e option) \<Rightarrow> 'e \<Rightarrow> 'e option" where
  "rb_descend child e = (case child e of None \<Rightarrow> Some e | Some f \<Rightarrow> rb_descend child f)"

partial_function (option) rb_climb :: "('e \<Rightarrow> 'e option) \<Rightarrow> ('e \<Rightarrow> 'e option) \<Rightarrow> 'e \<Rightarrow> 'e option" where
  "rb_climb child parent e = (case parent e of
     None \<Rightarrow> Some e
   | Some p \<Rightarrow> if Some e = child p then rb_climb child parent p else Some e)"

definition RB_NEXT :: "'e \<Rightarrow> 'e rbheap \<Rightarrow> 'e option option" where
  "RB_NEXT elm s = (case rbe_right s elm of
     Some r \<Rightarrow> map_option Some (rb_descend (rbe_left s) r)
   | None \<Rightarrow> (case rbe_parent s elm of
       Some p \<Rightarrow> if Some elm = rbe_left s p then Some (Some p)
         else map_option (rbe_parent s) (rb_climb (rbe_right s) (rbe_parent s) elm)
     | None \<Rightarrow> map_option (rbe_parent s) (rb_climb (rbe_right s) (rbe_parent s) elm)))"

definition RB_PREV :: "'e \<Rightarrow> 'e rbheap \<Rightarrow> 'e option option" where
  "RB_PREV elm s = (case rbe_left s elm of
     Some l \<Rightarrow> map_option Some (rb_descend (rbe_right s) l)
   | None \<Rightarrow> (case rbe_parent s elm of
       Some p \<Rightarrow> if Some elm = rbe_right s p then Some (Some p)
         else map_option (rbe_parent s) (rb_climb (rbe_left s) (rbe_parent s) elm)
     | None \<Rightarrow> map_option (rbe_parent s) (rb_climb (rbe_left s) (rbe_parent s) elm)))"

text \<open>The elements a loop visits, given its step.\<close>

partial_function (option) rb_visits :: "('e \<Rightarrow> 'e option option) \<Rightarrow> 'e option \<Rightarrow> 'e list option" where
  "rb_visits step v = (case v of
     None \<Rightarrow> Some []
   | Some e \<Rightarrow> do { n \<leftarrow> step e; es \<leftarrow> rb_visits step n; Some (e # es) })"

definition RB_FOREACH :: "'e rbheap \<Rightarrow> 'e list option" where
  "RB_FOREACH s = do { x \<leftarrow> RB_MIN s; rb_visits (\<lambda>e. RB_NEXT e s) x }"

definition RB_FOREACH_REVERSE :: "'e rbheap \<Rightarrow> 'e list option" where
  "RB_FOREACH_REVERSE s = do { x \<leftarrow> RB_MAX s; rb_visits (\<lambda>e. RB_PREV e s) x }"

lemma rb_loops [simp]:
  "rb_find_loop cmp elm s None = Some None"
  "rb_find_loop cmp elm s (Some t) = (if cmp elm t < 0 then rb_find_loop cmp elm s (rbe_left s t)
       else if cmp elm t > 0 then rb_find_loop cmp elm s (rbe_right s t) else Some (Some t))"
  "rb_nfind_loop cmp elm s res None = Some res"
  "rb_nfind_loop cmp elm s res (Some t) = (if cmp elm t < 0 then rb_nfind_loop cmp elm s (Some t) (rbe_left s t)
       else if cmp elm t > 0 then rb_nfind_loop cmp elm s res (rbe_right s t) else Some (Some t))"
  "rb_minmax_loop val s p None = Some p"
  "rb_minmax_loop val s p (Some t) =
     rb_minmax_loop val s (Some t) (if val < 0 then rbe_left s t else rbe_right s t)"
  "rb_visits step None = Some []"
  "rb_visits step (Some e) = do { n \<leftarrow> step e; es \<leftarrow> rb_visits step n; Some (e # es) }"
  by (subst rb_find_loop.simps rb_nfind_loop.simps rb_minmax_loop.simps rb_visits.simps; simp)+

section \<open>Ordered trees\<close>

definition compares :: "('e \<Rightarrow> 'e \<Rightarrow> int) \<Rightarrow> ('e \<Rightarrow> 'k::linorder) \<Rightarrow> bool" where
  "compares cmp key \<longleftrightarrow> (\<forall>x y. (cmp x y < 0 \<longleftrightarrow> key x < key y) \<and> (cmp x y > 0 \<longleftrightarrow> key x > key y))"

definition ascending :: "('e \<Rightarrow> 'k::linorder) \<Rightarrow> 'e list \<Rightarrow> bool" where
  "ascending key xs \<longleftrightarrow> sorted_wrt (\<lambda>x y. key x < key y) xs"

lemma ascending_simps [simp]:
  "ascending key []"
  "ascending key (x # xs) \<longleftrightarrow> (\<forall>y \<in> set xs. key x < key y) \<and> ascending key xs"
  "ascending key (xs @ ys) \<longleftrightarrow> ascending key xs \<and> ascending key ys \<and> (\<forall>x \<in> set xs. \<forall>y \<in> set ys. key x < key y)"
  by (simp_all add: ascending_def sorted_wrt_append)

lemma compares_simps:
  assumes "compares cmp key"
  shows "cmp x y < 0 \<longleftrightarrow> key x < key y" "0 < cmp x y \<longleftrightarrow> key y < key x" "cmp x y = 0 \<longleftrightarrow> key x = key y"
proof -
  show a: "cmp x y < 0 \<longleftrightarrow> key x < key y" and b: "0 < cmp x y \<longleftrightarrow> key y < key x"
    using assms by (simp_all add: compares_def)
  show "cmp x y = 0 \<longleftrightarrow> key x = key y"
    using a b by (metis linorder_less_linear less_irrefl)
qed

lemma find_append: "List.find P (xs @ ys) = (case List.find P xs of None \<Rightarrow> List.find P ys | Some x \<Rightarrow> Some x)"
  by (induction xs) auto

lemma find_None: "(\<And>x. x \<in> set xs \<Longrightarrow> \<not> P x) \<Longrightarrow> List.find P xs = None"
  by (simp add: find_None_iff)

lemma rb_find_sub:
  assumes "compares cmp key"
  shows "sub s p v t \<Longrightarrow> ascending key (inord t) \<Longrightarrow>
    rb_find_loop cmp elm s v = Some (List.find (\<lambda>y. key y = key elm) (inord t))"
proof (induction t arbitrary: p v)
  case (Nd l x c r)
  note [simp] = compares_simps [OF assms]
  consider "key elm < key x" | "key x < key elm" | "key elm = key x" by fastforce
  then show ?case
  proof cases
    case 1
    have "List.find (\<lambda>y. key y = key elm) (inord r) = None"
      using Nd.prems 1 by (intro find_None) fastforce
    then show ?thesis using Nd 1 by (auto simp: find_append split: option.split)
  next
    case 2
    have "List.find (\<lambda>y. key y = key elm) (inord l) = None"
      using Nd.prems 2 by (intro find_None) fastforce
    then show ?thesis using Nd 2 by (auto simp: find_append)
  next
    case 3
    have "List.find (\<lambda>y. key y = key elm) (inord l) = None"
      using Nd.prems 3 by (intro find_None) fastforce
    then show ?thesis using Nd 3 by (auto simp: find_append)
  qed
qed simp

lemma rb_find_eq:
  assumes "rbtree s t" "compares cmp key" "ascending key (inord t)"
  shows "RB_FIND cmp elm s = Some (List.find (\<lambda>y. key y = key elm) (inord t))"
  using rb_find_sub [OF assms(2), of s None "rootp t" t] assms(1,3)
  by (simp add: RB_FIND_def rbtree_def holds_def)

lemma rb_nfind_sub:
  assumes "compares cmp key"
  shows "sub s p v t \<Longrightarrow> ascending key (inord t) \<Longrightarrow>
    rb_nfind_loop cmp elm s res v = Some (case List.find (\<lambda>y. key elm \<le> key y) (inord t) of
      None \<Rightarrow> res | Some y \<Rightarrow> Some y)"
proof (induction t arbitrary: p v res)
  case (Nd l x c r)
  note [simp] = compares_simps [OF assms]
  consider "key elm < key x" | "key x < key elm" | "key elm = key x" by fastforce
  then show ?case
  proof cases
    case 1
    then show ?thesis using Nd by (auto simp: find_append split: option.split)
  next
    case 2
    have "List.find (\<lambda>y. key elm \<le> key y) (inord l) = None"
      using Nd.prems 2 by (intro find_None) fastforce
    then show ?thesis using Nd 2 by (auto simp: find_append split: option.split)
  next
    case 3
    have "List.find (\<lambda>y. key elm \<le> key y) (inord l) = None"
      using Nd.prems 3 by (intro find_None) fastforce
    then show ?thesis using Nd 3 by (auto simp: find_append)
  qed
qed simp

lemma rb_nfind_eq:
  assumes "rbtree s t" "compares cmp key" "ascending key (inord t)"
  shows "RB_NFIND cmp elm s = Some (List.find (\<lambda>y. key elm \<le> key y) (inord t))"
  using rb_nfind_sub [OF assms(2), of s None "rootp t" t] assms(1,3)
  by (simp add: RB_NFIND_def rbtree_def holds_def split: option.split)

section \<open>The ends and the neighbours\<close>

lemma inord_Nil [simp]: "inord t = [] \<longleftrightarrow> t = Lf"
  by (cases t) auto

lemma head_opt_rev: "head_opt (rev xs) = (if xs = [] then None else Some (last xs))"
  by (cases xs rule: rev_cases) auto

lemma head_opt_hd: "head_opt xs = (if xs = [] then None else Some (hd xs))"
  by (cases xs) auto

lemma rb_minmax_sub:
  "sub s p v t \<Longrightarrow> rb_minmax_loop val s q v = Some (if t = Lf then q
     else Some (if val < 0 then hd (inord t) else last (inord t)))"
proof (induction t arbitrary: p v q)
  case (Nd l x c r)
  then show ?case by (cases "inord l"; cases l; cases r) (auto split: if_splits)
qed simp

lemma rb_min_eq: "rbtree s t \<Longrightarrow> RB_MIN s = Some (head_opt (inord t))"
  using rb_minmax_sub [of s None "rootp t" t "- 1" None]
  by (simp add: RB_MIN_def RB_MINMAX_def rbtree_def holds_def head_opt_hd)

lemma rb_max_eq: "rbtree s t \<Longrightarrow> RB_MAX s = Some (head_opt (rev (inord t)))"
  using rb_minmax_sub [of s None "rootp t" t 1 None]
  by (simp add: RB_MAX_def RB_MINMAX_def rbtree_def holds_def head_opt_rev)

lemma rb_descend_left: "sub s p (Some e) t \<Longrightarrow> rb_descend (rbe_left s) e = Some (hd (inord t))"
proof (induction t arbitrary: p e)
  case (Nd l x c r)
  then have "sub s (Some e) (rbe_left s e) l" by simp
  then show ?case using Nd.IH(1) Nd.prems
    by (cases l) (auto simp: rb_descend.simps [of _ x] hd_append)
qed simp

lemma rb_descend_right: "sub s p (Some e) t \<Longrightarrow> rb_descend (rbe_right s) e = Some (last (inord t))"
proof (induction t arbitrary: p e)
  case (Nd l x c r)
  then have "sub s (Some e) (rbe_right s e) r" by simp
  then show ?case using Nd.IH(2) Nd.prems
    by (cases r) (auto simp: rb_descend.simps [of _ x] hd_append)
qed simp

lemma rb_climb_next:
  "holds s C t \<Longrightarrow> rootp t = Some e \<Longrightarrow>
    map_option (rbe_parent s) (rb_climb (rbe_right s) (rbe_parent s) e) = Some (head_opt (rights C))"
proof (induction C arbitrary: t e)
  case Nil
  then show ?case by (cases t) (auto simp: holds_def rb_climb.simps)
next
  case (Cons k C)
  show ?case
  proof (cases k)
    case (In_left x c r)
    have "e \<in> set (inord t)" using Cons.prems(2) by (cases t) auto
    then have "rbe_right s x \<noteq> Some e"
      using Cons.prems In_left by (cases r) (auto simp: holds_def)
    then show ?thesis using Cons.prems In_left by (cases t) (auto simp: holds_def rb_climb.simps)
  next
    case (In_right l x c)
    then have "holds s C (Nd l x c t)" using Cons.prems(1) by (simp add: holds_right)
    moreover have "rbe_parent s e = Some x" "rbe_right s x = Some e"
      using Cons.prems In_right by (cases t; auto simp: holds_def)+
    ultimately show ?thesis using Cons.IH [of "Nd l x c t" x] In_right
      by (subst rb_climb.simps) simp
  qed
qed

lemma rb_climb_prev:
  "holds s C t \<Longrightarrow> rootp t = Some e \<Longrightarrow>
    map_option (rbe_parent s) (rb_climb (rbe_left s) (rbe_parent s) e) = Some (head_opt (rev (lefts C)))"
proof (induction C arbitrary: t e)
  case Nil
  then show ?case by (cases t) (auto simp: holds_def rb_climb.simps)
next
  case (Cons k C)
  show ?case
  proof (cases k)
    case (In_right l x c)
    have "e \<in> set (inord t)" using Cons.prems(2) by (cases t) auto
    then have "rbe_left s x \<noteq> Some e"
      using Cons.prems In_right by (cases l) (auto simp: holds_def)
    then show ?thesis using Cons.prems In_right by (cases t) (auto simp: holds_def rb_climb.simps)
  next
    case (In_left x c r)
    then have "holds s C (Nd t x c r)" using Cons.prems(1) by (simp add: holds_left)
    moreover have "rbe_parent s e = Some x" "rbe_left s x = Some e"
      using Cons.prems In_left by (cases t; auto simp: holds_def)+
    ultimately show ?thesis using Cons.IH [of "Nd t x c r" x] In_left
      by (subst rb_climb.simps) simp
  qed
qed

lemma rb_next_at:
  assumes "holds s C (Nd l x c r)"
  shows "RB_NEXT x s = Some (head_opt (inord r @ rights C))"
proof (cases r)
  case (Nd l' y d r')
  then have "sub s (Some x) (Some y) r" "rbe_right s x = Some y" using assms by (auto simp: holds_def)
  then show ?thesis using rb_descend_left [of s "Some x" y r] Nd
    by (cases "inord r") (auto simp: RB_NEXT_def)
next
  case Lf
  then have "rbe_right s x = None" using assms by (auto simp: holds_def)
  moreover have "map_option (rbe_parent s) (rb_climb (rbe_right s) (rbe_parent s) x) = Some (head_opt (rights C))"
    using rb_climb_next [OF assms] by simp
  moreover have "rbe_parent s x = Some p \<Longrightarrow> rbe_left s p = Some x \<Longrightarrow> rights C \<noteq> [] \<and> hd (rights C) = p" for p
  proof (cases C rule: up.cases)
    case (3 l' z d C')
    then have "rbe_parent s x = Some p \<Longrightarrow> rbe_left s p \<noteq> Some x"
      using assms by (cases l') (auto simp: holds_def)
    then show "rbe_parent s x = Some p \<Longrightarrow> rbe_left s p = Some x \<Longrightarrow> rights C \<noteq> [] \<and> hd (rights C) = p"
      by blast
  qed (use assms in \<open>auto simp: holds_def\<close>)
  ultimately show ?thesis using Lf
    by (cases "rights C") (auto simp: RB_NEXT_def split: option.split)
qed

lemma rb_prev_at:
  assumes "holds s C (Nd l x c r)"
  shows "RB_PREV x s = Some (head_opt (rev (lefts C @ inord l)))"
proof (cases l)
  case (Nd l' y d r')
  then have "sub s (Some x) (Some y) l" "rbe_left s x = Some y" using assms by (auto simp: holds_def)
  then show ?thesis using rb_descend_right [of s "Some x" y l] Nd
    by (cases "inord r'" rule: rev_cases) (auto simp: RB_PREV_def)
next
  case Lf
  then have "rbe_left s x = None" using assms by (auto simp: holds_def)
  moreover have "map_option (rbe_parent s) (rb_climb (rbe_left s) (rbe_parent s) x) = Some (head_opt (rev (lefts C)))"
    using rb_climb_prev [OF assms] by simp
  moreover have "rbe_parent s x = Some p \<Longrightarrow> rbe_right s p = Some x \<Longrightarrow> lefts C \<noteq> [] \<and> last (lefts C) = p" for p
  proof (cases C rule: up.cases)
    case (2 z d r' C')
    then have "rbe_parent s x = Some p \<Longrightarrow> rbe_right s p \<noteq> Some x"
      using assms by (cases r') (auto simp: holds_def)
    then show "rbe_parent s x = Some p \<Longrightarrow> rbe_right s p = Some x \<Longrightarrow> lefts C \<noteq> [] \<and> last (lefts C) = p"
      by blast
  qed (use assms in \<open>auto simp: holds_def\<close>)
  ultimately show ?thesis using Lf
    by (auto simp: RB_PREV_def head_opt_rev split: option.split)
qed

text \<open>Every element of a tree is at a position.\<close>

lemma fill_append [simp]: "fill (C @ D) t = fill D (fill C t)"
  by (induction C t rule: fill.induct) simp_all

lemma position: "x \<in> set (inord t) \<Longrightarrow> \<exists>C l c r. t = fill C (Nd l x c r)"
proof (induction t)
  case (Nd l y d r)
  then consider "x = y" | "x \<in> set (inord l)" | "x \<in> set (inord r)" by auto
  then show ?case
  proof cases
    case 1
    then show ?thesis by (metis fill.simps(1))
  next
    case 2
    then obtain C l' c r' where "l = fill C (Nd l' x c r')" using Nd.IH(1) by blast
    then have "Nd l y d r = fill (C @ [In_left y d r]) (Nd l' x c r')" by simp
    then show ?thesis by blast
  next
    case 3
    then obtain C l' c r' where "r = fill C (Nd l' x c r')" using Nd.IH(2) by blast
    then have "Nd l y d r = fill (C @ [In_right l y d]) (Nd l' x c r')" by simp
    then show ?thesis by blast
  qed
qed simp

lemma rb_neighbours:
  assumes "rbtree s t" "inord t = as @ x # bs"
  shows "RB_NEXT x s = Some (head_opt bs)" "RB_PREV x s = Some (head_opt (rev as))"
proof -
  obtain C l c r where t: "t = fill C (Nd l x c r)" using position [of x t] assms(2) by auto
  then have h: "holds s C (Nd l x c r)" using assms(1) by (simp add: rbtree_holds)
  have d: "distinct (inord t)" using assms(1) by (simp add: rbtree_def holds_def)
  have "as @ x # bs = (lefts C @ inord l) @ x # (inord r @ rights C)"
    using t assms(2) by (simp add: inord_fill)
  moreover have "distinct (as @ x # bs)" using d assms(2) by simp
  ultimately have "as = lefts C @ inord l" "bs = inord r @ rights C"
    by (metis append_Cons_eq_iff distinct_append distinct.simps(2) not_distinct_conv_prefix set_append Un_iff)+
  then show "RB_NEXT x s = Some (head_opt bs)" "RB_PREV x s = Some (head_opt (rev as))"
    using rb_next_at [OF h] rb_prev_at [OF h] by simp_all
qed

lemma rb_visits_suffix:
  assumes "rbtree s t"
  shows "inord t = as @ bs \<Longrightarrow> rb_visits (\<lambda>e. RB_NEXT e s) (head_opt bs) = Some bs"
proof (induction bs arbitrary: as)
  case (Cons b bs)
  then show ?case
    using Cons.IH [of "as @ [b]"] rb_neighbours(1) [OF assms Cons.prems] by simp
qed simp

lemma rb_visits_prefix:
  assumes "rbtree s t"
  shows "inord t = as @ bs \<Longrightarrow> rb_visits (\<lambda>e. RB_PREV e s) (head_opt (rev as)) = Some (rev as)"
proof (induction as arbitrary: bs rule: rev_induct)
  case (snoc a as)
  then show ?case
    using snoc.IH [of "a # bs"] rb_neighbours(2) [OF assms, of as a bs] by simp
qed simp

lemma rb_foreach_eq:
  assumes "rbtree s t"
  shows "RB_FOREACH s = Some (inord t)" "RB_FOREACH_REVERSE s = Some (rev (inord t))"
  using rb_visits_suffix [OF assms, of "[]" "inord t"] rb_visits_prefix [OF assms, of "inord t" "[]"]
  by (simp_all add: RB_FOREACH_def RB_FOREACH_REVERSE_def rb_min_eq [OF assms] rb_max_eq [OF assms])

end
