(* ===== verification/Rb_Insert.thy ===== *)
theory Rb_Insert
  imports Rb_Search
begin

text \<open>
  Inserting into a red-black tree: \<open>RB_INSERT\<close> searches for the place, links the element there and
  lets \<open>RB_INSERT_COLOR\<close> recolour and rotate its way up. The two red-black conditions are restored:
  no red node has a red child, and every path down passes the same number of black nodes.
\<close>

section \<open>The code\<close>

text \<open>\<open>p && RB_COLOR(p) == RB_RED\<close>\<close>

definition is_red :: "'e option \<Rightarrow> 'e rbheap \<Rightarrow> bool" where
  "is_red p s = (case p of None \<Rightarrow> False | Some e \<Rightarrow> rbe_color s e = RB_RED)"

partial_function (option) rb_insert_color_loop :: "'e option \<Rightarrow> 'e rbheap \<Rightarrow> 'e rbheap option" where
  "rb_insert_color_loop elm s = do {
     parent \<leftarrow> RB_PARENT elm s;
     if is_red parent s then do {
       gparent \<leftarrow> RB_PARENT parent s;
       gl \<leftarrow> RB_LEFT gparent s;
       if parent = gl then do {
         tmp \<leftarrow> RB_RIGHT gparent s;
         if is_red tmp s then do {
           s \<leftarrow> set_rbcolor tmp RB_BLACK s;
           s \<leftarrow> RB_SET_BLACKRED parent gparent s;
           rb_insert_color_loop gparent s }
         else do {
           pr \<leftarrow> RB_RIGHT parent s;
           (parent, elm, s) \<leftarrow> (if pr = elm
             then do { (tmp, s) \<leftarrow> RB_ROTATE_LEFT parent s; Some (elm, parent, s) }
             else Some (parent, elm, s));
           s \<leftarrow> RB_SET_BLACKRED parent gparent s;
           (tmp, s) \<leftarrow> RB_ROTATE_RIGHT gparent s;
           rb_insert_color_loop elm s } }
       else do {
         tmp \<leftarrow> RB_LEFT gparent s;
         if is_red tmp s then do {
           s \<leftarrow> set_rbcolor tmp RB_BLACK s;
           s \<leftarrow> RB_SET_BLACKRED parent gparent s;
           rb_insert_color_loop gparent s }
         else do {
           pl \<leftarrow> RB_LEFT parent s;
           (parent, elm, s) \<leftarrow> (if pl = elm
             then do { (tmp, s) \<leftarrow> RB_ROTATE_RIGHT parent s; Some (elm, parent, s) }
             else Some (parent, elm, s));
           s \<leftarrow> RB_SET_BLACKRED parent gparent s;
           (tmp, s) \<leftarrow> RB_ROTATE_LEFT gparent s;
           rb_insert_color_loop elm s } } }
     else Some s }"

definition RB_INSERT_COLOR :: "'e option \<Rightarrow> 'e rbheap \<Rightarrow> 'e rbheap option" where
  "RB_INSERT_COLOR elm s = do {
     s \<leftarrow> rb_insert_color_loop elm s;
     set_rbcolor (RB_ROOT s) RB_BLACK s }"

text \<open>The search: \<open>Inl t\<close> is the early return of an element that compares equal, \<open>Inr\<close> the parent
  and the last comparison where it fell off the tree.\<close>

partial_function (option) rb_insert_search ::
  "('e \<Rightarrow> 'e \<Rightarrow> int) \<Rightarrow> 'e \<Rightarrow> 'e rbheap \<Rightarrow> 'e option \<Rightarrow> int \<Rightarrow> 'e option \<Rightarrow> ('e + 'e option \<times> int) option" where
  "rb_insert_search cmp elm s parent cres tmp = (case tmp of
     None \<Rightarrow> Some (Inr (parent, cres))
   | Some t \<Rightarrow> let cres = cmp elm t in
       if cres < 0 then rb_insert_search cmp elm s (Some t) cres (rbe_left s t)
       else if cres > 0 then rb_insert_search cmp elm s (Some t) cres (rbe_right s t)
       else Some (Inl t))"

definition RB_INSERT :: "('e \<Rightarrow> 'e \<Rightarrow> int) \<Rightarrow> 'e \<Rightarrow> 'e rbheap \<Rightarrow> ('e option \<times> 'e rbheap) option" where
  "RB_INSERT cmp elm s = do {
     found \<leftarrow> rb_insert_search cmp elm s None 0 (RB_ROOT s);
     (case found of
       Inl t \<Rightarrow> Some (Some t, s)
     | Inr (parent, cres) \<Rightarrow> do {
         s \<leftarrow> RB_SET (Some elm) parent s;
         s \<leftarrow> (if parent \<noteq> None
           then if cres < 0 then set_rbleft parent (Some elm) s else set_rbright parent (Some elm) s
           else Some (set_rbroot (Some elm) s));
         s \<leftarrow> RB_INSERT_COLOR (Some elm) s;
         Some (None, s) }) }"

section \<open>Red-black trees\<close>

fun blackr :: "'e ctree \<Rightarrow> bool" where
  "blackr Lf \<longleftrightarrow> True"
| "blackr (Nd l x c r) \<longleftrightarrow> c = RB_BLACK"

text \<open>\<open>bal n t\<close>: every path down passes \<open>n\<close> black nodes, and no red node has a red child.\<close>

fun bal :: "nat \<Rightarrow> 'e ctree \<Rightarrow> bool" where
  "bal n Lf \<longleftrightarrow> n = 0"
| "bal n (Nd l x c r) \<longleftrightarrow>
     (if c = RB_RED then blackr l \<and> blackr r \<and> bal n l \<and> bal n r
      else c = RB_BLACK \<and> 0 < n \<and> bal (n - 1) l \<and> bal (n - 1) r)"

fun upred :: "'e turn list \<Rightarrow> bool" where
  "upred [] \<longleftrightarrow> False"
| "upred (In_left x c r # C) \<longleftrightarrow> c = RB_RED"
| "upred (In_right l x c # C) \<longleftrightarrow> c = RB_RED"

text \<open>The path above a position where a subtree with \<open>n\<close> black nodes belongs; its root is black.\<close>

fun path_ok :: "nat \<Rightarrow> 'e turn list \<Rightarrow> bool" where
  "path_ok n [] \<longleftrightarrow> True"
| "path_ok n (In_left x c r # C) \<longleftrightarrow> bal n r \<and>
     (if c = RB_RED then blackr r \<and> C \<noteq> [] \<and> \<not> upred C \<and> path_ok n C else c = RB_BLACK \<and> path_ok (Suc n) C)"
| "path_ok n (In_right l x c # C) \<longleftrightarrow> bal n l \<and>
     (if c = RB_RED then blackr l \<and> C \<noteq> [] \<and> \<not> upred C \<and> path_ok n C else c = RB_BLACK \<and> path_ok (Suc n) C)"

definition rb_ok :: "'e ctree \<Rightarrow> bool" where
  "rb_ok t \<longleftrightarrow> blackr t \<and> (\<exists>n. bal n t)"

lemma bal_fill:
  "path_ok n C \<Longrightarrow> bal n t \<Longrightarrow> (upred C \<longrightarrow> blackr t) \<Longrightarrow>
    \<exists>m. bal m (fill C t) \<and> (C \<noteq> [] \<or> blackr t \<longrightarrow> blackr (fill C t))"
proof (induction C arbitrary: n t)
  case Nil
  then show ?case by auto
next
  case (Cons k C)
  show ?case
  proof (cases k)
    case (In_left x c r)
    show ?thesis
    proof (cases "c = RB_RED")
      case True
      then have "C \<noteq> []" "bal n (Nd t x c r)" "\<not> upred C" using Cons.prems In_left by auto
      then show ?thesis using Cons.IH [of n "Nd t x c r"] Cons.prems In_left True by auto
    next
      case False
      then show ?thesis using Cons.IH [of "Suc n" "Nd t x c r"] Cons.prems In_left by auto
    qed
  next
    case (In_right l x c)
    show ?thesis
    proof (cases "c = RB_RED")
      case True
      then have "C \<noteq> []" "bal n (Nd l x c t)" "\<not> upred C" using Cons.prems In_right by auto
      then show ?thesis using Cons.IH [of n "Nd l x c t"] Cons.prems In_right True by auto
    next
      case False
      then show ?thesis using Cons.IH [of "Suc n" "Nd l x c t"] Cons.prems In_right by auto
    qed
  qed
qed

lemma fill_bal:
  "bal m (fill C t) \<Longrightarrow> blackr (fill C t) \<Longrightarrow> \<exists>n. path_ok n C \<and> bal n t \<and> (upred C \<longrightarrow> blackr t)"
proof (induction C t arbitrary: m rule: fill.induct)
  case (2 x c r C t)
  then obtain n where n: "path_ok n C" "bal n (Nd t x c r)" "upred C \<longrightarrow> c = RB_BLACK" by fastforce
  have "C = [] \<Longrightarrow> c = RB_BLACK" using 2(3) by simp
  with n show ?case by (intro exI [of _ "if c = RB_RED then n else n - 1"]) auto
next
  case (3 l x c C t)
  then obtain n where n: "path_ok n C" "bal n (Nd l x c t)" "upred C \<longrightarrow> c = RB_BLACK" by fastforce
  have "C = [] \<Longrightarrow> c = RB_BLACK" using 3(3) by simp
  with n show ?case by (intro exI [of _ "if c = RB_RED then n else n - 1"]) auto
qed auto

section \<open>Reading the heap at a position\<close>

lemma ptr_in: "rootp t = Some e \<Longrightarrow> e \<in> set (inord t)"
  by (cases t) auto

lemma holds_root:
  assumes "holds s C (Nd l x c r)"
  shows "rbe_left s x = rootp l" "rbe_right s x = rootp r" "rbe_parent s x = up C" "rbe_color s x = c"
  using assms by (auto simp: holds_def dest: tree_at_rootp)

lemma holds_above:
  assumes "holds s C t"
  shows "C = In_left x c r # C' \<Longrightarrow> rbe_left s x = rootp t \<and> rbe_right s x = rootp r \<and> rbe_parent s x = up C' \<and> rbe_color s x = c"
    "C = In_right l x c # C' \<Longrightarrow> rbe_left s x = rootp l \<and> rbe_right s x = rootp t \<and> rbe_parent s x = up C' \<and> rbe_color s x = c"
  using assms by (auto simp: holds_left [symmetric] holds_right [symmetric] dest: holds_root)

section \<open>The fix-up restores the colours\<close>

lemma loop_exit:
  assumes "holds s C t" "rootp t = Some x" "\<not> upred C"
  shows "rb_insert_color_loop (Some x) s = Some s"
proof -
  have p: "rbe_parent s x = up C" using assms(1,2) by (cases t) (auto dest: holds_root)
  have "\<not> is_red (up C) s"
    using assms holds_above [OF assms(1)] by (cases C rule: up.cases) (auto simp: is_red_def)
  then show ?thesis using p by (subst rb_insert_color_loop.simps) simp
qed

lemma set_blackred:
  "holds s C (Nd (Nd a y c b) g d u) \<Longrightarrow>
    \<exists>s'. RB_SET_BLACKRED (Some y) (Some g) s = Some s' \<and> holds s' C (Nd (Nd a y RB_BLACK b) g RB_RED u)"
  "holds s C (Nd u g d (Nd a y c b)) \<Longrightarrow>
    \<exists>s'. RB_SET_BLACKRED (Some y) (Some g) s = Some s' \<and> holds s' C (Nd u g RB_RED (Nd a y RB_BLACK b))"
  by (auto simp: RB_SET_BLACKRED_def holds_def)

lemma finish_right:
  assumes "holds s C (Nd (Nd a y c b) g d u)" "rootp a = Some z"
  shows "\<exists>s'. do { s \<leftarrow> RB_SET_BLACKRED (Some y) (Some g) s; (tmp, s) \<leftarrow> RB_ROTATE_RIGHT (Some g) s;
      rb_insert_color_loop (Some z) s } = Some s' \<and> holds s' C (Nd a y RB_BLACK (Nd b g RB_RED u))"
proof -
  obtain s1 where s1: "RB_SET_BLACKRED (Some y) (Some g) s = Some s1"
    "holds s1 C (Nd (Nd a y RB_BLACK b) g RB_RED u)" using set_blackred(1) [OF assms(1)] by blast
  obtain s2 where s2: "RB_ROTATE_RIGHT (Some g) s1 = Some (Some y, s2)"
    "holds s2 C (Nd a y RB_BLACK (Nd b g RB_RED u))" using holds_rotate_right [OF s1(2)] by blast
  have "rb_insert_color_loop (Some z) s2 = Some s2"
    using s2(2) assms(2) by (intro loop_exit [of _ "In_left y RB_BLACK (Nd b g RB_RED u) # C" a])
      (simp_all add: holds_left)
  then show ?thesis using s1 s2 by simp
qed

lemma finish_left:
  assumes "holds s C (Nd u g d (Nd b y c a))" "rootp a = Some z"
  shows "\<exists>s'. do { s \<leftarrow> RB_SET_BLACKRED (Some y) (Some g) s; (tmp, s) \<leftarrow> RB_ROTATE_LEFT (Some g) s;
      rb_insert_color_loop (Some z) s } = Some s' \<and> holds s' C (Nd (Nd u g RB_RED b) y RB_BLACK a)"
proof -
  obtain s1 where s1: "RB_SET_BLACKRED (Some y) (Some g) s = Some s1"
    "holds s1 C (Nd u g RB_RED (Nd b y RB_BLACK a))" using set_blackred(2) [OF assms(1)] by blast
  obtain s2 where s2: "RB_ROTATE_LEFT (Some g) s1 = Some (Some y, s2)"
    "holds s2 C (Nd (Nd u g RB_RED b) y RB_BLACK a)" using holds_rotate_left [OF s1(2)] by blast
  have "rb_insert_color_loop (Some z) s2 = Some s2"
    using s2(2) assms(2) by (intro loop_exit [of _ "In_right (Nd u g RB_RED b) y RB_BLACK # C" a])
      (simp_all add: holds_right)
  then show ?thesis using s1 s2 by simp
qed

text \<open>A red uncle: the colours of the parent's generation change, and the loop goes on two levels up.\<close>

lemma flip_colours:
  assumes "holds s C (Nd (Nd a y c b) g d (Nd v u e w))"
  shows "\<exists>s'. do { s \<leftarrow> set_rbcolor (Some u) RB_BLACK s; RB_SET_BLACKRED (Some y) (Some g) s } = Some s' \<and>
      holds s' C (Nd (Nd a y RB_BLACK b) g RB_RED (Nd v u RB_BLACK w))"
    "\<exists>s'. do { s \<leftarrow> set_rbcolor (Some y) RB_BLACK s; RB_SET_BLACKRED (Some u) (Some g) s } = Some s' \<and>
      holds s' C (Nd (Nd a y RB_BLACK b) g RB_RED (Nd v u RB_BLACK w))"
  using assms by (auto simp: RB_SET_BLACKRED_def holds_def)

lemma loop_red_uncle:
  assumes "holds s C (Nd (Nd a y RB_RED b) g RB_BLACK (Nd v u RB_RED w))"
  shows "rootp a = Some x \<or> rootp b = Some x \<Longrightarrow> \<exists>s'. rb_insert_color_loop (Some x) s = rb_insert_color_loop (Some g) s' \<and>
      holds s' C (Nd (Nd a y RB_BLACK b) g RB_RED (Nd v u RB_BLACK w))"
    "rootp v = Some x \<or> rootp w = Some x \<Longrightarrow> \<exists>s'. rb_insert_color_loop (Some x) s = rb_insert_color_loop (Some g) s' \<and>
      holds s' C (Nd (Nd a y RB_BLACK b) g RB_RED (Nd v u RB_BLACK w))"
proof -
  have y: "holds s (In_left g RB_BLACK (Nd v u RB_RED w) # C) (Nd a y RB_RED b)"
    and u: "holds s (In_right (Nd a y RB_RED b) g RB_BLACK # C) (Nd v u RB_RED w)"
    by (rule holds_left [THEN iffD1, OF assms], rule holds_right [THEN iffD1, OF assms])
  note f = holds_root [OF assms] holds_root [OF y] holds_root [OF u]
  have ne: "y \<noteq> u" using assms by (auto simp: holds_def)
  show "\<exists>s'. rb_insert_color_loop (Some x) s = rb_insert_color_loop (Some g) s' \<and>
      holds s' C (Nd (Nd a y RB_BLACK b) g RB_RED (Nd v u RB_BLACK w))"
    if "rootp a = Some x \<or> rootp b = Some x"
  proof -
    have "rbe_parent s x = Some y"
      using that y by (cases a; cases b) (auto simp: holds_def)
    moreover obtain s' where s':
      "RB_SET_BLACKRED (Some y) (Some g) (s\<lparr>rbe_color := (rbe_color s)(u := RB_BLACK)\<rparr>) = Some s'"
      "holds s' C (Nd (Nd a y RB_BLACK b) g RB_RED (Nd v u RB_BLACK w))"
      using flip_colours(1) [OF assms] by auto
    ultimately have "rb_insert_color_loop (Some x) s = rb_insert_color_loop (Some g) s'"
      by (subst rb_insert_color_loop.simps) (simp add: is_red_def f)
    then show ?thesis using s'(2) by blast
  qed
  show "\<exists>s'. rb_insert_color_loop (Some x) s = rb_insert_color_loop (Some g) s' \<and>
      holds s' C (Nd (Nd a y RB_BLACK b) g RB_RED (Nd v u RB_BLACK w))"
    if "rootp v = Some x \<or> rootp w = Some x"
  proof -
    have "rbe_parent s x = Some u"
      using that u by (cases v; cases w) (auto simp: holds_def)
    moreover obtain s' where s':
      "RB_SET_BLACKRED (Some u) (Some g) (s\<lparr>rbe_color := (rbe_color s)(y := RB_BLACK)\<rparr>) = Some s'"
      "holds s' C (Nd (Nd a y RB_BLACK b) g RB_RED (Nd v u RB_BLACK w))"
      using flip_colours(2) [OF assms] by auto
    ultimately have "rb_insert_color_loop (Some x) s = rb_insert_color_loop (Some g) s'"
      by (subst rb_insert_color_loop.simps) (simp add: is_red_def f ne ne [symmetric])
    then show ?thesis using s'(2) by blast
  qed
qed

text \<open>A black uncle or none: at most one rotation at the parent, one at the grandparent, and done.\<close>

lemma not_red_ptr: "holds s C t \<Longrightarrow> blackr t \<Longrightarrow> \<not> is_red (rootp t) s"
  by (cases t) (auto simp: is_red_def dest: holds_root)

lemma loop_black_left:
  assumes h: "holds s C (Nd (Nd a y RB_RED b) g RB_BLACK u)" and u: "blackr u"
  shows "rootp a = Some x \<Longrightarrow> \<exists>s'. rb_insert_color_loop (Some x) s = Some s' \<and>
      holds s' C (Nd a y RB_BLACK (Nd b g RB_RED u))"
    "b = Nd l x c r \<Longrightarrow> \<exists>s'. rb_insert_color_loop (Some x) s = Some s' \<and>
      holds s' C (Nd (Nd a y RB_RED l) x RB_BLACK (Nd r g RB_RED u))"
proof -
  have y: "holds s (In_left g RB_BLACK u # C) (Nd a y RB_RED b)"
    by (rule holds_left [THEN iffD1, OF h])
  have n: "\<not> is_red (rootp u) s" by (rule not_red_ptr [OF holds_right [THEN iffD1, OF h] u])
  note f = holds_root [OF h] holds_root [OF y]
  have red: "is_red (Some y) s" using f by (simp add: is_red_def)
  {
    assume a: "rootp a = Some x"
    have "rbe_parent s x = Some y" using a y by (cases a) (auto simp: holds_def)
    moreover have "rootp b \<noteq> Some x"
      using a y ptr_in [of a x] ptr_in [of b x] by (auto simp: holds_def)
    ultimately have "rb_insert_color_loop (Some x) s = do {
        s \<leftarrow> RB_SET_BLACKRED (Some y) (Some g) s; (tmp, s) \<leftarrow> RB_ROTATE_RIGHT (Some g) s;
        rb_insert_color_loop (Some x) s }"
      by (subst rb_insert_color_loop.simps) (simp add: f n red)
    then show "\<exists>s'. rb_insert_color_loop (Some x) s = Some s' \<and> holds s' C (Nd a y RB_BLACK (Nd b g RB_RED u))"
      using finish_right [OF h a] by simp
  next
    assume b: "b = Nd l x c r"
    have "rbe_parent s x = Some y" using b y by (auto simp: holds_def)
    moreover obtain s1 where s1: "RB_ROTATE_LEFT (Some y) s = Some (Some x, s1)"
      "holds s1 (In_left g RB_BLACK u # C) (Nd (Nd a y RB_RED l) x c r)"
      using holds_rotate_left [OF y [unfolded b]] by blast
    ultimately have "rb_insert_color_loop (Some x) s = do {
        s \<leftarrow> RB_SET_BLACKRED (Some x) (Some g) s1; (tmp, s) \<leftarrow> RB_ROTATE_RIGHT (Some g) s;
        rb_insert_color_loop (Some y) s }"
      by (subst rb_insert_color_loop.simps) (simp add: f n red b)
    moreover have "holds s1 C (Nd (Nd (Nd a y RB_RED l) x c r) g RB_BLACK u)"
      using s1(2) by (rule holds_left [THEN iffD2])
    ultimately show "\<exists>s'. rb_insert_color_loop (Some x) s = Some s' \<and>
        holds s' C (Nd (Nd a y RB_RED l) x RB_BLACK (Nd r g RB_RED u))"
      using finish_right [of s1 C "Nd a y RB_RED l" x c r g RB_BLACK u y] by simp
  }
qed

lemma loop_black_right:
  assumes h: "holds s C (Nd u g RB_BLACK (Nd b y RB_RED a))" and u: "blackr u"
  shows "rootp a = Some x \<Longrightarrow> \<exists>s'. rb_insert_color_loop (Some x) s = Some s' \<and>
      holds s' C (Nd (Nd u g RB_RED b) y RB_BLACK a)"
    "b = Nd l x c r \<Longrightarrow> \<exists>s'. rb_insert_color_loop (Some x) s = Some s' \<and>
      holds s' C (Nd (Nd u g RB_RED l) x RB_BLACK (Nd r y RB_RED a))"
proof -
  have y: "holds s (In_right u g RB_BLACK # C) (Nd b y RB_RED a)"
    by (rule holds_right [THEN iffD1, OF h])
  have n: "\<not> is_red (rootp u) s" by (rule not_red_ptr [OF holds_left [THEN iffD1, OF h] u])
  note f = holds_root [OF h] holds_root [OF y]
  have red: "is_red (Some y) s" using f by (simp add: is_red_def)
  have gl: "rootp u \<noteq> Some y" using h ptr_in [of u y] by (auto simp: holds_def)
  {
    assume a: "rootp a = Some x"
    have "rbe_parent s x = Some y" using a y by (cases a) (auto simp: holds_def)
    moreover have "rootp b \<noteq> Some x"
      using a y ptr_in [of a x] ptr_in [of b x] by (auto simp: holds_def)
    ultimately have "rb_insert_color_loop (Some x) s = do {
        s \<leftarrow> RB_SET_BLACKRED (Some y) (Some g) s; (tmp, s) \<leftarrow> RB_ROTATE_LEFT (Some g) s;
        rb_insert_color_loop (Some x) s }"
      using gl by (subst rb_insert_color_loop.simps) (auto simp add: f n red)
    then show "\<exists>s'. rb_insert_color_loop (Some x) s = Some s' \<and> holds s' C (Nd (Nd u g RB_RED b) y RB_BLACK a)"
      using finish_left [OF h a] by simp
  next
    assume b: "b = Nd l x c r"
    have "rbe_parent s x = Some y" using b y by (auto simp: holds_def)
    moreover obtain s1 where s1: "RB_ROTATE_RIGHT (Some y) s = Some (Some x, s1)"
      "holds s1 (In_right u g RB_BLACK # C) (Nd l x c (Nd r y RB_RED a))"
      using holds_rotate_right [OF y [unfolded b]] by blast
    ultimately have "rb_insert_color_loop (Some x) s = do {
        s \<leftarrow> RB_SET_BLACKRED (Some x) (Some g) s1; (tmp, s) \<leftarrow> RB_ROTATE_LEFT (Some g) s;
        rb_insert_color_loop (Some y) s }"
      using gl by (subst rb_insert_color_loop.simps) (auto simp add: f n red b)
    moreover have "holds s1 C (Nd u g RB_BLACK (Nd l x c (Nd r y RB_RED a)))"
      using s1(2) by (rule holds_right [THEN iffD2])
    ultimately show "\<exists>s'. rb_insert_color_loop (Some x) s = Some s' \<and>
        holds s' C (Nd (Nd u g RB_RED l) x RB_BLACK (Nd r y RB_RED a))"
      using finish_left [of s1 C u g RB_BLACK l x c "Nd r y RB_RED a" y] by simp
  }
qed

text \<open>The outcome of the loop: the same elements in a tree that is balanced but for a red root.\<close>

definition fixed :: "'e option \<Rightarrow> 'e rbheap \<Rightarrow> 'e list \<Rightarrow> bool" where
  "fixed v s xs \<longleftrightarrow> (\<exists>s' t'. rb_insert_color_loop v s = Some s' \<and> holds s' [] t' \<and> t' \<noteq> Lf \<and>
     inord t' = xs \<and> (\<exists>m. bal m t'))"

lemma fixedI:
  assumes "\<exists>s'. rb_insert_color_loop v s = Some s' \<and> holds s' C t" "inord (fill C t) = xs" "t \<noteq> Lf"
    "path_ok n C" "bal n t" "upred C \<longrightarrow> blackr t"
  shows "fixed v s xs"
proof -
  obtain s' where s': "rb_insert_color_loop v s = Some s'" "holds s' [] (fill C t)"
    using assms(1) by (auto simp: holds_fill)
  moreover have "inord (fill C t) \<noteq> []" using assms(3) by (simp add: inord_fill)
  ultimately show ?thesis
    using bal_fill [OF assms(4,5,6)] assms(2) unfolding fixed_def by (metis inord.simps(1))
qed

lemma not_red_black: "bal n t \<Longrightarrow> (\<nexists>v u w. t = Nd v u RB_RED w) \<Longrightarrow> blackr t"
  by (cases t) (auto split: if_splits)

text \<open>
  One round of the loop at a red node \<open>x\<close> with a red parent, given what the loop does from the
  grandparent on.
\<close>

abbreviation goes_on :: "'e turn list \<Rightarrow> 'e \<Rightarrow> nat \<Rightarrow> bool" where
  "goes_on C g n \<equiv> \<forall>s l r. holds s C (Nd l g RB_RED r) \<longrightarrow> bal n (Nd l g RB_RED r) \<longrightarrow>
     fixed (Some g) s (inord (fill C (Nd l g RB_RED r)))"

lemma round_left:
  assumes h: "holds s C (Nd (Nd a y RB_RED b) g RB_BLACK u)" and C: "path_ok (Suc n) C"
    and b: "bal n a" "bal n b" "bal n u" and on: "goes_on C g (Suc n)"
    and x: "a = Nd l x RB_RED r \<and> blackr b \<or> b = Nd l x RB_RED r \<and> blackr a"
  shows "fixed (Some x) s (inord (fill C (Nd (Nd a y RB_RED b) g RB_BLACK u)))"
proof (cases "\<exists>v w z. u = Nd v w RB_RED z")
  case True
  then obtain v w z where u: "u = Nd v w RB_RED z" by blast
  obtain s' where "rb_insert_color_loop (Some x) s = rb_insert_color_loop (Some g) s'"
    "holds s' C (Nd (Nd a y RB_BLACK b) g RB_RED (Nd v w RB_BLACK z))"
    using loop_red_uncle(1) [OF h [unfolded u], of x] x by auto
  then show ?thesis
    using on [rule_format, of s' "Nd a y RB_BLACK b" "Nd v w RB_BLACK z"] b u
    by (simp add: fixed_def inord_fill)
next
  case False
  then have u: "blackr u" using b(3) not_red_black by blast
  from x show ?thesis
  proof
    assume "a = Nd l x RB_RED r \<and> blackr b"
    then show ?thesis
      using loop_black_left(1) [OF h u, of x] C b u
      by (intro fixedI [of _ _ C "Nd a y RB_BLACK (Nd b g RB_RED u)" _ "Suc n"]) (auto simp: inord_fill)
  next
    assume "b = Nd l x RB_RED r \<and> blackr a"
    then show ?thesis
      using loop_black_left(2) [OF h u, of l x RB_RED r] C b u
      by (intro fixedI [of _ _ C "Nd (Nd a y RB_RED l) x RB_BLACK (Nd r g RB_RED u)" _ "Suc n"])
        (auto simp: inord_fill)
  qed
qed

lemma round_right:
  assumes h: "holds s C (Nd u g RB_BLACK (Nd b y RB_RED a))" and C: "path_ok (Suc n) C"
    and b: "bal n a" "bal n b" "bal n u" and on: "goes_on C g (Suc n)"
    and x: "a = Nd l x RB_RED r \<and> blackr b \<or> b = Nd l x RB_RED r \<and> blackr a"
  shows "fixed (Some x) s (inord (fill C (Nd u g RB_BLACK (Nd b y RB_RED a))))"
proof (cases "\<exists>v w z. u = Nd v w RB_RED z")
  case True
  then obtain v w z where u: "u = Nd v w RB_RED z" by blast
  obtain s' where "rb_insert_color_loop (Some x) s = rb_insert_color_loop (Some g) s'"
    "holds s' C (Nd (Nd v w RB_BLACK z) g RB_RED (Nd b y RB_BLACK a))"
    using loop_red_uncle(2) [OF h [unfolded u], of x] x by auto
  then show ?thesis
    using on [rule_format, of s' "Nd v w RB_BLACK z" "Nd b y RB_BLACK a"] b u
    by (simp add: fixed_def inord_fill)
next
  case False
  then have u: "blackr u" using b(3) not_red_black by blast
  from x show ?thesis
  proof
    assume "a = Nd l x RB_RED r \<and> blackr b"
    then show ?thesis
      using loop_black_right(1) [OF h u, of x] C b u
      by (intro fixedI [of _ _ C "Nd (Nd u g RB_RED b) y RB_BLACK a" _ "Suc n"]) (auto simp: inord_fill)
  next
    assume "b = Nd l x RB_RED r \<and> blackr a"
    then show ?thesis
      using loop_black_right(2) [OF h u, of l x RB_RED r] C b u
      by (intro fixedI [of _ _ C "Nd (Nd u g RB_RED l) x RB_BLACK (Nd r y RB_RED a)" _ "Suc n"])
        (auto simp: inord_fill)
  qed
qed

lemma red_parent_cases:
  assumes "upred C" "path_ok n C"
  obtains p b g u D where "C = In_left p RB_RED b # In_left g RB_BLACK u # D" "bal n b" "blackr b" "bal n u" "path_ok (Suc n) D"
  | p b g u D where "C = In_right b p RB_RED # In_left g RB_BLACK u # D" "bal n b" "blackr b" "bal n u" "path_ok (Suc n) D"
  | p b g u D where "C = In_left p RB_RED b # In_right u g RB_BLACK # D" "bal n b" "blackr b" "bal n u" "path_ok (Suc n) D"
  | p b g u D where "C = In_right b p RB_RED # In_right u g RB_BLACK # D" "bal n b" "blackr b" "bal n u" "path_ok (Suc n) D"
  using assms by (cases C rule: up.cases; cases "tl C" rule: up.cases; fastforce split: if_splits)

lemma insert_color_loop:
  fixes C :: "'e turn list"
  shows "holds s C (Nd l x RB_RED r) \<Longrightarrow> path_ok n C \<Longrightarrow> bal n (Nd l x RB_RED r) \<Longrightarrow>
    fixed (Some x) s (inord (fill C (Nd l x RB_RED r)))"
proof (induction "length C" arbitrary: C s l x r n rule: less_induct)
  case less
  let ?t = "Nd l x RB_RED r"
  have on: "length D < length C \<Longrightarrow> path_ok (Suc n) D \<Longrightarrow> goes_on D g (Suc n)" for D :: "'e turn list" and g
    by (intro allI impI less.hyps)
  show ?case
  proof (cases "upred C")
    case False
    then show ?thesis
      using loop_exit [OF less.prems(1) _ False, of x] less.prems by (intro fixedI [of _ _ C ?t _ n]) auto
  next
    case True
    from True less.prems(2) show ?thesis
    proof (cases rule: red_parent_cases)
      case (1 p b g u D)
      then show ?thesis using round_left [of s D ?t p b g u n l x r] on [of D g] less.prems(1,3)
        by (simp add: holds_left [symmetric])
    next
      case (2 p b g u D)
      then show ?thesis using round_left [of s D b p ?t g u n l x r] on [of D g] less.prems(1,3)
        by (simp add: holds_left [symmetric] holds_right [symmetric])
    next
      case (3 p b g u D)
      then show ?thesis using round_right [of s D u g ?t p b n l x r] on [of D g] less.prems(1,3)
        by (simp add: holds_left [symmetric] holds_right [symmetric])
    next
      case (4 p b g u D)
      then show ?thesis using round_right [of s D u g b p ?t n l x r] on [of D g] less.prems(1,3)
        by (simp add: holds_right [symmetric])
    qed
  qed
qed

section \<open>Insertion\<close>

lemma blacken_root:
  assumes "holds s [] t" "t \<noteq> Lf" "bal m t"
  shows "\<exists>s' t'. set_rbcolor (RB_ROOT s) RB_BLACK s = Some s' \<and> rbtree s' t' \<and> rb_ok t' \<and> inord t' = inord t"
proof (cases t)
  case (Nd l x c r)
  have "rbh_root s = Some x" using assms(1) Nd by (simp add: holds_def)
  moreover have "rbtree (s\<lparr>rbe_color := (rbe_color s)(x := RB_BLACK)\<rparr>) (Nd l x RB_BLACK r)"
    using holds_color [OF assms(1) [unfolded Nd]] by (simp add: rbtree_def)
  moreover have "rb_ok (Nd l x RB_BLACK r)"
    using assms(3) Nd by (auto simp: rb_ok_def split: if_splits)
  ultimately show ?thesis using Nd by auto
qed (use assms in simp)

lemma insert_color:
  assumes "holds s C (Nd l x RB_RED r)" "path_ok n C" "bal n (Nd l x RB_RED r)"
  shows "\<exists>s' t'. RB_INSERT_COLOR (Some x) s = Some s' \<and> rbtree s' t' \<and> rb_ok t' \<and>
    inord t' = inord (fill C (Nd l x RB_RED r))"
proof -
  obtain s1 t1 m where "rb_insert_color_loop (Some x) s = Some s1" "holds s1 [] t1" "t1 \<noteq> Lf"
    "inord t1 = inord (fill C (Nd l x RB_RED r))" "bal m t1"
    using insert_color_loop [OF assms] by (auto simp: fixed_def)
  then show ?thesis using blacken_root [of s1 t1 m] by (auto simp: RB_INSERT_COLOR_def)
qed

text \<open>The search ends at an element that compares equal, or at an empty position where the new element fits.\<close>

lemma search_simps [simp]:
  "rb_insert_search cmp elm s p k None = Some (Inr (p, k))"
  "rb_insert_search cmp elm s p k (Some t) = (
       if cmp elm t < 0 then rb_insert_search cmp elm s (Some t) (cmp elm t) (rbe_left s t)
       else if cmp elm t > 0 then rb_insert_search cmp elm s (Some t) (cmp elm t) (rbe_right s t)
       else Some (Inl t))"
  by (subst rb_insert_search.simps; simp add: Let_def)+

fun came_from :: "'e turn list \<Rightarrow> int \<Rightarrow> bool" where
  "came_from [] k \<longleftrightarrow> True"
| "came_from (In_left x c r # C) k \<longleftrightarrow> k < 0"
| "came_from (In_right l x c # C) k \<longleftrightarrow> 0 < k"

definition lands :: "('e \<Rightarrow> 'k::linorder) \<Rightarrow> 'e \<Rightarrow> 'e rbheap \<Rightarrow> 'e ctree \<Rightarrow> 'e list \<Rightarrow>
    ('e + 'e option \<times> int) option \<Rightarrow> bool" where
  "lands key x s t ys res \<longleftrightarrow>
     (\<exists>y \<in> set ys. key y = key x \<and> res = Some (Inl y)) \<or>
     (\<exists>D k. fill D Lf = t \<and> holds s D Lf \<and> came_from D k \<and> res = Some (Inr (up D, k)) \<and>
       (\<forall>y \<in> set (lefts D). key y < key x) \<and> (\<forall>y \<in> set (rights D). key x < key y))"

lemma lands_mono: "lands key x s t ys res \<Longrightarrow> set ys \<subseteq> set zs \<Longrightarrow> lands key x s t zs res"
  by (auto simp: lands_def)

lemma insert_search:
  assumes cmp: "compares cmp key"
  shows "holds s C t \<Longrightarrow> ascending key (lefts C @ inord t @ rights C) \<Longrightarrow> came_from C k \<Longrightarrow>
    (\<forall>y \<in> set (lefts C). key y < key x) \<Longrightarrow> (\<forall>y \<in> set (rights C). key x < key y) \<Longrightarrow>
    lands key x s (fill C t) (inord t) (rb_insert_search cmp x s (up C) k (rootp t))"
proof (induction t arbitrary: C k)
  case Lf
  then show ?case by (auto simp: lands_def)
next
  case (Nd l y c r)
  note [simp] = compares_simps [OF cmp]
  note f = holds_root [OF Nd.prems(1)]
  have l: "holds s (In_left y c r # C) l" and r: "holds s (In_right l y c # C) r"
    using Nd.prems(1) holds_left [of s C l y c r] holds_right [of s C l y c r] by blast+
  consider "key x < key y" | "key y < key x" | "key x = key y" by fastforce
  then show ?case
  proof cases
    case 1
    then have "\<forall>z \<in> set (rights (In_left y c r # C)). key x < key z"
      using Nd.prems(2,5) by (auto intro: less_trans)
    then have "lands key x s (fill C (Nd l y c r)) (inord l) (rb_insert_search cmp x s (Some y) (cmp x y) (rootp l))"
      using Nd.IH(1) [OF l, of "cmp x y"] Nd.prems(2,4) 1 by simp
    then show ?thesis using 1 f by (auto intro: lands_mono)
  next
    case 2
    then have "\<forall>z \<in> set (lefts (In_right l y c # C)). key z < key x"
      using Nd.prems(2,4) by (auto intro: less_trans)
    then have "lands key x s (fill C (Nd l y c r)) (inord r) (rb_insert_search cmp x s (Some y) (cmp x y) (rootp r))"
      using Nd.IH(2) [OF r, of "cmp x y"] Nd.prems(2,5) 2 by simp
    then show ?thesis using 2 f by (auto intro: lands_mono)
  next
    case 3
    then show ?thesis using f by (simp add: lands_def)
  qed
qed

text \<open>Linking a new element at an empty position.\<close>

lemma link_new:
  assumes "holds s D Lf" "x \<notin> set (lefts D @ rights D)" "came_from D k"
  shows "\<exists>s'. do { s \<leftarrow> RB_SET (Some x) (up D) s;
        (if up D \<noteq> None then if k < 0 then set_rbleft (up D) (Some x) s else set_rbright (up D) (Some x) s
         else Some (set_rbroot (Some x) s)) } = Some s' \<and> holds s' D (Nd Lf x RB_RED Lf)"
  using assms by (cases D rule: up.cases) (auto simp: holds_def RB_SET_def)

lemma rb_insert_ok:
  assumes "rbtree s t" "rb_ok t" "compares cmp key" "ascending key (inord t)" "x \<notin> set (inord t)"
  shows "(\<exists>y \<in> set (inord t). key y = key x \<and> RB_INSERT cmp x s = Some (Some y, s)) \<or>
    (\<exists>s' t' as bs. RB_INSERT cmp x s = Some (None, s') \<and> rbtree s' t' \<and> rb_ok t' \<and>
      inord t = as @ bs \<and> inord t' = as @ x # bs \<and> ascending key (as @ x # bs))"
proof -
  have "rbh_root s = rootp t" using assms(1) by (simp add: rbtree_def holds_def)
  moreover have "lands key x s t (inord t) (rb_insert_search cmp x s None 0 (rootp t))"
    using insert_search [OF assms(3), of s "[]" t 0 x] assms(1,4) by (simp add: rbtree_def)
  ultimately consider y where "y \<in> set (inord t)" "key y = key x" "rb_insert_search cmp x s None 0 (RB_ROOT s) = Some (Inl y)"
    | D k where "fill D Lf = t" "holds s D Lf" "came_from D k"
      "rb_insert_search cmp x s None 0 (RB_ROOT s) = Some (Inr (up D, k))"
      "\<forall>y \<in> set (lefts D). key y < key x" "\<forall>y \<in> set (rights D). key x < key y"
    unfolding lands_def by auto
  then show ?thesis
  proof cases
    case 1
    then show ?thesis by (auto simp: RB_INSERT_def)
  next
    case (2 D k)
    have t: "inord t = lefts D @ rights D" using 2(1) inord_fill [of D Lf] by simp
    obtain s1 where s1: "do { s \<leftarrow> RB_SET (Some x) (up D) s;
        (if up D \<noteq> None then if k < 0 then set_rbleft (up D) (Some x) s else set_rbright (up D) (Some x) s
         else Some (set_rbroot (Some x) s)) } = Some s1" "holds s1 D (Nd Lf x RB_RED Lf)"
      using link_new [OF 2(2) _ 2(3)] assms(5) t by auto
    obtain n where n: "path_ok n D" "bal n (Lf :: 'a ctree)"
      using assms(2) 2(1) fill_bal by (fastforce simp: rb_ok_def)
    obtain s' t' where "RB_INSERT_COLOR (Some x) s1 = Some s'" "rbtree s' t'" "rb_ok t'"
      "inord t' = lefts D @ x # rights D"
      using insert_color [OF s1(2) n(1)] n(2) by (auto simp: inord_fill)
    moreover have "ascending key (lefts D @ x # rights D)" using assms(4) t 2(5,6) by auto
    ultimately show ?thesis
      using s1(1) 2(4) t by (fastforce simp: RB_INSERT_def bind_eq_Some_conv)
  qed
qed

end
