(* ===== verification/Rb_Remove.thy ===== *)
theory Rb_Remove
  imports Rb_Insert
begin

text \<open>
  Removing from a red-black tree: \<open>RB_REMOVE\<close> unlinks the element, or the next one in its place,
  and lets \<open>RB_REMOVE_COLOR\<close> give back the black node that a path may have lost.
\<close>

section \<open>The code\<close>

text \<open>\<open>p == NULL || RB_COLOR(p) == RB_BLACK\<close>\<close>

definition null_or_black :: "'e option \<Rightarrow> 'e rbheap \<Rightarrow> bool" where
  "null_or_black p s = (case p of None \<Rightarrow> True | Some e \<Rightarrow> rbe_color s e = RB_BLACK)"

definition set_color_if :: "'e option \<Rightarrow> int \<Rightarrow> 'e rbheap \<Rightarrow> 'e rbheap option" where
  "set_color_if p c s = (if p \<noteq> None then set_rbcolor p c s else Some s)"

definition set_parent_if :: "'e option \<Rightarrow> 'e option \<Rightarrow> 'e rbheap \<Rightarrow> 'e rbheap option" where
  "set_parent_if p q s = (if p \<noteq> None then set_rbparent p q s else Some s)"

partial_function (option) rb_remove_color_loop ::
  "'e option \<Rightarrow> 'e option \<Rightarrow> 'e rbheap \<Rightarrow> ('e option \<times> 'e rbheap) option" where
  "rb_remove_color_loop parent elm s =
    (if null_or_black elm s \<and> elm \<noteq> RB_ROOT s then do {
       pl \<leftarrow> RB_LEFT parent s;
       if pl = elm then do {
         tmp \<leftarrow> RB_RIGHT parent s;
         k \<leftarrow> RB_COLOR tmp s;
         (tmp, s) \<leftarrow> (if k = RB_RED then do {
             s \<leftarrow> RB_SET_BLACKRED tmp parent s;
             (w, s) \<leftarrow> RB_ROTATE_LEFT parent s;
             tmp \<leftarrow> RB_RIGHT parent s;
             Some (tmp, s) }
           else Some (tmp, s));
         tl \<leftarrow> RB_LEFT tmp s;
         tr \<leftarrow> RB_RIGHT tmp s;
         if null_or_black tl s \<and> null_or_black tr s then do {
           s \<leftarrow> set_rbcolor tmp RB_RED s;
           gp \<leftarrow> RB_PARENT parent s;
           rb_remove_color_loop gp parent s }
         else do {
           (tmp, s) \<leftarrow> (if null_or_black tr s then do {
               oleft \<leftarrow> RB_LEFT tmp s;
               s \<leftarrow> set_color_if oleft RB_BLACK s;
               s \<leftarrow> set_rbcolor tmp RB_RED s;
               (w, s) \<leftarrow> RB_ROTATE_RIGHT tmp s;
               tmp \<leftarrow> RB_RIGHT parent s;
               Some (tmp, s) }
             else Some (tmp, s));
           pc \<leftarrow> RB_COLOR parent s;
           s \<leftarrow> set_rbcolor tmp pc s;
           s \<leftarrow> set_rbcolor parent RB_BLACK s;
           tr \<leftarrow> RB_RIGHT tmp s;
           s \<leftarrow> set_color_if tr RB_BLACK s;
           (w, s) \<leftarrow> RB_ROTATE_LEFT parent s;
           Some (RB_ROOT s, s) } }
       else do {
         tmp \<leftarrow> RB_LEFT parent s;
         k \<leftarrow> RB_COLOR tmp s;
         (tmp, s) \<leftarrow> (if k = RB_RED then do {
             s \<leftarrow> RB_SET_BLACKRED tmp parent s;
             (w, s) \<leftarrow> RB_ROTATE_RIGHT parent s;
             tmp \<leftarrow> RB_LEFT parent s;
             Some (tmp, s) }
           else Some (tmp, s));
         tl \<leftarrow> RB_LEFT tmp s;
         tr \<leftarrow> RB_RIGHT tmp s;
         if null_or_black tl s \<and> null_or_black tr s then do {
           s \<leftarrow> set_rbcolor tmp RB_RED s;
           gp \<leftarrow> RB_PARENT parent s;
           rb_remove_color_loop gp parent s }
         else do {
           (tmp, s) \<leftarrow> (if null_or_black tl s then do {
               oright \<leftarrow> RB_RIGHT tmp s;
               s \<leftarrow> set_color_if oright RB_BLACK s;
               s \<leftarrow> set_rbcolor tmp RB_RED s;
               (w, s) \<leftarrow> RB_ROTATE_LEFT tmp s;
               tmp \<leftarrow> RB_LEFT parent s;
               Some (tmp, s) }
             else Some (tmp, s));
           pc \<leftarrow> RB_COLOR parent s;
           s \<leftarrow> set_rbcolor tmp pc s;
           s \<leftarrow> set_rbcolor parent RB_BLACK s;
           tl \<leftarrow> RB_LEFT tmp s;
           s \<leftarrow> set_color_if tl RB_BLACK s;
           (w, s) \<leftarrow> RB_ROTATE_RIGHT parent s;
           Some (RB_ROOT s, s) } } }
     else Some (elm, s))"

definition RB_REMOVE_COLOR :: "'e option \<Rightarrow> 'e option \<Rightarrow> 'e rbheap \<Rightarrow> 'e rbheap option" where
  "RB_REMOVE_COLOR parent elm s = do {
     (elm, s) \<leftarrow> rb_remove_color_loop parent elm s;
     set_color_if elm RB_BLACK s }"

text \<open>\<open>if (parent) \<dots> = v else RB_ROOT(head) = v\<close>: let what points to \<open>old\<close> point to \<open>v\<close>.\<close>

definition rb_relink :: "'e option \<Rightarrow> 'e option \<Rightarrow> 'e option \<Rightarrow> 'e rbheap \<Rightarrow> 'e rbheap option" where
  "rb_relink parent old v s = (if parent \<noteq> None then do {
       pl \<leftarrow> RB_LEFT parent s;
       if pl = old then set_rbleft parent v s else set_rbright parent v s }
     else Some (set_rbroot v s))"

text \<open>The walk up that calls the empty \<open>RB_AUGMENT\<close> on every ancestor.\<close>

partial_function (option) rb_augment_up :: "'e \<Rightarrow> 'e rbheap \<Rightarrow> unit option" where
  "rb_augment_up left s = (case rbe_parent s left of None \<Rightarrow> Some () | Some p \<Rightarrow> rb_augment_up p s)"

text \<open>\<open>(elm)->field = (old)->field\<close>\<close>

definition rb_copy :: "'e \<Rightarrow> 'e \<Rightarrow> 'e rbheap \<Rightarrow> 'e rbheap" where
  "rb_copy elm old s = s\<lparr>rbe_left := (rbe_left s)(elm := rbe_left s old),
     rbe_right := (rbe_right s)(elm := rbe_right s old),
     rbe_parent := (rbe_parent s)(elm := rbe_parent s old),
     rbe_color := (rbe_color s)(elm := rbe_color s old)\<rparr>"

definition RB_REMOVE :: "'e \<Rightarrow> 'e rbheap \<Rightarrow> ('e \<times> 'e rbheap) option" where
  "RB_REMOVE old s = do {
     l \<leftarrow> RB_LEFT (Some old) s;
     r \<leftarrow> RB_RIGHT (Some old) s;
     (color, parent, child, s) \<leftarrow> (if l = None \<or> r = None then do {
         let child = (if l = None then r else l);
         parent \<leftarrow> RB_PARENT (Some old) s;
         color \<leftarrow> RB_COLOR (Some old) s;
         s \<leftarrow> set_parent_if child parent s;
         s \<leftarrow> rb_relink parent (Some old) child s;
         Some (color, parent, child, s) }
       else do {
         elm \<leftarrow> rb_descend (rbe_left s) (the r);
         child \<leftarrow> RB_RIGHT (Some elm) s;
         parent \<leftarrow> RB_PARENT (Some elm) s;
         color \<leftarrow> RB_COLOR (Some elm) s;
         s \<leftarrow> set_parent_if child parent s;
         s \<leftarrow> rb_relink parent (Some elm) child s;
         ep \<leftarrow> RB_PARENT (Some elm) s;
         let parent = (if ep = Some old then Some elm else parent);
         s \<leftarrow> Some (rb_copy elm old s);
         op \<leftarrow> RB_PARENT (Some old) s;
         s \<leftarrow> rb_relink op (Some old) (Some elm) s;
         ol \<leftarrow> RB_LEFT (Some old) s;
         s \<leftarrow> set_rbparent ol (Some elm) s;
         or \<leftarrow> RB_RIGHT (Some old) s;
         s \<leftarrow> set_parent_if or (Some elm) s;
         (case parent of None \<Rightarrow> Some () | Some p \<Rightarrow> rb_augment_up p s);
         Some (color, parent, child, s) });
     s \<leftarrow> (if color = RB_BLACK then RB_REMOVE_COLOR parent child s else Some s);
     Some (old, s) }"

section \<open>Giving back a black node\<close>

text \<open>The heap ends up with a red-black tree of the elements \<open>xs\<close>.\<close>

definition mended :: "'e rbheap option \<Rightarrow> 'e list \<Rightarrow> bool" where
  "mended m xs \<longleftrightarrow> (\<exists>s' t'. m = Some s' \<and> rbtree s' t' \<and> rb_ok t' \<and> inord t' = xs)"

lemma mendedI:
  assumes "holds s C t" "path_ok n C" "bal n t" "upred C \<longrightarrow> blackr t" "C \<noteq> [] \<or> blackr t"
    "inord (fill C t) = xs"
  shows "mended (Some s) xs"
  using assms bal_fill [OF assms(2-4)] rbtree_holds [of s C t]
  by (auto simp: mended_def rb_ok_def intro!: exI [of _ "fill C t"])

lemma mend_exit_red:
  assumes "holds s C (Nd l x RB_RED r)" "bal (Suc n) (Nd l x RB_BLACK r)" "path_ok (Suc n) C"
  shows "mended (RB_REMOVE_COLOR (up C) (Some x) s) (inord (fill C (Nd l x RB_RED r)))"
proof -
  have "\<not> null_or_black (Some x) s" using holds_root [OF assms(1)] by (simp add: null_or_black_def)
  then have "RB_REMOVE_COLOR (up C) (Some x) s = Some (s\<lparr>rbe_color := (rbe_color s)(x := RB_BLACK)\<rparr>)"
    by (simp add: RB_REMOVE_COLOR_def rb_remove_color_loop.simps [of _ "Some x"] set_color_if_def)
  then show ?thesis
    using assms(2,3) by (auto intro!: mendedI [OF holds_color [OF assms(1)]] simp: inord_fill)
qed

lemma mend_exit_root:
  assumes "holds s [] t" "bal n t"
  shows "mended (RB_REMOVE_COLOR p (rootp t) s) (inord t)"
proof -
  have "RB_ROOT s = rootp t" using assms(1) by (simp add: holds_def)
  then have loop: "rb_remove_color_loop p (rootp t) s = Some (rootp t, s)"
    by (simp add: rb_remove_color_loop.simps [of _ "rootp t"])
  show ?thesis
  proof (cases t)
    case Lf
    then show ?thesis using loop assms
      by (auto simp: RB_REMOVE_COLOR_def set_color_if_def intro!: mendedI [of s "[]" Lf 0])
  next
    case (Nd l x c r)
    have "holds (s\<lparr>rbe_color := (rbe_color s)(x := RB_BLACK)\<rparr>) [] (Nd l x RB_BLACK r)"
      using assms(1) Nd by (auto intro: holds_color)
    then show ?thesis using loop assms(2) Nd
      by (auto simp: RB_REMOVE_COLOR_def set_color_if_def split: if_splits
          intro!: mendedI [of _ "[]" "Nd l x RB_BLACK r" "if c = RB_RED then Suc n else n"])
  qed
qed

text \<open>The root is above every other position.\<close>

lemma ptr_fill: "C \<noteq> [] \<Longrightarrow> \<exists>e \<in> set (lefts C @ rights C). rootp (fill C t) = Some e"
proof (induction C t rule: fill.induct)
  case (2 x c r C t)
  then show ?case by (cases C) auto
next
  case (3 l x c C t)
  then show ?case by (cases C) auto
qed simp

lemma root_above:
  assumes "holds s C t" "C \<noteq> []"
  shows "rbh_root s \<noteq> rootp t"
proof -
  have "holds s [] (fill C t)" using assms(1) by (simp add: holds_fill)
  then have "rbh_root s = rootp (fill C t)" by (simp add: holds_def)
  moreover obtain e where "e \<in> set (lefts C @ rights C)" "rootp (fill C t) = Some e"
    using ptr_fill [OF assms(2)] by blast
  ultimately show ?thesis using assms(1) by (cases t) (auto simp: holds_def)
qed

lemma null_or_black_ptr: "holds s C t \<Longrightarrow> null_or_black (rootp t) s \<longleftrightarrow> blackr t"
  by (cases t) (auto simp: null_or_black_def dest: holds_root)

text \<open>What the loop reads at a position below \<open>p\<close>.\<close>

lemma reads_left:
  assumes "holds s C (Nd t p c u)"
  shows "rbe_left s p = rootp t" "rbe_right s p = rootp u" "rbe_parent s p = up C" "rbe_color s p = c"
    "rootp t \<noteq> rbh_root s" "null_or_black (rootp t) s \<longleftrightarrow> blackr t" "null_or_black (rootp u) s \<longleftrightarrow> blackr u"
  using holds_root [OF assms] root_above [OF holds_left [THEN iffD1, OF assms], THEN not_sym]
    null_or_black_ptr [OF holds_left [THEN iffD1, OF assms]]
    null_or_black_ptr [OF holds_right [THEN iffD1, OF assms]] by simp_all

lemma reads_right:
  assumes "holds s C (Nd u p c t)" "u \<noteq> Lf"
  shows "rbe_right s p = rootp t" "rbe_left s p = rootp u" "rbe_parent s p = up C" "rbe_color s p = c"
    "rootp t \<noteq> rbh_root s" "null_or_black (rootp t) s \<longleftrightarrow> blackr t" "null_or_black (rootp u) s \<longleftrightarrow> blackr u"
    "rootp u \<noteq> rootp t"
proof -
  show "rbe_right s p = rootp t" "rbe_left s p = rootp u" "rbe_parent s p = up C" "rbe_color s p = c"
    "rootp t \<noteq> rbh_root s" "null_or_black (rootp t) s \<longleftrightarrow> blackr t" "null_or_black (rootp u) s \<longleftrightarrow> blackr u"
    using holds_root [OF assms(1)] root_above [OF holds_right [THEN iffD1, OF assms(1)], THEN not_sym]
      null_or_black_ptr [OF holds_left [THEN iffD1, OF assms(1)]]
      null_or_black_ptr [OF holds_right [THEN iffD1, OF assms(1)]] by simp_all
  show "rootp u \<noteq> rootp t"
    using assms by (cases u; cases t) (auto simp: holds_def)
qed

lemma red_sibling_left:
  assumes h: "holds s C (Nd t p c (Nd wl w RB_RED wr))" and b: "blackr t" "blackr wl" "wl \<noteq> Lf"
  shows "\<exists>s'. rb_remove_color_loop (Some p) (rootp t) s = rb_remove_color_loop (Some p) (rootp t) s' \<and>
    holds s' C (Nd (Nd t p RB_RED wl) w RB_BLACK wr)"
proof -
  obtain s1 where s1: "RB_SET_BLACKRED (Some w) (Some p) s = Some s1"
    "holds s1 C (Nd t p RB_RED (Nd wl w RB_BLACK wr))" using set_blackred(2) [OF h] by blast
  obtain s2 where s2: "RB_ROTATE_LEFT (Some p) s1 = Some (Some w, s2)"
    "holds s2 C (Nd (Nd t p RB_RED wl) w RB_BLACK wr)" using holds_rotate_left [OF s1(2)] by blast
  obtain a v k z where v: "wl = Nd a v k z" using b(3) by (cases wl) auto
  have p2: "holds s2 (In_left w RB_BLACK wr # C) (Nd t p RB_RED wl)" by (rule holds_left [THEN iffD1, OF s2(2)])
  have w: "rbe_color s w = RB_RED" "rbe_color s2 v = RB_BLACK"
    using holds_root [OF holds_right [THEN iffD1, OF h]] b(2)
      holds_root [OF holds_right [THEN iffD1, OF p2, unfolded v]] v by simp_all
  have "rb_remove_color_loop (Some p) (rootp t) s = rb_remove_color_loop (Some p) (rootp t) s2"
    by (subst (1 2) rb_remove_color_loop.simps)
      (simp add: reads_left [OF h] reads_left [OF p2] s1(1) s2(1) w b v)
  then show ?thesis using s2(2) by blast
qed

lemma red_sibling_right:
  assumes h: "holds s C (Nd (Nd wl w RB_RED wr) p c t)" and b: "blackr t" "blackr wr" "wr \<noteq> Lf"
  shows "\<exists>s'. rb_remove_color_loop (Some p) (rootp t) s = rb_remove_color_loop (Some p) (rootp t) s' \<and>
    holds s' C (Nd wl w RB_BLACK (Nd wr p RB_RED t))"
proof -
  obtain s1 where s1: "RB_SET_BLACKRED (Some w) (Some p) s = Some s1"
    "holds s1 C (Nd (Nd wl w RB_BLACK wr) p RB_RED t)" using set_blackred(1) [OF h] by blast
  obtain s2 where s2: "RB_ROTATE_RIGHT (Some p) s1 = Some (Some w, s2)"
    "holds s2 C (Nd wl w RB_BLACK (Nd wr p RB_RED t))" using holds_rotate_right [OF s1(2)] by blast
  obtain a v k z where v: "wr = Nd a v k z" using b(3) by (cases wr) auto
  have p2: "holds s2 (In_right wl w RB_BLACK # C) (Nd wr p RB_RED t)" by (rule holds_right [THEN iffD1, OF s2(2)])
  have w: "rbe_color s w = RB_RED" "rbe_color s2 v = RB_BLACK"
    using holds_root [OF holds_left [THEN iffD1, OF h]] b(2)
      holds_root [OF holds_left [THEN iffD1, OF p2, unfolded v]] v by simp_all
  have ne: "Some w \<noteq> rootp t" "Some v \<noteq> rootp t"
    using reads_right(8) [OF h] reads_right(8) [OF p2 b(3)] v by simp_all
  have "rb_remove_color_loop (Some p) (rootp t) s = rb_remove_color_loop (Some p) (rootp t) s2"
    by (subst (1 2) rb_remove_color_loop.simps)
      (simp add: reads_right [OF h] reads_right [OF p2 b(3)] s1(1) s2(1) w b v ne)
  then show ?thesis using s2(2) by blast
qed

text \<open>A black sibling with an outer child that is black and an inner one that is red: turn it.\<close>

lemma turn_sibling_left:
  assumes h: "holds s C (Nd t p c (Nd (Nd a v RB_RED b) w RB_BLACK wr))" and b: "blackr t" "blackr wr"
  shows "\<exists>s'. rb_remove_color_loop (Some p) (rootp t) s = rb_remove_color_loop (Some p) (rootp t) s' \<and>
    holds s' C (Nd t p c (Nd a v RB_BLACK (Nd b w RB_RED wr)))"
proof -
  have hw: "holds s (In_right t p c # C) (Nd (Nd a v RB_RED b) w RB_BLACK wr)"
    by (rule holds_right [THEN iffD1, OF h])
  have "holds (s\<lparr>rbe_color := (rbe_color s)(v := RB_BLACK, w := RB_RED)\<rparr>) (In_right t p c # C)
      (Nd (Nd a v RB_BLACK b) w RB_RED wr)"
    using hw by (auto simp: holds_def)
  from holds_rotate_right [OF this] obtain s2 where s2:
    "RB_ROTATE_RIGHT (Some w) (s\<lparr>rbe_color := (rbe_color s)(v := RB_BLACK, w := RB_RED)\<rparr>) = Some (Some v, s2)"
    "holds s2 (In_right t p c # C) (Nd a v RB_BLACK (Nd b w RB_RED wr))"
    by blast
  have h2: "holds s2 C (Nd t p c (Nd a v RB_BLACK (Nd b w RB_RED wr)))" by (rule holds_right [THEN iffD2, OF s2(2)])
  note f = reads_left [OF h] reads_left [OF h2] holds_root [OF s2(2)] holds_root [OF hw] reads_left [OF hw] reads_left [OF s2(2)]
  have "rb_remove_color_loop (Some p) (rootp t) s = rb_remove_color_loop (Some p) (rootp t) s2"
    by (subst (1 2) rb_remove_color_loop.simps)
      (use f s2(1) b in \<open>simp add: set_color_if_def null_or_black_def\<close>)
  then show ?thesis using h2 by blast
qed

lemma turn_sibling_right:
  assumes h: "holds s C (Nd (Nd wl w RB_BLACK (Nd a v RB_RED b)) p c t)" and b: "blackr t" "blackr wl"
  shows "\<exists>s'. rb_remove_color_loop (Some p) (rootp t) s = rb_remove_color_loop (Some p) (rootp t) s' \<and>
    holds s' C (Nd (Nd (Nd wl w RB_RED a) v RB_BLACK b) p c t)"
proof -
  have hw: "holds s (In_left p c t # C) (Nd wl w RB_BLACK (Nd a v RB_RED b))"
    by (rule holds_left [THEN iffD1, OF h])
  have "holds (s\<lparr>rbe_color := (rbe_color s)(v := RB_BLACK, w := RB_RED)\<rparr>) (In_left p c t # C)
      (Nd wl w RB_RED (Nd a v RB_BLACK b))"
    using hw by (auto simp: holds_def)
  from holds_rotate_left [OF this] obtain s2 where s2:
    "RB_ROTATE_LEFT (Some w) (s\<lparr>rbe_color := (rbe_color s)(v := RB_BLACK, w := RB_RED)\<rparr>) = Some (Some v, s2)"
    "holds s2 (In_left p c t # C) (Nd (Nd wl w RB_RED a) v RB_BLACK b)"
    by blast
  have h2: "holds s2 C (Nd (Nd (Nd wl w RB_RED a) v RB_BLACK b) p c t)" by (rule holds_left [THEN iffD2, OF s2(2)])
  note f = reads_right [OF h] reads_right [OF h2] holds_root [OF s2(2)] holds_root [OF hw] reads_left [OF hw] reads_left [OF s2(2)]
  have "rb_remove_color_loop (Some p) (rootp t) s = rb_remove_color_loop (Some p) (rootp t) s2"
    by (subst (1 2) rb_remove_color_loop.simps)
      (use f s2(1) b in \<open>simp add: set_color_if_def null_or_black_def\<close>)
  then show ?thesis using h2 by blast
qed

text \<open>A black sibling with black children: it turns red, and the loop goes on one level up.\<close>

lemma flip_sibling:
  "holds s C (Nd t p c (Nd wl w RB_BLACK wr)) \<Longrightarrow> blackr t \<Longrightarrow> blackr wl \<Longrightarrow> blackr wr \<Longrightarrow>
    \<exists>s'. rb_remove_color_loop (Some p) (rootp t) s = rb_remove_color_loop (up C) (Some p) s' \<and>
      holds s' C (Nd t p c (Nd wl w RB_RED wr))"
  "holds s C (Nd (Nd wl w RB_BLACK wr) p c t) \<Longrightarrow> blackr t \<Longrightarrow> blackr wl \<Longrightarrow> blackr wr \<Longrightarrow>
    \<exists>s'. rb_remove_color_loop (Some p) (rootp t) s = rb_remove_color_loop (up C) (Some p) s' \<and>
      holds s' C (Nd (Nd wl w RB_RED wr) p c t)"
proof -
  assume h: "holds s C (Nd t p c (Nd wl w RB_BLACK wr))" and b: "blackr t" "blackr wl" "blackr wr"
  let ?s = "s\<lparr>rbe_color := (rbe_color s)(w := RB_RED)\<rparr>"
  note hw = holds_right [THEN iffD1, OF h]
  have "rb_remove_color_loop (Some p) (rootp t) s = rb_remove_color_loop (up C) (Some p) ?s"
    by (subst rb_remove_color_loop.simps)
      (use reads_left [OF h] holds_root [OF hw] reads_left [OF hw] b in \<open>simp\<close>)
  then show "\<exists>s'. rb_remove_color_loop (Some p) (rootp t) s = rb_remove_color_loop (up C) (Some p) s' \<and>
      holds s' C (Nd t p c (Nd wl w RB_RED wr))"
    using holds_right [THEN iffD2, OF holds_color [OF hw, of RB_RED]] by blast
next
  assume h: "holds s C (Nd (Nd wl w RB_BLACK wr) p c t)" and b: "blackr t" "blackr wl" "blackr wr"
  let ?s = "s\<lparr>rbe_color := (rbe_color s)(w := RB_RED)\<rparr>"
  note hw = holds_left [THEN iffD1, OF h]
  have "rb_remove_color_loop (Some p) (rootp t) s = rb_remove_color_loop (up C) (Some p) ?s"
    by (subst rb_remove_color_loop.simps)
      (use reads_right [OF h] holds_root [OF hw] reads_left [OF hw] b in \<open>simp\<close>)
  then show "\<exists>s'. rb_remove_color_loop (Some p) (rootp t) s = rb_remove_color_loop (up C) (Some p) s' \<and>
      holds s' C (Nd (Nd wl w RB_RED wr) p c t)"
    using holds_left [THEN iffD2, OF holds_color [OF hw, of RB_RED]] by blast
qed

text \<open>A black sibling with a red outer child: one rotation, and done.\<close>

lemma finish_sibling:
  "holds s C (Nd t p c (Nd wl w RB_BLACK (Nd a z RB_RED b))) \<Longrightarrow> blackr t \<Longrightarrow>
    \<exists>s'. rb_remove_color_loop (Some p) (rootp t) s = Some (RB_ROOT s', s') \<and>
      holds s' C (Nd (Nd t p RB_BLACK wl) w c (Nd a z RB_BLACK b))"
  "holds s C (Nd (Nd (Nd a z RB_RED b) w RB_BLACK wr) p c t) \<Longrightarrow> blackr t \<Longrightarrow>
    \<exists>s'. rb_remove_color_loop (Some p) (rootp t) s = Some (RB_ROOT s', s') \<and>
      holds s' C (Nd (Nd a z RB_BLACK b) w c (Nd wr p RB_BLACK t))"
proof -
  assume h: "holds s C (Nd t p c (Nd wl w RB_BLACK (Nd a z RB_RED b)))" and b: "blackr t"
  note hw = holds_right [THEN iffD1, OF h]
  let ?s = "s\<lparr>rbe_color := (rbe_color s)(w := c, p := RB_BLACK, z := RB_BLACK)\<rparr>"
  have "holds ?s C (Nd t p RB_BLACK (Nd wl w c (Nd a z RB_BLACK b)))"
    using h by (auto simp: holds_def)
  from holds_rotate_left [OF this] obtain s2 where s2: "RB_ROTATE_LEFT (Some p) ?s = Some (Some w, s2)"
    "holds s2 C (Nd (Nd t p RB_BLACK wl) w c (Nd a z RB_BLACK b))" by blast
  have "rb_remove_color_loop (Some p) (rootp t) s = Some (RB_ROOT s2, s2)"
    by (subst rb_remove_color_loop.simps)
      (use reads_left [OF h] holds_root [OF hw] reads_left [OF hw] s2(1) b in \<open>simp add: set_color_if_def\<close>)
  then show "\<exists>s'. rb_remove_color_loop (Some p) (rootp t) s = Some (RB_ROOT s', s') \<and>
      holds s' C (Nd (Nd t p RB_BLACK wl) w c (Nd a z RB_BLACK b))" using s2(2) by blast
next
  assume h: "holds s C (Nd (Nd (Nd a z RB_RED b) w RB_BLACK wr) p c t)" and b: "blackr t"
  note hw = holds_left [THEN iffD1, OF h]
  let ?s = "s\<lparr>rbe_color := (rbe_color s)(w := c, p := RB_BLACK, z := RB_BLACK)\<rparr>"
  have "holds ?s C (Nd (Nd (Nd a z RB_BLACK b) w c wr) p RB_BLACK t)"
    using h by (auto simp: holds_def)
  from holds_rotate_right [OF this] obtain s2 where s2: "RB_ROTATE_RIGHT (Some p) ?s = Some (Some w, s2)"
    "holds s2 C (Nd (Nd a z RB_BLACK b) w c (Nd wr p RB_BLACK t))" by blast
  have "rb_remove_color_loop (Some p) (rootp t) s = Some (RB_ROOT s2, s2)"
    by (subst rb_remove_color_loop.simps)
      (use reads_right [OF h] holds_root [OF hw] reads_left [OF hw] s2(1) b in \<open>simp add: set_color_if_def\<close>)
  then show "\<exists>s'. rb_remove_color_loop (Some p) (rootp t) s = Some (RB_ROOT s', s') \<and>
      holds s' C (Nd (Nd a z RB_BLACK b) w c (Nd wr p RB_BLACK t))" using s2(2) by blast
qed

section \<open>The loop mends the tree\<close>

lemma mend_root:
  assumes "holds s C t" "path_ok n C" "bal n t" "upred C \<longrightarrow> blackr t" "C \<noteq> [] \<or> blackr t"
  shows "mended (set_color_if (RB_ROOT s) RB_BLACK s) (inord (fill C t))"
proof -
  obtain m where m: "bal m (fill C t)" "blackr (fill C t)"
    using bal_fill [OF assms(2-4)] assms(5) by auto
  have h: "holds s [] (fill C t)" using assms(1) by (simp add: holds_fill)
  show ?thesis
  proof (cases "fill C t")
    case Lf
    then show ?thesis using h m
      by (auto simp: set_color_if_def holds_def intro!: mendedI [of s "[]" Lf 0])
  next
    case (Nd l x c r)
    then have "rbh_root s = Some x" using h by (simp add: holds_def)
    then show ?thesis using holds_color [OF h [unfolded Nd], of RB_BLACK] m Nd
      by (auto simp: set_color_if_def intro!: mendedI [of _ "[]" "Nd l x RB_BLACK r" m])
  qed
qed

text \<open>What the loop does from the position \<open>C\<close> on.\<close>

abbreviation mends :: "'e turn list \<Rightarrow> nat \<Rightarrow> bool" where
  "mends C n \<equiv> \<forall>s t. holds s C t \<longrightarrow> bal n t \<longrightarrow> blackr t \<longrightarrow>
     mended (RB_REMOVE_COLOR (up C) (rootp t) s) (inord (fill C t))"

text \<open>A node of colour \<open>c\<close> fits below \<open>C\<close> with \<open>n + 1\<close> black nodes below it.\<close>

definition fits :: "nat \<Rightarrow> int \<Rightarrow> 'e turn list \<Rightarrow> bool" where
  "fits n c C \<longleftrightarrow> (if c = RB_RED then C \<noteq> [] \<and> \<not> upred C \<and> path_ok (Suc n) C
     else c = RB_BLACK \<and> path_ok (Suc (Suc n)) C)"

lemma mend_finish_left:
  assumes h: "holds s C (Nd t p c (Nd wl w RB_BLACK (Nd a z RB_RED b)))" and t: "blackr t" "bal n t"
    and "bal n wl" "bal n (Nd a z RB_RED b)" "fits n c C"
  shows "mended (RB_REMOVE_COLOR (Some p) (rootp t) s) (inord (fill C (Nd t p c (Nd wl w RB_BLACK (Nd a z RB_RED b)))))"
proof -
  obtain s' where s': "rb_remove_color_loop (Some p) (rootp t) s = Some (RB_ROOT s', s')"
    "holds s' C (Nd (Nd t p RB_BLACK wl) w c (Nd a z RB_BLACK b))"
    using finish_sibling(1) [OF h t(1)] by blast
  have "mended (set_color_if (RB_ROOT s') RB_BLACK s') (inord (fill C (Nd (Nd t p RB_BLACK wl) w c (Nd a z RB_BLACK b))))"
    using assms by (intro mend_root [OF s'(2), of "if c = RB_RED then Suc n else Suc (Suc n)"])
      (auto simp: fits_def split: if_splits)
  then show ?thesis using s'(1) by (simp add: RB_REMOVE_COLOR_def inord_fill)
qed

lemma mend_finish_right:
  assumes h: "holds s C (Nd (Nd (Nd a z RB_RED b) w RB_BLACK wr) p c t)" and t: "blackr t" "bal n t"
    and "bal n wr" "bal n (Nd a z RB_RED b)" "fits n c C"
  shows "mended (RB_REMOVE_COLOR (Some p) (rootp t) s) (inord (fill C (Nd (Nd (Nd a z RB_RED b) w RB_BLACK wr) p c t)))"
proof -
  obtain s' where s': "rb_remove_color_loop (Some p) (rootp t) s = Some (RB_ROOT s', s')"
    "holds s' C (Nd (Nd a z RB_BLACK b) w c (Nd wr p RB_BLACK t))"
    using finish_sibling(2) [OF h t(1)] by blast
  have "mended (set_color_if (RB_ROOT s') RB_BLACK s') (inord (fill C (Nd (Nd a z RB_BLACK b) w c (Nd wr p RB_BLACK t))))"
    using assms by (intro mend_root [OF s'(2), of "if c = RB_RED then Suc n else Suc (Suc n)"])
      (auto simp: fits_def split: if_splits)
  then show ?thesis using s'(1) by (simp add: RB_REMOVE_COLOR_def inord_fill)
qed

lemma mend_flip:
  assumes "holds s C (Nd l p c r)" "bal (Suc n) (Nd l p RB_BLACK r)" "fits n c C"
    and "c = RB_BLACK \<Longrightarrow> mends C (Suc n)"
  shows "mended (RB_REMOVE_COLOR (up C) (Some p) s) (inord (fill C (Nd l p c r)))"
proof (cases "c = RB_RED")
  case True
  then show ?thesis using mend_exit_red [of s C l p r n] assms(1-3) by (simp add: fits_def)
next
  case False
  then have c: "c = RB_BLACK" using assms(3) by (simp add: fits_def)
  then show ?thesis using assms(4) [rule_format, of s "Nd l p RB_BLACK r"] assms(1,2) by simp
qed

lemma remove_color_step:
  "rb_remove_color_loop p e s = rb_remove_color_loop p' e' s' \<Longrightarrow> RB_REMOVE_COLOR p e s = RB_REMOVE_COLOR p' e' s'"
  by (simp add: RB_REMOVE_COLOR_def)

lemma mend_black_sibling_left:
  assumes h: "holds s C (Nd t p c (Nd wl w RB_BLACK wr))" and t: "blackr t" "bal n t"
    and w: "bal n wl" "bal n wr" and c: "fits n c C" and on: "c = RB_BLACK \<Longrightarrow> mends C (Suc n)"
  shows "mended (RB_REMOVE_COLOR (Some p) (rootp t) s) (inord (fill C (Nd t p c (Nd wl w RB_BLACK wr))))"
proof -
  consider "blackr wl" "blackr wr" | a z b where "wr = Nd a z RB_RED b"
    | a v b where "wl = Nd a v RB_RED b" "blackr wr"
    using w not_red_black by blast
  then show ?thesis
  proof cases
    case 1
    from flip_sibling(1) [OF h t(1) 1] obtain s' where s':
      "rb_remove_color_loop (Some p) (rootp t) s = rb_remove_color_loop (up C) (Some p) s'"
      "holds s' C (Nd t p c (Nd wl w RB_RED wr))" by blast
    have "bal (Suc n) (Nd t p RB_BLACK (Nd wl w RB_RED wr))" using t w 1 by simp
    from mend_flip [OF s'(2) this c on] show ?thesis
      by (simp add: remove_color_step [OF s'(1)] inord_fill)
  next
    case 2
    show ?thesis using mend_finish_left [OF h [unfolded 2] t w(1) w(2) [unfolded 2] c] 2 by simp
  next
    case 3
    from turn_sibling_left [OF h [unfolded 3(1)] t(1) 3(2)] obtain s' where s':
      "rb_remove_color_loop (Some p) (rootp t) s = rb_remove_color_loop (Some p) (rootp t) s'"
      "holds s' C (Nd t p c (Nd a v RB_BLACK (Nd b w RB_RED wr)))" by blast
    from mend_finish_left [OF s'(2) t] w 3 c show ?thesis
      by (simp add: remove_color_step [OF s'(1)] inord_fill)
  qed
qed

lemma mend_black_sibling_right:
  assumes h: "holds s C (Nd (Nd wl w RB_BLACK wr) p c t)" and t: "blackr t" "bal n t"
    and w: "bal n wl" "bal n wr" and c: "fits n c C" and on: "c = RB_BLACK \<Longrightarrow> mends C (Suc n)"
  shows "mended (RB_REMOVE_COLOR (Some p) (rootp t) s) (inord (fill C (Nd (Nd wl w RB_BLACK wr) p c t)))"
proof -
  consider "blackr wl" "blackr wr" | a z b where "wl = Nd a z RB_RED b"
    | a v b where "wr = Nd a v RB_RED b" "blackr wl"
    using w not_red_black by blast
  then show ?thesis
  proof cases
    case 1
    from flip_sibling(2) [OF h t(1) 1] obtain s' where s':
      "rb_remove_color_loop (Some p) (rootp t) s = rb_remove_color_loop (up C) (Some p) s'"
      "holds s' C (Nd (Nd wl w RB_RED wr) p c t)" by blast
    have "bal (Suc n) (Nd (Nd wl w RB_RED wr) p RB_BLACK t)" using t w 1 by simp
    from mend_flip [OF s'(2) this c on] show ?thesis
      by (simp add: remove_color_step [OF s'(1)] inord_fill)
  next
    case 2
    show ?thesis using mend_finish_right [OF h [unfolded 2] t w(2) w(1) [unfolded 2] c] 2 by simp
  next
    case 3
    from turn_sibling_right [OF h [unfolded 3(1)] t(1) 3(2)] obtain s' where s':
      "rb_remove_color_loop (Some p) (rootp t) s = rb_remove_color_loop (Some p) (rootp t) s'"
      "holds s' C (Nd (Nd (Nd wl w RB_RED a) v RB_BLACK b) p c t)" by blast
    from mend_finish_right [OF s'(2) t] w 3 c show ?thesis
      by (simp add: remove_color_step [OF s'(1)] inord_fill)
  qed
qed

lemma remove_color:
  "holds s C t \<Longrightarrow> path_ok (Suc n) C \<Longrightarrow> bal n t \<Longrightarrow> mended (RB_REMOVE_COLOR (up C) (rootp t) s) (inord (fill C t))"
proof (induction C arbitrary: s t n)
  case Nil
  then show ?case using mend_exit_root by simp
next
  case (Cons k D)
  show ?case
  proof (cases "\<exists>l x r. t = Nd l x RB_RED r")
    case True
    then obtain l x r where t: "t = Nd l x RB_RED r" by blast
    then show ?thesis using mend_exit_red [OF Cons.prems(1) [unfolded t] _ Cons.prems(2)] Cons.prems(3) by simp
  next
    case False
    then have t: "blackr t" using Cons.prems(3) not_red_black by blast
    have on: "mends D (Suc n)" if "path_ok (Suc (Suc n)) D" using Cons.IH that by blast
    show ?thesis
    proof (cases k)
      case (In_left p c u)
      then have u: "bal (Suc n) u" "fits n c D" using Cons.prems(2) by (auto simp: fits_def)
      then obtain wl w d wr where w: "u = Nd wl w d wr" by (cases u) auto
      have h: "holds s D (Nd t p c u)" using Cons.prems(1) In_left by (simp add: holds_left)
      show ?thesis
      proof (cases "d = RB_RED")
        case False
        then have "d = RB_BLACK" "bal n wl" "bal n wr" using u w by auto
        then show ?thesis
          using mend_black_sibling_left [of s D t p c wl w wr n] h w t Cons.prems(3) u(2) on In_left
          by (simp add: fits_def split: if_splits)
      next
        case True
        then have c: "c = RB_BLACK" "blackr wl" "blackr wr" "bal (Suc n) wl" "bal (Suc n) wr"
          using Cons.prems(2) In_left u w by (auto split: if_splits)
        then obtain a v z where v: "wl = Nd a v RB_BLACK z" "bal n a" "bal n z" by (cases wl) auto
        from red_sibling_left [OF h [unfolded w True] t c(2)] v(1) obtain s' where s':
          "rb_remove_color_loop (Some p) (rootp t) s = rb_remove_color_loop (Some p) (rootp t) s'"
          "holds s' D (Nd (Nd t p RB_RED wl) w RB_BLACK wr)" by blast
        have "fits n RB_RED (In_left w RB_BLACK wr # D)"
          using u(2) c by (simp add: fits_def)
        with mend_black_sibling_left [OF holds_left [THEN iffD1, OF s'(2), unfolded v(1)] t Cons.prems(3) v(2,3)]
        show ?thesis using In_left w v(1) by (simp add: remove_color_step [OF s'(1)] inord_fill)
      qed
    next
      case (In_right u p c)
      then have u: "bal (Suc n) u" "fits n c D" using Cons.prems(2) by (auto simp: fits_def)
      then obtain wl w d wr where w: "u = Nd wl w d wr" by (cases u) auto
      have h: "holds s D (Nd u p c t)" using Cons.prems(1) In_right by (simp add: holds_right)
      show ?thesis
      proof (cases "d = RB_RED")
        case False
        then have "d = RB_BLACK" "bal n wl" "bal n wr" using u w by auto
        then show ?thesis
          using mend_black_sibling_right [of s D wl w wr p c t n] h w t Cons.prems(3) u(2) on In_right
          by (simp add: fits_def split: if_splits)
      next
        case True
        then have c: "c = RB_BLACK" "blackr wl" "blackr wr" "bal (Suc n) wl" "bal (Suc n) wr"
          using Cons.prems(2) In_right u w by (auto split: if_splits)
        then obtain a v z where v: "wr = Nd a v RB_BLACK z" "bal n a" "bal n z" by (cases wr) auto
        from red_sibling_right [OF h [unfolded w True] t c(3)] v(1) obtain s' where s':
          "rb_remove_color_loop (Some p) (rootp t) s = rb_remove_color_loop (Some p) (rootp t) s'"
          "holds s' D (Nd wl w RB_BLACK (Nd wr p RB_RED t))" by blast
        have "fits n RB_RED (In_right wl w RB_BLACK # D)"
          using u(2) c by (simp add: fits_def)
        with mend_black_sibling_right [OF holds_right [THEN iffD1, OF s'(2), unfolded v(1)] t Cons.prems(3) v(2,3)]
        show ?thesis using In_right w v(1) by (simp add: remove_color_step [OF s'(1)] inord_fill)
      qed
    qed
  qed
qed

section \<open>Unlinking\<close>

lemma unlink_right:
  assumes h: "holds s C (Nd Lf x c t)"
  shows "\<exists>s'. do { s \<leftarrow> set_parent_if (rootp t) (up C) s; rb_relink (up C) (Some x) (rootp t) s } = Some s' \<and>
    holds s' C t \<and> rbe_parent s' x = up C"
proof (cases C rule: up.cases)
  case (3 l' z f C')
  then have "rbe_left s z \<noteq> Some x"
    using h by (clarsimp simp: holds_def) (metis root_notin)
  then show ?thesis using h 3
    by (cases t) (clarsimp simp: holds_def set_parent_if_def rb_relink_def)+
qed (use h in \<open>cases t; clarsimp simp: holds_def set_parent_if_def rb_relink_def\<close>)+

lemma unlink_left:
  assumes h: "holds s C (Nd t x c Lf)"
  shows "\<exists>s'. do { s \<leftarrow> set_parent_if (rootp t) (up C) s; rb_relink (up C) (Some x) (rootp t) s } = Some s' \<and>
    holds s' C t \<and> rbe_parent s' x = up C"
proof (cases C rule: up.cases)
  case (3 l' z f C')
  then have "rbe_left s z \<noteq> Some x"
    using h by (clarsimp simp: holds_def) (metis root_notin)
  then show ?thesis using h 3
    by (cases t) (clarsimp simp: holds_def set_parent_if_def rb_relink_def)+
qed (use h in \<open>cases t; clarsimp simp: holds_def set_parent_if_def rb_relink_def\<close>)+

lemma take_place:
  assumes h: "holds s C (Nd l x c r)" and m: "m \<notin> set (lefts C @ inord (Nd l x c r) @ rights C)" and l: "l \<noteq> Lf"
  shows "\<exists>s'. do { s \<leftarrow> Some (rb_copy m x s);
      op \<leftarrow> RB_PARENT (Some x) s; s \<leftarrow> rb_relink op (Some x) (Some m) s;
      ol \<leftarrow> RB_LEFT (Some x) s; s \<leftarrow> set_rbparent ol (Some m) s;
      or \<leftarrow> RB_RIGHT (Some x) s; set_parent_if or (Some m) s } = Some s' \<and> holds s' C (Nd l m c r)"
proof (cases C rule: up.cases)
  case (3 l' z f C')
  then have "rbe_left s z \<noteq> Some x"
    using h by (clarsimp simp: holds_def) (metis root_notin)
  then show ?thesis using h m l 3
    by (cases l; cases r) (clarsimp simp: holds_def set_parent_if_def rb_relink_def rb_copy_def)+
qed (use h m l in \<open>cases l; cases r; clarsimp simp: holds_def set_parent_if_def rb_relink_def rb_copy_def\<close>)+

lemma augment_up: "above s C v \<Longrightarrow> up C = Some p \<Longrightarrow> rb_augment_up p s = Some ()"
proof (induction C arbitrary: v p)
  case (Cons k C)
  then show ?case by (cases k; cases "up C") (auto simp: rb_augment_up.simps [of p])
qed simp

lemma path_ok_other: "path_ok n (D @ In_right l x c # C) \<longleftrightarrow> path_ok n (D @ In_right l m c # C)"
proof (induction D arbitrary: n)
  case (Cons k D)
  have "upred (D @ In_right l x c # C) \<longleftrightarrow> upred (D @ In_right l m c # C)"
    by (cases D rule: upred.cases) auto
  then show ?case using Cons.IH by (cases k) auto
qed simp

lemma turns_append [simp]: "lefts (C @ D) = lefts D @ lefts C" "rights (C @ D) = rights C @ rights D"
proof (induction C)
  case (Cons k C)
  { case 1 show ?case using Cons by (cases k) auto
  next case 2 show ?case using Cons by (cases k) auto }
qed auto

lemma leftmost:
  "r \<noteq> Lf \<Longrightarrow> \<exists>D m k w. r = fill D (Nd Lf m k w) \<and> lefts D = [] \<and> inord r = m # inord w @ rights D"
proof (induction r)
  case (Nd l x c r)
  show ?case
  proof (cases "l = Lf")
    case True
    then show ?thesis by (intro exI [of _ "[]"]) auto
  next
    case False
    then obtain D m k w where "l = fill D (Nd Lf m k w)" "lefts D = []" "inord l = m # inord w @ rights D"
      using Nd.IH(1) by blast
    then show ?thesis by (intro exI [of _ "D @ [In_left x c r]"]) auto
  qed
qed simp

text \<open>The subtree that takes the unlinked position may lack the black node of the one unlinked.\<close>

lemma mend_unlinked:
  assumes "holds s C t" "path_ok n C" "upred C \<longrightarrow> c = RB_BLACK"
    "bal n (Nd Lf x c t) \<or> bal n (Nd t x c Lf)" "C \<noteq> [] \<or> c = RB_BLACK"
  shows "mended (if c = RB_BLACK then RB_REMOVE_COLOR (up C) (rootp t) s else Some s) (inord (fill C t))"
proof (cases "c = RB_BLACK")
  case True
  then obtain m where "n = Suc m" "bal m t" using assms(4) by (cases n) auto
  then show ?thesis using remove_color [of s C t m] assms(1,2) True by simp
next
  case False
  then have "bal n t" "blackr t" using assms(4) by (auto split: if_splits)
  then show ?thesis using mendedI [OF assms(1,2)] False by simp
qed

lemma rb_remove_one:
  assumes h: "holds s C (Nd l x c r)" and ok: "rb_ok (fill C (Nd l x c r))" and e: "l = Lf \<or> r = Lf"
  shows "\<exists>s'. RB_REMOVE x s = Some (x, s') \<and> mended (Some s') (lefts C @ inord l @ inord r @ rights C)"
proof -
  let ?t = "if l = Lf then r else l"
  note f = holds_root [OF h]
  have "\<exists>s'. do { s \<leftarrow> set_parent_if (rootp ?t) (up C) s; rb_relink (up C) (Some x) (rootp ?t) s } = Some s' \<and> holds s' C ?t"
    using unlink_right [of s C x c r] unlink_left [of s C l x c] h e by auto
  then obtain s1 where s1: "do { s \<leftarrow> set_parent_if (rootp ?t) (up C) s; rb_relink (up C) (Some x) (rootp ?t) s } = Some s1"
    "holds s1 C ?t" by blast
  obtain n where n: "path_ok n C" "bal n (Nd l x c r)" "upred C \<longrightarrow> c = RB_BLACK"
    using fill_bal ok by (fastforce simp: rb_ok_def)
  have "C \<noteq> [] \<or> c = RB_BLACK" using ok by (cases C) (auto simp: rb_ok_def)
  moreover have "bal n (Nd Lf x c ?t) \<or> bal n (Nd ?t x c Lf)" using n(2) e by auto
  ultimately have "mended (if c = RB_BLACK then RB_REMOVE_COLOR (up C) (rootp ?t) s1 else Some s1) (inord (fill C ?t))"
    using mend_unlinked [OF s1(2) n(1,3)] by blast
  then obtain s2 where s2: "(if c = RB_BLACK then RB_REMOVE_COLOR (up C) (rootp ?t) s1 else Some s1) = Some s2"
    "mended (Some s2) (inord (fill C ?t))" by (auto simp: mended_def)
  have "rootp l = None \<or> rootp r = None" using e by auto
  moreover have "(if rootp l = None then rootp r else rootp l) = rootp ?t" by (cases l) auto
  ultimately have "RB_REMOVE x s = Some (x, s2)"
    using s1(1) s2(1) by (cases "c = RB_BLACK") (auto simp: RB_REMOVE_def f bind_eq_Some_conv Let_def)
  moreover have "inord (fill C ?t) = lefts C @ inord l @ inord r @ rights C" using e by (auto simp: inord_fill)
  ultimately show ?thesis using s2(2) by auto
qed

lemma holds_deep: "holds s (D @ In_right l x c # C) t \<longleftrightarrow> holds s C (Nd l x c (fill D t))"
  unfolding holds_fill [symmetric, of s "D @ In_right l x c # C"] holds_fill [symmetric, of s C] by simp

lemma rb_remove_two:
  assumes h: "holds s C (Nd l x c r)" and ok: "rb_ok (fill C (Nd l x c r))" and e: "l \<noteq> Lf" "r \<noteq> Lf"
  shows "\<exists>s'. RB_REMOVE x s = Some (x, s') \<and> mended (Some s') (lefts C @ inord l @ inord r @ rights C)"
proof -
  obtain D m k w where r: "r = fill D (Nd Lf m k w)" "lefts D = []" "inord r = m # inord w @ rights D"
    using leftmost [OF e(2)] by blast
  let ?P = "D @ In_right l x c # C" and ?Q = "D @ In_right l m c # C"
  have hm: "holds s ?P (Nd Lf m k w)"
    using h r(1) by (simp add: holds_deep)
  note f = holds_root [OF h] holds_root [OF hm]
  have desc: "rb_descend (rbe_left s) (the (rootp r)) = Some m"
  proof -
    obtain y where "rootp r = Some y" using e(2) by (cases r) auto
    then show ?thesis using rb_descend_left [of s "Some x" y r] holds_right [THEN iffD1, OF h] r(3)
      by (simp add: holds_def)
  qed
  obtain s1 where s1: "do { s \<leftarrow> set_parent_if (rootp w) (up ?P) s; rb_relink (up ?P) (Some m) (rootp w) s } = Some s1"
    "holds s1 ?P w" "rbe_parent s1 m = up ?P" using unlink_right [OF hm] by blast
  have h1: "holds s1 C (Nd l x c (fill D w))"
    using s1(2) by (simp add: holds_deep)
  have "m \<notin> set (lefts C @ inord (Nd l x c (fill D w)) @ rights C)"
    using h r(2,3) by (auto simp: holds_def inord_fill)
  note take = take_place [OF h1 this e(1)]
  then obtain s2 where s2: "do { s \<leftarrow> Some (rb_copy m x s1);
      op \<leftarrow> RB_PARENT (Some x) s; s \<leftarrow> rb_relink op (Some x) (Some m) s;
      ol \<leftarrow> RB_LEFT (Some x) s; s \<leftarrow> set_rbparent ol (Some m) s;
      or \<leftarrow> RB_RIGHT (Some x) s; set_parent_if or (Some m) s } = Some s2" "holds s2 C (Nd l m c (fill D w))"
    by blast
  have h2: "holds s2 ?Q w" using s2(2) by (simp add: holds_deep)
  have upP: "(if up ?P = Some x then Some m else up ?P) = up ?Q"
  proof (cases D rule: up.cases)
    case (2 z d u D')
    then have "z \<noteq> x" using h r(1) by (auto simp: holds_def inord_fill)
    then show ?thesis using 2 by simp
  next
    case (3 l' z d D')
    then show ?thesis using r(2) by simp
  qed simp
  have "\<exists>p. up ?Q = Some p" by (cases D rule: up.cases) auto
  then obtain p where p: "up ?Q = Some p" by blast
  have aug: "rb_augment_up p s2 = Some ()"
    using augment_up [of s2 ?Q "rootp w" p] h2 p by (simp add: holds_def)
  obtain n where n: "path_ok n ?P" "bal n (Nd Lf m k w)" "upred ?P \<longrightarrow> k = RB_BLACK"
    using fill_bal [of _ ?P "Nd Lf m k w"] ok r(1) by (fastforce simp: rb_ok_def)
  have "upred ?Q \<longleftrightarrow> upred ?P" by (cases D rule: upred.cases) auto
  then have "mended (if k = RB_BLACK then RB_REMOVE_COLOR (up ?Q) (rootp w) s2 else Some s2) (inord (fill ?Q w))"
    using n(1,3) by (intro mend_unlinked [OF h2 _ _ disjI1 [OF n(2)]])
      (simp_all add: path_ok_other [of n D l m c C x])
  then obtain s3 where s3: "(if k = RB_BLACK then RB_REMOVE_COLOR (up ?Q) (rootp w) s2 else Some s2) = Some s3"
    "mended (Some s3) (inord (fill ?Q w))" by (auto simp: mended_def)
  have ne: "rootp l \<noteq> None" "rootp r \<noteq> None" using e by (cases l; cases r; simp)+
  obtain y where y: "set_parent_if (rootp w) (up ?P) s = Some y" "rb_relink (up ?P) (Some m) (rootp w) y = Some s1"
    using s1(1) by (auto simp: bind_eq_Some_conv)
  obtain z z' where z: "rb_relink (rbe_parent (rb_copy m x s1) x) (Some x) (Some m) (rb_copy m x s1) = Some z"
    "set_rbparent (rbe_left z x) (Some m) z = Some z'" "set_parent_if (rbe_right z' x) (Some m) z' = Some s2"
    using s2(1) by (auto simp: bind_eq_Some_conv)
  have "RB_REMOVE x s = Some (x, s3)"
    unfolding RB_REMOVE_def by (simp add: f ne desc y z s1(3) upP p aug s3(1) [unfolded p] Let_def
        split del: if_split cong: if_cong)
  moreover have "inord (fill ?Q w) = lefts C @ inord l @ inord r @ rights C"
    using r(2,3) by (simp add: inord_fill)
  ultimately show ?thesis using s3(2) by auto
qed

lemma rb_remove_ok:
  assumes "rbtree s t" "rb_ok t" "inord t = as @ x # bs"
  shows "\<exists>s' t'. RB_REMOVE x s = Some (x, s') \<and> rbtree s' t' \<and> rb_ok t' \<and> inord t' = as @ bs"
proof -
  obtain C l c r where t: "t = fill C (Nd l x c r)" using position [of x t] assms(3) by auto
  then have h: "holds s C (Nd l x c r)" using assms(1) by (simp add: rbtree_holds)
  have "as @ x # bs = (lefts C @ inord l) @ x # (inord r @ rights C)"
    using t assms(3) by (simp add: inord_fill)
  moreover have "distinct (as @ x # bs)" using assms(1,3) by (auto simp: rbtree_def holds_def)
  ultimately have "as @ bs = lefts C @ inord l @ inord r @ rights C"
    by (metis append.assoc append_Cons_eq_iff distinct.simps(2) distinct_append not_distinct_conv_prefix Un_iff set_append)
  moreover have "\<exists>s'. RB_REMOVE x s = Some (x, s') \<and> mended (Some s') (lefts C @ inord l @ inord r @ rights C)"
    using rb_remove_one [OF h] rb_remove_two [OF h] assms(2) t by blast
  ultimately show ?thesis by (auto simp: mended_def)
qed

end
