(* ===== verification/Rb_Loops.thy ===== *)
theory Rb_Loops
  imports Rb_Remove
begin

text \<open>
  The safe traversals of a red-black tree, whose body may remove the element it is at, the bound on
  the height that \<open>tree.h\<close> promises, and an example tree.
\<close>

section \<open>Safe traversals\<close>

partial_function (option) rb_safe ::
  "('e \<Rightarrow> 'e rbheap \<Rightarrow> 'e option option) \<Rightarrow> ('e \<Rightarrow> 'e rbheap \<Rightarrow> 'e rbheap option) \<Rightarrow>
   'e option \<Rightarrow> 'e rbheap \<Rightarrow> 'e rbheap option" where
  "rb_safe step body x s = (case x of
     None \<Rightarrow> Some s
   | Some e \<Rightarrow> do { y \<leftarrow> step e s; s \<leftarrow> body e s; rb_safe step body y s })"

definition RB_FOREACH_SAFE :: "('e \<Rightarrow> 'e rbheap \<Rightarrow> 'e rbheap option) \<Rightarrow> 'e rbheap \<Rightarrow> 'e rbheap option" where
  "RB_FOREACH_SAFE body s = do { x \<leftarrow> RB_MIN s; rb_safe RB_NEXT body x s }"

definition RB_FOREACH_REVERSE_SAFE ::
  "('e \<Rightarrow> 'e rbheap \<Rightarrow> 'e rbheap option) \<Rightarrow> 'e rbheap \<Rightarrow> 'e rbheap option" where
  "RB_FOREACH_REVERSE_SAFE body s = do { x \<leftarrow> RB_MAX s; rb_safe RB_PREV body x s }"

lemma rb_safe_simps [simp]:
  "rb_safe step body None s = Some s"
  "rb_safe step body (Some e) s = do { y \<leftarrow> step e s; s \<leftarrow> body e s; rb_safe step body y s }"
  by (subst rb_safe.simps; simp)+

text \<open>The loop body that removes the elements satisfying \<open>P\<close>.\<close>

definition rb_drop :: "('e \<Rightarrow> bool) \<Rightarrow> 'e \<Rightarrow> 'e rbheap \<Rightarrow> 'e rbheap option" where
  "rb_drop P e s = (if P e then map_option snd (RB_REMOVE e s) else Some s)"

lemma rb_drop_at:
  assumes "rbtree s t" "rb_ok t" "inord t = as @ x # bs"
  shows "\<exists>s' t'. rb_drop P x s = Some s' \<and> rbtree s' t' \<and> rb_ok t' \<and>
    inord t' = as @ (if P x then [] else [x]) @ bs"
  using rb_remove_ok [OF assms] assms by (auto simp: rb_drop_def)

lemma rb_safe_next:
  "rbtree s t \<Longrightarrow> rb_ok t \<Longrightarrow> inord t = as @ bs \<Longrightarrow>
    \<exists>s' t'. rb_safe RB_NEXT (rb_drop P) (head_opt bs) s = Some s' \<and> rbtree s' t' \<and> rb_ok t' \<and>
      inord t' = as @ filter (\<lambda>x. \<not> P x) bs"
proof (induction bs arbitrary: as s t)
  case (Cons b bs)
  obtain s' t' where s': "rb_drop P b s = Some s'" "rbtree s' t'" "rb_ok t'"
    "inord t' = (as @ (if P b then [] else [b])) @ bs"
    using rb_drop_at [OF Cons.prems, of P] unfolding append_assoc by blast
  show ?case
    using Cons.IH [OF s'(2-4)] rb_neighbours(1) [OF Cons.prems(1,3)] s'(1) by (cases "P b") simp_all
qed auto

lemma rb_safe_prev:
  "rbtree s t \<Longrightarrow> rb_ok t \<Longrightarrow> inord t = as @ bs \<Longrightarrow>
    \<exists>s' t'. rb_safe RB_PREV (rb_drop P) (head_opt (rev as)) s = Some s' \<and> rbtree s' t' \<and> rb_ok t' \<and>
      inord t' = filter (\<lambda>x. \<not> P x) as @ bs"
proof (induction as arbitrary: bs s t rule: rev_induct)
  case (snoc a as)
  have i: "inord t = as @ a # bs" using snoc.prems(3) by simp
  obtain s' t' where s': "rb_drop P a s = Some s'" "rbtree s' t'" "rb_ok t'"
    "inord t' = as @ (if P a then [] else [a]) @ bs"
    using rb_drop_at [OF snoc.prems(1,2) i, of P] by blast
  show ?case
    using snoc.IH [OF s'(2-4)] rb_neighbours(2) [OF snoc.prems(1) i] s'(1) by (cases "P a") simp_all
qed auto

lemma rb_foreach_safe:
  assumes "rbtree s t" "rb_ok t"
  shows "\<exists>s' t'. RB_FOREACH_SAFE (rb_drop P) s = Some s' \<and> rbtree s' t' \<and> rb_ok t' \<and>
      inord t' = filter (\<lambda>x. \<not> P x) (inord t)"
    "\<exists>s' t'. RB_FOREACH_REVERSE_SAFE (rb_drop P) s = Some s' \<and> rbtree s' t' \<and> rb_ok t' \<and>
      inord t' = filter (\<lambda>x. \<not> P x) (inord t)"
  using rb_safe_next [OF assms, of "[]" "inord t" P] rb_safe_prev [OF assms, of "inord t" "[]" P]
  by (simp_all add: RB_FOREACH_SAFE_def RB_FOREACH_REVERSE_SAFE_def rb_min_eq [OF assms(1)] rb_max_eq [OF assms(1)])

section \<open>The height\<close>

fun ht :: "'e ctree \<Rightarrow> nat" where
  "ht Lf = 0"
| "ht (Nd l x c r) = Suc (max (ht l) (ht r))"

lemma bal_ht: "bal n t \<Longrightarrow> ht t \<le> 2 * n + (if blackr t then 0 else 1)"
proof (induction t arbitrary: n)
  case (Nd l x c r)
  show ?case
  proof (cases "c = RB_RED")
    case True
    then show ?thesis using Nd.IH(1) [of n] Nd.IH(2) [of n] Nd.prems by auto
  next
    case False
    then show ?thesis using Nd.IH(1) [of "n - 1"] Nd.IH(2) [of "n - 1"] Nd.prems
      by (auto split: if_splits)
  qed
qed simp

lemma bal_count: "bal n t \<Longrightarrow> 2 ^ n \<le> length (inord t) + 1"
proof (induction t arbitrary: n)
  case (Nd l x c r)
  show ?case
  proof (cases "c = RB_RED")
    case True
    then show ?thesis using Nd.IH(1) [of n] Nd.prems by auto
  next
    case False
    then have "0 < n" "2 ^ (n - 1) \<le> length (inord l) + 1" "2 ^ (n - 1) \<le> length (inord r) + 1"
      using Nd by auto
    then show ?thesis by (cases n) auto
  qed
qed simp

text \<open>At most twice the logarithm of the number of elements plus one.\<close>

lemma rb_height:
  assumes "rb_ok t"
  shows "2 ^ ht t \<le> (length (inord t) + 1) ^ 2"
proof -
  obtain n where n: "bal n t" "blackr t" using assms by (auto simp: rb_ok_def)
  have "(2 :: nat) ^ ht t \<le> 2 ^ (2 * n)" using bal_ht [OF n(1)] n(2) by (intro power_increasing) auto
  also have "\<dots> = (2 ^ n) ^ 2" by (simp add: power_mult [symmetric] mult.commute)
  also have "\<dots> \<le> (length (inord t) + 1) ^ 2" using bal_count [OF n(1)] by (intro power_mono) auto
  finally show ?thesis .
qed

section \<open>An example\<close>

text \<open>The tree of 1, 2 and 3 with 2 at the root.\<close>

definition rb_123 :: "nat rbheap" where
  "rb_123 = \<lparr>rbe_left = [2 \<mapsto> 1], rbe_right = [2 \<mapsto> 3], rbe_parent = [1 \<mapsto> 2, 3 \<mapsto> 2],
     rbe_color = (\<lambda>e. if e = 2 then 0 else 1), rbh_root = Some 2\<rparr>"

definition rb_123_tree :: "nat ctree" where
  "rb_123_tree = Nd (Nd Lf 1 RB_RED Lf) 2 RB_BLACK (Nd Lf 3 RB_RED Lf)"

definition cmp_nat :: "nat \<Rightarrow> nat \<Rightarrow> int" where
  "cmp_nat x y = int x - int y"

lemma rb_123_ok: "rbtree rb_123 rb_123_tree" "rb_ok rb_123_tree" "inord rb_123_tree = [1] @ 2 # [3]"
  "compares cmp_nat id" "ascending id (inord rb_123_tree)"
proof -
  have "bal 1 rb_123_tree" by (simp add: rb_123_tree_def)
  then show "rb_ok rb_123_tree" by (auto simp: rb_ok_def rb_123_tree_def)
  show "rbtree rb_123 rb_123_tree"
    by (simp add: rbtree_def holds_def rb_123_def rb_123_tree_def)
  show "inord rb_123_tree = [1] @ 2 # [3]" "ascending id (inord rb_123_tree)"
    by (simp_all add: rb_123_tree_def)
  show "compares cmp_nat id" by (auto simp: compares_def cmp_nat_def)
qed

end
