(* ===== verification/Splay.thy ===== *)
theory Splay
  imports Rb_Search "HOL-Library.Tree"
begin

text \<open>
  The splay trees of \<open>qemu-vga/include/tree.h\<close>: top-down splaying with a local header node, and the
  operations on top of it. While a tree is splayed it is in three parts: the nodes known to be to
  the left of the key, the tree still to search, and the nodes known to be to the right. A step
  without an outcome (\<open>None\<close>) is an access through \<open>NULL\<close> or a loop that does not end.
\<close>

section \<open>The code\<close>

text \<open>A reference to an entry: the local \<open>__node\<close> of a splay, or an element.\<close>

datatype 'e sref = Hdr | Elm 'e

record 'e spheap =
  spe_left :: "'e sref \<Rightarrow> 'e option"
  spe_right :: "'e sref \<Rightarrow> 'e option"
  sph_root :: "'e option"

definition SPLAY_INIT :: "'e spheap \<Rightarrow> 'e spheap" where
  "SPLAY_INIT s = s\<lparr>sph_root := None\<rparr>"

definition SPLAY_EMPTY :: "'e spheap \<Rightarrow> bool" where
  "SPLAY_EMPTY s \<longleftrightarrow> sph_root s = None"

definition set_spleft :: "'e sref \<Rightarrow> 'e option \<Rightarrow> 'e spheap \<Rightarrow> 'e spheap" where
  "set_spleft r v s = s\<lparr>spe_left := (spe_left s)(r := v)\<rparr>"

definition set_spright :: "'e sref \<Rightarrow> 'e option \<Rightarrow> 'e spheap \<Rightarrow> 'e spheap" where
  "set_spright r v s = s\<lparr>spe_right := (spe_right s)(r := v)\<rparr>"

definition set_sproot :: "'e option \<Rightarrow> 'e spheap \<Rightarrow> 'e spheap" where
  "set_sproot v s = s\<lparr>sph_root := v\<rparr>"

definition SPLAY_ROTATE_RIGHT :: "'e \<Rightarrow> 'e spheap \<Rightarrow> 'e spheap option" where
  "SPLAY_ROTATE_RIGHT tmp s = do {
     root \<leftarrow> sph_root s;
     let s = set_spleft (Elm root) (spe_right s (Elm tmp)) s;
     let s = set_spright (Elm tmp) (Some root) s;
     Some (set_sproot (Some tmp) s) }"

definition SPLAY_ROTATE_LEFT :: "'e \<Rightarrow> 'e spheap \<Rightarrow> 'e spheap option" where
  "SPLAY_ROTATE_LEFT tmp s = do {
     root \<leftarrow> sph_root s;
     let s = set_spright (Elm root) (spe_left s (Elm tmp)) s;
     let s = set_spleft (Elm tmp) (Some root) s;
     Some (set_sproot (Some tmp) s) }"

text \<open>The linking macros move their second argument along; it is returned.\<close>

definition SPLAY_LINKLEFT :: "'e sref \<Rightarrow> 'e spheap \<Rightarrow> ('e sref \<times> 'e spheap) option" where
  "SPLAY_LINKLEFT tmp s = do {
     let s = set_spleft tmp (sph_root s) s;
     root \<leftarrow> sph_root s;
     Some (Elm root, set_sproot (spe_left s (Elm root)) s) }"

definition SPLAY_LINKRIGHT :: "'e sref \<Rightarrow> 'e spheap \<Rightarrow> ('e sref \<times> 'e spheap) option" where
  "SPLAY_LINKRIGHT tmp s = do {
     let s = set_spright tmp (sph_root s) s;
     root \<leftarrow> sph_root s;
     Some (Elm root, set_sproot (spe_right s (Elm root)) s) }"

definition SPLAY_ASSEMBLE :: "'e sref \<Rightarrow> 'e sref \<Rightarrow> 'e sref \<Rightarrow> 'e spheap \<Rightarrow> 'e spheap option" where
  "SPLAY_ASSEMBLE node lp rp s = do {
     root \<leftarrow> sph_root s;
     let s = set_spright lp (spe_left s (Elm root)) s;
     let s = set_spleft rp (spe_right s (Elm root)) s;
     let s = set_spleft (Elm root) (spe_right s node) s;
     Some (set_spright (Elm root) (spe_left s node) s) }"

partial_function (option) splay_loop ::
  "('e \<Rightarrow> 'e \<Rightarrow> int) \<Rightarrow> 'e \<Rightarrow> 'e sref \<Rightarrow> 'e sref \<Rightarrow> 'e spheap \<Rightarrow> ('e sref \<times> 'e sref \<times> 'e spheap) option" where
  "splay_loop cmp elm lp rp s = do {
     root \<leftarrow> sph_root s;
     if cmp elm root < 0 then (case spe_left s (Elm root) of
         None \<Rightarrow> Some (lp, rp, s)
       | Some tmp \<Rightarrow>
           if cmp elm tmp < 0 then do {
             s \<leftarrow> SPLAY_ROTATE_RIGHT tmp s;
             root \<leftarrow> sph_root s;
             if spe_left s (Elm root) = None then Some (lp, rp, s)
             else do { (rp, s) \<leftarrow> SPLAY_LINKLEFT rp s; splay_loop cmp elm lp rp s } }
           else do { (rp, s) \<leftarrow> SPLAY_LINKLEFT rp s; splay_loop cmp elm lp rp s })
     else if cmp elm root > 0 then (case spe_right s (Elm root) of
         None \<Rightarrow> Some (lp, rp, s)
       | Some tmp \<Rightarrow>
           if cmp elm tmp > 0 then do {
             s \<leftarrow> SPLAY_ROTATE_LEFT tmp s;
             root \<leftarrow> sph_root s;
             if spe_right s (Elm root) = None then Some (lp, rp, s)
             else do { (lp, s) \<leftarrow> SPLAY_LINKRIGHT lp s; splay_loop cmp elm lp rp s } }
           else do { (lp, s) \<leftarrow> SPLAY_LINKRIGHT lp s; splay_loop cmp elm lp rp s })
     else Some (lp, rp, s) }"

definition SPLAY :: "('e \<Rightarrow> 'e \<Rightarrow> int) \<Rightarrow> 'e \<Rightarrow> 'e spheap \<Rightarrow> 'e spheap option" where
  "SPLAY cmp elm s = do {
     (lp, rp, s) \<leftarrow> splay_loop cmp elm Hdr Hdr (set_spleft Hdr None (set_spright Hdr None s));
     SPLAY_ASSEMBLE Hdr lp rp s }"

partial_function (option) splay_minmax_loop ::
  "int \<Rightarrow> 'e sref \<Rightarrow> 'e sref \<Rightarrow> 'e spheap \<Rightarrow> ('e sref \<times> 'e sref \<times> 'e spheap) option" where
  "splay_minmax_loop val lp rp s =
    (if val < 0 then do {
       root \<leftarrow> sph_root s;
       (case spe_left s (Elm root) of
         None \<Rightarrow> Some (lp, rp, s)
       | Some tmp \<Rightarrow> do {
           s \<leftarrow> SPLAY_ROTATE_RIGHT tmp s;
           root \<leftarrow> sph_root s;
           if spe_left s (Elm root) = None then Some (lp, rp, s)
           else do { (rp, s) \<leftarrow> SPLAY_LINKLEFT rp s; splay_minmax_loop val lp rp s } }) }
     else if val > 0 then do {
       root \<leftarrow> sph_root s;
       (case spe_right s (Elm root) of
         None \<Rightarrow> Some (lp, rp, s)
       | Some tmp \<Rightarrow> do {
           s \<leftarrow> SPLAY_ROTATE_LEFT tmp s;
           root \<leftarrow> sph_root s;
           if spe_right s (Elm root) = None then Some (lp, rp, s)
           else do { (lp, s) \<leftarrow> SPLAY_LINKRIGHT lp s; splay_minmax_loop val lp rp s } }) }
     else splay_minmax_loop val lp rp s)"

definition SPLAY_MINMAX :: "int \<Rightarrow> 'e spheap \<Rightarrow> 'e spheap option" where
  "SPLAY_MINMAX val s = do {
     (lp, rp, s) \<leftarrow> splay_minmax_loop val Hdr Hdr (set_spleft Hdr None (set_spright Hdr None s));
     SPLAY_ASSEMBLE Hdr lp rp s }"

definition SPLAY_MIN_MAX :: "int \<Rightarrow> 'e spheap \<Rightarrow> ('e option \<times> 'e spheap) option" where
  "SPLAY_MIN_MAX val s = do { s \<leftarrow> SPLAY_MINMAX val s; Some (sph_root s, s) }"

definition SPLAY_MIN :: "'e spheap \<Rightarrow> ('e option \<times> 'e spheap) option" where
  "SPLAY_MIN s = (if SPLAY_EMPTY s then Some (None, s) else SPLAY_MIN_MAX (- 1) s)"

definition SPLAY_MAX :: "'e spheap \<Rightarrow> ('e option \<times> 'e spheap) option" where
  "SPLAY_MAX s = (if SPLAY_EMPTY s then Some (None, s) else SPLAY_MIN_MAX 1 s)"

definition SPLAY_FIND :: "('e \<Rightarrow> 'e \<Rightarrow> int) \<Rightarrow> 'e \<Rightarrow> 'e spheap \<Rightarrow> ('e option \<times> 'e spheap) option" where
  "SPLAY_FIND cmp elm s = (if SPLAY_EMPTY s then Some (None, s) else do {
     s \<leftarrow> SPLAY cmp elm s;
     root \<leftarrow> sph_root s;
     Some (if cmp elm root = 0 then Some root else None, s) })"

definition SPLAY_NEXT :: "('e \<Rightarrow> 'e \<Rightarrow> int) \<Rightarrow> 'e \<Rightarrow> 'e spheap \<Rightarrow> ('e option \<times> 'e spheap) option" where
  "SPLAY_NEXT cmp elm s = do {
     s \<leftarrow> SPLAY cmp elm s;
     (case spe_right s (Elm elm) of
       None \<Rightarrow> Some (None, s)
     | Some r \<Rightarrow> do { x \<leftarrow> rb_descend (\<lambda>e. spe_left s (Elm e)) r; Some (Some x, s) }) }"

definition SPLAY_INSERT :: "('e \<Rightarrow> 'e \<Rightarrow> int) \<Rightarrow> 'e \<Rightarrow> 'e spheap \<Rightarrow> ('e option \<times> 'e spheap) option" where
  "SPLAY_INSERT cmp elm s =
    (if SPLAY_EMPTY s then
       Some (None, set_sproot (Some elm) (set_spleft (Elm elm) None (set_spright (Elm elm) None s)))
     else do {
       s \<leftarrow> SPLAY cmp elm s;
       root \<leftarrow> sph_root s;
       if cmp elm root < 0 then do {
         let s = set_spleft (Elm elm) (spe_left s (Elm root)) s;
         let s = set_spright (Elm elm) (Some root) s;
         let s = set_spleft (Elm root) None s;
         Some (None, set_sproot (Some elm) s) }
       else if cmp elm root > 0 then do {
         let s = set_spright (Elm elm) (spe_right s (Elm root)) s;
         let s = set_spleft (Elm elm) (Some root) s;
         let s = set_spright (Elm root) None s;
         Some (None, set_sproot (Some elm) s) }
       else Some (Some root, s) })"

definition SPLAY_REMOVE :: "('e \<Rightarrow> 'e \<Rightarrow> int) \<Rightarrow> 'e \<Rightarrow> 'e spheap \<Rightarrow> ('e option \<times> 'e spheap) option" where
  "SPLAY_REMOVE cmp elm s = (if SPLAY_EMPTY s then Some (None, s) else do {
     s \<leftarrow> SPLAY cmp elm s;
     root \<leftarrow> sph_root s;
     if cmp elm root = 0 then
       if spe_left s (Elm root) = None then Some (Some elm, set_sproot (spe_right s (Elm root)) s)
       else do {
         let tmp = spe_right s (Elm root);
         let s = set_sproot (spe_left s (Elm root)) s;
         s \<leftarrow> SPLAY cmp elm s;
         root \<leftarrow> sph_root s;
         Some (Some elm, set_spright (Elm root) tmp s) }
     else Some (None, s) })"

partial_function (option) splay_visits ::
  "('e \<Rightarrow> 'e \<Rightarrow> int) \<Rightarrow> 'e option \<Rightarrow> 'e spheap \<Rightarrow> ('e list \<times> 'e spheap) option" where
  "splay_visits cmp x s = (case x of
     None \<Rightarrow> Some ([], s)
   | Some e \<Rightarrow> do {
       (n, s) \<leftarrow> SPLAY_NEXT cmp e s;
       (es, s) \<leftarrow> splay_visits cmp n s;
       Some (e # es, s) })"

definition SPLAY_FOREACH :: "('e \<Rightarrow> 'e \<Rightarrow> int) \<Rightarrow> 'e spheap \<Rightarrow> ('e list \<times> 'e spheap) option" where
  "SPLAY_FOREACH cmp s = do { (x, s) \<leftarrow> SPLAY_MIN s; splay_visits cmp x s }"

lemmas splay_heap_defs = set_spleft_def set_spright_def set_sproot_def

end
