(* ===== verification/Splay_Correct.thy ===== *)
theory Splay_Correct
  imports Splay
begin

text \<open>
  Splaying keeps the elements in order and ends with everything below the key on the left of the
  root and everything above it on the right; the operations on a splay tree follow from that.
\<close>

section \<open>What a heap represents\<close>

fun tptr :: "'e tree \<Rightarrow> 'e option" where
  "tptr \<langle>\<rangle> = None"
| "tptr \<langle>l, x, r\<rangle> = Some x"

fun sp_at :: "('e sref \<Rightarrow> 'e option) \<Rightarrow> ('e sref \<Rightarrow> 'e option) \<Rightarrow> 'e option \<Rightarrow> 'e tree \<Rightarrow> bool" where
  "sp_at L R v \<langle>\<rangle> \<longleftrightarrow> v = None"
| "sp_at L R v \<langle>l, x, r\<rangle> \<longleftrightarrow> v = Some x \<and> sp_at L R (L (Elm x)) l \<and> sp_at L R (R (Elm x)) r"

definition splaytree :: "'e spheap \<Rightarrow> 'e tree \<Rightarrow> bool" where
  "splaytree s t \<longleftrightarrow> distinct (inorder t) \<and> sp_at (spe_left s) (spe_right s) (sph_root s) t"

text \<open>
  The left part is a chain down right pointers from the header, kept last node first: each node
  with its left subtree. The right part is a chain down left pointers.
\<close>

fun lref :: "('e tree \<times> 'e) list \<Rightarrow> 'e sref" where
  "lref [] = Hdr"
| "lref ((a, x) # Ls) = Elm x"

fun rref :: "('e \<times> 'e tree) list \<Rightarrow> 'e sref" where
  "rref [] = Hdr"
| "rref ((x, b) # Rs) = Elm x"

fun lin :: "('e tree \<times> 'e) list \<Rightarrow> 'e list" where
  "lin [] = []"
| "lin ((a, x) # Ls) = lin Ls @ inorder a @ [x]"

fun rin :: "('e \<times> 'e tree) list \<Rightarrow> 'e list" where
  "rin [] = []"
| "rin ((x, b) # Rs) = x # inorder b @ rin Rs"

fun lrep :: "('e sref \<Rightarrow> 'e option) \<Rightarrow> ('e sref \<Rightarrow> 'e option) \<Rightarrow> ('e tree \<times> 'e) list \<Rightarrow> bool" where
  "lrep L R [] \<longleftrightarrow> True"
| "lrep L R ((a, x) # Ls) \<longleftrightarrow> sp_at L R (L (Elm x)) a \<and> R (lref Ls) = Some x \<and> lrep L R Ls"

fun rrep :: "('e sref \<Rightarrow> 'e option) \<Rightarrow> ('e sref \<Rightarrow> 'e option) \<Rightarrow> ('e \<times> 'e tree) list \<Rightarrow> bool" where
  "rrep L R [] \<longleftrightarrow> True"
| "rrep L R ((x, b) # Rs) \<longleftrightarrow> sp_at L R (R (Elm x)) b \<and> L (rref Rs) = Some x \<and> rrep L R Rs"

definition work :: "'e spheap \<Rightarrow> ('e tree \<times> 'e) list \<Rightarrow> 'e tree \<Rightarrow> ('e \<times> 'e tree) list \<Rightarrow> bool" where
  "work s Ls t Rs \<longleftrightarrow> distinct (lin Ls @ inorder t @ rin Rs) \<and>
     sp_at (spe_left s) (spe_right s) (sph_root s) t \<and>
     lrep (spe_left s) (spe_right s) Ls \<and> rrep (spe_left s) (spe_right s) Rs"

lemma sp_at_tptr: "sp_at L R v t \<Longrightarrow> v = tptr t"
  by (cases t) auto

lemma sp_at_frame [simp]:
  "e \<notin> set_tree t \<Longrightarrow> sp_at (L(Elm e := v)) R u t = sp_at L R u t"
  "e \<notin> set_tree t \<Longrightarrow> sp_at L (R(Elm e := v)) u t = sp_at L R u t"
  "sp_at (L(Hdr := v)) R u t = sp_at L R u t"
  "sp_at L (R(Hdr := v)) u t = sp_at L R u t"
  by (induction t arbitrary: u) auto

lemma lref_in: "lref Ls = Hdr \<and> Ls = [] \<or> (\<exists>e. lref Ls = Elm e \<and> e \<in> set (lin Ls))"
  by (cases Ls rule: lref.cases) auto

lemma rref_in: "rref Rs = Hdr \<and> Rs = [] \<or> (\<exists>e. rref Rs = Elm e \<and> e \<in> set (rin Rs))"
  by (cases Rs rule: rref.cases) auto

lemma lref_apart [simp]: "e \<notin> set (lin Ls) \<Longrightarrow> lref Ls \<noteq> Elm e" "e \<notin> set (lin Ls) \<Longrightarrow> Elm e \<noteq> lref Ls"
  using lref_in [of Ls] by auto

lemma rref_apart [simp]: "e \<notin> set (rin Rs) \<Longrightarrow> rref Rs \<noteq> Elm e" "e \<notin> set (rin Rs) \<Longrightarrow> Elm e \<noteq> rref Rs"
  using rref_in [of Rs] by auto

lemma lrep_frame [simp]:
  "e \<notin> set (lin Ls) \<Longrightarrow> lrep (L(Elm e := v)) R Ls = lrep L R Ls"
  "e \<notin> set (lin Ls) \<Longrightarrow> lrep L (R(Elm e := v)) Ls = lrep L R Ls"
  "lrep (L(Hdr := v)) R Ls = lrep L R Ls"
  by (induction Ls rule: lin.induct) auto

lemma rrep_frame [simp]:
  "e \<notin> set (rin Rs) \<Longrightarrow> rrep (L(Elm e := v)) R Rs = rrep L R Rs"
  "e \<notin> set (rin Rs) \<Longrightarrow> rrep L (R(Elm e := v)) Rs = rrep L R Rs"
  "rrep L (R(Hdr := v)) Rs = rrep L R Rs"
  by (induction Rs rule: rin.induct) auto

text \<open>Writing through the end of a part does not disturb what it already holds.\<close>

lemma write_lref:
  assumes "distinct (lin Ls)"
  shows "lrep L (R(lref Ls := v)) Ls = lrep L R Ls"
    "set_tree t \<inter> set (lin Ls) = {} \<Longrightarrow> sp_at L (R(lref Ls := v)) u t = sp_at L R u t"
    "set (rin Rs) \<inter> set (lin Ls) = {} \<Longrightarrow> rrep L (R(lref Ls := v)) Rs = rrep L R Rs"
proof -
  show "lrep L (R(lref Ls := v)) Ls = lrep L R Ls"
    using assms by (cases Ls rule: lref.cases) auto
  show "set_tree t \<inter> set (lin Ls) = {} \<Longrightarrow> sp_at L (R(lref Ls := v)) u t = sp_at L R u t"
    by (cases Ls rule: lref.cases) auto
  show "set (rin Rs) \<inter> set (lin Ls) = {} \<Longrightarrow> rrep L (R(lref Ls := v)) Rs = rrep L R Rs"
    by (cases Ls rule: lref.cases) auto
qed

lemma write_rref:
  assumes "distinct (rin Rs)"
  shows "rrep (L(rref Rs := v)) R Rs = rrep L R Rs"
    "set_tree t \<inter> set (rin Rs) = {} \<Longrightarrow> sp_at (L(rref Rs := v)) R u t = sp_at L R u t"
    "set (lin Ls) \<inter> set (rin Rs) = {} \<Longrightarrow> lrep (L(rref Rs := v)) R Ls = lrep L R Ls"
proof -
  show "rrep (L(rref Rs := v)) R Rs = rrep L R Rs"
    using assms by (cases Rs rule: rref.cases) auto
  show "set_tree t \<inter> set (rin Rs) = {} \<Longrightarrow> sp_at (L(rref Rs := v)) R u t = sp_at L R u t"
    by (cases Rs rule: rref.cases) auto
  show "set (lin Ls) \<inter> set (rin Rs) = {} \<Longrightarrow> lrep (L(rref Rs := v)) R Ls = lrep L R Ls"
    by (cases Rs rule: rref.cases) auto
qed

text \<open>Entries outside \<open>V\<close> keep their fields.\<close>

definition keeps :: "'e set \<Rightarrow> 'e spheap \<Rightarrow> 'e spheap \<Rightarrow> bool" where
  "keeps V s s' \<longleftrightarrow> (\<forall>y. y \<notin> V \<longrightarrow> spe_left s' (Elm y) = spe_left s (Elm y) \<and>
     spe_right s' (Elm y) = spe_right s (Elm y))"

lemma keeps_refl [simp]: "keeps V s s"
  by (simp add: keeps_def)

lemma keeps_trans: "keeps V s s1 \<Longrightarrow> keeps V s1 s2 \<Longrightarrow> keeps V s s2"
  by (simp add: keeps_def)

definition parts :: "('e tree \<times> 'e) list \<Rightarrow> 'e tree \<Rightarrow> ('e \<times> 'e tree) list \<Rightarrow> 'e list" where
  "parts Ls t Rs = lin Ls @ inorder t @ rin Rs"

section \<open>The steps of a splay\<close>

lemma rotate_right:
  assumes "work s Ls \<langle>\<langle>a, y, b\<rangle>, x, c\<rangle> Rs"
  shows "\<exists>s'. SPLAY_ROTATE_RIGHT y s = Some s' \<and> work s' Ls \<langle>a, y, \<langle>b, x, c\<rangle>\<rangle> Rs \<and>
    keeps (set (parts Ls \<langle>\<langle>a, y, b\<rangle>, x, c\<rangle> Rs)) s s'"
  using assms by (auto simp: SPLAY_ROTATE_RIGHT_def work_def splay_heap_defs Let_def keeps_def parts_def)

lemma rotate_left:
  assumes "work s Ls \<langle>c, x, \<langle>b, y, a\<rangle>\<rangle> Rs"
  shows "\<exists>s'. SPLAY_ROTATE_LEFT y s = Some s' \<and> work s' Ls \<langle>\<langle>c, x, b\<rangle>, y, a\<rangle> Rs \<and>
    keeps (set (parts Ls \<langle>c, x, \<langle>b, y, a\<rangle>\<rangle> Rs)) s s'"
  using assms by (auto simp: SPLAY_ROTATE_LEFT_def work_def splay_heap_defs Let_def keeps_def parts_def)

lemma link_left:
  assumes "work s Ls \<langle>a, x, b\<rangle> Rs"
  shows "\<exists>s'. SPLAY_LINKLEFT (rref Rs) s = Some (Elm x, s') \<and> work s' Ls a ((x, b) # Rs) \<and>
    keeps (set (parts Ls \<langle>a, x, b\<rangle> Rs)) s s'"
proof -
  have d: "distinct (lin Ls @ (inorder a @ x # inorder b) @ rin Rs)" using assms by (simp add: work_def)
  have "Elm x \<noteq> rref Rs" "set_tree a \<inter> set (rin Rs) = {}" "set_tree b \<inter> set (rin Rs) = {}"
    "set (lin Ls) \<inter> set (rin Rs) = {}" "distinct (rin Rs)" using d by auto
  note w = this(1) write_rref [OF this(5)] this
  show ?thesis
    using assms by (clarsimp simp: SPLAY_LINKLEFT_def work_def splay_heap_defs w keeps_def parts_def)
qed

lemma link_right:
  assumes "work s Ls \<langle>a, x, b\<rangle> Rs"
  shows "\<exists>s'. SPLAY_LINKRIGHT (lref Ls) s = Some (Elm x, s') \<and> work s' ((a, x) # Ls) b Rs \<and>
    keeps (set (parts Ls \<langle>a, x, b\<rangle> Rs)) s s'"
proof -
  have d: "distinct (lin Ls @ (inorder a @ x # inorder b) @ rin Rs)" using assms by (simp add: work_def)
  have "Elm x \<noteq> lref Ls" "set_tree a \<inter> set (lin Ls) = {}" "set_tree b \<inter> set (lin Ls) = {}"
    "set (rin Rs) \<inter> set (lin Ls) = {}" "distinct (lin Ls)" using d by auto
  note w = this(1) write_lref [OF this(5)] this
  show ?thesis
    using assms by (clarsimp simp: SPLAY_LINKRIGHT_def work_def splay_heap_defs w keeps_def parts_def)
qed

fun lbuild :: "('e tree \<times> 'e) list \<Rightarrow> 'e tree \<Rightarrow> 'e tree" where
  "lbuild [] t = t"
| "lbuild ((a, x) # Ls) t = lbuild Ls \<langle>a, x, t\<rangle>"

fun rbuild :: "('e \<times> 'e tree) list \<Rightarrow> 'e tree \<Rightarrow> 'e tree" where
  "rbuild [] t = t"
| "rbuild ((x, b) # Rs) t = rbuild Rs \<langle>t, x, b\<rangle>"

lemma inorder_lbuild [simp]: "inorder (lbuild Ls t) = lin Ls @ inorder t"
  by (induction Ls t rule: lbuild.induct) simp_all

lemma inorder_rbuild [simp]: "inorder (rbuild Rs t) = inorder t @ rin Rs"
  by (induction Rs t rule: rbuild.induct) simp_all

lemma set_lbuild [simp]: "set_tree (lbuild Ls t) = set (lin Ls) \<union> set_tree t"
  by (induction Ls t rule: lbuild.induct) auto

lemma set_rbuild [simp]: "set_tree (rbuild Rs t) = set_tree t \<union> set (rin Rs)"
  by (induction Rs t rule: rbuild.induct) auto

lemma lbuild_at: "lrep L R Ls \<Longrightarrow> sp_at L R (R (lref Ls)) t \<Longrightarrow> sp_at L R (R Hdr) (lbuild Ls t)"
  by (induction Ls t rule: lbuild.induct) simp_all

lemma rbuild_at: "rrep L R Rs \<Longrightarrow> sp_at L R (L (rref Rs)) t \<Longrightarrow> sp_at L R (L Hdr) (rbuild Rs t)"
  by (induction Rs t rule: rbuild.induct) simp_all

lemma assemble:
  assumes "work s Ls \<langle>a, x, b\<rangle> Rs"
  shows "\<exists>s'. SPLAY_ASSEMBLE Hdr (lref Ls) (rref Rs) s = Some s' \<and> splaytree s' \<langle>lbuild Ls a, x, rbuild Rs b\<rangle> \<and>
    keeps (set (parts Ls \<langle>a, x, b\<rangle> Rs)) s s'"
proof -
  let ?R = "(spe_right s)(lref Ls := spe_left s (Elm x))"
  let ?L = "(spe_left s)(rref Rs := spe_right s (Elm x))"
  have d: "distinct (lin Ls @ (inorder a @ x # inorder b) @ rin Rs)" using assms by (simp add: work_def)
  have x: "Elm x \<noteq> lref Ls" "lref Ls \<noteq> Elm x" "Elm x \<noteq> rref Rs" "rref Rs \<noteq> Elm x" using d by simp_all
  have "set_tree a \<inter> set (lin Ls) = {}" "set_tree b \<inter> set (lin Ls) = {}" "set (rin Rs) \<inter> set (lin Ls) = {}"
    "distinct (lin Ls)" "set_tree a \<inter> set (rin Rs) = {}" "set_tree b \<inter> set (rin Rs) = {}"
    "set (lin Ls) \<inter> set (rin Rs) = {}" "distinct (rin Rs)" using d by auto
  note w = write_lref [OF this(4)] write_rref [OF this(8)] this
  have l: "sp_at ?L ?R (?R Hdr) (lbuild Ls a)"
    using assms by (intro lbuild_at) (simp_all add: work_def w)
  have r: "sp_at ?L ?R (?L Hdr) (rbuild Rs b)"
    using assms by (intro rbuild_at) (simp_all add: work_def w)
  have "sph_root s = Some x" using assms by (simp add: work_def)
  then have "SPLAY_ASSEMBLE Hdr (lref Ls) (rref Rs) s =
      Some (s\<lparr>spe_left := ?L(Elm x := ?R Hdr), spe_right := ?R(Elm x := ?L Hdr)\<rparr>)"
    using x by (simp add: SPLAY_ASSEMBLE_def splay_heap_defs)
  moreover have "splaytree (s\<lparr>spe_left := ?L(Elm x := ?R Hdr), spe_right := ?R(Elm x := ?L Hdr)\<rparr>)
      \<langle>lbuild Ls a, x, rbuild Rs b\<rangle>"
    using d l r \<open>sph_root s = Some x\<close> by (simp add: splaytree_def)
  moreover have "keeps (set (parts Ls \<langle>a, x, b\<rangle> Rs)) s (s\<lparr>spe_left := ?L(Elm x := ?R Hdr), spe_right := ?R(Elm x := ?L Hdr)\<rparr>)"
    by (simp add: keeps_def parts_def)
  ultimately show ?thesis by blast
qed

section \<open>Splaying\<close>

definition between :: "('e \<Rightarrow> 'k::linorder) \<Rightarrow> 'e \<Rightarrow> 'e list \<Rightarrow> 'e list \<Rightarrow> bool" where
  "between key e ls rs \<longleftrightarrow> (\<forall>y \<in> set ls. key y < key e) \<and> (\<forall>y \<in> set rs. key e < key y)"

text \<open>The loop ends with the parts on either side of the key.\<close>

definition splits :: "('e \<Rightarrow> 'k::linorder) \<Rightarrow> 'e \<Rightarrow> 'e list \<Rightarrow> 'e spheap \<Rightarrow> ('e sref \<times> 'e sref \<times> 'e spheap) option \<Rightarrow> bool" where
  "splits key e xs s0 res \<longleftrightarrow> (\<exists>s Ls a x b Rs. keeps (set xs) s0 s \<and> res = Some (lref Ls, rref Rs, s) \<and> work s Ls \<langle>a, x, b\<rangle> Rs \<and>
     lin Ls @ inorder \<langle>a, x, b\<rangle> @ rin Rs = xs \<and> between key e (lin Ls @ inorder a) (inorder b @ rin Rs))"

lemma splitsI:
  "work s Ls \<langle>a, x, b\<rangle> Rs \<Longrightarrow> between key e (lin Ls @ inorder a) (inorder b @ rin Rs) \<Longrightarrow>
    keeps (set (lin Ls @ inorder \<langle>a, x, b\<rangle> @ rin Rs)) s0 s \<Longrightarrow>
    splits key e (lin Ls @ inorder \<langle>a, x, b\<rangle> @ rin Rs) s0 (Some (lref Ls, rref Rs, s))"
  unfolding splits_def by blast

lemma splits_from: "splits key e xs s1 res \<Longrightarrow> keeps (set xs) s s1 \<Longrightarrow> splits key e xs s res"
  unfolding splits_def by (metis keeps_trans)

lemma work_fields:
  assumes "work s Ls \<langle>a, x, b\<rangle> Rs"
  shows "sph_root s = Some x" "spe_left s (Elm x) = tptr a" "spe_right s (Elm x) = tptr b"
  using assms by (auto simp: work_def dest: sp_at_tptr)

text \<open>What lies left of a node of an ascending sequence has smaller keys, what lies right larger ones.\<close>

lemma ascending_at:
  assumes "ascending key (as @ x # bs)"
  shows "y \<in> set as \<Longrightarrow> key y < key x" "y \<in> set bs \<Longrightarrow> key x < key y"
  using assms by auto

lemma splay_left:
  assumes cmp: "compares cmp key" and w: "work s Ls \<langle>a, x, b\<rangle> Rs"
    and asc: "ascending key (lin Ls @ inorder \<langle>a, x, b\<rangle> @ rin Rs)" and e: "key e < key x"
    and bt: "between key e (lin Ls) (rin Rs)"
    and on: "\<And>s t Rs. work s Ls t Rs \<Longrightarrow> t \<noteq> \<langle>\<rangle> \<Longrightarrow> size t < Suc (size a + size b) \<Longrightarrow>
      ascending key (lin Ls @ inorder t @ rin Rs) \<Longrightarrow> between key e (lin Ls) (rin Rs) \<Longrightarrow>
      splits key e (lin Ls @ inorder t @ rin Rs) s (splay_loop cmp e (lref Ls) (rref Rs) s)"
  shows "splits key e (lin Ls @ inorder \<langle>a, x, b\<rangle> @ rin Rs) s (splay_loop cmp e (lref Ls) (rref Rs) s)"
proof -
  note c = compares_simps [OF cmp] and f = work_fields [OF w]
  have gt: "key e < key y" if "y \<in> set (inorder b @ rin Rs)" for y
    using less_trans [OF e ascending_at(2) [of key "lin Ls @ inorder a" x "inorder b @ rin Rs" y]] asc that
    by simp
  show ?thesis
  proof (cases a)
    case Leaf
    then have "splay_loop cmp e (lref Ls) (rref Rs) s = Some (lref Ls, rref Rs, s)"
      using f e by (subst splay_loop.simps) (simp add: c)
    moreover have "between key e (lin Ls @ inorder a) (inorder b @ rin Rs)"
      using Leaf bt gt by (simp add: between_def)
    ultimately show ?thesis using splitsI [OF w _ keeps_refl] by simp
  next
    case (Node al y ar)
    show ?thesis
    proof (cases "key e < key y")
      case False
      obtain s1 where s1: "SPLAY_LINKLEFT (rref Rs) s = Some (Elm x, s1)" "work s1 Ls a ((x, b) # Rs)"
        "keeps (set (parts Ls \<langle>a, x, b\<rangle> Rs)) s s1"
        using link_left [OF w] by blast
      have "splay_loop cmp e (lref Ls) (rref Rs) s = splay_loop cmp e (lref Ls) (rref ((x, b) # Rs)) s1"
        using f e False s1(1) Node by (subst splay_loop.simps) (simp add: c)
      moreover have "between key e (lin Ls) (rin ((x, b) # Rs))" using bt gt e by (auto simp: between_def)
      ultimately show ?thesis using on [OF s1(2)] Node asc by (intro splits_from [OF _ s1(3) [unfolded parts_def]]) simp
    next
      case True
      obtain s1 where s1: "SPLAY_ROTATE_RIGHT y s = Some s1" "work s1 Ls \<langle>al, y, \<langle>ar, x, b\<rangle>\<rangle> Rs"
        "keeps (set (parts Ls \<langle>\<langle>al, y, ar\<rangle>, x, b\<rangle> Rs)) s s1"
        using rotate_right [OF w [unfolded Node]] by blast
      note f1 = work_fields [OF s1(2)]
      have gt': "key e < key z" if "z \<in> set (inorder \<langle>ar, x, b\<rangle> @ rin Rs)" for z
        using less_trans [OF True ascending_at(2) [of key "lin Ls @ inorder al" y "inorder \<langle>ar, x, b\<rangle> @ rin Rs" z]]
          asc Node that by simp
      show ?thesis
      proof (cases "al = \<langle>\<rangle>")
        case al: True
        then have "splay_loop cmp e (lref Ls) (rref Rs) s = Some (lref Ls, rref Rs, s1)"
          using f f1 e True s1(1) Node by (subst splay_loop.simps) (simp add: c)
        moreover have "between key e (lin Ls @ inorder al) (inorder \<langle>ar, x, b\<rangle> @ rin Rs)"
          using al bt gt' by (simp add: between_def)
        ultimately show ?thesis using splitsI [OF s1(2), of key e s] s1(3) Node by (simp add: parts_def insert_commute Un_ac)
      next
        case al: False
        obtain s2 where s2: "SPLAY_LINKLEFT (rref Rs) s1 = Some (Elm y, s2)" "work s2 Ls al ((y, \<langle>ar, x, b\<rangle>) # Rs)"
          "keeps (set (parts Ls \<langle>al, y, \<langle>ar, x, b\<rangle>\<rangle> Rs)) s1 s2"
          using link_left [OF s1(2)] by blast
        have "splay_loop cmp e (lref Ls) (rref Rs) s = splay_loop cmp e (lref Ls) (rref ((y, \<langle>ar, x, b\<rangle>) # Rs)) s2"
          using f f1 e True s1(1) s2(1) Node al by (subst splay_loop.simps) (cases al; simp add: c)
        moreover have "between key e (lin Ls) (rin ((y, \<langle>ar, x, b\<rangle>) # Rs))"
          using bt gt' True by (auto simp: between_def)
        moreover have "keeps (set (lin Ls @ inorder \<langle>a, x, b\<rangle> @ rin Rs)) s s2"
          using keeps_trans [of _ s s1 s2] s1(3) s2(3) Node by (simp add: parts_def insert_commute Un_ac)
        ultimately show ?thesis using on [OF s2(2) al] Node asc by (intro splits_from [of _ _ _ s2 _ s]) simp_all
      qed
    qed
  qed
qed

lemma splay_right:
  assumes cmp: "compares cmp key" and w: "work s Ls \<langle>b, x, a\<rangle> Rs"
    and asc: "ascending key (lin Ls @ inorder \<langle>b, x, a\<rangle> @ rin Rs)" and e: "key x < key e"
    and bt: "between key e (lin Ls) (rin Rs)"
    and on: "\<And>s t Ls. work s Ls t Rs \<Longrightarrow> t \<noteq> \<langle>\<rangle> \<Longrightarrow> size t < Suc (size b + size a) \<Longrightarrow>
      ascending key (lin Ls @ inorder t @ rin Rs) \<Longrightarrow> between key e (lin Ls) (rin Rs) \<Longrightarrow>
      splits key e (lin Ls @ inorder t @ rin Rs) s (splay_loop cmp e (lref Ls) (rref Rs) s)"
  shows "splits key e (lin Ls @ inorder \<langle>b, x, a\<rangle> @ rin Rs) s (splay_loop cmp e (lref Ls) (rref Rs) s)"
proof -
  note c = compares_simps [OF cmp] and f = work_fields [OF w]
  have ne: "\<not> key e < key x" using e by simp
  have lt: "key y < key e" if "y \<in> set (lin Ls @ inorder b)" for y
    using less_trans [OF ascending_at(1) [of key "lin Ls @ inorder b" x "inorder a @ rin Rs" y] e] asc that
    by simp
  show ?thesis
  proof (cases a)
    case Leaf
    then have "splay_loop cmp e (lref Ls) (rref Rs) s = Some (lref Ls, rref Rs, s)"
      using f e ne by (subst splay_loop.simps) (simp add: c)
    moreover have "between key e (lin Ls @ inorder b) (inorder a @ rin Rs)"
      using Leaf bt lt by (simp add: between_def)
    ultimately show ?thesis using splitsI [OF w _ keeps_refl] by simp
  next
    case (Node ar y al)
    show ?thesis
    proof (cases "key y < key e")
      case False
      obtain s1 where s1: "SPLAY_LINKRIGHT (lref Ls) s = Some (Elm x, s1)" "work s1 ((b, x) # Ls) a Rs"
        "keeps (set (parts Ls \<langle>b, x, a\<rangle> Rs)) s s1"
        using link_right [OF w] by blast
      have "splay_loop cmp e (lref Ls) (rref Rs) s = splay_loop cmp e (lref ((b, x) # Ls)) (rref Rs) s1"
        using f e ne False s1(1) Node by (subst splay_loop.simps) (simp add: c)
      moreover have "between key e (lin ((b, x) # Ls)) (rin Rs)" using bt lt e by (auto simp: between_def)
      ultimately show ?thesis using on [OF s1(2)] Node asc by (intro splits_from [OF _ s1(3) [unfolded parts_def]]) simp
    next
      case True
      obtain s1 where s1: "SPLAY_ROTATE_LEFT y s = Some s1" "work s1 Ls \<langle>\<langle>b, x, ar\<rangle>, y, al\<rangle> Rs"
        "keeps (set (parts Ls \<langle>b, x, \<langle>ar, y, al\<rangle>\<rangle> Rs)) s s1"
        using rotate_left [OF w [unfolded Node]] by blast
      note f1 = work_fields [OF s1(2)]
      have lt': "key z < key e" if "z \<in> set (lin Ls @ inorder \<langle>b, x, ar\<rangle>)" for z
        using less_trans [OF ascending_at(1) [of key "lin Ls @ inorder \<langle>b, x, ar\<rangle>" y "inorder al @ rin Rs" z] True]
          asc Node that by simp
      show ?thesis
      proof (cases "al = \<langle>\<rangle>")
        case al: True
        then have "splay_loop cmp e (lref Ls) (rref Rs) s = Some (lref Ls, rref Rs, s1)"
          using f f1 e ne True s1(1) Node by (subst splay_loop.simps) (simp add: c)
        moreover have "between key e (lin Ls @ inorder \<langle>b, x, ar\<rangle>) (inorder al @ rin Rs)"
          using al bt lt' by (simp add: between_def)
        ultimately show ?thesis using splitsI [OF s1(2), of key e s] s1(3) Node by (simp add: parts_def insert_commute Un_ac)
      next
        case al: False
        obtain s2 where s2: "SPLAY_LINKRIGHT (lref Ls) s1 = Some (Elm y, s2)" "work s2 ((\<langle>b, x, ar\<rangle>, y) # Ls) al Rs"
          "keeps (set (parts Ls \<langle>\<langle>b, x, ar\<rangle>, y, al\<rangle> Rs)) s1 s2"
          using link_right [OF s1(2)] by blast
        have "splay_loop cmp e (lref Ls) (rref Rs) s = splay_loop cmp e (lref ((\<langle>b, x, ar\<rangle>, y) # Ls)) (rref Rs) s2"
          using f f1 e ne True s1(1) s2(1) Node al by (subst splay_loop.simps) (cases al; simp add: c)
        moreover have "between key e (lin ((\<langle>b, x, ar\<rangle>, y) # Ls)) (rin Rs)"
          using bt lt' True by (auto simp: between_def)
        moreover have "keeps (set (lin Ls @ inorder \<langle>b, x, a\<rangle> @ rin Rs)) s s2"
          using keeps_trans [of _ s s1 s2] s1(3) s2(3) Node by (simp add: parts_def insert_commute Un_ac)
        ultimately show ?thesis using on [OF s2(2) al] Node asc by (intro splits_from [of _ _ _ s2 _ s]) simp_all
      qed
    qed
  qed
qed

lemma splay_loop_ok:
  assumes cmp: "compares cmp key"
  shows "work s Ls t Rs \<Longrightarrow> t \<noteq> \<langle>\<rangle> \<Longrightarrow> ascending key (lin Ls @ inorder t @ rin Rs) \<Longrightarrow>
    between key e (lin Ls) (rin Rs) \<Longrightarrow>
    splits key e (lin Ls @ inorder t @ rin Rs) s (splay_loop cmp e (lref Ls) (rref Rs) s)"
proof (induction t arbitrary: s Ls Rs rule: measure_induct_rule [where f = size])
  case (less t)
  obtain a x b where t: "t = \<langle>a, x, b\<rangle>" using less.prems(2) by (cases t) auto
  note w = less.prems(1) [unfolded t]
  consider "key e < key x" | "key x < key e" | "key e = key x" by fastforce
  then show ?case
  proof cases
    case 1
    then show ?thesis unfolding t
      using splay_left [OF cmp w _ 1 less.prems(4)] less.IH less.prems(3) t by simp
  next
    case 2
    then show ?thesis unfolding t
      using splay_right [OF cmp w _ 2 less.prems(4)] less.IH less.prems(3) t by simp
  next
    case 3
    then have "splay_loop cmp e (lref Ls) (rref Rs) s = Some (lref Ls, rref Rs, s)"
      using work_fields [OF w] by (subst splay_loop.simps) (simp add: compares_simps [OF cmp])
    moreover have "between key e (lin Ls @ inorder a) (inorder b @ rin Rs)"
      using less.prems(3) 3 unfolding t between_def by auto
    ultimately show ?thesis using splitsI [OF w _ keeps_refl] t by simp
  qed
qed

text \<open>Splaying a tree: same elements, the smaller ones left of the root and the larger ones right.\<close>

lemma splay_ok:
  assumes "splaytree s t" "t \<noteq> \<langle>\<rangle>" "compares cmp key" "ascending key (inorder t)"
  shows "\<exists>s' a x b. SPLAY cmp e s = Some s' \<and> splaytree s' \<langle>a, x, b\<rangle> \<and> inorder \<langle>a, x, b\<rangle> = inorder t \<and>
    between key e (inorder a) (inorder b) \<and> keeps (set_tree t) s s'"
proof -
  let ?s = "set_spleft Hdr None (set_spright Hdr None s)"
  have "work ?s [] t []" using assms(1) by (simp add: work_def splaytree_def splay_heap_defs)
  then have "splits key e (inorder t) ?s (splay_loop cmp e Hdr Hdr ?s)"
    using splay_loop_ok [OF assms(3), of ?s "[]" t "[]" e] assms(2,4) by (simp add: between_def)
  then obtain s1 Ls a x b Rs where s1: "splay_loop cmp e Hdr Hdr ?s = Some (lref Ls, rref Rs, s1)"
    "work s1 Ls \<langle>a, x, b\<rangle> Rs" "lin Ls @ inorder \<langle>a, x, b\<rangle> @ rin Rs = inorder t"
    "between key e (lin Ls @ inorder a) (inorder b @ rin Rs)" "keeps (set (inorder t)) ?s s1"
    unfolding splits_def by blast
  obtain s2 where s2: "SPLAY_ASSEMBLE Hdr (lref Ls) (rref Rs) s1 = Some s2"
    "splaytree s2 \<langle>lbuild Ls a, x, rbuild Rs b\<rangle>" "keeps (set (parts Ls \<langle>a, x, b\<rangle> Rs)) s1 s2"
    using assemble [OF s1(2)] by blast
  have "keeps (set_tree t) s ?s" by (simp add: keeps_def splay_heap_defs)
  then have "keeps (set_tree t) s s2"
    using s1(5) s2(3) unfolding parts_def s1(3) by (auto intro: keeps_trans)
  then have "SPLAY cmp e s = Some s2 \<and> splaytree s2 \<langle>lbuild Ls a, x, rbuild Rs b\<rangle> \<and>
      inorder \<langle>lbuild Ls a, x, rbuild Rs b\<rangle> = inorder t \<and>
      between key e (inorder (lbuild Ls a)) (inorder (rbuild Rs b)) \<and> keeps (set_tree t) s s2"
    using s1 s2 by (simp add: SPLAY_def)
  then show ?thesis by blast
qed

section \<open>The operations\<close>

lemma splaytree_root: "splaytree s t \<Longrightarrow> sph_root s = tptr t"
  by (auto simp: splaytree_def dest: sp_at_tptr)

lemma tptr_None [simp]: "tptr t = None \<longleftrightarrow> t = \<langle>\<rangle>" "None = tptr t \<longleftrightarrow> t = \<langle>\<rangle>"
  by (cases t; simp)+

lemma find_split:
  assumes "between key e as bs"
  shows "List.find (\<lambda>y. key y = key e) (as @ x # bs) = (if key x = key e then Some x else None)"
proof -
  have "List.find (\<lambda>y. key y = key e) as = None" "List.find (\<lambda>y. key y = key e) bs = None"
    using assms by (auto simp: between_def intro!: find_None)
  then show ?thesis by (simp add: find_append)
qed

lemma splay_find_ok:
  assumes "splaytree s t" "compares cmp key" "ascending key (inorder t)"
  shows "\<exists>s' t'. SPLAY_FIND cmp e s = Some (List.find (\<lambda>y. key y = key e) (inorder t), s') \<and>
    splaytree s' t' \<and> inorder t' = inorder t"
proof (cases "t = \<langle>\<rangle>")
  case True
  then show ?thesis
    using assms(1) splaytree_root [OF assms(1)] by (auto simp: SPLAY_FIND_def SPLAY_EMPTY_def)
next
  case False
  obtain s' a x b where s': "SPLAY cmp e s = Some s'" "splaytree s' \<langle>a, x, b\<rangle>"
    "inorder \<langle>a, x, b\<rangle> = inorder t" "between key e (inorder a) (inorder b)"
    using splay_ok [OF assms(1) False assms(2,3)] by blast
  have "List.find (\<lambda>y. key y = key e) (inorder t) = (if key x = key e then Some x else None)"
    using find_split [OF s'(4), of x] unfolding s'(3) [symmetric] by simp
  then have "SPLAY_FIND cmp e s = Some (List.find (\<lambda>y. key y = key e) (inorder t), s')"
    using s'(1) False splaytree_root [OF s'(2)] splaytree_root [OF assms(1)]
    by (auto simp add: SPLAY_FIND_def SPLAY_EMPTY_def compares_simps [OF assms(2)])
  then show ?thesis using s' by blast
qed

lemma splay_insert_ok:
  assumes "splaytree s t" "compares cmp key" "ascending key (inorder t)" "e \<notin> set (inorder t)"
  shows "(\<exists>y s' t'. y \<in> set (inorder t) \<and> key y = key e \<and> SPLAY_INSERT cmp e s = Some (Some y, s') \<and>
      splaytree s' t' \<and> inorder t' = inorder t) \<or>
    (\<exists>s' t' as bs. SPLAY_INSERT cmp e s = Some (None, s') \<and> splaytree s' t' \<and> inorder t = as @ bs \<and>
      inorder t' = as @ e # bs \<and> ascending key (as @ e # bs))"
proof (cases "t = \<langle>\<rangle>")
  case True
  have "splaytree (set_sproot (Some e) (set_spleft (Elm e) None (set_spright (Elm e) None s))) \<langle>\<langle>\<rangle>, e, \<langle>\<rangle>\<rangle>"
    by (simp add: splaytree_def splay_heap_defs)
  then show ?thesis
    using True splaytree_root [OF assms(1)] by (fastforce simp: SPLAY_INSERT_def SPLAY_EMPTY_def)
next
  case False
  obtain s' a x b where s': "SPLAY cmp e s = Some s'" "splaytree s' \<langle>a, x, b\<rangle>"
    "inorder \<langle>a, x, b\<rangle> = inorder t" "between key e (inorder a) (inorder b)"
    using splay_ok [OF assms(1) False assms(2,3)] by blast
  have asc: "ascending key (inorder \<langle>a, x, b\<rangle>)" and new: "e \<notin> set_tree a" "e \<noteq> x" "e \<notin> set_tree b"
    using assms(3,4) unfolding s'(3) [symmetric] by simp_all
  note d = SPLAY_INSERT_def Let_def compares_simps [OF assms(2)]
  have r: "\<not> SPLAY_EMPTY s" "sph_root s' = Some x"
    using False splaytree_root [OF s'(2)] splaytree_root [OF assms(1)] by (simp_all add: SPLAY_EMPTY_def)
  consider "key e < key x" | "key x < key e" | "key e = key x" by fastforce
  then show ?thesis
  proof cases
    case 1
    let ?s = "set_sproot (Some e) (set_spleft (Elm x) None (set_spright (Elm e) (Some x)
      (set_spleft (Elm e) (spe_left s' (Elm x)) s')))"
    have "splaytree ?s \<langle>a, e, \<langle>\<langle>\<rangle>, x, b\<rangle>\<rangle>"
      using s'(2) new by (auto simp: splaytree_def splay_heap_defs)
    moreover have "SPLAY_INSERT cmp e s = Some (None, ?s)" using 1 s'(1) r by (simp add: d)
    moreover have "ascending key (inorder a @ e # x # inorder b)"
      using 1 asc s'(4) by (fastforce simp: between_def)
    ultimately show ?thesis using s'(3)
      by (intro disjI2 exI [of _ ?s] exI [of _ "\<langle>a, e, \<langle>\<langle>\<rangle>, x, b\<rangle>\<rangle>"] exI [of _ "inorder a"]
          exI [of _ "x # inorder b"]) simp
  next
    case 2
    let ?s = "set_sproot (Some e) (set_spright (Elm x) None (set_spleft (Elm e) (Some x)
      (set_spright (Elm e) (spe_right s' (Elm x)) s')))"
    have "splaytree ?s \<langle>\<langle>a, x, \<langle>\<rangle>\<rangle>, e, b\<rangle>"
      using s'(2) new by (auto simp: splaytree_def splay_heap_defs)
    moreover have "SPLAY_INSERT cmp e s = Some (None, ?s)" using 2 s'(1) r by (simp add: d)
    moreover have "ascending key ((inorder a @ [x]) @ e # inorder b)"
      using 2 asc s'(4) by (fastforce simp: between_def)
    ultimately show ?thesis using s'(3)
      by (intro disjI2 exI [of _ ?s] exI [of _ "\<langle>\<langle>a, x, \<langle>\<rangle>\<rangle>, e, b\<rangle>"] exI [of _ "inorder a @ [x]"]
          exI [of _ "inorder b"]) simp
  next
    case 3
    then have "SPLAY_INSERT cmp e s = Some (Some x, s')" using s'(1) r by (simp add: d)
    moreover have "x \<in> set (inorder t)" unfolding s'(3) [symmetric] by simp
    ultimately show ?thesis using 3 s' by metis
  qed
qed


lemma sp_at_keeps:
  "keeps V s s' \<Longrightarrow> set_tree t \<inter> V = {} \<Longrightarrow>
    sp_at (spe_left s') (spe_right s') v t = sp_at (spe_left s) (spe_right s) v t"
  by (induction t arbitrary: v) (auto simp: keeps_def)

lemma splay_remove_ok:
  assumes "splaytree s t" "compares cmp key" "ascending key (inorder t)"
  shows "\<exists>s' t'. SPLAY_REMOVE cmp e s =
      Some (if \<exists>y \<in> set (inorder t). key y = key e then Some e else None, s') \<and>
    splaytree s' t' \<and> inorder t' = filter (\<lambda>y. key y \<noteq> key e) (inorder t)"
proof (cases "t = \<langle>\<rangle>")
  case True
  then show ?thesis
    using assms(1) splaytree_root [OF assms(1)] by (auto simp: SPLAY_REMOVE_def SPLAY_EMPTY_def)
next
  case False
  obtain s1 a x b where s1: "SPLAY cmp e s = Some s1" "splaytree s1 \<langle>a, x, b\<rangle>"
    "inorder \<langle>a, x, b\<rangle> = inorder t" "between key e (inorder a) (inorder b)"
    using splay_ok [OF assms(1) False assms(2,3)] by blast
  note d = SPLAY_REMOVE_def Let_def compares_simps [OF assms(2)]
  have r: "\<not> SPLAY_EMPTY s" "sph_root s1 = Some x"
    using False splaytree_root [OF s1(2)] splaytree_root [OF assms(1)] by (simp_all add: SPLAY_EMPTY_def)
  have ptrs: "spe_left s1 (Elm x) = tptr a" "spe_right s1 (Elm x) = tptr b"
    using s1(2) by (auto simp: splaytree_def dest: sp_at_tptr)
  have ab: "filter (\<lambda>y. key y \<noteq> key e) (inorder a) = inorder a"
      "filter (\<lambda>y. key y \<noteq> key e) (inorder b) = inorder b"
    using s1(4) by (auto simp: between_def filter_id_conv)
  have f: "filter (\<lambda>y. key y \<noteq> key e) (inorder t) = inorder a @ (if key x = key e then [] else [x]) @ inorder b"
    unfolding s1(3) [symmetric] by (simp add: ab)
  have m: "(\<exists>y \<in> set (inorder t). key y = key e) \<longleftrightarrow> key x = key e"
    using s1(4) unfolding s1(3) [symmetric] by (fastforce simp: between_def)
  consider "key x \<noteq> key e" | "key x = key e" "a = \<langle>\<rangle>" | "key x = key e" "a \<noteq> \<langle>\<rangle>" by blast
  then show ?thesis
  proof cases
    case 1
    then have "SPLAY_REMOVE cmp e s = Some (None, s1)" using r s1(1) by (simp add: d)
    moreover have "inorder \<langle>a, x, b\<rangle> = filter (\<lambda>y. key y \<noteq> key e) (inorder t)" using 1 f by simp
    moreover have "\<not> (\<exists>y \<in> set (inorder t). key y = key e)" using 1 m by simp
    ultimately show ?thesis using s1(2)
      by (intro exI [of _ s1] exI [of _ "\<langle>a, x, b\<rangle>"] conjI) (simp_all only: if_False)
  next
    case 2
    then have "SPLAY_REMOVE cmp e s = Some (Some e, set_sproot (tptr b) s1)"
      using r s1(1) ptrs by (simp add: d)
    moreover have "splaytree (set_sproot (tptr b) s1) b"
      using s1(2) ptrs by (simp add: splaytree_def splay_heap_defs)
    ultimately show ?thesis using 2 m f by (intro exI [of _ "set_sproot (tptr b) s1"] exI [of _ b]) simp
  next
    case 3
    let ?s = "set_sproot (tptr a) s1"
    have a: "splaytree ?s a" using s1(2) ptrs by (simp add: splaytree_def splay_heap_defs)
    have "ascending key (inorder a)" using assms(3) unfolding s1(3) [symmetric] by simp
    from splay_ok [OF a 3(2) assms(2) this, of e] obtain s2 a' y b' where
      s2: "SPLAY cmp e ?s = Some s2" "splaytree s2 \<langle>a', y, b'\<rangle>" "inorder \<langle>a', y, b'\<rangle> = inorder a"
      "between key e (inorder a') (inorder b')" "keeps (set_tree a) ?s s2" by blast
    have "z \<in> set (inorder a)" if "z \<in> set (inorder b')" for z using that unfolding s2(3) [symmetric] by simp
    then have "b' = \<langle>\<rangle>" using s1(4) s2(4) by (cases b') (force simp: between_def)+
    let ?t = "set_spright (Elm y) (tptr b) s2"
    have "sph_root s2 = Some y" using splaytree_root [OF s2(2)] by simp
    then have "SPLAY_REMOVE cmp e s = Some (Some e, ?t)"
      using 3 r s1(1) s2(1) ptrs by (simp add: d)
    moreover have "splaytree ?t \<langle>a', y, b\<rangle>"
    proof -
      have dis: "distinct (inorder \<langle>a', y, \<langle>\<rangle>\<rangle> @ inorder b)"
        using s1(2) s2(2,3) \<open>b' = \<langle>\<rangle>\<close> unfolding splaytree_def by (auto simp del: set_inorder)
      have "set_tree b \<inter> set_tree a = {}" using s1(2) by (auto simp: splaytree_def)
      then have "sp_at (spe_left s2) (spe_right s2) (tptr b) b"
        using sp_at_keeps [OF s2(5), of b "tptr b"] s1(2) ptrs by (simp add: splaytree_def splay_heap_defs)
      then show ?thesis
        using dis s2(2) by (auto simp: splaytree_def splay_heap_defs)
    qed
    moreover have "inorder \<langle>a', y, b\<rangle> = inorder a @ inorder b" using s2(3) \<open>b' = \<langle>\<rangle>\<close> by simp
    ultimately show ?thesis using 3 m f by (intro exI [of _ ?t] exI [of _ "\<langle>a', y, b\<rangle>"]) simp
  qed
qed


section \<open>Traversal\<close>

lemma splay_descend:
  "sp_at L R (Some y) t \<Longrightarrow> rb_descend (\<lambda>e. L (Elm e)) y = Some (hd (inorder t))"
proof (induction t arbitrary: y)
  case (Node l x r)
  show ?case
  proof (cases l)
    case Leaf
    then show ?thesis using Node.prems by (subst rb_descend.simps) simp
  next
    case l: (Node ll z lr)
    then have "rb_descend (\<lambda>e. L (Elm e)) z = Some (hd (inorder l))"
      using Node by simp
    then show ?thesis using Node.prems l by (subst rb_descend.simps) (simp add: hd_append)
  qed
qed simp

lemma splay_next_ok:
  assumes "splaytree s t" "compares cmp key" "ascending key (inorder t)" "inorder t = as @ e # bs"
  shows "\<exists>s' t'. SPLAY_NEXT cmp e s = Some (head_opt bs, s') \<and> splaytree s' t' \<and> inorder t' = inorder t"
proof -
  have ne: "t \<noteq> \<langle>\<rangle>" using assms(4) by auto
  obtain s1 a x b where s1: "SPLAY cmp e s = Some s1" "splaytree s1 \<langle>a, x, b\<rangle>"
    "inorder \<langle>a, x, b\<rangle> = inorder t" "between key e (inorder a) (inorder b)"
    using splay_ok [OF assms(1) ne assms(2,3)] by blast
  have "e \<in> set (inorder \<langle>a, x, b\<rangle>)" unfolding s1(3) assms(4) by simp
  then have x: "x = e" using s1(4) by (auto simp: between_def)
  have "distinct (as @ e # bs)" using assms(1,4) by (simp add: splaytree_def)
  then have "e \<notin> set as" "e \<notin> set bs" by simp_all
  moreover have same: "as @ e # bs = inorder a @ e # inorder b" using s1(3) assms(4) x by simp
  ultimately have "inorder b = bs" by (simp add: append_Cons_eq_iff)
  moreover have "sp_at (spe_left s1) (spe_right s1) (spe_right s1 (Elm e)) b"
    using s1(2) x by (simp add: splaytree_def)
  ultimately have "SPLAY_NEXT cmp e s = Some (head_opt bs, s1)"
    using s1(1) splay_descend [of "spe_left s1" "spe_right s1" _ b] sp_at_tptr
    by (cases b) (auto simp: SPLAY_NEXT_def head_opt_hd)
  then show ?thesis using s1 by blast
qed

lemma minmax_left:
  "work s Ls t Rs \<Longrightarrow> t \<noteq> \<langle>\<rangle> \<Longrightarrow> \<exists>s' x b Rs'. splay_minmax_loop (- 1) (lref Ls) (rref Rs) s = Some (lref Ls, rref Rs', s') \<and>
    work s' Ls \<langle>\<langle>\<rangle>, x, b\<rangle> Rs' \<and> x # inorder b @ rin Rs' = inorder t @ rin Rs"
proof (induction t arbitrary: s Rs rule: measure_induct_rule [where f = size])
  case (less t)
  obtain a x b where t: "t = \<langle>a, x, b\<rangle>" using less.prems(2) by (cases t) auto
  note f = work_fields [OF less.prems(1) [unfolded t]]
  show ?case
  proof (cases a)
    case Leaf
    then show ?thesis using f t less.prems(1) by (subst splay_minmax_loop.simps) auto
  next
    case (Node al y ar)
    obtain s1 where s1: "SPLAY_ROTATE_RIGHT y s = Some s1" "work s1 Ls \<langle>al, y, \<langle>ar, x, b\<rangle>\<rangle> Rs"
      using rotate_right [OF less.prems(1) [unfolded t Node]] by blast
    note f1 = work_fields [OF s1(2)]
    show ?thesis
    proof (cases "al = \<langle>\<rangle>")
      case True
      then have "splay_minmax_loop (- 1) (lref Ls) (rref Rs) s = Some (lref Ls, rref Rs, s1)"
        using f f1 s1(1) Node by (subst splay_minmax_loop.simps) simp
      then show ?thesis using s1(2) True Node t by force
    next
      case False
      obtain s2 where s2: "SPLAY_LINKLEFT (rref Rs) s1 = Some (Elm y, s2)" "work s2 Ls al ((y, \<langle>ar, x, b\<rangle>) # Rs)"
        using link_left [OF s1(2)] by blast
      have "splay_minmax_loop (- 1) (lref Ls) (rref Rs) s =
          splay_minmax_loop (- 1) (lref Ls) (rref ((y, \<langle>ar, x, b\<rangle>) # Rs)) s2"
        using f f1 s1(1) s2(1) Node False by (subst splay_minmax_loop.simps) (cases al; simp)
      then show ?thesis using less.IH [OF _ s2(2) False] Node t by simp
    qed
  qed
qed

lemma minmax_right:
  "work s Ls t Rs \<Longrightarrow> t \<noteq> \<langle>\<rangle> \<Longrightarrow> \<exists>s' x b Ls'. splay_minmax_loop 1 (lref Ls) (rref Rs) s = Some (lref Ls', rref Rs, s') \<and>
    work s' Ls' \<langle>b, x, \<langle>\<rangle>\<rangle> Rs \<and> lin Ls' @ inorder b @ [x] = lin Ls @ inorder t"
proof (induction t arbitrary: s Ls rule: measure_induct_rule [where f = size])
  case (less t)
  obtain a x b where t: "t = \<langle>b, x, a\<rangle>" using less.prems(2) by (cases t) auto
  note f = work_fields [OF less.prems(1) [unfolded t]]
  show ?case
  proof (cases a)
    case Leaf
    then show ?thesis using f t less.prems(1) by (subst splay_minmax_loop.simps) auto
  next
    case (Node ar y al)
    obtain s1 where s1: "SPLAY_ROTATE_LEFT y s = Some s1" "work s1 Ls \<langle>\<langle>b, x, ar\<rangle>, y, al\<rangle> Rs"
      using rotate_left [OF less.prems(1) [unfolded t Node]] by blast
    note f1 = work_fields [OF s1(2)]
    show ?thesis
    proof (cases "al = \<langle>\<rangle>")
      case True
      then have "splay_minmax_loop 1 (lref Ls) (rref Rs) s = Some (lref Ls, rref Rs, s1)"
        using f f1 s1(1) Node by (subst splay_minmax_loop.simps) simp
      then show ?thesis using s1(2) True Node t by force
    next
      case False
      obtain s2 where s2: "SPLAY_LINKRIGHT (lref Ls) s1 = Some (Elm y, s2)" "work s2 ((\<langle>b, x, ar\<rangle>, y) # Ls) al Rs"
        using link_right [OF s1(2)] by blast
      have "splay_minmax_loop 1 (lref Ls) (rref Rs) s =
          splay_minmax_loop 1 (lref ((\<langle>b, x, ar\<rangle>, y) # Ls)) (rref Rs) s2"
        using f f1 s1(1) s2(1) Node False by (subst splay_minmax_loop.simps) (cases al; simp)
      then show ?thesis using less.IH [OF _ s2(2) False] Node t by simp
    qed
  qed
qed

text \<open>The smallest and the largest element come to the root.\<close>

lemma splay_min_ok:
  assumes "splaytree s t"
  shows "\<exists>s' t'. SPLAY_MIN s = Some (head_opt (inorder t), s') \<and> splaytree s' t' \<and> inorder t' = inorder t"
    "\<exists>s' t'. SPLAY_MAX s = Some (head_opt (rev (inorder t)), s') \<and> splaytree s' t' \<and> inorder t' = inorder t"
proof -
  let ?s = "set_spleft Hdr None (set_spright Hdr None s)"
  have w: "work ?s [] t []" using assms by (simp add: work_def splaytree_def splay_heap_defs)
  have r: "SPLAY_EMPTY s \<longleftrightarrow> t = \<langle>\<rangle>" using splaytree_root [OF assms] by (simp add: SPLAY_EMPTY_def)
  note d = SPLAY_MIN_def SPLAY_MAX_def SPLAY_MIN_MAX_def SPLAY_MINMAX_def
  show "\<exists>s' t'. SPLAY_MIN s = Some (head_opt (inorder t), s') \<and> splaytree s' t' \<and> inorder t' = inorder t"
  proof (cases "t = \<langle>\<rangle>")
    case False
    from minmax_left [OF w this] obtain s1 x b Rs where
      s1: "splay_minmax_loop (- 1) Hdr Hdr ?s = Some (lref [], rref Rs, s1)" "work s1 [] \<langle>\<langle>\<rangle>, x, b\<rangle> Rs"
      "x # inorder b @ rin Rs = inorder t" by auto
    obtain s2 where s2: "SPLAY_ASSEMBLE Hdr (lref []) (rref Rs) s1 = Some s2"
      "splaytree s2 \<langle>\<langle>\<rangle>, x, rbuild Rs b\<rangle>" using assemble [OF s1(2)] by auto
    have "SPLAY_MIN s = Some (head_opt (inorder t), s2)"
      using s1(1) s2(1) splaytree_root [OF s2(2)] False r by (simp add: d s1(3) [symmetric])
    then show ?thesis using s1(3) s2(2) by (intro exI [of _ s2] exI [of _ "\<langle>\<langle>\<rangle>, x, rbuild Rs b\<rangle>"]) simp
  qed (use assms r in \<open>auto simp: d\<close>)
  show "\<exists>s' t'. SPLAY_MAX s = Some (head_opt (rev (inorder t)), s') \<and> splaytree s' t' \<and> inorder t' = inorder t"
  proof (cases "t = \<langle>\<rangle>")
    case False
    from minmax_right [OF w this] obtain s1 x b Ls where
      s1: "splay_minmax_loop 1 Hdr Hdr ?s = Some (lref Ls, rref [], s1)" "work s1 Ls \<langle>b, x, \<langle>\<rangle>\<rangle> []"
      "lin Ls @ inorder b @ [x] = inorder t" by auto
    obtain s2 where s2: "SPLAY_ASSEMBLE Hdr (lref Ls) (rref []) s1 = Some s2"
      "splaytree s2 \<langle>lbuild Ls b, x, \<langle>\<rangle>\<rangle>" using assemble [OF s1(2)] by auto
    have "SPLAY_MAX s = Some (head_opt (rev (inorder t)), s2)"
      using s1(1) s2(1) splaytree_root [OF s2(2)] False r by (simp add: d s1(3) [symmetric])
    then show ?thesis using s1(3) s2(2) by (intro exI [of _ s2] exI [of _ "\<langle>lbuild Ls b, x, \<langle>\<rangle>\<rangle>"]) simp
  qed (use assms r in \<open>auto simp: d\<close>)
qed

lemma splay_visits_ok:
  assumes cmp: "compares cmp key"
  shows "splaytree s t \<Longrightarrow> ascending key (inorder t) \<Longrightarrow> inorder t = as @ bs \<Longrightarrow>
    \<exists>s' t'. splay_visits cmp (head_opt bs) s = Some (bs, s') \<and> splaytree s' t' \<and> inorder t' = inorder t"
proof (induction bs arbitrary: as s t)
  case Nil
  then show ?case by (subst splay_visits.simps) auto
next
  case (Cons b bs)
  obtain s1 t1 where s1: "SPLAY_NEXT cmp b s = Some (head_opt bs, s1)" "splaytree s1 t1" "inorder t1 = inorder t"
    using splay_next_ok [OF Cons.prems(1) cmp Cons.prems(2,3)] by blast
  then show ?case
    using Cons.IH [OF s1(2), of "as @ [b]"] Cons.prems by (subst splay_visits.simps) auto
qed

lemma splay_foreach_ok:
  assumes "splaytree s t" "compares cmp key" "ascending key (inorder t)"
  shows "\<exists>s' t'. SPLAY_FOREACH cmp s = Some (inorder t, s') \<and> splaytree s' t' \<and> inorder t' = inorder t"
proof -
  obtain s1 t1 where s1: "SPLAY_MIN s = Some (head_opt (inorder t1), s1)" "splaytree s1 t1" "inorder t1 = inorder t"
    using splay_min_ok(1) [OF assms(1)] by metis
  then show ?thesis
    using splay_visits_ok [OF assms(2) s1(2), of "[]" "inorder t1"] assms(3)
    by (auto simp: SPLAY_FOREACH_def)
qed


section \<open>An example\<close>

text \<open>The tree of 1 and 3 with 1 at the root.\<close>

definition sp_13 :: "nat spheap" where
  "sp_13 = \<lparr>spe_left = (\<lambda>_. None), spe_right = [Elm 1 \<mapsto> 3], sph_root = Some 1\<rparr>"

lemma sp_13_ok: "splaytree sp_13 \<langle>\<langle>\<rangle>, 1, \<langle>\<langle>\<rangle>, 3, \<langle>\<rangle>\<rangle>\<rangle>"
  "ascending id (inorder \<langle>\<langle>\<rangle>, 1 :: nat, \<langle>\<langle>\<rangle>, 3, \<langle>\<rangle>\<rangle>\<rangle>)"
  by (simp_all add: splaytree_def sp_13_def)

end
