(* ===== verification/Ordered_Set.thy ===== *)
theory Ordered_Set
  imports Rb_Loops Splay_Correct "HOL-Library.Multiset"
begin

text \<open>
  What both families of trees of \<open>tree.h\<close> promise their clients: an ordered set. The contract is a
  locale over a representation predicate, with the client's lemmas proved in it once; the red-black
  trees and the splay trees interpret it, for any comparison that orders keys.
\<close>

section \<open>The contract\<close>

text \<open>\<open>repr s xs\<close>: the structure in the state \<open>s\<close> holds the elements \<open>xs\<close>, in the order of their keys.\<close>

locale ordered_set =
  fixes repr :: "'s \<Rightarrow> 'e list \<Rightarrow> bool"
    and key :: "'e \<Rightarrow> 'k::linorder"
    and find :: "'e \<Rightarrow> 's \<Rightarrow> ('e option \<times> 's) option"
    and ins :: "'e \<Rightarrow> 's \<Rightarrow> ('e option \<times> 's) option"
    and remove :: "'e \<Rightarrow> 's \<Rightarrow> ('e option \<times> 's) option"
    and visit :: "'s \<Rightarrow> ('e list \<times> 's) option"
  assumes repr_ascending: "repr s xs \<Longrightarrow> ascending key xs"
    and find_finds: "repr s xs \<Longrightarrow>
      \<exists>s'. find e s = Some (List.find (\<lambda>y. key y = key e) xs, s') \<and> repr s' xs"
    and ins_new: "repr s xs \<Longrightarrow> key x \<notin> key ` set xs \<Longrightarrow>
      \<exists>s' ys. ins x s = Some (None, s') \<and> repr s' ys \<and> set ys = insert x (set xs)"
    and ins_old: "repr s xs \<Longrightarrow> x \<notin> set xs \<Longrightarrow> y \<in> set xs \<Longrightarrow> key y = key x \<Longrightarrow>
      \<exists>s'. ins x s = Some (Some y, s') \<and> repr s' xs"
    and remove_in: "repr s (as @ x # bs) \<Longrightarrow> \<exists>s'. remove x s = Some (Some x, s') \<and> repr s' (as @ bs)"
    and visit_all: "repr s xs \<Longrightarrow> \<exists>s'. visit s = Some (xs, s') \<and> repr s' xs"

text \<open>Inserting the elements of a list, one after the other.\<close>

fun insert_list :: "('e \<Rightarrow> 's \<Rightarrow> ('e option \<times> 's) option) \<Rightarrow> 'e list \<Rightarrow> 's \<Rightarrow> 's option" where
  "insert_list ins [] s = Some s"
| "insert_list ins (x # xs) s = do { (_, s) \<leftarrow> ins x s; insert_list ins xs s }"

lemma ascending_distinct: "ascending key xs \<Longrightarrow> distinct (map key xs)"
  by (induction xs) fastforce+

lemma ascending_sorted: "ascending key xs \<Longrightarrow> sorted (map key xs)"
  by (induction xs) (auto simp: less_imp_le)

text \<open>An ascending list is determined by its elements.\<close>

lemma ascending_unique:
  assumes "ascending key ys" "set ys = set xs" "distinct (map key xs)"
  shows "ys = sort_key key xs"
proof (rule sort_key_inj_key_eq [symmetric])
  have "distinct ys" "distinct xs"
    using ascending_distinct [OF assms(1)] assms(3) by (simp_all add: distinct_map)
  then show "mset xs = mset ys" using assms(2) by (simp add: set_eq_iff_mset_eq_distinct)
  show "inj_on key (set xs)" using assms(3) by (simp add: distinct_map)
  show "sorted (map key ys)" by (rule ascending_sorted [OF assms(1)])
qed

context ordered_set
begin

lemma insert_list_sorts:
  "repr s ys \<Longrightarrow> distinct (map key (ys @ xs)) \<Longrightarrow>
    \<exists>s'. insert_list ins xs s = Some s' \<and> repr s' (sort_key key (ys @ xs))"
proof (induction xs arbitrary: s ys)
  case Nil
  then have "ys = sort_key key ys" by (intro ascending_unique [OF repr_ascending]) simp_all
  then show ?case using Nil by simp
next
  case (Cons x xs)
  have "key x \<notin> key ` set ys" using Cons.prems(2) by auto
  from ins_new [OF Cons.prems(1) this] obtain s1 zs where
    s1: "ins x s = Some (None, s1)" "repr s1 zs" "set zs = insert x (set ys)" by blast
  have "distinct (map key (zs @ xs))"
    using ascending_distinct [OF repr_ascending [OF s1(2)]] Cons.prems(2) s1(3) by auto
  then obtain s2 where s2: "insert_list ins xs s1 = Some s2" "repr s2 (sort_key key (zs @ xs))"
    using Cons.IH [OF s1(2)] by blast
  have "sort_key key (zs @ xs) = sort_key key (ys @ x # xs)"
    using Cons.prems(2) s1(3) by (intro ascending_unique [OF repr_ascending [OF s2(2)]]) auto
  then show ?case using s1(1) s2 by simp
qed

lemma sorts:
  assumes "repr s []" "distinct (map key xs)"
  shows "\<exists>s' s''. insert_list ins xs s = Some s' \<and> visit s' = Some (sort_key key xs, s'')"
  using insert_list_sorts [OF assms(1), of xs] assms(2) visit_all by fastforce

lemma found_once:
  assumes "repr s []" "distinct (map key xs)" "x \<in> set xs"
  shows "\<exists>s' s''. insert_list ins xs s = Some s' \<and> find x s' = Some (Some x, s'')"
proof -
  obtain s' where s': "insert_list ins xs s = Some s'" "repr s' (sort_key key xs)"
    using insert_list_sorts [OF assms(1), of xs] assms(2) by auto
  have "List.find (\<lambda>y. key y = key x) (sort_key key xs) = Some x"
  proof -
    have "List.find (\<lambda>y. key y = key x) (sort_key key xs) \<noteq> None"
      using assms(3) by (auto simp: find_None_iff)
    then obtain z where z: "List.find (\<lambda>y. key y = key x) (sort_key key xs) = Some z" by auto
    then obtain i where "i < length (sort_key key xs)" "key z = key x" "z = sort_key key xs ! i"
      by (auto simp: find_Some_iff)
    then have "key z = key x" "z \<in> set (sort_key key xs)" by (simp_all only: nth_mem)
    then have "key z = key x" "z \<in> set xs" by simp_all
    then show ?thesis using z assms(2,3) by (auto simp: distinct_map dest: inj_onD)
  qed
  then show ?thesis using find_finds [OF s'(2), of x] s'(1) by auto
qed

text \<open>An element that was removed is not found; inserting it again restores the set.\<close>

lemma removed_then_missing:
  assumes "repr s (as @ x # bs)"
  shows "\<exists>s' s''. remove x s = Some (Some x, s') \<and> find x s' = Some (None, s'') \<and> repr s'' (as @ bs)"
proof -
  obtain s' where s': "remove x s = Some (Some x, s')" "repr s' (as @ bs)" using remove_in [OF assms] by blast
  have "List.find (\<lambda>y. key y = key x) (as @ bs) = None"
    using repr_ascending [OF assms] by (intro find_None) auto
  then show ?thesis using find_finds [OF s'(2), of x] s' by auto
qed

lemma remove_insert:
  assumes "repr s (as @ x # bs)"
  shows "\<exists>s' s''. remove x s = Some (Some x, s') \<and> ins x s' = Some (None, s'') \<and> repr s'' (as @ x # bs)"
proof -
  have asc: "ascending key (as @ x # bs)" by (rule repr_ascending [OF assms])
  obtain s' where s': "remove x s = Some (Some x, s')" "repr s' (as @ bs)" using remove_in [OF assms] by blast
  have "key x \<notin> key ` set (as @ bs)" using asc by auto
  from ins_new [OF s'(2) this] obtain s'' ys where
    s'': "ins x s' = Some (None, s'')" "repr s'' ys" "set ys = insert x (set (as @ bs))" by blast
  have "set ys = set (as @ x # bs)" using s''(3) by auto
  then have "ys = as @ x # bs"
    using ascending_unique [OF repr_ascending [OF s''(2)] _ ascending_distinct [OF asc]]
      ascending_unique [OF asc refl ascending_distinct [OF asc]] by simp
  then show ?thesis using s' s'' by blast
qed

end

section \<open>The trees\<close>

definition rb_set :: "('e \<Rightarrow> 'k::linorder) \<Rightarrow> 'e rbheap \<Rightarrow> 'e list \<Rightarrow> bool" where
  "rb_set key s xs \<longleftrightarrow> (\<exists>t. rbtree s t \<and> rb_ok t \<and> inord t = xs) \<and> ascending key xs"

definition splay_set :: "('e \<Rightarrow> 'k::linorder) \<Rightarrow> 'e spheap \<Rightarrow> 'e list \<Rightarrow> bool" where
  "splay_set key s xs \<longleftrightarrow> (\<exists>t. splaytree s t \<and> inorder t = xs) \<and> ascending key xs"

lemma rb_set_empty: "rb_set key (RB_INIT s) []"
proof -
  have "rbtree (RB_INIT s) Lf" by (simp add: rbtree_def holds_def RB_INIT_def)
  moreover have "rb_ok (Lf :: 'e ctree)" by (auto simp: rb_ok_def)
  ultimately show ?thesis unfolding rb_set_def by force
qed

lemma splay_set_empty: "splay_set key (SPLAY_INIT s) []"
  by (auto simp: splay_set_def splaytree_def SPLAY_INIT_def intro!: exI [of _ "\<langle>\<rangle>"])

lemma rb_set_insert:
  assumes "compares cmp key" "rb_set key s xs" "x \<notin> set xs"
  shows "(\<exists>y \<in> set xs. key y = key x \<and> RB_INSERT cmp x s = Some (Some y, s)) \<or>
    (\<exists>s' ys. RB_INSERT cmp x s = Some (None, s') \<and> rb_set key s' ys \<and> set ys = insert x (set xs))"
proof -
  obtain t where t: "rbtree s t" "rb_ok t" "inord t = xs" "ascending key xs"
    using assms(2) by (auto simp: rb_set_def)
  have a: "ascending key (inord t)" "x \<notin> set (inord t)" using t(3,4) assms(3) by simp_all
  from rb_insert_ok [OF t(1,2) assms(1) a] show ?thesis
  proof
    assume "\<exists>s' t' as bs. RB_INSERT cmp x s = Some (None, s') \<and> rbtree s' t' \<and> rb_ok t' \<and>
      inord t = as @ bs \<and> inord t' = as @ x # bs \<and> ascending key (as @ x # bs)"
    then obtain s' t' as bs where i: "RB_INSERT cmp x s = Some (None, s')" "rbtree s' t'" "rb_ok t'"
      "inord t = as @ bs" "inord t' = as @ x # bs" "ascending key (as @ x # bs)" by blast
    then have "rb_set key s' (as @ x # bs)" unfolding rb_set_def by blast
    moreover have "set (as @ x # bs) = insert x (set xs)" using i(4) t(3) by auto
    ultimately show ?thesis using i(1) by blast
  qed (use t(3) in simp)
qed

lemma splay_set_insert:
  assumes "compares cmp key" "splay_set key s xs" "x \<notin> set xs"
  shows "(\<exists>y \<in> set xs. \<exists>s'. key y = key x \<and> SPLAY_INSERT cmp x s = Some (Some y, s') \<and> splay_set key s' xs) \<or>
    (\<exists>s' ys. SPLAY_INSERT cmp x s = Some (None, s') \<and> splay_set key s' ys \<and> set ys = insert x (set xs))"
proof -
  obtain t where t: "splaytree s t" "inorder t = xs" "ascending key xs"
    using assms(2) by (auto simp: splay_set_def)
  have a: "ascending key (inorder t)" "x \<notin> set (inorder t)" using t(2,3) assms(3) by simp_all
  from splay_insert_ok [OF t(1) assms(1) a] show ?thesis
  proof
    assume "\<exists>s' t' as bs. SPLAY_INSERT cmp x s = Some (None, s') \<and> splaytree s' t' \<and>
      inorder t = as @ bs \<and> inorder t' = as @ x # bs \<and> ascending key (as @ x # bs)"
    then obtain s' t' as bs where i: "SPLAY_INSERT cmp x s = Some (None, s')" "splaytree s' t'"
      "inorder t = as @ bs" "inorder t' = as @ x # bs" "ascending key (as @ x # bs)" by blast
    then have "splay_set key s' (as @ x # bs)" unfolding splay_set_def by blast
    moreover have "set (as @ x # bs) = insert x (set xs)" using i(3) t(2) by auto
    ultimately show ?thesis using i(1) by blast
  next
    assume "\<exists>y s' t'. y \<in> set (inorder t) \<and> key y = key x \<and> SPLAY_INSERT cmp x s = Some (Some y, s') \<and>
      splaytree s' t' \<and> inorder t' = inorder t"
    then show ?thesis using t unfolding splay_set_def by metis
  qed
qed

text \<open>An element of the same key as another one is that one.\<close>

lemma ascending_key_eq: "ascending key xs \<Longrightarrow> x \<in> set xs \<Longrightarrow> y \<in> set xs \<Longrightarrow> key x = key y \<Longrightarrow> x = y"
  using ascending_distinct [of key xs] by (auto simp: distinct_map dest: inj_onD)

lemma only_old: "ascending key ys \<Longrightarrow> set ys = insert x (set xs) \<Longrightarrow> x \<notin> set xs \<Longrightarrow> y \<in> set xs \<Longrightarrow> key y = key x \<Longrightarrow> False"
  using ascending_key_eq [of key ys x y] by auto

lemma rb_ordered_set:
  assumes cmp: "compares cmp key"
  shows "ordered_set (rb_set key) key (\<lambda>e s. map_option (\<lambda>r. (r, s)) (RB_FIND cmp e s)) (RB_INSERT cmp)
    (\<lambda>e s. map_option (apfst Some) (RB_REMOVE e s)) (\<lambda>s. map_option (\<lambda>es. (es, s)) (RB_FOREACH s))"
proof
  fix s xs assume r: "rb_set key s xs"
  then show asc: "ascending key xs" by (simp add: rb_set_def)
  obtain t where t: "rbtree s t" "rb_ok t" "inord t = xs" using r by (auto simp: rb_set_def)
  show "\<exists>s'. map_option (\<lambda>r. (r, s)) (RB_FIND cmp e s) = Some (List.find (\<lambda>y. key y = key e) xs, s') \<and> rb_set key s' xs" for e
    using rb_find_eq [OF t(1) cmp, of e] t(3) asc r by simp
  show "\<exists>s'. map_option (\<lambda>es. (es, s)) (RB_FOREACH s) = Some (xs, s') \<and> rb_set key s' xs"
    using rb_foreach_eq [OF t(1)] t(3) r by simp
  show "\<exists>s' ys. RB_INSERT cmp x s = Some (None, s') \<and> rb_set key s' ys \<and> set ys = insert x (set xs)"
    if "key x \<notin> key ` set xs" for x
    using rb_set_insert [OF cmp r, of x] that by (metis imageI)
  show "\<exists>s'. RB_INSERT cmp x s = Some (Some y, s') \<and> rb_set key s' xs"
    if "x \<notin> set xs" "y \<in> set xs" "key y = key x" for x y
    using rb_set_insert [OF cmp r that(1)] only_old [OF _ _ that] r ascending_key_eq [OF asc _ that(2)] that(3)
    unfolding rb_set_def by metis
next
  fix s as x bs assume r: "rb_set key s (as @ x # bs)"
  then obtain t where t: "rbtree s t" "rb_ok t" "inord t = as @ x # bs" by (auto simp: rb_set_def)
  then show "\<exists>s'. map_option (apfst Some) (RB_REMOVE x s) = Some (Some x, s') \<and> rb_set key s' (as @ bs)"
    using rb_remove_ok [OF t] r by (fastforce simp: rb_set_def)
qed

lemma splay_ordered_set:
  assumes cmp: "compares cmp key"
  shows "ordered_set (splay_set key) key (SPLAY_FIND cmp) (SPLAY_INSERT cmp) (SPLAY_REMOVE cmp) (SPLAY_FOREACH cmp)"
proof
  fix s xs assume r: "splay_set key s xs"
  then show asc: "ascending key xs" by (simp add: splay_set_def)
  obtain t where t: "splaytree s t" "inorder t = xs" using r by (auto simp: splay_set_def)
  show "\<exists>s'. SPLAY_FIND cmp e s = Some (List.find (\<lambda>y. key y = key e) xs, s') \<and> splay_set key s' xs" for e
    using splay_find_ok [OF t(1) cmp, of e] t(2) asc by (auto simp: splay_set_def)
  show "\<exists>s'. SPLAY_FOREACH cmp s = Some (xs, s') \<and> splay_set key s' xs"
    using splay_foreach_ok [OF t(1) cmp] t(2) asc by (auto simp: splay_set_def)
  show "\<exists>s' ys. SPLAY_INSERT cmp x s = Some (None, s') \<and> splay_set key s' ys \<and> set ys = insert x (set xs)"
    if "key x \<notin> key ` set xs" for x
    using splay_set_insert [OF cmp r, of x] that by (metis imageI)
  show "\<exists>s'. SPLAY_INSERT cmp x s = Some (Some y, s') \<and> splay_set key s' xs"
    if "x \<notin> set xs" "y \<in> set xs" "key y = key x" for x y
    using splay_set_insert [OF cmp r that(1)] only_old [OF _ _ that] ascending_key_eq [OF asc _ that(2)] that(3)
    unfolding splay_set_def by metis
next
  fix s as x bs assume r: "splay_set key s (as @ x # bs)"
  then obtain t where t: "splaytree s t" "inorder t = as @ x # bs" and asc: "ascending key (as @ x # bs)"
    by (auto simp: splay_set_def)
  have "filter (\<lambda>y. key y \<noteq> key x) as = as" "filter (\<lambda>y. key y \<noteq> key x) bs = bs"
    using asc by (auto simp: filter_id_conv)
  then have "filter (\<lambda>y. key y \<noteq> key x) (as @ x # bs) = as @ bs" by simp
  then show "\<exists>s'. SPLAY_REMOVE cmp x s = Some (Some x, s') \<and> splay_set key s' (as @ bs)"
    using splay_remove_ok [OF t(1) cmp, of x] t(2) asc by (fastforce simp: splay_set_def)
qed

section \<open>For any comparison\<close>

text \<open>What the client of the macros provides: a comparison whose sign orders keys.\<close>

locale comparison =
  fixes cmp :: "'e \<Rightarrow> 'e \<Rightarrow> int" and key :: "'e \<Rightarrow> 'k::linorder"
  assumes orders: "compares cmp key"

sublocale comparison \<subseteq> rb: ordered_set "rb_set key" key "\<lambda>e s. map_option (\<lambda>r. (r, s)) (RB_FIND cmp e s)"
    "RB_INSERT cmp" "\<lambda>e s. map_option (apfst Some) (RB_REMOVE e s)" "\<lambda>s. map_option (\<lambda>es. (es, s)) (RB_FOREACH s)"
  by (rule rb_ordered_set [OF orders])

sublocale comparison \<subseteq> sp: ordered_set "splay_set key" key "SPLAY_FIND cmp" "SPLAY_INSERT cmp" "SPLAY_REMOVE cmp"
    "SPLAY_FOREACH cmp"
  by (rule splay_ordered_set [OF orders])

text \<open>The comparison of numbers by their difference.\<close>

interpretation nat_order: comparison cmp_nat id
  by unfold_locales (rule rb_123_ok(4))

text \<open>
  Elements of different keys that are inserted one after the other into an empty red-black tree, or an
  empty splay tree, are visited by the loop in the order of their keys: both are equivalent to sorting.
\<close>

lemma trees_sort:
  assumes "compares cmp key" "distinct (map key xs)"
  shows "(\<exists>s'. insert_list (RB_INSERT cmp) xs (RB_INIT s) = Some s' \<and> RB_FOREACH s' = Some (sort_key key xs)) \<and>
    (\<exists>t' t''. insert_list (SPLAY_INSERT cmp) xs (SPLAY_INIT t) = Some t' \<and>
      SPLAY_FOREACH cmp t' = Some (sort_key key xs, t''))"
  using ordered_set.sorts [OF rb_ordered_set [OF assms(1)] rb_set_empty assms(2), of s]
    ordered_set.sorts [OF splay_ordered_set [OF assms(1)] splay_set_empty assms(2), of t] by auto

end
