(* ===== verification/Hexdump_Correct.thy ===== *)
theory Hexdump_Correct
  imports Tty_Correct
begin

text \<open>
  What \<open>hexdump\<close> prints, and with it a whole round of the loop of \<open>main\<close>. The local arrays and literals of
  \<open>hexdump\<close> lie where the record \<open>frame\<close> says; they and the memory dumped are required to be disjoint.
\<close>

section \<open>Regions of memory\<close>

definition region :: "u32 \<Rightarrow> nat \<Rightarrow> u32 set" where
  "region a n = {b. unat (b - a) < n}"

definition same_on :: "u32 set \<Rightarrow> memory \<Rightarrow> memory \<Rightarrow> bool" where
  "same_on K m m' \<longleftrightarrow> (\<forall>b \<in> K. m' b = m b)"

lemma in_region: "i < n \<Longrightarrow> n \<le> 2 ^ 32 \<Longrightarrow> a + of_nat i \<in> region a n"
  by (simp add: region_def unat_of_nat_small)

lemma in_region_start: "0 < n \<Longrightarrow> a \<in> region a n"
  by (simp add: region_def)

lemma same_on_refl [simp]: "same_on K m m"
  by (simp add: same_on_def)

lemma same_on_trans: "same_on K m m1 \<Longrightarrow> same_on K m1 m2 \<Longrightarrow> same_on K m m2"
  by (simp add: same_on_def)

lemma same_on_sub: "same_on K m m' \<Longrightarrow> L \<subseteq> K \<Longrightarrow> same_on L m m'"
  by (auto simp: same_on_def)

lemma outside_same: "outside a n m m' \<Longrightarrow> K \<inter> region a n = {} \<Longrightarrow> same_on K m m'"
  by (auto simp: outside_def same_on_def region_def)

lemma mem_bytes_same: "same_on (region a n) m m' \<Longrightarrow> n \<le> 2 ^ 32 \<Longrightarrow> mem_bytes m' a n = mem_bytes m a n"
  by (auto simp: mem_bytes_def same_on_def in_region)

lemma str_at_same:
  assumes "str_at m a cs" "same_on (region a (Suc (length cs))) m m'"
  shows "str_at m' a cs"
proof -
  have n: "Suc (length cs) \<le> 2 ^ 32" using str_at_length [OF assms(1)] by simp
  have "m' (a + of_nat i) = m (a + of_nat i)" if "i \<le> length cs" for i
    using in_region [of i "Suc (length cs)" a] n that assms(2) unfolding same_on_def by simp
  then show ?thesis using assms(1) by (simp add: str_at_def)
qed

lemma clear_of_region:
  assumes "region s (Suc l) \<inter> region a n = {}" "l < 2 ^ 32"
  shows "clear_of a n s l"
  unfolding clear_of_def
proof (intro allI impI)
  fix i assume "i \<le> l"
  then have "s + of_nat i \<in> region s (Suc l)" using assms(2) by (intro in_region) simp_all
  then have "s + of_nat i \<notin> region a n" using assms(1) by blast
  then show "\<not> unat (s + of_nat i - a) < n" by (simp add: region_def)
qed

lemma str_at_snoc:
  assumes "str_at m a cs" "c \<noteq> 0" "Suc (length cs) < 2 ^ 32"
  shows "str_at (m(a + of_nat (length cs) := c, a + of_nat (length cs) + 1 := 0)) a (cs @ [c])"
proof -
  have ne: "(of_nat i :: u32) \<noteq> of_nat j" if "i \<noteq> j" "i < 2 ^ 32" "j < 2 ^ 32" for i j
    using that unat_of_nat_small [where ?'a = 32, of i] unat_of_nat_small [where ?'a = 32, of j] by auto
  have "(m(a + of_nat (length cs) := c, a + of_nat (length cs) + 1 := 0)) (a + of_nat i) = (cs @ [c]) ! i"
    if "i < Suc (length cs)" for i
    using ne [of i "length cs"] ne [of i "Suc (length cs)"] that assms
    by (auto simp: str_at_def nth_append less_Suc_eq add.assoc)
  then show ?thesis using assms(1,2) by (simp add: str_at_def add.assoc)
qed

lemma mem_bytes_snoc: "mem_bytes m a (Suc n) = mem_bytes m a n @ [m (a + of_nat n)]"
  by (simp add: mem_bytes_def)

lemma store_bytes_ok:
  "length cs < 2 ^ 32 \<Longrightarrow> mem_bytes (store_bytes a cs m) a (length cs) = cs \<and> outside a (length cs) m (store_bytes a cs m)"
proof (induction cs arbitrary: a m)
  case Nil
  then show ?case by (simp add: outside_def)
next
  case (Cons c cs)
  let ?m = "store_bytes (a + 1) cs (m(a := c))"
  have ih: "mem_bytes ?m (a + 1) (length cs) = cs" "outside (a + 1) (length cs) (m(a := c)) ?m"
    using Cons.IH [of "a + 1" "m(a := c)"] Cons.prems by (simp_all del: fun_upd_apply)
  have n: "Suc (length cs) < 2 ^ 32" using Cons.prems by simp
  have a: "?m a = c" using outside_before [OF ih(2)] n by simp
  have "outside a (Suc (length cs)) m ?m"
    using outside_trans [OF outside_set [of a "length cs" m c] outside_shift [OF ih(2)]] n by simp
  then show ?case using ih(1) a by simp
qed


section \<open>Numbers in a field\<close>

text \<open>The \<open>d\<close> hexadecimal digits of \<open>n\<close>.\<close>

fun hex_fixed :: "nat \<Rightarrow> nat \<Rightarrow> u8 list" where
  "hex_fixed 0 n = []"
| "hex_fixed (Suc d) n = hex_fixed d (n div 16) @ [hex_byte (n mod 16)]"

lemma length_hex_fixed [simp]: "length (hex_fixed d n) = d"
  by (induction d arbitrary: n) simp_all

lemma hex_fixed_0: "hex_fixed d 0 = replicate d 48"
  by (induction d) (simp_all add: hex_byte_def replicate_append_same)

lemma mem_bytes_upd: "d < 2 ^ 32 \<Longrightarrow> mem_bytes (m(a + of_nat d := c)) a d = mem_bytes m a d"
  unfolding mem_bytes_def
proof (rule map_cong [OF refl])
  fix i assume "i \<in> set [0..<d]" "d < 2 ^ 32"
  then have "(of_nat i :: u32) \<noteq> of_nat d"
    using unat_of_nat_small [where ?'a = 32, of i] unat_of_nat_small [where ?'a = 32, of d] by auto
  then show "(m(a + of_nat d := c)) (a + of_nat i) = m (a + of_nat i)" by simp
qed

text \<open>Digits written down into a field that was filled with zeros.\<close>

lemma write_hex_field:
  "n < 16 ^ Suc d \<Longrightarrow> c + d < 4 \<Longrightarrow> mem_bytes m s (Suc d) = replicate (Suc d) 48 \<Longrightarrow>
    mem_bytes (write_down m (s + of_nat d) (pow_rev 4 n c)) s (Suc d) = hex_fixed (Suc d) n \<and>
    outside s (Suc d) m (write_down m (s + of_nat d) (pow_rev 4 n c))"
proof (induction d arbitrary: n c m)
  case 0
  then have "pow_rev 4 n c = [hex_byte n]" by (subst pow_rev_step) simp_all
  then show ?case using 0 outside_set [of s 0 m] by (simp del: fun_upd_apply) simp
next
  case (Suc d)
  let ?m = "m(s + of_nat (Suc d) := hex_byte (n mod 16))"
  have bnd: "d < 4" "Suc d < 2 ^ 32" using Suc.prems(2) by simp_all
  have z: "mem_bytes m s (Suc d) = replicate (Suc d) 48" "m (s + of_nat (Suc d)) = 48"
  proof -
    have "replicate (Suc (Suc d)) (48 :: u8) = replicate (Suc d) 48 @ [48]" by (simp add: replicate_append_same)
    then show "mem_bytes m s (Suc d) = replicate (Suc d) 48" "m (s + of_nat (Suc d)) = 48"
      using Suc.prems(3) unfolding mem_bytes_snoc [of m s "Suc d"] by (simp_all del: mem_bytes_simps(2) replicate_Suc)
  qed
  have keep: "mem_bytes ?m s (Suc d) = replicate (Suc d) 48"
    using mem_bytes_upd [OF bnd(2), of m s] z(1) by simp
  have o1: "outside s (Suc (Suc d)) m ?m"
    using in_region [of "Suc d" "Suc (Suc d)" s] bnd by (auto simp: outside_def region_def)
  show ?case
  proof (cases "n div 16 = 0")
    case True
    then have "pow_rev 4 n c = [hex_byte (n mod 16)]" using Suc.prems(2) by (subst pow_rev_step) simp_all
    then show ?thesis using keep o1 True
      by (simp add: mem_bytes_snoc [of _ s "Suc d"] hex_fixed_0 replicate_append_same fun_upd_same
          del: mem_bytes_simps(2) fun_upd_apply)
  next
    case False
    then have p: "pow_rev 4 n c = hex_byte (n mod 16) # pow_rev 4 (n div 16) (Suc c)"
      using Suc.prems(2) by (subst pow_rev_step) simp_all
    let ?w = "write_down ?m (s + of_nat d) (pow_rev 4 (n div 16) (Suc c))"
    have lt: "n div 16 < 16 ^ Suc d" using Suc.prems(1) by (simp add: div_less_iff_less_mult)
    have cd: "Suc c + d < 4" using Suc.prems(2) by simp
    define v where "v = ?w"
    have ih: "mem_bytes v s (Suc d) = hex_fixed (Suc d) (n div 16)" "outside s (Suc d) ?m v"
      unfolding v_def by (rule conjunct1 [OF Suc.IH [OF lt cd keep]], rule conjunct2 [OF Suc.IH [OF lt cd keep]])
    have w: "write_down m (s + of_nat (Suc d)) (pow_rev 4 n c) = v" unfolding p v_def by simp
    have "\<not> unat (s + of_nat (Suc d) - s) < Suc d" using bnd unat_of_nat_small [where ?'a = 32, of "Suc d"] by simp
    then have "v (s + of_nat (Suc d)) = hex_byte (n mod 16)" using ih(2) unfolding outside_def by simp
    moreover have "outside s (Suc (Suc d)) ?m v" using ih(2) by (simp add: outside_def)
    ultimately show ?thesis
      unfolding w mem_bytes_snoc [of _ s "Suc d"] using ih(1) outside_trans [OF o1] by simp
  qed
qed

text \<open>\<open>itopow2\<close> with base 16 into a zeroed field with room for the NUL.\<close>

lemma itopow2_field:
  assumes n: "unat num < 16 ^ Suc d" "d < 4" and z: "mem_bytes m s (Suc d) = replicate (Suc d) 48"
    and sz: "sz = of_nat (Suc (Suc d))"
  shows "\<exists>m' p. itopow2 num 4 s sz m = Some (Inr (m', p)) \<and>
    mem_bytes m' s (Suc (Suc d)) = hex_fixed (Suc d) (unat num) @ [0] \<and> outside s (Suc (Suc d)) m m'"
proof -
  let ?w = "write_down m (s + of_nat d) (pow_rev 4 (unat num) 0)"
  note w = write_hex_field [OF n(1) _ z, of 0]
  have a: "s + (sz - 1) - 1 = s + of_nat d" "s + (sz - 1) = s + of_nat (Suc d)" using sz by simp_all
  have "itopow2 num (int 4) s sz m = Some (Inr (?w(s + of_nat (Suc d) := 0), s + (sz - 1 - of_nat (length (pow_rev 4 (unat num) 0)))))"
    using itopow2_loop_ok [of 4 num s "sz - 1" 0 m] a by (simp add: itopow2_def)
  moreover have "mem_bytes (?w(s + of_nat (Suc d) := 0)) s (Suc (Suc d)) = hex_fixed (Suc d) (unat num) @ [0]"
    unfolding mem_bytes_snoc [of _ s "Suc d"] using mem_bytes_upd [of "Suc d" ?w s 0] w n(2) by simp
  moreover have "outside s (Suc (Suc d)) m (?w(s + of_nat (Suc d) := 0))"
    using w n(2) in_region [of "Suc d" "Suc (Suc d)" s] by (auto simp: outside_def region_def)
  ultimately show ?thesis by simp
qed


section \<open>The text of a dump\<close>

definition shown :: "u8 \<Rightarrow> u8" where
  "shown c = (if c < 0x20 \<or> 0x7E < c then of_nat (of_char CHR ''.'') else c)"

text \<open>What the buffer for the text column holds before byte \<open>i\<close> of \<open>D\<close>.\<close>

fun asc :: "u8 list \<Rightarrow> nat \<Rightarrow> u8 list" where
  "asc D 0 = []"
| "asc D (Suc i) = (if i mod 16 = 0 then [] else asc D i) @ [shown (D ! i)]"

definition text_column :: "u8 list \<Rightarrow> u8 list" where
  "text_column cs = bytes ''  '' @ cs @ [10]"

definition offset_text :: "u8 list \<Rightarrow> nat \<Rightarrow> u8 list" where
  "offset_text D i = (if i \<noteq> 0 then text_column (asc D i) else []) @ bytes ''  '' @ (hex_fixed 4 i @ [0]) @ bytes '' ''"

definition byte_text :: "u8 \<Rightarrow> u8 list" where
  "byte_text v = [32] @ hex_fixed 2 (unat v) @ [0]"

definition step_text :: "u8 list \<Rightarrow> nat \<Rightarrow> u8 list" where
  "step_text D i = (if i mod 16 = 0 then offset_text D i else []) @ byte_text (D ! i)"

definition dump_text :: "u8 list \<Rightarrow> u8 list" where
  "dump_text D = concat (map (step_text D) [0..<length D]) @
     concat (replicate ((16 - length D mod 16) mod 16) (bytes ''   '')) @ text_column (asc D (length D))"

lemma shown_nz: "shown c \<noteq> 0"
  by (auto simp: shown_def)

lemma length_asc: "length (asc D i) \<le> 16 \<and> (i mod 16 \<noteq> 0 \<longrightarrow> length (asc D i) = i mod 16)"
proof (induction i)
  case (Suc i)
  then show ?case by (auto simp: mod_Suc)
qed simp

section \<open>The frame\<close>

definition fixed_part :: "frame \<Rightarrow> u32 \<Rightarrow> nat \<Rightarrow> u32 set" where
  "fixed_part fr pc n = region (f_line fr) 6 \<union> region (f_pad fr) 4 \<union> region pc n"

definition frame_ok :: "frame \<Rightarrow> u32 \<Rightarrow> nat \<Rightarrow> bool" where
  "frame_ok fr pc n \<longleftrightarrow> fixed_part fr pc n \<inter> region (f_ascii fr) 17 = {} \<and> fixed_part fr pc n \<inter> region (f_off fr) 5 = {} \<and>
     fixed_part fr pc n \<inter> region (f_hex fr) 3 = {} \<and> fixed_part fr pc n \<inter> region (f_vbuf fr) 64 = {} \<and>
     region (f_ascii fr) 17 \<inter> region (f_off fr) 5 = {} \<and> region (f_ascii fr) 17 \<inter> region (f_hex fr) 3 = {} \<and>
     region (f_ascii fr) 17 \<inter> region (f_vbuf fr) 64 = {} \<and> region (f_off fr) 5 \<inter> region (f_vbuf fr) 64 = {}"

definition literals :: "frame \<Rightarrow> memory \<Rightarrow> bool" where
  "literals fr m \<longleftrightarrow> str_at m (f_line fr) (bytes (''  %s'' @ [CHR 0x0A])) \<and> str_at m (f_pad fr) (bytes ''   '')"

lemma literal_sizes:
  "Suc (length (bytes (''  %s'' @ [CHR 0x0A]))) = 6" "Suc (length (bytes ''   '')) = 4"
  by (simp_all add: bytes_def)

lemma literals_same:
  assumes "literals fr m" "same_on (fixed_part fr pc n) m m'"
  shows "literals fr m'"
proof -
  have "same_on (region (f_line fr) 6) m m'" "same_on (region (f_pad fr) 4) m m'"
    by (rule same_on_sub [OF assms(2)], auto simp: fixed_part_def)+
  then show ?thesis
    using assms(1) str_at_same [of m "f_line fr" _ m'] str_at_same [of m "f_pad fr" _ m']
    unfolding literals_def by (metis literal_sizes)
qed

lemma region_mono: "i \<le> n \<Longrightarrow> region a i \<subseteq> region a n"
  by (auto simp: region_def)

lemma print_line:
  assumes fr: "frame_ok fr pc n" and l: "literals fr m" and cs: "str_at m (f_ascii fr) cs" "length cs \<le> 16"
    and w: "responsive w"
  shows "prints_to (f_vbuf fr) m w (printf (f_vbuf fr) (f_line fr) [f_ascii fr] m w) (text_column cs)"
  unfolding printf_def
proof (rule vprintf_ok)
  let ?f = "bytes (''  %s'' @ [CHR 0x0A])"
  show "str_at m (f_line fr) ?f" using l by (simp add: literals_def)
  show "clear_of (f_vbuf fr) 64 (f_line fr) (length ?f)"
    using fr unfolding frame_ok_def fixed_part_def by (intro clear_of_region, unfold literal_sizes) (auto simp: bytes_def)
  have "clear_of (f_vbuf fr) 64 (f_ascii fr) (length cs)"
    using fr cs(2) region_mono [of "Suc (length cs)" 17 "f_ascii fr"]
    by (intro clear_of_region) (auto simp: frame_ok_def)
  then show "strings_at m (f_vbuf fr) (\<lambda>_. cs) (used_strings ?f [f_ascii fr])"
    using cs(1) by (simp add: strings_at_def bytes_def)
  show "format (\<lambda>_. cs) ?f [f_ascii fr] = Some (text_column cs)"
    by (simp add: bytes_def conv_text_def text_column_def)
qed (rule w)

lemma print_pad:
  assumes fr: "frame_ok fr pc n" and l: "literals fr m" and w: "responsive w"
  shows "prints_to (f_vbuf fr) m w (printf (f_vbuf fr) (f_pad fr) [] m w) (bytes ''   '')"
  unfolding printf_def
proof (rule vprintf_ok)
  show "str_at m (f_pad fr) (bytes ''   '')" using l by (simp add: literals_def)
  show "clear_of (f_vbuf fr) 64 (f_pad fr) (length (bytes ''   ''))"
    using fr unfolding frame_ok_def fixed_part_def by (intro clear_of_region, unfold literal_sizes) (auto simp: bytes_def)
  show "strings_at m (f_vbuf fr) (\<lambda>_. []) (used_strings (bytes ''   '') [])" by (simp add: strings_at_def bytes_def)
  show "format (\<lambda>_. []) (bytes ''   '') [] = Some (bytes ''   '')" by (simp add: bytes_def)
qed (rule w)


section \<open>One byte\<close>

lemma putmem_ok: "responsive w \<Longrightarrow> \<exists>w'. putmem m s len w = Some w' \<and> serial.prints w w' (mem_bytes m s (unat len))"
  unfolding putmem_def by (rule putmem_loop_ok)

lemma init_array_ok:
  assumes "length lit = d" "d < 2 ^ 32 - 1"
  shows "mem_bytes (init_array a lit m) a d = bytes lit \<and> outside a (Suc d) m (init_array a lit m)"
proof -
  have "mem_bytes (init_array a lit m) a (Suc d) = bytes lit @ [0]" "outside a (Suc d) m (init_array a lit m)"
    using store_bytes_ok [of "bytes lit @ [0]" a m] assms by (simp_all add: init_array_def bytes_def)
  then show ?thesis by (simp add: mem_bytes_snoc del: mem_bytes_simps(2))
qed

lemma num45: "Suc 3 = 4" "Suc 4 = 5"
  by simp_all

lemma hexdump_offset_ok:
  assumes fr: "frame_ok fr pc n" and l: "literals fr m" and i: "i < 16 ^ 4" "i \<noteq> 0 \<Longrightarrow> str_at m (f_ascii fr) (asc D i)"
    and w: "responsive w"
  shows "\<exists>m' w'. hexdump_offset fr (of_nat i) m w = Some (Inr (m', w')) \<and>
    same_on (fixed_part fr pc n) m m' \<and> serial.prints w w' (offset_text D i)"
proof -
  let ?K = "fixed_part fr pc n" and ?o = "f_off fr" and ?z = "init_array (f_off fr) ''0000'' m"
  have z: "mem_bytes ?z ?o 4 = bytes ''0000''" "outside ?o 5 m ?z"
    using init_array_ok [of "''0000''" 4 ?o m] by simp_all
  have s0: "same_on ?K m ?z" "same_on (region (f_ascii fr) 17) m ?z"
    using fr by (auto intro!: outside_same [OF z(2)] simp: frame_ok_def)
  have un: "unat (of_nat i :: u32) = i" using i(1) by (intro unat_of_nat_small) simp
  note i0 = unat_eq_0 [of "of_nat i :: u32", unfolded un]
  obtain m1 w1 where 1: "(if (of_nat i :: u32) \<noteq> 0 then printf (f_vbuf fr) (f_line fr) [f_ascii fr] ?z w
      else Some (Inr (?z, w))) = Some (Inr (m1, w1))" "outside (f_vbuf fr) 64 ?z m1"
    "serial.prints w w1 (if i \<noteq> 0 then text_column (asc D i) else [])"
  proof (cases "i = 0")
    case False
    have "str_at ?z (f_ascii fr) (asc D i)"
      by (rule str_at_same [OF i(2) [OF False] same_on_sub [OF s0(2) region_mono]])
        (use length_asc [of D i] in simp)
    from print_line [OF fr literals_same [OF l s0(1)] this _ w] length_asc [of D i] False i0 that show thesis
      by (auto simp: prints_to_def)
  next
    case True
    then show thesis using that [of ?z w] w by (simp add: outside_refl serial.prints_nil)
  qed
  have k1: "same_on ?K m m1" "same_on (region ?o 5) ?z m1"
    using fr by (auto intro!: same_on_trans [OF s0(1)] outside_same [OF 1(2)] simp: frame_ok_def)
  obtain w2 where 2: "puts_lit ''  '' w1 = Some w2" "serial.prints w1 w2 (bytes ''  '')"
    using puts_lit_ok [OF serial.prints_up [OF 1(3)]] by blast
  have "mem_bytes m1 ?o 4 = mem_bytes ?z ?o 4"
    by (rule mem_bytes_same [OF same_on_sub [OF k1(2) region_mono]]) simp_all
  also have "\<dots> = replicate 4 48" unfolding z(1) by (simp add: bytes_def numeral_eq_Suc)
  finally have f: "mem_bytes m1 ?o (Suc 3) = replicate (Suc 3) 48" by (simp only: num45)
  have "unat (of_nat i :: u32) < 16 ^ Suc 3" "(5 :: u32) = of_nat (Suc (Suc 3))" using i(1) un by (simp_all only: num45) simp
  from itopow2_field [OF this(1) _ f this(2)] obtain m2 p where
    3: "itopow2 (of_nat i) 4 ?o 5 m1 = Some (Inr (m2, p))" "mem_bytes m2 ?o 5 = hex_fixed 4 i @ [0]"
    "outside ?o 5 m1 m2"
    unfolding num45 un by auto
  obtain w3 where 4: "putmem m2 ?o 5 w2 = Some w3" "serial.prints w2 w3 (hex_fixed 4 i @ [0])"
    using putmem_ok [OF serial.prints_up [OF 2(2)], of m2 ?o 5] 3(2) by auto
  obtain w4 where 5: "puts_lit '' '' w3 = Some w4" "serial.prints w3 w4 (bytes '' '')"
    using puts_lit_ok [OF serial.prints_up [OF 4(2)]] by blast
  have "same_on ?K m m2"
    using fr by (auto intro!: same_on_trans [OF k1(1)] outside_same [OF 3(3)] simp: frame_ok_def)
  moreover have "serial.prints w w4 (offset_text D i)"
    unfolding offset_text_def
    by (intro serial.prints_append [OF 1(3)] serial.prints_append [OF 2(2)] serial.prints_append [OF 4(2)] 5(2))
  ultimately show ?thesis
    using 1(1) 2(1) 3(1) 4(1) 5(1) by (simp add: hexdump_offset_def Let_def lift_io_def)
qed


lemma nth_mem_bytes: "mem_bytes m a n = D \<Longrightarrow> i < n \<Longrightarrow> m (a + of_nat i) = D ! i"
  by (auto simp: mem_bytes_def)

lemma byte_in_fixed: "i < n \<Longrightarrow> n \<le> 2 ^ 32 \<Longrightarrow> pc + of_nat i \<in> fixed_part fr pc n"
  by (simp add: fixed_part_def in_region)

text \<open>Adding a character to the text column.\<close>

lemma asc_step:
  assumes "i mod 16 \<noteq> 0 \<Longrightarrow> str_at m a (asc D i)"
  shows "str_at (m(a + of_nat (i mod 16) := shown (D ! i), a + of_nat (i mod 16) + 1 := 0)) a (asc D (Suc i))"
proof (cases "i mod 16 = 0")
  case True
  then show ?thesis using str_at_snoc [of "m(a := 0)" a "[]" "shown (D ! i)"] by (simp add: shown_nz str_at_Cons str_at_Nil)
next
  case False
  then have "length (asc D i) = i mod 16" using length_asc by blast
  then show ?thesis
    using str_at_snoc [OF assms [OF False] shown_nz, of "D ! i"] False by simp
qed

lemma num23: "Suc 1 = 2" "Suc 2 = 3"
  by simp_all

lemma hexdump_byte_ok:
  assumes fr: "frame_ok fr pc n" and D: "mem_bytes m pc n = D" and i: "i < n" "n \<le> 16 ^ 4"
    and col: "i mod 16 \<noteq> 0 \<Longrightarrow> str_at m (f_ascii fr) (asc D i)" and w: "responsive w"
  shows "\<exists>m' w'. hexdump_byte fr pc (of_nat i) m w = Some (Inr (m', w')) \<and> same_on (fixed_part fr pc n) m m' \<and>
    str_at m' (f_ascii fr) (asc D (Suc i)) \<and> serial.prints w w' (byte_text (D ! i))"
proof -
  let ?K = "fixed_part fr pc n" and ?h = "f_hex fr" and ?z = "init_array (f_hex fr) ''00'' m" and ?a = "f_ascii fr"
  have z: "mem_bytes ?z ?h 2 = bytes ''00''" "outside ?h 3 m ?z"
    using init_array_ok [of "''00''" 2 ?h m] by simp_all
  have s0: "same_on (?K \<union> region ?a 17) m ?z"
    using fr by (intro outside_same [OF z(2)]) (auto simp: frame_ok_def)
  have b: "pc + of_nat i \<in> ?K" using i by (intro byte_in_fixed) simp_all
  have v: "?z (pc + of_nat i) = D ! i" using s0 b nth_mem_bytes [OF D i(1)] unfolding same_on_def by simp
  obtain w1 where 1: "uart16550_putc 32 w = Some w1" "serial.prints w w1 [32]" using serial.put_prints [OF w] by blast
  have f: "mem_bytes ?z ?h (Suc 1) = replicate (Suc 1) 48" unfolding num23 z(1) by (simp add: bytes_def numeral_eq_Suc)
  have lt: "unat (D ! i) < 256" using unsigned_less [of "D ! i", where ?'a = nat] by simp
  then have un: "unat (ucast (D ! i) :: u32) = unat (D ! i)"
    by (simp add: unsigned_ucast_eq take_bit_nat_eq_self)
  from lt have "unat (ucast (D ! i) :: u32) < 16 ^ Suc 1" "(3 :: u32) = of_nat (Suc (Suc 1))" by (simp_all add: un)
  from itopow2_field [OF this(1) _ f this(2)] obtain m1 p where
    3: "itopow2 (ucast (D ! i)) 4 ?h 3 ?z = Some (Inr (m1, p))" "mem_bytes m1 ?h 3 = hex_fixed 2 (unat (D ! i)) @ [0]"
    "outside ?h 3 ?z m1"
    unfolding num23 un by auto
  have s1: "same_on (?K \<union> region ?a 17) m m1"
    using fr by (intro same_on_trans [OF s0] outside_same [OF 3(3)]) (auto simp: frame_ok_def)
  obtain w2 where 4: "putmem m1 ?h 3 w1 = Some w2" "serial.prints w1 w2 (hex_fixed 2 (unat (D ! i)) @ [0])"
    using putmem_ok [OF serial.prints_up [OF 1(2)], of m1 ?h 3] 3(2) by auto
  have c: "m1 (pc + of_nat i) = D ! i" using s1 b nth_mem_bytes [OF D i(1)] unfolding same_on_def by simp
  have "unat (of_nat i mod 16 :: u32) = i mod 16"
    using i unat_of_nat_small [where ?'a = 32, of i] by (simp add: unat_mod)
  then have md: "(of_nat i mod 16 :: u32) = of_nat (i mod 16)"
    using unat_of_nat_small [where ?'a = 32, of "i mod 16"] by (simp add: word_eq_iff_unat)
  let ?m2 = "m1(?a + of_nat (i mod 16) := shown (D ! i), ?a + of_nat (i mod 16) + 1 := 0)"
  have "str_at m1 ?a (asc D i)" if "i mod 16 \<noteq> 0"
    by (rule str_at_same [OF col [OF that]], rule same_on_sub [OF s1])
      (use length_asc [of D i] in \<open>auto intro: subsetD [OF region_mono, rotated]\<close>)
  then have "str_at ?m2 ?a (asc D (Suc i))" by (rule asc_step)
  moreover have "same_on ?K m ?m2"
  proof -
    have a: "?a + of_nat (i mod 16) \<in> region ?a 17" by (rule in_region) simp_all
    have "?a + of_nat (Suc (i mod 16)) \<in> region ?a 17" by (rule in_region) simp_all
    then have a1: "?a + of_nat (i mod 16) + 1 \<in> region ?a 17" by (simp add: ac_simps)
    have d: "?K \<inter> region ?a 17 = {}" using fr by (simp add: frame_ok_def)
    have "?m2 b = m b" if "b \<in> ?K" for b
    proof -
      have "b \<noteq> ?a + of_nat (i mod 16)" "b \<noteq> ?a + of_nat (i mod 16) + 1" using that a a1 d by blast+
      then show ?thesis using s1 that by (simp add: same_on_def)
    qed
    then show ?thesis by (simp add: same_on_def)
  qed
  moreover have "serial.prints w w2 (byte_text (D ! i))"
    unfolding byte_text_def by (intro serial.prints_append [OF 1(2)] 4(2))
  moreover have "hexdump_byte fr pc (of_nat i) m w = Some (Inr (?m2, w2))"
    using 1(1) 3(1) 4(1) by (simp add: hexdump_byte_def Let_def lift_io_def v c md shown_def)
  ultimately show ?thesis by blast
qed


section \<open>The whole dump\<close>

lemma mem_bytes_fixed: "same_on (fixed_part fr pc n) m m' \<Longrightarrow> n \<le> 2 ^ 32 \<Longrightarrow> mem_bytes m' pc n = mem_bytes m pc n"
  by (rule mem_bytes_same) (auto elim: same_on_sub simp: fixed_part_def)

lemma hexdump_step_ok:
  assumes fr: "frame_ok fr pc n" and l: "literals fr m" and D: "mem_bytes m pc n = D" and i: "i < n" "n \<le> 16 ^ 4"
    and col: "i \<noteq> 0 \<Longrightarrow> str_at m (f_ascii fr) (asc D i)" and w: "responsive w"
  shows "\<exists>m' w'. obind (if i mod 16 = 0 then hexdump_offset fr (of_nat i) m w else Some (Inr (m, w))) (\<lambda>(m1, w1).
        hexdump_byte fr pc (of_nat i) m1 w1) = Some (Inr (m', w')) \<and>
    same_on (fixed_part fr pc n) m m' \<and> str_at m' (f_ascii fr) (asc D (Suc i)) \<and> serial.prints w w' (step_text D i)"
proof (cases "i mod 16 = 0")
  case True
  have "i < 16 ^ 4" using i by simp
  from hexdump_offset_ok [OF fr l this col w] obtain m1 w1 where
    1: "hexdump_offset fr (of_nat i) m w = Some (Inr (m1, w1))" "same_on (fixed_part fr pc n) m m1"
    "serial.prints w w1 (offset_text D i)" by blast
  have "mem_bytes m1 pc n = D" using mem_bytes_fixed [OF 1(2)] D i(2) by simp
  from hexdump_byte_ok [OF fr this i _ serial.prints_up [OF 1(3)]] True obtain m2 w2 where
    2: "hexdump_byte fr pc (of_nat i) m1 w1 = Some (Inr (m2, w2))" "same_on (fixed_part fr pc n) m1 m2"
    "str_at m2 (f_ascii fr) (asc D (Suc i))" "serial.prints w1 w2 (byte_text (D ! i))" by auto
  have "serial.prints w w2 (step_text D i)"
    using serial.prints_append [OF 1(3) 2(4)] True by (simp add: step_text_def)
  then show ?thesis using 1(1) 2 same_on_trans [OF 1(2) 2(2)] True by auto
next
  case False
  then have "i \<noteq> 0" by (intro notI) simp
  then show ?thesis using hexdump_byte_ok [OF fr D i _ w] col False by (auto simp: step_text_def)
qed

lemma of_nat_mod_16: "n < 2 ^ 32 \<Longrightarrow> (of_nat n mod 16 :: u32) = 0 \<longleftrightarrow> n mod 16 = 0"
  using unat_of_nat_small [where ?'a = 32, of n] by (simp add: word_eq_iff_unat unat_mod)

lemma hexdump_loop_ok:
  assumes fr: "frame_ok fr pc n" and n: "n \<le> 16 ^ 4"
  shows "i \<le> n \<Longrightarrow> literals fr m \<Longrightarrow> mem_bytes m pc n = D \<Longrightarrow> (i \<noteq> 0 \<Longrightarrow> str_at m (f_ascii fr) (asc D i)) \<Longrightarrow>
    responsive w \<Longrightarrow>
    \<exists>m' w'. hexdump_loop fr pc (of_nat n) (of_nat i) m w = Some (Inr (m', w', of_nat n)) \<and>
      same_on (fixed_part fr pc n) m m' \<and> (n \<noteq> 0 \<longrightarrow> str_at m' (f_ascii fr) (asc D n)) \<and>
      serial.prints w w' (concat (map (step_text D) [i..<n]))"
proof (induction "n - i" arbitrary: i m w)
  case 0
  then have "i = n" by simp
  then show ?case using 0 by (subst hexdump_loop.simps) (auto simp: serial.prints_nil)
next
  case (Suc d)
  then have i: "i < n" by simp
  from hexdump_step_ok [OF fr Suc.prems(2,3) i n Suc.prems(4,5)] obtain m1 w1 where
    1: "obind (if i mod 16 = 0 then hexdump_offset fr (of_nat i) m w else Some (Inr (m, w))) (\<lambda>(m1, w1).
        hexdump_byte fr pc (of_nat i) m1 w1) = Some (Inr (m1, w1))"
    "same_on (fixed_part fr pc n) m m1" "str_at m1 (f_ascii fr) (asc D (Suc i))" "serial.prints w w1 (step_text D i)"
    by blast
  have h: "d = n - Suc i" "Suc i \<le> n" "literals fr m1" "mem_bytes m1 pc n = D"
    using Suc.hyps(2) i literals_same [OF Suc.prems(2) 1(2)] mem_bytes_fixed [OF 1(2)] Suc.prems(3) n by auto
  obtain m2 w2 where 2: "hexdump_loop fr pc (of_nat n) (of_nat (Suc i)) m1 w1 = Some (Inr (m2, w2, of_nat n))"
    "same_on (fixed_part fr pc n) m1 m2" "n \<noteq> 0 \<longrightarrow> str_at m2 (f_ascii fr) (asc D n)"
    "serial.prints w1 w2 (concat (map (step_text D) [Suc i..<n]))"
    using Suc.hyps(1) [OF h(1,2,3,4) 1(3) serial.prints_up [OF 1(4)]] by blast
  have lt: "(of_nat i :: u32) < of_nat n"
    using i n unat_of_nat_small [where ?'a = 32, of i] unat_of_nat_small [where ?'a = 32, of n]
    by (simp add: word_less_nat_alt)
  have m16: "(of_nat i mod 16 :: u32) = 0 \<longleftrightarrow> i mod 16 = 0" using i n by (intro of_nat_mod_16) simp
  have s: "(of_nat i + 1 :: u32) = of_nat (Suc i)" by simp
  have "hexdump_loop fr pc (of_nat n) (of_nat i) m w =
      obind (obind (if i mod 16 = 0 then hexdump_offset fr (of_nat i) m w else Some (Inr (m, w))) (\<lambda>(m1, w1).
        hexdump_byte fr pc (of_nat i) m1 w1)) (\<lambda>(m2, w2). hexdump_loop fr pc (of_nat n) (of_nat (Suc i)) m2 w2)"
    using lt m16 unfolding s [symmetric]
    by (subst hexdump_loop.simps) (auto simp: obind_def split: sum.splits Option.bind_splits)
  moreover have "serial.prints w w2 (concat (map (step_text D) [i..<n]))"
    using serial.prints_append [OF 1(4) 2(4)] i by (simp add: upt_conv_Cons)
  ultimately show ?case using 1(1) 2 same_on_trans [OF 1(2) 2(2)] by simp
qed

lemma hexdump_fill_ok:
  assumes fr: "frame_ok fr pc n"
  shows "(k + d) mod 16 = 0 \<Longrightarrow> d < 16 \<Longrightarrow> k + d < 2 ^ 32 \<Longrightarrow> literals fr m \<Longrightarrow> responsive w \<Longrightarrow>
    \<exists>m' w'. hexdump_fill fr (of_nat k) m w = Some (Inr (m', w')) \<and> outside (f_vbuf fr) 64 m m' \<and>
      serial.prints w w' (concat (replicate d (bytes ''   '')))"
proof (induction d arbitrary: k m w)
  case 0
  then show ?case using of_nat_mod_16 [of k] by (subst hexdump_fill.simps) (simp add: outside_refl serial.prints_nil)
next
  case (Suc d)
  have "k mod 16 \<noteq> 0"
  proof
    assume "k mod 16 = 0"
    then have "(k + Suc d) mod 16 = Suc d mod 16" by (metis add_0 mod_add_left_eq)
    then show False using Suc.prems(1,2) by simp
  qed
  then have ne: "(of_nat k mod 16 :: u32) \<noteq> 0" using of_nat_mod_16 [of k] Suc.prems(3) by simp
  obtain m1 w1 where 1: "printf (f_vbuf fr) (f_pad fr) [] m w = Some (Inr (m1, w1))" "outside (f_vbuf fr) 64 m m1"
    "serial.prints w w1 (bytes ''   '')"
    using print_pad [OF fr Suc.prems(4,5)] by (auto simp: prints_to_def)
  have "same_on (fixed_part fr pc n) m m1" using fr by (intro outside_same [OF 1(2)]) (simp add: frame_ok_def)
  then have l: "literals fr m1" by (rule literals_same [OF Suc.prems(4)])
  obtain m2 w2 where 2: "hexdump_fill fr (of_nat (Suc k)) m1 w1 = Some (Inr (m2, w2))" "outside (f_vbuf fr) 64 m1 m2"
    "serial.prints w1 w2 (concat (replicate d (bytes ''   '')))"
    using Suc.IH [of "Suc k" m1 w1] Suc.prems(1,2,3) l serial.prints_up [OF 1(3)] by auto
  have "(of_nat k + 1 :: u32) = of_nat (Suc k)" by simp
  then have "hexdump_fill fr (of_nat k) m w = Some (Inr (m2, w2))"
    using ne 1(1) 2(1) by (subst hexdump_fill.simps) (simp add: add.commute)
  then show ?case using outside_trans [OF 1(2) 2(2)] serial.prints_append [OF 1(3) 2(3)] by simp
qed


lemma pad_16: "(n + (16 - n mod 16) mod 16) mod 16 = (0 :: nat)"
proof -
  have "(16 * k + r + (16 - r) mod 16) mod 16 = 0" if "r < 16" for k r :: nat
  proof -
    have "16 * k + r + (16 - r) = 16 * (k + 1)" using that by simp
    then have "(16 * k + r + (16 - r)) mod 16 = 0" by simp
    then show ?thesis by (simp only: mod_add_right_eq)
  qed
  from this [of "n mod 16" "n div 16"] show ?thesis by simp
qed

text \<open>
  Dumping \<open>n\<close> bytes, at most 2^16, so that an offset has four digits: the text is printed and only the
  local arrays change.
\<close>

lemma hexdump_ok:
  assumes fr: "frame_ok fr pc n" and l: "literals fr m" and n: "0 < n" "n \<le> 16 ^ 4" and pc: "pc \<noteq> 0" and w: "responsive w"
  shows "\<exists>m' w'. hexdump fr pc (of_nat n) m w = Some (Inr (m', w')) \<and> same_on (fixed_part fr pc n) m m' \<and>
    serial.prints w w' (dump_text (mem_bytes m pc n))"
proof -
  let ?K = "fixed_part fr pc n" and ?D = "mem_bytes m pc n"
  from hexdump_loop_ok [OF fr n(2) _ l refl _ w, of 0] n(1) obtain m1 w1 where
    1: "hexdump_loop fr pc (of_nat n) 0 m w = Some (Inr (m1, w1, of_nat n))" "same_on ?K m m1"
    "str_at m1 (f_ascii fr) (asc ?D n)" "serial.prints w w1 (concat (map (step_text ?D) [0..<n]))" by auto
  let ?d = "(16 - n mod 16) mod 16"
  have d16: "(n + ?d) mod 16 = 0" by (rule pad_16)
  have "?d < 16" by simp
  moreover then have "n + ?d < 2 ^ 32" using n(2) by simp
  ultimately obtain m2 w2 where
    2: "hexdump_fill fr (of_nat n) m1 w1 = Some (Inr (m2, w2))" "outside (f_vbuf fr) 64 m1 m2"
    "serial.prints w1 w2 (concat (replicate ?d (bytes ''   '')))"
    using hexdump_fill_ok [OF fr d16 _ _ literals_same [OF l 1(2)] serial.prints_up [OF 1(4)]] by blast
  have k2: "same_on ?K m m2" "same_on (region (f_ascii fr) 17) m1 m2"
    using fr by (auto intro!: same_on_trans [OF 1(2)] outside_same [OF 2(2)] simp: frame_ok_def)
  have "str_at m2 (f_ascii fr) (asc ?D n)"
    by (rule str_at_same [OF 1(3) same_on_sub [OF k2(2) region_mono]]) (use length_asc [of ?D n] in simp)
  from print_line [OF fr literals_same [OF l k2(1)] this _ serial.prints_up [OF 2(3)]] length_asc [of ?D n]
  obtain m3 w3 where 3: "printf (f_vbuf fr) (f_line fr) [f_ascii fr] m2 w2 = Some (Inr (m3, w3))"
    "outside (f_vbuf fr) 64 m2 m3" "serial.prints w2 w3 (text_column (asc ?D n))"
    by (auto simp: prints_to_def)
  have "same_on ?K m m3"
    using fr by (intro same_on_trans [OF k2(1)] outside_same [OF 3(2)]) (simp add: frame_ok_def)
  moreover have "(of_nat n :: u32) \<noteq> 0" using n unat_of_nat_small [where ?'a = 32, of n] by auto
  ultimately show ?thesis
    using 1(1) 2(1) 3(1) pc serial.prints_append [OF 1(4) serial.prints_append [OF 2(3) 3(3)]]
    by (auto simp: hexdump_def dump_text_def)
qed

end
