(* ===== verification/Shell.thy ===== *)
theory Shell
  imports Hexdump_Correct
begin

text \<open>
  The loop of \<open>main\<close>: prompt, read a line into a buffer of 16 bytes, dump the buffer. On a line that
  becomes ready again and again and brings no delete character it goes on for ever without a fault.
\<close>

section \<open>A round\<close>

text \<open>What the buffer holds after the characters \<open>R\<close> were received.\<close>

definition line_buffer :: "u8 list \<Rightarrow> u8 list" where
  "line_buffer R = take 16 (typed 16 10 0 R @ replicate 16 0)"

definition round_text :: "u8 list \<Rightarrow> u8 list" where
  "round_text R = bytes prompt @ echo 16 10 0 R @ bytes (''You wrote: '' @ [CHR 0x0A]) @ dump_text (line_buffer R)"

text \<open>The buffer may be written up to the byte after its end, so it needs 17 bytes apart from the rest.\<close>

definition shell_ok :: "frame \<Rightarrow> u32 \<Rightarrow> memory \<Rightarrow> bool" where
  "shell_ok fr buf m \<longleftrightarrow> frame_ok fr buf 17 \<and> literals fr m \<and> buf \<noteq> 0 \<and>
     region (f_line fr) 6 \<inter> region buf 17 = {} \<and> region (f_pad fr) 4 \<inter> region buf 17 = {}"

lemma frame_ok_mono: "frame_ok fr pc n \<Longrightarrow> k \<le> n \<Longrightarrow> frame_ok fr pc k"
proof -
  assume f: "frame_ok fr pc n" and "k \<le> n"
  then have "fixed_part fr pc k \<subseteq> fixed_part fr pc n" using region_mono [of k n pc] by (auto simp: fixed_part_def)
  then show "frame_ok fr pc k" using f unfolding frame_ok_def by blast
qed

lemma literals_outside:
  assumes "shell_ok fr buf m" "outside buf n m m'" "n \<le> 17"
  shows "shell_ok fr buf m'"
proof -
  have r: "region buf n \<subseteq> region buf 17" by (rule region_mono [OF assms(3)])
  have "same_on (region (f_line fr) 6) m m'" "same_on (region (f_pad fr) 4) m m'"
    using assms(1) r by (auto intro!: outside_same [OF assms(2)] simp: shell_ok_def)
  then have "literals fr m'"
    using assms(1) str_at_same [of m "f_line fr" _ m'] str_at_same [of m "f_pad fr" _ m']
    unfolding shell_ok_def literals_def by (metis literal_sizes)
  then show ?thesis using assms(1) by (simp add: shell_ok_def)
qed

lemma buffer_after:
  assumes z: "mem_bytes m buf 16 = replicate 16 0" and T: "mem_bytes m' buf (length T) = T" "length T \<le> 16"
    and nul: "m' (buf + of_nat (length T)) = 0" and o: "outside buf (Suc (length T)) m m'"
  shows "mem_bytes m' buf 16 = take 16 (T @ replicate 16 0)"
proof (rule nth_equalityI)
  fix i assume "i < length (mem_bytes m' buf 16)"
  then have i: "i < 16" by simp
  have "m' (buf + of_nat i) = (T @ replicate 16 0) ! i"
  proof (cases "i < length T")
    case True
    then show ?thesis using nth_mem_bytes [OF T(1)] by (simp add: nth_append)
  next
    case False
    have "m' (buf + of_nat i) = 0"
    proof (cases "i = length T")
      case F: False
      then have "\<not> unat (buf + of_nat i - buf) < Suc (length T)"
        using \<open>\<not> i < length T\<close> i unat_of_nat_small [where ?'a = 32, of i] by simp
      then have "m' (buf + of_nat i) = m (buf + of_nat i)" using o by (simp add: outside_def)
      then show ?thesis using nth_mem_bytes [OF z i] i by simp
    qed (use nul in simp)
    then show ?thesis using False i by (simp add: nth_append)
  qed
  then show "mem_bytes m' buf 16 ! i = take 16 (T @ replicate 16 0) ! i"
    using nth_mem_bytes [OF refl i, of m' buf] i by (simp only: nth_take)
qed simp

lemma main_round_ok:
  assumes sh: "shell_ok fr buf m" and w: "responsive w" "no_delete w"
  shows "\<exists>m' w' R. main_round fr buf m w = Some (Inr (m', w')) \<and> shell_ok fr buf m' \<and> responsive w' \<and> no_delete w' \<and>
    received w' = received w @ R \<and> sent w' = sent w @ concat (map crlf (round_text R))"
proof -
  let ?m0 = "store_bytes buf (replicate 16 0) m"
  have z: "mem_bytes ?m0 buf 16 = replicate 16 0" "outside buf 16 m ?m0"
    using store_bytes_ok [of "replicate 16 0" buf m] by simp_all
  have sh0: "shell_ok fr buf ?m0" by (rule literals_outside [OF sh z(2)]) simp
  obtain w1 where 1: "puts_lit prompt w = Some w1" "serial.prints w w1 (bytes prompt)" using puts_lit_ok [OF w(1)] by blast
  have up1: "responsive w1" "no_delete w1" using 1(2) w(2) by (auto simp: serial.prints_def no_delete_def)
  obtain m1 w2 R where 2: "gets_till buf 16 10 ?m0 w1 = Some (m1, w2, buf)" "responsive w2" "env w2 = env w1"
    "0x7F \<notin> set R" "length R \<le> unat (16 :: u32)" "received w2 = received w1 @ R"
    "sent w2 = sent w1 @ concat (map crlf (echo 16 10 0 R))"
    "length R < 2 ^ 32 - 1 \<Longrightarrow> mem_bytes m1 buf (length (typed 16 10 0 R)) = typed 16 10 0 R \<and>
      m1 (buf + of_nat (length (typed 16 10 0 R))) = 0 \<and> outside buf (Suc (length (typed 16 10 0 R))) ?m0 m1"
    by (rule gets_till_ok [OF up1, of 16 buf 10 ?m0]) simp_all
  let ?T = "typed 16 10 0 R"
  have T: "length ?T \<le> 16" using typed_length [of 16 10 0 R] 2(5) by simp
  have m1: "mem_bytes m1 buf (length ?T) = ?T" "m1 (buf + of_nat (length ?T)) = 0" "outside buf (Suc (length ?T)) ?m0 m1"
    using 2(5,8) by simp_all
  have sh1: "shell_ok fr buf m1" by (rule literals_outside [OF sh0 m1(3)]) (use T in simp)
  have D: "mem_bytes m1 buf 16 = line_buffer R"
    unfolding line_buffer_def by (rule buffer_after [OF z(1) m1(1) T m1(2,3)])
  obtain w3 where 3: "puts_lit (''You wrote: '' @ [CHR 0x0A]) w2 = Some w3"
    "serial.prints w2 w3 (bytes (''You wrote: '' @ [CHR 0x0A]))" using puts_lit_ok [OF 2(2)] by blast
  have fr16: "frame_ok fr buf 16" using sh1 frame_ok_mono [of fr buf 17 16] by (simp add: shell_ok_def)
  obtain m2 w4 where 4: "hexdump fr buf (of_nat 16) m1 w3 = Some (Inr (m2, w4))" "same_on (fixed_part fr buf 16) m1 m2"
    "serial.prints w3 w4 (dump_text (line_buffer R))"
    using hexdump_ok [OF fr16 _ _ _ _ serial.prints_up [OF 3(2)], of m1] sh1 D by (auto simp: shell_ok_def)
  have "shell_ok fr buf m2" using sh1 literals_same [OF _ 4(2)] by (simp add: shell_ok_def)
  moreover have "main_round fr buf m w = Some (Inr (m2, w4))"
    using 1(1) 2(1) 3(1) 4(1) by (simp add: main_round_def Let_def lift_io_def gets_def)
  moreover have "responsive w4" "no_delete w4" "received w4 = received w @ R"
    "sent w4 = sent w @ concat (map crlf (round_text R))"
    using 1(2) 2(3,6,7) 3(2) 4(3) w(2) by (simp_all add: serial.prints_def round_text_def no_delete_def)
  ultimately show ?thesis by blast
qed

section \<open>The loop\<close>

text \<open>\<open>Rs\<close> are the characters received in each round.\<close>

lemma main_rounds_ok:
  "shell_ok fr buf m \<Longrightarrow> responsive w \<Longrightarrow> no_delete w \<Longrightarrow>
    \<exists>m' w' Rs. main_rounds n fr buf m w = Some (Inr (m', w')) \<and> length Rs = n \<and>
      received w' = received w @ concat Rs \<and> sent w' = sent w @ concat (map crlf (concat (map round_text Rs)))"
proof (induction n arbitrary: m w)
  case 0
  then show ?case by simp
next
  case (Suc n)
  from main_round_ok [OF Suc.prems] obtain m1 w1 R where
    1: "main_round fr buf m w = Some (Inr (m1, w1))" "shell_ok fr buf m1" "responsive w1" "no_delete w1"
    "received w1 = received w @ R" "sent w1 = sent w @ concat (map crlf (round_text R))" by blast
  from Suc.IH [OF 1(2-4)] obtain m2 w2 Rs where
    "main_rounds n fr buf m1 w1 = Some (Inr (m2, w2))" "length Rs = n" "received w2 = received w1 @ concat Rs"
    "sent w2 = sent w1 @ concat (map crlf (concat (map round_text Rs)))" by blast
  then show ?case using 1 by (intro exI [of _ m2] exI [of _ w2] exI [of _ "R # Rs"]) simp
qed

section \<open>An example\<close>

lemma region_disjoint:
  "unat a + n \<le> unat b \<Longrightarrow> unat b + k \<le> 2 ^ 32 \<Longrightarrow> region a n \<inter> region b k = {} \<and> region b k \<inter> region a n = {}"
proof -
  assume h: "unat a + n \<le> unat b" "unat b + k \<le> 2 ^ 32"
  have False if "unat (c - a) < n" "unat (c - b) < k" for c
  proof -
    have "unat c = unat a + unat (c - a)" using that h unat_add_small [of a "c - a"] by simp
    moreover have "unat c = unat b + unat (c - b)" using that h unat_add_small [of b "c - b"] by simp
    ultimately show False using that h(1) by linarith
  qed
  then show ?thesis by (auto simp: region_def)
qed

definition example_frame :: frame where
  "example_frame = \<lparr>f_ascii = 0x1000, f_off = 0x1100, f_hex = 0x1200, f_vbuf = 0x1300, f_line = 0x2000, f_pad = 0x2100\<rparr>"

definition example_memory :: memory where
  "example_memory = store_bytes 0x2000 (bytes (''  %s'' @ [CHR 0x0A]) @ [0]) (store_bytes 0x2100 (bytes ''   '' @ [0]) ucast)"

lemma example_frame_ok: "frame_ok example_frame 0x3000 17"
proof -
  have "region a n \<inter> region b k = {}" if "a \<in> {0x2000, 0x2100, 0x3000}" "b \<in> {0x1000, 0x1100, 0x1200, 0x1300}" "n \<le> 17" "k \<le> 64" for a b n k
    using region_disjoint [of b k a n] that by auto
  moreover have "region a n \<inter> region b k = {}" if "unat a + n \<le> unat b" "unat b + k \<le> 2 ^ 32" for a b n k
    using region_disjoint [OF that] by blast
  ultimately show ?thesis by (simp add: frame_ok_def fixed_part_def example_frame_def Int_Un_distrib2)
qed

lemma example_literals: "literals example_frame example_memory"
proof -
  have "str_at example_memory 0x2000 (bytes (''  %s'' @ [CHR 0x0A]))" "str_at example_memory 0x2100 (bytes ''   '')"
    unfolding example_memory_def by code_simp+
  then show ?thesis by (simp add: literals_def example_frame_def)
qed

lemma example_shell_ok: "shell_ok example_frame 0x3000 example_memory"
  using example_frame_ok example_literals region_disjoint [of "0x2000" 6 "0x3000" 17] region_disjoint [of "0x2100" 4 "0x3000" 17]
  by (simp add: shell_ok_def example_frame_def)

end
