(* ===== verification/Report.thy ===== *)
theory Report
  imports Tty_Correct Pci_Correct Stdvga
begin

text \<open>
  The messages of the PCI driver on the serial line. The driver's log holds the format strings and the
  arguments it passes to \<open>kprintf\<close>, which is \<open>printf\<close>; here is the text \<open>printf\<close> prints for them.
\<close>

section \<open>The text of a message\<close>

text \<open>A string argument needs \<open>%s\<close>, and \<open>%s\<close> needs one.\<close>

definition conv_karg :: "u8 \<Rightarrow> karg \<Rightarrow> u8 list option" where
  "conv_karg d k = (case k of
     KInt v \<Rightarrow> if d \<in> set (bytes ''s'') then None else Some (conv_text (\<lambda>_. []) d v)
   | KStr s \<Rightarrow> if d \<in> set (bytes ''s'') then Some (bytes s) else None)"

fun kformat :: "u8 list \<Rightarrow> karg list \<Rightarrow> u8 list option" where
  "kformat [] ks = Some []"
| "kformat (c # cs) ks =
    (if c \<noteq> 37 then map_option ((#) c) (kformat cs ks)
     else case ks of
       [] \<Rightarrow> None
     | k # ks' \<Rightarrow>
        (case cs of [] \<Rightarrow> Some []
         | d # ds \<Rightarrow> (case conv_karg d k of None \<Rightarrow> None | Some t \<Rightarrow> map_option ((@) t) (kformat ds ks'))))"

definition message_text :: "string \<times> karg list \<Rightarrow> u8 list option" where
  "message_text e = kformat (bytes (fst e)) (snd e)"

text \<open>The words passed for the arguments: numbers, and addresses of strings in memory.\<close>

definition passed_as :: "memory \<Rightarrow> u32 \<Rightarrow> karg \<Rightarrow> u32 \<Rightarrow> bool" where
  "passed_as m vbuf k v = (case k of KInt u \<Rightarrow> v = u
     | KStr s \<Rightarrow> str_at m v (bytes s) \<and> clear_of vbuf 64 v (length (bytes s)))"

lemma conv_text_cases:
  "d \<in> set (bytes ''s'') \<Longrightarrow> conv_text S d v = S v"
  "d \<notin> set (bytes ''s'') \<Longrightarrow> conv_text S d v = conv_text T d v"
  by (simp_all add: conv_text_def bytes_def)

lemma conv_karg_passed:
  assumes "conv_karg d k = Some t" "passed_as m vbuf k v" "\<forall>a cs. str_at m a cs \<longrightarrow> S a = cs"
  shows "conv_text S d v = t \<and> (d \<in> set (bytes ''s'') \<longrightarrow> str_at m v (S v) \<and> clear_of vbuf 64 v (length (S v)))"
proof (cases k)
  case (KInt u)
  then have "d \<notin> set (bytes ''s'')" "v = u" "t = conv_text (\<lambda>_. []) d u"
    using assms(1,2) by (auto simp: conv_karg_def passed_as_def split: if_splits)
  then show ?thesis using conv_text_cases(2) by metis
next
  case (KStr s)
  then have "d \<in> set (bytes ''s'')" "str_at m v (bytes s)" "clear_of vbuf 64 v (length (bytes s))" "t = bytes s"
    using assms(1,2) by (auto simp: conv_karg_def passed_as_def split: if_splits)
  then show ?thesis using conv_text_cases(1) assms(3) by metis
qed

lemma kformat_format:
  assumes S: "\<forall>a cs. str_at m a cs \<longrightarrow> S a = cs"
  shows "kformat cs ks = Some t \<Longrightarrow> list_all2 (passed_as m vbuf) ks vs \<Longrightarrow>
    format S cs vs = Some t \<and> strings_at m vbuf S (used_strings cs vs)"
proof (induction cs ks arbitrary: t vs rule: kformat.induct)
  case (1 ks)
  then show ?case by (simp add: strings_at_def)
next
  case (2 c cs ks)
  show ?case
  proof (cases "c = 37")
    case False
    then show ?thesis using 2 by auto
  next
    case True
    then obtain k ks' where k: "ks = k # ks'" using "2.prems"(1) by (cases ks) auto
    then obtain v vs' where v: "vs = v # vs'" "passed_as m vbuf k v" "list_all2 (passed_as m vbuf) ks' vs'"
      using "2.prems"(2) by (cases vs) auto
    show ?thesis
    proof (cases cs)
      case Nil
      then show ?thesis using 2 True k v by (simp add: strings_at_def)
    next
      case (Cons d ds)
      then obtain t1 t2 where t: "conv_karg d k = Some t1" "kformat ds ks' = Some t2" "t = t1 @ t2"
        using "2.prems"(1) True k by (auto split: option.splits)
      have "format S ds vs' = Some t2 \<and> strings_at m vbuf S (used_strings ds vs')"
        using "2.IH"(2) [of k ks' d ds t1 t2 vs'] True k Cons t v(3) by simp
      then show ?thesis
        using conv_karg_passed [OF t(1) v(2) S] True k Cons t(3) v(1) by (auto simp: strings_at_def)
    qed
  qed
qed

lemma str_at_unique: "str_at m a cs \<Longrightarrow> str_at m a ds \<Longrightarrow> cs = ds"
proof (induction cs arbitrary: a ds)
  case Nil
  then show ?case by (cases ds) (simp_all add: str_at_Nil str_at_Cons)
next
  case (Cons c cs)
  then show ?case by (cases ds) (auto simp: str_at_Nil str_at_Cons)
qed

text \<open>So the text is what \<open>printf\<close> prints.\<close>

lemma vprintf_message:
  assumes "message_text (f, ks) = Some t" "list_all2 (passed_as m vbuf) ks vs" "str_at m a (bytes f)"
    and "clear_of vbuf 64 a (length (bytes f))" "responsive w"
  shows "prints_to vbuf m w (vprintf vbuf a vs m w) t"
proof -
  have "\<forall>b cs. str_at m b cs \<longrightarrow> (THE cs. str_at m b cs) = cs"
    using str_at_unique by blast
  from kformat_format [OF this, of "bytes f" ks t vbuf vs] show ?thesis
    using assms(1,2) vprintf_ok [OF assms(3,4) _ assms(5)] unfolding message_text_def fst_conv snd_conv by blast
qed

section \<open>Sending a log\<close>

fun send_log :: "(string \<times> karg list) list \<Rightarrow> uart \<Rightarrow> uart result option" where
  "send_log [] w = Some (Inr w)"
| "send_log (e # es) w = (case message_text e of
     None \<Rightarrow> Some (Inl Missing_argument)
   | Some t \<Rightarrow> obind (lift_io (emit uart16550_putc t w)) (send_log es))"

definition log_text :: "(string \<times> karg list) list \<Rightarrow> u8 list" where
  "log_text es = concat (map (the \<circ> message_text) es)"

definition printable :: "string \<times> karg list \<Rightarrow> bool" where
  "printable e \<longleftrightarrow> message_text e \<noteq> None"

definition good_log :: "(string \<times> karg list) list \<Rightarrow> bool" where
  "good_log es \<longleftrightarrow> (\<forall>e \<in> set es. printable e)"

lemma good_log_simps [simp]: "good_log []" "good_log (es @ fs) \<longleftrightarrow> good_log es \<and> good_log fs"
  by (auto simp: good_log_def)

lemma send_log_ok:
  "responsive w \<Longrightarrow> good_log es \<Longrightarrow> \<exists>w'. send_log es w = Some (Inr w') \<and> serial.prints w w' (log_text es)"
proof (induction es arbitrary: w)
  case Nil
  then show ?case by (simp add: log_text_def serial.prints_nil)
next
  case (Cons e es)
  obtain t where t: "message_text e = Some t" using Cons.prems(2) by (auto simp: good_log_def printable_def)
  obtain w1 where 1: "emit uart16550_putc t w = Some w1" "serial.prints w w1 t"
    using serial.emit_prints [OF Cons.prems(1)] by blast
  have "good_log es" using Cons.prems(2) by (simp add: good_log_def)
  from Cons.IH [OF serial.prints_up [OF 1(2)] this] obtain w2 where
    "send_log es w1 = Some (Inr w2)" "serial.prints w1 w2 (log_text es)" by blast
  then show ?case using t 1 serial.prints_append [OF 1(2)] by (auto simp: lift_io_def log_text_def)
qed

section \<open>The messages of the driver\<close>

lemma kformat_plain: "37 \<notin> set xs \<Longrightarrow> kformat (xs @ ys) ks = map_option ((@) xs) (kformat ys ks)"
  by (induction xs) (auto simp: option.map_comp comp_def option.map_id0 map_option_case split: option.splits)

lemma pci_messages [simp]:
  "printable (''devs = %d, nbars = %d\<newline>'', [KInt a, KInt b])"
  "printable (''[pci:%x:%x.%x]'', [KInt a, KInt b, KInt c])"
  "printable (''%s'', [KStr s])" "printable ('' %s'', [KStr s])"
  "printable ('' vendor:$%x'', [KInt a])" "printable ('' %s\<newline>'', [KStr s])"
  "printable ('' device:$%x\<newline>'', [KInt a])"
  "printable ('' Interrupt: pin %c routed to IRQ %d\<newline>'', [KInt a, KInt b])"
  "printable ('' Region %d: %s at %p [size=$%x]\<newline>'', [KInt a, KStr s, KInt b, KInt c])"
  by (simp_all add: printable_def message_text_def conv_karg_def bytes_def)

lemma good_dump_bar: "good_log (map dump_bar bs)"
  by (auto simp: good_log_def dump_bar_def Let_def split: prod.splits)

lemma dump_device_log: "dump_device d st = Inr st' \<Longrightarrow> good_log (plog st) \<Longrightarrow> good_log (plog st')"
  using good_dump_bar
  by (auto simp: dump_device_def Let_def pci_print_def good_log_def split: if_splits option.splits)

lemma dump_devices_log: "dump_devices ds st = Inr st' \<Longrightarrow> good_log (plog st) \<Longrightarrow> good_log (plog st')"
  by (induction ds arbitrary: st) (auto simp: rbind_Inr_iff dest: dump_device_log)

lemma config_log [simp]:
  "plog (snd (pci_read_config el a reg sz st)) = plog st" "plog (pci_write_config el a reg sz v st) = plog st"
  "plog (snd (pci_adjust_config el a reg sz v st)) = plog st" "plog (snd (pci_device_present el a st)) = plog st"
  by (simp_all add: pci_read_config_def pci_write_config_def pci_adjust_config_def pci_device_present_def split_def Let_def)

lemma probe_bars_log: "plog (snd (probe_bars el d a is st)) = plog st"
  by (induction "is" arbitrary: st) (simp_all add: split_def Let_def)

lemma probe_device_log: "probe_device el a st = Inr st' \<Longrightarrow> plog st' = plog st"
  by (auto simp: probe_device_def Let_def split_def probe_bars_log split: if_splits)

lemma enum_slots_log: "enum_slots el as st = Inr st' \<Longrightarrow> plog st' = plog st"
proof (induction as arbitrary: st)
  case (Cons a as)
  obtain p s where p: "pci_device_present el a st = (p, s)" by (cases "pci_device_present el a st")
  then have "plog s = plog st" using config_log(4) [of el a st] by simp
  then show ?case
    using Cons p probe_device_log [of el a s] by (cases p) (auto simp: rbind_Inr_iff)
qed simp

lemma assign_bars_log: "plog (assign_bars el ps io mem st) = plog st"
  by (induction ps arbitrary: io mem st) (simp_all add: Let_def split_def)

lemma obind_Inr_iff: "obind x f = Some (Inr y) \<longleftrightarrow> (\<exists>v. x = Some (Inr v) \<and> f v = Some (Inr y))"
proof (cases x)
  case (Some r)
  then show ?thesis by (cases r) simp_all
qed simp

lemma assign_space_log:
  "pci_bus_assign_space el st = Some (Inr st') \<Longrightarrow> good_log (plog st) \<Longrightarrow> good_log (plog st')"
  by (auto simp: pci_bus_assign_space_def Let_def obind_Inr_iff assign_bars_log pci_print_def) (auto simp: good_log_def)

lemma pci_init_log: "pci_init el st = Some (Inr st') \<Longrightarrow> good_log (plog st) \<Longrightarrow> good_log (plog st')"
  using enum_slots_log [of el all_slots st]
  by (auto simp: pci_init_def obind_Inr_iff pci_bus_enumerate_def pci_bus_dump_def dest!: assign_space_log dump_devices_log)

end
