(* ===== verification/Boot.thy ===== *)
theory Boot
  imports Shell Malta Vga_Demo Report
begin

text \<open>
  \<open>main\<close> of \<open>init.c\<close>: the serial line, on the Malta board the platform and the demonstration, then the
  loop of \<open>Shell\<close>. \<open>malta\<close> is the macro \<open>SYS_MALTA\<close>; the addresses of the linker's symbol \<open>__bios_end\<close> and
  of the arrays are arguments. \<open>ram\<close> holds the arrays and literals of the program; the description of the
  segment, which lies behind them at \<open>__bios_end\<close>, is in \<open>plat\<close>. The messages of \<open>platform_init\<close> are sent when
  it returns: nothing else it does touches the line, so the line sees the same as when each is sent
  at once.
\<close>

section \<open>The program\<close>

definition MEMSIZE :: u32 where "MEMSIZE = 16 * 1024 * 1024"

record program =
  plat :: platform
  ram :: memory
  line :: uart

definition main_start :: "bool \<Rightarrow> bool \<Rightarrow> int \<Rightarrow> u32 \<Rightarrow> u32 \<Rightarrow> u32 \<Rightarrow> program \<Rightarrow> program result option" where
  "main_start malta el ctz0 bios_end img pal b0 =
    (let b = b0\<lparr>line := uart16550_init el UART16550_BAUD_115200 UART16550_8N1 (line b0)\<rparr>
     in if malta then
          obind (platform_init el ctz0 bios_end 640 480 MEMSIZE (plat b)) (\<lambda>p.
          obind (send_log (drop (length (plog (bus (vga (plat b))))) (plog (bus (vga p)))) (line b)) (\<lambda>w.
          obind (Some (demo sierpinski img pal \<lparr>dmem = ram b, dvga = vga p\<rparr>)) (\<lambda>d.
            Some (Inr (b\<lparr>plat := p\<lparr>vga := dvga d\<rparr>, ram := dmem d, line := w\<rparr>)))))
        else Some (Inr b))"

text \<open>\<open>main\<close> up to the end of the \<open>n\<close>-th round of its loop.\<close>

definition main_until :: "bool \<Rightarrow> bool \<Rightarrow> int \<Rightarrow> u32 \<Rightarrow> u32 \<Rightarrow> u32 \<Rightarrow> frame \<Rightarrow> u32 \<Rightarrow> nat \<Rightarrow> program \<Rightarrow> program result option" where
  "main_until malta el ctz0 bios_end img pal fr buf n b0 =
    obind (main_start malta el ctz0 bios_end img pal b0) (\<lambda>b.
    obind (main_rounds n fr buf (ram b) (line b)) (\<lambda>(m, w). Some (Inr (b\<lparr>ram := m, line := w\<rparr>))))"

section \<open>Starting up\<close>

lemma init_env: "env (uart16550_init el d c w) = env w"
  by (simp add: uart16550_init_def set_line_ctrl_def Let_def case_prod_unfold)

lemma init_traffic: "received (uart16550_init el d c w) = received w" "sent (uart16550_init el d c w) = sent w @ [ucast d]"
  by (simp_all add: uart16550_init_def set_line_ctrl_def reg_read_def reg_write_def sent_def received_def Let_def)

lemma init_up: "responsive (uart16550_init el d c w) = responsive w" "no_delete (uart16550_init el d c w) = no_delete w"
  by (simp_all add: responsive_def no_delete_def init_env)

lemma table_bars: "table_ok st \<Longrightarrow> length (all_bars st) \<le> 42"
proof -
  assume t: "table_ok st"
  have "length (all_bars st) = sum_list (map (\<lambda>d. length (d_bars (pcidevs st ! d))) (devices st))"
    by (simp add: all_bars_def length_concat comp_def)
  also have "\<dots> \<le> sum_list (map (\<lambda>_. 6) (devices st))"
    using t by (intro sum_list_mono) (auto simp: table_ok_def)
  also have "\<dots> \<le> 42" using t by (simp add: table_ok_def sum_list_triv MALTA_PCI_DEVICE_COUNT_def)
  finally show ?thesis .
qed

text \<open>The assignment always returns: there are at most 42 registers to sort.\<close>

lemma assign_returns:
  assumes "length (all_bars st) < 3 * 2 ^ 30"
  shows "\<exists>st'. pci_bus_assign_space el st = Some (Inr st')"
proof -
  obtain ps where "qsort (ptr_compare (pcidevs st)) 4 (all_bars st) = Some (Inr ps)"
    using ptr_order.qsort_ok [of 4 "all_bars st" "pcidevs st"] assms by auto
  then show ?thesis by (simp add: pci_bus_assign_space_def pci_print_def Let_def)
qed

section \<open>What the demonstration leaves alone\<close>

definition demo_part :: "u32 \<Rightarrow> u32 \<Rightarrow> u32 set" where
  "demo_part img pal = region img (WIDTH * HEIGHT) \<union> region pal 768"

lemma same_fold:
  assumes "\<And>k m. k \<in> set ks \<Longrightarrow> same_on K m (f k m)"
  shows "same_on K m (fold f ks m)"
  using assms by (induction ks arbitrary: m) (auto intro: same_on_trans)

lemma same_upd: "a \<notin> K \<Longrightarrow> same_on K m m1 \<Longrightarrow> same_on K m (m1(a := v))"
  by (auto simp: same_on_def)

lemma same_pixel:
  assumes "x < WIDTH" "y < HEIGHT" "same_on (- demo_part img pal) m m1"
  shows "same_on (- demo_part img pal) m (put_pixel img y x v m1)"
proof -
  have "y * WIDTH + x < Suc y * WIDTH" using assms(1) by simp
  also have "\<dots> \<le> HEIGHT * WIDTH" using assms(2) by (intro mult_le_mono1) simp
  finally have "img + of_nat (y * WIDTH + x) \<in> demo_part img pal"
    unfolding demo_part_def by (intro UnI1 in_region) (simp_all add: mult.commute WIDTH_def HEIGHT_def)
  then show ?thesis using assms(3) unfolding put_pixel_def by (intro same_upd) simp_all
qed

lemma same_palette: "k < 256 \<Longrightarrow> same_on (- demo_part img pal) m (palette_entry pal k m)"
proof -
  assume k: "k < 256"
  have "pal + of_nat (3 * k + c) \<in> demo_part img pal" if "c < 3" for c
    unfolding demo_part_def using that k by (intro UnI2 in_region) simp_all
  from this [of 0] this [of 1] this [of 2] show ?thesis
    unfolding palette_entry_writes [OF k] by (intro same_upd) simp_all
qed

lemma demo_frame:
  assumes "demo shader img pal st = Inr d"
  shows "same_on (- demo_part img pal) (dmem st) (dmem d)"
proof -
  let ?K = "- demo_part img pal"
  have "same_on ?K m (shade_row shader img y m)" if "y \<in> set [0..<HEIGHT]" for y m
    unfolding shade_row_def using that by (intro same_fold same_pixel) auto
  moreover have "same_on ?K m (scale_column img x m)" if "x \<in> set [0..<WIDTH]" for x m
    unfolding scale_column_def Let_def using that by (intro same_pixel same_on_refl) (simp_all add: HEIGHT_def)
  moreover have "same_on ?K m (palette_entry pal k m)" if "k \<in> set [0..<256]" for k m
    using that same_palette by simp
  ultimately have s: "same_on ?K m (fold (shade_row shader img) [0..<HEIGHT] m)"
    "same_on ?K m (fold (scale_column img) [0..<WIDTH] m)" "same_on ?K m (fold (palette_entry pal) [0..<256] m)" for m
    by (blast intro: same_fold)+
  have "dmem d = fold (scale_column img) [0..<WIDTH] (fold (shade_row shader img) [0..<HEIGHT]
      (fold (palette_entry pal) [0..<256] (dmem st)))"
    using assms by (auto simp: demo_def prepare_palette_def display_image_def Let_def rbind_Inr_iff split: prod.splits)
  then show ?thesis by (simp only:) (rule same_on_trans [OF same_on_trans [OF s(3) s(1)] s(2)])
qed

lemma shell_ok_same:
  assumes "shell_ok fr buf m" "same_on (- demo_part img pal) m m'"
    and "demo_part img pal \<inter> (region (f_line fr) 6 \<union> region (f_pad fr) 4) = {}"
  shows "shell_ok fr buf m'"
proof -
  have "same_on (region (f_line fr) 6) m m'" "same_on (region (f_pad fr) 4) m m'"
    by (rule same_on_sub [OF assms(2)], use assms(3) in blast)+
  then have "literals fr m'"
    using assms(1) str_at_same [of m "f_line fr" _ m'] str_at_same [of m "f_pad fr" _ m']
    unfolding shell_ok_def literals_def by (metis literal_sizes)
  then show ?thesis using assms(1) by (simp add: shell_ok_def)
qed

section \<open>The faults of starting up\<close>

text \<open>A table index out of range (too many devices, an unknown class) or a register that no device filled.\<close>

definition quiet :: "'a result \<Rightarrow> bool" where
  "quiet r \<longleftrightarrow> (case r of Inl e \<Rightarrow> e = Out_of_bounds \<or> e = Null_pointer | Inr _ \<Rightarrow> True)"

lemma quiet_Inr [simp]: "quiet (Inr x)"
  by (simp add: quiet_def)

lemma quiet_rbind [intro!]: "quiet r \<Longrightarrow> (\<And>x. quiet (f x)) \<Longrightarrow> quiet (rbind r f)"
  by (cases r) (simp_all add: quiet_def)

lemma quiet_space [simp]: "quiet (via_space h x)"
  by (cases "r_bus_space h") (simp_all add: via_space_def quiet_def)

lemmas bus_accesses = bus_space_read_1_def bus_space_write_1_def bus_space_read_2_def bus_space_write_2_def
  bus_space_write_region_1_def

lemma quiet_regs [simp]:
  "quiet (stdvga_io_write r v s)" "quiet (stdvga_vbe_write r u s)" "quiet (stdvga_vbe_read r s)" "quiet (stdvga_fb_write a m s)"
  unfolding stdvga_io_write_def stdvga_vbe_write_def stdvga_vbe_read_def stdvga_fb_write_def
  by (auto simp: bus_accesses split: prod.splits)

lemma quiet_attach [simp]: "quiet (stdvga_pci_attach el d w h s)"
  unfolding stdvga_pci_attach_def Let_def by (auto split: prod.splits)

lemma quiet_attach_all: "quiet (attach_all el w h ds s)"
  by (induction ds arbitrary: s) (auto split: prod.splits)

lemma quiet_palette: "quiet (palette_loop is a m s)"
  by (induction "is" arbitrary: s) (auto simp: stdvga_palette_write_single_def)

lemma quiet_demo: "quiet (demo shader img pal st)"
  unfolding demo_def prepare_palette_def display_image_def stdvga_palette_write_def stdvga_palette_write_buffer_def Let_def
  by (auto intro!: quiet_palette split: prod.splits)

lemma quiet_dump: "quiet (dump_devices ds st)"
  by (induction ds arbitrary: st) (auto simp: dump_device_def Let_def quiet_def)

lemma quiet_pci_init:
  assumes "pcidevs st = []" "devices st = []"
  shows "\<exists>r. pci_init el st = Some r \<and> quiet r"
proof (cases "pci_bus_enumerate el st")
  case (Inl e)
  then show ?thesis using pci_bus_enumerate_ok [OF assms, of el] by (auto simp: pci_init_def quiet_def)
next
  case (Inr st1)
  then have "table_ok st1" using pci_bus_enumerate_ok [OF assms, of el] by auto
  from table_bars [OF this] obtain st2 where "pci_bus_assign_space el st1 = Some (Inr st2)"
    using assign_returns [of st1 el] by auto
  then show ?thesis using Inr by (simp add: pci_init_def pci_bus_dump_def quiet_dump)
qed

section \<open>What the display leaves of the log\<close>

lemma space_hw: "via_space h x = Inr y \<Longrightarrow> y = x"
  by (cases "r_bus_space h") (simp_all add: via_space_def)

lemma regs_log:
  "stdvga_io_write r v s = Inr s' \<Longrightarrow> plog (bus s') = plog (bus s)"
  "stdvga_vbe_write r u s = Inr s' \<Longrightarrow> plog (bus s') = plog (bus s)"
  "stdvga_vbe_read r s = Inr (u, s') \<Longrightarrow> plog (bus s') = plog (bus s)"
  "stdvga_fb_write a m s = Inr (i, s') \<Longrightarrow> plog (bus s') = plog (bus s)"
  by (auto simp: stdvga_io_write_def stdvga_vbe_write_def stdvga_vbe_read_def stdvga_fb_write_def rbind_Inr_iff set_hw_def
    split: prod.splits)

lemma attach_log: "stdvga_pci_attach el d w h s = Inr (i, s') \<Longrightarrow> plog (bus s') = plog (bus s)"
  by (auto simp: stdvga_pci_attach_def Let_def rbind_Inr_iff split_def split: if_splits dest!: regs_log)

lemma attach_all_log: "attach_all el w h ds s = Inr s' \<Longrightarrow> plog (bus s') = plog (bus s)"
  by (induction ds arbitrary: s) (auto simp: rbind_Inr_iff dest!: attach_log)

lemma palette_log_same: "palette_loop is a m s = Inr s' \<Longrightarrow> plog (bus s') = plog (bus s)"
  by (induction "is" arbitrary: s) (auto simp: stdvga_palette_write_single_def rbind_Inr_iff dest!: regs_log)

lemma demo_log: "demo shader img pal st = Inr d \<Longrightarrow> plog (bus (dvga d)) = plog (bus (dvga st))"
  by (auto simp: demo_def prepare_palette_def display_image_def stdvga_palette_write_def stdvga_palette_write_buffer_def
    Let_def rbind_Inr_iff dest!: palette_log_same regs_log)

section \<open>The run of main\<close>

section \<open>The run of main\<close>

lemma platform_init_ok:
  assumes "pcidevs (bus (vga p)) = []" "devices (bus (vga p)) = []" "plog (bus (vga p)) = []" "12 \<le> ctz0"
    and b: "unat bios_end = 2147483648 + 4096 * s" "s + seg_pages 4096 \<le> 4096"
  shows "\<exists>r. platform_init el ctz0 bios_end w h MEMSIZE p = Some r \<and> quiet r \<and>
    (\<forall>p'. r = Inr p' \<longrightarrow> pm_inv (pmem p') [{}] \<and> good_log (plog (bus (vga p'))))"
proof -
  obtain pm where pm: "pm_bootstrap ctz0 bios_end MEMSIZE (pmem p) = Some (Inr pm)" "pm_inv pm [{}]"
    using pm_bootstrap_ok [of 12 ctz0 MEMSIZE bios_end s "pmem p"] assms(4-6) by (auto simp: PM_NQUEUES_def MEMSIZE_def)
  obtain r where r: "pci_init el (bus (vga p)) = Some r" "quiet r" using quiet_pci_init [OF assms(1,2)] by blast
  show ?thesis
  proof (cases r)
    case (Inl e)
    then show ?thesis using pm r by (simp add: platform_init_def quiet_def)
  next
    case (Inr b1)
    have g: "good_log (plog b1)" using pci_init_log [of el "bus (vga p)" b1] r(1) Inr assms(3) by simp
    let ?a = "attach_all el w h (devices b1) ((vga p)\<lparr>bus := b1\<rparr>)"
    show ?thesis
    proof (cases ?a)
      case (Inl e)
      then show ?thesis using pm r Inr quiet_attach_all [of el w h "devices b1" "(vga p)\<lparr>bus := b1\<rparr>"]
        by (simp add: platform_init_def \<open>r = Inr b1\<close> quiet_def)
    next
      case (Inr v)
      then show ?thesis using pm r \<open>r = Inr b1\<close> g attach_all_log [OF Inr] by (simp add: platform_init_def)
    qed
  qed
qed

text \<open>What the line carries before the loop: the divisor of the baud rate, and the messages about the bus.\<close>

definition start_text :: "bool \<Rightarrow> program \<Rightarrow> u8 list" where
  "start_text malta b = (if malta then log_text (plog (bus (vga (plat b)))) else [])"

definition started :: "bool \<Rightarrow> frame \<Rightarrow> u32 \<Rightarrow> program \<Rightarrow> program \<Rightarrow> bool" where
  "started malta fr buf b b1 \<longleftrightarrow> (malta \<longrightarrow> pm_inv (pmem (plat b1)) [{}]) \<and> shell_ok fr buf (ram b1) \<and>
     responsive (line b1) \<and> no_delete (line b1) \<and> received (line b1) = received (line b) \<and>
     sent (line b1) = sent (line b) @ [1] @ concat (map crlf (start_text malta b1))"

lemma main_start_ok:
  assumes "pcidevs (bus (vga (plat b))) = []" "devices (bus (vga (plat b))) = []" "plog (bus (vga (plat b))) = []" "12 \<le> ctz0"
    and "unat bios_end = 2147483648 + 4096 * s" "s + seg_pages 4096 \<le> 4096"
    and up: "responsive (line b)" "no_delete (line b)" and sh: "shell_ok fr buf (ram b)"
    and d: "demo_part img pal \<inter> (region (f_line fr) 6 \<union> region (f_pad fr) 4) = {}"
  shows "\<exists>r. main_start malta el ctz0 bios_end img pal b = Some r \<and> quiet r \<and> (malta \<or> (\<exists>b1. r = Inr b1)) \<and>
    (\<forall>b1. r = Inr b1 \<longrightarrow> started malta fr buf b b1)"
proof -
  let ?l = "uart16550_init el UART16550_BAUD_115200 UART16550_8N1 (line b)"
  have l: "responsive ?l" "no_delete ?l" "received ?l = received (line b)" "sent ?l = sent (line b) @ [1]"
    using up by (simp_all add: init_up init_traffic UART16550_BAUD_115200_def)
  show ?thesis
  proof (cases malta)
    case False
    then show ?thesis using l sh by (simp add: main_start_def started_def start_text_def)
  next
    case True
    obtain r where r: "platform_init el ctz0 bios_end 640 480 MEMSIZE (plat b) = Some r" "quiet r"
      "\<And>p. r = Inr p \<Longrightarrow> pm_inv (pmem p) [{}] \<and> good_log (plog (bus (vga p)))"
      using platform_init_ok [OF assms(1-6), of el 640 480] by blast
    show ?thesis
    proof (cases r)
      case (Inl e)
      then show ?thesis using True r by (simp add: main_start_def quiet_def)
    next
      case (Inr p)
      obtain w where w: "send_log (plog (bus (vga p))) ?l = Some (Inr w)" "serial.prints ?l w (log_text (plog (bus (vga p))))"
        using send_log_ok [OF l(1)] r(3) [OF Inr] by blast
      have lw: "responsive w" "no_delete w" "received w = received (line b)"
        "sent w = sent (line b) @ [1] @ concat (map crlf (log_text (plog (bus (vga p)))))"
        using w(2) l by (simp_all add: serial.prints_def no_delete_def)
      let ?d = "demo sierpinski img pal \<lparr>dmem = ram b, dvga = vga p\<rparr>"
      note start = main_start_def True \<open>r = Inr p\<close> r(1) w(1) assms(3)
      show ?thesis
      proof (cases ?d)
        case (Inl e)
        then show ?thesis using quiet_demo [of sierpinski img pal "\<lparr>dmem = ram b, dvga = vga p\<rparr>"] by (simp add: start quiet_def)
      next
        case (Inr d1)
        have "shell_ok fr buf (dmem d1)" using shell_ok_same [OF sh _ d] demo_frame [OF Inr] by simp
        then show ?thesis
          using Inr r(3) [OF \<open>r = Inr p\<close>] lw demo_log [OF Inr] by (simp add: start started_def start_text_def)
      qed
    qed
  qed
qed

text \<open>A fault ends the program; otherwise the loop runs on what the start left behind.\<close>

lemma main_until_ok:
  assumes "pcidevs (bus (vga (plat b))) = []" "devices (bus (vga (plat b))) = []" "plog (bus (vga (plat b))) = []" "12 \<le> ctz0"
    and "unat bios_end = 2147483648 + 4096 * s" "s + seg_pages 4096 \<le> 4096"
    and "responsive (line b)" "no_delete (line b)" "shell_ok fr buf (ram b)"
    and "demo_part img pal \<inter> (region (f_line fr) 6 \<union> region (f_pad fr) 4) = {}"
  shows "(\<exists>e. malta \<and> (e = Out_of_bounds \<or> e = Null_pointer) \<and>
      main_until malta el ctz0 bios_end img pal fr buf n b = Some (Inl e)) \<or>
    (\<exists>b' Rs. main_until malta el ctz0 bios_end img pal fr buf n b = Some (Inr b') \<and> length Rs = n \<and>
      (malta \<longrightarrow> pm_inv (pmem (plat b')) [{}]) \<and> received (line b') = received (line b) @ concat Rs \<and>
      sent (line b') = sent (line b) @ [1] @ concat (map crlf (start_text malta b' @ concat (map round_text Rs))))"
proof -
  obtain r where r: "main_start malta el ctz0 bios_end img pal b = Some r" "quiet r" "malta \<or> (\<exists>b1. r = Inr b1)"
    "\<And>b1. r = Inr b1 \<Longrightarrow> started malta fr buf b b1"
    using main_start_ok [OF assms, of malta el] by blast
  show ?thesis
  proof (cases r)
    case (Inl e)
    then show ?thesis using r by (simp add: main_until_def quiet_def)
  next
    case (Inr b1)
    note b1 = r(4) [OF Inr, unfolded started_def]
    obtain m w Rs where l: "main_rounds n fr buf (ram b1) (line b1) = Some (Inr (m, w))" "length Rs = n"
      "received w = received (line b1) @ concat Rs"
      "sent w = sent (line b1) @ concat (map crlf (concat (map round_text Rs)))"
      using main_rounds_ok [of fr buf "ram b1" "line b1" n] b1 by blast
    then have "main_until malta el ctz0 bios_end img pal fr buf n b = Some (Inr (b1\<lparr>ram := m, line := w\<rparr>))"
      using Inr r(1) by (simp add: main_until_def)
    then show ?thesis
      using b1 l by (intro disjI2 exI [of _ "b1\<lparr>ram := m, line := w\<rparr>"] exI [of _ Rs]) (simp add: start_text_def)
  qed
qed

section \<open>An example\<close>

text \<open>A board whose bus is not yet probed, on a line that always sends one letter.\<close>

definition example_board :: program where
  "example_board = \<lparr>plat = \<lparr>pmem = \<lparr>seglist = [], klog = []\<rparr>,
       vga = vga_example\<lparr>bus := (bus vga_example)\<lparr>pcidevs := [], devices := [], plog := []\<rparr>\<rparr>\<rparr>,
     ram = example_memory, line = \<lparr>env = \<lambda>_. 0x61, pos = 0, trace = []\<rparr>\<rparr>"

lemma example_board_ok:
  "pcidevs (bus (vga (plat example_board))) = []" "devices (bus (vga (plat example_board))) = []"
  "plog (bus (vga (plat example_board))) = []" "12 \<le> (32 :: int)"
  "unat (0x80010000 :: u32) = 2147483648 + 4096 * 16" "16 + seg_pages 4096 \<le> 4096"
  "responsive (line example_board)" "no_delete (line example_board)" "shell_ok example_frame 0x3000 (ram example_board)"
  "demo_part 0x100000 0x200000 \<inter> (region (f_line example_frame) 6 \<union> region (f_pad example_frame) 4) = {}"
  using example_shell_ok region_disjoint [of "0x2000" 6 "0x100000" "WIDTH * HEIGHT"] region_disjoint [of "0x2100" 4 "0x100000" "WIDTH * HEIGHT"]
    region_disjoint [of "0x2000" 6 "0x200000" 768] region_disjoint [of "0x2100" 4 "0x200000" 768]
  by (auto simp: example_board_def example_frame_def seg_pages_def demo_part_def WIDTH_def HEIGHT_def
    responsive_def no_delete_def data_available_def tx_empty_def)

end
