(* ===== verification/Defects.thy ===== *)
theory Defects
  imports Boot Splay
begin

text \<open>
  Where the code does not do what it means to: each lemma shows the behaviour of the model, which is the
  code's, at the place in question.
\<close>

section \<open>PCI and display\<close>

text \<open>\<open>pci_bus_dump\<close> indexes a table of 18 names with the class code of the device.\<close>

lemma class_code_unbounded: "18 \<le> unat (d_class_code d) \<Longrightarrow> dump_device d st = Inl Out_of_bounds"
  by (simp add: dump_device_def pci_class_code_def)

text \<open>The assertion of \<open>stdvga_pci_attach\<close> tests \<open>|\<close> where \<open>&\<close> was meant: it cannot fail.\<close>

lemma prefetchable_untested: "flags OR RF_PREFETCHABLE \<noteq> 0"
proof
  assume "flags OR RF_PREFETCHABLE = 0"
  then have "\<not> bit (flags OR RF_PREFETCHABLE) 0" by simp
  then show False by (simp add: RF_PREFETCHABLE_def bit_or_iff)
qed

text \<open>The third component of the palette is \<open>i / 255\<close>; the six bits the device gets of it are zero.\<close>

lemma blue_is_lost: "i < 256 \<Longrightarrow> palette_value i 2 div 4 = 0"
  by (auto simp: palette_value_def)

section \<open>The serial line\<close>

text \<open>Setting \<open>set_baud\<close> on a little endian machine writes bit 0 of the line control and leaves bit 7.\<close>

lemma set_baud_bit: "bit (put_set_baud True b old) 7 = bit old 7" "bit (put_set_baud True b old) 0 = b"
  by (simp_all add: put_set_baud_def bit_simps)

text \<open>The delete character goes back in the count and not in the buffer, where it is stored itself.\<close>

lemma delete_keeps_position:
  "uart16550_getc w = Some (0x7F, w1) \<Longrightarrow> i \<noteq> 0 \<Longrightarrow>
    gets_loop sz delim s i m w =
      Option.bind (emit uart16550_putc [8, 32, 8] w1) (gets_loop sz delim s (i - 1) (m(s := 0x7F)))"
  by (subst gets_loop.simps) (simp add: Let_def)

text \<open>Every conversion takes an argument, \<open>%%\<close> too; a length is printed as it is.\<close>

lemma percent_takes_argument: "format S (bytes ''%%%u'') [a, b] = Some (37 # dec_text (unat b))"
  by (simp add: bytes_def conv_text_def)

lemma long_not_known:
  "format S (bytes ''[pmem] pm_alloc {paddr:%lx size:%ld}\<newline>'') [a, n] =
    Some (bytes ''[pmem] pm_alloc {paddr:lx size:ld}\<newline>'')"
  by (simp add: bytes_def conv_text_def)

text \<open>The buffer for the offset has room for four digits: the separator and the fifth are stored below it.\<close>

lemma offset_overflows:
  "\<exists>m' p. itopow2 0x10000 4 0x1000 5 (\<lambda>_. 1) = Some (Inr (m', p)) \<and> m' 0xFFF = 95 \<and> p = 0xFFE"
  unfolding itopow2_def
  by (subst itopow2_loop.simps, simp add: digit_char_def bytes_def hex_digits_def)+

lemma dump_sends_nul: "D \<noteq> [] \<Longrightarrow> 0 \<in> set (dump_text D)"
proof -
  assume "D \<noteq> []"
  then have "0 \<in> set (step_text D 0)" "0 \<in> set [0..<length D]" by (auto simp: step_text_def byte_text_def)
  then show ?thesis by (auto simp: dump_text_def simp del: upt_Suc)
qed

section \<open>Memory\<close>

text \<open>\<open>memchr\<close> does not convert its argument to \<open>unsigned char\<close>.\<close>

lemma negative_not_found: "c < 0 \<Longrightarrow> memchr p c n m = None"
proof -
  assume "c < 0"
  then have "uint (m (p + of_nat i)) \<noteq> c" for i using uint_ge_0 [of "m (p + of_nat i)"] by linarith
  then show ?thesis by (simp add: memchr_ok find_None_iff)
qed

text \<open>Three pages: the block of two is queued as such, but its first page says it has size 1.\<close>

lemma odd_count_mismatch:
  "\<exists>seg. pm_seg_init 32 0 0x3000 0 = Inr seg \<and> freeq seg ! 1 = [0] \<and> psize (pages seg ! 0) = 1"
proof -
  have "case pm_seg_init 32 0 0x3000 0 of Inr seg \<Rightarrow> freeq seg ! 1 = [0] \<and> psize (pages seg ! 0) = 1 | _ \<Rightarrow> False"
    by code_simp
  then show ?thesis by (auto split: sum.splits)
qed

section \<open>Trees\<close>

text \<open>With a comparison of 0 the loop of \<open>SPLAY_MINMAX\<close> does nothing for ever.\<close>

lemma minmax_loop_stuck: "splay_minmax_loop val lp rp s = Some r \<Longrightarrow> val \<noteq> 0"
  by (rule splay_minmax_loop.raw_induct [where P = "\<lambda>val lp rp s r. val \<noteq> 0"]) (auto split: if_splits)

lemma minmax_stuck: "SPLAY_MINMAX 0 (s :: 'e spheap) = None"
proof -
  have "splay_minmax_loop 0 lp rp t = None" for lp rp and t :: "'e spheap"
    using minmax_loop_stuck [of 0 lp rp t] by (cases "splay_minmax_loop 0 lp rp t") auto
  then show ?thesis by (simp add: SPLAY_MINMAX_def)
qed

end
