(* ===== verification/Spec2Isabelle.thy ===== *)
theory Spec2Isabelle
  imports Board Board_Video Cpu_Leds Cpu_Bus Tailq Stailq Listq Circleq Physmem_Runs Physmem_Queues Tty_Correct Qsort_Correct Malta Vga_Demo Cp0_Correct Ordered_Set Shell Defects
begin

text \<open>
  r3k.vhdl: the MIPS processor under \<open>src/vhdl\<close>, and its firmware, the C code under \<open>src/bios\<close> that runs on
  it and on QEMU's Malta board, with the library code of \<open>src/bios/qemu-vga\<close> it is linked with.

  The processor (\<open>arch/cpu.vhdl\<close>) runs one instruction at a time through the stages of \<open>arch\<close>, clocked by
  \<open>Pipeliner.vhdl\<close>, on a memory bus (\<open>io\<close>) whose address decoder selects one device of \<open>memory_map.vhdl\<close>.

  The firmware. \<open>main\<close> (\<open>init.c\<close>) sets up the serial line (\<open>uart16550.c\<close>), on the Malta board lets
  \<open>platform_init\<close> (\<open>malta.c\<close>) build the physical memory segment (\<open>physmem.c\<close>), enumerate the PCI bus and
  assign its addresses (\<open>pci.c\<close> over \<open>gt64120.c\<close>, sorting with \<open>qsort.c\<close>) and attach the VGA device
  (\<open>stdvga.c\<close>), draws an image (\<open>vga-demo.c\<close>), and then reads lines from the console and dumps them
  (\<open>tty.c\<close>, with the number formatting and memory functions of \<open>string.c\<close>). The drivers keep their objects
  on the lists of \<open>queue.h\<close>; \<open>tree.h\<close> and \<open>m32c0.h\<close> are headers of the same library.

  The theories.
  \<^item> \<open>Prelude\<close>: machine words, memory, the faults and the result type \<open>fault + 'a\<close>, shared lemmas.
    \<open>Common\<close>: the macros of \<open>common.h\<close>.
  \<^item> \<open>Queue\<close>, \<open>Seq_Interface\<close>, \<open>Tailq\<close>, \<open>Slist\<close>, \<open>Stailq\<close>, \<open>Listq\<close>, \<open>Circleq\<close>: the five list families of
    \<open>queue.h\<close>. A heap maps cells to pointers, and a representation predicate relates it to the sequence
    a list holds. The locales \<open>head_list\<close>, \<open>tail_list\<close> and \<open>removable_list\<close> are the contracts the families
    share, by the table at the top of \<open>queue.h\<close>; each is interpreted on every family that offers it.
  \<^item> \<open>Rb_Heap\<close>, \<open>Rb_Search\<close>, \<open>Rb_Insert\<close>, \<open>Rb_Remove\<close>, \<open>Rb_Loops\<close>: the red-black trees of \<open>tree.h\<close>. The
    fields of the entries are maps; \<open>rbtree s t\<close> says that the heap \<open>s\<close> holds the tree \<open>t\<close> with its parent
    pointers and colours, \<open>holds s C t\<close> that it holds \<open>t\<close> at a position \<open>C\<close>, which is how the loops that climb
    are followed. \<open>Splay\<close>, \<open>Splay_Correct\<close>: the splay trees; \<open>work\<close> is the state of the top-down splay, the
    left part, the rest and the right part. \<open>Ordered_Set\<close>: the contract of an ordered set, as a locale, that
    both families of trees meet.
  \<^item> \<open>Buddy\<close>, \<open>Buddy_Coalesce\<close>: the abstract buddy system, with its invariant and what coalescing implies.
    \<open>Physmem\<close>: \<open>physmem.c\<close>. \<open>Physmem_Refine\<close>, \<open>Physmem_Reserve\<close>, \<open>Physmem_Init\<close>, \<open>Physmem_Manager\<close>: every
    operation of the code takes the view of a segment one abstract step further, without a fault.
    \<open>Physmem_Queues\<close>: the operations on segments once more, on the cells of \<open>queue.h\<close>, and their simulation.
    \<open>Physmem_Runs\<close>: the manager as a transition system over its clients' requests.
  \<^item> \<open>CString\<close>, \<open>CString_Correct\<close>: \<open>string.c\<close> and \<open>string.h\<close>. \<open>Uart\<close>: \<open>uart16550.c\<close>, as the sequence of its
    register accesses, with the locale \<open>console\<close> for what the code above relies on. \<open>Tty\<close>, \<open>Tty_Correct\<close>:
    \<open>tty.c\<close>; \<open>Hexdump_Correct\<close>: the text \<open>hexdump\<close> prints; \<open>Shell\<close>: the loop of \<open>init.c\<close>.
  \<^item> \<open>Qsort\<close>, \<open>Qsort_Correct\<close>: \<open>qsort.c\<close>, with the locale \<open>comparator\<close> for the laws of the comparison.
  \<^item> \<open>Mips\<close>: segments, the Malta memory map, the controller's registers, the board addresses of \<open>config.h\<close>.
    \<open>Pci_Bus\<close>: \<open>bus.h\<close>, \<open>pci.h\<close> and \<open>gt64120.c\<close>. \<open>Pci\<close>, \<open>Pci_Correct\<close>: \<open>pci.c\<close> and \<open>pci_ids.c\<close>. \<open>Stdvga\<close>:
    \<open>stdvga.c\<close>. \<open>Vga_Demo\<close>: \<open>vga-demo.c\<close>. \<open>Malta\<close>: \<open>malta.c\<close>, which composes them. \<open>Report\<close>: the
    messages of the PCI driver on the line. \<open>Boot\<close>: \<open>main\<close>. \<open>Defects\<close>: lemmas that show where the
    code departs from what it means to do.
  \<^item> \<open>Cp0_Regs\<close>, \<open>Cp0\<close>, \<open>Cp0_Correct\<close>: \<open>m32c0.h\<close>, \<open>regdef.h\<close> and \<open>cp0regdef.h\<close>: the macros as tables in the
    order of the headers, the access macros over a register file, and which of them agree.
  \<^item> \<open>Vhdl\<close>, \<open>Cpu_Parts\<close>, \<open>Cpu\<close>: the processor, from the logic values and types of the packages over the
    parts to the state of \<open>cpu.vhdl\<close> and what a rising edge does to it. \<open>Isa\<close>: the MIPS I instructions as the
    manual has them, the reference. \<open>Cpu_Exec\<close>: the eleven edges of any instruction; \<open>Cpu_Correct\<close>: that
    they do what the reference says, and programs; \<open>Cpu_Bus\<close>: the instructions that differ, and programs
    fetched over the bus. \<open>Sysbus\<close>: memory map, decoder and devices. \<open>Video\<close>: the video controller.
    \<open>Cpu_Demo\<close>, \<open>Cpu_Leds\<close>: the program that is built into the processor, and what the LEDs show of it for any
    data on the bus; \<open>Board\<close>: the same with the devices of \<open>io/mem.vhdl\<close> driving the data lines;
    \<open>Board_Video\<close>: the same with the video controller.

  Hardware. A clocked process is a function from the values before a rising edge to its new outputs, and
  \<open>cpu_edge\<close> applies all of them to the same state; processes that wait for their inputs and keep old values
  (the decoder, the arithmetic unit) are brought up to date after the edge by \<open>settle\<close>. Control signals have the
  nine values of \<open>std_logic\<close>; data words are machine words, without the undefined values they have before they
  are first written, so the initial ones are arbitrary. The argument \<open>dout t\<close> is the word on the data
  lines at edge \<open>t\<close>, \<open>sas\<close> is the generic \<open>SINGLE_ADDRESS_SPACE\<close>, \<open>code\<close> stands for the constant
  array of instructions. The number 11 in the statements is the last tick of \<open>Pipeliner.vhdl\<close>, 209 is 19
  instructions of 11 clocks. The address of the fetch unit, which nothing drives without \<open>sas\<close>, is arbitrary, or
  one that the video memory has, such as the 0 that \<open>numeric_std\<close> reads it as. An index outside of an array is the fault
  \<open>Out_of_bounds\<close>, as in a simulation; C29 leaves the video controller out, C31 shows where its index fails.

  State and effects. Memory is a map from 32-bit addresses to bytes. Volatile accesses of a device are a
  log, and the values its reads return are an argument (\<open>env\<close>, \<open>mreads\<close>), so that a statement holds for
  every behaviour of the device it does not restrict. Linked data is a map from fields to pointers. In
  \<open>Physmem\<close> and \<open>Pci\<close> the free queues and the device list are sequences, which \<open>Tailq\<close> shows such queues to
  be; \<open>Physmem_Queues\<close> has the free queues as linked cells. Pointers into arrays of the program are indices,
  and an access outside is the fault \<open>Out_of_bounds\<close>; \<open>panic\<close> is the fault \<open>Panicked\<close>; an
  access through \<open>NULL\<close> is \<open>Null_pointer\<close>, and in the trees, where no function returns an error, \<open>None\<close>. Machine integers are words of their width, or their value
  where they cannot wrap. What C leaves undefined is a fault or an argument (\<open>ctz0\<close>, the value of
  \<open>__builtin_ctz(0)\<close>).

  Termination. No loop is bounded by fuel. A loop that ends on every input is a \<open>function\<close> with a measure; one
  that may not end, because it waits for a device or follows pointers, is a \<open>partial_function (option)\<close>, where
  \<open>None\<close> is not returning; the properties then state that the outcome is \<open>Some\<close>.

  What the lemmas show. C1 to C8: no request of a client that gives back what it holds can fail, no page is
  handed out twice, the allocator refines the buddy system, and is refined by the linked queues it is written
  with. C9 and C36 to C38: the list macros act on sequences. C10 to C13: the memory and formatting functions.
  C14 to C18: the console, up to the loop of \<open>main\<close>. C19: sorting. C20 to C22: PCI. C23 and C24: VGA and the
  demonstration. C25: the whole of \<open>main\<close>. C26 to C28: the processor. C29 to C31: the processor with LEDs and
  buttons, the picture of the video controller, and the two together. C32 to C35: the trees. C39 and C40: the
  coprocessor header.
  The bounds in the statements are those of the code: a segment has fewer than 2^16 pages (\<open>PM_NQUEUES\<close> is 16)
  and a power of two of them (for others \<open>pm_seg_init\<close> writes sizes that disagree with its queues), \<open>qsort\<close> has a
  stack of 30 segments and is given less than 3 * 2^30 elements, the PCI table has seven devices.

  Not modelled. Of \<open>src/vhdl\<close>: the serial port, which nothing instantiates and whose next-state processes
  cannot run (\<open>uart_tx.vhdl\<close> waits for ever, \<open>uart_rx.vhdl\<close> never waits), \<open>exception.vhdl\<close>, \<open>DataMem.vhdl\<close> and
  \<open>dualport_bram.vhdl\<close>, which nothing uses, the ROM images, which are generated, the test benches and the debug
  printing. The start-up assembly (\<open>head.S\<close>, \<open>asmmacros.h\<close>) is neither C nor VHDL. \<open>src/toolchain\<close> holds the
  headers and binaries of the GCC cross compiler. Of \<open>common.h\<close> the attribute
  wrappers, \<open>container_of\<close> and the cleanup macros are compiler glue; \<open>assert\<close> and \<open>log\<close> are empty without
  \<open>DEBUG\<close>. Of \<open>m32c0.h\<close> the inline assembly of \<open>sync\<close>, \<open>wait\<close>, the shadow registers and the caches has no
  meaning in C, and the TLB intrinsics are declared there and defined in a library outside the repository.
  The static initialisers of \<open>queue.h\<close> and \<open>tree.h\<close> write what the \<open>INIT\<close> macros write.
\<close>

section \<open>The physical memory manager\<close>

text \<open>
  C1. Whatever sequence of segment additions, allocations, frees of blocks that are held, splits and
  dumps leads to a state, its segments are coalesced buddy systems, every page lies in exactly one free
  or handed-out block or is reserved, and no page is both free and handed out.
\<close>

theorem pm_run_safe:
  assumes "pm_run st As" "k < length As" "q < length (pages (seglist st ! k))"
  shows "pm_inv st As \<and> coalesced (seg_view (seglist st ! k)) \<and> page_owned (seglist st ! k) (As ! k) q \<and>
    bfree (seg_view (seglist st ! k)) \<inter> As ! k = {}"
proof -
  have inv: "pm_inv st As" by (rule pm_run_inv [OF assms(1)])
  note ok = pm_invD(2) [OF inv assms(2)]
  then show ?thesis using inv seg_ok_owned [OF ok assms(3)] by (simp add: seg_ok_def)
qed

theorem pm_run_safe_witness:
  "pm_run small_st1 [{(2, 1)}] \<and> page_owned (seglist small_st1 ! 0) {(2, 1)} 3"
proof -
  have "3 < length (pages (seglist small_st1 ! 0))"
    using seg_ok_block(1) [OF pm_invD(2) [OF small_inv1, of 0], of 2 1] by simp
  then show ?thesis using pm_run_safe [OF small_run1, of 0 3] small_run1 by simp
qed

text \<open>
  C2. Asking for 2^j pages hands out an aligned run of 2^j free pages of the first segment that has one,
  marks exactly these as used and keeps the invariant; it returns NULL, changing nothing, only when no
  segment has such a run.
\<close>

theorem pm_alloc_serves:
  assumes "pm_inv st As" "j < PM_NQUEUES"
  shows "(\<exists>st' k p. pm_alloc (2 ^ j) st = Inr (st', Some (k, p)) \<and> k < length As \<and>
      (\<forall>l < k. free_runs (seglist st ! l) j = {}) \<and> p \<in> free_runs (seglist st ! k) j \<and>
      seglist st' = (seglist st)[k := seglist st' ! k] \<and>
      free_pages (seg_view (seglist st' ! k)) = free_pages (seg_view (seglist st ! k)) - {p..<p + 2 ^ j} \<and>
      pm_inv st' (As[k := insert (p, j) (As ! k)])) \<or>
    (pm_alloc (2 ^ j) st = Inr (st, None) \<and> (\<forall>l < length As. free_runs (seglist st ! l) j = {}))"
  using pm_alloc_ok [OF assms] unfolding served_def blk_def fst_conv snd_conv by blast

theorem pm_alloc_serves_witness:
  "pm_inv small_st [{}] \<and> (\<exists>p. p \<in> free_runs small_seg 1 \<and> pm_alloc (2 ^ 1) small_st = Inr (small_st1, Some (0, p)))"
  using pm_alloc_serves [OF small_inv, of 1] small_alloc small_inv small_one(2) by (auto simp: PM_NQUEUES_def)

text \<open>
  C3. Freeing a block that was handed out terminates, gives exactly its pages back to the free pages of
  its segment, merges it with every free buddy and keeps the invariant.
\<close>

theorem pm_free_returns:
  assumes "pm_inv st As" "k < length As" "(p, j) \<in> As ! k"
  shows "\<exists>st'. pm_free (k, p) st = Some (Inr st') \<and> pm_inv st' (As[k := As ! k - {(p, j)}]) \<and>
    seglist st' = (seglist st)[k := seglist st' ! k] \<and> coalesced (seg_view (seglist st' ! k)) \<and>
    free_pages (seg_view (seglist st' ! k)) = {p..<p + 2 ^ j} \<union> free_pages (seg_view (seglist st ! k))"
proof -
  obtain st' where r: "pm_free (k, p) st = Some (Inr st')" "pm_inv st' (As[k := As ! k - {(p, j)}])"
    "seglist st' = (seglist st)[k := seglist st' ! k]"
    "free_pages (seg_view (seglist st' ! k)) = blk (p, j) \<union> free_pages (seg_view (seglist st ! k))"
    using pm_free_ok [OF assms] by blast
  have "coalesced (seg_view (seglist st' ! k))" using pm_invD(2) [OF r(2), of k] assms(2) by (simp add: seg_ok_def)
  then show ?thesis using r unfolding blk_def fst_conv snd_conv by blast
qed

theorem pm_free_returns_witness:
  "\<exists>st'. pm_free (0, 2) small_st1 = Some (Inr st') \<and> pm_inv st' [{}]"
  using pm_free_returns [OF small_inv1, of 0 2 1] by auto

text \<open>
  C4. Freeing what was just allocated restores the free blocks of every segment, block by block.
\<close>

theorem pm_alloc_free_restores:
  assumes "pm_inv st As" "j < PM_NQUEUES" "pm_alloc (2 ^ j) st = Inr (st', Some ptr)"
  shows "\<exists>st''. pm_free ptr st' = Some (Inr st'') \<and> pm_inv st'' As \<and>
    map (\<lambda>s. bfree (seg_view s)) (seglist st'') = map (\<lambda>s. bfree (seg_view s)) (seglist st)"
  by (rule pm_alloc_free [OF assms])

theorem pm_alloc_free_restores_witness:
  "\<exists>st''. pm_free (0, 2) small_st1 = Some (Inr st'') \<and> pm_inv st'' [{}] \<and>
    map (\<lambda>s. bfree (seg_view s)) (seglist st'') = map (\<lambda>s. bfree (seg_view s)) (seglist small_st)"
  using pm_alloc_free_restores [OF small_inv _ small_alloc] by (simp add: PM_NQUEUES_def)

text \<open>
  C5. Reserving the pages from s up to e terminates, takes exactly these out of the free pages, flags
  those that were free as reserved and leaves the blocks handed out alone.
\<close>

theorem pm_seg_reserve_removes:
  assumes "seg_ok seg A" "at_page seg start s" "at_page seg en e" "s < e"
  shows "\<exists>seg'. pm_seg_reserve seg start en = Some (Inr seg') \<and> seg_ok seg' A \<and>
    seg_start seg' = seg_start seg \<and> seg_end seg' = seg_end seg \<and>
    free_pages (seg_view seg') = free_pages (seg_view seg) - {s..<e} \<and>
    (\<forall>q. bres (seg_view seg') q \<longleftrightarrow> bres (seg_view seg) q \<or> q \<in> free_pages (seg_view seg) \<inter> {s..<e})"
  using seg_reserve [OF assms] by (auto simp: seg_place_def)

theorem pm_seg_reserve_removes_witness:
  "\<exists>seg'. pm_seg_reserve small_seg 0x1000 0x2000 = Some (Inr seg') \<and> free_pages (seg_view seg') = {0..<4} - {1..<2}"
  using pm_seg_reserve_removes [of small_seg "{}" "0x1000" 1 "0x2000" 2] small_seg_ok by (auto simp: at_page_def)

text \<open>
  C6. The free queues as sequences are refined by the linked queues of queue.h: initialising,
  allocating, freeing and reserving with the TAILQ macros on the cells gives the result the operations
  on sequences give, and the cells hold the resulting sequences.
\<close>

theorem pm_queues_linked:
  assumes "seg_inv seg A" "queued seg h"
  shows "(j < PM_NQUEUES \<longrightarrow> (\<exists>seg' h' res. pm_alloc_from_seg seg (2 ^ j) = Inr (seg', res) \<and>
      tq_alloc_from_seg h (2 ^ j) = Inr (h', res) \<and> queued seg' h')) \<and>
    (\<forall>(p, k) \<in> A. \<exists>seg' h'. pm_free_from_seg seg p = Some (Inr seg') \<and>
      tq_free_from_seg h p = Some (Inr h') \<and> queued seg' h') \<and>
    (\<forall>seg'. pm_seg_reserve seg a b = Some (Inr seg') \<longrightarrow> (\<exists>h'. tq_seg_reserve h a b = Some (Inr h') \<and> queued seg' h')) \<and>
    (m < PM_NQUEUES \<and> int m \<le> ctz0 \<and> unat b = unat a + 4096 * 2 ^ m \<longrightarrow>
      (\<exists>seg' h'. pm_seg_init ctz0 a b off = Inr seg' \<and> tq_seg_init ctz0 a b off s = Inr h' \<and> queued seg' h'))"
  using tq_allocates [OF assms] tq_free_from_seg_ok [OF assms] tq_seg_reserve_ok [OF assms] tq_initialises
  by blast

theorem pm_queues_linked_witness:
  "\<exists>seg h seg' h' res. tq_seg_init 32 0 0x10000 0 empty_heap = Inr h \<and> queued seg h \<and>
    pm_alloc_from_seg seg (2 ^ 1) = Inr (seg', res) \<and> tq_alloc_from_seg h (2 ^ 1) = Inr (h', res) \<and> queued seg' h'"
proof -
  obtain seg where s: "pm_seg_init 32 0 0x10000 0 = Inr seg" "seg_inv seg {}"
    using pm_seg_init_ok [of 4 32 "0x10000" 0 0] by (auto simp: PM_NQUEUES_def)
  obtain h where "tq_seg_init 32 0 0x10000 0 empty_heap = Inr h" "queued seg h"
    using tq_seg_init_ok [OF s(1) seg_inv_separated [OF s(2)]] by blast
  then show ?thesis using pm_queues_linked [OF s(2), of h 1] by (auto simp: PM_NQUEUES_def)
qed

text \<open>
  C7. Freeing a page that is free or reserved panics instead of corrupting the queues.
\<close>

theorem pm_free_twice_panics:
  assumes "seg_ok seg A" "q < length (pages seg)" "\<forall>b \<in> A. q \<notin> blk b"
  shows "pm_free_from_seg seg q = Some (Inl (Panicked
    (if bres (seg_view seg) q then ''trying to free reserved page: %p'' else ''page is already free: %p'')))"
proof -
  have inv: "seg_inv seg A" and bi: "buddy_inv (seg_view seg) A {}" and sh: "seg_shape seg"
    using assms(1) by (simp_all add: seg_ok_def seg_inv_def)
  have q: "q < unat (npages seg)" using assms(2) sh by (simp add: seg_shape_def)
  have "q \<in> free_pages (seg_view seg)" if "\<not> bres (seg_view seg) q"
    using buddy_invD(10) [OF bi, of q] assms(2,3) that bn_view [OF sh] unfolding free_pages_def by auto
  then show ?thesis using free_reserved_panics [OF inv q] free_free_panics [OF inv] by auto
qed

theorem pm_free_twice_panics_witness:
  "pm_free_from_seg small_seg 3 = Some (Inl (Panicked ''page is already free: %p''))"
proof -
  have "free_pages (seg_view small_seg) \<subseteq> {0..<length (pages small_seg)}"
    using free_page_bound(1) [of "seg_view small_seg" "{}" "{}"] bn_view [of small_seg] small_seg_ok(1)
    by (auto simp: seg_ok_def seg_inv_def)
  then have "3 < length (pages small_seg)" using small_seg_ok(4) by auto
  moreover have "\<not> bres (seg_view small_seg) 3"
    using free_page_bound(3) [of "seg_view small_seg" "{}" "{}" 3] small_seg_ok by (simp add: seg_ok_def seg_inv_def)
  ultimately show ?thesis using pm_free_twice_panics [OF small_seg_ok(1), of 3] by simp
qed



section \<open>Lists\<close>

text \<open>
  C9. Each TAILQ macro performs on the heap of pointer cells the operation on sequences it is named
  after: insertion at both ends and beside an element, removal, the two neighbours of an element and
  traversal in both directions.
\<close>

theorem tailq_refines:
  assumes "tailq s h (as @ x # bs)" "y \<notin> set (as @ x # bs)"
  shows "tailq (TAILQ_INSERT_HEAD h y s) h (y # as @ x # bs) \<and> tailq (TAILQ_INSERT_TAIL h y s) h (as @ x # bs @ [y]) \<and>
    tailq (TAILQ_INSERT_AFTER h x y s) h (as @ x # y # bs) \<and> tailq (TAILQ_INSERT_BEFORE x y s) h (as @ y # x # bs) \<and>
    tailq (TAILQ_REMOVE h x s) h (as @ bs) \<and> TAILQ_NEXT x s = head_opt bs \<and>
    TAILQ_PREV x s = (if as = [] then None else Some (last as)) \<and>
    TAILQ_FOREACH h s = Some (as @ x # bs) \<and> TAILQ_FOREACH_REVERSE h s = Some (rev (as @ x # bs))"
  using TAILQ_INSERT_HEAD_repr [OF assms] TAILQ_INSERT_TAIL_repr [OF assms] TAILQ_INSERT_AFTER_repr [OF assms]
    TAILQ_INSERT_BEFORE_repr [OF assms] TAILQ_REMOVE_repr [OF assms(1)] tailq.nxt_eq [OF assms(1)]
    TAILQ_PREV_eq [OF assms(1)] tailq.foreach_visits [OF assms(1)] TAILQ_FOREACH_REVERSE_eq [OF assms(1)]
  by (simp add: TAILQ_FOREACH_def)

theorem tailq_refines_witness:
  "let s = TAILQ_INSERT_TAIL 0 2 (TAILQ_INSERT_TAIL 0 1 (TAILQ_INIT 0 (empty_heap :: (nat, nat) qheap)))
   in tailq s 0 [1, 2] \<and> tailq (TAILQ_INSERT_BEFORE 2 3 s) 0 [1, 3, 2] \<and> TAILQ_FOREACH_REVERSE 0 s = Some [2, 1]"
proof -
  have 1: "tailq (TAILQ_INSERT_TAIL 0 1 (TAILQ_INIT 0 (empty_heap :: (nat, nat) qheap))) 0 ([] @ [1])"
    by (rule TAILQ_INSERT_TAIL_repr [OF tailq_init]) simp
  have 2: "tailq (TAILQ_INSERT_TAIL 0 2 (TAILQ_INSERT_TAIL 0 1 (TAILQ_INIT 0 (empty_heap :: (nat, nat) qheap)))) 0 ([1] @ 2 # [])"
    using TAILQ_INSERT_TAIL_repr [OF 1, of 2] by simp
  show ?thesis using tailq_refines [OF 2, of 3] 2 by (simp add: Let_def)
qed

section \<open>Strings and memory\<close>

text \<open>
  C10. The unrolled loop of memcpy (Duff's device) is a block copy for regions that do not overlap the
  wrong way; memmove, which picks a direction, is one whether or not the regions overlap: the bytes of
  the source, as they were before, are at the destination, every other byte is left alone, and the
  destination is returned. The bound on the length is where the count of rounds would wrap around.
\<close>

theorem memmove_copies:
  assumes "unat len \<le> 2 ^ 32 - 8"
  shows "(unat dst + unat len \<le> 2 ^ 32 \<longrightarrow> unat src + unat len \<le> 2 ^ 32 \<longrightarrow>
      memmove dst src len m = (\<lambda>a. if unat (a - dst) < unat len then m (src + (a - dst)) else m a, dst)) \<and>
    (dst = src \<or> unat len \<le> unat (dst - src) \<longrightarrow>
      memcpy dst src len m = (\<lambda>a. if unat (a - dst) < unat len then m (src + (a - dst)) else m a, dst))"
  using memmove_ok [OF assms] memcpy_ok [OF assms] by (simp add: block_copy_def copies_up_def)

theorem memmove_copies_witness:
  "fst (memmove 1 0 3 (\<lambda>a. ucast a)) 3 = 2 \<and> snd (memmove 1 0 3 (\<lambda>a. ucast a)) = 1 \<and>
    fst (memcpy 100 0 19 (\<lambda>a. ucast a)) 118 = 18 \<and> fst (memcpy 100 0 19 (\<lambda>a. ucast a)) 119 = 119"
  using memmove_copies [of 3 1 0 "\<lambda>a. ucast a"] memmove_copies [of 19 100 0 "\<lambda>a. ucast a"] by simp

text \<open>
  C11. memcmp is zero exactly for equal blocks and negative exactly when the first block is
  lexicographically smaller as unsigned bytes; memset sets the bytes of the block and no other; memchr
  returns the address of the first byte of the block that equals the character, or NULL when none does.
\<close>

theorem memcmp_orders:
  "(memcmp s1 s2 n m = 0 \<longleftrightarrow> mem_bytes m s1 (unat n) = mem_bytes m s2 (unat n)) \<and>
   (memcmp s1 s2 n m < 0 \<longleftrightarrow> (mem_bytes m s1 (unat n), mem_bytes m s2 (unat n)) \<in> lex {(x, y). x < y}) \<and>
   memset dst ch n m = (\<lambda>a. if unat (a - dst) < unat n then of_int ch else m a, dst) \<and>
   memchr p c n m = map_option (\<lambda>i. p + of_nat i) (List.find (\<lambda>i. uint (m (p + of_nat i)) = c) [0..<unat n])"
  by (simp add: memcmp_def memcmp_loop_ok memset_ok memchr_ok)

text \<open>
  C12. itodec writes, inside its buffer only, a string of decimal digits without leading zeros whose
  value is the number.
\<close>

theorem itodec_prints:
  assumes "11 \<le> unat sz"
  shows "\<exists>m' p cs. itodec num s sz m = (m', p) \<and> str_at m' p cs \<and> dec_value cs = unat num \<and>
    (\<forall>c \<in> set cs. is_digit c) \<and> cs \<noteq> [] \<and> (num \<noteq> 0 \<longrightarrow> hd cs \<noteq> 48) \<and>
    (\<forall>b. \<not> unat (b - s) < unat sz \<longrightarrow> m' b = m b)"
  by (rule itodec_ok [OF assms, of num s m]) (metis dec_text_ok(1-4) unat_eq_zero)

theorem itodec_prints_witness:
  "\<exists>m' p cs. itodec 1972 0x100 64 (\<lambda>_. 0) = (m', p) \<and> str_at m' p cs \<and> dec_value cs = 1972"
  using itodec_prints [of 64 1972 "0x100" "\<lambda>_. 0"] by auto



section \<open>The serial line\<close>

text \<open>
  C14. On a line that becomes ready again and again, putc and getc return; putc sends its byte, with a
  carriage return after a newline, and getc returns the next byte received with carriage returns turned
  into newlines.
\<close>

theorem uart_exchange:
  assumes "responsive w"
  shows "(\<exists>w'. uart16550_putc ch w = Some w' \<and> responsive w' \<and> sent w' = sent w @ crlf ch \<and> received w' = received w) \<and>
    (\<exists>c w'. uart16550_getc w = Some (c, w') \<and> responsive w' \<and> sent w' = sent w \<and> received w' = received w @ [c] \<and> c \<noteq> 13)"
proof -
  obtain c w' where g: "uart16550_getc w = Some (c, w')" "responsive w'" "sent w' = sent w" "received w' = received w @ [c]"
    using getc_ok [OF assms] by blast
  have "c \<noteq> 13" using g(1) by (auto simp: uart16550_getc_def reg_read_def Let_def bind_eq_Some_conv split: if_splits)
  then show ?thesis using putc_ok [OF assms] g by blast
qed

theorem uart_exchange_witness:
  "\<exists>w'. uart16550_putc 10 \<lparr>env = \<lambda>_. 0x61, pos = 0, trace = []\<rparr> = Some w' \<and> sent w' = [10, 13]"
proof -
  have "responsive \<lparr>env = \<lambda>_. 0x61, pos = 0, trace = []\<rparr>"
    by (auto simp: responsive_def data_available_def tx_empty_def)
  from uart_exchange [OF this, of 10] show ?thesis by (auto simp: sent_def crlf_def)
qed

text \<open>
  C15. vprintf prints the text its format describes, each conversion with its argument, and changes no
  memory but its own 64-byte buffer, when the line responds and the format and the strings printed lie
  outside that buffer.
\<close>

theorem vprintf_formats:
  assumes "str_at m fmt cs" "clear_of vbuf 64 fmt (length cs)" "strings_at m vbuf S (used_strings cs args)"
    "responsive w" "format S cs args = Some res"
  shows "\<exists>m' w'. vprintf vbuf fmt args m w = Some (Inr (m', w')) \<and> (\<forall>b. \<not> unat (b - vbuf) < 64 \<longrightarrow> m' b = m b) \<and>
    responsive w' \<and> sent w' = sent w @ concat (map crlf res) \<and> received w' = received w"
  using vprintf_ok [OF assms] by (auto simp: prints_to_def outside_def serial.prints_def)

theorem vprintf_formats_witness:
  "\<exists>m' w'. vprintf 0x1000 0 [42] (store_bytes 0 (bytes ''n=%u'' @ [0]) (\<lambda>_. 1)) \<lparr>env = \<lambda>_. 0x61, pos = 0, trace = []\<rparr> = Some (Inr (m', w')) \<and>
    sent w' = bytes ''n='' @ dec_text 42"
proof -
  let ?m = "store_bytes 0 (bytes ''n=%u'' @ [0]) (\<lambda>_. 1)"
  have r: "responsive \<lparr>env = \<lambda>_. 0x61, pos = 0, trace = []\<rparr>"
    by (auto simp: responsive_def data_available_def tx_empty_def)
  have s: "str_at ?m 0 (bytes ''n=%u'')" by code_simp
  have "length (bytes ''n=%u'') = 4" by code_simp
  moreover have "i = 0 \<or> i = 1 \<or> i = 2 \<or> i = 3 \<or> i = 4" if "i \<le> 4" for i :: nat using that by auto
  ultimately have c: "clear_of 0x1000 64 0 (length (bytes ''n=%u''))" unfolding clear_of_def by fastforce
  have u: "strings_at ?m 0x1000 (\<lambda>_. []) (used_strings (bytes ''n=%u'') [42])" by code_simp
  have f: "format (\<lambda>_. []) (bytes ''n=%u'') [42] = Some (bytes ''n='' @ dec_text 42)" by code_simp
  have "concat (map crlf (bytes ''n='' @ dec_text 42)) = bytes ''n='' @ dec_text 42" by code_simp
  then show ?thesis using vprintf_formats [OF s c u r f] by (auto simp: sent_def)
qed



text \<open>
  C17. hexdump of up to 2^16 bytes returns and prints the dump of the bytes: per sixteen bytes their
  offset in four digits, two digits for each and the text column with dots for what is not printable,
  the last line filled with blanks; the bytes and its literals are unchanged. The arrays it uses must
  lie apart. It also sends the NUL that ends each number.
\<close>

theorem hexdump_prints:
  assumes "frame_ok fr pc n" "literals fr m" "0 < n" "n \<le> 16 ^ 4" "pc \<noteq> 0" "responsive w"
  shows "\<exists>m' w'. hexdump fr pc (of_nat n) m w = Some (Inr (m', w')) \<and> same_on (fixed_part fr pc n) m m' \<and>
    responsive w' \<and> received w' = received w \<and>
    sent w' = sent w @ concat (map crlf (dump_text (mem_bytes m pc n)))"
  using hexdump_ok [OF assms] by (auto simp: serial.prints_def)

theorem hexdump_prints_witness:
  "\<exists>m' w'. hexdump example_frame 0x3000 2 example_memory \<lparr>env = \<lambda>_. 0x61, pos = 0, trace = []\<rparr> = Some (Inr (m', w')) \<and>
    sent w' = concat (map crlf (dump_text [0, 1]))"
proof -
  have r: "responsive \<lparr>env = \<lambda>_. 0x61, pos = 0, trace = []\<rparr>"
    by (auto simp: responsive_def data_available_def tx_empty_def)
  have "mem_bytes example_memory 0x3000 2 = [0, 1]" unfolding example_memory_def by code_simp
  then show ?thesis
    using hexdump_prints [OF frame_ok_mono [OF example_frame_ok] example_literals _ _ _ r, of 2] by (auto simp: sent_def)
qed



section \<open>Sorting\<close>

text \<open>
  C19. For a comparison that is antisymmetric in sign and transitive, qsort returns, never overflows its
  stack of 30 segments, and leaves a sorted permutation of the array.
\<close>

theorem qsort_sorts:
  assumes "\<And>x y. cmp x y \<le> 0 \<longleftrightarrow> 0 \<le> cmp y x" "\<And>x y z. cmp x y \<le> 0 \<Longrightarrow> cmp y z \<le> 0 \<Longrightarrow> cmp x z \<le> 0"
    and "width \<noteq> 0" "length xs < 3 * 2 ^ 30"
  shows "\<exists>ys. qsort cmp width xs = Some (Inr ys) \<and> mset ys = mset xs \<and> sorted_wrt (\<lambda>x y. cmp x y \<le> 0) ys"
proof -
  have "comparator cmp" by unfold_locales (rule assms(1), rule assms(2))
  then show ?thesis by (rule comparator.qsort_ok [OF _ assms(3,4)])
qed

theorem qsort_sorts_witness:
  "\<exists>ys. qsort (\<lambda>x y :: int. x - y) 4 [3, 1, 2] = Some (Inr ys) \<and> mset ys = mset [3, 1, 2] \<and> sorted_wrt (\<lambda>x y. x - y \<le> 0) ys"
  using qsort_sorts [of "\<lambda>x y :: int. x - y" 4 "[3, 1, 2]"] by fastforce

section \<open>Devices\<close>





text \<open>
  C22. When the regions of the devices fit the two windows of the bus, the assignment places every
  region inside its window, aligned to its size and of its size, and no two regions of a kind overlap.
\<close>

theorem pci_places:
  assumes "pci_ready st"
    and "total_space RT_IOPORTS st \<le> window_size RT_IOPORTS" "total_space RT_MEMORY st \<le> window_size RT_MEMORY"
  shows "\<exists>st'. pci_bus_assign_space el st = Some (Inr st') \<and>
    (\<forall>p \<in> set (all_bars st). placed_bar (bar_at (pcidevs st) p) (bar_at (pcidevs st') p)) \<and>
    (\<forall>p \<in> set (all_bars st). \<forall>q \<in> set (all_bars st).
      p \<noteq> q \<and> r_type (bar_at (pcidevs st) p) = r_type (bar_at (pcidevs st) q) \<longrightarrow>
      r_end (bar_at (pcidevs st') p) < r_start (bar_at (pcidevs st') q) \<or>
      r_end (bar_at (pcidevs st') q) < r_start (bar_at (pcidevs st') p))"
  by (rule pci_bus_assign_space_ok [OF assms])

theorem pci_places_witness:
  "pci_ready two_bars \<and> (\<exists>st'. pci_bus_assign_space True two_bars = Some (Inr st') \<and>
    placed_bar (bar_at (pcidevs two_bars) (0, 1)) (bar_at (pcidevs st') (0, 1)))"
  using pci_places [OF two_bars_ready two_bars_fit, of True] two_bars_ready unfolding two_bars_all by auto

text \<open>
  C23. Attaching to QEMU's VGA device returns 1 and makes exactly these accesses: the command register
  is enabled, overwriting its whole word, the resolution and depth are set, the palette is enabled and
  the display switched on keeping its other bits; the device is then the one the driver writes to.
\<close>

theorem vga_attaches:
  assumes "d_vendor_id pci = VGA_QEMU_STDVGA_VENDOR_ID" "d_device_id pci = VGA_QEMU_STDVGA_DEVICE_ID"
    and "pci = pcidevs (bus s) ! d" "d < length (pcidevs (bus s))" "1 < length (d_bars pci)"
    and "r_bus_space (d_bars pci ! 1) = GT_PCI_BUS_SPACE" "a_bus (d_addr pci) = 0"
  shows "\<exists>s' e data data'. stdvga_pci_attach el d w h s = Inr (1, s') \<and>
    stdvga s' = \<lparr>vg_mem = Some (d, 0), vg_io = Some (d, 1), vg_width = w, vg_height = h, vg_hooks = True\<rparr> \<and>
    pcidevs (bus s') = pcidevs (bus s) \<and>
    mlog (hw (bus s')) = mlog (hw (bus s)) @ command_log el (d_addr pci) data data' @
      attach_log (d_bars pci ! 1) w h e"
  by (rule attach_ok [OF assms])

theorem vga_attaches_witness:
  "\<exists>s' e data data'. stdvga_pci_attach True 0 640 480 vga_example = Inr (1, s') \<and>
    mlog (hw (bus s')) = command_log True \<lparr>a_bus = 0, a_device = 18, a_function = 0\<rparr> data data' @ attach_log vga_io_bar 640 480 e"
  using vga_attaches [of "pcidevs (bus vga_example) ! 0" vga_example 0 True 640 480] by (auto simp: vga_example_simps)

text \<open>
  C24. The demonstration writes the 256 palette entries, computes every pixel of the 640 by 480 image
  with the shader but for the colour scale in the first seven rows, and copies the image byte by byte to
  the frame buffer.
\<close>

theorem demo_shows:
  assumes "r_bus_space (io_bar (dvga st)) = GT_PCI_BUS_SPACE" "r_bus_space (mem_bar (dvga st)) = GT_PCI_BUS_SPACE"
  shows "\<exists>st'. demo shader img pal st = Inr st' \<and>
    (\<forall>x < WIDTH. \<forall>y < HEIGHT. dmem st' (at_pixel img x y) =
      (if y \<le> 6 then scale_value x y else shader (of_nat x) (of_nat y))) \<and>
    dvga st' = logged (dvga st) (palette_log (io_bar (dvga st)) @
      map (\<lambda>k. MWr 1 (MIPS_PHYS_TO_KSEG1 (r_start (mem_bar (dvga st))) + of_nat k) (ucast (dmem st' (img + of_nat k))))
        [0..<unat (vg_width (stdvga (dvga st)) * vg_height (stdvga (dvga st)))])"
  by (rule demo_ok [OF assms])

theorem demo_shows_witness:
  "\<exists>st'. demo sierpinski 0x100000 0x200000 \<lparr>dmem = \<lambda>_. 0, dvga = vga_example\<rparr> = Inr st' \<and>
    dmem st' (at_pixel 0x100000 9 100) = sierpinski 9 100"
proof -
  have "9 < WIDTH" "100 < HEIGHT" by (simp_all add: WIDTH_def HEIGHT_def)
  then show ?thesis
    using demo_shows [of "\<lparr>dmem = \<lambda>_. 0, dvga = vga_example\<rparr>" sierpinski "0x100000" "0x200000"]
    by (fastforce simp: vga_example_simps)
qed

section \<open>The program\<close>



section \<open>The processor\<close>

text \<open>
  C26. Switched on and reset, the processor executes the program in its instruction memory as the MIPS
  manual says, one instruction every eleven clocks: after 11 n clocks its registers and program counter
  are those of the reference after n instructions, as long as these are among the ones it implements and
  none of them traps; and from the fifth clock of each instruction to its last, and at no other time,
  the bus carries the access of that instruction.
\<close>

theorem cpu_runs_programs:
  assumes "power_on s0" "code \<noteq> []" "isa_run code (\<lambda>k. dout (11 * k + 5)) n boot_state = Some st"
  shows "\<exists>s t. cpu_edge False code S1 d (cpu_reset s0) = Inr s \<and> cpu_run False code dout (11 * n) s = Inr t \<and>
    rf t = gpr st \<and> new_pc t = ipc st \<and>
    (\<forall>m < n. \<exists>stm i. isa_run code (\<lambda>k. dout (11 * k + 5)) m boot_state = Some stm \<and> next_instr code stm = Some i \<and>
       instruction_bus (\<lambda>k. cpu_run False code dout (11 * m + k) s) i stm)"
proof -
  have f: "fetch_ok False code BOOT_ADDR" using assms(2) by (simp add: fetch_ok_def BOOT_ADDR_def vtou_def)
  obtain s where s: "cpu_edge False code S1 d (cpu_reset s0) = Inr s" "represents s boot_state" "read_addr (fetch s) = BOOT_ADDR"
    using boot [OF assms(1) f] by blast
  show ?thesis using program_run [OF s(2) _ assms(3)] f s(1,3) by (fastforce simp: represents_def)
qed

theorem cpu_runs_programs_witness:
  "\<exists>s t. cpu_edge False [0x2402001f, 0xac020010, 0x08000000] S1 0 (cpu_reset cold_cpu) = Inr s \<and>
    cpu_run False [0x2402001f, 0xac020010, 0x08000000] (\<lambda>_. 0) (11 * 3) s = Inr t \<and> rf t 2 = 31 \<and> new_pc t = 0"
proof -
  have d: "decode 0x2402001f = Some (Itype I_ADDIU 2 0 31)" "decode 0xac020010 = Some (Store S_SW 2 0 16)"
    "decode 0x08000000 = Some (Jump 0)" by code_simp+
  have "isa_run [0x2402001f, 0xac020010, 0x08000000] (\<lambda>k. 0) 3 boot_state = Some \<lparr>gpr = (\<lambda>_. 0)(2 := 31), ipc = 0\<rparr>"
    by (simp add: isa_run_numeral boot_state_def BOOT_ADDR_def isa_next_def fetched_def d set_gpr_def ea_def abs_target_def)
  from cpu_runs_programs [OF cold_cpu_on _ this, of 0] show ?thesis by auto
qed

text \<open>
  C27. The instructions the processor implements differently from the manual, and what it does for them:
  lw reads the bus and leaves its register as it is; a shift moves the shift amount, or the register
  that should hold it, by the low six bits of the operand; bltzal and bgezal branch and do not link.
\<close>

theorem cpu_deviates:
  assumes "represents s st" "fetch_ok sas code (read_addr (fetch s))" "fetch_ok sas code (ipc st)"
    and "decode (fetch_word sas code (ipc st) (dout 1)) = Some i" "\<not> implemented i"
  shows "\<exists>s'. cpu_run sas code dout 11 s = Inr s' \<and> rf s' = gpr (deviant i st) \<and> new_pc s' = ipc (deviant i st) \<and> ready s' \<and>
    (\<forall>f rt rs off. i = Load f rt rs off \<longrightarrow> f = L_LW \<and> rf s' = gpr st \<and>
       (\<forall>k < 11. 5 \<le> k \<longrightarrow> (\<exists>t. cpu_run sas code dout k s = Inr t \<and> top_addr (cpu_bus t) = ea rs off st))) \<and>
    (\<forall>f rd rt sa. i = Sh f rd rt sa \<longrightarrow> rf s' rd = sh_val f (ucast sa) (unat (gpr st rt AND 63))) \<and>
    (\<forall>f rd rt rs. i = Shv f rd rt rs \<longrightarrow> rf s' rd = sh_val f (gpr st rs) (unat (gpr st rt AND 63))) \<and>
    (\<forall>c l rs off. i = Bz c l rs off \<longrightarrow> l \<and> rf s' = gpr st \<and>
       new_pc s' = (if zcond_val c (gpr st rs) then rel_target (ipc st) off else ipc st + 4))"
proof -
  obtain s' where s': "cpu_run sas code dout 11 s = Inr s'" "represents s' (deviant i st)"
    "instruction_bus (\<lambda>k. cpu_run sas code dout k s) i st"
    using word_deviates [of s st sas code dout i] assms by blast
  then show ?thesis using assms(5)
    by (cases i) (fastforce simp: represents_def set_gpr_def instruction_bus_def)+
qed

theorem cpu_deviates_witness:
  "decode 0x00021100 = Some (Sh SH_SLL 2 2 4) \<and>
    (\<exists>s s'. cpu_edge False [0x00021100] S1 0 (cpu_reset cold_cpu) = Inr s \<and> cpu_run False [0x00021100] (\<lambda>_. 0) 11 s = Inr s' \<and>
      rf s 2 = 0 \<and> rf s' 2 = 4)"
proof -
  have d: "decode 0x00021100 = Some (Sh SH_SLL 2 2 4)" by code_simp
  have f: "fetch_ok False [0x00021100] BOOT_ADDR" by (simp add: fetch_ok_def BOOT_ADDR_def vtou_def)
  obtain s where s: "cpu_edge False [0x00021100] S1 0 (cpu_reset cold_cpu) = Inr s" "represents s boot_state"
    "read_addr (fetch s) = BOOT_ADDR" using boot [OF cold_cpu_on f] by blast
  then have "decode (fetch_word False [0x00021100] (ipc boot_state) 0) = Some (Sh SH_SLL 2 2 4)"
    using d by (simp add: fetch_word_def boot_state_def BOOT_ADDR_def vtou_def)
  then show ?thesis
    using cpu_deviates [of s boot_state False "[0x00021100]" "\<lambda>_. 0" "Sh SH_SLL 2 2 4"] s f d
    by (auto simp: represents_def boot_state_def)
qed

text \<open>
  C28. With instructions coming over the bus, the word asked for at one program counter is executed at
  the next one: the word at the boot address is executed twice, at the boot address and at the address
  after it, every later word at an address one further, so that an instruction after a jump is still
  executed.
\<close>

theorem bus_fetch_lags:
  assumes "power_on s0"
    and "lagged_run (\<lambda>k. dout (11 * k + 1)) (\<lambda>k. dout (11 * k + 5)) n (BOOT_ADDR, boot_state) = Some (q', st')"
  shows "\<exists>s t. cpu_edge True code S1 d (cpu_reset s0) = Inr s \<and> cpu_run True code dout (11 * n) s = Inr t \<and>
    rf t = gpr st' \<and> new_pc t = ipc st' \<and> read_addr (fetch t) = q' \<and>
    (\<forall>m < n. \<exists>x. lagged_run (\<lambda>k. dout (11 * k + 1)) (\<lambda>k. dout (11 * k + 5)) m (BOOT_ADDR, boot_state) = Some x \<and>
       asks_for (fst x) (cpu_run True code dout (11 * m + 1) s))"
proof -
  obtain s where s: "cpu_edge True code S1 d (cpu_reset s0) = Inr s" "represents s boot_state" "read_addr (fetch s) = BOOT_ADDR"
    using boot [OF assms(1) fetch_ok_bus] by blast
  show ?thesis using lagged_run_ok [OF s(2,3) assms(2)] s(1) by (fastforce simp: represents_def)
qed

theorem bus_fetch_lags_witness:
  "let dout = (\<lambda>t. if t \<in> {1, 12} then 0x24420001 else 0) in
    \<exists>s t. cpu_edge True [] S1 0 (cpu_reset cold_cpu) = Inr s \<and> cpu_run True [] dout (11 * 2) s = Inr t \<and>
      rf t 2 = 2 \<and> new_pc t = 8 \<and> read_addr (fetch t) = 4 \<and> asks_for 0 (cpu_run True [] dout 1 s) \<and>
      asks_for 0 (cpu_run True [] dout 12 s)"
proof -
  let ?dout = "\<lambda>t. if t \<in> {1, 12 :: nat} then 0x24420001 else 0 :: u32"
  let ?run = "\<lambda>n. lagged_run (\<lambda>k. ?dout (11 * k + 1)) (\<lambda>k. ?dout (11 * k + 5)) n (BOOT_ADDR, boot_state)"
  have d: "decode 0x24420001 = Some (Itype I_ADDIU 2 2 1)" by code_simp
  have 1: "?run 1 = Some (0, \<lparr>gpr = (\<lambda>_. 0)(2 := 1), ipc = 4\<rparr>)"
    by (simp add: lagged_next_def d boot_state_def BOOT_ADDR_def set_gpr_def)
  then have 2: "?run 2 = Some (4, \<lparr>gpr = (\<lambda>_. 0)(2 := 2), ipc = 8\<rparr>)"
    by (simp add: numeral_2_eq_2 lagged_next_def d set_gpr_def boot_state_def BOOT_ADDR_def)
  from bus_fetch_lags [OF cold_cpu_on 2, of "[]" 0] obtain s t where
    st: "cpu_edge True [] S1 0 (cpu_reset cold_cpu) = Inr s" "cpu_run True [] ?dout (11 * 2) s = Inr t"
      "rf t 2 = 2" "new_pc t = 8" "read_addr (fetch t) = 4"
    and asks: "\<forall>m < 2. \<exists>x. ?run m = Some x \<and> asks_for (fst x) (cpu_run True [] ?dout (11 * m + 1) s)" by auto
  have "asks_for 0 (cpu_run True [] ?dout 1 s)" using asks [rule_format, of 0] by (simp add: BOOT_ADDR_def)
  moreover have "asks_for 0 (cpu_run True [] ?dout 12 s)" using asks [rule_format, of 1] 1 by simp
  ultimately show ?thesis using st unfolding Let_def by blast
qed



text \<open>
  C30. The video controller draws the memory for ever, 800 clocks a line and 525 lines a picture: at the
  pixels of the 640 by 480 area, the colour of their block of 32 by 32 pixels inside a white frame,
  black outside of the area; hsync is low for 96 clocks of each line and vsync for the last two lines
  less one clock; and the index of a pixel never leaves the memory.
\<close>

theorem screen_shows_memory:
  assumes "length mem = 300" "x < 800" "y < 525"
  shows "screen mem (sync_run (Suc (800 * (525 * f + y) + x))) =
    (low_if (703 \<le> x \<and> x < 799), low_if (523 \<le> y \<and> \<not> (x = 799 \<and> y = 524)),
     Inr (if 43 \<le> x \<and> x \<le> 682 \<and> 30 \<le> y \<and> y \<le> 509 then pixel_at mem (x - 43) (y - 30) else BLACK))"
proof -
  let ?n = "800 * (525 * f + y) + x"
  define line where "line = 525 * f + y"
  have "(800 * line + x) mod 800 = x" "(800 * line + x) div 800 = line" using assms(2) by simp_all
  moreover have "line mod 525 = y" using assms(3) by (simp add: line_def)
  ultimately have "?n mod 800 = x" "?n div 800 mod 525 = y" unfolding line_def by (simp_all only:)
  then show ?thesis using screen_clock [OF assms(1), of ?n] by (simp only: Let_def)
qed

theorem screen_shows_memory_witness:
  "screen (replicate 300 0xE0) (sync_run (Suc (800 * (525 * 1 + 31) + 44))) =
    (S1, S1, Inr \<lparr>red = 14, green = 0, blue = 0\<rparr>)"
proof -
  have "byte_color 0xE0 = \<lparr>red = 14, green = 0, blue = 0\<rparr>" by code_simp
  then show ?thesis using screen_shows_memory [of "replicate 300 0xE0" 44 31 1] by (simp add: low_if_def pixel_at_def)
qed

text \<open>
  C31. On the bus of the program built into the processor, the video controller writes the five bytes of
  the program to its memory and changes no other; at edge 148, when the next instruction computes the
  address of the LEDs, it indexes its memory with that address, far outside, and the simulation ends
  with a bounds error.
\<close>

theorem demo_stops_video:
  assumes "power_on s0" "vram_index (im_addr (fetch s0)) < 300"
    and "length (vmem v) = 300" "vram_index (v_addr v) < 300" "bus_access_vram v = S0"
  shows "\<exists>s v'. cpu_edge False example_code S1 d (cpu_reset s0) = Inr s \<and>
    vga_at (bus_at example_code dout s) cs v 148 = Inr v' \<and> vmem v' = demo_picture (vmem v) \<and>
    (\<forall>t \<ge> 149. vga_at (bus_at example_code dout s) cs v t = Inl Out_of_bounds)"
proof -
  obtain s where s: "cpu_edge False example_code S1 d (cpu_reset s0) = Inr s" using example_on_cpu [OF assms(1), of d] by blast
  then have a: "vram_index (im_addr (fetch s)) < 300" using im_addr_reset [OF s] assms(2) by simp
  have v: "vga_fine v" using assms(3-5) by (simp add: vga_fine_def)
  show ?thesis using s demo_vga [OF assms(1) s a v, of dout cs] demo_fault [OF assms(1) s a v] by blast
qed

theorem demo_stops_video_witness:
  "\<exists>s v'. cpu_edge False example_code S1 0 (cpu_reset cold_cpu) = Inr s \<and>
    vga_at (bus_at example_code (\<lambda>_. 0) s) 0 \<lparr>bus_access_vram = S0, v_addr = 0, v_din = 0, mode_idx = 1, vga_data = 0,
      vram_dout = 0, vmem = replicate 300 0\<rparr> 148 = Inr v' \<and> vmem v' ! 280 = 28"
proof -
  have "vram_index (im_addr (fetch cold_cpu)) < 300" by (simp add: cold_cpu_def indices)
  from demo_stops_video [OF cold_cpu_on this, of "\<lparr>bus_access_vram = S0, v_addr = 0, v_din = 0, mode_idx = 1, vga_data = 0,
      vram_dout = 0, vmem = replicate 300 0\<rparr>" 0 "\<lambda>_. 0" 0]
  show ?thesis by (auto simp: indices demo_picture_def)
qed

section \<open>Trees\<close>

text \<open>
  C32. On a red-black tree ordered by the client's comparison, RB_FIND and RB_NFIND return what a linear
  search of the elements in order would, RB_MIN and RB_MAX the ends, RB_NEXT and RB_PREV the neighbours,
  and the two loops visit every element forwards and backwards; none of them runs into NULL or fails to
  end.
\<close>

theorem rb_searches:
  assumes "rbtree s t" "compares cmp key" "ascending key (inord t)" "inord t = as @ x # bs"
  shows "RB_FIND cmp e s = Some (List.find (\<lambda>y. key y = key e) (inord t)) \<and>
    RB_NFIND cmp e s = Some (List.find (\<lambda>y. key e \<le> key y) (inord t)) \<and>
    RB_MIN s = Some (Some (hd (inord t))) \<and> RB_MAX s = Some (Some (last (inord t))) \<and>
    RB_NEXT x s = Some (head_opt bs) \<and> RB_PREV x s = Some (head_opt (rev as)) \<and>
    RB_FOREACH s = Some (inord t) \<and> RB_FOREACH_REVERSE s = Some (rev (inord t))"
proof -
  have "inord t \<noteq> []" using assms(4) by simp
  then show ?thesis
    using rb_find_eq [OF assms(1-3), of e] rb_nfind_eq [OF assms(1-3), of e] rb_neighbours [OF assms(1,4)]
      rb_min_eq [OF assms(1)] rb_max_eq [OF assms(1)] rb_foreach_eq [OF assms(1)]
    by (simp add: head_opt_hd hd_rev)
qed

theorem rb_searches_witness:
  "RB_FIND cmp_nat 3 rb_123 = Some (Some 3) \<and> RB_NFIND cmp_nat 0 rb_123 = Some (Some 1) \<and>
    RB_FOREACH rb_123 = Some [1, 2, 3]"
  using rb_searches [OF rb_123_ok(1,4,5,3), of 3] rb_searches [OF rb_123_ok(1,4,5,3), of 0] rb_123_ok(3)
  by simp

text \<open>
  C33. RB_INSERT either returns an element of equal key and changes nothing, or puts the new element at
  its place in the order; the tree stays red-black (black root, no red node below a red one, the same
  number of black nodes on every path), so its height is at most twice the logarithm of its size.
\<close>

theorem rb_insertion:
  assumes "rbtree s t" "rb_ok t" "compares cmp key" "ascending key (inord t)" "x \<notin> set (inord t)"
  shows "(\<exists>y \<in> set (inord t). key y = key x \<and> RB_INSERT cmp x s = Some (Some y, s)) \<or>
    (\<exists>s' t' as bs. RB_INSERT cmp x s = Some (None, s') \<and> rbtree s' t' \<and> rb_ok t' \<and>
      inord t = as @ bs \<and> inord t' = as @ x # bs \<and> ascending key (inord t') \<and>
      2 ^ ht t' \<le> (length (inord t') + 1) ^ 2)"
proof (rule disjE [OF rb_insert_ok [OF assms]])
  assume "\<exists>s' t' as bs. RB_INSERT cmp x s = Some (None, s') \<and> rbtree s' t' \<and> rb_ok t' \<and>
      inord t = as @ bs \<and> inord t' = as @ x # bs \<and> ascending key (as @ x # bs)"
  then obtain s' t' as bs where i: "RB_INSERT cmp x s = Some (None, s')" "rbtree s' t'" "rb_ok t'"
    "inord t = as @ bs" "inord t' = as @ x # bs" "ascending key (as @ x # bs)" by blast
  have "ascending key (inord t')" using i(5,6) by simp
  with i rb_height [OF i(3)] show ?thesis by blast
qed simp

theorem rb_insertion_witness:
  "\<exists>s' t'. RB_INSERT cmp_nat 5 rb_123 = Some (None, s') \<and> rbtree s' t' \<and> rb_ok t' \<and> set (inord t') = {1, 2, 3, 5}"
proof -
  have "5 \<notin> set (inord rb_123_tree)" unfolding rb_123_ok(3) by simp
  from rb_insertion [OF rb_123_ok(1,2,4,5) this] obtain s' t' as bs where
    i: "RB_INSERT cmp_nat 5 rb_123 = Some (None, s')" "rbtree s' t'" "rb_ok t'"
    "inord rb_123_tree = as @ bs" "inord t' = as @ 5 # bs"
    using rb_123_ok(3) by auto
  have "set (inord t') = insert 5 (set (inord rb_123_tree))" unfolding i(4,5) by auto
  also have "\<dots> = {1, 2, 3, 5}" unfolding rb_123_ok(3) by auto
  finally show ?thesis using i by blast
qed

text \<open>
  C34. RB_REMOVE takes exactly the given element out of a red-black tree, returns it and restores the
  colours, in all the cases of the rebalancing; and the safe loops, whose body may remove the element it
  is at, reach the end and leave exactly the elements the body kept, in a red-black tree.
\<close>

theorem rb_removal:
  assumes "rbtree s t" "rb_ok t" "inord t = as @ x # bs"
  shows "(\<exists>s' t'. RB_REMOVE x s = Some (x, s') \<and> rbtree s' t' \<and> rb_ok t' \<and> inord t' = as @ bs) \<and>
    (\<exists>s' t'. RB_FOREACH_SAFE (rb_drop P) s = Some s' \<and> rbtree s' t' \<and> rb_ok t' \<and>
      inord t' = filter (\<lambda>y. \<not> P y) (inord t)) \<and>
    (\<exists>s' t'. RB_FOREACH_REVERSE_SAFE (rb_drop P) s = Some s' \<and> rbtree s' t' \<and> rb_ok t' \<and>
      inord t' = filter (\<lambda>y. \<not> P y) (inord t))"
  using rb_remove_ok [OF assms] rb_foreach_safe [OF assms(1,2)] by blast

theorem rb_removal_witness:
  "\<exists>s' t'. RB_REMOVE 2 rb_123 = Some (2, s') \<and> rbtree s' t' \<and> rb_ok t' \<and> inord t' = [1, 3]"
  using rb_removal [OF rb_123_ok(1,2,3), of even] by simp

text \<open>
  C35. Every operation of a splay tree ends and acts on the ordered sequence of its elements, however it
  reshapes the tree: finding and the ends return the element and keep the sequence, insertion of a new
  element returns an equal one or puts it in its place, removal takes out the element of equal key, and
  the loop visits the elements in order.
\<close>

theorem splay_operations:
  assumes "splaytree s t" "compares cmp key" "ascending key (inorder t)" "x \<notin> set (inorder t)"
  shows "(\<exists>s' t'. SPLAY_FIND cmp e s = Some (List.find (\<lambda>y. key y = key e) (inorder t), s') \<and>
      splaytree s' t' \<and> inorder t' = inorder t) \<and>
    ((\<exists>y s' t'. y \<in> set (inorder t) \<and> key y = key x \<and> SPLAY_INSERT cmp x s = Some (Some y, s') \<and>
      splaytree s' t' \<and> inorder t' = inorder t) \<or>
     (\<exists>s' t' as bs. SPLAY_INSERT cmp x s = Some (None, s') \<and> splaytree s' t' \<and> inorder t = as @ bs \<and>
      inorder t' = as @ x # bs \<and> ascending key (as @ x # bs))) \<and>
    (\<exists>s' t'. SPLAY_REMOVE cmp e s =
        Some (if \<exists>y \<in> set (inorder t). key y = key e then Some e else None, s') \<and>
      splaytree s' t' \<and> inorder t' = filter (\<lambda>y. key y \<noteq> key e) (inorder t)) \<and>
    (\<exists>s' t'. SPLAY_MIN s = Some (head_opt (inorder t), s') \<and> splaytree s' t' \<and> inorder t' = inorder t) \<and>
    (\<exists>s' t'. SPLAY_MAX s = Some (head_opt (rev (inorder t)), s') \<and> splaytree s' t' \<and> inorder t' = inorder t) \<and>
    (\<exists>s' t'. SPLAY_FOREACH cmp s = Some (inorder t, s') \<and> splaytree s' t' \<and> inorder t' = inorder t)"
  by (intro conjI splay_find_ok [OF assms(1-3)] splay_insert_ok [OF assms] splay_remove_ok [OF assms(1-3)]
      splay_min_ok [OF assms(1)] splay_foreach_ok [OF assms(1-3)])

theorem splay_operations_witness:
  "(\<exists>s' t'. SPLAY_FIND cmp_nat 3 sp_13 = Some (Some 3, s') \<and> splaytree s' t' \<and> inorder t' = [1, 3]) \<and>
    (\<exists>s' t'. SPLAY_REMOVE cmp_nat 3 sp_13 = Some (Some 3, s') \<and> splaytree s' t' \<and> inorder t' = [1])"
  using splay_operations [OF sp_13_ok(1) rb_123_ok(4) sp_13_ok(2), of 2 3] by simp

section \<open>The other list families of queue.h\<close>

text \<open>
  C36. On an SLIST and on a STAILQ that hold as @ x # bs, insertion after x, at either end and removal
  do just that to the sequence, the search of a removal ends, and removing an element that is not there
  runs into NULL.
\<close>

theorem singly_linked_ops:
  assumes "slist s h (as @ x # bs)" "stailq t h (as @ x # bs)" "y \<notin> set (as @ x # bs)"
  shows "(\<exists>s'. SLIST_REMOVE h x s = Some (Inr s') \<and> slist s' h (as @ bs)) \<and>
    (\<exists>t'. STAILQ_REMOVE h x t = Some (Inr t') \<and> stailq t' h (as @ bs)) \<and>
    SLIST_REMOVE h y s = Some (Inl Null_pointer) \<and> STAILQ_REMOVE h y t = Some (Inl Null_pointer) \<and>
    slist (SLIST_INSERT_AFTER x y s) h (as @ x # y # bs) \<and>
    stailq (STAILQ_INSERT_AFTER h x y t) h (as @ x # y # bs) \<and>
    slist (SLIST_INSERT_HEAD h y s) h (y # as @ x # bs) \<and>
    stailq (STAILQ_INSERT_HEAD h y t) h (y # as @ x # bs) \<and>
    stailq (STAILQ_INSERT_TAIL h y t) h (as @ x # bs @ [y]) \<and>
    stailq (STAILQ_REMOVE_HEAD_UNTIL h x t) h bs \<and>
    STAILQ_LAST h t = Inr (Some (last (x # bs))) \<and>
    SLIST_FOREACH h s = Some (as @ x # bs) \<and> STAILQ_FOREACH h t = Some (as @ x # bs)"
  using slist_remove [OF assms(1)] slist_remove_missing [OF assms(1,3)] slist_insert_after [OF assms(1,3)]
    slist_insert_head [OF assms(1,3)] slist.foreach_visits [OF assms(1)]
    stailq_remove [OF assms(2)] stailq_remove_missing [OF assms(2,3)] stailq_insert_after [OF assms(2,3)]
    stailq_insert_head [OF assms(2,3)] stailq_insert_tail [OF assms(2,3)] stailq_remove_until [OF assms(2)]
    stailq_last [OF assms(2)] stailq.foreach_visits [OF assms(2)]
  by (simp add: SLIST_FOREACH_def STAILQ_FOREACH_def)

theorem singly_linked_ops_witness:
  "\<exists>t'. STAILQ_REMOVE 0 2 (fold (STAILQ_INSERT_TAIL 0) [1, 2, 3::nat] (STAILQ_INIT 0 empty_heap)) = Some (Inr t') \<and>
    stailq t' 0 [1, 3]"
proof -
  have s: "slist (fold (SLIST_INSERT_HEAD 0) [3, 2, 1] (SLIST_INIT 0 empty_heap)) 0 ([1] @ 2 # [3::nat])"
    using slist.push_all [of "[3, 2, 1::nat]" 0 empty_heap] by simp
  have t: "stailq (fold (STAILQ_INSERT_TAIL 0) [1, 2, 3] (STAILQ_INIT 0 empty_heap)) 0 ([1] @ 2 # [3::nat])"
    using stailq.append_all_from [OF stailq_init, of "[1, 2, 3::nat]" 0 empty_heap] by simp
  show ?thesis using singly_linked_ops [OF s t, of 4] by simp
qed

text \<open>
  C37. On a LIST and on a CIRCLEQ that hold as @ x # bs, insertion before x, after x, at the ends and
  removal do just that to the sequence; the circular queue is traversed in both directions and stops at
  its head.
\<close>

theorem doubly_linked_ops:
  assumes "listq s h (as @ x # bs)" "circleq t h (as @ x # bs)" "y \<notin> set (as @ x # bs)"
  shows "listq (LIST_REMOVE x s) h (as @ bs) \<and> circleq (CIRCLEQ_REMOVE h x t) h (as @ bs) \<and>
    listq (LIST_INSERT_AFTER x y s) h (as @ x # y # bs) \<and>
    circleq (CIRCLEQ_INSERT_AFTER h x y t) h (as @ x # y # bs) \<and>
    listq (LIST_INSERT_BEFORE x y s) h (as @ y # x # bs) \<and>
    circleq (CIRCLEQ_INSERT_BEFORE h x y t) h (as @ y # x # bs) \<and>
    listq (LIST_INSERT_HEAD h y s) h (y # as @ x # bs) \<and>
    circleq (CIRCLEQ_INSERT_HEAD h y t) h (y # as @ x # bs) \<and>
    circleq (CIRCLEQ_INSERT_TAIL h y t) h (as @ x # bs @ [y]) \<and>
    LIST_FOREACH h s = Some (as @ x # bs) \<and>
    CIRCLEQ_FOREACH h t = Some (as @ x # bs) \<and> CIRCLEQ_FOREACH_REVERSE h t = Some (rev (as @ x # bs))"
  using listq_remove [OF assms(1)] listq_insert_after [OF assms(1,3)] listq_insert_before [OF assms(1,3)]
    listq_insert_head [OF assms(1,3)] listq.foreach_visits [OF assms(1)]
    circleq_remove [OF assms(2)] circleq_insert_after [OF assms(2,3)] circleq_insert_before [OF assms(2,3)]
    circleq_insert_head [OF assms(2,3)] circleq_insert_tail [OF assms(2,3)]
    circleq_foreach [OF assms(2)] circleq_foreach_reverse [OF assms(2)]
  by (simp add: LIST_FOREACH_def)

theorem doubly_linked_ops_witness:
  "circleq (CIRCLEQ_REMOVE 0 2 (fold (CIRCLEQ_INSERT_TAIL 0) [1, 2, 3::nat]
     (CIRCLEQ_INIT 0 \<lparr>cnext = (\<lambda>_. Ring (0::nat)), cprev = (\<lambda>_. Ring 0)\<rparr>))) 0 [1, 3]"
proof -
  have s: "listq (fold (LIST_INSERT_HEAD 0) [3, 2, 1] (LIST_INIT 0 empty_heap)) 0 ([1] @ 2 # [3::nat])"
    using listq.push_all [of "[3, 2, 1::nat]" 0 empty_heap] by simp
  have t: "circleq (fold (CIRCLEQ_INSERT_TAIL 0) [1, 2, 3] (CIRCLEQ_INIT 0 c)) 0 ([1] @ 2 # [3::nat])"
    for c :: "(nat, nat) cheap"
    using circleq.append_all_from [OF circleq_init, of "[1, 2, 3::nat]" 0 c] by simp
  show ?thesis using doubly_linked_ops [OF s t, of 4] by simp
qed



section \<open>The coprocessor 0 header\<close>




end
